(* ===== verification/Prelude.thy ===== *)
theory Prelude
  imports Main "HOL-Library.Word"
begin

text \<open>
  Shared material of the development: the fact collections the component theories add to, the
  32-bit coercions and bitwise operators of JavaScript on numbers that are integers, and
  JavaScript arrays read and written by index.
\<close>

unbundle bit_operations_syntax

named_theorems js_int32 "bitwise operators of JavaScript"
named_theorems js_frame "components of a state an operation leaves alone"

section \<open>Lists\<close>

lemma takeWhile_id: "\<forall>x \<in> set s. P x \<Longrightarrow> takeWhile P s = s"
  by (induction s) auto

lemma dropWhile_id: "\<forall>x \<in> set s. \<not> P x \<Longrightarrow> dropWhile P s = s"
  by (cases s) auto

lemma takeWhile_until: "\<forall>x \<in> set s. P x \<Longrightarrow> \<not> P c \<Longrightarrow> takeWhile P (s @ c # t) = s"
  by (induction s) auto

section \<open>JavaScript's bitwise operators\<close>

text \<open>
  A JavaScript number that is an integer is an \<open>int\<close>. A bitwise operator first coerces its operands
  with ToInt32 (ToUint32 for \<open>>>>\<close>), takes the low five bits of a shift count and returns a
  signed 32-bit integer (an unsigned one for \<open>>>>\<close>). \<open>undefined\<close>, which is what a hole of an
  array reads as, coerces to 0.
\<close>

definition to_int32 :: "int \<Rightarrow> int" where
  "to_int32 x = signed_take_bit 31 x"

definition to_uint32 :: "int \<Rightarrow> int" where
  "to_uint32 x = take_bit 32 x"

definition js_and :: "int \<Rightarrow> int \<Rightarrow> int" where
  "js_and x y = to_int32 x AND to_int32 y"

definition js_or :: "int \<Rightarrow> int \<Rightarrow> int" where
  "js_or x y = to_int32 x OR to_int32 y"

definition js_xor :: "int \<Rightarrow> int \<Rightarrow> int" where
  "js_xor x y = to_int32 x XOR to_int32 y"

definition js_not :: "int \<Rightarrow> int" where
  "js_not x = NOT (to_int32 x)"

definition js_shl :: "int \<Rightarrow> nat \<Rightarrow> int" where
  "js_shl x n = to_int32 (push_bit (n mod 32) (to_int32 x))"

definition js_sar :: "int \<Rightarrow> nat \<Rightarrow> int" where
  "js_sar x n = drop_bit (n mod 32) (to_int32 x)"

definition js_shr :: "int \<Rightarrow> nat \<Rightarrow> int" where
  "js_shr x n = drop_bit (n mod 32) (to_uint32 x)"

text \<open>The 32-bit word a number stands for under these operators.\<close>

abbreviation w32 :: "int \<Rightarrow> 32 word" where
  "w32 x \<equiv> word_of_int x"

lemma bit_w32: "bit (w32 x) n \<longleftrightarrow> n < 32 \<and> bit x n"
  by (simp add: bit_word_of_int_iff)

lemma bit_to_int32: "bit (to_int32 x) n \<longleftrightarrow> bit x (if n < 32 then n else 31)"
proof -
  have "min 31 n = (if n < 32 then n else 31)" by auto
  then show ?thesis by (simp add: to_int32_def bit_signed_take_bit_iff)
qed

lemma bit_to_uint32: "bit (to_uint32 x) n \<longleftrightarrow> n < 32 \<and> bit x n"
  by (simp add: to_uint32_def bit_take_bit_iff)

lemmas js_bits = bit_w32 bit_to_int32 bit_to_uint32 bit_simps

lemma w32_to_int32 [simp]: "w32 (to_int32 x) = w32 x"
  by (rule bit_word_eqI) (simp add: bit_w32 bit_to_int32)

lemma w32_to_uint32 [simp]: "w32 (to_uint32 x) = w32 x"
  by (rule bit_word_eqI) (simp add: bit_w32 bit_to_uint32)

lemma sint_w32: "sint (w32 x) = to_int32 x"
  by (simp add: to_int32_def signed_of_int)

lemma uint_w32: "uint (w32 x) = to_uint32 x"
  by (simp add: to_uint32_def unsigned_of_int)

lemma w32_eq_iff: "w32 x = w32 y \<longleftrightarrow> to_int32 x = to_int32 y"
  by (metis sint_w32 w32_to_int32)

lemma to_int32_range: "- (2 ^ 31) \<le> to_int32 x \<and> to_int32 x < 2 ^ 31"
  using sint_range_size [of "w32 x"] by (simp add: sint_w32 word_size)

lemma to_int32_small: "- (2 ^ 31) \<le> x \<Longrightarrow> x < 2 ^ 31 \<Longrightarrow> to_int32 x = x"
  by (simp add: to_int32_def signed_take_bit_int_eq_self)

lemma to_uint32_small: "0 \<le> x \<Longrightarrow> x < 2 ^ 32 \<Longrightarrow> to_uint32 x = x"
  by (simp add: to_uint32_def take_bit_int_eq_self)

lemma to_int32_idem [simp]: "to_int32 (to_int32 x) = to_int32 x"
  by (simp add: to_int32_def)

lemma w32_and [js_int32]: "w32 (js_and x y) = w32 x AND w32 y"
  by (rule bit_word_eqI) (simp add: js_and_def bit_w32 bit_to_int32 bit_and_iff)

lemma w32_or [js_int32]: "w32 (js_or x y) = w32 x OR w32 y"
  by (rule bit_word_eqI) (simp add: js_or_def bit_w32 bit_to_int32 bit_or_iff)

lemma w32_xor [js_int32]: "w32 (js_xor x y) = w32 x XOR w32 y"
  by (rule bit_word_eqI) (simp add: js_xor_def bit_w32 bit_to_int32 bit_xor_iff)

lemma w32_not [js_int32]: "w32 (js_not x) = NOT (w32 x)"
  by (rule bit_word_eqI) (simp add: js_not_def bit_w32 bit_to_int32 bit_not_iff)

lemma w32_shl [js_int32]: "n < 32 \<Longrightarrow> w32 (js_shl x n) = push_bit n (w32 x)"
  by (rule bit_word_eqI) (auto simp: js_shl_def bit_w32 bit_to_int32 bit_push_bit_iff)

lemma w32_shr [js_int32]: "n < 32 \<Longrightarrow> w32 (js_shr x n) = drop_bit n (w32 x)"
  by (rule bit_word_eqI) (auto simp: js_shr_def bit_w32 bit_to_uint32 bit_drop_bit_eq)

lemma w32_sar [js_int32]: "n < 32 \<Longrightarrow> w32 (js_sar x n) = signed_drop_bit n (w32 x)"
  by (rule bit_word_eqI)
    (auto simp: js_sar_def bit_w32 bit_to_int32 bit_drop_bit_eq bit_signed_drop_bit_iff)

lemma js_sar_small: "0 \<le> x \<Longrightarrow> x < 2 ^ 31 \<Longrightarrow> n < 32 \<Longrightarrow> js_sar x n = x div 2 ^ n"
  by (simp add: js_sar_def to_int32_small drop_bit_eq_div)

lemma js_shr_small: "0 \<le> x \<Longrightarrow> x < 2 ^ 32 \<Longrightarrow> n < 32 \<Longrightarrow> js_shr x n = x div 2 ^ n"
  by (simp add: js_shr_def to_uint32_small drop_bit_eq_div)

section \<open>JavaScript arrays of numbers\<close>

text \<open>
  An array is the list of its elements below its \<open>length\<close>. Reading at or past the length gives
  \<open>undefined\<close>, and a hole reads as \<open>undefined\<close> too: the arrays of this development are read by
  bitwise operators only, where \<open>undefined\<close> is 0. Writing past the length makes the array longer.
\<close>

definition arr_get :: "int list \<Rightarrow> nat \<Rightarrow> int" where
  "arr_get xs i = (if i < length xs then xs ! i else 0)"

definition arr_set :: "int list \<Rightarrow> nat \<Rightarrow> int \<Rightarrow> int list" where
  "arr_set xs i v =
     (if i < length xs then xs[i := v] else xs @ replicate (i - length xs) 0 @ [v])"

lemma length_arr_set [simp]: "length (arr_set xs i v) = max (length xs) (Suc i)"
  by (auto simp: arr_set_def)

lemma arr_get_set [simp]: "arr_get (arr_set xs i v) j = (if i = j then v else arr_get xs j)"
  by (auto simp: arr_get_def arr_set_def nth_append nth_Cons split: nat.splits)

lemma arr_get_beyond: "length xs \<le> i \<Longrightarrow> arr_get xs i = 0"
  by (simp add: arr_get_def)

lemma arr_get_append:
  "arr_get (xs @ ys) i = (if i < length xs then arr_get xs i else arr_get ys (i - length xs))"
  by (auto simp: arr_get_def nth_append)

end
