(* ===== verification/JsString.thy ===== *)
theory JsString
  imports Prelude
begin

text \<open>
  The strings and loosely typed values of the page scripts: \<open>indexOf\<close>, \<open>lastIndexOf\<close>, \<open>slice\<close>,
  \<open>substring\<close> and \<open>split\<close> of the standard library on strings as lists of characters, the decimal
  form of numbers, \<open>unescape\<close>, and values with \<open>==\<close> and \<open><=\<close> as JavaScript coerces them.
\<close>

section \<open>String operations\<close>

text \<open>\<open>indexOf\<close> and \<open>lastIndexOf\<close> of one character; -1 when it does not occur.\<close>

fun index_of :: "'a \<Rightarrow> 'a list \<Rightarrow> int" where
  "index_of c [] = -1"
| "index_of c (x # xs) =
     (if x = c then 0 else let i = index_of c xs in if i = -1 then -1 else i + 1)"

fun last_index_of :: "'a \<Rightarrow> 'a list \<Rightarrow> int" where
  "last_index_of c [] = -1"
| "last_index_of c (x # xs) =
     (let i = last_index_of c xs in if i = -1 then (if x = c then 0 else -1) else i + 1)"

text \<open>\<open>s.slice(i)\<close> and \<open>s.substring(i, j)\<close> for \<open>0 \<le> i\<close>, as the scripts call them.\<close>

definition slice_from :: "int \<Rightarrow> 'a list \<Rightarrow> 'a list" where
  "slice_from i s = drop (nat i) s"

definition substring :: "'a list \<Rightarrow> int \<Rightarrow> int \<Rightarrow> 'a list" where
  "substring s i j =
     (let a = nat i; b = nat j; lo = min a b; hi = max a b in take (hi - lo) (drop lo s))"

fun split_on :: "'a \<Rightarrow> 'a list \<Rightarrow> 'a list list" where
  "split_on c [] = [[]]"
| "split_on c (x # xs) =
     (if x = c then [] # split_on c xs
      else case split_on c xs of [] \<Rightarrow> [[x]] | p # ps \<Rightarrow> (x # p) # ps)"

fun join_with :: "'a list \<Rightarrow> 'a list list \<Rightarrow> 'a list" where
  "join_with sep [] = []"
| "join_with sep [s] = s"
| "join_with sep (s # t # ts) = s @ sep @ join_with sep (t # ts)"

lemma index_of_ge: "- 1 \<le> index_of c s"
  by (induction s) (auto simp: Let_def)

lemma last_index_of_ge: "- 1 \<le> last_index_of c s"
  by (induction s) (auto simp: Let_def)

lemma index_of_none: "index_of c s = - 1 \<longleftrightarrow> c \<notin> set s"
proof (induction s)
  case (Cons x s)
  then show ?case using index_of_ge [of c s] by (auto simp: Let_def)
qed simp

lemma index_of_first: "c \<notin> set xs \<Longrightarrow> index_of c (xs @ c # ys) = int (length xs)"
  by (induction xs) (auto simp: Let_def)

lemma last_index_of_none: "last_index_of c s = - 1 \<longleftrightarrow> c \<notin> set s"
proof (induction s)
  case (Cons x s)
  then show ?case using last_index_of_ge [of c s] by (auto simp: Let_def)
qed simp

lemma last_index_of_append: "c \<notin> set t \<Longrightarrow> last_index_of c (s @ c # t) = int (length s)"
  using last_index_of_none [of c t] by (induction s) (auto simp: Let_def)

text \<open>The part of a string after the last occurrence of a character, or the whole string.\<close>

definition after_last :: "'a \<Rightarrow> 'a list \<Rightarrow> 'a list" where
  "after_last c s = rev (takeWhile (\<lambda>x. x \<noteq> c) (rev s))"

lemma after_last_append [simp]: "c \<notin> set t \<Longrightarrow> after_last c (s @ c # t) = t"
  by (simp add: after_last_def takeWhile_append takeWhile_eq_all_conv [THEN iffD2])

lemma after_last_none [simp]: "c \<notin> set s \<Longrightarrow> after_last c s = s"
proof -
  assume "c \<notin> set s"
  then have "takeWhile (\<lambda>x. x \<noteq> c) (rev s) = rev s" by (auto simp: takeWhile_eq_all_conv)
  then show ?thesis unfolding after_last_def by (simp only: rev_rev_ident)
qed

lemma slice_after_last: "slice_from (last_index_of c s + 1) s = after_last c s"
proof (cases "c \<in> set s")
  case True
  then obtain u v where s: "s = u @ c # v" "c \<notin> set v"
    by (meson split_list_last)
  then have "nat (last_index_of c s + 1) = Suc (length u)"
    by (simp add: last_index_of_append)
  with s show ?thesis by (simp add: slice_from_def)
next
  case False
  then show ?thesis by (simp add: slice_from_def last_index_of_none [THEN iffD2])
qed

lemma substring_after_last:
  "substring s (last_index_of c s + 1) (int (length s)) = after_last c s"
proof -
  have "last_index_of c s < int (length s)"
    by (induction s) (auto simp: Let_def)
  then have "nat (last_index_of c s + 1) \<le> length s" by linarith
  then have "substring s (last_index_of c s + 1) (int (length s)) = slice_from (last_index_of c s + 1) s"
    by (simp add: substring_def slice_from_def Let_def)
  then show ?thesis by (simp add: slice_after_last)
qed

lemma substring_head: "substring (h @ r) 0 (int (length h)) = h"
  by (simp add: substring_def Let_def)

lemma split_on_not_empty [simp]: "split_on c s \<noteq> []"
  by (induction s) (auto split: list.splits)

lemma split_on_id: "c \<notin> set s \<Longrightarrow> split_on c s = [s]"
  by (induction s) auto

lemma split_on_append: "c \<notin> set s \<Longrightarrow> split_on c (s @ c # t) = s # split_on c t"
  by (induction s) auto

lemma split_on_join:
  "ps \<noteq> [] \<Longrightarrow> \<forall>p \<in> set ps. c \<notin> set p \<Longrightarrow> split_on c (join_with [c] ps) = ps"
  by (induction "[c]" ps rule: join_with.induct) (auto simp: split_on_id split_on_append)

lemma join_split_on: "join_with [c] (split_on c s) = s"
proof (induction s)
  case (Cons x s)
  then show ?case
    by (cases "split_on c s"; cases "tl (split_on c s)") (auto simp: neq_Nil_conv)
qed simp

section \<open>Decimal numbers\<close>

fun dec :: "nat \<Rightarrow> string" where
  "dec n = (if n < 10 then [char_of (n + 48)] else dec (n div 10) @ [char_of (n mod 10 + 48)])"

declare dec.simps [simp del]

text \<open>The value of a string of decimal digits.\<close>

definition dec_val :: "string \<Rightarrow> nat" where
  "dec_val s = foldl (\<lambda>n c. n * 10 + (of_char c - 48)) 0 s"

definition is_digit :: "char \<Rightarrow> bool" where
  "is_digit c \<longleftrightarrow> 48 \<le> (of_char c :: nat) \<and> (of_char c :: nat) \<le> 57"

lemma dec_val_append:
  "dec_val (s @ t) = dec_val s * 10 ^ length t + dec_val t"
proof -
  have acc: "foldl (\<lambda>n c. n * 10 + (of_char c - 48)) a t =
      a * 10 ^ length t + foldl (\<lambda>n c. n * 10 + (of_char c - 48)) 0 t" for a :: nat
  proof (induction t arbitrary: a)
    case (Cons c t)
    from Cons [of "a * 10 + (of_char c - 48)"] Cons [of "of_char c - 48"] show ?case
      by (simp add: algebra_simps)
  qed simp
  show ?thesis
    by (simp add: dec_val_def acc [of "foldl _ 0 s"])
qed

lemma of_char_digit: "n < 10 \<Longrightarrow> (of_char (char_of (n + 48)) :: nat) = n + 48"
  by simp

lemma dec_val_digit: "n < 10 \<Longrightarrow> dec_val [char_of (n + 48)] = n"
  by (simp add: dec_val_def)

lemma dec_val_dec [simp]: "dec_val (dec n) = n"
proof (induction n rule: dec.induct)
  case (1 n)
  then show ?case
    by (cases "n < 10") (simp_all add: dec.simps [of n] dec_val_append dec_val_digit)
qed

lemma dec_not_Nil [simp]: "dec n \<noteq> []"
  by (subst dec.simps) simp

lemma dec_digits: "c \<in> set (dec n) \<Longrightarrow> is_digit c"
proof (induction n rule: dec.induct)
  case (1 n)
  then show ?case
    by (cases "n < 10") (auto simp: dec.simps [of n] is_digit_def of_char_digit)
qed

lemma dec_inj: "dec m = dec n \<longleftrightarrow> m = n"
  by (metis dec_val_dec)

section \<open>Loosely typed values\<close>

text \<open>
  The values that pages keep in variables without a fixed type. A string is a list of UTF-16 code
  units here (\<open>u\<close> embeds a literal), since such strings come from the address bar.
\<close>

type_synonym units = "nat list"

abbreviation u :: "string \<Rightarrow> units" where
  "u s \<equiv> map of_char s"

datatype jsval = JUndefined | JNull | JBool bool | JNum int | JNaN | JStr units

text \<open>
  The result of ToNumber: NaN, an infinity, or the decimal \<open>m * 10 ^ e\<close>. The decimal is kept exactly;
  a double is the nearest representable number, which is 0, negative or 1 just when the decimal is,
  up to numbers below the smallest or within half a unit of the last place of a double.
\<close>

datatype number = NaN | Infinite bool | Dec int int

definition js_space :: "nat \<Rightarrow> bool" where
  "js_space c \<longleftrightarrow> c \<in> {9, 10, 11, 12, 13, 32, 160, 0x1680, 0x2028, 0x2029, 0x202F, 0x205F, 0x3000, 0xFEFF}
     \<or> (0x2000 \<le> c \<and> c \<le> 0x200A)"

definition js_trim :: "units \<Rightarrow> units" where
  "js_trim s = rev (dropWhile js_space (rev (dropWhile js_space s)))"

definition digit_in :: "nat \<Rightarrow> nat \<Rightarrow> nat option" where
  "digit_in base c =
     (let d = (if 48 \<le> c \<and> c \<le> 57 then c - 48
               else if 97 \<le> c \<and> c \<le> 122 then c - 87
               else if 65 \<le> c \<and> c \<le> 90 then c - 55 else base)
      in if d < base then Some d else None)"

text \<open>A non-empty string of digits in a base.\<close>

fun digits_acc :: "nat \<Rightarrow> nat \<Rightarrow> units \<Rightarrow> nat option" where
  "digits_acc base n [] = Some n"
| "digits_acc base n (c # cs) =
     (case digit_in base c of None \<Rightarrow> None | Some d \<Rightarrow> digits_acc base (n * base + d) cs)"

definition digits_in :: "nat \<Rightarrow> units \<Rightarrow> nat option" where
  "digits_in base s = (if s = [] then None else digits_acc base 0 s)"

definition signed_digits :: "units \<Rightarrow> int option" where
  "signed_digits s =
     (case s of
        [] \<Rightarrow> None
      | c # cs \<Rightarrow> if c = 43 then map_option int (digits_in 10 cs)
                  else if c = 45 then map_option (\<lambda>n. - int n) (digits_in 10 cs)
                  else map_option int (digits_in 10 s))"

text \<open>An unsigned decimal literal: digits with an optional point and an optional exponent.\<close>

definition unsigned_decimal :: "units \<Rightarrow> number" where
  "unsigned_decimal s =
     (if s = u ''Infinity'' then Infinite True
      else let m = takeWhile (\<lambda>c. c \<noteq> 101 \<and> c \<noteq> 69) s;
               e = drop (length m) s;
               ip = takeWhile (\<lambda>c. c \<noteq> 46) m;
               fp = drop (length ip + 1) m
           in case (digits_in 10 (ip @ fp), if e = [] then Some 0 else signed_digits (tl e)) of
                (Some v, Some x) \<Rightarrow> Dec (int v) (x - int (length fp))
              | _ \<Rightarrow> NaN)"

definition string_to_number :: "units \<Rightarrow> number" where
  "string_to_number str =
     (let s = js_trim str in
      case s of
        [] \<Rightarrow> Dec 0 0
      | c # cs \<Rightarrow>
          if c = 43 then unsigned_decimal cs
          else if c = 45 then
            (case unsigned_decimal cs of NaN \<Rightarrow> NaN | Infinite b \<Rightarrow> Infinite (\<not> b) | Dec m e \<Rightarrow> Dec (- m) e)
          else if c = 48 \<and> cs \<noteq> [] \<and> hd cs \<in> {120, 88} then
            (case digits_in 16 (tl cs) of None \<Rightarrow> NaN | Some n \<Rightarrow> Dec (int n) 0)
          else if c = 48 \<and> cs \<noteq> [] \<and> hd cs \<in> {111, 79} then
            (case digits_in 8 (tl cs) of None \<Rightarrow> NaN | Some n \<Rightarrow> Dec (int n) 0)
          else if c = 48 \<and> cs \<noteq> [] \<and> hd cs \<in> {98, 66} then
            (case digits_in 2 (tl cs) of None \<Rightarrow> NaN | Some n \<Rightarrow> Dec (int n) 0)
          else unsigned_decimal s)"

fun to_number :: "jsval \<Rightarrow> number" where
  "to_number JUndefined = NaN"
| "to_number JNull = Dec 0 0"
| "to_number (JBool b) = Dec (if b then 1 else 0) 0"
| "to_number (JNum n) = Dec n 0"
| "to_number JNaN = NaN"
| "to_number (JStr s) = string_to_number s"

text \<open>Comparison of a number with an integer.\<close>

fun num_eq :: "number \<Rightarrow> int \<Rightarrow> bool" where
  "num_eq (Dec m e) n = (if 0 \<le> e then m * 10 ^ nat e = n else m = n * 10 ^ nat (- e))"
| "num_eq _ n = False"

fun num_le :: "number \<Rightarrow> int \<Rightarrow> bool" where
  "num_le (Dec m e) n = (if 0 \<le> e then m * 10 ^ nat e \<le> n else m \<le> n * 10 ^ nat (- e))"
| "num_le (Infinite b) n = (\<not> b)"
| "num_le NaN n = False"

text \<open>\<open>v == n\<close>, \<open>v <= n\<close> for a number literal and \<open>v == "s"\<close> for a string literal.\<close>

fun loose_eq_num :: "jsval \<Rightarrow> int \<Rightarrow> bool" where
  "loose_eq_num JUndefined n = False"
| "loose_eq_num JNull n = False"
| "loose_eq_num v n = num_eq (to_number v) n"

definition loose_le_num :: "jsval \<Rightarrow> int \<Rightarrow> bool" where
  "loose_le_num v n = num_le (to_number v) n"

fun num_eq_num :: "number \<Rightarrow> number \<Rightarrow> bool" where
  "num_eq_num (Dec m e) (Dec n f) = (m * 10 ^ nat (e - min e f) = n * 10 ^ nat (f - min e f))"
| "num_eq_num (Infinite a) (Infinite b) = (a = b)"
| "num_eq_num _ _ = False"

fun loose_eq_str :: "jsval \<Rightarrow> units \<Rightarrow> bool" where
  "loose_eq_str JUndefined s = False"
| "loose_eq_str JNull s = False"
| "loose_eq_str (JStr t) s = (t = s)"
| "loose_eq_str v s = num_eq_num (to_number v) (string_to_number s)"

text \<open>\<open>parseInt(v)\<close> of a value already holding an integer, or of a string.\<close>

definition parse_int_units :: "units \<Rightarrow> jsval" where
  "parse_int_units str =
     (let s = dropWhile js_space str;
          neg = (s \<noteq> [] \<and> hd s = 45);
          t = (if s \<noteq> [] \<and> hd s \<in> {43, 45} then tl s else s);
          hex = (length t \<ge> 2 \<and> hd t = 48 \<and> t ! 1 \<in> {120, 88});
          base = (if hex then 16 else 10);
          ds = takeWhile (\<lambda>c. digit_in base c \<noteq> None) (if hex then drop 2 t else t)
      in case digits_in base ds of
           None \<Rightarrow> JNaN
         | Some n \<Rightarrow> JNum (if neg then - int n else int n))"

fun parse_int :: "jsval \<Rightarrow> jsval" where
  "parse_int (JNum n) = JNum n"
| "parse_int (JStr s) = parse_int_units s"
| "parse_int _ = JNaN"

text \<open>String conversion of a value, as in concatenation.\<close>

definition int_str :: "int \<Rightarrow> string" where
  "int_str n = (if n < 0 then CHR ''-'' # dec (nat (- n)) else dec (nat n))"

fun to_str :: "jsval \<Rightarrow> units" where
  "to_str JUndefined = u ''undefined''"
| "to_str JNull = u ''null''"
| "to_str (JBool b) = u (if b then ''true'' else ''false'')"
| "to_str (JNum n) = u (int_str n)"
| "to_str JNaN = u ''NaN''"
| "to_str (JStr s) = s"

text \<open>\<open>unescape\<close>: \<open>%uXXXX\<close> and \<open>%XX\<close> become the code unit, anything else stands for itself.\<close>

fun unescape :: "units \<Rightarrow> units" where
  "unescape [] = []"
| "unescape (c # cs) =
     (if c = 37 \<and> length cs \<ge> 5 \<and> hd cs = 117 \<and> digits_in 16 (take 4 (tl cs)) \<noteq> None
      then the (digits_in 16 (take 4 (tl cs))) # unescape (drop 5 cs)
      else if c = 37 \<and> length cs \<ge> 2 \<and> digits_in 16 (take 2 cs) \<noteq> None
      then the (digits_in 16 (take 2 cs)) # unescape (drop 2 cs)
      else c # unescape cs)"

lemma unescape_plain: "37 \<notin> set s \<Longrightarrow> unescape s = s"
  by (induction s) auto

lemmas number_defs = string_to_number_def js_trim_def js_space_def unsigned_decimal_def digits_in_def
  digit_in_def Let_def

lemma string_to_number_digit:
  "string_to_number [48] = Dec 0 0" "string_to_number [49] = Dec 1 0" "string_to_number [] = Dec 0 0"
  by (simp_all add: number_defs)

lemma loose_eq_samples:
  "loose_eq_num (JStr (u ''0'')) 0" "loose_eq_num (JStr []) 0" "\<not> loose_eq_num (JStr (u ''x'')) 0"
  "loose_eq_num (JStr (u '' 1.0e0 '')) 1" "\<not> loose_le_num JUndefined 0" "loose_eq_str (JNum 0) (u ''0'')"
  by (simp_all add: number_defs signed_digits_def loose_le_num_def)

section \<open>Decimal strings as numbers\<close>

lemma digit_in_10: "is_digit c \<Longrightarrow> digit_in 10 (of_char c) = Some (of_char c - 48)"
  by (auto simp: is_digit_def digit_in_def Let_def)

lemma digits_acc_dec_val:
  "\<forall>c \<in> set s. is_digit c \<Longrightarrow> digits_acc 10 a (u s) = Some (a * 10 ^ length s + dec_val s)"
proof (induction s arbitrary: a)
  case (Cons c s)
  have "dec_val (c # s) = (of_char c - 48) * 10 ^ length s + dec_val s"
    using dec_val_append [of "[c]" s] by (simp add: dec_val_def)
  with Cons show ?case by (simp add: digit_in_10 algebra_simps)
qed (simp add: dec_val_def)

lemma digits_in_dec: "digits_in 10 (u (dec k)) = Some k"
  using digits_acc_dec_val [of "dec k" 0] dec_digits [of _ k] by (simp add: digits_in_def)

lemma dec_units:
  "x \<in> set (u (dec k)) \<Longrightarrow> 48 \<le> x \<and> x \<le> 57"
  using dec_digits [of _ k] by (auto simp: is_digit_def)

lemma dec_no_space: "x \<in> set (u (dec k)) \<Longrightarrow> \<not> js_space x"
  using dec_units [of x k] by (auto simp: js_space_def)

lemma js_trim_id: "\<forall>x \<in> set s. \<not> js_space x \<Longrightarrow> js_trim s = s"
  by (simp add: js_trim_def dropWhile_id)

lemma dec_cases:
  obtains c cs where "dec k = c # cs" "is_digit c" "c = CHR ''0'' \<longrightarrow> cs = [] \<and> k = 0"
proof -
  have "dec k = c # cs \<Longrightarrow> c = CHR ''0'' \<Longrightarrow> cs = [] \<and> k = 0" for c cs
  proof (induction k arbitrary: c cs rule: dec.induct)
    case (1 k)
    show ?case
    proof (cases "k < 10")
      case True
      with 1(2,3) have "char_of (k + 48) = CHR ''0''" "cs = []" by (simp_all add: dec.simps [of k])
      moreover from True have "(of_char (char_of (k + 48)) :: nat) = k + 48" by simp
      ultimately show ?thesis by simp
    next
      case False
      then have k: "dec k = dec (k div 10) @ [char_of (k mod 10 + 48)]" by (simp add: dec.simps [of k])
      obtain ds where "dec (k div 10) = c # ds" using 1(2) k by (cases "dec (k div 10)") auto
      with 1(1) [of c ds] False 1(3) have "k div 10 = 0" by simp
      with False show ?thesis by simp
    qed
  qed
  moreover obtain c cs where "dec k = c # cs" by (cases "dec k") auto
  moreover from this have "is_digit c" using dec_digits [of c k] by simp
  ultimately show thesis using that by blast
qed

lemma unsigned_decimal_dec: "unsigned_decimal (u (dec k)) = Dec (int k) 0"
proof -
  let ?s = "u (dec k)"
  have tw: "takeWhile (\<lambda>c. c \<noteq> 101 \<and> c \<noteq> 69) ?s = ?s" "takeWhile (\<lambda>c. c \<noteq> 46) ?s = ?s"
    using dec_units [of _ k] by (intro takeWhile_id; force)+
  moreover have "?s \<noteq> u ''Infinity''"
    using dec_units [of _ k] by (cases ?s) (auto, fastforce)
  ultimately show ?thesis unfolding unsigned_decimal_def Let_def tw using digits_in_dec [of k] by simp
qed

lemma string_to_number_dec: "string_to_number (u (dec k)) = Dec (int k) 0"
proof -
  obtain c cs where c: "dec k = c # cs" "is_digit c" "c = CHR ''0'' \<longrightarrow> cs = [] \<and> k = 0"
    by (rule dec_cases [of k])
  have "js_trim (u (dec k)) = u (dec k)" using dec_no_space by (intro js_trim_id) blast
  moreover have "(of_char c :: nat) \<noteq> 43" "(of_char c :: nat) \<noteq> 45" using c(2) by (auto simp: is_digit_def)
  moreover have "(of_char c :: nat) = 48 \<longrightarrow> cs = []"
  proof
    assume "(of_char c :: nat) = 48"
    then have "(of_char c :: nat) = of_char (CHR ''0'')" by simp
    then have "c = CHR ''0''" by (simp only: of_char_eq_iff)
    then show "cs = []" using c(3) by simp
  qed
  ultimately show ?thesis
    using unsigned_decimal_dec [of k] by (cases "(of_char c :: nat) = 48") (simp_all add: string_to_number_def c(1))
qed

lemma parse_int_dec: "parse_int (JStr (u (dec k))) = JNum (int k)"
proof -
  obtain c cs where c: "dec k = c # cs" "is_digit c" "c = CHR ''0'' \<longrightarrow> cs = [] \<and> k = 0"
    by (rule dec_cases [of k])
  let ?s = "u (dec k)"
  have t: "takeWhile (\<lambda>c. digit_in 10 c \<noteq> None) ?s = ?s"
    using dec_digits [of _ k] by (intro takeWhile_id) (auto simp: digit_in_10)
  have dw: "dropWhile js_space ?s = ?s" using dec_no_space by (intro dropWhile_id) blast
  have "(of_char c :: nat) \<noteq> 43" "(of_char c :: nat) \<noteq> 45" using c(2) by (auto simp: is_digit_def)
  then have sign: "(?s \<noteq> [] \<and> hd ?s = 45) = False" "(?s \<noteq> [] \<and> hd ?s \<in> {43, 45}) = False"
    by (simp_all add: c(1))
  have hex: "(length ?s \<ge> 2 \<and> hd ?s = 48 \<and> ?s ! 1 \<in> {120, 88}) = False"
    using dec_units [OF nth_mem, of 1 k] by (auto simp del: nth_map)
  show ?thesis
    unfolding parse_int.simps parse_int_units_def Let_def dw sign hex if_False t digits_in_dec by simp
qed

end
