(* ===== verification/Cookies.thy ===== *)
theory Cookies
  imports JsString "HOL-Library.Sublist"
begin

text \<open>
  \<open>setCookie\<close>, \<open>getCookie\<close> and \<open>delCookie\<close> (\<open>user.js\<close>, \<open>register.js\<close>, \<open>file-index.js\<close>) over a
  browser's cookie jar. The jar is the list of cookies of the page's origin in creation order, as
  RFC 6265 describes \<open>document.cookie\<close>: an assignment parses the text up to the first semicolon as
  \<open>name=value\<close>, replaces the cookie of that name in place or appends it, and drops what has
  expired; reading joins the pairs with \<open>"; "\<close>. The text the scripts assign ends in an \<open>expires\<close>
  attribute, the only attribute of the model.
\<close>

section \<open>The cookie jar of the browser\<close>

type_synonym time = int  \<comment> \<open>milliseconds\<close>

record cookie =
  cname :: string
  cval :: string
  cexp :: time

type_synonym jar = "cookie list"

definition live :: "time \<Rightarrow> cookie \<Rightarrow> bool" where
  "live now c \<longleftrightarrow> now < cexp c"

fun put_cookie :: "cookie \<Rightarrow> jar \<Rightarrow> jar" where
  "put_cookie c [] = [c]"
| "put_cookie c (d # ds) = (if cname d = cname c then c # ds else d # put_cookie c ds)"

definition is_wsp :: "char \<Rightarrow> bool" where
  "is_wsp c \<longleftrightarrow> c = CHR '' '' \<or> c = CHR 0x09"

definition trim_wsp :: "string \<Rightarrow> string" where
  "trim_wsp s = rev (dropWhile is_wsp (rev (dropWhile is_wsp s)))"

text \<open>The assignment \<open>document.cookie = name + '=' + value + ';expires=' + date\<close>.\<close>

definition assign_cookie :: "time \<Rightarrow> string \<Rightarrow> string \<Rightarrow> time \<Rightarrow> jar \<Rightarrow> jar" where
  "assign_cookie now name val expiry jar =
     (let pair = takeWhile (\<lambda>c. c \<noteq> CHR '';'') (name @ CHR ''='' # val);
          n = takeWhile (\<lambda>c. c \<noteq> CHR ''='') pair;
          v = drop (length n + 1) pair
      in filter (live now)
           (put_cookie \<lparr>cname = trim_wsp n, cval = trim_wsp v, cexp = expiry\<rparr> jar))"

definition cookie_text :: "cookie \<Rightarrow> string" where
  "cookie_text c = cname c @ CHR ''='' # cval c"

definition document_cookie :: "time \<Rightarrow> jar \<Rightarrow> string" where
  "document_cookie now jar = join_with ''; '' (map cookie_text (filter (live now) jar))"

section \<open>The cookie functions of the scripts\<close>

text \<open>
  The lifetime is given in tenths of a day (the scripts pass 1, 7, -1 and 0.1 days).
  \<open>date.setDate(date.getDate() + day)\<close> truncates its argument to whole days, and the string of a
  date has no milliseconds.
\<close>

definition cookie_date :: "time \<Rightarrow> int \<Rightarrow> time" where
  "cookie_date now day10 = (now + day10 div 10 * 86400000) div 1000 * 1000"

definition setCookie :: "time \<Rightarrow> string \<Rightarrow> string \<Rightarrow> int \<Rightarrow> jar \<Rightarrow> jar" where
  "setCookie now name val day10 jar = assign_cookie now name val (cookie_date now day10) jar"

text \<open>The match of \<open>RegExp(name + '=([^;]+)')\<close>: the leftmost place where it succeeds.\<close>

fun match_cookie :: "string \<Rightarrow> string \<Rightarrow> string option" where
  "match_cookie p [] = None"
| "match_cookie p (x # xs) =
     (let v = takeWhile (\<lambda>c. c \<noteq> CHR '';'') (drop (length p) (x # xs))
      in if prefix p (x # xs) \<and> v \<noteq> [] then Some v else match_cookie p xs)"

definition getCookie :: "string \<Rightarrow> string \<Rightarrow> string" where
  "getCookie name doc = (case match_cookie (name @ ''='') doc of Some v \<Rightarrow> v | None \<Rightarrow> [])"

definition delCookie :: "time \<Rightarrow> string \<Rightarrow> jar \<Rightarrow> jar" where
  "delCookie now name jar = setCookie now name [] (- 10) jar"

text \<open>What a script reads: \<open>getCookie\<close> on the current \<open>document.cookie\<close>.\<close>

definition read_cookie :: "time \<Rightarrow> string \<Rightarrow> jar \<Rightarrow> string" where
  "read_cookie now name jar = getCookie name (document_cookie now jar)"

section \<open>Reading back\<close>

text \<open>A pattern without a semicolon never matches across the separator of two cookies.\<close>

lemma prefix_append_semicolon:
  "CHR '';'' \<notin> set p \<Longrightarrow> prefix p (s @ CHR '';'' # r) \<longleftrightarrow> prefix p s"
proof
  assume semi: "CHR '';'' \<notin> set p" and pre: "prefix p (s @ CHR '';'' # r)"
  from pre have "prefix p s \<or> (\<exists>us. p = s @ us \<and> prefix us (CHR '';'' # r))"
    by (simp add: prefix_append)
  with semi show "prefix p s" by (auto simp: prefix_Cons)
qed (simp add: prefix_append)

lemma match_cookie_skip:
  assumes "CHR '';'' \<notin> set p" "p \<noteq> []" "hd p \<noteq> CHR '' ''" "\<not> sublist p s"
  shows "match_cookie p (s @ ''; '' @ r) = match_cookie p r"
  using assms(4)
proof (induction s)
  case Nil
  have "\<not> prefix p (CHR '';'' # CHR '' '' # r)" "\<not> prefix p (CHR '' '' # r)"
    using assms(1-3) by (cases p; auto)+
  then show ?case by (simp add: Let_def)
next
  case (Cons x s)
  then have "\<not> prefix p (x # s)" "\<not> sublist p s"
    by (auto simp: sublist_Cons_right)
  moreover from this(1) have "\<not> prefix p ((x # s) @ CHR '';'' # CHR '' '' # r)"
    using assms(1) by (simp only: prefix_append_semicolon simp_thms)
  ultimately show ?case using Cons.IH by (simp add: Let_def)
qed

lemma match_cookie_none: "\<not> sublist p s \<Longrightarrow> match_cookie p s = None"
  by (induction s) (auto simp: sublist_Cons_right Let_def)

lemma match_cookie_here:
  "v \<noteq> [] \<Longrightarrow> CHR '';'' \<notin> set v \<Longrightarrow> p \<noteq> [] \<Longrightarrow> r = [] \<or> hd r = CHR '';'' \<Longrightarrow>
   match_cookie p (p @ v @ r) = Some v"
proof -
  assume v: "v \<noteq> []" "CHR '';'' \<notin> set v" and p: "p \<noteq> []" and r: "r = [] \<or> hd r = CHR '';''"
  have tw: "takeWhile (\<lambda>c. c \<noteq> CHR '';'') (v @ r) = v"
    using v(2) r by (cases r) (auto simp: takeWhile_append takeWhile_eq_all_conv)
  obtain x xs where px: "p = x # xs" using p by (cases p) auto
  then have "match_cookie p (p @ v @ r) = match_cookie p (x # xs @ v @ r)" by simp
  also have "\<dots> = Some v" using tw v(1) px by (simp add: Let_def)
  finally show ?thesis .
qed

definition plain_name :: "string \<Rightarrow> bool" where
  "plain_name n \<longleftrightarrow> n \<noteq> [] \<and> CHR '';'' \<notin> set n \<and> CHR ''='' \<notin> set n \<and> (\<forall>c \<in> set n. \<not> is_wsp c)"

text \<open>The leftmost cookie that holds the pattern decides; those before it are skipped.\<close>

lemma match_cookie_join:
  assumes n: "plain_name n" and v: "v \<noteq> []" "CHR '';'' \<notin> set v"
    and before: "\<forall>t \<in> set ts. \<not> sublist (n @ ''='') t"
  shows "match_cookie (n @ ''='') (join_with ''; '' (ts @ (n @ CHR ''='' # v) # us)) = Some v"
  using before
proof (induction ts)
  case Nil
  have "match_cookie (n @ ''='') ((n @ ''='') @ v @ r) = Some v" if "r = [] \<or> hd r = CHR '';''" for r
    using v that by (intro match_cookie_here) auto
  from this [of "[]"] this [of "''; '' @ join_with ''; '' us"] show ?case
    by (cases us) simp_all
next
  case (Cons t ts)
  have "join_with ''; '' (t # ts @ (n @ CHR ''='' # v) # us) =
      t @ ''; '' @ join_with ''; '' (ts @ (n @ CHR ''='' # v) # us)"
    by (cases ts) simp_all
  moreover have "match_cookie (n @ ''='') (t @ ''; '' @ r) = match_cookie (n @ ''='') r" for r
    using n Cons.prems by (intro match_cookie_skip) (auto simp: plain_name_def is_wsp_def hd_append)
  moreover have "match_cookie (n @ ''='') (join_with ''; '' (ts @ (n @ CHR ''='' # v) # us)) = Some v"
    using Cons by simp
  ultimately show ?case by (metis append_Cons)
qed

lemma match_cookie_join_none:
  assumes n: "plain_name n" and "\<forall>t \<in> set ts. \<not> sublist (n @ ''='') t"
  shows "match_cookie (n @ ''='') (join_with ''; '' ts) = None"
  using assms(2)
proof (induction ts)
  case (Cons t ts)
  show ?case
  proof (cases ts)
    case Nil
    then show ?thesis using Cons.prems by (simp add: match_cookie_none)
  next
    case (Cons u us)
    then have "join_with ''; '' (t # ts) = t @ ''; '' @ join_with ''; '' ts" by simp
    moreover have "match_cookie (n @ ''='') (t @ ''; '' @ r) = match_cookie (n @ ''='') r" for r
      using n Cons.prems by (intro match_cookie_skip) (auto simp: plain_name_def is_wsp_def hd_append)
    ultimately show ?thesis using Cons.IH Cons.prems by simp
  qed
qed simp

section \<open>The jar of the application\<close>

text \<open>
  \<open>getCookie\<close> searches the joined text, so a name that ends in another name, or a value that holds
  \<open>name=\<close>, is found in its place. The five names the scripts use do not end in one another; for
  values that are clean in this sense the functions behave as a map.
\<close>

definition app_names :: "string list" where
  "app_names = [''Sessionid'', ''currentuser'', ''username'', ''password'', ''smscode'']"

definition clean_val :: "string \<Rightarrow> bool" where
  "clean_val v \<longleftrightarrow> v \<noteq> [] \<and> CHR '';'' \<notin> set v \<and> trim_wsp v = v \<and>
     (\<forall>n \<in> set app_names. \<not> sublist (n @ ''='') v)"

definition clean_jar :: "jar \<Rightarrow> bool" where
  "clean_jar jar \<longleftrightarrow> distinct (map cname jar) \<and>
     (\<forall>c \<in> set jar. cname c \<in> set app_names \<and> clean_val (cval c))"

definition lookup_cookie :: "time \<Rightarrow> jar \<Rightarrow> string \<Rightarrow> string option" where
  "lookup_cookie now jar = map_of (map (\<lambda>c. (cname c, cval c)) (filter (live now) jar))"

lemma app_names_plain: "n \<in> set app_names \<Longrightarrow> plain_name n"
  by (auto simp: app_names_def plain_name_def is_wsp_def)

lemma app_names_suffix: "m \<in> set app_names \<Longrightarrow> n \<in> set app_names \<Longrightarrow> suffix n m \<Longrightarrow> n = m"
  by (auto simp: app_names_def suffix_def Cons_eq_append_conv)

lemma sublist_name_text:
  assumes "CHR ''='' \<notin> set n" "CHR ''='' \<notin> set m"
  shows "sublist (n @ ''='') (m @ CHR ''='' # v) \<longleftrightarrow> suffix n m \<or> sublist (n @ ''='') v"
proof
  assume "sublist (n @ ''='') (m @ CHR ''='' # v)"
  then obtain s t where eq: "m @ CHR ''='' # v = s @ n @ CHR ''='' # t"
    by (auto simp: sublist_def)
  then consider us where "m = s @ us" "us @ CHR ''='' # v = n @ CHR ''='' # t"
    | us where "m @ us = s" "CHR ''='' # v = us @ n @ CHR ''='' # t"
    by (auto simp: append_eq_append_conv2)
  then show "suffix n m \<or> sublist (n @ ''='') v"
  proof cases
    case 1
    have "takeWhile (\<lambda>c. c \<noteq> CHR ''='') (us @ CHR ''='' # v) = us"
      using 1(1) assms(2) by (intro takeWhile_until) auto
    moreover have "takeWhile (\<lambda>c. c \<noteq> CHR ''='') (n @ CHR ''='' # t) = n"
      using assms(1) by (intro takeWhile_until) auto
    ultimately have "us = n" using 1(2) by simp
    with 1 show ?thesis by (auto simp: suffix_def)
  next
    case 2
    show ?thesis
    proof (cases us)
      case Nil
      then have "n = []" using 2(2) assms(1) by (cases n) auto
      then show ?thesis by simp
    next
      case (Cons x us')
      then have "v = us' @ (n @ ''='') @ t" using 2(2) by simp
      then show ?thesis unfolding sublist_def by blast
    qed
  qed
next
  assume "suffix n m \<or> sublist (n @ ''='') v"
  then show "sublist (n @ ''='') (m @ CHR ''='' # v)"
    by (auto simp: suffix_def sublist_def) (metis append.assoc append_Cons append_Nil)+
qed

lemma read_clean:
  assumes jar: "clean_jar jar" and n: "n \<in> set app_names"
  shows "read_cookie now n jar = (case lookup_cookie now jar n of Some v \<Rightarrow> v | None \<Rightarrow> [])"
proof -
  let ?L = "filter (live now) jar"
  have other: "\<not> sublist (n @ ''='') (cookie_text c)" if "c \<in> set ?L" "cname c \<noteq> n" for c
  proof -
    from that jar have "cname c \<in> set app_names" "clean_val (cval c)" by (auto simp: clean_jar_def)
    with that n show ?thesis
      using app_names_suffix [of "cname c" n] app_names_plain [of n] app_names_plain [of "cname c"]
      by (auto simp: cookie_text_def sublist_name_text plain_name_def clean_val_def)
  qed
  show ?thesis
  proof (cases "\<exists>c \<in> set ?L. cname c = n")
    case True
    then obtain pre c post where L: "?L = pre @ c # post" "cname c = n" "\<forall>d \<in> set pre. cname d \<noteq> n"
      using split_list_first_prop [of ?L "\<lambda>c. cname c = n"] by blast
    have "c \<in> set ?L" unfolding L(1) by simp
    then have c: "clean_val (cval c)" using jar by (simp add: clean_jar_def)
    have "match_cookie (n @ ''='') (join_with ''; ''
        (map cookie_text pre @ (n @ CHR ''='' # cval c) # map cookie_text post)) = Some (cval c)"
    proof (rule match_cookie_join [OF app_names_plain [OF n]])
      show "\<forall>t \<in> set (map cookie_text pre). \<not> sublist (n @ ''='') t"
        using other [unfolded L(1)] L(3) by auto
    qed (use c in \<open>auto simp: clean_val_def\<close>)
    moreover have "map_of (map (\<lambda>c. (cname c, cval c)) pre) n = None"
      using L(3) by (auto simp: map_of_eq_None_iff)
    then have "lookup_cookie now jar n = Some (cval c)"
      using L(1,2) by (simp add: lookup_cookie_def map_add_def)
    ultimately show ?thesis
      using L(2) by (simp add: read_cookie_def getCookie_def document_cookie_def L(1) cookie_text_def)
  next
    case False
    then have "lookup_cookie now jar n = None"
      by (auto simp: lookup_cookie_def map_of_eq_None_iff)
    moreover have "match_cookie (n @ ''='') (join_with ''; '' (map cookie_text ?L)) = None"
      using False other by (intro match_cookie_join_none app_names_plain n) auto
    ultimately show ?thesis
      by (simp add: read_cookie_def getCookie_def document_cookie_def)
  qed
qed

section \<open>The interface of a cookie store\<close>

text \<open>
  What the page scripts rely on: reading the name just written gives the value, other names are not
  touched, and a deleted name reads as the empty string. The lifetime of a written value is at least
  a day (ten tenths).
\<close>

locale cookie_store =
  fixes put :: "string \<Rightarrow> string \<Rightarrow> int \<Rightarrow> 'j \<Rightarrow> 'j"
    and del :: "string \<Rightarrow> 'j \<Rightarrow> 'j"
    and get :: "string \<Rightarrow> 'j \<Rightarrow> string"
    and ok_name :: "string \<Rightarrow> bool"
    and ok_val :: "string \<Rightarrow> bool"
    and inv :: "'j \<Rightarrow> bool"
  assumes inv_put: "inv j \<Longrightarrow> ok_name n \<Longrightarrow> ok_val v \<Longrightarrow> 10 \<le> d \<Longrightarrow> inv (put n v d j)"
    and inv_del: "inv j \<Longrightarrow> ok_name n \<Longrightarrow> inv (del n j)"
    and get_put: "inv j \<Longrightarrow> ok_name n \<Longrightarrow> ok_name m \<Longrightarrow> ok_val v \<Longrightarrow> 10 \<le> d \<Longrightarrow>
      get m (put n v d j) = (if m = n then v else get m j)"
    and get_del: "inv j \<Longrightarrow> ok_name n \<Longrightarrow> ok_name m \<Longrightarrow>
      get m (del n j) = (if m = n then [] else get m j)"
begin

text \<open>The cookies of a login: the session, the user and, when asked to, the account.\<close>

definition put_all :: "(string \<times> string \<times> int) list \<Rightarrow> 'j \<Rightarrow> 'j" where
  "put_all xs j = foldl (\<lambda>j (n, v, d). put n v d j) j xs"

definition del_all :: "string list \<Rightarrow> 'j \<Rightarrow> 'j" where
  "del_all ns j = foldl (\<lambda>j n. del n j) j ns"

definition ok_put :: "string \<times> string \<times> int \<Rightarrow> bool" where
  "ok_put = (\<lambda>(n, v, d). ok_name n \<and> ok_val v \<and> 10 \<le> d)"

lemma put_all_spec:
  "inv j \<Longrightarrow> list_all ok_put xs \<Longrightarrow>
   inv (put_all xs j) \<and>
   (ok_name m \<longrightarrow> get m (put_all xs j) =
     (case map_of (rev (map (\<lambda>(n, v, d). (n, v)) xs)) m of Some v \<Rightarrow> v | None \<Rightarrow> get m j))"
proof (induction xs arbitrary: j)
  case (Cons x xs)
  obtain n v d where x: "x = (n, v, d)" by (cases x)
  with Cons have "inv (put n v d j)" "ok_name n" "ok_val v" "10 \<le> d"
    by (auto simp: ok_put_def inv_put)
  with Cons x show ?case
    by (auto simp: put_all_def get_put map_add_def split: option.splits)
qed (simp add: put_all_def)

lemma del_all_spec:
  "inv j \<Longrightarrow> list_all ok_name ns \<Longrightarrow>
   inv (del_all ns j) \<and>
   (ok_name m \<longrightarrow> get m (del_all ns j) = (if m \<in> set ns then [] else get m j))"
  by (induction ns arbitrary: j) (auto simp: del_all_def inv_del get_del)

end

text \<open>The scripts' functions are such a store on clean jars, at any moment.\<close>

lemma cookie_date_future: "10 \<le> d \<Longrightarrow> now < cookie_date now d"
proof -
  assume "10 \<le> d"
  then have "1 \<le> d div 10" by linarith
  then have "now + 86400000 \<le> now + d div 10 * 86400000" by simp
  then show ?thesis unfolding cookie_date_def by linarith
qed

lemma cookie_date_past: "d < 10 \<Longrightarrow> cookie_date now d \<le> now"
proof -
  assume "d < 10"
  then have "d div 10 \<le> 0" by linarith
  then have "now + d div 10 * 86400000 \<le> now" by simp
  then show ?thesis unfolding cookie_date_def by linarith
qed

lemma trim_wsp_plain: "plain_name n \<Longrightarrow> trim_wsp n = n"
proof -
  assume "plain_name n"
  then have w: "\<forall>c \<in> set n. \<not> is_wsp c" by (simp add: plain_name_def)
  then show ?thesis by (simp add: trim_wsp_def dropWhile_id)
qed

lemma assign_plain:
  assumes "plain_name n" "CHR '';'' \<notin> set v"
  shows "assign_cookie now n v e jar =
     filter (live now) (put_cookie \<lparr>cname = n, cval = trim_wsp v, cexp = e\<rparr> jar)"
proof -
  have pair: "takeWhile (\<lambda>c. c \<noteq> CHR '';'') (n @ CHR ''='' # v) = n @ CHR ''='' # v"
    using assms by (intro takeWhile_id) (auto simp: plain_name_def)
  have name: "takeWhile (\<lambda>c. c \<noteq> CHR ''='') (n @ CHR ''='' # v) = n"
    using assms by (intro takeWhile_until) (auto simp: plain_name_def)
  show ?thesis
    unfolding assign_cookie_def Let_def pair name using trim_wsp_plain [OF assms(1)] by simp
qed

lemma set_put_cookie: "set (put_cookie c jar) \<subseteq> insert c (set jar)"
  by (induction jar) auto

lemma map_cname_put: "map cname (put_cookie c jar) =
    (if cname c \<in> set (map cname jar) then map cname jar else map cname jar @ [cname c])"
  by (induction jar) auto

lemma clean_put: "clean_jar jar \<Longrightarrow> cname c \<in> set app_names \<Longrightarrow>
    live now c \<longrightarrow> clean_val (cval c) \<Longrightarrow> clean_jar (filter (live now) (put_cookie c jar))"
proof -
  assume a: "clean_jar jar" "cname c \<in> set app_names" "live now c \<longrightarrow> clean_val (cval c)"
  have "distinct (map cname (put_cookie c jar))"
    using a(1) unfolding map_cname_put by (auto simp: clean_jar_def)
  then show ?thesis
    using a set_put_cookie [of c jar] by (auto simp: clean_jar_def distinct_map_filter)
qed

lemma lookup_put: "distinct (map cname jar) \<Longrightarrow>
    lookup_cookie now (filter (live now) (put_cookie c jar)) m =
    (if m = cname c then (if live now c then Some (cval c) else None) else lookup_cookie now jar m)"
proof (induction jar)
  case (Cons d ds)
  have "cname d = cname c \<Longrightarrow> lookup_cookie now ds (cname c) = None"
    using Cons.prems by (auto simp: lookup_cookie_def map_of_eq_None_iff)
  with Cons show ?case by (auto simp: lookup_cookie_def)
qed (auto simp: lookup_cookie_def)

interpretation jar: cookie_store "setCookie now" "delCookie now" "read_cookie now"
    "\<lambda>n. n \<in> set app_names" clean_val clean_jar for now
proof
  fix j :: jar and n m v :: string and d :: int
  assume j: "clean_jar j" and n: "n \<in> set app_names"
  have del: "delCookie now n j =
      filter (live now) (put_cookie \<lparr>cname = n, cval = [], cexp = cookie_date now (- 10)\<rparr> j)"
    using n by (simp add: delCookie_def setCookie_def assign_plain app_names_plain) (simp add: trim_wsp_def)
  have dead: "\<not> live now \<lparr>cname = n, cval = [], cexp = cookie_date now (- 10)\<rparr>"
    using cookie_date_past [of "- 10" now] by (simp add: live_def)
  show inv_del: "clean_jar (delCookie now n j)"
    unfolding del using j n dead by (intro clean_put) simp_all
  have dist: "distinct (map cname j)" using j by (simp add: clean_jar_def)
  {
    assume m: "m \<in> set app_names"
    show "read_cookie now m (delCookie now n j) = (if m = n then [] else read_cookie now m j)"
      using read_clean [OF inv_del m, of now] read_clean [OF j m, of now] dead
      by (simp add: del lookup_put [OF dist])
  }
  assume v: "clean_val v" "10 \<le> d"
  let ?c = "\<lparr>cname = n, cval = v, cexp = cookie_date now d\<rparr>"
  have put: "setCookie now n v d j = filter (live now) (put_cookie ?c j)"
    using v n by (simp add: setCookie_def assign_plain app_names_plain clean_val_def)
  have live: "live now ?c" using cookie_date_future [OF v(2), of now] by (simp add: live_def)
  show inv_put: "clean_jar (setCookie now n v d j)"
    unfolding put using j n v by (intro clean_put) simp_all
  assume m: "m \<in> set app_names"
  show "read_cookie now m (setCookie now n v d j) = (if m = n then v else read_cookie now m j)"
    using read_clean [OF inv_put m, of now] read_clean [OF j m, of now] live
    by (simp add: put lookup_put [OF dist])
qed

text \<open>Reading at a later moment: the value is there until it expires.\<close>

lemma read_later:
  assumes "clean_jar j" "n \<in> set app_names" "m \<in> set app_names" "clean_val v" "10 \<le> d" "t \<le> t'"
  shows "read_cookie t' m (setCookie t n v d j) =
    (if m = n then if t' < cookie_date t d then v else [] else read_cookie t' m j)"
proof -
  let ?c = "\<lparr>cname = n, cval = v, cexp = cookie_date t d\<rparr>"
  have put: "setCookie t n v d j = filter (live t) (put_cookie ?c j)"
    using assms(2,4) by (simp add: setCookie_def assign_plain app_names_plain clean_val_def)
  have "live t' c \<Longrightarrow> live t c" for c using assms(6) by (simp add: live_def)
  then have "lookup_cookie t' (filter (live t) (put_cookie ?c j)) m =
      lookup_cookie t' (filter (live t') (put_cookie ?c j)) m"
    by (simp add: lookup_cookie_def) (metis (no_types, lifting))
  also have "\<dots> = (if m = n then if t' < cookie_date t d then Some v else None else lookup_cookie t' j m)"
    using assms(1) by (simp add: lookup_put clean_jar_def live_def)
  finally have "lookup_cookie t' (setCookie t n v d j) m =
    (if m = n then if t' < cookie_date t d then Some v else None else lookup_cookie t' j m)"
    unfolding put .
  then show ?thesis
    using read_clean [OF jar.inv_put [OF assms(1,2,4,5)] assms(3), of t'] read_clean [OF assms(1,3), of t']
    by simp
qed

lemma cookie_date_bounds:
  "now + d div 10 * 86400000 - 1000 < cookie_date now d" "cookie_date now d \<le> now + d div 10 * 86400000"
  unfolding cookie_date_def by linarith+

end
