(* ===== verification/Json.thy ===== *)
theory Json
  imports JsString
begin

text \<open>
  \<open>JSON.stringify\<close> and \<open>JSON.parse\<close> (which \<open>jQuery.parseJSON\<close> is) on the values the scripts
  exchange: null, booleans, integers, strings, arrays and objects whose properties are in insertion
  order. Fractions, exponents and \<open>\u\<close> escapes above FF are not parsed. The parser is the usual
  recursive descent; its first argument bounds the depth of the recursion, and \<open>json_parse_stringify\<close>
  shows that the bound of \<open>json_parse\<close> is never what makes a printed value fail.
\<close>

datatype json =
  JSNull | JSBool bool | JSInt int | JSString string | JSArr "json list" | JSObj "(string \<times> json) list"

section \<open>Printing\<close>

definition hex1 :: "nat \<Rightarrow> char" where
  "hex1 n = char_of (if n < 10 then n + 48 else n + 87)"

definition escape_char :: "char \<Rightarrow> string" where
  "escape_char c =
     (let n = of_char c :: nat in
      if n = 34 then [CHR 0x5C, CHR 0x22]
      else if n = 92 then [CHR 0x5C, CHR 0x5C]
      else if n = 8 then [CHR 0x5C, CHR ''b'']
      else if n = 12 then [CHR 0x5C, CHR ''f'']
      else if n = 10 then [CHR 0x5C, CHR ''n'']
      else if n = 13 then [CHR 0x5C, CHR ''r'']
      else if n = 9 then [CHR 0x5C, CHR ''t'']
      else if n < 32 then [CHR 0x5C, CHR ''u'', CHR ''0'', CHR ''0'', hex1 (n div 16), hex1 (n mod 16)]
      else [c])"

definition quote :: "string \<Rightarrow> string" where
  "quote s = CHR 0x22 # concat (map escape_char s) @ [CHR 0x22]"

fun stringify :: "json \<Rightarrow> string" and stringify_list :: "json list \<Rightarrow> string"
  and stringify_props :: "(string \<times> json) list \<Rightarrow> string" where
  "stringify JSNull = ''null''"
| "stringify (JSBool b) = (if b then ''true'' else ''false'')"
| "stringify (JSInt n) = int_str n"
| "stringify (JSString s) = quote s"
| "stringify (JSArr xs) = CHR ''['' # stringify_list xs @ '']''"
| "stringify (JSObj ps) = CHR ''{'' # stringify_props ps @ ''}''"
| "stringify_list [] = []"
| "stringify_list [x] = stringify x"
| "stringify_list (x # y # ys) = stringify x @ CHR '','' # stringify_list (y # ys)"
| "stringify_props [] = []"
| "stringify_props [(k, x)] = quote k @ CHR '':'' # stringify x"
| "stringify_props ((k, x) # p # ps) = quote k @ CHR '':'' # stringify x @ CHR '','' # stringify_props (p # ps)"

section \<open>Parsing\<close>

definition json_space :: "char \<Rightarrow> bool" where
  "json_space c \<longleftrightarrow> c = CHR '' '' \<or> c = CHR 0x09 \<or> c = CHR 0x0A \<or> c = CHR 0x0D"

definition skip :: "string \<Rightarrow> string" where
  "skip s = dropWhile json_space s"

definition unescape_char :: "char \<Rightarrow> char option" where
  "unescape_char e =
     (if e = CHR 0x22 \<or> e = CHR 0x5C \<or> e = CHR ''/'' then Some e
      else if e = CHR ''b'' then Some (CHR 0x08)
      else if e = CHR ''f'' then Some (CHR 0x0C)
      else if e = CHR ''n'' then Some (CHR 0x0A)
      else if e = CHR ''r'' then Some (CHR 0x0D)
      else if e = CHR ''t'' then Some (CHR 0x09)
      else None)"

text \<open>The rest of a string literal, after its opening quote.\<close>

fun string_body :: "string \<Rightarrow> (string \<times> string) option" where
  "string_body [] = None"
| "string_body (c # cs) =
     (if c = CHR 0x22 then Some ([], cs)
      else if c = CHR 0x5C then
        (case cs of
           [] \<Rightarrow> None
         | e # r \<Rightarrow>
             (if e = CHR ''u'' then
                (case digits_in 16 (u (take 4 r)) of
                   None \<Rightarrow> None
                 | Some n \<Rightarrow>
                     (if length r < 4 \<or> 256 \<le> n then None
                      else map_option (\<lambda>(s, t). (char_of n # s, t)) (string_body (drop 4 r))))
              else case unescape_char e of
                     None \<Rightarrow> None
                   | Some d \<Rightarrow> map_option (\<lambda>(s, t). (d # s, t)) (string_body r)))
      else if (of_char c :: nat) < 32 then None
      else map_option (\<lambda>(s, t). (c # s, t)) (string_body cs))"

definition number_body :: "string \<Rightarrow> (nat \<times> string) option" where
  "number_body s =
     (let ds = takeWhile is_digit s; r = drop (length ds) s
      in if ds = [] \<or> (hd ds = CHR ''0'' \<and> tl ds \<noteq> []) \<or>
            (r \<noteq> [] \<and> hd r \<in> {CHR ''.'', CHR ''e'', CHR ''E''}) then None
         else Some (dec_val ds, r))"

definition literal :: "string \<Rightarrow> string \<Rightarrow> json \<Rightarrow> (json \<times> string) option" where
  "literal w s j = (if take (length w) s = w then Some (j, drop (length w) s) else None)"

fun parse_value :: "nat \<Rightarrow> string \<Rightarrow> (json \<times> string) option"
  and parse_list :: "nat \<Rightarrow> string \<Rightarrow> (json list \<times> string) option"
  and parse_props :: "nat \<Rightarrow> string \<Rightarrow> ((string \<times> json) list \<times> string) option" where
  "parse_value 0 s = None"
| "parse_value (Suc n) str =
     (let s = skip str in
      case s of
        [] \<Rightarrow> None
      | c # cs \<Rightarrow>
          if c = CHR 0x22 then map_option (\<lambda>(x, r). (JSString x, r)) (string_body cs)
          else if c = CHR ''['' then
            (case skip cs of
               [] \<Rightarrow> None
             | d # r \<Rightarrow> if d = CHR '']'' then Some (JSArr [], r)
                        else map_option (\<lambda>(xs, t). (JSArr xs, t)) (parse_list n (d # r)))
          else if c = CHR ''{'' then
            (case skip cs of
               [] \<Rightarrow> None
             | d # r \<Rightarrow> if d = CHR ''}'' then Some (JSObj [], r)
                        else map_option (\<lambda>(ps, t). (JSObj ps, t)) (parse_props n (d # r)))
          else if c = CHR ''n'' then literal ''null'' s JSNull
          else if c = CHR ''t'' then literal ''true'' s (JSBool True)
          else if c = CHR ''f'' then literal ''false'' s (JSBool False)
          else if c = CHR ''-'' then map_option (\<lambda>(m, r). (JSInt (- int m), r)) (number_body cs)
          else map_option (\<lambda>(m, r). (JSInt (int m), r)) (number_body s))"
| "parse_list 0 s = None"
| "parse_list (Suc n) s =
     (case parse_value n s of
        None \<Rightarrow> None
      | Some (x, r) \<Rightarrow>
          (case skip r of
             [] \<Rightarrow> None
           | c # t \<Rightarrow> if c = CHR '']'' then Some ([x], t)
                      else if c = CHR '','' then map_option (\<lambda>(xs, w). (x # xs, w)) (parse_list n t)
                      else None))"
| "parse_props 0 s = None"
| "parse_props (Suc n) s =
     (case skip s of
        [] \<Rightarrow> None
      | q # body \<Rightarrow>
          (case (if q = CHR 0x22 then string_body body else None) of
             None \<Rightarrow> None
           | Some (k, r) \<Rightarrow>
               (case skip r of
                  [] \<Rightarrow> None
                | col # r' \<Rightarrow>
                    (case (if col = CHR '':'' then parse_value n r' else None) of
                       None \<Rightarrow> None
                     | Some (x, r'') \<Rightarrow>
                         (case skip r'' of
                            [] \<Rightarrow> None
                          | c # t \<Rightarrow> if c = CHR ''}'' then Some ([(k, x)], t)
                                     else if c = CHR '','' then
                                       map_option (\<lambda>(ps, w). ((k, x) # ps, w)) (parse_props n t)
                                     else None)))))"

definition json_parse :: "string \<Rightarrow> json option" where
  "json_parse s =
     (case parse_value (Suc (length s)) s of
        Some (j, r) \<Rightarrow> (if skip r = [] then Some j else None)
      | None \<Rightarrow> None)"

text \<open>\<open>obj.k\<close> of a parsed object; \<open>None\<close> is undefined. The last property of a name counts.\<close>

fun json_get :: "json \<Rightarrow> string \<Rightarrow> json option" where
  "json_get (JSObj ps) k = map_of (rev ps) k"
| "json_get _ k = None"

section \<open>Parsing undoes printing\<close>

lemma digits_in_hex1: "m < 16 \<Longrightarrow> digit_in 16 (of_char (hex1 m)) = Some m"
  by (auto simp: hex1_def digit_in_def)

lemma digit_in_zero: "digit_in 16 48 = Some 0"
  by (simp add: digit_in_def)

lemma char_of_escaped:
  "char_of (34 :: nat) = CHR 0x22" "char_of (92 :: nat) = CHR 0x5C" "char_of (8 :: nat) = CHR 0x08"
  "char_of (12 :: nat) = CHR 0x0C" "char_of (10 :: nat) = CHR 0x0A" "char_of (13 :: nat) = CHR 0x0D"
  "char_of (9 :: nat) = CHR 0x09"
  by code_simp+

lemma string_body_escape:
  "string_body (escape_char c @ r) = map_option (\<lambda>(s, t). (c # s, t)) (string_body r)"
proof -
  let ?n = "of_char c :: nat"
  have eq: "c = char_of n" if "?n = n" for n
    using that by (simp flip: that)
  consider "?n = 34" | "?n = 92" | "?n = 8" | "?n = 12" | "?n = 10" | "?n = 13" | "?n = 9"
    | "?n < 32" "?n \<notin> {8, 9, 10, 12, 13}" | "32 \<le> ?n" "?n \<noteq> 34" "?n \<noteq> 92"
    by (cases "?n < 32") auto
  then show ?thesis
  proof cases
    case 1
    show ?thesis unfolding eq [OF 1] char_of_escaped
      by (simp add: escape_char_def unescape_char_def)
  next
    case 2
    show ?thesis unfolding eq [OF 2] char_of_escaped
      by (simp add: escape_char_def unescape_char_def)
  next
    case 3
    show ?thesis unfolding eq [OF 3] char_of_escaped
      by (simp add: escape_char_def unescape_char_def)
  next
    case 4
    show ?thesis unfolding eq [OF 4] char_of_escaped
      by (simp add: escape_char_def unescape_char_def)
  next
    case 5
    show ?thesis unfolding eq [OF 5] char_of_escaped
      by (simp add: escape_char_def unescape_char_def)
  next
    case 6
    show ?thesis unfolding eq [OF 6] char_of_escaped
      by (simp add: escape_char_def unescape_char_def)
  next
    case 7
    show ?thesis unfolding eq [OF 7] char_of_escaped
      by (simp add: escape_char_def unescape_char_def)
  next
    case 8
    have "digits_in 16 (map of_char [CHR ''0'', CHR ''0'', hex1 (?n div 16), hex1 (?n mod 16)]) = Some ?n"
      using 8(1) by (simp add: digits_in_def digits_in_hex1 digit_in_zero)
    with 8 show ?thesis by (simp add: escape_char_def Let_def)
  next
    case 9
    then have "c \<noteq> CHR 0x22" "c \<noteq> CHR 0x5C" by auto
    with 9 show ?thesis by (simp add: escape_char_def Let_def)
  qed
qed

lemma string_body_quote: "string_body (concat (map escape_char s) @ CHR 0x22 # r) = Some (s, r)"
  by (induction s) (simp_all add: string_body_escape)

text \<open>What may follow a printed value: nothing that would extend a number.\<close>

definition ends :: "string \<Rightarrow> bool" where
  "ends r \<longleftrightarrow> r = [] \<or> hd r \<in> {CHR '','', CHR '']'', CHR ''}''}"

lemma dec_no_leading_zero: "hd (dec n) = CHR ''0'' \<Longrightarrow> tl (dec n) = []"
proof (induction n rule: dec.induct)
  case (1 n)
  show ?case
  proof (cases "n < 10")
    case False
    then have "dec n = dec (n div 10) @ [char_of (n mod 10 + 48)]" by (subst dec.simps) simp
    then have "hd (dec (n div 10)) = CHR ''0''" using 1(2) by (simp add: hd_append)
    then have "tl (dec (n div 10)) = []" using 1(1) False by simp
    with \<open>hd (dec (n div 10)) = CHR ''0''\<close> have "dec (n div 10) = ''0''"
      by (cases "dec (n div 10)") auto
    then have "n div 10 = 0" using dec_val_dec [of "n div 10"] by (simp add: dec_val_def)
    with False show ?thesis by simp
  qed (subst dec.simps, simp)
qed

lemma number_body_dec: "ends r \<Longrightarrow> number_body (dec n @ r) = Some (n, r)"
proof -
  assume r: "ends r"
  have "takeWhile is_digit (dec n @ r) = dec n"
    using r dec_digits [of _ n] by (cases r) (auto simp: takeWhile_append ends_def is_digit_def)
  moreover have "\<not> (hd (dec n) = CHR ''0'' \<and> tl (dec n) \<noteq> [])" using dec_no_leading_zero by blast
  moreover have "\<not> (r \<noteq> [] \<and> hd r \<in> {CHR ''.'', CHR ''e'', CHR ''E''})"
    using r by (auto simp: ends_def)
  ultimately show ?thesis unfolding number_body_def Let_def by simp
qed

lemma skip_here: "\<not> json_space c \<Longrightarrow> skip (c # s) = c # s"
  by (simp add: skip_def)

lemma is_digit_not_space: "is_digit c \<Longrightarrow> \<not> json_space c"
  by (auto simp: is_digit_def json_space_def)

lemma hd_dec_digit: "is_digit (hd (dec n))"
  using dec_digits [of "hd (dec n)" n] by simp

text \<open>The depth a value needs.\<close>

fun need :: "json \<Rightarrow> nat" and need_list :: "json list \<Rightarrow> nat" and need_props :: "(string \<times> json) list \<Rightarrow> nat" where
  "need (JSArr xs) = Suc (need_list xs)"
| "need (JSObj ps) = Suc (need_props ps)"
| "need _ = 1"
| "need_list [] = 0"
| "need_list (x # xs) = Suc (max (need x) (need_list xs))"
| "need_props [] = 0"
| "need_props ((k, x) # ps) = Suc (max (need x) (need_props ps))"

lemma stringify_start:
  obtains c s where "stringify j = c # s" "\<not> json_space c" "c \<noteq> CHR '']''"
proof -
  have "\<exists>c s. stringify j = c # s \<and> \<not> json_space c \<and> c \<noteq> CHR '']''"
  proof (cases j)
    case (JSInt n)
    obtain c cs where "dec (nat n) = c # cs" "is_digit c"
      using hd_dec_digit [of "nat n"] by (cases "dec (nat n)") auto
    moreover from this(2) have "\<not> json_space c" "c \<noteq> CHR '']''"
      by (auto simp: json_space_def is_digit_def)
    moreover have "\<not> json_space (CHR ''-'')" by (simp add: json_space_def)
    ultimately show ?thesis using JSInt by (cases "n < 0") (simp_all add: int_str_def)
  qed (auto simp: json_space_def quote_def)
  with that show ?thesis by blast
qed

lemma parse_value_int: "ends r \<Longrightarrow> 0 < n \<Longrightarrow> parse_value n (int_str i @ r) = Some (JSInt i, r)"
proof -
  assume r: "ends r" and "0 < n"
  then obtain m where n: "n = Suc m" by (cases n) auto
  show ?thesis
  proof (cases "i < 0")
    case True
    then show ?thesis
      using number_body_dec [OF r, of "nat (- i)"] by (simp add: n int_str_def skip_here json_space_def)
  next
    case False
    define k where "k = nat i"
    obtain c cs where c: "dec k = c # cs" "is_digit c" using hd_dec_digit [of k] by (cases "dec k") auto
    then have "\<not> json_space c" "c \<notin> {CHR 0x22, CHR ''['', CHR ''{'', CHR ''n'', CHR ''t'', CHR ''f'', CHR ''-''}"
      by (auto simp: is_digit_def json_space_def)
    moreover have "number_body (c # cs @ r) = Some (k, r)" using number_body_dec [OF r, of k] c(1) by simp
    ultimately show ?thesis using False c(1) by (simp add: n int_str_def skip_here flip: k_def) (simp add: k_def)
  qed
qed

lemma parse_printed:
  "need j \<le> n \<Longrightarrow> ends r \<Longrightarrow> parse_value n (stringify j @ r) = Some (j, r)"
  "xs \<noteq> [] \<Longrightarrow> need_list xs \<le> n \<Longrightarrow> parse_list n (stringify_list xs @ CHR '']'' # r) = Some (xs, r)"
  "ps \<noteq> [] \<Longrightarrow> need_props ps \<le> n \<Longrightarrow> parse_props n (stringify_props ps @ CHR ''}'' # r) = Some (ps, r)"
proof (induction j and xs and ps arbitrary: n r and n r and n r rule: stringify_stringify_list_stringify_props.induct)
  case (3 i)
  then show ?case by (simp add: parse_value_int)
next
  case (4 s)
  then show ?case by (cases n) (simp_all add: quote_def skip_here json_space_def string_body_quote)
next
  case (5 xs)
  then obtain m where n: "n = Suc m" "need_list xs \<le> m" by (cases n) auto
  show ?case
  proof (cases xs)
    case Nil
    then show ?thesis by (simp add: n skip_here json_space_def)
  next
    case (Cons x xs')
    obtain c s where c: "stringify x = c # s" "\<not> json_space c" "c \<noteq> CHR '']''" by (rule stringify_start)
    then obtain s' where "stringify_list xs = c # s'" using Cons by (cases xs') auto
    with c 5 (1) [OF _ n(2), of r] Cons show ?thesis by (simp add: n skip_here json_space_def)
  qed
next
  case (6 ps)
  then obtain m where n: "n = Suc m" "need_props ps \<le> m" by (cases n) auto
  show ?case
  proof (cases ps)
    case Nil
    then show ?thesis by (simp add: n skip_here json_space_def)
  next
    case (Cons p ps')
    then obtain s' where "stringify_props ps = CHR 0x22 # s'" by (cases p; cases ps') (auto simp: quote_def)
    with 6 (1) [OF _ n(2), of r] Cons show ?thesis by (simp add: n skip_here json_space_def)
  qed
next
  case (8 x)
  then obtain m where n: "n = Suc m" "need x \<le> m" by (cases n) auto
  then show ?case using "8.IH" [OF n(2), of "CHR '']'' # r"] by (simp add: ends_def skip_here json_space_def)
next
  case (9 x y ys)
  then obtain m where n: "n = Suc m" "need x \<le> m" "need_list (y # ys) \<le> m" by (cases n) auto
  then show ?case using "9.IH"(1) [OF n(2)] "9.IH"(2) [OF _ n(3)]
    by (simp add: ends_def skip_here json_space_def)
next
  case (11 k x)
  then obtain m where n: "n = Suc m" "need x \<le> m" by (cases n) auto
  then show ?case using "11.IH" [OF n(2), of "CHR ''}'' # r"]
    by (simp add: quote_def string_body_quote ends_def skip_here json_space_def)
next
  case (12 k x p ps)
  then obtain m where n: "n = Suc m" "need x \<le> m" "need_props (p # ps) \<le> m" by (cases n) auto
  then show ?case using "12.IH"(1) [OF n(2)] "12.IH"(2) [OF _ n(3)]
    by (simp add: quote_def string_body_quote ends_def skip_here json_space_def)
next
  case 1 then show ?case by (cases n) (simp_all add: literal_def skip_here json_space_def)
next
  case (2 b) then show ?case by (cases n; cases b) (simp_all add: literal_def skip_here json_space_def)
qed simp_all

lemma need_length:
  "need j \<le> length (stringify j)"
  "need_list xs \<le> Suc (length (stringify_list xs))"
  "need_props ps \<le> Suc (length (stringify_props ps))"
  by (induction j and xs and ps rule: stringify_stringify_list_stringify_props.induct)
    (auto simp: int_str_def quote_def Suc_le_eq)

lemma json_parse_stringify: "json_parse (stringify j) = Some j"
proof -
  have "need j \<le> Suc (length (stringify j))" using need_length(1) [of j] by simp
  then have "parse_value (Suc (length (stringify j))) (stringify j @ []) = Some (j, [])"
    by (rule parse_printed(1)) (simp add: ends_def)
  then show ?thesis by (simp add: json_parse_def skip_def)
qed

end
