(* ===== verification/Browser.thy ===== *)
theory Browser
  imports Cookies Json
begin

text \<open>
  What the page scripts see of a browser: the cookie jar, the elements they show, hide, label and
  read, the panels they prepend to the page body, the dialogs and navigations they cause, and the
  AJAX requests that are under way. A request keeps its success handler as a constructor of
  \<open>callback\<close> that holds the variables the closure captures; the handlers themselves are
  definitions of the pages. A character of a string is a UTF-16 code unit below 256; the Chinese texts
  of dialogs and labels appear in English. Values of global variables without a fixed type are \<open>jsval\<close>.
\<close>

section \<open>Requests and responses\<close>

datatype body =
  NoBody
| Query "(string \<times> jsval) list"
| JsonText string
| FileForm "string option"  \<comment> \<open>the chosen file of the form data\<close>

datatype callback =
  FileListLoaded jsval string jsval jsval  \<comment> \<open>\<open>pagenum\<close>, \<open>kind\<close>, \<open>del\<close>, \<open>parent_id\<close>\<close>
| MessagesLoaded
| MessageRead
| DirCreated
| ParentLoaded
| Killed
| FileStored string string string  \<comment> \<open>\<open>tmp_imgname\<close>, \<open>fileFormat\<close>, \<open>fileKind\<close>\<close>
| FileRecorded
| AnonymousLeft
| AnonymousListLoaded string  \<comment> \<open>\<open>kindstr\<close>\<close>
| LoggedIn string  \<comment> \<open>\<open>redictUrl\<close>\<close>
| CodeSent
| LoggedOut string  \<comment> \<open>\<open>redictUrl\<close>\<close>
| InfoLoaded
| InfoUpdated
| PswdUpdated
| SmsSent
| Registered string  \<comment> \<open>\<open>redictUrl\<close>\<close>

record request =
  rq_method :: string
  rq_url :: string
  rq_session :: "string option"  \<comment> \<open>the \<open>Sessionid\<close> header\<close>
  rq_body :: body
  rq_done :: callback

text \<open>The rows of the server: files, anonymous files, messages and the user.\<close>

record file_item =
  fi_id :: jsval
  fi_title :: string
  fi_kind :: string
  fi_hash_code :: string
  fi_size :: nat
  fi_upload_time :: string

record anon_file =
  af_name :: string
  af_hascode :: string
  af_size :: nat
  af_time :: int  \<comment> \<open>seconds since the epoch\<close>

record message =
  ms_id :: int
  ms_title :: string
  ms_content :: string

text \<open>A parsed response; each \<open>data\<close> field is \<open>None\<close> where \<open>res.data == null\<close>.\<close>

record response =
  rs_status :: int
  rs_msg :: string
  rs_files :: "file_item list option"
  rs_file :: "file_item option"
  rs_anon :: "anon_file list option"
  rs_messages :: "message list option"
  rs_data :: "json option"
  rs_code :: int
  rs_hashname :: string
  rs_size :: nat

section \<open>The page\<close>

record panel =
  pn_id :: string
  pn_shown :: bool
  pn_texts :: "string list"
  pn_inputs :: "(string \<times> string) list"  \<comment> \<open>id and value\<close>

record browser =
  now :: time
  jar :: jar
  shown :: "string \<Rightarrow> bool"
  label :: "string \<Rightarrow> string"
  inputs :: "string \<Rightarrow> string option"
  checks :: "string \<Rightarrow> bool option"
  panels :: "panel list"
  alerts :: "string list"
  visits :: "string list"
  opened :: "string list"
  pending :: "request list"
  errors :: "string list"  \<comment> \<open>uncaught exceptions\<close>

definition js_show :: "string \<Rightarrow> 'a browser_scheme \<Rightarrow> 'a browser_scheme" where
  "js_show i b = b\<lparr>shown := (shown b)(i := True)\<rparr>"

definition js_hide :: "string \<Rightarrow> 'a browser_scheme \<Rightarrow> 'a browser_scheme" where
  "js_hide i b = b\<lparr>shown := (shown b)(i := False)\<rparr>"

definition set_text :: "string \<Rightarrow> string \<Rightarrow> 'a browser_scheme \<Rightarrow> 'a browser_scheme" where
  "set_text i s b = b\<lparr>label := (label b)(i := s)\<rparr>"

definition js_alert :: "string \<Rightarrow> 'a browser_scheme \<Rightarrow> 'a browser_scheme" where
  "js_alert s b = b\<lparr>alerts := alerts b @ [s]\<rparr>"

definition goto :: "string \<Rightarrow> 'a browser_scheme \<Rightarrow> 'a browser_scheme" where
  "goto s b = b\<lparr>visits := visits b @ [s]\<rparr>"

definition window_open :: "string \<Rightarrow> 'a browser_scheme \<Rightarrow> 'a browser_scheme" where
  "window_open s b = b\<lparr>opened := opened b @ [s]\<rparr>"

definition throw :: "string \<Rightarrow> 'a browser_scheme \<Rightarrow> 'a browser_scheme" where
  "throw s b = b\<lparr>errors := errors b @ [s]\<rparr>"

definition ajax :: "request \<Rightarrow> 'a browser_scheme \<Rightarrow> 'a browser_scheme" where
  "ajax r b = b\<lparr>pending := pending b @ [r]\<rparr>"

text \<open>The value of the first input with an id: those of panels come first in the document.\<close>

fun panel_input :: "panel list \<Rightarrow> string \<Rightarrow> string option" where
  "panel_input [] i = None"
| "panel_input (p # ps) i = (case map_of (pn_inputs p) i of Some v \<Rightarrow> Some v | None \<Rightarrow> panel_input ps i)"

definition val :: "string \<Rightarrow> 'a browser_scheme \<Rightarrow> string option" where
  "val i b = (case panel_input (panels b) i of Some v \<Rightarrow> Some v | None \<Rightarrow> inputs b i)"

definition set_input :: "string \<Rightarrow> string \<Rightarrow> 'a browser_scheme \<Rightarrow> 'a browser_scheme" where
  "set_input i v b = (if inputs b i = None then b else b\<lparr>inputs := (inputs b)(i \<mapsto> v)\<rparr>)"

text \<open>Panels are prepended hidden; \<open>show\<close>, \<open>hide\<close> and \<open>remove\<close> by id meet the first one.\<close>

definition prepend :: "panel \<Rightarrow> 'a browser_scheme \<Rightarrow> 'a browser_scheme" where
  "prepend p b = b\<lparr>panels := p # panels b\<rparr>"

fun mark_first :: "string \<Rightarrow> bool \<Rightarrow> panel list \<Rightarrow> panel list" where
  "mark_first i v [] = []"
| "mark_first i v (p # ps) = (if pn_id p = i then p\<lparr>pn_shown := v\<rparr> # ps else p # mark_first i v ps)"

fun remove_first :: "string \<Rightarrow> panel list \<Rightarrow> panel list" where
  "remove_first i [] = []"
| "remove_first i (p # ps) = (if pn_id p = i then ps else p # remove_first i ps)"

definition show_panel :: "string \<Rightarrow> 'a browser_scheme \<Rightarrow> 'a browser_scheme" where
  "show_panel i b = b\<lparr>panels := mark_first i True (panels b)\<rparr>"

definition hide_panel :: "string \<Rightarrow> 'a browser_scheme \<Rightarrow> 'a browser_scheme" where
  "hide_panel i b = b\<lparr>panels := mark_first i False (panels b)\<rparr>"

definition remove_panel :: "string \<Rightarrow> 'a browser_scheme \<Rightarrow> 'a browser_scheme" where
  "remove_panel i b = b\<lparr>panels := remove_first i (panels b)\<rparr>"

text \<open>The cookie functions on the page's jar.\<close>

definition cookie :: "string \<Rightarrow> 'a browser_scheme \<Rightarrow> string" where
  "cookie n b = read_cookie (now b) n (jar b)"

definition set_cookie :: "string \<Rightarrow> string \<Rightarrow> int \<Rightarrow> 'a browser_scheme \<Rightarrow> 'a browser_scheme" where
  "set_cookie n v d b = b\<lparr>jar := setCookie (now b) n v d (jar b)\<rparr>"

definition del_cookie :: "string \<Rightarrow> 'a browser_scheme \<Rightarrow> 'a browser_scheme" where
  "del_cookie n b = b\<lparr>jar := delCookie (now b) n (jar b)\<rparr>"

named_theorems page_defs
lemmas [page_defs] = js_show_def js_hide_def set_text_def js_alert_def goto_def window_open_def
  throw_def ajax_def prepend_def show_panel_def hide_panel_def remove_panel_def set_cookie_def
  del_cookie_def set_input_def

text \<open>Taking request \<open>i\<close> off the list, when its answer arrives or it fails.\<close>

definition take_request :: "nat \<Rightarrow> 'a browser_scheme \<Rightarrow> 'a browser_scheme" where
  "take_request i b = b\<lparr>pending := take i (pending b) @ drop (Suc i) (pending b)\<rparr>"

section \<open>A panel that is opened and cancelled\<close>

lemma open_panel: "panels (show_panel (pn_id p) (prepend p b)) = p\<lparr>pn_shown := True\<rparr> # panels b"
  by (simp add: page_defs)

lemma remove_first_mark: "remove_first i (mark_first i v ps) = remove_first i ps"
  by (induction ps) auto

lemma remove_first_notin: "\<forall>p \<in> set ps. pn_id p \<noteq> i \<Longrightarrow> remove_first i ps = ps"
  by (induction ps) auto

lemma cancel_panel: "panels (remove_panel i (hide_panel i b)) = remove_first i (panels b)"
  by (simp add: page_defs remove_first_mark)

section \<open>Runs of a page\<close>

text \<open>
  A page reacts to events one after the other. \<open>holds_on_run\<close> is how an invariant of a page is
  proved: true at the start and kept by each event.
\<close>

locale page =
  fixes react :: "'e \<Rightarrow> 's \<Rightarrow> 's"
    and inv :: "'s \<Rightarrow> bool"
    and ok :: "'e \<Rightarrow> 's \<Rightarrow> bool"
  assumes step: "inv s \<Longrightarrow> ok e s \<Longrightarrow> inv (react e s)"
begin

fun run :: "'e list \<Rightarrow> 's \<Rightarrow> 's" where
  "run [] s = s"
| "run (e # es) s = run es (react e s)"

fun ok_run :: "'e list \<Rightarrow> 's \<Rightarrow> bool" where
  "ok_run [] s \<longleftrightarrow> True"
| "ok_run (e # es) s \<longleftrightarrow> ok e s \<and> ok_run es (react e s)"

lemma holds_on_run: "inv s \<Longrightarrow> ok_run es s \<Longrightarrow> inv (run es s)"
  by (induction es arbitrary: s) (simp_all add: step)

end

end
