(* ===== verification/GVerify.thy ===== *)
theory GVerify
  imports Complex_Main JsString "HOL-Library.State_Monad"
begin

text \<open>
  The graphical verification code of the login page (\<open>gVerify.js\<close>). \<open>Math.random()\<close> takes the next
  of a sequence of draws, each the numerator of a fraction with denominator \<open>2 ^ 53\<close>; arithmetic
  on it is exact. \<open>refresh\<close> is in the state monad over that sequence and returns the drawing as a
  list of operations on the canvas. The width and height of the container are numbers (the
  defaults are the strings "100" and "30", which the arithmetic converts).
\<close>

section \<open>Random numbers\<close>

type_synonym random = "nat \<Rightarrow> nat"

definition math_random :: "(random, rat) state" where
  "math_random = State (\<lambda>g. (of_nat (g 0 mod 2 ^ 53) / 2 ^ 53, \<lambda>i. g (Suc i)))"

definition randomNum :: "rat \<Rightarrow> rat \<Rightarrow> (random, int) state" where
  "randomNum mn mx = do { r \<leftarrow> math_random; State_Monad.return \<lfloor>r * (mx - mn) + mn\<rfloor> }"

type_synonym colour = "int \<times> int \<times> int"

definition randomColor :: "rat \<Rightarrow> rat \<Rightarrow> (random, colour) state" where
  "randomColor mn mx = do {
     r \<leftarrow> randomNum mn mx;
     g \<leftarrow> randomNum mn mx;
     b \<leftarrow> randomNum mn mx;
     State_Monad.return (r, g, b) }"

section \<open>The object\<close>

text \<open>The options, with the alphabets. The letters are those of the source's list.\<close>

record options =
  op_id :: string
  canvasId :: string
  width :: int
  height :: int
  gtype :: string
  code :: string
  numArr :: "string list"
  letterArr :: "string list"

definition getAllLetter :: "string list" where
  "getAllLetter =
     split_on CHR '','' ''a,b,c,d,e,f,g,h,i,j,k,l,m,n,o,p,q,r,s,t,u,v,w,x,y,z,A,B,C,D,E,F,G,H,I,J,K,L,M,N,O,P,Q,R,S,T,U,V,W,X,Y,Z''"

datatype draw =
  FillRect colour int int
| FillText string int colour "int \<times> int" int rat rat int
  \<comment> \<open>text, font size, colour, shadow offset, shadow blur, position, angle in degrees\<close>
| Line colour "int \<times> int" "int \<times> int"
| Dot colour "int \<times> int"

definition char_set :: "options \<Rightarrow> string list" where
  "char_set opt =
     (if gtype opt = ''blend'' then numArr opt @ letterArr opt
      else if gtype opt = ''number'' then numArr opt
      else letterArr opt)"

fun draw_code :: "nat list \<Rightarrow> options \<Rightarrow> (random, options \<times> draw list) state" where
  "draw_code [] opt = State_Monad.return (opt, [])"
| "draw_code (i # is) opt = do {
     k \<leftarrow> randomNum 0 (of_nat (length (char_set opt)));
     let txt = char_set opt ! nat k;
     let opt' = opt\<lparr>code := code opt @ txt\<rparr>;
     font \<leftarrow> randomNum (of_int (height opt) / 2) (of_int (height opt));
     col \<leftarrow> randomColor 50 160;
     sx \<leftarrow> randomNum (- 3) 3;
     sy \<leftarrow> randomNum (- 3) 3;
     blur \<leftarrow> randomNum (- 3) 3;
     let x = of_int (width opt) / 5 * of_nat i;
     let y = of_int (height opt) / 2;
     deg \<leftarrow> randomNum (- 30) 30;
     (opt'', ds) \<leftarrow> draw_code is opt';
     State_Monad.return (opt'', FillText txt font col (sx, sy) blur x y deg # ds) }"

definition random_point :: "options \<Rightarrow> (random, int \<times> int) state" where
  "random_point opt = do {
     x \<leftarrow> randomNum 0 (of_int (width opt));
     y \<leftarrow> randomNum 0 (of_int (height opt));
     State_Monad.return (x, y) }"

fun draw_lines :: "nat \<Rightarrow> options \<Rightarrow> (random, draw list) state" where
  "draw_lines 0 opt = State_Monad.return []"
| "draw_lines (Suc n) opt = do {
     c \<leftarrow> randomColor 40 180;
     p \<leftarrow> random_point opt;
     q \<leftarrow> random_point opt;
     ds \<leftarrow> draw_lines n opt;
     State_Monad.return (Line c p q # ds) }"

fun draw_dots :: "nat \<Rightarrow> options \<Rightarrow> (random, draw list) state" where
  "draw_dots 0 opt = State_Monad.return []"
| "draw_dots (Suc n) opt = do {
     c \<leftarrow> randomColor 0 255;
     p \<leftarrow> random_point opt;
     ds \<leftarrow> draw_dots n opt;
     State_Monad.return (Dot c p # ds) }"

text \<open>The loop \<open>for (i = 0; i < width / 4; i++)\<close> runs the ceiling of a quarter of the width.\<close>

definition refresh :: "options \<Rightarrow> (random, options \<times> draw list) state" where
  "refresh opt = do {
     bg \<leftarrow> randomColor 180 240;
     (opt', text) \<leftarrow> draw_code [1, 2, 3, 4] opt;
     lines \<leftarrow> draw_lines 4 opt';
     dots \<leftarrow> draw_dots (nat \<lceil>of_int (width opt') / 4 :: rat\<rceil>) opt';
     State_Monad.return (opt', FillRect bg (width opt) (height opt) # text @ lines @ dots) }"

definition init_size :: "int \<Rightarrow> int \<Rightarrow> options \<Rightarrow> options" where
  "init_size offsetWidth offsetHeight opt =
     opt\<lparr>width := if 0 < offsetWidth then offsetWidth else 100,
         height := if 0 < offsetHeight then offsetHeight else 30\<rparr>"

text \<open>
  The constructor, called with an object that overrides the container's id and the type (the
  defaults stay where it has no such property), on a container of the given offset size.
\<close>

definition default_options :: options where
  "default_options = \<lparr>op_id = [], canvasId = ''verifyCanvas'', width = 100, height = 30,
     gtype = ''blend'', code = [], numArr = [], letterArr = []\<rparr>"

definition GVerify :: "string option \<Rightarrow> string option \<Rightarrow> int \<Rightarrow> int \<Rightarrow> (random, options \<times> draw list) state" where
  "GVerify cid ctype offsetWidth offsetHeight =
     (let opt = default_options
        \<lparr>op_id := (case cid of Some i \<Rightarrow> i | None \<Rightarrow> op_id default_options),
         gtype := (case ctype of Some t \<Rightarrow> t | None \<Rightarrow> gtype default_options),
         numArr := split_on CHR '','' ''0,1,2,3,4,5,6,7,8,9'',
         letterArr := getAllLetter\<rparr>
      in refresh (init_size offsetWidth offsetHeight opt))"

definition lower_char :: "char \<Rightarrow> char" where
  "lower_char c =
     (let n = of_char c :: nat in if 65 \<le> n \<and> n \<le> 90 then char_of (n + 32) else c)"

definition to_lower :: "string \<Rightarrow> string" where
  "to_lower s = map lower_char s"

definition validate :: "options \<Rightarrow> string \<Rightarrow> bool" where
  "validate opt c \<longleftrightarrow> to_lower c = to_lower (code opt)"

text \<open>Clicking the canvas refreshes; \<open>refreshes n\<close> is \<open>n\<close> clicks, with the last drawing.\<close>

fun refreshes :: "nat \<Rightarrow> options \<times> draw list \<Rightarrow> (random, options \<times> draw list) state" where
  "refreshes 0 s = State_Monad.return s"
| "refreshes (Suc n) s = do { s' \<leftarrow> refresh (fst s); refreshes n s' }"

section \<open>The code that is shown\<close>

fun drawn_text :: "draw list \<Rightarrow> string" where
  "drawn_text [] = []"
| "drawn_text (FillText txt _ _ _ _ _ _ _ # ds) = txt @ drawn_text ds"
| "drawn_text (_ # ds) = drawn_text ds"

text \<open>The bounds of a random number: below the upper limit, and in reach of the alphabet.\<close>

lemma randomNum_bounds:
  assumes "mn < mx" "run_state (randomNum mn mx) g = (k, g')"
  shows "\<lfloor>mn\<rfloor> \<le> k \<and> of_int k < mx"
proof -
  define r :: rat where "r = of_nat (g 0 mod 2 ^ 53) / 2 ^ 53"
  have "(of_nat (g 0 mod 2 ^ 53) :: rat) < of_nat (2 ^ 53)" by (subst of_nat_less_iff) simp
  then have r: "0 \<le> r" "r < 1" by (simp_all add: r_def)
  have k: "k = \<lfloor>r * (mx - mn) + mn\<rfloor>"
    using assms(2) by (simp add: randomNum_def math_random_def r_def)
  have "0 \<le> r * (mx - mn)" "r * (mx - mn) < 1 * (mx - mn)"
    using r assms(1) by (simp, intro mult_strict_right_mono) simp_all
  then have "mn \<le> r * (mx - mn) + mn" "r * (mx - mn) + mn < mx" by simp_all
  then show ?thesis unfolding k by (simp add: floor_mono) linarith
qed

lemma randomNum_index:
  "xs \<noteq> [] \<Longrightarrow> run_state (randomNum 0 (of_nat (length xs))) g = (k, g') \<Longrightarrow> xs ! nat k \<in> set xs"
proof -
  assume "xs \<noteq> []" and run: "run_state (randomNum 0 (of_nat (length xs))) g = (k, g')"
  then have "0 \<le> k \<and> (of_int k :: rat) < of_nat (length xs)"
    using randomNum_bounds [OF _ run] by simp
  then have "0 \<le> k \<and> k < int (length xs)" by linarith
  then show ?thesis by (simp add: nat_less_iff)
qed

lemma char_set_code [simp]: "char_set (opt\<lparr>code := c\<rparr>) = char_set opt"
  by (simp add: char_set_def)

lemma draw_code_spec:
  "char_set opt \<noteq> [] \<Longrightarrow> run_state (draw_code is opt) g = ((opt', ds), g') \<Longrightarrow>
   \<exists>txts. length txts = length is \<and> set txts \<subseteq> set (char_set opt) \<and>
     opt' = opt\<lparr>code := code opt @ concat txts\<rparr> \<and> drawn_text ds = concat txts"
proof (induction "is" arbitrary: opt g opt' ds g')
  case Nil
  then show ?case by simp
next
  case (Cons i "is")
  obtain k g1 where k: "run_state (randomNum 0 (of_nat (length (char_set opt)))) g = (k, g1)"
    by fastforce
  define t0 where "t0 = char_set opt ! nat k"
  have t0: "t0 \<in> set (char_set opt)"
    unfolding t0_def by (rule randomNum_index [OF Cons.prems(1) k])
  let ?opt = "opt\<lparr>code := code opt @ t0\<rparr>"
  obtain g2 ds2 where rest: "run_state (draw_code is ?opt) g2 = ((opt', ds2), g')"
    and ds: "drawn_text ds = t0 @ drawn_text ds2"
    using Cons.prems(2) k by (auto simp: Let_def t0_def split: prod.splits)
  obtain txts where "length txts = length is" "set txts \<subseteq> set (char_set opt)"
    "opt' = ?opt\<lparr>code := code ?opt @ concat txts\<rparr>" "drawn_text ds2 = concat txts"
    using Cons.IH [OF _ rest] Cons.prems(1) by auto
  with t0 ds show ?case by (intro exI [of _ "t0 # txts"]) simp
qed

lemma drawn_text_append: "drawn_text (xs @ ys) = drawn_text xs @ drawn_text ys"
  by (induction xs rule: drawn_text.induct) simp_all

lemma draw_lines_text: "run_state (draw_lines n opt) g = (ds, g') \<Longrightarrow> drawn_text ds = []"
  by (induction n arbitrary: g ds g') (auto split: prod.splits)

lemma draw_dots_text: "run_state (draw_dots n opt) g = (ds, g') \<Longrightarrow> drawn_text ds = []"
  by (induction n arbitrary: g ds g') (auto split: prod.splits)

lemma refresh_spec:
  assumes "char_set opt \<noteq> []" "run_state (refresh opt) g = ((opt', ds), g')"
  obtains txts where "length txts = 4" "set txts \<subseteq> set (char_set opt)"
    "opt' = opt\<lparr>code := code opt @ concat txts\<rparr>" "drawn_text ds = concat txts"
proof -
  from assms(2) obtain bg g1 ts g2 ls g3 os g4 where
    steps: "run_state (draw_code [1, 2, 3, 4] opt) g1 = ((opt', ts), g2)"
      "run_state (draw_lines 4 opt') g2 = (ls, g3)"
      "run_state (draw_dots (nat \<lceil>of_int (width opt') / 4 :: rat\<rceil>) opt') g3 = (os, g4)"
      "ds = FillRect bg (width opt) (height opt) # ts @ ls @ os"
    by (auto simp: refresh_def simp del: draw_code.simps draw_lines.simps split: prod.splits)
  from draw_code_spec [OF assms(1) steps(1)] obtain txts where
    "length txts = 4" "set txts \<subseteq> set (char_set opt)"
    "opt' = opt\<lparr>code := code opt @ concat txts\<rparr>" "drawn_text ts = concat txts"
    by (auto simp: numeral_eq_Suc)
  moreover have "drawn_text ls = []" "drawn_text os = []"
    using draw_lines_text [OF steps(2)] draw_dots_text [OF steps(3)] .
  ultimately show thesis using that steps(4) by (simp add: drawn_text_append)
qed

text \<open>The alphabets of a constructed object.\<close>

definition alphabet :: "string \<Rightarrow> string list" where
  "alphabet t =
     (if t = ''blend'' then split_on CHR '','' ''0,1,2,3,4,5,6,7,8,9'' @ getAllLetter
      else if t = ''number'' then split_on CHR '','' ''0,1,2,3,4,5,6,7,8,9'' else getAllLetter)"

lemma alphabet_single: "\<forall>s \<in> set (alphabet t). length s = 1" "alphabet t \<noteq> []"
  by (simp_all add: alphabet_def getAllLetter_def)

lemma GVerify_spec:
  assumes "run_state (GVerify cid ctype w h) g = ((opt, ds), g')"
  obtains txts where "length txts = 4" "set txts \<subseteq> set (alphabet (case ctype of Some t \<Rightarrow> t | None \<Rightarrow> ''blend''))"
    "code opt = concat txts" "drawn_text ds = concat txts"
    "char_set opt = alphabet (case ctype of Some t \<Rightarrow> t | None \<Rightarrow> ''blend'')"
proof -
  let ?t = "case ctype of Some t \<Rightarrow> t | None \<Rightarrow> ''blend''"
  obtain opt0 where r: "run_state (refresh opt0) g = ((opt, ds), g')"
    and cs: "char_set opt0 = alphabet ?t" and c: "code opt0 = []"
    using assms by (auto simp: GVerify_def Let_def init_size_def default_options_def char_set_def alphabet_def
        split: option.splits)
  have "char_set opt0 \<noteq> []" using cs alphabet_single by simp
  then obtain txts where "length txts = 4" "set txts \<subseteq> set (char_set opt0)"
    "opt = opt0\<lparr>code := code opt0 @ concat txts\<rparr>" "drawn_text ds = concat txts"
    using r by (rule refresh_spec)
  with cs c that show thesis by simp
qed

lemma concat_length_one: "\<forall>s \<in> set xs. length s = 1 \<Longrightarrow> length (concat xs) = length xs"
  by (induction xs) auto

lemma concat_chars: "set xs \<subseteq> A \<Longrightarrow> \<forall>s \<in> A. length s = 1 \<Longrightarrow> c \<in> set (concat xs) \<Longrightarrow> [c] \<in> A"
proof -
  assume a: "set xs \<subseteq> A" "\<forall>s \<in> A. length s = 1" "c \<in> set (concat xs)"
  then obtain s where s: "s \<in> set xs" "c \<in> set s" by auto
  with a have "length s = 1" by auto
  with s(2) have "s = [c]" by (cases s) auto
  with s(1) a(1) show ?thesis by auto
qed

text \<open>After \<open>n\<close> clicks the code has grown by four characters each time.\<close>

lemma refreshes_spec:
  assumes "char_set (fst s) = alphabet t" "run_state (refreshes n s) g = ((opt, ds), g')"
  shows "char_set opt = alphabet t \<and>
    (\<exists>old. code opt = code (fst s) @ old \<and> length old = 4 * n) \<and>
    (0 < n \<longrightarrow> (\<exists>old. code opt = code (fst s) @ old @ drawn_text ds \<and> length (drawn_text ds) = 4))"
  using assms
proof (induction n arbitrary: s g)
  case (Suc n)
  obtain s' g1 where s': "run_state (refresh (fst s)) g = (s', g1)" by fastforce
  obtain opt1 ds1 where eq: "s' = (opt1, ds1)" by (cases s')
  have "char_set (fst s) \<noteq> []" using Suc.prems(1) alphabet_single by simp
  then obtain txts where txts: "length txts = 4" "set txts \<subseteq> set (char_set (fst s))"
    "opt1 = (fst s)\<lparr>code := code (fst s) @ concat txts\<rparr>" "drawn_text ds1 = concat txts"
    using s' unfolding eq by (rule refresh_spec)
  have len: "length (concat txts) = 4"
    using txts(1,2) Suc.prems(1) alphabet_single [of t] by (subst concat_length_one) auto
  have cs: "char_set (fst s') = alphabet t" using Suc.prems(1) txts(3) eq by simp
  have rest: "run_state (refreshes n s') g1 = ((opt, ds), g')" using Suc.prems(2) s' by simp
  note IH = Suc.IH [OF cs rest]
  show ?case
  proof (cases n)
    case 0
    then have "opt = opt1" "ds = ds1" using rest eq by auto
    with 0 IH txts len eq show ?thesis by auto
  next
    case (Suc m)
    then show ?thesis using IH txts(3) len eq by auto
  qed
qed (simp add: State_Monad.return_def)

section \<open>Properties\<close>

lemma drawn_code:
  assumes "run_state (GVerify cid ctype w h) g = ((opt, ds), g')"
  shows "code opt = drawn_text ds" "length (code opt) = 4"
    "\<forall>c \<in> set (code opt). [c] \<in> set (alphabet (case ctype of Some t \<Rightarrow> t | None \<Rightarrow> ''blend''))"
proof -
  let ?A = "alphabet (case ctype of Some t \<Rightarrow> t | None \<Rightarrow> ''blend'')"
  obtain txts where t: "length txts = 4" "set txts \<subseteq> set ?A" "code opt = concat txts" "drawn_text ds = concat txts"
    using assms by (rule GVerify_spec)
  have single: "\<forall>s \<in> set ?A. length s = 1" by (rule alphabet_single)
  show "code opt = drawn_text ds" using t by simp
  show "length (code opt) = 4"
    using concat_length_one [of txts] t single by auto
  show "\<forall>c \<in> set (code opt). [c] \<in> set ?A"
    using concat_chars [OF t(2) single] t(3) by simp
qed

lemma validate_length: "validate opt c \<Longrightarrow> length c = length (code opt)"
  unfolding validate_def to_lower_def by (metis length_map)

text \<open>
  Whatever the random draws, a new verification code has four characters of the
  alphabet of its type, they are the text that is drawn, and a typed text is accepted exactly when
  it is that text up to the case of letters.
\<close>

theorem code_shown:
  assumes "run_state (GVerify cid ctype w h) g = ((opt, ds), g')"
  shows "length (drawn_text ds) = 4
    \<and> (\<forall>c \<in> set (drawn_text ds). [c] \<in> set (alphabet (case ctype of Some t \<Rightarrow> t | None \<Rightarrow> ''blend'')))
    \<and> (validate opt typed \<longleftrightarrow> to_lower typed = to_lower (drawn_text ds))"
  using drawn_code [OF assms] by (simp add: validate_def)

text \<open>
  A click on the picture draws four new characters but appends them to the code
  instead of replacing it: after \<open>n\<close> clicks only a text of \<open>4 * (n + 1)\<close> characters is accepted, so
  the text that is shown is refused.
\<close>

theorem code_refreshed:
  assumes "run_state (GVerify cid ctype w h) g = ((opt, ds), g1)" "0 < n"
    and "run_state (refreshes n (opt, ds)) g1 = ((opt', ds'), g2)"
  shows "length (drawn_text ds') = 4 \<and> \<not> validate opt' (drawn_text ds')
    \<and> (validate opt' typed \<longrightarrow> length typed = 4 * (n + 1))"
proof -
  obtain txts where "char_set opt = alphabet (case ctype of Some t \<Rightarrow> t | None \<Rightarrow> ''blend'')"
    using assms(1) by (rule GVerify_spec)
  then have spec: "(\<exists>old. code opt' = code opt @ old \<and> length old = 4 * n)
      \<and> (\<exists>old. code opt' = code opt @ old @ drawn_text ds' \<and> length (drawn_text ds') = 4)"
    using refreshes_spec [of "(opt, ds)" _ n g1 opt' ds' g2] assms(2,3) by auto
  then have "length (code opt') = 4 * (n + 1)" using drawn_code(2) [OF assms(1)] by auto
  then show ?thesis
    using spec validate_length [of opt' typed] validate_length [of opt' "drawn_text ds'"] assms(2) by auto
qed

section \<open>The properties on a concrete code\<close>

lemma code_shown_witness:
  "length (drawn_text (snd (fst (run_state (GVerify None None 0 0) (\<lambda>i. 0))))) = 4"
  using code_shown [of None None 0 0 "\<lambda>i. 0" "fst (fst (run_state (GVerify None None 0 0) (\<lambda>i. 0)))"
    "snd (fst (run_state (GVerify None None 0 0) (\<lambda>i. 0)))" "snd (run_state (GVerify None None 0 0) (\<lambda>i. 0))" "[]"]
  by simp

lemma code_refreshed_witness:
  "\<exists>opt ds opt' ds' g1 g2. run_state (GVerify None None 0 0) (\<lambda>i. 0) = ((opt, ds), g1) \<and>
     run_state (refreshes 1 (opt, ds)) g1 = ((opt', ds'), g2) \<and> \<not> validate opt' (drawn_text ds')"
proof -
  obtain opt ds g1 where a: "run_state (GVerify None None 0 0) (\<lambda>i. 0) = ((opt, ds), g1)" by (metis surj_pair)
  obtain opt' ds' g2 where b: "run_state (refreshes 1 (opt, ds)) g1 = ((opt', ds'), g2)" by (metis surj_pair)
  from code_refreshed [OF a zero_less_one b] a b show ?thesis by blast
qed

end
