(* ===== verification/Md5.thy ===== *)
theory Md5
  imports Prelude
begin

text \<open>
  \<open>web/static/assets/js/md5.js\<close>: the MD5 digest the login, registration and password forms apply
  to a password. Strings are lists of UTF-16 code units. The 32-bit arithmetic of the script
  (\<open>safe_add\<close>, \<open>bit_rol\<close>, \<open>md5_cmn\<close>) is kept on numbers and then related to words; the
  rounds of \<open>core_md5\<close> are written out as in the source.
\<close>

section \<open>Configuration\<close>

definition hexcase :: int where "hexcase = 0"
definition b64pad :: string where "b64pad = ''''"
definition chrsz :: nat where "chrsz = 8"

text \<open>
  Bit positions and array indices are written with \<open>div\<close> and \<open>mod\<close> where the script shifts a
  non-negative index; the two agree below \<open>2 ^ 31\<close> (lemma \<open>js_sar_small\<close>), that is for strings of
  fewer than \<open>2 ^ 28\<close> code units.
\<close>

section \<open>The basic operations\<close>

definition safe_add :: "int \<Rightarrow> int \<Rightarrow> int" where
  "safe_add x y =
     (let lsw = js_and x 0xFFFF + js_and y 0xFFFF;
          msw = js_sar x 16 + js_sar y 16 + js_sar lsw 16
      in js_or (js_shl msw 16) (js_and lsw 0xFFFF))"

definition bit_rol :: "int \<Rightarrow> nat \<Rightarrow> int" where
  "bit_rol num cnt = js_or (js_shl num cnt) (js_shr num (32 - cnt))"

definition md5_cmn :: "int \<Rightarrow> int \<Rightarrow> int \<Rightarrow> int \<Rightarrow> nat \<Rightarrow> int \<Rightarrow> int" where
  "md5_cmn q a b x s t = safe_add (bit_rol (safe_add (safe_add a q) (safe_add x t)) s) b"

definition md5_ff :: "int \<Rightarrow> int \<Rightarrow> int \<Rightarrow> int \<Rightarrow> int \<Rightarrow> nat \<Rightarrow> int \<Rightarrow> int" where
  "md5_ff a b c d x s t = md5_cmn (js_or (js_and b c) (js_and (js_not b) d)) a b x s t"

definition md5_gg :: "int \<Rightarrow> int \<Rightarrow> int \<Rightarrow> int \<Rightarrow> int \<Rightarrow> nat \<Rightarrow> int \<Rightarrow> int" where
  "md5_gg a b c d x s t = md5_cmn (js_or (js_and b d) (js_and c (js_not d))) a b x s t"

definition md5_hh :: "int \<Rightarrow> int \<Rightarrow> int \<Rightarrow> int \<Rightarrow> int \<Rightarrow> nat \<Rightarrow> int \<Rightarrow> int" where
  "md5_hh a b c d x s t = md5_cmn (js_xor (js_xor b c) d) a b x s t"

definition md5_ii :: "int \<Rightarrow> int \<Rightarrow> int \<Rightarrow> int \<Rightarrow> int \<Rightarrow> nat \<Rightarrow> int \<Rightarrow> int" where
  "md5_ii a b c d x s t = md5_cmn (js_xor c (js_or b (js_not d))) a b x s t"

section \<open>Digest of an array of words\<close>

text \<open>
  The state of the loop is the four variables \<open>a\<close>, \<open>b\<close>, \<open>c\<close>, \<open>d\<close>. An assignment such as
  \<open>d = md5_ff(d, a, b, c, x, s, t)\<close> is the state change \<open>set_d md5_ff x s t\<close>; a round is the list of
  its sixteen assignments, in the order of the source.
\<close>

type_synonym md5_state = "int \<times> int \<times> int \<times> int"
type_synonym md5_fun = "int \<Rightarrow> int \<Rightarrow> int \<Rightarrow> int \<Rightarrow> int \<Rightarrow> nat \<Rightarrow> int \<Rightarrow> int"

fun set_a :: "md5_fun \<Rightarrow> int \<Rightarrow> nat \<Rightarrow> int \<Rightarrow> md5_state \<Rightarrow> md5_state" where
  "set_a f x s t (a, b, c, d) = (f a b c d x s t, b, c, d)"

fun set_b :: "md5_fun \<Rightarrow> int \<Rightarrow> nat \<Rightarrow> int \<Rightarrow> md5_state \<Rightarrow> md5_state" where
  "set_b f x s t (a, b, c, d) = (a, f b c d a x s t, c, d)"

fun set_c :: "md5_fun \<Rightarrow> int \<Rightarrow> nat \<Rightarrow> int \<Rightarrow> md5_state \<Rightarrow> md5_state" where
  "set_c f x s t (a, b, c, d) = (a, b, f c d a b x s t, d)"

fun set_d :: "md5_fun \<Rightarrow> int \<Rightarrow> nat \<Rightarrow> int \<Rightarrow> md5_state \<Rightarrow> md5_state" where
  "set_d f x s t (a, b, c, d) = (a, b, c, f d a b c x s t)"

fun run_steps :: "(md5_state \<Rightarrow> md5_state) list \<Rightarrow> md5_state \<Rightarrow> md5_state" where
  "run_steps [] s = s"
| "run_steps (f # fs) s = run_steps fs (f s)"

definition md5_round_ff :: "int list \<Rightarrow> nat \<Rightarrow> md5_state \<Rightarrow> md5_state" where
  "md5_round_ff x i = run_steps [
     set_a md5_ff (arr_get x (i + 0)) 7 (- 680876936),
     set_d md5_ff (arr_get x (i + 1)) 12 (- 389564586),
     set_c md5_ff (arr_get x (i + 2)) 17 606105819,
     set_b md5_ff (arr_get x (i + 3)) 22 (- 1044525330),
     set_a md5_ff (arr_get x (i + 4)) 7 (- 176418897),
     set_d md5_ff (arr_get x (i + 5)) 12 1200080426,
     set_c md5_ff (arr_get x (i + 6)) 17 (- 1473231341),
     set_b md5_ff (arr_get x (i + 7)) 22 (- 45705983),
     set_a md5_ff (arr_get x (i + 8)) 7 1770035416,
     set_d md5_ff (arr_get x (i + 9)) 12 (- 1958414417),
     set_c md5_ff (arr_get x (i + 10)) 17 (- 42063),
     set_b md5_ff (arr_get x (i + 11)) 22 (- 1990404162),
     set_a md5_ff (arr_get x (i + 12)) 7 1804603682,
     set_d md5_ff (arr_get x (i + 13)) 12 (- 40341101),
     set_c md5_ff (arr_get x (i + 14)) 17 (- 1502002290),
     set_b md5_ff (arr_get x (i + 15)) 22 1236535329]"

definition md5_round_gg :: "int list \<Rightarrow> nat \<Rightarrow> md5_state \<Rightarrow> md5_state" where
  "md5_round_gg x i = run_steps [
     set_a md5_gg (arr_get x (i + 1)) 5 (- 165796510),
     set_d md5_gg (arr_get x (i + 6)) 9 (- 1069501632),
     set_c md5_gg (arr_get x (i + 11)) 14 643717713,
     set_b md5_gg (arr_get x (i + 0)) 20 (- 373897302),
     set_a md5_gg (arr_get x (i + 5)) 5 (- 701558691),
     set_d md5_gg (arr_get x (i + 10)) 9 38016083,
     set_c md5_gg (arr_get x (i + 15)) 14 (- 660478335),
     set_b md5_gg (arr_get x (i + 4)) 20 (- 405537848),
     set_a md5_gg (arr_get x (i + 9)) 5 568446438,
     set_d md5_gg (arr_get x (i + 14)) 9 (- 1019803690),
     set_c md5_gg (arr_get x (i + 3)) 14 (- 187363961),
     set_b md5_gg (arr_get x (i + 8)) 20 1163531501,
     set_a md5_gg (arr_get x (i + 13)) 5 (- 1444681467),
     set_d md5_gg (arr_get x (i + 2)) 9 (- 51403784),
     set_c md5_gg (arr_get x (i + 7)) 14 1735328473,
     set_b md5_gg (arr_get x (i + 12)) 20 (- 1926607734)]"

definition md5_round_hh :: "int list \<Rightarrow> nat \<Rightarrow> md5_state \<Rightarrow> md5_state" where
  "md5_round_hh x i = run_steps [
     set_a md5_hh (arr_get x (i + 5)) 4 (- 378558),
     set_d md5_hh (arr_get x (i + 8)) 11 (- 2022574463),
     set_c md5_hh (arr_get x (i + 11)) 16 1839030562,
     set_b md5_hh (arr_get x (i + 14)) 23 (- 35309556),
     set_a md5_hh (arr_get x (i + 1)) 4 (- 1530992060),
     set_d md5_hh (arr_get x (i + 4)) 11 1272893353,
     set_c md5_hh (arr_get x (i + 7)) 16 (- 155497632),
     set_b md5_hh (arr_get x (i + 10)) 23 (- 1094730640),
     set_a md5_hh (arr_get x (i + 13)) 4 681279174,
     set_d md5_hh (arr_get x (i + 0)) 11 (- 358537222),
     set_c md5_hh (arr_get x (i + 3)) 16 (- 722521979),
     set_b md5_hh (arr_get x (i + 6)) 23 76029189,
     set_a md5_hh (arr_get x (i + 9)) 4 (- 640364487),
     set_d md5_hh (arr_get x (i + 12)) 11 (- 421815835),
     set_c md5_hh (arr_get x (i + 15)) 16 530742520,
     set_b md5_hh (arr_get x (i + 2)) 23 (- 995338651)]"

definition md5_round_ii :: "int list \<Rightarrow> nat \<Rightarrow> md5_state \<Rightarrow> md5_state" where
  "md5_round_ii x i = run_steps [
     set_a md5_ii (arr_get x (i + 0)) 6 (- 198630844),
     set_d md5_ii (arr_get x (i + 7)) 10 1126891415,
     set_c md5_ii (arr_get x (i + 14)) 15 (- 1416354905),
     set_b md5_ii (arr_get x (i + 5)) 21 (- 57434055),
     set_a md5_ii (arr_get x (i + 12)) 6 1700485571,
     set_d md5_ii (arr_get x (i + 3)) 10 (- 1894986606),
     set_c md5_ii (arr_get x (i + 10)) 15 (- 1051523),
     set_b md5_ii (arr_get x (i + 1)) 21 (- 2054922799),
     set_a md5_ii (arr_get x (i + 8)) 6 1873313359,
     set_d md5_ii (arr_get x (i + 15)) 10 (- 30611744),
     set_c md5_ii (arr_get x (i + 6)) 15 (- 1560198380),
     set_b md5_ii (arr_get x (i + 13)) 21 1309151649,
     set_a md5_ii (arr_get x (i + 4)) 6 (- 145523070),
     set_d md5_ii (arr_get x (i + 11)) 10 (- 1120210379),
     set_c md5_ii (arr_get x (i + 2)) 15 718787259,
     set_b md5_ii (arr_get x (i + 9)) 21 (- 343485551)]"

definition md5_block :: "int list \<Rightarrow> nat \<Rightarrow> md5_state \<Rightarrow> md5_state" where
  "md5_block x i s =
     (let (olda, oldb, oldc, oldd) = s;
          (a, b, c, d) = md5_round_ii x i (md5_round_hh x i (md5_round_gg x i (md5_round_ff x i s)))
      in (safe_add a olda, safe_add b oldb, safe_add c oldc, safe_add d oldd))"

function md5_loop :: "int list \<Rightarrow> nat \<Rightarrow> md5_state \<Rightarrow> md5_state" where
  "md5_loop x i s = (if i < length x then md5_loop x (i + 16) (md5_block x i s) else s)"
  by pat_completeness auto
termination
  by (relation "measure (\<lambda>(x, i, s). length x - i)") auto

declare md5_loop.simps [simp del]

definition md5_pad :: "int list \<Rightarrow> nat \<Rightarrow> int list" where
  "md5_pad x len =
     (let x = arr_set x (len div 32) (js_or (arr_get x (len div 32)) (js_shl 0x80 (len mod 32)))
      in arr_set x ((len + 64) div 2 ^ 9 * 16 + 14) (int len))"

definition core_md5 :: "int list \<Rightarrow> nat \<Rightarrow> int list" where
  "core_md5 x len =
     (let x = md5_pad x len;
          (a, b, c, d) = md5_loop x 0 (1732584193, - 271733879, - 1732584194, 271733878)
      in [a, b, c, d])"

section \<open>Conversions\<close>

fun str2binl_loop :: "nat list \<Rightarrow> nat \<Rightarrow> int list \<Rightarrow> int list" where
  "str2binl_loop [] i bin = bin"
| "str2binl_loop (c # cs) i bin =
     (let mask = js_shl 1 chrsz - 1
      in str2binl_loop cs (i + chrsz)
           (arr_set bin (i div 32)
              (js_or (arr_get bin (i div 32)) (js_shl (js_and (int c) mask) (i mod 32)))))"

definition str2binl :: "nat list \<Rightarrow> int list" where
  "str2binl str = str2binl_loop str 0 []"

definition binl2str :: "int list \<Rightarrow> nat list" where
  "binl2str bin =
     (let mask = js_shl 1 chrsz - 1
      in map (\<lambda>k. let i = k * chrsz in nat (js_and (js_shr (arr_get bin (i div 32)) (i mod 32)) mask))
           [0..<length bin * 32 div chrsz])"

definition hex_tab :: string where
  "hex_tab = (if hexcase \<noteq> 0 then ''0123456789ABCDEF'' else ''0123456789abcdef'')"

definition binl2hex :: "int list \<Rightarrow> string" where
  "binl2hex binarray =
     concat (map (\<lambda>i. [hex_tab ! nat (js_and (js_sar (arr_get binarray (i div 4)) (i mod 4 * 8 + 4)) 0xF),
                       hex_tab ! nat (js_and (js_sar (arr_get binarray (i div 4)) (i mod 4 * 8)) 0xF)])
           [0..<length binarray * 4])"

definition b64_tab :: string where
  "b64_tab = ''ABCDEFGHIJKLMNOPQRSTUVWXYZabcdefghijklmnopqrstuvwxyz0123456789+/''"

definition b64_triplet :: "int list \<Rightarrow> nat \<Rightarrow> int" where
  "b64_triplet binarray i =
     js_or (js_or (js_shl (js_and (js_sar (arr_get binarray (i div 4)) (8 * (i mod 4))) 0xFF) 16)
                  (js_shl (js_and (js_sar (arr_get binarray ((i + 1) div 4)) (8 * ((i + 1) mod 4))) 0xFF) 8))
           (js_and (js_sar (arr_get binarray ((i + 2) div 4)) (8 * ((i + 2) mod 4))) 0xFF)"

text \<open>The loop index runs through the multiples of 3 below the number of bytes.\<close>

definition binl2b64 :: "int list \<Rightarrow> string" where
  "binl2b64 binarray =
     concat (map (\<lambda>k. let i = 3 * k; triplet = b64_triplet binarray i
                      in concat (map (\<lambda>j. if i * 8 + j * 6 > length binarray * 32 then b64pad
                                          else [b64_tab ! nat (js_and (js_sar triplet (6 * (3 - j))) 0x3F)])
                           [0..<4]))
           [0..<(length binarray * 4 + 2) div 3])"

section \<open>The keyed digest\<close>

definition core_hmac_md5 :: "nat list \<Rightarrow> nat list \<Rightarrow> int list" where
  "core_hmac_md5 key data =
     (let bkey = str2binl key;
          bkey = (if length bkey > 16 then core_md5 bkey (length key * chrsz) else bkey);
          ipad = map (\<lambda>i. js_xor (arr_get bkey i) 0x36363636) [0..<16];
          opad = map (\<lambda>i. js_xor (arr_get bkey i) 0x5C5C5C5C) [0..<16];
          hash = core_md5 (ipad @ str2binl data) (512 + length data * chrsz)
      in core_md5 (opad @ hash) (512 + 128))"

section \<open>The functions the pages call\<close>

definition hex_md5 :: "nat list \<Rightarrow> string" where
  "hex_md5 s = binl2hex (core_md5 (str2binl s) (length s * chrsz))"

definition b64_md5 :: "nat list \<Rightarrow> string" where
  "b64_md5 s = binl2b64 (core_md5 (str2binl s) (length s * chrsz))"

definition str_md5 :: "nat list \<Rightarrow> nat list" where
  "str_md5 s = binl2str (core_md5 (str2binl s) (length s * chrsz))"

definition hex_hmac_md5 :: "nat list \<Rightarrow> nat list \<Rightarrow> string" where
  "hex_hmac_md5 key data = binl2hex (core_hmac_md5 key data)"

definition b64_hmac_md5 :: "nat list \<Rightarrow> nat list \<Rightarrow> string" where
  "b64_hmac_md5 key data = binl2b64 (core_hmac_md5 key data)"

definition str_hmac_md5 :: "nat list \<Rightarrow> nat list \<Rightarrow> nat list" where
  "str_hmac_md5 key data = binl2str (core_hmac_md5 key data)"

definition md5_vm_test :: bool where
  "md5_vm_test = (hex_md5 [97, 98, 99] = ''900150983cd24fb0d6963f7d28e17f72'')"

lemma md5_vm_test_passes: "md5_vm_test"
  by code_simp

end
