(* ===== verification/Md5_Rfc.thy ===== *)
theory Md5_Rfc
  imports Md5
begin

text \<open>
  RFC 1321 as the reference for \<open>md5.js\<close>: the operations of the script are operations on 32-bit words,
  its rounds are the 64 steps of the RFC, its padding of the word array is the RFC's padding of the
  byte string, and so \<open>core_md5\<close> is the RFC's digest.
\<close>

section \<open>The arithmetic is that of 32-bit words\<close>

lemma safe_add_word: "w32 (safe_add x y) = w32 x + w32 y"
proof -
  let ?lo = "\<lambda>z. take_bit 16 (to_int32 z)" and ?hi = "\<lambda>z. drop_bit 16 (to_int32 z)"
  let ?lsw = "?lo x + ?lo y" and ?msw = "?hi x + ?hi y + drop_bit 16 (?lo x + ?lo y)"
  have lo: "js_and z 0xFFFF = ?lo z" for z
  proof -
    have "to_int32 z AND 0xFFFF = to_int32 z AND mask 16" by (simp add: mask_eq_exp_minus_1)
    then show ?thesis by (simp add: js_and_def to_int32_small take_bit_eq_mask)
  qed
  have split: "to_int32 z = ?hi z * 2 ^ 16 + ?lo z" for z
    by (simp add: drop_bit_eq_div take_bit_eq_mod)
  have bounds: "0 \<le> ?lo z" "?lo z < 65536" for z
    using take_bit_int_less_exp [of 16 "to_int32 z"] by simp_all
  have lsw: "to_int32 ?lsw = ?lsw"
    by (rule to_int32_small [simplified]) (use bounds [of x] bounds [of y] in linarith)+
  have hi: "js_sar z 16 = ?hi z" for z
    by (simp add: js_sar_def)
  have "safe_add x y = js_or (js_shl ?msw 16) (take_bit 16 ?lsw)"
    using lsw by (simp only: safe_add_def Let_def lo hi)
  then have "w32 (safe_add x y) = push_bit 16 (w32 ?msw) OR w32 (take_bit 16 ?lsw)"
    by (simp add: w32_or w32_shl del: of_int_add)
  also have "\<dots> = push_bit 16 (w32 ?msw) + w32 (take_bit 16 ?lsw)"
    by (rule disjunctive_add [symmetric])
      (simp add: bit_w32 bit_push_bit_iff bit_take_bit_iff)
  also have "\<dots> = w32 (?msw * 2 ^ 16 + take_bit 16 ?lsw)"
    by (simp add: push_bit_eq_mult mult.commute)
  also have "?msw * 2 ^ 16 + take_bit 16 ?lsw = to_int32 x + to_int32 y"
    using split [of x] split [of y]
    by (simp add: drop_bit_eq_div take_bit_eq_mod algebra_simps)
  also have "w32 \<dots> = w32 x + w32 y"
    by (simp only: of_int_add w32_to_int32)
  finally show ?thesis .
qed

lemma bit_rol_word:
  assumes "0 < cnt" "cnt < 32"
  shows "w32 (bit_rol num cnt) = word_rotl cnt (w32 num)"
proof (rule bit_word_eqI)
  fix n assume n: "n < LENGTH(32)"
  have rot: "bit (word_rotl cnt (w32 num)) n = bit num ((n + (32 - cnt)) mod 32)"
    using assms n by (simp only: bit_word_rotl_iff bit_w32) simp
  show "bit (w32 (bit_rol num cnt)) n = bit (word_rotl cnt (w32 num)) n"
  proof (cases "cnt \<le> n")
    case True
    then have "(n + (32 - cnt)) mod 32 = n - cnt"
      using assms n by (simp add: mod_if)
    with True assms n show ?thesis
      unfolding rot by (auto simp: bit_rol_def js_int32 bit_or_iff bit_push_bit_iff
          bit_drop_bit_eq bit_w32)
  next
    case False
    then have "(n + (32 - cnt)) mod 32 = n + (32 - cnt)"
      using assms n by simp
    moreover have "n + 32 - cnt < 32"
      using False by simp
    ultimately show ?thesis
      using False assms n unfolding rot by (simp add: bit_rol_def js_int32 bit_or_iff bit_push_bit_iff
          bit_drop_bit_eq bit_w32 add.commute)
  qed
qed

section \<open>The reference: RFC 1321 on words\<close>

text \<open>
  The reference algorithm steps through 64 operations on a state that rotates by one position; each
  operation has its mixing function, message index, shift and constant.
\<close>

type_synonym chain = "32 word \<times> 32 word \<times> 32 word \<times> 32 word"

definition rfc_f1 :: "32 word \<Rightarrow> 32 word \<Rightarrow> 32 word \<Rightarrow> 32 word" where
  "rfc_f1 x y z = (x AND y) OR (NOT x AND z)"
definition rfc_f2 :: "32 word \<Rightarrow> 32 word \<Rightarrow> 32 word \<Rightarrow> 32 word" where
  "rfc_f2 x y z = (x AND z) OR (y AND NOT z)"
definition rfc_f3 :: "32 word \<Rightarrow> 32 word \<Rightarrow> 32 word \<Rightarrow> 32 word" where
  "rfc_f3 x y z = x XOR y XOR z"
definition rfc_f4 :: "32 word \<Rightarrow> 32 word \<Rightarrow> 32 word \<Rightarrow> 32 word" where
  "rfc_f4 x y z = y XOR (x OR NOT z)"

definition rfc_F :: "nat \<Rightarrow> 32 word \<Rightarrow> 32 word \<Rightarrow> 32 word \<Rightarrow> 32 word" where
  "rfc_F k = (if k < 16 then rfc_f1 else if k < 32 then rfc_f2 else if k < 48 then rfc_f3 else rfc_f4)"

definition rfc_idx :: "nat \<Rightarrow> nat" where
  "rfc_idx k =
     (if k < 16 then k
      else if k < 32 then (5 * k + 1) mod 16
      else if k < 48 then (3 * k + 5) mod 16
      else (7 * k) mod 16)"

definition rfc_shift :: "nat \<Rightarrow> nat" where
  "rfc_shift k =
     [[7, 12, 17, 22], [5, 9, 14, 20], [4, 11, 16, 23], [6, 10, 15, 21]] ! (k div 16) ! (k mod 4)"

definition rfc_T :: "32 word list" where
  "rfc_T = [
     0xD76AA478, 0xE8C7B756, 0x242070DB, 0xC1BDCEEE,
     0xF57C0FAF, 0x4787C62A, 0xA8304613, 0xFD469501,
     0x698098D8, 0x8B44F7AF, 0xFFFF5BB1, 0x895CD7BE,
     0x6B901122, 0xFD987193, 0xA679438E, 0x49B40821,
     0xF61E2562, 0xC040B340, 0x265E5A51, 0xE9B6C7AA,
     0xD62F105D, 0x02441453, 0xD8A1E681, 0xE7D3FBC8,
     0x21E1CDE6, 0xC33707D6, 0xF4D50D87, 0x455A14ED,
     0xA9E3E905, 0xFCEFA3F8, 0x676F02D9, 0x8D2A4C8A,
     0xFFFA3942, 0x8771F681, 0x6D9D6122, 0xFDE5380C,
     0xA4BEEA44, 0x4BDECFA9, 0xF6BB4B60, 0xBEBFBC70,
     0x289B7EC6, 0xEAA127FA, 0xD4EF3085, 0x04881D05,
     0xD9D4D039, 0xE6DB99E5, 0x1FA27CF8, 0xC4AC5665,
     0xF4292244, 0x432AFF97, 0xAB9423A7, 0xFC93A039,
     0x655B59C3, 0x8F0CCC92, 0xFFEFF47D, 0x85845DD1,
     0x6FA87E4F, 0xFE2CE6E0, 0xA3014314, 0x4E0811A1,
     0xF7537E82, 0xBD3AF235, 0x2AD7D2BB, 0xEB86D391]"

definition rfc_op :: "(32 word \<Rightarrow> 32 word \<Rightarrow> 32 word \<Rightarrow> 32 word) \<Rightarrow> 32 word \<Rightarrow> nat \<Rightarrow> 32 word \<Rightarrow> chain \<Rightarrow> chain" where
  "rfc_op F x s t = (\<lambda>(a, b, c, d). (d, b + word_rotl s (a + F b c d + x + t), b, c))"

definition rfc_step :: "(nat \<Rightarrow> 32 word) \<Rightarrow> chain \<Rightarrow> nat \<Rightarrow> chain" where
  "rfc_step X st k = rfc_op (rfc_F k) (X (rfc_idx k)) (rfc_shift k) (rfc_T ! k) st"

definition rfc_block :: "(nat \<Rightarrow> 32 word) \<Rightarrow> chain \<Rightarrow> chain" where
  "rfc_block X st =
     (let (a, b, c, d) = st; (a', b', c', d') = foldl (rfc_step X) st [0..<64]
      in (a' + a, b' + b, c' + c, d' + d))"

text \<open>The four positions the rotating state of the reference has over the variables of the script.\<close>

fun view0 :: "md5_state \<Rightarrow> chain" where "view0 (a, b, c, d) = (w32 a, w32 b, w32 c, w32 d)"
fun view1 :: "md5_state \<Rightarrow> chain" where "view1 (a, b, c, d) = (w32 d, w32 a, w32 b, w32 c)"
fun view2 :: "md5_state \<Rightarrow> chain" where "view2 (a, b, c, d) = (w32 c, w32 d, w32 a, w32 b)"
fun view3 :: "md5_state \<Rightarrow> chain" where "view3 (a, b, c, d) = (w32 b, w32 c, w32 d, w32 a)"

definition mixes :: "md5_fun \<Rightarrow> (32 word \<Rightarrow> 32 word \<Rightarrow> 32 word \<Rightarrow> 32 word) \<Rightarrow> bool" where
  "mixes f F \<longleftrightarrow> (\<forall>a b c d x s t. 0 < s \<and> s < 32 \<longrightarrow>
     w32 (f a b c d x s t) = w32 b + word_rotl s (w32 a + F (w32 b) (w32 c) (w32 d) + w32 x + w32 t))"

lemma md5_cmn_word:
  "0 < s \<Longrightarrow> s < 32 \<Longrightarrow>
   w32 (md5_cmn q a b x s t) = w32 b + word_rotl s (w32 a + w32 q + w32 x + w32 t)"
  by (simp add: md5_cmn_def safe_add_word bit_rol_word add.commute add.left_commute)

lemma mixes: "mixes md5_ff rfc_f1" "mixes md5_gg rfc_f2" "mixes md5_hh rfc_f3" "mixes md5_ii rfc_f4"
  by (simp_all add: mixes_def md5_ff_def md5_gg_def md5_hh_def md5_ii_def md5_cmn_word js_int32
      rfc_f1_def rfc_f2_def rfc_f3_def rfc_f4_def xor.assoc)

lemma view_set:
  assumes "mixes f F" "0 < s" "s < 32"
  shows "view1 (set_a f x s t st) = rfc_op F (w32 x) s (w32 t) (view0 st)"
    and "view2 (set_d f x s t st) = rfc_op F (w32 x) s (w32 t) (view1 st)"
    and "view3 (set_c f x s t st) = rfc_op F (w32 x) s (w32 t) (view2 st)"
    and "view0 (set_b f x s t st) = rfc_op F (w32 x) s (w32 t) (view3 st)"
  using assms by (cases st; simp add: mixes_def rfc_op_def)+

lemma neg_numeral_w32: "(- numeral n :: 32 word) = word_of_int (2 ^ 32 - numeral n)"
proof -
  have "take_bit 32 (2 ^ 32 - numeral n) = take_bit 32 (- numeral n :: int)"
    by (simp only: take_bit_eq_mod minus_mod_self1)
  then have "w32 (2 ^ 32 - numeral n) = w32 (- numeral n)"
    by (simp only: uint_w32 [unfolded to_uint32_def, symmetric] word_uint_eq_iff)
  then show ?thesis by simp
qed

lemmas rfc_eval = rfc_step_def rfc_F_def rfc_idx_def rfc_shift_def rfc_T_def neg_numeral_w32

lemma md5_round_ff_word:
  "view0 (md5_round_ff x i st) =
   foldl (rfc_step (\<lambda>k. w32 (arr_get x (i + k)))) (view0 st)
     [0, 1, 2, 3, 4, 5, 6, 7, 8, 9, 10, 11, 12, 13, 14, 15]"
  by (simp add: md5_round_ff_def view_set [OF mixes(1)] rfc_eval)

lemma md5_round_gg_word:
  "view0 (md5_round_gg x i st) =
   foldl (rfc_step (\<lambda>k. w32 (arr_get x (i + k)))) (view0 st)
     [16, 17, 18, 19, 20, 21, 22, 23, 24, 25, 26, 27, 28, 29, 30, 31]"
  by (simp add: md5_round_gg_def view_set [OF mixes(2)] rfc_eval)

lemma md5_round_hh_word:
  "view0 (md5_round_hh x i st) =
   foldl (rfc_step (\<lambda>k. w32 (arr_get x (i + k)))) (view0 st)
     [32, 33, 34, 35, 36, 37, 38, 39, 40, 41, 42, 43, 44, 45, 46, 47]"
  by (simp add: md5_round_hh_def view_set [OF mixes(3)] rfc_eval)

lemma md5_round_ii_word:
  "view0 (md5_round_ii x i st) =
   foldl (rfc_step (\<lambda>k. w32 (arr_get x (i + k)))) (view0 st)
     [48, 49, 50, 51, 52, 53, 54, 55, 56, 57, 58, 59, 60, 61, 62, 63]"
  by (simp add: md5_round_ii_def view_set [OF mixes(4)] rfc_eval)

lemma upt_64:
  "[0..<64] =
     [0, 1, 2, 3, 4, 5, 6, 7, 8, 9, 10, 11, 12, 13, 14, 15] @
     [16, 17, 18, 19, 20, 21, 22, 23, 24, 25, 26, 27, 28, 29, 30, 31] @
     [32, 33, 34, 35, 36, 37, 38, 39, 40, 41, 42, 43, 44, 45, 46, 47] @
     [48, 49, 50, 51, 52, 53, 54, 55, 56, 57, 58, 59, 60, 61, 62, 63]"
  by code_simp

lemma md5_block_word:
  "view0 (md5_block x i s) = rfc_block (\<lambda>k. w32 (arr_get x (i + k))) (view0 s)"
proof -
  let ?s' = "md5_round_ii x i (md5_round_hh x i (md5_round_gg x i (md5_round_ff x i s)))"
  have rounds: "view0 ?s' = foldl (rfc_step (\<lambda>k. w32 (arr_get x (i + k)))) (view0 s) [0..<64]"
    by (simp only: upt_64 foldl_append md5_round_ff_word md5_round_gg_word md5_round_hh_word
        md5_round_ii_word)
  obtain a b c d where s: "s = (a, b, c, d)" by (cases s)
  obtain a' b' c' d' where s': "?s' = (a', b', c', d')" by (cases ?s')
  have "foldl (rfc_step (\<lambda>k. w32 (arr_get x (i + k)))) (w32 a, w32 b, w32 c, w32 d) [0..<64]
      = (w32 a', w32 b', w32 c', w32 d')"
    using rounds by (simp add: s s' [unfolded s])
  then show ?thesis
    by (simp add: md5_block_def rfc_block_def Let_def s s' [unfolded s] safe_add_word)
qed

text \<open>The chaining of the blocks of a message given by its words.\<close>

definition rfc_init :: chain where
  "rfc_init = (0x67452301, 0xEFCDAB89, 0x98BADCFE, 0x10325476)"

definition rfc_blocks :: "(nat \<Rightarrow> 32 word) \<Rightarrow> nat list \<Rightarrow> chain \<Rightarrow> chain" where
  "rfc_blocks X bs st = foldl (\<lambda>st b. rfc_block (\<lambda>k. X (16 * b + k)) st) st bs"

lemma md5_loop_word:
  "view0 (md5_loop x (16 * b) s) =
   rfc_blocks (\<lambda>k. w32 (arr_get x k)) [b..<(length x + 15) div 16] (view0 s)"
proof (induction "(length x + 15) div 16 - b" arbitrary: b s)
  case 0
  then have "\<not> 16 * b < length x" by arith
  with 0 show ?case by (simp add: md5_loop.simps [of x "16 * b"] rfc_blocks_def)
next
  case (Suc n)
  then have lt: "16 * b < length x" and b: "b < (length x + 15) div 16" by arith+
  from Suc.hyps(2) have "n = (length x + 15) div 16 - Suc b" by simp
  from Suc.hyps(1) [OF this, of "md5_block x (16 * b) s"] lt show ?case
    by (simp add: md5_loop.simps [of x "16 * b"] upt_conv_Cons [OF b] rfc_blocks_def md5_block_word
        add.commute)
qed

section \<open>Message words and padding\<close>

text \<open>
  The reference reads a message as bytes, appends the byte \<open>0x80\<close>, zeros up to 56 modulo 64 and the
  bit length in eight bytes, and takes four bytes at a time as a little-endian word.
\<close>

definition byte_at :: "8 word list \<Rightarrow> nat \<Rightarrow> 8 word" where
  "byte_at bs k = (if k < length bs then bs ! k else 0)"

definition le_word :: "8 word list \<Rightarrow> nat \<Rightarrow> 32 word" where
  "le_word bs j =
     ucast (byte_at bs (4 * j)) OR push_bit 8 (ucast (byte_at bs (4 * j + 1))) OR
     push_bit 16 (ucast (byte_at bs (4 * j + 2))) OR push_bit 24 (ucast (byte_at bs (4 * j + 3)))"

definition length_bytes :: "nat \<Rightarrow> 8 word list" where
  "length_bytes n = map (\<lambda>k. word_of_nat (n div 256 ^ k)) [0..<8]"

definition rfc_pad :: "8 word list \<Rightarrow> 8 word list" where
  "rfc_pad bs =
     bs @ [0x80] @ replicate (((length bs + 8) div 64) * 64 + 55 - length bs) 0
        @ length_bytes (8 * length bs)"

definition rfc_md5 :: "8 word list \<Rightarrow> chain" where
  "rfc_md5 bs =
     (let m = rfc_pad bs in rfc_blocks (le_word m) [0..<length m div 64] rfc_init)"

lemma bit_word_of_nat: "bit (word_of_nat m :: 'a::len word) n \<longleftrightarrow> n < LENGTH('a) \<and> bit m n"
  using bit_word_of_int_iff [of "int m" n] by (simp add: bit_of_nat_iff_bit)

lemma bit_le_word:
  "bit (le_word bs j) n \<longleftrightarrow> n < 32 \<and> bit (byte_at bs (4 * j + n div 8)) (n mod 8)"
proof (cases "n < 32")
  case True
  then consider "n < 8" | "8 \<le> n" "n < 16" | "16 \<le> n" "n < 24" | "24 \<le> n" "n < 32"
    by linarith
  then show ?thesis
  proof cases
    case 1
    then show ?thesis by (simp add: le_word_def bit_simps)
  next
    case 2
    then have "n div 8 = 1" by arith
    then have "n mod 8 = n - 8" by (simp add: modulo_nat_def)
    with 2 \<open>n div 8 = 1\<close> show ?thesis
      by (auto simp: le_word_def bit_simps dest: bit_imp_le_length)
  next
    case 3
    then have "n div 8 = 2" by arith
    then have "n mod 8 = n - 16" by (simp add: modulo_nat_def)
    with 3 \<open>n div 8 = 2\<close> show ?thesis
      by (auto simp: le_word_def bit_simps dest: bit_imp_le_length)
  next
    case 4
    then have "n div 8 = 3" by arith
    then have "n mod 8 = n - 24" by (simp add: modulo_nat_def)
    with 4 \<open>n div 8 = 3\<close> show ?thesis
      by (auto simp: le_word_def bit_simps dest: bit_imp_le_length)
  qed
next
  case False
  then show ?thesis by (auto dest: bit_imp_le_length)
qed

lemma length_rfc_pad: "length (rfc_pad bs) = 64 * ((length bs + 8) div 64 + 1)"
proof -
  have "length bs \<le> ((length bs + 8) div 64) * 64 + 55" by presburger
  then show ?thesis by (simp add: rfc_pad_def length_bytes_def)
qed

text \<open>The words \<open>str2binl\<close> makes of a string are the words of its low bytes.\<close>

definition low_bytes :: "nat list \<Rightarrow> 8 word list" where
  "low_bytes s = map word_of_nat s"

lemma mask8: "js_shl 1 chrsz - 1 = 255"
  by (simp add: js_shl_def chrsz_def to_int32_def)

lemma w32_low_byte: "w32 (js_and (int c) 255) = ucast (word_of_nat c :: 8 word)"
proof (rule bit_word_eqI)
  fix n assume "n < LENGTH(32)"
  have "(255::32 word) = mask 8" by (simp add: mask_eq_exp_minus_1)
  then have "bit (255::32 word) n \<longleftrightarrow> n < 8"
    using \<open>n < LENGTH(32)\<close> by (simp only: bit_mask_iff) auto
  then show "bit (w32 (js_and (int c) 255)) n = bit (ucast (word_of_nat c :: 8 word) :: 32 word) n"
    by (auto simp: js_int32 bit_simps)
qed

lemma byte_position:
  fixes a b r q j :: nat
  assumes "8 * a + b < 32" "b < 8" "r < 4"
  shows "(q = j \<and> 8 * r \<le> 8 * a + b \<and> 8 * a + b - 8 * r < 8) = (4 * j + a = 4 * q + r)"
    and "4 * j + a = 4 * q + r \<Longrightarrow> 8 * a + b - 8 * r = b"
proof -
  from assms have "a < 4" by simp
  with assms have eq: "4 * j + a = 4 * q + r \<longleftrightarrow> q = j \<and> r = a" by presburger
  moreover from assms have "8 * r \<le> 8 * a + b \<and> 8 * a + b - 8 * r < 8 \<longleftrightarrow> r = a" by linarith
  ultimately show "(q = j \<and> 8 * r \<le> 8 * a + b \<and> 8 * a + b - 8 * r < 8) = (4 * j + a = 4 * q + r)"
    by simp
  show "4 * j + a = 4 * q + r \<Longrightarrow> 8 * a + b - 8 * r = b"
    using eq by simp
qed

lemma byte_at_shift: "byte_at (replicate k 0 @ bs) p = (if p < k then 0 else byte_at bs (p - k))"
  by (auto simp: byte_at_def nth_append)

lemma byte_at_Cons: "byte_at (b # bs) p = (if p = 0 then b else byte_at bs (p - 1))"
  by (auto simp: byte_at_def nth_Cons split: nat.splits)

lemma bit_byte_low: "bit (b :: 8 word) m \<Longrightarrow> m < 8"
  by (auto dest: bit_imp_le_length)

lemma bit_shifted_byte:
  assumes n: "n < 32"
  shows "k div 4 = j \<and> bit (push_bit (8 * (k mod 4)) (ucast (b :: 8 word)) :: 32 word) n \<longleftrightarrow>
         4 * j + n div 8 = k \<and> bit b (n mod 8)"
proof -
  define q r a c where qr: "q = k div 4" "r = k mod 4" "a = n div 8" "c = n mod 8"
  then have eqs: "k = 4 * q + r" "r < 4" "n = 8 * a + c" "c < 8" by simp_all
  have "k div 4 = j \<and> 8 * (k mod 4) \<le> n \<and> n - 8 * (k mod 4) < 8 \<longleftrightarrow> 4 * j + n div 8 = k"
    using n eqs byte_position(1) [of a c r q j] by (simp add: qr [symmetric])
  moreover have "n - 8 * (k mod 4) = n mod 8" if "4 * j + n div 8 = k"
    using that n eqs byte_position(2) [of a c r j q] by (simp add: qr [symmetric])
  ultimately show ?thesis
    using n by (auto simp: bit_push_bit_iff bit_ucast_iff dest: bit_byte_low)
qed

lemma str2binl_loop_word:
  "w32 (arr_get (str2binl_loop cs (8 * k) bin) j) =
   w32 (arr_get bin j) OR le_word (replicate k 0 @ low_bytes cs) j"
proof (induction cs arbitrary: k bin)
  case Nil
  have "le_word (replicate k 0 @ low_bytes []) j = 0"
    by (rule bit_word_eqI) (auto simp: bit_le_word byte_at_def low_bytes_def)
  then show ?case by simp
next
  case (Cons c cs)
  let ?v = "js_or (arr_get bin (k div 4)) (js_shl (js_and (int c) 255) (8 * (k mod 4)))"
  let ?bin = "arr_set bin (k div 4) ?v"
  have idx: "8 * k div 32 = k div 4" "8 * k mod 32 = 8 * (k mod 4)"
    using div_mult_mult1 [of 8 k 4] mod_mult_mult1 [of 8 k 4] by simp_all
  have step: "str2binl_loop (c # cs) (8 * k) bin = str2binl_loop cs (8 * Suc k) ?bin"
    by (simp add: mask8 [unfolded chrsz_def] chrsz_def Let_def idx add.commute)
  have v: "w32 ?v = w32 (arr_get bin (k div 4)) OR
      push_bit (8 * (k mod 4)) (ucast (word_of_nat c :: 8 word))"
    by (simp add: w32_or w32_shl w32_low_byte)
  have "w32 (arr_get ?bin j) OR le_word (replicate (Suc k) 0 @ low_bytes cs) j =
      w32 (arr_get bin j) OR le_word (replicate k 0 @ low_bytes (c # cs)) j"
  proof (rule bit_word_eqI)
    fix n assume "n < LENGTH(32)"
    then have n: "n < 32" by simp
    let ?p = "4 * j + n div 8"
    let ?byte = "?p = k \<and> bit (word_of_nat c :: 8 word) (n mod 8)"
    have "bit (w32 (arr_get ?bin j)) n \<longleftrightarrow> bit (w32 (arr_get bin j)) n \<or> ?byte"
      using bit_shifted_byte [OF n, of k j "word_of_nat c"]
      by (cases "k div 4 = j") (auto simp: v bit_or_iff)
    moreover have "bit (le_word (replicate k 0 @ low_bytes (c # cs)) j) n \<longleftrightarrow>
        ?byte \<or> bit (le_word (replicate (Suc k) 0 @ low_bytes cs) j) n"
      using n by (auto simp: bit_le_word byte_at_shift byte_at_Cons low_bytes_def simp del: replicate_Suc)
    ultimately show "bit (w32 (arr_get ?bin j) OR le_word (replicate (Suc k) 0 @ low_bytes cs) j) n =
        bit (w32 (arr_get bin j) OR le_word (replicate k 0 @ low_bytes (c # cs)) j) n"
      by (simp only: bit_or_iff) blast
  qed
  then show ?case
    using Cons.IH [of "Suc k" ?bin] by (simp only: step)
qed

lemma str2binl_word: "w32 (arr_get (str2binl s) j) = le_word (low_bytes s) j"
  using str2binl_loop_word [of s 0 "[]" j] by (simp add: str2binl_def arr_get_def)

lemma length_str2binl_loop:
  "length (str2binl_loop cs (8 * k) bin) =
   max (length bin) (if cs = [] then 0 else (k + length cs + 3) div 4)"
proof (induction cs arbitrary: k bin)
  case (Cons c cs)
  have "8 * k div 32 = k div 4"
    using div_mult_mult1 [of 8 k 4] by simp
  with Cons.IH [of "Suc k"] show ?case
    by (auto simp: chrsz_def Let_def add.commute [of "8 * k" 8] max_def Suc_le_eq)
qed simp

lemma length_str2binl: "length (str2binl s) = (length s + 3) div 4"
  using length_str2binl_loop [of s 0 "[]"] by (simp add: str2binl_def)

lemma byte_at_pad:
  defines "B \<equiv> \<lambda>bs. (length bs + 8) div 64"
  shows "byte_at (rfc_pad bs) p =
     (if p < length bs then bs ! p
      else if p = length bs then 0x80
      else if p < 64 * B bs + 56 then 0
      else if p < 64 * B bs + 64 then word_of_nat (8 * length bs div 256 ^ (p - (64 * B bs + 56)))
      else 0)"
proof -
  define f where "f = bs @ [0x80] @ replicate (64 * B bs + 55 - length bs) 0"
  have "length bs \<le> 64 * B bs + 55" unfolding B_def by presburger
  then have f: "length f = 64 * B bs + 56" by (simp add: f_def)
  have pad: "rfc_pad bs = f @ length_bytes (8 * length bs)"
    by (simp add: rfc_pad_def f_def B_def mult.commute)
  show ?thesis
  proof (cases "p < length f")
    case True
    then have "byte_at (rfc_pad bs) p = f ! p"
      by (simp add: byte_at_def pad nth_append)
    then show ?thesis
      using True f by (auto simp: f_def nth_append nth_Cons split: nat.splits)
  next
    case False
    moreover have "length bs < length f" by (simp add: f_def)
    ultimately show ?thesis
      using f by (auto simp: byte_at_def pad nth_append length_bytes_def)
  qed
qed

text \<open>An array of words that holds a byte string, four bytes to a word.\<close>

definition represents :: "int list \<Rightarrow> 8 word list \<Rightarrow> bool" where
  "represents x bs \<longleftrightarrow>
     length x = (length bs + 3) div 4 \<and> (\<forall>j. w32 (arr_get x j) = le_word bs j)"

lemma represents_str2binl: "represents (str2binl s) (low_bytes s)"
  by (simp add: represents_def str2binl_word length_str2binl low_bytes_def)

lemma md5_pad_word:
  assumes len: "length bs < 2 ^ 28"
    and x: "represents x bs"
    and j: "j < 16 * ((length bs + 8) div 64) + 16"
  shows "w32 (arr_get (md5_pad x (8 * length bs)) j) = le_word (rfc_pad bs) j"
proof (rule bit_word_eqI)
  fix n assume "n < LENGTH(32)"
  then have n: "n < 32" by simp
  let ?L = "length bs" and ?x = x and ?p = "4 * j + n div 8"
  define B where "B = (?L + 8) div 64"
  have idx: "8 * ?L div 32 = ?L div 4" "8 * ?L mod 32 = 8 * (?L mod 4)"
    "(8 * ?L + 64) div 512 = B"
    using div_mult_mult1 [of 8 ?L 4] mod_mult_mult1 [of 8 ?L 4] div_mult_mult1 [of 8 "?L + 8" 64]
    by (simp_all add: B_def)
  have L: "?L < 64 * B + 56" unfolding B_def by presburger
  then have q: "?L div 4 < 16 * B + 14" by linarith
  have lhs: "arr_get (md5_pad ?x (8 * ?L)) j =
      (if j = 16 * B + 14 then int (8 * ?L)
       else if j = ?L div 4 then js_or (arr_get ?x j) (js_shl 128 (8 * (?L mod 4)))
       else arr_get ?x j)"
    using idx by (simp add: md5_pad_def Let_def mult.commute add.commute)
  show "bit (w32 (arr_get (md5_pad ?x (8 * ?L)) j)) n = bit (le_word (rfc_pad bs) j) n"
  proof -
    have p: "bit (le_word (rfc_pad bs) j) n = bit (byte_at (rfc_pad bs) ?p) (n mod 8)"
      using n by (simp add: bit_le_word)
    have k: "n div 8 < 4" using n by simp
    consider "j < 16 * B + 14" | "j = 16 * B + 14" | "j = 16 * B + 15"
      using j by (fold B_def) linarith
    then show ?thesis
    proof cases
      case 1
      then have "?p < 64 * B + 56" using k by linarith
      then have rhs: "bit (le_word (rfc_pad bs) j) n =
          (if ?p < ?L then bit (bs ! ?p) (n mod 8)
           else ?p = ?L \<and> bit (0x80 :: 8 word) (n mod 8))"
        by (simp add: p byte_at_pad B_def)
      have "bit (w32 (arr_get ?x j)) n = (?p < ?L \<and> bit (bs ! ?p) (n mod 8))"
        using n by (simp add: x [unfolded represents_def] bit_le_word byte_at_def)
      moreover have "?L div 4 = j \<and> bit (w32 (js_shl 128 (8 * (?L mod 4)))) n \<longleftrightarrow>
          ?p = ?L \<and> bit (0x80 :: 8 word) (n mod 8)"
        using bit_shifted_byte [OF n, of ?L j "0x80"] by (simp add: w32_shl)
      moreover have "?L div 4 = j" if "?p = ?L"
        using that [symmetric] n by simp
      ultimately show ?thesis
        using 1 unfolding lhs rhs by (cases "?L div 4 = j") (auto simp: w32_or bit_or_iff)
    next
      case 2
      then have "arr_get (md5_pad ?x (8 * ?L)) j = int (8 * ?L)"
        unfolding lhs by (rule if_P)
      then have "bit (w32 (arr_get (md5_pad ?x (8 * ?L)) j)) n = bit (8 * ?L) n"
        using n by (simp only: bit_w32 bit_of_nat_iff_bit simp_thms)
      moreover have "bit (byte_at (rfc_pad bs) ?p) (n mod 8) =
          bit (8 * ?L div 256 ^ (n div 8)) (n mod 8)"
        using 2 k L by (simp add: byte_at_pad B_def [symmetric] bit_word_of_nat)
      moreover have "8 * ?L div 256 ^ (n div 8) = drop_bit (8 * (n div 8)) (8 * ?L)"
        by (simp add: drop_bit_eq_div power_mult)
      ultimately show ?thesis by (simp add: p bit_drop_bit_eq)
    next
      case 3
      have "length ?x \<le> j" using L 3 x by (simp add: represents_def)
      then have "arr_get (md5_pad ?x (8 * ?L)) j = 0"
        using 3 q unfolding lhs by (simp add: arr_get_beyond)
      then have "bit (w32 (arr_get (md5_pad ?x (8 * ?L)) j)) n = False"
        by simp
      moreover have "8 * ?L div 256 ^ (4 + n div 8) = 0"
      proof -
        have "8 * ?L < 256 ^ 4" using len by simp
        also have "\<dots> \<le> (256 :: nat) ^ (4 + n div 8)" by (rule power_increasing) simp_all
        finally show ?thesis by simp
      qed
      then have "byte_at (rfc_pad bs) ?p = 0"
        using 3 k L by (simp add: byte_at_pad B_def [symmetric] )
      ultimately show ?thesis by (simp add: p)
    qed
  qed
qed

section \<open>The digest is the one of RFC 1321\<close>

lemma rfc_idx_less: "k < 64 \<Longrightarrow> rfc_idx k < 16"
  by (simp add: rfc_idx_def)

lemma rfc_block_cong:
  assumes "\<And>k. k < 16 \<Longrightarrow> X k = Y k"
  shows "rfc_block X st = rfc_block Y st"
proof -
  have "foldl (rfc_step X) st [0..<64] = foldl (rfc_step Y) st [0..<64]"
    by (rule foldl_cong) (auto simp: rfc_step_def assms rfc_idx_less)
  then show ?thesis by (simp add: rfc_block_def)
qed

lemma rfc_blocks_cong:
  assumes "\<And>k. k < 16 * n \<Longrightarrow> X k = Y k"
  shows "rfc_blocks X [0..<n] st = rfc_blocks Y [0..<n] st"
  unfolding rfc_blocks_def
  by (rule foldl_cong) (auto intro!: rfc_block_cong assms)

definition chain_words :: "chain \<Rightarrow> 32 word list" where
  "chain_words = (\<lambda>(a, b, c, d). [a, b, c, d])"

lemma core_md5_words:
  "map w32 (core_md5 x len) =
   chain_words (rfc_blocks (\<lambda>k. w32 (arr_get (md5_pad x len) k))
     [0..<(length (md5_pad x len) + 15) div 16] rfc_init)"
proof -
  let ?s = "(1732584193, - 271733879, - 1732584194, 271733878) :: md5_state"
  have init: "view0 ?s = rfc_init"
    by (simp add: rfc_init_def neg_numeral_w32)
  have "map w32 (core_md5 x len) = chain_words (view0 (md5_loop (md5_pad x len) 0 ?s))"
    by (simp add: core_md5_def Let_def chain_words_def split: prod.split)
  also have "view0 (md5_loop (md5_pad x len) 0 ?s) =
      rfc_blocks (\<lambda>k. w32 (arr_get (md5_pad x len) k))
        [0..<(length (md5_pad x len) + 15) div 16] rfc_init"
    using md5_loop_word [of "md5_pad x len" 0 ?s] unfolding init by simp
  finally show ?thesis .
qed

lemma length_md5_pad:
  assumes x: "represents x bs"
  shows "length (md5_pad x (8 * length bs)) = 16 * ((length bs + 8) div 64) + 15"
proof -
  define B where "B = (length bs + 8) div 64"
  have idx: "(8 * length bs + 64) div 512 = B" "8 * length bs div 32 = length bs div 4"
    using div_mult_mult1 [of 8 "length bs + 8" 64] div_mult_mult1 [of 8 "length bs" 4]
    by (simp_all add: B_def)
  have L: "length bs < 64 * B + 56" unfolding B_def by presburger
  then have "(length bs + 3) div 4 \<le> 16 * B + 15" "length bs div 4 \<le> 16 * B + 14"
    by linarith+
  then show ?thesis
    using x unfolding B_def [symmetric] represents_def
    by (simp add: md5_pad_def Let_def idx)
qed

lemma core_md5_represents:
  assumes "represents x bs" and "length bs < 2 ^ 28"
  shows "map w32 (core_md5 x (8 * length bs)) = chain_words (rfc_md5 bs)"
proof -
  let ?B = "(length bs + 8) div 64 + 1"
  have "rfc_blocks (\<lambda>k. w32 (arr_get (md5_pad x (8 * length bs)) k)) [0..<?B] rfc_init
      = rfc_blocks (le_word (rfc_pad bs)) [0..<?B] rfc_init"
    by (rule rfc_blocks_cong) (simp add: md5_pad_word [OF assms(2,1)])
  then show ?thesis
    by (simp add: core_md5_words length_md5_pad [OF assms(1)] rfc_md5_def length_rfc_pad)
qed

end
