(* ===== verification/Md5_Digest.thy ===== *)
theory Md5_Digest
  imports Md5_Rfc
begin

text \<open>
  What the digest functions of \<open>md5.js\<close> return: the hexadecimal and base-64 forms, the string
  conversions as inverses, and the keyed digest.
\<close>

section \<open>Digest strings\<close>

definition hex_digit :: "nat \<Rightarrow> char" where
  "hex_digit n = ''0123456789abcdef'' ! n"

definition byte_hex :: "8 word \<Rightarrow> string" where
  "byte_hex b = [hex_digit (unat (drop_bit 4 b)), hex_digit (unat (take_bit 4 b))]"

text \<open>The bytes of a word, low byte first.\<close>

definition word_bytes :: "32 word \<Rightarrow> 8 word list" where
  "word_bytes w = map (\<lambda>k. ucast (drop_bit (8 * k) w)) [0..<4]"

definition digest_bytes :: "32 word list \<Rightarrow> 8 word list" where
  "digest_bytes ws = concat (map word_bytes ws)"

lemma nth_digest_bytes:
  "i < 4 * length ws \<Longrightarrow> digest_bytes ws ! i = ucast (drop_bit (8 * (i mod 4)) (ws ! (i div 4)))"
proof (induction ws arbitrary: i)
  case (Cons w ws)
  show ?case
  proof (cases "i < 4")
    case True
    then have "i = 0 \<or> i = 1 \<or> i = 2 \<or> i = 3" by linarith
    then show ?thesis
      by (auto simp: digest_bytes_def word_bytes_def nth_append upt_rec)
  next
    case False
    then have "i div 4 = Suc ((i - 4) div 4)" "i mod 4 = (i - 4) mod 4"
      by (simp_all add: div_if [of i 4] mod_if [of i 4])
    with False Cons show ?thesis
      by (simp add: digest_bytes_def word_bytes_def nth_append)
  qed
qed simp

lemma length_digest_bytes: "length (digest_bytes ws) = 4 * length ws"
  by (induction ws) (simp_all add: digest_bytes_def word_bytes_def)

lemma js_nibble:
  assumes "m < 32"
  shows "nat (js_and (js_sar x m) 15) = unat (take_bit 4 (signed_drop_bit m (w32 x)))"
proof -
  have m4: "js_and y 15 = take_bit 4 (to_int32 y)" for y
  proof -
    have "to_int32 y AND 15 = to_int32 y AND mask 4" by (simp add: mask_eq_exp_minus_1)
    then show ?thesis by (simp add: js_and_def to_int32_small take_bit_eq_mask)
  qed
  have "take_bit 4 (to_int32 y) = take_bit 4 y" for y
    by (rule bit_eqI) (auto simp: bit_take_bit_iff bit_to_int32)
  moreover have "take_bit 4 (uint (w32 y)) = take_bit 4 y" for y
    by (simp add: uint_w32 to_uint32_def)
  ultimately have "take_bit 4 (to_int32 y) = uint (take_bit 4 (w32 y))" for y
    by (simp add: unsigned_take_bit_eq)
  then have "nat (js_and (js_sar x m) 15) = nat (uint (take_bit 4 (w32 (js_sar x m))))"
    by (simp only: m4)
  then show ?thesis
    by (simp only: unat_eq_nat_uint w32_sar [OF assms])
qed

lemma byte_nibbles:
  fixes w :: "32 word"
  assumes "k < 4"
  shows "drop_bit 4 (ucast (drop_bit (8 * k) w) :: 8 word) = ucast (take_bit 4 (signed_drop_bit (8 * k + 4) w))"
    and "take_bit 4 (ucast (drop_bit (8 * k) w) :: 8 word) = ucast (take_bit 4 (signed_drop_bit (8 * k) w))"
proof -
  have m: "\<not> 28 - 8 * k \<le> n" "\<not> 32 - 8 * k \<le> n" if "n < 4" for n
    using assms that by linarith+
  show "drop_bit 4 (ucast (drop_bit (8 * k) w) :: 8 word) = ucast (take_bit 4 (signed_drop_bit (8 * k + 4) w))"
  proof (rule bit_word_eqI)
    fix n assume "n < LENGTH(8)"
    then show "bit (drop_bit 4 (ucast (drop_bit (8 * k) w) :: 8 word)) n =
        bit (ucast (take_bit 4 (signed_drop_bit (8 * k + 4) w)) :: 8 word) n"
      by (cases "n < 4") (auto simp: bit_drop_bit_eq bit_ucast_iff bit_take_bit_iff
          bit_signed_drop_bit_iff m add.assoc)
  qed
  show "take_bit 4 (ucast (drop_bit (8 * k) w) :: 8 word) = ucast (take_bit 4 (signed_drop_bit (8 * k) w))"
  proof (rule bit_word_eqI)
    fix n assume "n < LENGTH(8)"
    then show "bit (take_bit 4 (ucast (drop_bit (8 * k) w) :: 8 word)) n =
        bit (ucast (take_bit 4 (signed_drop_bit (8 * k) w)) :: 8 word) n"
      by (cases "n < 4") (auto simp: bit_drop_bit_eq bit_ucast_iff bit_take_bit_iff
          bit_signed_drop_bit_iff m)
  qed
qed

lemma unat_ucast_nibble: "unat (ucast (take_bit 4 v) :: 8 word) = unat (take_bit 4 (v :: 32 word))"
proof -
  have "take_bit 8 (take_bit 4 (unat v)) = take_bit 4 (unat v)" by simp
  then show ?thesis
    by (simp add: unsigned_ucast_eq unsigned_take_bit_eq)
qed

lemma binl2hex_bytes: "binl2hex xs = concat (map byte_hex (digest_bytes (map w32 xs)))"
proof -
  let ?f = "\<lambda>i. [hex_tab ! nat (js_and (js_sar (arr_get xs (i div 4)) (i mod 4 * 8 + 4)) 15),
                  hex_tab ! nat (js_and (js_sar (arr_get xs (i div 4)) (i mod 4 * 8)) 15)]"
  have "byte_hex (digest_bytes (map w32 xs) ! i) = ?f i" if i: "i < length xs * 4" for i
  proof -
    let ?m = "8 * (i mod 4)" and ?w = "w32 (xs ! (i div 4))"
    have "i mod 4 < 4" by simp
    then have m: "?m + 4 < 32" "?m < 32" by linarith+
    have q: "i div 4 < length xs" using i by auto
    show ?thesis
      using i q m byte_nibbles [of "i mod 4" ?w]
      by (simp add: byte_hex_def hex_digit_def hex_tab_def hexcase_def nth_digest_bytes
          arr_get_def js_nibble unat_ucast_nibble mult.commute [of "i mod 4"])
  qed
  then have "map ?f [0..<length xs * 4] = map byte_hex (digest_bytes (map w32 xs))"
    by (intro nth_equalityI) (simp_all add: length_digest_bytes mult.commute)
  then show ?thesis by (simp add: binl2hex_def)
qed

definition rfc_hex :: "8 word list \<Rightarrow> string" where
  "rfc_hex bs = concat (map byte_hex (digest_bytes (chain_words (rfc_md5 bs))))"

lemma length_low_bytes [simp]: "length (low_bytes s) = length s"
  by (simp add: low_bytes_def)

lemma hex_md5_words:
  "length s < 2 ^ 28 \<Longrightarrow>
   map w32 (core_md5 (str2binl s) (length s * chrsz)) = chain_words (rfc_md5 (low_bytes s))"
  using core_md5_represents [OF represents_str2binl, of s]
  by (simp add: chrsz_def mult.commute)

lemma length_core_md5: "length (core_md5 x len) = 4"
  by (simp add: core_md5_def Let_def split: prod.split)

lemma length_binl2hex: "length (binl2hex xs) = 8 * length xs"
  by (simp add: binl2hex_def length_concat o_def sum_list_triv)

lemma length_hex_md5: "length (hex_md5 s) = 32"
  by (simp add: hex_md5_def length_binl2hex length_core_md5)

definition hex_chars :: "char set" where
  "hex_chars = set ''0123456789abcdef''"

lemma hex_digit_in: "n < 16 \<Longrightarrow> hex_digit n \<in> hex_chars"
  unfolding hex_digit_def hex_chars_def by (rule nth_mem) simp

lemma unat_take_bit_4: "unat (take_bit 4 (b :: 8 word)) < 16"
  by (simp add: unsigned_take_bit_eq take_bit_nat_less_exp [of 4, simplified])

lemma unat_drop_bit_4: "unat (drop_bit 4 (b :: 8 word)) < 16"
proof -
  have "unat b < 256" using unsigned_less [of b] by simp
  then have "unat b div 16 < 16" by simp
  then show ?thesis by (simp add: drop_bit_eq_div unat_div)
qed

lemma set_byte_hex: "set (byte_hex b) \<subseteq> hex_chars"
  by (simp add: byte_hex_def hex_digit_in unat_take_bit_4 unat_drop_bit_4)

lemma set_binl2hex: "set (binl2hex xs) \<subseteq> hex_chars"
  using set_byte_hex by (fastforce simp: binl2hex_bytes)

lemma hex_digit_inj: "m < 16 \<Longrightarrow> n < 16 \<Longrightarrow> hex_digit m = hex_digit n \<longleftrightarrow> m = n"
  unfolding hex_digit_def by (subst nth_eq_iff_index_eq) simp_all

lemma byte_hex_inj: "byte_hex b = byte_hex c \<longleftrightarrow> b = c"
proof
  assume "byte_hex b = byte_hex c"
  then have "unat (take_bit 4 b) = unat (take_bit 4 c)" "unat (drop_bit 4 b) = unat (drop_bit 4 c)"
    by (simp_all add: byte_hex_def hex_digit_inj unat_take_bit_4 unat_drop_bit_4)
  then have "take_bit 4 b = take_bit 4 c" "drop_bit 4 b = drop_bit 4 c"
    by (simp_all only: word_unat_eq_iff)
  then show "b = c"
    by (metis bits_ident)
qed simp

lemma concat_pairs_inj:
  assumes "\<And>x. length (f x) = 2" "\<And>x y. f x = f y \<longleftrightarrow> x = y"
  shows "concat (map f xs) = concat (map f ys) \<longleftrightarrow> xs = ys"
proof (induction xs arbitrary: ys)
  case Nil
  have "f y \<noteq> []" for y using assms(1) [of y] by auto
  then show ?case by (cases ys) auto
next
  case (Cons x xs)
  have "f y \<noteq> []" for y using assms(1) [of y] by auto
  with Cons assms show ?case by (cases ys) auto
qed

lemma digest_bytes_inj: "digest_bytes ws = digest_bytes vs \<longleftrightarrow> ws = vs"
proof
  assume eq: "digest_bytes ws = digest_bytes vs"
  then have len: "length ws = length vs"
    using length_digest_bytes [of ws] length_digest_bytes [of vs] by simp
  have "ws ! j = vs ! j" if j: "j < length ws" for j
  proof (rule bit_word_eqI)
    fix n assume "n < LENGTH(32)"
    then have n: "n < 32" by simp
    define k where "k = n div 8"
    have k: "k < 4" using n by (simp add: k_def)
    then have i: "4 * j + k < 4 * length ws" using j by linarith
    have "digest_bytes ws ! (4 * j + k) = digest_bytes vs ! (4 * j + k)" using eq by simp
    then have "ucast (drop_bit (8 * k) (ws ! j)) = (ucast (drop_bit (8 * k) (vs ! j)) :: 8 word)"
      using i k len by (simp add: nth_digest_bytes)
    then have "bit (ucast (drop_bit (8 * k) (ws ! j)) :: 8 word) (n mod 8) =
        bit (ucast (drop_bit (8 * k) (vs ! j)) :: 8 word) (n mod 8)" by simp
    then show "bit (ws ! j) n = bit (vs ! j) n"
      by (simp add: bit_ucast_iff bit_drop_bit_eq k_def)
  qed
  with len show "ws = vs" by (simp add: list_eq_iff_nth_eq)
qed simp

lemma binl2hex_inj: "binl2hex xs = binl2hex ys \<longleftrightarrow> map w32 xs = map w32 ys"
proof -
  have "length (byte_hex b) = 2" for b by (simp add: byte_hex_def)
  from concat_pairs_inj [OF this byte_hex_inj] show ?thesis
    by (simp add: binl2hex_bytes digest_bytes_inj)
qed

section \<open>Strings and words\<close>

lemma nth_binl2str:
  assumes "k < 4 * length bin"
  shows "binl2str bin ! k = unat (ucast (drop_bit (8 * (k mod 4)) (w32 (arr_get bin (k div 4)))) :: 8 word)"
proof -
  let ?m = "8 * (k mod 4)" and ?x = "arr_get bin (k div 4)"
  have idx: "k * 8 div 32 = k div 4" "k * 8 mod 32 = ?m"
    using div_mult_mult1 [of 8 k 4] mod_mult_mult1 [of 8 k 4] by (simp_all add: mult.commute)
  have "k mod 4 < 4" by simp
  then have m: "?m < 32" by linarith
  have m8: "js_and y 255 = take_bit 8 (to_int32 y)" for y
  proof -
    have "to_int32 y AND 255 = to_int32 y AND mask 8" by (simp add: mask_eq_exp_minus_1)
    then show ?thesis by (simp add: js_and_def to_int32_small take_bit_eq_mask)
  qed
  have t8: "take_bit 8 (to_int32 y) = uint (ucast (w32 y) :: 8 word)" for y
    by (rule bit_eqI) (auto simp: bit_take_bit_iff bit_to_int32 bit_uint_iff bit_ucast_iff bit_w32)
  have "binl2str bin ! k = nat (js_and (js_shr ?x ?m) 255)"
    using assms by (simp add: binl2str_def chrsz_def mask8 [unfolded chrsz_def] Let_def idx)
  also have "\<dots> = nat (uint (ucast (w32 (js_shr ?x ?m)) :: 8 word))"
    by (simp only: m8 t8)
  finally show ?thesis
    by (simp only: unat_eq_nat_uint w32_shr [OF m])
qed

lemma length_binl2str: "length (binl2str bin) = 4 * length bin"
  by (simp add: binl2str_def chrsz_def)

lemma binl2str_bytes: "binl2str bin = map unat (digest_bytes (map w32 bin))"
proof (rule nth_equalityI)
  fix k assume "k < length (binl2str bin)"
  then have k: "k < 4 * length bin" by (simp add: length_binl2str)
  then have "k div 4 < length bin" by auto
  with k show "binl2str bin ! k = map unat (digest_bytes (map w32 bin)) ! k"
    by (simp add: nth_binl2str nth_digest_bytes length_digest_bytes arr_get_def)
qed (simp add: length_binl2str length_digest_bytes)

lemma ucast_le_word:
  assumes "k < 4"
  shows "(ucast (drop_bit (8 * k) (le_word bs j)) :: 8 word) = byte_at bs (4 * j + k)"
proof (rule bit_word_eqI)
  fix n assume "n < LENGTH(8)"
  then have n: "n < 8" by simp
  have "(8 * k + n) div 8 = k" "(8 * k + n) mod 8 = n" "8 * k + n < 32" using assms n by simp_all
  with n show "bit (ucast (drop_bit (8 * k) (le_word bs j)) :: 8 word) n = bit (byte_at bs (4 * j + k)) n"
    by (simp add: bit_ucast_iff bit_drop_bit_eq bit_le_word)
qed

lemma nth_represents:
  assumes "represents x bs" "k < 4 * length x"
  shows "digest_bytes (map w32 x) ! k = byte_at bs k"
proof -
  have q: "k div 4 < length x" using assms(2) by auto
  then have "w32 (x ! (k div 4)) = le_word bs (k div 4)"
    using assms(1) by (metis arr_get_def represents_def)
  with assms(2) q show ?thesis
    by (simp add: nth_digest_bytes ucast_le_word)
qed

text \<open>Back from words, a string comes with its low bytes, filled up to a whole number of words.\<close>

lemma binl2str_str2binl:
  "binl2str (str2binl s) = map (\<lambda>c. c mod 256) s @ replicate (4 * ((length s + 3) div 4) - length s) 0"
proof (rule nth_equalityI)
  have le: "length s \<le> 4 * ((length s + 3) div 4)" by presburger
  then show "length (binl2str (str2binl s)) =
      length (map (\<lambda>c. c mod 256) s @ replicate (4 * ((length s + 3) div 4) - length s) 0)"
    by (simp add: length_binl2str length_str2binl)
  fix k assume "k < length (binl2str (str2binl s))"
  then have k: "k < 4 * length (str2binl s)" by (simp add: length_binl2str)
  then have "binl2str (str2binl s) ! k = unat (byte_at (low_bytes s) k)"
    using nth_represents [OF represents_str2binl k] by (simp add: binl2str_bytes length_digest_bytes)
  then show "binl2str (str2binl s) ! k =
      (map (\<lambda>c. c mod 256) s @ replicate (4 * ((length s + 3) div 4) - length s) 0) ! k"
    using k by (simp add: byte_at_def low_bytes_def nth_append unat_of_nat take_bit_eq_mod
        length_str2binl)
qed

section \<open>The keyed digest is HMAC\<close>

definition rfc_digest :: "8 word list \<Rightarrow> 8 word list" where
  "rfc_digest bs = digest_bytes (chain_words (rfc_md5 bs))"

text \<open>RFC 2104: a key longer than a block is digested, and the key is filled up to a block.\<close>

definition hmac_key :: "8 word list \<Rightarrow> 8 word list" where
  "hmac_key k = (if length k > 64 then rfc_digest k else k)"

definition hmac_pad :: "8 word \<Rightarrow> 8 word list \<Rightarrow> 8 word list" where
  "hmac_pad b k = map (\<lambda>i. byte_at (hmac_key k) i XOR b) [0..<64]"

definition rfc_hmac :: "8 word list \<Rightarrow> 8 word list \<Rightarrow> 8 word list" where
  "rfc_hmac k m = rfc_digest (hmac_pad 0x5C k @ rfc_digest (hmac_pad 0x36 k @ m))"

lemma representsI:
  assumes "length x = (length bs + 3) div 4"
    and "\<And>j n. n < 32 \<Longrightarrow> bit (w32 (arr_get x j)) n = bit (byte_at bs (4 * j + n div 8)) (n mod 8)"
  shows "represents x bs"
  using assms by (auto simp: represents_def bit_le_word intro!: bit_word_eqI)

lemma bit_represents:
  "represents x bs \<Longrightarrow> n < 32 \<Longrightarrow>
   bit (w32 (arr_get x j)) n = bit (byte_at bs (4 * j + n div 8)) (n mod 8)"
  by (simp add: represents_def bit_le_word)

lemma represents_append:
  assumes x: "represents x bs" and y: "represents y cs" and len: "length bs = 4 * length x"
  shows "represents (x @ y) (bs @ cs)"
proof (rule representsI)
  show "length (x @ y) = (length (bs @ cs) + 3) div 4"
    using y len by (simp add: represents_def)
next
  fix j n :: nat assume n: "n < 32"
  show "bit (w32 (arr_get (x @ y) j)) n = bit (byte_at (bs @ cs) (4 * j + n div 8)) (n mod 8)"
  proof (cases "j < length x")
    case True
    then have "4 * j + n div 8 < length bs" using n len by linarith
    with True n show ?thesis
      by (simp add: arr_get_append bit_represents [OF x] byte_at_def nth_append)
  next
    case False
    then have "byte_at (bs @ cs) (4 * j + n div 8) = byte_at cs (4 * (j - length x) + n div 8)"
      using len by (auto simp: byte_at_def nth_append diff_mult_distrib2)
    with False n show ?thesis
      by (simp add: arr_get_append bit_represents [OF y])
  qed
qed

lemma represents_digest_bytes: "represents x (digest_bytes (map w32 x))"
proof (rule representsI)
  show "length x = (length (digest_bytes (map w32 x)) + 3) div 4"
    by (simp add: length_digest_bytes)
next
  fix j n :: nat assume n: "n < 32"
  let ?k = "4 * j + n div 8"
  have q: "?k div 4 = j" "?k mod 4 = n div 8" using n by simp_all
  show "bit (w32 (arr_get x j)) n = bit (byte_at (digest_bytes (map w32 x)) ?k) (n mod 8)"
  proof (cases "j < length x")
    case True
    then have "?k < 4 * length x" using n by linarith
    with True q show ?thesis
      by (simp add: byte_at_def length_digest_bytes nth_digest_bytes bit_ucast_iff bit_drop_bit_eq
          arr_get_def)
  next
    case False
    then have "\<not> ?k < 4 * length x" by linarith
    with False show ?thesis by (simp add: byte_at_def length_digest_bytes arr_get_def)
  qed
qed

lemma represents_core_md5:
  assumes "represents x bs" "length bs < 2 ^ 28"
  shows "represents (core_md5 x (8 * length bs)) (rfc_digest bs)"
  using represents_digest_bytes [of "core_md5 x (8 * length bs)"]
  by (simp add: core_md5_represents [OF assms] rfc_digest_def)

lemma represents_xor:
  assumes x: "represents x bs" and c: "\<And>n. n < 32 \<Longrightarrow> bit (w32 c) n = bit (b :: 8 word) (n mod 8)"
  shows "represents (map (\<lambda>i. js_xor (arr_get x i) c) [0..<16]) (map (\<lambda>i. byte_at bs i XOR b) [0..<64])"
proof (rule representsI)
  fix j n :: nat assume n: "n < 32"
  have k: "4 * j + n div 8 < 64 \<longleftrightarrow> j < 16" using n by linarith
  show "bit (w32 (arr_get (map (\<lambda>i. js_xor (arr_get x i) c) [0..<16]) j)) n =
      bit (byte_at (map (\<lambda>i. byte_at bs i XOR b) [0..<64]) (4 * j + n div 8)) (n mod 8)"
    using k n by (simp add: arr_get_def [of "map _ _"] byte_at_def [of "map _ _"] w32_xor bit_xor_iff
        c bit_represents [OF x])
qed simp

lemma pad_bits:
  "n < 32 \<Longrightarrow> bit (w32 0x36363636) n = bit (0x36 :: 8 word) (n mod 8)"
  "n < 32 \<Longrightarrow> bit (w32 0x5C5C5C5C) n = bit (0x5C :: 8 word) (n mod 8)"
proof -
  have "\<forall>n \<in> {0..<32}. bit (0x36363636 :: 32 word) n = bit (0x36 :: 8 word) (n mod 8)"
    "\<forall>n \<in> {0..<32}. bit (0x5C5C5C5C :: 32 word) n = bit (0x5C :: 8 word) (n mod 8)"
    by code_simp+
  then show "n < 32 \<Longrightarrow> bit (w32 0x36363636) n = bit (0x36 :: 8 word) (n mod 8)"
    "n < 32 \<Longrightarrow> bit (w32 0x5C5C5C5C) n = bit (0x5C :: 8 word) (n mod 8)"
    by simp_all
qed

lemma length_rfc_digest [simp]: "length (rfc_digest bs) = 16"
  by (simp add: rfc_digest_def length_digest_bytes chain_words_def split: prod.split)

lemma length_hmac_pad [simp]: "length (hmac_pad b k) = 64"
  by (simp add: hmac_pad_def)

lemma core_hmac_md5_words:
  assumes key: "length key < 2 ^ 28" and data: "length data < 2 ^ 28 - 64"
  shows "digest_bytes (map w32 (core_hmac_md5 key data)) = rfc_hmac (low_bytes key) (low_bytes data)"
proof -
  let ?k = "low_bytes key" and ?m = "low_bytes data"
  define bkey where "bkey =
    (if length (str2binl key) > 16 then core_md5 (str2binl key) (length key * chrsz) else str2binl key)"
  have "length (str2binl key) > 16 \<longleftrightarrow> length ?k > 64"
    unfolding length_str2binl length_low_bytes by linarith
  then have bkey: "represents bkey (hmac_key ?k)"
    using represents_core_md5 [OF represents_str2binl, of key] key
    by (simp add: bkey_def hmac_key_def represents_str2binl chrsz_def mult.commute)
  let ?ipad = "map (\<lambda>i. js_xor (arr_get bkey i) 0x36363636) [0..<16]"
  let ?opad = "map (\<lambda>i. js_xor (arr_get bkey i) 0x5C5C5C5C) [0..<16]"
  have ipad: "represents ?ipad (hmac_pad 0x36 ?k)" and opad: "represents ?opad (hmac_pad 0x5C ?k)"
    unfolding hmac_pad_def using represents_xor [OF bkey] pad_bits by blast+
  have "represents (?ipad @ str2binl data) (hmac_pad 0x36 ?k @ ?m)"
    by (rule represents_append [OF ipad represents_str2binl]) simp
  from represents_core_md5 [OF this]
  have inner: "represents (core_md5 (?ipad @ str2binl data) (512 + length data * chrsz))
      (rfc_digest (hmac_pad 0x36 ?k @ ?m))"
    using data by (simp add: chrsz_def algebra_simps)
  from represents_append [OF opad inner]
  have outer: "represents (?opad @ core_md5 (?ipad @ str2binl data) (512 + length data * chrsz))
      (hmac_pad 0x5C ?k @ rfc_digest (hmac_pad 0x36 ?k @ ?m))"
    by simp
  from core_md5_represents [OF outer] show ?thesis
    by (simp add: core_hmac_md5_def Let_def flip: bkey_def)
      (simp add: rfc_hmac_def rfc_digest_def)
qed

section \<open>Base 64\<close>

definition b64_char :: "nat \<Rightarrow> char" where
  "b64_char n = b64_tab ! n"

text \<open>Base 64 of a list of bytes without fill characters, three bytes at a time.\<close>

fun b64_group :: "nat list \<Rightarrow> string" where
  "b64_group [] = []"
| "b64_group [a] = [b64_char (a div 4), b64_char (a mod 4 * 16)]"
| "b64_group [a, b] =
     [b64_char (a div 4), b64_char (a mod 4 * 16 + b div 16), b64_char (b mod 16 * 4)]"
| "b64_group (a # b # c # _) =
     [b64_char (a div 4), b64_char (a mod 4 * 16 + b div 16),
      b64_char (b mod 16 * 4 + c div 64), b64_char (c mod 64)]"

fun b64_ref :: "nat list \<Rightarrow> string" where
  "b64_ref (a # b # c # bs) = b64_group [a, b, c] @ b64_ref bs"
| "b64_ref bs = b64_group bs"

lemma b64_ref_groups:
  "b64_ref bs = concat (map (\<lambda>k. b64_group (drop (3 * k) bs)) [0..<(length bs + 2) div 3])"
proof (induction bs rule: b64_ref.induct)
  case (1 a b c bs)
  have "(length (a # b # c # bs) + 2) div 3 = Suc ((length bs + 2) div 3)"
    by simp
  then have "[0..<(length (a # b # c # bs) + 2) div 3] = 0 # map Suc [0..<(length bs + 2) div 3]"
    by (simp add: upt_conv_Cons map_Suc_upt del: upt_Suc)
  moreover have "drop (3 * Suc x) (a # b # c # bs) = drop (3 * x) bs" for x
  proof -
    have "3 * Suc x = Suc (Suc (Suc (3 * x)))" by simp
    then show ?thesis by (simp only: drop_Suc_Cons)
  qed
  ultimately show ?case
    using 1 by (simp add: o_def)
qed simp_all

lemma js_sar_byte:
  assumes "k < 4"
  shows "js_and (js_sar x (8 * k)) 0xFF = uint (ucast (drop_bit (8 * k) (w32 x)) :: 8 word)"
proof (rule bit_eqI)
  fix n
  have "to_int32 y AND 255 = to_int32 y AND mask 8" for y by (simp add: mask_eq_exp_minus_1)
  then have m8: "js_and y 255 = take_bit 8 (to_int32 y)" for y
    by (simp add: js_and_def to_int32_small take_bit_eq_mask)
  show "bit (js_and (js_sar x (8 * k)) 0xFF) n = bit (uint (ucast (drop_bit (8 * k) (w32 x)) :: 8 word)) n"
    using assms by (auto simp: m8 js_sar_def bit_take_bit_iff bit_to_int32 bit_drop_bit_eq bit_uint_iff
        bit_ucast_iff bit_w32)
qed

lemma byte_of_words:
  "js_and (js_sar (arr_get xs (i div 4)) (8 * (i mod 4))) 0xFF =
   uint (byte_at (digest_bytes (map w32 xs)) i)"
proof (cases "i < 4 * length xs")
  case True
  then have "i div 4 < length xs" by auto
  with True show ?thesis
    by (simp add: js_sar_byte byte_at_def nth_digest_bytes length_digest_bytes arr_get_def)
next
  case False
  then have "length xs \<le> i div 4" by auto
  with False show ?thesis
    by (simp add: js_sar_byte byte_at_def length_digest_bytes arr_get_def)
qed

lemma js_or_add:
  assumes "0 \<le> x" "x < 2 ^ 31" "0 \<le> y" "y < 2 ^ n" "n < 31" "take_bit n x = 0"
  shows "js_or x y = x + y"
proof -
  have "(2::int) ^ n \<le> 2 ^ 31" using assms(5) by (intro power_increasing) auto
  then have "to_int32 x = x" "to_int32 y = y" using assms by (auto intro!: to_int32_small)
  then have "js_or x y = x OR y" by (simp add: js_or_def)
  also have "\<dots> = x + y"
  proof (rule disjunctive_add [symmetric])
    fix m
    have "\<not> bit x m" if "m < n" using assms(6) that bit_take_bit_iff [of n x m] by simp
    moreover have "\<not> bit y m" if "n \<le> m"
      using assms(3,4) that bit_take_bit_iff [of n y m] by (simp add: take_bit_int_eq_self)
    ultimately show "\<not> bit x m \<or> \<not> bit y m" by (cases "m < n") auto
  qed
  finally show ?thesis .
qed

lemma b64_triplet_value:
  fixes xs i defines "b \<equiv> \<lambda>k. uint (byte_at (digest_bytes (map w32 xs)) (i + k))"
  shows "b64_triplet xs i = b 0 * 65536 + b 1 * 256 + b 2"
proof -
  have r: "0 \<le> b k" "b k < 256" for k
    unfolding b_def using uint_lt2p [of "byte_at (digest_bytes (map w32 xs)) (i + k)"] by simp_all
  have sh: "js_shl (b k) 16 = b k * 65536" "js_shl (b k) 8 = b k * 256" for k
    using r [of k] by (simp_all add: js_shl_def to_int32_small push_bit_eq_mult)
  have "js_or (b 0 * 65536) (b 1 * 256) = b 0 * 65536 + b 1 * 256"
    by (rule js_or_add [of _ _ 16]) (use r [of 0] r [of 1] in \<open>auto simp: take_bit_eq_mod\<close>)
  moreover have "js_or (b 0 * 65536 + b 1 * 256) (b 2) = b 0 * 65536 + b 1 * 256 + b 2"
  proof (rule js_or_add [of _ _ 8])
    have "b 0 * 65536 + b 1 * 256 = (b 0 * 256 + b 1) * 2 ^ 8" by simp
    then show "take_bit 8 (b 0 * 65536 + b 1 * 256) = 0" by (simp only: take_bit_eq_mod mod_mult_self2_is_0)
  qed (use r [of 0] r [of 1] r [of 2] in auto)
  moreover have "js_and (js_sar (arr_get xs ((i + k) div 4)) (8 * ((i + k) mod 4))) 0xFF = b k" for k
    unfolding b_def by (rule byte_of_words)
  from this [of 0] this [of 1] this [of 2] have "b64_triplet xs i = js_or (js_or (js_shl (b 0) 16) (js_shl (b 1) 8)) (b 2)"
    by (simp add: b64_triplet_def)
  ultimately show ?thesis by (simp only: sh)
qed

lemma div_mod_64: "r < d \<Longrightarrow> v < 64 \<Longrightarrow> (d * (64 * q + v) + r) div d mod 64 = (v::nat)"
  by simp

lemma sextet_values:
  fixes a b c :: nat
  assumes "a < 256" "b < 256" "c < 256"
  defines "t \<equiv> a * 65536 + b * 256 + c"
  shows "t div 2 ^ 18 mod 64 = a div 4"
    and "t div 2 ^ 12 mod 64 = a mod 4 * 16 + b div 16"
    and "t div 2 ^ 6 mod 64 = b mod 16 * 4 + c div 64"
    and "t div 2 ^ 0 mod 64 = c mod 64"
proof -
  define a1 a0 b1 b0 c1 c0
    where d: "a1 = a div 4" "a0 = a mod 4" "b1 = b div 16" "b0 = b mod 16" "c1 = c div 64" "c0 = c mod 64"
  then have s: "a = 4 * a1 + a0" "b = 16 * b1 + b0" "c = 64 * c1 + c0"
    "a0 < 4" "b0 < 16" "c0 < 64" "a1 < 64" "b1 < 16" "c1 < 4"
    using assms(1-3) by auto
  have "t = 2 ^ 18 * (64 * 0 + a1) + (a0 * 65536 + b * 256 + c)" using s(1) by (simp add: t_def)
  then show "t div 2 ^ 18 mod 64 = a div 4"
    unfolding d(1) [symmetric] using s assms(2,3) by (simp only: , intro div_mod_64) simp_all
  have "t = 2 ^ 12 * (64 * a1 + (a0 * 16 + b1)) + (b0 * 256 + c)" using s(1,2) by (simp add: t_def)
  then show "t div 2 ^ 12 mod 64 = a mod 4 * 16 + b div 16"
    unfolding d(2,3) [symmetric] using s assms(2,3) by (simp only: , intro div_mod_64) simp_all
  have "t = 2 ^ 6 * (64 * (a * 16 + b1) + (b0 * 4 + c1)) + c0" using s(2,3) by (simp add: t_def)
  then show "t div 2 ^ 6 mod 64 = b mod 16 * 4 + c div 64"
    unfolding d(4,5) [symmetric] using s assms(2,3) by (simp only: , intro div_mod_64) simp_all
  have "t = 2 ^ 0 * (64 * (a * 1024 + b * 4 + c1) + c0) + 0" using s(3) by (simp add: t_def)
  then show "t div 2 ^ 0 mod 64 = c mod 64"
    unfolding d(6) [symmetric] using s by (simp only: , intro div_mod_64) simp_all
qed

lemma js_sextet:
  assumes "T < 2 ^ 24" "n < 32"
  shows "nat (js_and (js_sar (int T) n) 0x3F) = T div 2 ^ n mod 64"
proof -
  have m6: "js_and y 63 = to_int32 y mod 64" for y
  proof -
    have "to_int32 y AND 63 = take_bit 6 (to_int32 y)" by (simp add: take_bit_eq_mask mask_eq_exp_minus_1)
    then show ?thesis by (simp add: js_and_def to_int32_small take_bit_eq_mod)
  qed
  have "T div 2 ^ n \<le> T" by (rule div_le_dividend)
  with assms(1) have "T div 2 ^ n < 2 ^ 24" by linarith
  moreover have "js_sar (int T) n = int (T div 2 ^ n)"
    using assms by (simp add: js_sar_small zdiv_int)
  ultimately have "js_and (js_sar (int T) n) 63 = int (T div 2 ^ n mod 64)"
    by (simp add: m6 to_int32_small zmod_int)
  then show ?thesis by simp
qed

lemma b64_chars_group:
  fixes xs k
  defines "bs \<equiv> map unat (digest_bytes (map w32 xs))" and "i \<equiv> 3 * k"
  assumes i: "i < length bs"
  shows "concat (map (\<lambda>j. if i * 8 + j * 6 > length xs * 32 then b64pad
           else [b64_tab ! nat (js_and (js_sar (b64_triplet xs i) (6 * (3 - j))) 0x3F)]) [0..<4])
         = b64_group (drop i bs)"
proof -
  let ?ds = "digest_bytes (map w32 xs)"
  define v where "v k = unat (byte_at ?ds (i + k))" for k
  have len: "length bs = 4 * length xs" by (simp add: bs_def length_digest_bytes)
  have v: "v k < 256" for k using unsigned_less [of "byte_at ?ds (i + k)"] by (simp add: v_def)
  define T where "T = v 0 * 65536 + v 1 * 256 + v 2"
  have T: "b64_triplet xs i = int T"
    by (simp add: b64_triplet_value T_def v_def)
  have T24: "T < 2 ^ 24" using v [of 0] v [of 1] v [of 2] by (simp add: T_def)
  have sx: "nat (js_and (js_sar (int T) 18) 63) = v 0 div 4"
    "nat (js_and (js_sar (int T) 12) 63) = v 0 mod 4 * 16 + v 1 div 16"
    "nat (js_and (js_sar (int T) 6) 63) = v 1 mod 16 * 4 + v 2 div 64"
    "nat (js_and (js_sar (int T) 0) 63) = v 2 mod 64"
    using sextet_values [OF v v v, of 0 1 2, folded T_def]
    by (simp_all only: js_sextet [OF T24])
  have four: "[0..<4] = [0, 1, 2, 3 :: nat]" by code_simp
  have at: "v k = bs ! (i + k)" if "i + k < length bs" for k
    using that by (simp add: v_def bs_def byte_at_def)
  have zero: "v k = 0" if "\<not> i + k < length bs" for k
    using that by (simp add: v_def bs_def byte_at_def)
  have L: "length xs * 32 = 8 * length bs" using len by simp
  consider "length bs = i + 1" | "length bs = i + 2" | "length bs > i + 2" using i by linarith
  then show ?thesis
  proof cases
    case 1
    then have "drop i bs = [v 0]" "v 1 = 0"
      using at [of 0] zero [of 1] by (simp_all add: Cons_nth_drop_Suc [symmetric])
    with 1 show ?thesis by (simp add: four L T sx b64_char_def b64pad_def)
  next
    case 2
    then have "drop i bs = [v 0, v 1]" "v 2 = 0"
      using at [of 0] at [of 1] zero [of 2] by (simp_all add: Cons_nth_drop_Suc [symmetric])
    with 2 show ?thesis by (simp add: four L T sx b64_char_def b64pad_def)
  next
    case 3
    then have "drop i bs = v 0 # v 1 # v 2 # drop (i + 3) bs"
      using at [of 0] at [of 1] at [of 2] by (simp add: Cons_nth_drop_Suc numeral_3_eq_3)
    with 3 show ?thesis by (simp add: four L T sx b64_char_def)
  qed
qed

lemma binl2b64_ref: "binl2b64 xs = b64_ref (map unat (digest_bytes (map w32 xs)))"
proof -
  let ?bs = "map unat (digest_bytes (map w32 xs))"
  have len: "length ?bs = length xs * 4" by (simp add: length_digest_bytes)
  have "3 * k < length ?bs" if "k < (length xs * 4 + 2) div 3" for k
    using that unfolding len by linarith
  then show ?thesis
    unfolding b64_ref_groups len binl2b64_def Let_def
    by (intro arg_cong [where f = concat] map_cong refl b64_chars_group) (simp add: length_digest_bytes)
qed

section \<open>Properties\<close>

text \<open>
  C1: \<open>hex_md5\<close> of a string of fewer than \<open>2 ^ 28\<close> characters is the MD5 of RFC 1321 of
  their low bytes, in lower-case hexadecimal; the rounds on JavaScript numbers never leave the range
  in which this is so.
\<close>

theorem md5_is_rfc1321:
  assumes "length s < 2 ^ 28"
  shows "hex_md5 s = concat (map byte_hex (rfc_digest (low_bytes s))) \<and> length (hex_md5 s) = 32"
  using hex_md5_words [OF assms] length_hex_md5 [of s] by (simp add: hex_md5_def binl2hex_bytes rfc_digest_def)

lemma md5_is_rfc1321_witness:
  "concat (map byte_hex (rfc_digest (low_bytes [97, 98, 99]))) = ''900150983cd24fb0d6963f7d28e17f72''"
  using md5_is_rfc1321 [of "[97, 98, 99]"] md5_vm_test_passes by (simp add: md5_vm_test_def)

text \<open>
  C10: \<open>hex_hmac_md5\<close> is the HMAC of RFC 2104 with that digest: keys longer than a block
  are digested first, and the two pads are applied to the key filled up to 64 bytes.
\<close>

theorem hmac_is_rfc2104:
  assumes "length key < 2 ^ 28" "length d < 2 ^ 28 - 64"
  shows "hex_hmac_md5 key d = concat (map byte_hex (rfc_hmac (low_bytes key) (low_bytes d)))"
  using core_hmac_md5_words [OF assms] by (simp add: hex_hmac_md5_def binl2hex_bytes)

lemma hmac_is_rfc2104_witness:
  "hex_hmac_md5 [107] [] = concat (map byte_hex (rfc_hmac (low_bytes [107]) (low_bytes [])))"
  by (rule hmac_is_rfc2104) simp_all

text \<open>
  The other encodings of a digest carry the same bytes: \<open>b64_md5\<close> is the base 64
  text of the digest whose bytes \<open>str_md5\<close> gives, and two strings have the same \<open>hex_md5\<close> only if their
  \<open>str_md5\<close> agree.
\<close>

theorem digest_encodings:
  "b64_md5 s = b64_ref (str_md5 s) \<and> (hex_md5 s = hex_md5 t \<longleftrightarrow> str_md5 s = str_md5 t)"
proof -
  have inj: "map unat xs = map unat ys \<longleftrightarrow> xs = ys" for xs ys :: "8 word list"
    by (rule inj_map_eq_map) (simp add: inj_def word_unat_eq_iff)
  show ?thesis
    by (simp add: b64_md5_def str_md5_def binl2b64_ref binl2str_bytes hex_md5_def binl2hex_inj inj digest_bytes_inj)
qed

text \<open>
  The function \<open>binl2str\<close> undoes \<open>str2binl\<close> on strings of bytes, up to the zeros that fill
  the last word; of a larger character the low byte remains.
\<close>

theorem string_words_roundtrip:
  "binl2str (str2binl s) = map (\<lambda>c. c mod 256) s @ replicate (4 * ((length s + 3) div 4) - length s) 0"
  by (rule binl2str_str2binl)

end
