(* ===== verification/User.thy ===== *)
theory User
  imports Browser GVerify Md5_Digest
begin

text \<open>
  The account functions (\<open>user.js\<close>): filling the login form from cookies, login with the verification
  code and the MD5 of the password, logout, the panels of the user's data, settings and password,
  and their requests. \<open>user_done\<close> is the success handler of each request. A value of a response or
  a cookie is a \<open>json\<close>; what is absent from an object is \<open>None\<close> (undefined).
\<close>

section \<open>The page of a user\<close>

record user_page = browser +
  centerUrl :: string
  cryptoPassword :: string

text \<open>Loading the script sets its globals.\<close>

definition load_user :: "'a user_page_scheme \<Rightarrow> 'a user_page_scheme" where
  "load_user p = p\<lparr>centerUrl := ''http://39.104.112.203:8080'', cryptoPassword := []\<rparr>"

text \<open>A parsed value in a string context, in a comparison with a string, and as request data.\<close>

fun json_text :: "json \<Rightarrow> string" where
  "json_text JSNull = ''null''"
| "json_text (JSBool b) = (if b then ''true'' else ''false'')"
| "json_text (JSInt n) = int_str n"
| "json_text (JSString s) = s"
| "json_text (JSArr xs) = join_with '','' (map (\<lambda>x. if x = JSNull then [] else json_text x) xs)"
| "json_text (JSObj ps) = ''[object Object]''"

definition opt_text :: "json option \<Rightarrow> string" where
  "opt_text v = (case v of None \<Rightarrow> ''undefined'' | Some j \<Rightarrow> json_text j)"

fun json_eq_str :: "json option \<Rightarrow> string \<Rightarrow> bool" where
  "json_eq_str None t = False"
| "json_eq_str (Some JSNull) t = False"
| "json_eq_str (Some (JSBool b)) t = num_eq (string_to_number (u t)) (if b then 1 else 0)"
| "json_eq_str (Some (JSInt n)) t = num_eq (string_to_number (u t)) n"
| "json_eq_str (Some j) t = (json_text j = t)"

fun json_data :: "json option \<Rightarrow> jsval" where
  "json_data None = JUndefined"
| "json_data (Some JSNull) = JNull"
| "json_data (Some (JSBool b)) = JBool b"
| "json_data (Some (JSInt n)) = JNum n"
| "json_data (Some j) = JStr (u (json_text j))"

definition str_data :: "string option \<Rightarrow> jsval" where
  "str_data v = (case v of None \<Rightarrow> JUndefined | Some s \<Rightarrow> JStr (u s))"

section \<open>The login form\<close>

definition window_onload :: "'a user_page_scheme \<Rightarrow> 'a user_page_scheme" where
  "window_onload p =
     (let oUser = inputs p ''usernameInput'' \<noteq> None;
          oPswd = inputs p ''passwordInput'' \<noteq> None;
          oRemember = checks p ''remember'' \<noteq> None;
          p1 = (if oUser \<and> cookie ''username'' p \<noteq> []
                then set_input ''usernameInput'' (cookie ''username'' p) p else p);
          p2 = (if oPswd \<and> cookie ''password'' p1 \<noteq> []
                then set_input ''passwordInput'' (cookie ''password'' p1) p1 else p1)
      in if oPswd \<and> cookie ''password'' p2 \<noteq> [] \<and> \<not> oRemember then throw ''TypeError'' p2
         else let p3 = (if oPswd \<and> cookie ''password'' p2 \<noteq> []
                        then p2\<lparr>checks := (checks p2)(''remember'' \<mapsto> True)\<rparr> else p2)
              in if oUser \<and> \<not> oRemember then throw ''TypeError'' p3 else p3)"

text \<open>The handler of the check box, which has been set to \<open>ticked\<close>.\<close>

definition remember_onchange :: "bool \<Rightarrow> 'a user_page_scheme \<Rightarrow> 'a user_page_scheme" where
  "remember_onchange ticked p0 =
     (let p = p0\<lparr>checks := (checks p0)(''remember'' \<mapsto> ticked)\<rparr>
      in if ticked then p
         else let p' = del_cookie ''password'' (del_cookie ''username'' p)
              in if inputs p' ''passwordInput'' = None then throw ''TypeError'' p'
                 else set_input ''passwordInput'' [] p')"

definition pswdOnFocus :: "'a user_page_scheme \<Rightarrow> 'a user_page_scheme" where
  "pswdOnFocus p =
     set_input ''passwordInput'' [] ((del_cookie ''password'' p)\<lparr>cryptoPassword := []\<rparr>)"

definition loginFunc :: "string option \<Rightarrow> options \<Rightarrow> 'a user_page_scheme \<Rightarrow> 'a user_page_scheme" where
  "loginFunc redict verifyCode p =
     (let redictUrl = (case redict of None \<Rightarrow> ''./index.html'' | Some r \<Rightarrow> r);
          code = val ''codeinput'' p;
          p1 = p\<lparr>cryptoPassword := cookie ''password'' p\<rparr>;
          username = val ''usernameInput'' p1
      in if cryptoPassword p1 = [] \<and> val ''passwordInput'' p1 = None then throw ''TypeError'' p1
         else let p2 = (if cryptoPassword p1 = []
                        then p1\<lparr>cryptoPassword := hex_md5 (u (the (val ''passwordInput'' p1)))\<rparr> else p1)
              in case code of
                   None \<Rightarrow> throw ''TypeError'' p2
                 | Some c \<Rightarrow>
                     if \<not> validate verifyCode c then js_alert ''wrong verification code'' p2
                     else if username = Some [] then js_alert ''user name required'' p2
                     else if cryptoPassword p2 = [] then js_alert ''password required'' p2
                     else ajax \<lparr>rq_method = ''get'', rq_url = centerUrl p2 @ ''/api/user/login'',
                                 rq_session = None,
                                 rq_body = Query [(''username'', str_data username),
                                   (''password'', JStr (u (cryptoPassword p2))), (''code'', JStr (u c))],
                                 rq_done = LoggedIn redictUrl\<rparr> p2)"

definition logged_in :: "string \<Rightarrow> response \<Rightarrow> 'a user_page_scheme \<Rightarrow> 'a user_page_scheme" where
  "logged_in redictUrl res p =
     (if rs_status res \<noteq> 200
      then let p1 = js_alert (rs_msg res) p
           in if redictUrl = ''./index.html'' then goto ''./login.html'' p1 else goto ''./web-login.html'' p1
      else let p1 = set_cookie ''Sessionid'' (rs_msg res) 10 p;
               p2 = set_cookie ''currentuser''
                      (stringify (case rs_data res of None \<Rightarrow> JSNull | Some j \<Rightarrow> j)) 10 p1;
               p3 = (case inputs p2 ''usernameInput'' of
                       None \<Rightarrow> p2
                     | Some name \<Rightarrow>
                         if checks p2 ''remember'' = Some True
                         then set_cookie ''password'' (cryptoPassword p2) 70
                                (set_cookie ''username'' name 70 p2)
                         else p2)
           in goto redictUrl p3)"

definition clearUsernameInput :: "'a user_page_scheme \<Rightarrow> 'a user_page_scheme" where
  "clearUsernameInput p =
     (if inputs p ''usernameInput'' = None then throw ''TypeError'' p
      else set_input ''usernameInput'' [] p)"

section \<open>SMS code, address book, logout\<close>

definition getCode :: "'a user_page_scheme \<Rightarrow> 'a user_page_scheme" where
  "getCode p =
     (let send = (\<lambda>name. ajax \<lparr>rq_method = ''get'', rq_url = centerUrl p @ ''/api/user/sendSMS/'' @ name,
            rq_session = Some (cookie ''Sessionid'' p), rq_body = NoBody, rq_done = CodeSent\<rparr> p)
      in if cookie ''currentuser'' p = []
         then send (case val ''usernameInput'' p of None \<Rightarrow> ''undefined'' | Some v \<Rightarrow> v)
         else case json_parse (cookie ''currentuser'' p) of
                None \<Rightarrow> throw ''SyntaxError'' p
              | Some j \<Rightarrow> if j = JSNull then throw ''TypeError'' p
                          else send (opt_text (json_get j ''tel'')))"

definition code_sent :: "response \<Rightarrow> 'a user_page_scheme \<Rightarrow> 'a user_page_scheme" where
  "code_sent res p = (if rs_status res \<noteq> 200 then js_alert (rs_msg res) p else p)"

text \<open>\<open>myAddressBook\<close> reads a variable \<open>sessionid\<close> that no script declares.\<close>

definition myAddressBook :: "'a user_page_scheme \<Rightarrow> 'a user_page_scheme" where
  "myAddressBook p = throw ''ReferenceError'' p"

definition doLogoutFunc :: "string option \<Rightarrow> 'a user_page_scheme \<Rightarrow> 'a user_page_scheme" where
  "doLogoutFunc redict p =
     (let redictUrl = (case redict of None \<Rightarrow> ''./login.html'' | Some r \<Rightarrow> r)
      in ajax \<lparr>rq_method = ''GET'', rq_url = centerUrl p @ ''/api/user/logout'',
               rq_session = Some (cookie ''Sessionid'' p), rq_body = NoBody,
               rq_done = LoggedOut redictUrl\<rparr> p)"

definition logoutFunc :: "bool \<Rightarrow> string option \<Rightarrow> 'a user_page_scheme \<Rightarrow> 'a user_page_scheme" where
  "logoutFunc confirmed redict p = (if confirmed then doLogoutFunc redict p else p)"

definition logged_out :: "string \<Rightarrow> 'a user_page_scheme \<Rightarrow> 'a user_page_scheme" where
  "logged_out redictUrl p = goto redictUrl (del_cookie ''currentuser'' (del_cookie ''Sessionid'' p))"

section \<open>The panels\<close>

definition openInfomationPanel :: "'a user_page_scheme \<Rightarrow> 'a user_page_scheme" where
  "openInfomationPanel p =
     ajax \<lparr>rq_method = ''GET'', rq_url = centerUrl p @ ''/api/user/whoami'',
           rq_session = Some (cookie ''Sessionid'' p), rq_body = NoBody, rq_done = InfoLoaded\<rparr> p"

text \<open>
  The inputs of the panel are written \<open>value=\<close> and the text, without quotes, then two spaces and
  \<open>required class=...\<close>: the attribute's value as the HTML parser reads it.
\<close>

definition html_space :: "char \<Rightarrow> bool" where
  "html_space c \<longleftrightarrow> c = CHR '' '' \<or> c = CHR 0x09 \<or> c = CHR 0x0A \<or> c = CHR 0x0C \<or> c = CHR 0x0D"

definition unquoted_attr :: "string \<Rightarrow> string" where
  "unquoted_attr v =
     (let s = dropWhile html_space (v @ ''  required class='' @ [CHR 0x22])
      in if hd s = CHR 0x22 \<or> hd s = CHR 0x27 then takeWhile (\<lambda>c. c \<noteq> hd s) (tl s)
         else takeWhile (\<lambda>c. \<not> html_space c \<and> c \<noteq> CHR ''>'') s)"

definition info_panel :: "json \<Rightarrow> panel" where
  "info_panel item =
     (let field = (\<lambda>k. opt_text (json_get item k)) in
      \<lparr>pn_id = ''openInfoPanel-layer'', pn_shown = False,
       pn_texts = [unquoted_attr (field ''reg_time'')],
       pn_inputs = [(''password'', unquoted_attr (field ''username'')),
                    (''email'', unquoted_attr (field ''email'')),
                    (''tel'', unquoted_attr (field ''tel'')),
                    (''intro'', field ''comments'')]\<rparr>)"

definition info_loaded :: "response \<Rightarrow> 'a user_page_scheme \<Rightarrow> 'a user_page_scheme" where
  "info_loaded res p =
     (if rs_status res = 500 then p
      else case rs_data res of
             None \<Rightarrow> js_alert ''not logged in'' p
           | Some item \<Rightarrow> show_panel ''openInfoPanel-layer'' (prepend (info_panel item) p))"

definition cancelPersonInfopanel :: "'a user_page_scheme \<Rightarrow> 'a user_page_scheme" where
  "cancelPersonInfopanel p = remove_panel ''openInfoPanel-layer'' (hide_panel ''openInfoPanel-layer'' p)"

text \<open>\<open>JSON.stringify\<close> leaves out the properties that are undefined.\<close>

fun defined_props :: "(string \<times> string option) list \<Rightarrow> (string \<times> json) list" where
  "defined_props [] = []"
| "defined_props ((k, None) # ps) = defined_props ps"
| "defined_props ((k, Some v) # ps) = (k, JSString v) # defined_props ps"

definition updateUserinfo :: "'a user_page_scheme \<Rightarrow> 'a user_page_scheme" where
  "updateUserinfo p =
     (let user = defined_props
        [(''username'', val ''usernameInput'' p), (''name'', val ''name'' p), (''email'', val ''email'' p),
         (''tel'', val ''tel'' p), (''firstname'', val ''firstname'' p), (''lastname'', val ''lastname'' p),
         (''comments'', val ''intro'' p)]
      in ajax \<lparr>rq_method = ''POST'', rq_url = centerUrl p @ ''/api/user/update'',
               rq_session = Some (cookie ''Sessionid'' p), rq_body = JsonText (stringify (JSObj user)),
               rq_done = InfoUpdated\<rparr> p)"

definition info_updated :: "response \<Rightarrow> 'a user_page_scheme \<Rightarrow> 'a user_page_scheme" where
  "info_updated res p =
     (if rs_status res \<noteq> 200 then js_alert (rs_msg res) p
      else js_alert ''changed'' (cancelPersonInfopanel p))"

text \<open>The close sign of the settings panel calls \<open>cancelPersonInfopanel\<close>, its button the other.\<close>

definition openSettingPanel :: "'a user_page_scheme \<Rightarrow> 'a user_page_scheme" where
  "openSettingPanel p = show_panel ''setting-layer''
     (prepend \<lparr>pn_id = ''setting-layer'', pn_shown = False, pn_texts = [], pn_inputs = []\<rparr> p)"

definition setting_close_sign :: "'a user_page_scheme \<Rightarrow> 'a user_page_scheme" where
  "setting_close_sign p = cancelPersonInfopanel p"

definition cancelSettingpanel :: "'a user_page_scheme \<Rightarrow> 'a user_page_scheme" where
  "cancelSettingpanel p = remove_panel ''setting-layer'' (hide_panel ''setting-layer'' p)"

section \<open>Changing the password\<close>

definition openUpdatePswdPanel :: "'a user_page_scheme \<Rightarrow> 'a user_page_scheme" where
  "openUpdatePswdPanel p = show_panel ''openUpdatePswdPanel-layer''
     (prepend \<lparr>pn_id = ''openUpdatePswdPanel-layer'', pn_shown = False, pn_texts = [],
        pn_inputs = [(''updatePswdCodeinput'', []), (''oldpasswordInput'', []), (''newpasswordInput'', [])]\<rparr> p)"

definition doUpdatePswd :: "'a user_page_scheme \<Rightarrow> 'a user_page_scheme" where
  "doUpdatePswd p =
     (case json_parse (cookie ''currentuser'' p) of
        None \<Rightarrow> throw ''SyntaxError'' p
      | Some user \<Rightarrow>
          if user = JSNull \<or> json_eq_str (Some user) [] then js_alert ''illegal user'' p
          else case val ''oldpasswordInput'' p of
                 None \<Rightarrow> throw ''TypeError'' p
               | Some old \<Rightarrow>
                   if \<not> json_eq_str (json_get user ''password'') (hex_md5 (u old))
                   then js_alert ''wrong password'' p
                   else case val ''newpasswordInput'' p of
                          None \<Rightarrow> throw ''TypeError'' p
                        | Some new \<Rightarrow>
                            ajax \<lparr>rq_method = ''GET'', rq_url = centerUrl p @ ''/api/user/updatePswd'',
                                  rq_session = Some (cookie ''Sessionid'' p),
                                  rq_body = Query [(''code'', str_data (val ''updatePswdCodeinput'' p)),
                                    (''tel'', json_data (json_get user ''tel'')),
                                    (''newpswd'', JStr (u (hex_md5 (u new))))],
                                  rq_done = PswdUpdated\<rparr> p)"

definition cancelUpdatepswdpanel :: "'a user_page_scheme \<Rightarrow> 'a user_page_scheme" where
  "cancelUpdatepswdpanel p =
     remove_panel ''openUpdatePswdPanel-layer'' (hide_panel ''openUpdatePswdPanel-layer'' p)"

definition pswd_updated :: "response \<Rightarrow> 'a user_page_scheme \<Rightarrow> 'a user_page_scheme" where
  "pswd_updated res p =
     (if rs_status res = 500 then js_alert (rs_msg res) p
      else if rs_data res = None then js_alert ''not logged in'' p
      else cancelUpdatepswdpanel (js_alert ''changed'' p))"

text \<open>The success handler of a request of this script.\<close>

fun user_done :: "callback \<Rightarrow> response \<Rightarrow> 'a user_page_scheme \<Rightarrow> 'a user_page_scheme" where
  "user_done (LoggedIn r) res p = logged_in r res p"
| "user_done CodeSent res p = code_sent res p"
| "user_done (LoggedOut r) res p = logged_out r p"
| "user_done InfoLoaded res p = info_loaded res p"
| "user_done InfoUpdated res p = info_updated res p"
| "user_done PswdUpdated res p = pswd_updated res p"
| "user_done _ res p = p"

section \<open>Cookies of a page\<close>

lemma cookie_set:
  "clean_jar (jar p) \<Longrightarrow> n \<in> set app_names \<Longrightarrow> m \<in> set app_names \<Longrightarrow> clean_val v \<Longrightarrow> 10 \<le> d \<Longrightarrow>
   cookie m (set_cookie n v d p) = (if m = n then v else cookie m p)"
  by (simp add: cookie_def set_cookie_def jar.get_put)

lemma clean_set:
  "clean_jar (jar p) \<Longrightarrow> n \<in> set app_names \<Longrightarrow> clean_val v \<Longrightarrow> 10 \<le> d \<Longrightarrow>
   clean_jar (jar (set_cookie n v d p))"
  by (simp add: set_cookie_def jar.inv_put)

lemma cookie_del:
  "clean_jar (jar p) \<Longrightarrow> n \<in> set app_names \<Longrightarrow> m \<in> set app_names \<Longrightarrow>
   cookie m (del_cookie n p) = (if m = n then [] else cookie m p)"
  by (simp add: cookie_def del_cookie_def jar.get_del)

lemma clean_del: "clean_jar (jar p) \<Longrightarrow> n \<in> set app_names \<Longrightarrow> clean_jar (jar (del_cookie n p))"
  by (simp add: del_cookie_def jar.inv_del)

lemma app_names_member [simp]:
  "''Sessionid'' \<in> set app_names" "''currentuser'' \<in> set app_names" "''username'' \<in> set app_names"
  "''password'' \<in> set app_names"
  by (simp_all add: app_names_def)

lemma cookie_goto [simp]: "cookie n (goto s p) = cookie n p" "jar (goto s p) = jar p"
  by (simp_all add: cookie_def goto_def)

lemma cookie_frame:
  "cookie n (set_input i v p) = cookie n p" "cookie n (p\<lparr>inputs := f\<rparr>) = cookie n p"
  "cookie n (p\<lparr>checks := g\<rparr>) = cookie n p" "cookie n (p\<lparr>cryptoPassword := h\<rparr>) = cookie n p"
  by (simp_all add: cookie_def set_input_def)

lemma clean_hash: "clean_val (hex_md5 s)"
proof -
  have len: "length (hex_md5 s) = 32" by (rule length_hex_md5)
  have chars: "set (hex_md5 s) \<subseteq> hex_chars" by (simp add: hex_md5_def set_binl2hex)
  have "\<not> sublist (n @ ''='') (hex_md5 s)" for n
    using chars by (auto simp: hex_chars_def dest!: set_mono_sublist)
  moreover have "\<forall>c \<in> set (hex_md5 s). \<not> is_wsp c" "CHR '';'' \<notin> set (hex_md5 s)"
    using chars by (auto simp: hex_chars_def is_wsp_def)
  ultimately show ?thesis using len
    by (auto simp: clean_val_def trim_wsp_def dropWhile_id)
qed

lemma frame_cookie [simp]:
  "inputs (set_cookie n v d p) = inputs p" "checks (set_cookie n v d p) = checks p"
  "now (set_cookie n v d p) = now p" "visits (set_cookie n v d p) = visits p"
  "cryptoPassword (set_cookie n v d p) = cryptoPassword p"
  by (simp_all add: set_cookie_def)

text \<open>What a successful login writes, in the terms of \<open>put_all\<close>.\<close>

definition login_cookies :: "response \<Rightarrow> 'a user_page_scheme \<Rightarrow> (string \<times> string \<times> int) list" where
  "login_cookies res p =
     [(''Sessionid'', rs_msg res, 10),
      (''currentuser'', stringify (case rs_data res of None \<Rightarrow> JSNull | Some j \<Rightarrow> j), 10)] @
     (case inputs p ''usernameInput'' of
        Some name \<Rightarrow> if checks p ''remember'' = Some True
          then [(''username'', name, 70), (''password'', cryptoPassword p, 70)] else []
      | None \<Rightarrow> [])"

lemma logged_in_jar:
  "rs_status res = 200 \<Longrightarrow>
   jar (logged_in r res p) = jar.put_all (now p) (login_cookies res p) (jar p)"
  by (simp add: logged_in_def login_cookies_def jar.put_all_def goto_def set_cookie_def Let_def
      split: option.splits)

lemma logged_in_now [simp]: "now (logged_in r res p) = now p"
  by (simp add: logged_in_def page_defs Let_def split: option.splits)

lemma logged_in_cookie:
  assumes "clean_jar (jar p)" "rs_status res = 200" "m \<in> set app_names"
    and "list_all (clean_val \<circ> fst \<circ> snd) (login_cookies res p)"
  shows "clean_jar (jar (logged_in r res p))"
    and "cookie m (logged_in r res p) =
      (case map_of (rev (map (\<lambda>(n, v, d). (n, v)) (login_cookies res p))) m of
         Some v \<Rightarrow> v | None \<Rightarrow> cookie m p)"
proof -
  have "list_all jar.ok_put (login_cookies res p)"
    using assms(4) by (auto simp: login_cookies_def jar.ok_put_def split: option.splits if_splits)
  note spec = jar.put_all_spec [OF assms(1) this, of "now p" m]
  show "clean_jar (jar (logged_in r res p))"
    using spec assms(2) by (simp add: logged_in_jar)
  show "cookie m (logged_in r res p) =
      (case map_of (rev (map (\<lambda>(n, v, d). (n, v)) (login_cookies res p))) m of
         Some v \<Rightarrow> v | None \<Rightarrow> cookie m p)"
    unfolding cookie_def logged_in_jar [OF assms(2)] logged_in_now
    using spec [THEN conjunct2] assms(3) by (simp only: simp_thms)
qed

section \<open>Sending a login\<close>

text \<open>The hash that \<open>loginFunc\<close> sends, and its request.\<close>

definition login_hash :: "string \<Rightarrow> 'a user_page_scheme \<Rightarrow> string" where
  "login_hash pw p = (if cookie ''password'' p = [] then hex_md5 (u pw) else cookie ''password'' p)"

definition login_request :: "string \<Rightarrow> string \<Rightarrow> string \<Rightarrow> string \<Rightarrow> 'a user_page_scheme \<Rightarrow> request" where
  "login_request r name hash c p =
     \<lparr>rq_method = ''get'', rq_url = centerUrl p @ ''/api/user/login'', rq_session = None,
      rq_body = Query [(''username'', JStr (u name)), (''password'', JStr (u hash)), (''code'', JStr (u c))],
      rq_done = LoggedIn r\<rparr>"

lemma login_hash_not_Nil: "login_hash pw p \<noteq> []"
  using length_hex_md5 [of "u pw"] by (auto simp: login_hash_def)

lemma val_crypto [simp]: "val i (p\<lparr>cryptoPassword := h\<rparr>) = val i p"
  by (simp add: val_def split: option.split)

lemma loginFunc_form:
  assumes "val ''passwordInput'' p = Some pw" "val ''codeinput'' p = Some c"
    "val ''usernameInput'' p = Some name"
  shows "loginFunc (Some r) vc p =
    (let p' = p\<lparr>cryptoPassword := login_hash pw p\<rparr> in
     if \<not> validate vc c then js_alert ''wrong verification code'' p'
     else if name = [] then js_alert ''user name required'' p'
     else ajax (login_request r name (login_hash pw p) c p) p')"
proof -
  have "hex_md5 (u pw) \<noteq> []" using length_hex_md5 [of "u pw"] by auto
  then show ?thesis using assms
    by (simp add: loginFunc_def Let_def login_hash_def login_request_def str_data_def)
qed

text \<open>Cookies that a login with a ticked box leaves, read at a later moment.\<close>

lemma remembered_cookies:
  assumes "clean_jar (jar p)" "rs_status res = 200"
    and "inputs p ''usernameInput'' = Some name" "checks p ''remember'' = Some True"
    and "list_all (clean_val \<circ> fst \<circ> snd) (login_cookies res p)"
    and t: "now p \<le> t" "t < now p + 7 * 86400000 - 1000"
  shows "read_cookie t ''username'' (jar (logged_in r res p)) = name"
    and "read_cookie t ''password'' (jar (logged_in r res p)) = cryptoPassword p"
proof -
  let ?user = "stringify (case rs_data res of None \<Rightarrow> JSNull | Some j \<Rightarrow> j)"
  let ?j2 = "setCookie (now p) ''currentuser'' ?user 10 (setCookie (now p) ''Sessionid'' (rs_msg res) 10 (jar p))"
  let ?j3 = "setCookie (now p) ''username'' name 70 ?j2"
  have clean: "clean_val (rs_msg res)" "clean_val ?user" "clean_val name" "clean_val (cryptoPassword p)"
    using assms(3-5) by (simp_all add: login_cookies_def)
  have j2: "clean_jar ?j2" by (intro jar.inv_put) (simp_all add: assms(1) clean)
  have j3: "clean_jar ?j3" by (intro jar.inv_put j2) (simp_all add: clean)
  have live: "t < cookie_date (now p) 70" using t(2) cookie_date_bounds(1) [of "now p" 70] by simp
  have jar: "jar (logged_in r res p) = setCookie (now p) ''password'' (cryptoPassword p) 70 ?j3"
    using assms(2-4) by (simp add: logged_in_jar login_cookies_def jar.put_all_def)
  show "read_cookie t ''password'' (jar (logged_in r res p)) = cryptoPassword p"
    unfolding jar using live by (subst read_later [OF j3]) (simp_all add: clean t(1))
  show "read_cookie t ''username'' (jar (logged_in r res p)) = name"
    unfolding jar using live
    by (subst read_later [OF j3], simp_all add: clean t(1), subst read_later [OF j2], simp_all add: clean t(1))
qed

section \<open>Properties\<close>


text \<open>
  C7: \<open>loginFunc\<close> sends at most one request, and only with the right verification code and
  a user name; the request carries the remembered hash or the MD5 of the typed password, and the
  check for an empty password never fires (the hash of an empty field is not empty).
\<close>

theorem login_gate:
  assumes "val ''passwordInput'' p = Some pw" "val ''codeinput'' p = Some c"
    "val ''usernameInput'' p = Some name"
  shows "pending (loginFunc (Some r) vc p) = pending p @
      (if validate vc c \<and> name \<noteq> [] then [login_request r name (login_hash pw p) c p] else [])
    \<and> alerts (loginFunc (Some r) vc p) = alerts p @
      (if \<not> validate vc c then [''wrong verification code'']
       else if name = [] then [''user name required''] else [])"
  unfolding loginFunc_form [OF assms] by (simp add: Let_def js_alert_def ajax_def)

text \<open>
  A login with the box ticked is remembered for a week. When the login page is
  loaded again in that time, the form is filled with the user name and the stored hash, the box is
  ticked, and confirming sends that same hash (it is not hashed a second time).
\<close>

theorem login_remembered:
  assumes "clean_jar (jar p)" "rs_status res = 200"
    and "inputs p ''usernameInput'' = Some name" "checks p ''remember'' = Some True"
    and "list_all (clean_val \<circ> fst \<circ> snd) (login_cookies res p)"
    and "now p \<le> now q" "now q < now p + 7 * 86400000 - 1000" "jar q = jar (logged_in r res p)"
    and q: "panels q = []" "inputs q ''usernameInput'' \<noteq> None" "inputs q ''passwordInput'' \<noteq> None"
      "inputs q ''codeinput'' = Some c" "checks q ''remember'' \<noteq> None" "validate vc c"
  shows "inputs (window_onload q) ''usernameInput'' = Some name
    \<and> inputs (window_onload q) ''passwordInput'' = Some (cryptoPassword p)
    \<and> checks (window_onload q) ''remember'' = Some True
    \<and> pending (loginFunc (Some s) vc (window_onload q)) =
        pending q @ [login_request s name (cryptoPassword p) c q]"
proof -
  obtain a b e where elements: "inputs q ''usernameInput'' = Some a" "inputs q ''passwordInput'' = Some b"
    "checks q ''remember'' = Some e" using q by auto
  have "cookie ''username'' q = name" "cookie ''password'' q = cryptoPassword p"
    unfolding cookie_def using remembered_cookies [OF assms(1-7)] assms(8) by simp_all
  moreover have "name \<noteq> []" "cryptoPassword p \<noteq> []"
    using assms(3-5) by (simp_all add: login_cookies_def clean_val_def)
  ultimately have w: "window_onload q = q\<lparr>inputs := (inputs q)(''usernameInput'' \<mapsto> name,
      ''passwordInput'' \<mapsto> cryptoPassword p), checks := (checks q)(''remember'' \<mapsto> True)\<rparr>"
    using elements by (simp add: window_onload_def set_input_def [of _ _ q] cookie_frame) (simp add: set_input_def)
  have h: "login_hash (cryptoPassword p) (window_onload q) = cryptoPassword p"
    using \<open>cookie ''password'' q = _\<close> \<open>cryptoPassword p \<noteq> []\<close> unfolding w by (simp add: login_hash_def cookie_def)
  have v: "val ''passwordInput'' (window_onload q) = Some (cryptoPassword p)"
    "val ''codeinput'' (window_onload q) = Some c" "val ''usernameInput'' (window_onload q) = Some name"
    unfolding w val_def by (simp_all add: q)
  have "pending (loginFunc (Some s) vc (window_onload q)) =
      pending q @ [login_request s name (cryptoPassword p) c q]"
    unfolding loginFunc_form [OF v] h using \<open>name \<noteq> []\<close> q(6)
    by (simp add: Let_def ajax_def login_request_def w)
  then show ?thesis unfolding w by simp
qed

text \<open>
  The reply to a logout deletes the session and the user from the jar, touches no
  other cookie of the application, and leaves for the given page.
\<close>

theorem logout_clears:
  assumes "clean_jar (jar p)" "m \<in> set app_names"
  shows "cookie m (user_done (LoggedOut r) res p) =
      (if m = ''Sessionid'' \<or> m = ''currentuser'' then [] else cookie m p)
    \<and> visits (user_done (LoggedOut r) res p) = visits p @ [r]"
proof -
  have "clean_jar (jar (del_cookie ''Sessionid'' p))" using assms(1) by (simp add: clean_del)
  then show ?thesis using assms
    by (simp add: logged_out_def cookie_del) (simp add: goto_def del_cookie_def)
qed

text \<open>
  With the cookie of a logged-in user whose password hash is \<open>h\<close>, the change is
  sent just when \<open>h\<close> is the MD5 of the old password typed; the request holds the MD5 of the new one
  and the session, and otherwise the page only says that the password is wrong.
\<close>

theorem password_change:
  assumes "json_parse (cookie ''currentuser'' p) = Some (JSObj ps)" "json_get (JSObj ps) ''password'' = Some (JSString h)"
    and "val ''oldpasswordInput'' p = Some old" "val ''newpasswordInput'' p = Some new"
    and "json_get (JSObj ps) ''tel'' = Some (JSString tel)" "val ''updatePswdCodeinput'' p = Some c"
  shows "doUpdatePswd p =
    (if h = hex_md5 (u old)
     then ajax \<lparr>rq_method = ''GET'', rq_url = centerUrl p @ ''/api/user/updatePswd'',
             rq_session = Some (cookie ''Sessionid'' p),
             rq_body = Query [(''code'', JStr (u c)), (''tel'', JStr (u tel)), (''newpswd'', JStr (u (hex_md5 (u new))))],
             rq_done = PswdUpdated\<rparr> p
     else js_alert ''wrong password'' p)"
  using assms by (simp add: doUpdatePswd_def str_data_def)

text \<open>
  In the panel of the user's data, an empty e-mail or telephone number is
  shown as the word "required": the attribute's value is not quoted, and the HTML parser takes the
  next word of the markup. A value of one word without quotes or angle brackets is shown as it is.
\<close>

theorem unquoted_value:
  assumes "\<forall>x \<in> set v. \<not> html_space x \<and> x \<notin> {CHR ''>'', CHR 0x22, CHR 0x27}"
  shows "unquoted_attr v = (if v = [] then ''required'' else v)"
proof (cases v)
  case Nil
  then show ?thesis by (simp add: unquoted_attr_def html_space_def Let_def)
next
  case (Cons x xs)
  let ?r = "''  required class='' @ [CHR 0x22]"
  have "dropWhile html_space (v @ ?r) = v @ ?r" using assms Cons by simp
  moreover have "takeWhile (\<lambda>c. \<not> html_space c \<and> c \<noteq> CHR ''>'') (v @ ?r) = v"
    using assms by (subst takeWhile_append2) (auto simp: html_space_def)
  moreover have "hd (v @ ?r) \<notin> {CHR 0x22, CHR 0x27}" using assms Cons by simp
  ultimately show ?thesis using Cons unfolding unquoted_attr_def Let_def by simp
qed

section \<open>The properties on a concrete page\<close>

definition blank_response :: response where
  "blank_response = \<lparr>rs_status = 200, rs_msg = ''ok'', rs_files = Some [], rs_file = None, rs_anon = None,
     rs_messages = None, rs_data = None, rs_code = 0, rs_hashname = ''h'', rs_size = 3\<rparr>"

definition blank_user :: user_page where
  "blank_user = \<lparr>now = 0, jar = [], shown = (\<lambda>i. False), label = (\<lambda>i. []), inputs = (\<lambda>i. Some ''me''),
     checks = (\<lambda>i. Some True), panels = [], alerts = [], visits = [], opened = [], pending = [], errors = [],
     centerUrl = [], cryptoPassword = ''abc''\<rparr>"

lemma clean_samples: "clean_val ''ok''" "clean_val ''me''" "clean_val ''abc''" "clean_val (stringify (JSObj []))"
  by code_simp+

lemma clean_empty: "clean_jar []"
  by (simp add: clean_jar_def)

lemma blank_login:
  "list_all (clean_val \<circ> fst \<circ> snd) (login_cookies (blank_response\<lparr>rs_data := Some (JSObj [])\<rparr>) blank_user)"
  using clean_samples by (simp add: login_cookies_def blank_response_def blank_user_def del: stringify.simps)


lemma login_gate_witness:
  "pending (loginFunc (Some ''x'') (default_options\<lparr>code := ''Me''\<rparr>) blank_user) =
   [login_request ''x'' ''me'' (login_hash ''me'' blank_user) ''me'' blank_user]"
proof -
  have "validate (default_options\<lparr>code := ''Me''\<rparr>) ''me''" by code_simp
  then show ?thesis
    using login_gate [of blank_user "''me''" "''me''" "''me''" "''x''" "default_options\<lparr>code := ''Me''\<rparr>"]
    by (simp add: val_def blank_user_def)
qed

lemma login_remembered_witness:
  "inputs (window_onload (blank_user\<lparr>now := 1000, jar := jar (logged_in ''home.html''
      (blank_response\<lparr>rs_data := Some (JSObj [])\<rparr>) blank_user)\<rparr>)) ''usernameInput'' = Some ''me''"
proof -
  have "validate (default_options\<lparr>code := ''Me''\<rparr>) ''me''" by code_simp
  then show ?thesis
    using login_remembered [OF _ _ _ _ blank_login, of "''me''" "blank_user\<lparr>now := 1000, jar := jar (logged_in ''home.html''
      (blank_response\<lparr>rs_data := Some (JSObj [])\<rparr>) blank_user)\<rparr>" "''home.html''" "''me''"
      "default_options\<lparr>code := ''Me''\<rparr>" "''x''"]
    by (simp add: blank_response_def blank_user_def clean_empty)
qed

lemma logout_clears_witness:
  "cookie ''Sessionid'' (user_done (LoggedOut ''login.html'') blank_response
     (blank_user\<lparr>jar := [\<lparr>cname = ''Sessionid'', cval = ''ok'', cexp = 5\<rparr>]\<rparr>)) = []"
  using logout_clears [of "blank_user\<lparr>jar := [\<lparr>cname = ''Sessionid'', cval = ''ok'', cexp = 5\<rparr>]\<rparr>" "''Sessionid''"
    "''login.html''" blank_response]
  by (simp add: clean_jar_def clean_samples)

definition password_page :: user_page where
  "password_page = blank_user\<lparr>inputs := (\<lambda>i. Some ''abc''),
     jar := [\<lparr>cname = ''currentuser'', cval = stringify (JSObj [(''password'', JSString ''900150983cd24fb0d6963f7d28e17f72''),
       (''tel'', JSString ''1'')]), cexp = 5\<rparr>]\<rparr>"

lemma password_change_witness: "map rq_done (pending (doUpdatePswd password_page)) = [PswdUpdated]"
proof -
  have c: "json_parse (cookie ''currentuser'' password_page) =
      Some (JSObj [(''password'', JSString ''900150983cd24fb0d6963f7d28e17f72''), (''tel'', JSString ''1'')])"
    by code_simp
  have h: "hex_md5 (u ''abc'') = ''900150983cd24fb0d6963f7d28e17f72''" by code_simp
  have v: "val i password_page = Some ''abc''" for i by (simp add: val_def password_page_def blank_user_def)
  have "pending password_page = []" by (simp add: password_page_def blank_user_def)
  then show ?thesis
    using password_change [OF c _ v v _ v, of "''900150983cd24fb0d6963f7d28e17f72''" "''1''"] h
    by (simp add: ajax_def)
qed

lemma unquoted_value_witness: "unquoted_attr ''bob'' = ''bob''"
  using unquoted_value [of "''bob''"] by (simp add: html_space_def)

end
