(* ===== verification/Register.thy ===== *)
theory Register
  imports User
begin

text \<open>
  The registration page (\<open>register.js\<close>): the check of the two passwords with its tip, the SMS code with
  the countdown of its button, and the registration request. Intervals are numbered in the order of
  \<open>setInterval\<close>; \<open>second\<close> lets each of the running ones fire once.
\<close>

section \<open>State\<close>

record register_page = browser +
  tip :: "string option"  \<comment> \<open>the element \<open>repasswordTip\<close> in \<open>repasswordWrap\<close>\<close>
  leveltime :: int
  currentDaoJIshi :: "nat option"
  running :: "nat list"
  next_interval :: nat

definition register_url :: string where
  "register_url = ''http://39.104.112.203:8080''"

section \<open>The passwords\<close>

text \<open>\<open>None\<close> is an exception: one of the fields is missing.\<close>

definition checkPasswords :: "'a register_page_scheme \<Rightarrow> bool option \<times> 'a register_page_scheme" where
  "checkPasswords p =
     (let p1 = p\<lparr>tip := None\<rparr> in
      case val ''password'' p1 of
        None \<Rightarrow> (None, throw ''TypeError'' p1)
      | Some pass1 \<Rightarrow>
          if pass1 = [] then (Some False, p1\<lparr>tip := Some ''password must not be empty''\<rparr>)
          else case val ''repassword'' p1 of
                 None \<Rightarrow> (None, throw ''TypeError'' p1)
               | Some repassword \<Rightarrow>
                   if pass1 \<noteq> repassword then (Some False, p1\<lparr>tip := Some ''passwords differ''\<rparr>)
                   else (Some True, p1))"

section \<open>The SMS code\<close>

definition getSmsCode :: "'a register_page_scheme \<Rightarrow> 'a register_page_scheme" where
  "getSmsCode p =
     ajax \<lparr>rq_method = ''get'',
           rq_url = register_url @ ''/api/user/sendSMS/'' @
             (case val ''telInput'' p of None \<Rightarrow> ''undefined'' | Some t \<Rightarrow> t),
           rq_session = Some (cookie ''Sessionid'' p), rq_body = NoBody, rq_done = SmsSent\<rparr> p"

definition sms_sent :: "response \<Rightarrow> 'a register_page_scheme \<Rightarrow> 'a register_page_scheme" where
  "sms_sent res p =
     (if rs_status res \<noteq> 200 then js_alert (rs_msg res) p
      else set_cookie ''smscode'' (opt_text (Some (case rs_data res of None \<Rightarrow> JSNull | Some j \<Rightarrow> j))) 1
             (p\<lparr>leveltime := 60, currentDaoJIshi := Some (next_interval p),
                running := running p @ [next_interval p], next_interval := Suc (next_interval p)\<rparr>))"

definition setDaoJiShi :: "'a register_page_scheme \<Rightarrow> 'a register_page_scheme" where
  "setDaoJiShi p =
     (let p1 = p\<lparr>leveltime := leveltime p - 1\<rparr> in
      if leveltime p1 = 0
      then set_text ''huoquyanzhengma'' ''send code''
             (p1\<lparr>running := filter (\<lambda>i. Some i \<noteq> currentDaoJIshi p1) (running p1)\<rparr>)
      else set_text ''huoquyanzhengma'' (''wait '' @ int_str (leveltime p1) @ '' to resend'') p1)"

text \<open>A second passes: every interval that is running, and still is when its turn comes, fires.\<close>

fun fire_all :: "nat list \<Rightarrow> 'a register_page_scheme \<Rightarrow> 'a register_page_scheme" where
  "fire_all [] p = p"
| "fire_all (i # is) p = fire_all is (if i \<in> set (running p) then setDaoJiShi p else p)"

definition second :: "'a register_page_scheme \<Rightarrow> 'a register_page_scheme" where
  "second p = fire_all (running p) p"

section \<open>The registration\<close>

definition submitform :: "string \<Rightarrow> 'a register_page_scheme \<Rightarrow> 'a register_page_scheme" where
  "submitform redictUrl p =
     (case checkPasswords p of
        (None, p1) \<Rightarrow> p1
      | (Some False, p1) \<Rightarrow> p1
      | (Some True, p1) \<Rightarrow>
          if Some (cookie ''smscode'' p1) \<noteq> val ''codeinput'' p1 then js_alert ''wrong verification code'' p1
          else let field = (\<lambda>k i. (k, map_option JSString (val i p1)));
                   code = (case parse_int (JStr (u (cookie ''smscode'' p1))) of JNum n \<Rightarrow> JSInt n | _ \<Rightarrow> JSNull);
                   user = (''code'', Some code) #
                     [field ''username'' ''usernameInput'',
                      (''password'', map_option (\<lambda>s. JSString (hex_md5 (u s))) (val ''password'' p1)),
                      field ''name'' ''name'', field ''email'' ''email'', field ''tel'' ''telInput'',
                      field ''firstname'' ''firstname'', field ''lastname'' ''lastname'', field ''intro'' ''intro'']
               in ajax \<lparr>rq_method = ''POST'', rq_url = register_url @ ''/api/user/register'',
                        rq_session = Some (cookie ''Sessionid'' p1),
                        rq_body = JsonText (stringify (JSObj (List.map_filter (\<lambda>(k, v). map_option (Pair k) v) user))),
                        rq_done = Registered redictUrl\<rparr> p1)"

definition submitWebform :: "'a register_page_scheme \<Rightarrow> 'a register_page_scheme" where
  "submitWebform p =
     (case checks p ''readed'' of
        None \<Rightarrow> throw ''TypeError'' p
      | Some True \<Rightarrow> submitform ''index.html'' p
      | Some False \<Rightarrow> js_alert ''please read the terms first'' p)"

definition registered :: "string \<Rightarrow> response \<Rightarrow> 'a register_page_scheme \<Rightarrow> 'a register_page_scheme" where
  "registered redictUrl res p =
     (if rs_status res \<noteq> 200 then js_alert (rs_msg res) p
      else goto redictUrl
             (set_cookie ''currentuser'' (stringify (case rs_data res of None \<Rightarrow> JSNull | Some j \<Rightarrow> j)) 10
               (set_cookie ''Sessionid'' (rs_msg res) 10 p)))"

fun register_done :: "callback \<Rightarrow> response \<Rightarrow> 'a register_page_scheme \<Rightarrow> 'a register_page_scheme" where
  "register_done SmsSent res p = sms_sent res p"
| "register_done (Registered r) res p = registered r res p"
| "register_done _ res p = p"

section \<open>Properties\<close>

lemma smscode_name [simp]: "''smscode'' \<in> set app_names"
  by (simp add: app_names_def)

lemma sms_date: "cookie_date t 1 \<le> t"
  by (rule cookie_date_past) simp

text \<open>
  The SMS code is stored in a cookie with a lifetime of a tenth of a day, which is
  cut to zero days: the cookie has expired when it is written. So the page reads no code, a correct
  non-empty code is refused as wrong, and only an empty field passes.
\<close>

theorem sms_code_lost:
  assumes "clean_jar (jar p)" "rs_status res = 200" "rs_data res = Some (JSString sms)" "CHR '';'' \<notin> set sms"
    and "val ''password'' p = Some pw" "val ''repassword'' p = Some pw" "pw \<noteq> []" "val ''codeinput'' p = Some input"
    and q: "q = submitform r (sms_sent res p)"
  shows "cookie ''smscode'' (sms_sent res p) = []
    \<and> (if input = [] then length (pending q) = length (pending p) + 1
       else pending q = pending p \<and> alerts q = alerts p @ [''wrong verification code''])"
proof -
  let ?c = "\<lparr>cname = ''smscode'', cval = trim_wsp sms, cexp = cookie_date (now p) 1\<rparr>"
  have dead: "\<not> live (now p) ?c" using sms_date [of "now p"] by (simp add: live_def)
  have jar: "jar (sms_sent res p) = filter (live (now p)) (put_cookie ?c (jar p))"
    using assms(2-4) by (simp add: sms_sent_def set_cookie_def opt_text_def setCookie_def assign_plain app_names_plain)
  have "clean_jar (jar (sms_sent res p))" unfolding jar using assms(1) dead by (intro clean_put) simp_all
  moreover have "lookup_cookie (now p) (jar (sms_sent res p)) ''smscode'' = None"
    unfolding jar using assms(1) dead by (subst lookup_put) (simp_all add: clean_jar_def)
  moreover have "now (sms_sent res p) = now p" by (simp add: sms_sent_def set_cookie_def js_alert_def)
  ultimately have none: "cookie ''smscode'' (sms_sent res p) = []"
    by (simp add: cookie_def read_clean)
  have same: "val i (sms_sent res p) = val i p" "pending (sms_sent res p) = pending p"
    "alerts (sms_sent res p) = alerts p" for i
    using assms(2) by (simp_all add: sms_sent_def set_cookie_def val_def split: option.split)
  have "val i (p'\<lparr>tip := t\<rparr>) = val i p'" "cookie i (p'\<lparr>tip := t\<rparr>) = cookie i p'" for i t and p' :: "'a register_page_scheme"
    by (simp_all add: val_def cookie_def split: option.split)
  with none same assms(5-8) show ?thesis
    by (simp add: q submitform_def checkPasswords_def Let_def js_alert_def ajax_def)
qed

text \<open>A countdown with one interval.\<close>

definition counting :: "nat \<Rightarrow> int \<Rightarrow> 'a register_page_scheme \<Rightarrow> bool" where
  "counting i n p \<longleftrightarrow> running p = [i] \<and> currentDaoJIshi p = Some i \<and> leveltime p = n"

lemma counting_step:
  "counting i n p \<Longrightarrow> 1 < n \<Longrightarrow> counting i (n - 1) (second p) \<and>
    label (second p) ''huoquyanzhengma'' = ''wait '' @ int_str (n - 1) @ '' to resend''"
  by (simp add: counting_def second_def setDaoJiShi_def set_text_def Let_def)

lemma counting_last:
  "counting i 1 p \<Longrightarrow> running (second p) = [] \<and> leveltime (second p) = 0 \<and>
    label (second p) ''huoquyanzhengma'' = ''send code''"
  by (simp add: counting_def second_def setDaoJiShi_def set_text_def Let_def)

lemma counting_run: "counting i n p \<Longrightarrow> int k < n \<Longrightarrow> counting i (n - int k) ((second ^^ k) p)"
proof (induction k)
  case (Suc k)
  then have "counting i (n - int k) ((second ^^ k) p)" by simp
  from counting_step [OF this] Suc.prems show ?case by (simp add: algebra_simps)
qed simp

text \<open>
  After a code has been sent while no interval is running, the button counts down from
  59 to 1, one a second; after 60 seconds it offers a new code and nothing runs any more.
\<close>

theorem countdown:
  assumes "rs_status res = 200" "running p = []" "q = sms_sent res p"
  shows "(0 < k \<and> k < 60 \<longrightarrow>
      label ((second ^^ k) q) ''huoquyanzhengma'' = ''wait '' @ int_str (60 - int k) @ '' to resend'')
    \<and> label ((second ^^ 60) q) ''huoquyanzhengma'' = ''send code''
    \<and> running ((second ^^ 60) q) = []"
proof -
  have c: "counting (next_interval p) 60 q"
    using assms by (simp add: counting_def sms_sent_def set_cookie_def)
  have step: "label ((second ^^ Suc j) q) ''huoquyanzhengma'' = ''wait '' @ int_str (60 - int (Suc j)) @ '' to resend''"
    if "Suc j < 60" for j
    using counting_step [OF counting_run [OF c, of j]] that by (simp add: algebra_simps)
  have "counting (next_interval p) 1 ((second ^^ 59) q)"
    using counting_run [OF c, of 59] by simp
  moreover have "(second ^^ 60) q = second ((second ^^ 59) q)"
    using fun_cong [OF funpow.simps(2) [of 59 second], of q] by simp
  ultimately have "running ((second ^^ 60) q) = []" "label ((second ^^ 60) q) ''huoquyanzhengma'' = ''send code''"
    using counting_last [of "next_interval p" "(second ^^ 59) q"] by simp_all
  moreover have "0 < k \<and> k < 60 \<Longrightarrow>
      label ((second ^^ k) q) ''huoquyanzhengma'' = ''wait '' @ int_str (60 - int k) @ '' to resend''"
    using step [of "k - 1"] by (cases k) auto
  ultimately show ?thesis by simp
qed

text \<open>Two intervals: the second code starts another one and forgets the first.\<close>

definition doubled :: "nat \<Rightarrow> nat \<Rightarrow> int \<Rightarrow> 'a register_page_scheme \<Rightarrow> bool" where
  "doubled i j n p \<longleftrightarrow> i \<noteq> j \<and> running p = [i, j] \<and> currentDaoJIshi p = Some j \<and> leveltime p = n"

lemma doubled_step: "doubled i j n p \<Longrightarrow> 2 < n \<Longrightarrow> doubled i j (n - 2) (second p)"
  by (simp add: doubled_def second_def setDaoJiShi_def set_text_def Let_def)

lemma doubled_run: "doubled i j n p \<Longrightarrow> 2 * int k < n \<Longrightarrow> doubled i j (n - 2 * int k) ((second ^^ k) p)"
proof (induction k)
  case (Suc k)
  then have "doubled i j (n - 2 * int k) ((second ^^ k) p)" by simp
  from doubled_step [OF this] Suc.prems show ?case by (simp add: algebra_simps)
qed simp

text \<open>
  When a second code is sent while the first one counts down, both intervals run:
  the button counts twice as fast, offers a new code after 30 seconds, and the forgotten first
  interval goes on, so that a second later the button waits for a negative time.
\<close>

theorem countdown_doubled:
  assumes "rs_status res = 200" "running p = [i]" "i < next_interval p" "q = sms_sent res p"
  shows "label ((second ^^ 30) q) ''huoquyanzhengma'' = ''send code''
    \<and> running ((second ^^ 30) q) = [i]
    \<and> label ((second ^^ 31) q) ''huoquyanzhengma'' = ''wait -1 to resend''"
proof -
  have "doubled i (next_interval p) 60 q"
    using assms by (simp add: doubled_def sms_sent_def set_cookie_def)
  from doubled_run [OF this, of 29] have d: "doubled i (next_interval p) 2 ((second ^^ 29) q)" by simp
  define r where "r = (second ^^ 29) q"
  have r: "running (second r) = [i]" "leveltime (second r) = 0"
    "label (second r) ''huoquyanzhengma'' = ''send code''"
    using d unfolding r_def [symmetric] by (simp_all add: doubled_def second_def setDaoJiShi_def set_text_def Let_def)
  then have "label (second (second r)) ''huoquyanzhengma'' = ''wait '' @ int_str (- 1) @ '' to resend''"
    by (simp add: second_def [of "second r"] setDaoJiShi_def set_text_def Let_def)
  moreover have "int_str (- 1) = ''-1''" by code_simp
  moreover have "(second ^^ 30) q = second r" "(second ^^ 31) q = second (second r)"
  proof -
    have "30 = Suc 29" "31 = Suc (Suc 29)" by simp_all
    then show "(second ^^ 30) q = second r" "(second ^^ 31) q = second (second r)"
      unfolding r_def by (metis comp_apply funpow.simps(2))+
  qed
  ultimately show ?thesis using r by simp
qed


section \<open>The properties on a concrete page\<close>

definition blank_register :: register_page where
  "blank_register = \<lparr>now = 0, jar = [], shown = (\<lambda>i. False), label = (\<lambda>i. []), inputs = (\<lambda>i. Some ''12''),
     checks = (\<lambda>i. Some False), panels = [], alerts = [], visits = [], opened = [], pending = [], errors = [],
     tip = None, leveltime = 60, currentDaoJIshi = None, running = [], next_interval = 1\<rparr>"

lemma sms_code_lost_witness:
  "cookie ''smscode'' (sms_sent (blank_response\<lparr>rs_data := Some (JSString ''7'')\<rparr>) blank_register) = []"
  using sms_code_lost [OF _ _ _ _ _ _ _ _ refl, of blank_register "blank_response\<lparr>rs_data := Some (JSString ''7'')\<rparr>"
    "''7''" "''12''" "''12''" "''x''"]
  by (simp add: blank_response_def blank_register_def clean_empty val_def)

lemma countdown_witness:
  "label ((second ^^ 60) (sms_sent blank_response blank_register)) ''huoquyanzhengma'' = ''send code''"
  using countdown [OF _ _ refl, of blank_response blank_register 1]
  by (simp add: blank_response_def blank_register_def)

lemma countdown_doubled_witness:
  "label ((second ^^ 31) (sms_sent blank_response (blank_register\<lparr>running := [0]\<rparr>))) ''huoquyanzhengma'' =
     ''wait -1 to resend''"
  using countdown_doubled [OF _ _ _ refl, of blank_response "blank_register\<lparr>running := [0]\<rparr>" 0]
  by (simp add: blank_response_def blank_register_def)


end
