(* ===== verification/Calendar.thy ===== *)
theory Calendar
  imports Main
begin

text \<open>
  The proleptic Gregorian calendar of JavaScript's dates: year, month and day of a day counted from
  1 January 1970, and the day of a year, a month and a day, where month and day may be out of range.
\<close>

definition civil :: "int \<Rightarrow> int \<times> int \<times> int" where
  "civil days =
     (let z = days + 719468;
          era = z div 146097;
          doe = z mod 146097;
          yoe = (doe - doe div 1460 + doe div 36524 - doe div 146096) div 365;
          doy = doe - (365 * yoe + yoe div 4 - yoe div 100);
          mp = (5 * doy + 2) div 153;
          d = doy - (153 * mp + 2) div 5 + 1;
          m = (if mp < 10 then mp + 3 else mp - 9)
      in (yoe + era * 400 + (if m \<le> 2 then 1 else 0), m, d))"

text \<open>\<open>MakeDay\<close>: months from 1 to 12, others change the year.\<close>

definition make_day :: "int \<Rightarrow> int \<Rightarrow> int \<Rightarrow> int" where
  "make_day year month day =
     (let y0 = year + (month - 1) div 12; m = (month - 1) mod 12 + 1;
          y = (if m \<le> 2 then y0 - 1 else y0);
          era = y div 400; yoe = y mod 400;
          mp = (if 2 < m then m - 3 else m + 9);
          doe = yoe * 365 + yoe div 4 - yoe div 100 + (153 * mp + 2) div 5
      in era * 146097 + doe - 719468 + (day - 1))"

text \<open>0 is Sunday.\<close>

definition week_day :: "int \<Rightarrow> int" where
  "week_day days = (days + 4) mod 7"

lemma epoch: "civil 0 = (1970, 1, 1)" "make_day 1970 1 1 = 0" "week_day 0 = 4"
  by code_simp+

lemma leap_years:
  "map (\<lambda>y. make_day (y + 1) 1 1 - make_day y 1 1) [1900, 1970, 2000, 2024] = [365, 365, 366, 366]"
  by code_simp

end
