(* ===== verification/FileIndex.thy ===== *)
theory FileIndex
  imports User Calendar
begin

text \<open>
  The file manager page (\<open>file-index.js\<close>): the list of the user's files or, without a login, of the
  anonymous store, its trash, the folders, the selection and the upload. A row of the table is a
  record of what its HTML shows; a check box has its \<open>checked\<close> attribute and, once the user has
  toggled it, a state of its own. \<open>file_done\<close> is the success handler of each request; \<open>react\<close> is a
  whole page event: a click, the arrival of an answer or the failure of a request.
\<close>

section \<open>State\<close>

datatype link =
  DirLink jsval  \<comment> \<open>\<open>openThisFile(id)\<close>\<close>
| StoreLink "string option" string  \<comment> \<open>the \<open>download\<close> attribute and the hash of \<open>/store/\<close>\<close>

datatype control = SaveAs string string | Reuse jsval | Kill jsval | KillForever jsval

record row =
  rw_title :: string  \<comment> \<open>\<open>placeholder\<close> of the check box\<close>
  rw_hash :: string  \<comment> \<open>its \<open>name\<close>\<close>
  rw_value :: string  \<comment> \<open>its \<open>value\<close>\<close>
  rw_attr :: bool
  rw_toggled :: "bool option"
  rw_icon :: string
  rw_link :: link
  rw_size :: string
  rw_time :: string
  rw_controls :: "control list"

record file_page = user_page +
  currentdir :: jsval
  currentpage :: jsval
  currentkind :: string
  currentDelete :: jsval
  loginuser :: jsval
  iswindows :: bool
  table :: "row list"
  active_menu :: "string option"
  usermessage :: "message list option"
  message_links :: "(int \<times> string) list"
  timezone :: int  \<comment> \<open>seconds east of UTC\<close>

definition load_file_index :: "'a file_page_scheme \<Rightarrow> 'a file_page_scheme" where
  "load_file_index p = p\<lparr>centerUrl := ''39.104.112.203:8080'', currentdir := JNum 0, currentpage := JNum 1,
     currentkind := ''*'', currentDelete := JNum 0, loginuser := JNum 1, iswindows := False\<rparr>"

definition js_text :: "jsval \<Rightarrow> string" where
  "js_text v = map char_of (to_str v)"

fun jsval_json :: "jsval \<Rightarrow> json option" where
  "jsval_json JUndefined = None"
| "jsval_json JNull = Some JSNull"
| "jsval_json JNaN = Some JSNull"
| "jsval_json (JBool b) = Some (JSBool b)"
| "jsval_json (JNum n) = Some (JSInt n)"
| "jsval_json (JStr s) = Some (JSString (map char_of s))"

fun stringify_vals :: "(string \<times> jsval) list \<Rightarrow> (string \<times> json) list" where
  "stringify_vals [] = []"
| "stringify_vals ((k, v) # ps) =
     (case jsval_json v of None \<Rightarrow> stringify_vals ps | Some j \<Rightarrow> (k, j) # stringify_vals ps)"

definition object_text :: "(string \<times> jsval) list \<Rightarrow> string" where
  "object_text ps = stringify (JSObj (stringify_vals ps))"

section \<open>Kinds and names of files\<close>

definition getFileKind :: "string \<Rightarrow> string" where
  "getFileKind extStr =
     (if extStr \<in> {''jpg'', ''png'', ''PNG'', ''JPG'', ''GIF'', ''jpeg'', ''gif''} then ''pic''
      else if extStr \<in> {''avi'', ''mpeg''} then ''video''
      else if extStr \<in> {''doc'', ''docx'', ''pdf'', ''xls''} then ''doc''
      else ''other'')"

definition base_name :: "string \<Rightarrow> string" where
  "base_name path = slice_from (last_index_of CHR 0x5C path + 1) path"

definition getFileExt :: "string \<Rightarrow> string" where
  "getFileExt filename =
     (let tmp_imgname = base_name filename
      in substring tmp_imgname (last_index_of CHR ''.'' tmp_imgname + 1) (int (length tmp_imgname)))"

section \<open>A row of the table\<close>

text \<open>The loop that groups the digits of a size by commas.\<close>

function size_loop :: "nat \<Rightarrow> string \<Rightarrow> nat \<times> string" where
  "size_loop itemsize sizeresult =
     (if 1000 < itemsize then
        let itemsizeStr = dec itemsize; n = int (length itemsizeStr);
            last3 = substring itemsizeStr (n - 3) n
        in size_loop (itemsize div 1000)
             (if sizeresult = [] then last3 else last3 @ '','' @ sizeresult)
      else (itemsize, sizeresult))"
  by auto
termination by (relation "measure fst") auto

declare size_loop.simps [simp del]

definition size_text :: "nat \<Rightarrow> string" where
  "size_text n =
     (let (itemsize, sizeresult) = size_loop n []
      in if itemsize = 0 then ''0''
         else if sizeresult = [] then dec itemsize
         else dec itemsize @ '','' @ sizeresult)"

definition item_row :: "bool \<Rightarrow> file_item \<Rightarrow> jsval \<Rightarrow> row" where
  "item_row windows item deletitem =
     (let kind = fi_kind item;
          download = (if windows then Some (fi_title item) else None);
          icon = (if kind = ''pic'' then ''assets/web/tp.png''
                  else if kind = ''video'' then ''assets/web/sp.png''
                  else if kind = ''doc'' then ''assets/web/doc.png''
                  else if kind = ''other'' then ''assets/web/wgx.png''
                  else if kind = ''dir'' then ''assets/web/dir.png''
                  else ''assets/web/wgx.png'');
          href = (if kind = ''dir'' then DirLink (JStr (to_str (fi_id item)))
                  else StoreLink download (fi_hash_code item));
          control = (if kind = ''dir'' then [] else [SaveAs (fi_title item) (fi_hash_code item)]);
          buttons = (if loose_eq_num deletitem 1 then [Reuse (fi_id item), KillForever (fi_id item)]
                     else control @ [Kill (fi_id item)])
      in \<lparr>rw_title = fi_title item, rw_hash = fi_hash_code item, rw_value = js_text (fi_id item),
          rw_attr = False, rw_toggled = None, rw_icon = icon, rw_link = href,
          rw_size = (if kind = ''dir'' then [] else size_text (fi_size item)),
          rw_time = fi_upload_time item, rw_controls = buttons\<rparr>)"

definition displayItemFile :: "file_item \<Rightarrow> jsval \<Rightarrow> 'a file_page_scheme \<Rightarrow> 'a file_page_scheme" where
  "displayItemFile item deletitem p = p\<lparr>table := table p @ [item_row (iswindows p) item deletitem]\<rparr>"

fun display_all :: "file_item list \<Rightarrow> jsval \<Rightarrow> 'a file_page_scheme \<Rightarrow> 'a file_page_scheme" where
  "display_all [] del p = p"
| "display_all (item # items) del p = display_all items del (displayItemFile item del p)"

section \<open>The list of the user's files\<close>

definition session_request ::
    "string \<Rightarrow> string \<Rightarrow> body \<Rightarrow> callback \<Rightarrow> 'a file_page_scheme \<Rightarrow> request" where
  "session_request meth path data done p =
     \<lparr>rq_method = meth, rq_url = path, rq_session = Some (cookie ''Sessionid'' p), rq_body = data, rq_done = done\<rparr>"

definition getFileList ::
    "jsval \<Rightarrow> string \<Rightarrow> jsval \<Rightarrow> jsval \<Rightarrow> 'a file_page_scheme \<Rightarrow> 'a file_page_scheme" where
  "getFileList pagenum kind del parent p =
     (let p1 = js_hide ''nimingBar'' (js_show ''userinfoBar'' p) in
      if loose_le_num pagenum 0 then p1
      else let parent_id = (if loose_le_num parent 0 then JNum 0 else parent);
               p2 = (if loose_eq_num del 1
                 then js_show ''removeBT'' (set_text ''deleteBT'' ''restore selected''
                        (js_hide ''newdirBT'' (js_hide ''downloadBT'' (js_hide ''uploadBT'' p1))))
                 else js_hide ''removeBT'' (set_text ''deleteBT'' ''remove selected''
                        (js_show ''newdirBT'' (js_show ''downloadBT'' (js_show ''uploadBT'' p1)))));
               p3 = p2\<lparr>currentDelete := del\<rparr>
           in ajax (session_request ''get'' (centerUrl p3 @ ''/api/file/mine'')
                (Query [(''kind'', JStr (u kind)), (''delete'', del), (''parentid'', parent_id)])
                (FileListLoaded pagenum kind del parent_id) p3) p3)"

definition file_list_loaded ::
    "jsval \<Rightarrow> string \<Rightarrow> jsval \<Rightarrow> jsval \<Rightarrow> response \<Rightarrow> 'a file_page_scheme \<Rightarrow> 'a file_page_scheme" where
  "file_list_loaded pagenum kind del parent_id res p =
     (if rs_status res \<noteq> 200 then goto ''./web-login.html'' p
      else if rs_status res = 401 then goto ''./web-login.html'' p
      else if checks p ''quanxuanCB'' = None then throw ''TypeError'' p
      else let p1 = p\<lparr>checks := (checks p)(''quanxuanCB'' \<mapsto> False), table := []\<rparr>;
               p2 = p1\<lparr>currentpage := pagenum, currentkind := kind, currentDelete := del, currentdir := parent_id\<rparr>;
               p3 = set_text ''currentPage'' (js_text pagenum) p2
           in case rs_files res of None \<Rightarrow> p3 | Some items \<Rightarrow> display_all items del p3)"

definition getAnonymousFileList :: "string \<Rightarrow> 'a file_page_scheme \<Rightarrow> 'a file_page_scheme" where
  "getAnonymousFileList kindstr p =
     (let p1 = (js_show ''nimingBar'' (js_hide ''userinfoBar'' p))\<lparr>loginuser := JNum 0, table := []\<rparr>;
          p2 = js_hide ''deleteBT'' (js_hide ''newdirBT'' (js_hide ''rubbishUI'' (set_text ''currentPage'' ''0'' p1)))
      in ajax \<lparr>rq_method = ''GET'', rq_url = ''/store/getlist'', rq_session = None,
               rq_body = Query [(''kind'', JStr (u kindstr))], rq_done = AnonymousListLoaded kindstr\<rparr> p2)"

definition openFileList ::
    "string \<Rightarrow> jsval \<Rightarrow> jsval \<Rightarrow> string \<Rightarrow> 'a file_page_scheme \<Rightarrow> 'a file_page_scheme" where
  "openFileList kind deleteit parent_id buttonItem p =
     (let p1 = p\<lparr>active_menu := Some buttonItem, currentDelete := deleteit\<rparr>
      in if loose_eq_num (loginuser p1) 0 then getAnonymousFileList kind p1
         else let p2 = js_show ''deleteBT'' (js_show ''newdirBT'' (js_show ''rubbishUI'' p1))
              in getFileList (JNum 1) kind (currentDelete p2) parent_id p2)"

definition openThisFile :: "jsval \<Rightarrow> 'a file_page_scheme \<Rightarrow> 'a file_page_scheme" where
  "openThisFile i p = getFileList (currentpage p) (currentkind p) (currentDelete p) i p"

text \<open>The local date of an anonymous file.\<close>

definition date_text :: "int \<Rightarrow> int \<Rightarrow> string" where
  "date_text zone t =
     (let local = t + zone; (y, m, d) = civil (local div 86400); s = local mod 86400
      in int_str y @ '' year '' @ int_str m @ '' month '' @ int_str d @ '' day '' @
         int_str (s div 3600) @ '':'' @ int_str (s mod 3600 div 60))"

definition anonymous_item :: "int \<Rightarrow> anon_file \<Rightarrow> file_item" where
  "anonymous_item zone item =
     \<lparr>fi_id = JUndefined, fi_title = af_name item, fi_kind = getFileKind (getFileExt (af_name item)),
      fi_hash_code = af_hascode item, fi_size = af_size item, fi_upload_time = date_text zone (af_time item)\<rparr>"

definition anonymous_loaded :: "string \<Rightarrow> response \<Rightarrow> 'a file_page_scheme \<Rightarrow> 'a file_page_scheme" where
  "anonymous_loaded kindstr res p =
     (if rs_status res \<noteq> 200 then js_alert ''anonymous mode failed'' p
      else case rs_anon res of
             None \<Rightarrow> p
           | Some items \<Rightarrow>
               let kind = (if kindstr = [] then ''*'' else kindstr);
                   wanted = filter (\<lambda>item. getFileKind (getFileExt (af_name item)) = kind \<or> kind = ''*'') items
               in display_all (map (anonymous_item (timezone p)) wanted) JUndefined p)"

section \<open>Messages\<close>

definition myMessage :: "'a file_page_scheme \<Rightarrow> 'a file_page_scheme" where
  "myMessage p =
     (let p1 = set_text ''messageLength'' [] (p\<lparr>message_links := []\<rparr>)
      in ajax (session_request ''GET'' (centerUrl p1 @ ''/api/message/mine'')
           (Query [(''readed'', JNum 0)]) MessagesLoaded p1) p1)"

definition displayMessage :: "message \<Rightarrow> 'a file_page_scheme \<Rightarrow> 'a file_page_scheme" where
  "displayMessage item p = p\<lparr>message_links := message_links p @ [(ms_id item, ms_title item)]\<rparr>"

fun display_messages :: "message list \<Rightarrow> 'a file_page_scheme \<Rightarrow> 'a file_page_scheme" where
  "display_messages [] p = p"
| "display_messages (item # items) p = display_messages items (displayMessage item p)"

definition messages_loaded :: "response \<Rightarrow> 'a file_page_scheme \<Rightarrow> 'a file_page_scheme" where
  "messages_loaded res p =
     (if rs_status res = 500 then p
      else case rs_messages res of
             None \<Rightarrow> p
           | Some items \<Rightarrow>
               set_text ''messageLength'' (dec (length items))
                 (display_messages items (p\<lparr>usermessage := Some items\<rparr>)))"

definition message_panel :: "message \<Rightarrow> panel" where
  "message_panel m = \<lparr>pn_id = ''message-layer'', pn_shown = False,
     pn_texts = [ms_title m, ms_content m], pn_inputs = []\<rparr>"

definition openMessage :: "int \<Rightarrow> 'a file_page_scheme \<Rightarrow> 'a file_page_scheme" where
  "openMessage i p =
     (let p1 = set_text ''messageLength'' [] (p\<lparr>message_links := []\<rparr>)
      in case usermessage p1 of
           None \<Rightarrow> throw ''TypeError'' p1
         | Some messagelist \<Rightarrow>
             (case dropWhile (\<lambda>m. ms_id m \<noteq> i) messagelist of
                [] \<Rightarrow> p1
              | m # _ \<Rightarrow>
                  let p2 = show_panel ''message-layer'' (prepend (message_panel m) p1)
                  in ajax (session_request ''GET'' (centerUrl p2 @ ''/api/message/readed/'' @ int_str i)
                       NoBody MessageRead p2) p2))"

definition message_read :: "response \<Rightarrow> 'a file_page_scheme \<Rightarrow> 'a file_page_scheme" where
  "message_read res p =
     (if rs_status res = 500 then p
      else case rs_messages res of
             None \<Rightarrow> p
           | Some items \<Rightarrow> set_text ''messageLength'' (dec (length items)) (display_messages items p))"

definition cancelMessagepanel :: "'a file_page_scheme \<Rightarrow> 'a file_page_scheme" where
  "cancelMessagepanel p = remove_panel ''message-layer'' (hide_panel ''message-layer'' p)"

section \<open>Folders\<close>

definition newDirctionary :: "'a file_page_scheme \<Rightarrow> 'a file_page_scheme" where
  "newDirctionary p = show_panel ''dirction-layer''
     (prepend \<lparr>pn_id = ''dirction-layer'', pn_shown = False, pn_texts = [], pn_inputs = [(''newdir'', [])]\<rparr> p)"

definition createNewDir :: "string \<Rightarrow> 'a file_page_scheme \<Rightarrow> 'a file_page_scheme" where
  "createNewDir name p =
     ajax (session_request ''post'' (centerUrl p @ ''/api/file/createDir'')
       (JsonText (object_text [(''title'', JStr (u name)), (''kind'', JStr (u ''dir'')), (''ext'', JStr (u ''dir'')),
          (''delete'', JNum 0), (''parent_id'', currentdir p)])) DirCreated p) p"

definition cancelDirctionpanel :: "'a file_page_scheme \<Rightarrow> 'a file_page_scheme" where
  "cancelDirctionpanel p = remove_panel ''dirction-layer'' (hide_panel ''dirction-layer'' p)"

definition dir_created :: "response \<Rightarrow> 'a file_page_scheme \<Rightarrow> 'a file_page_scheme" where
  "dir_created res p =
     (if rs_status res \<noteq> 200 then js_alert (rs_msg res) p
      else if rs_status res = 401 then goto ''./login.html'' p
      else case rs_file res of
             None \<Rightarrow> p
           | Some item \<Rightarrow> cancelDirctionpanel (displayItemFile item JUndefined p))"

definition backparentdir :: "'a file_page_scheme \<Rightarrow> 'a file_page_scheme" where
  "backparentdir p =
     (if loose_eq_str (currentdir p) (u ''0'') then js_alert ''already at the top'' p
      else ajax (session_request ''get'' (centerUrl p @ ''/api/file/backParent/'' @ js_text (currentdir p))
             (Query [(''delete'', currentDelete p)]) ParentLoaded p) p)"

definition parent_loaded :: "response \<Rightarrow> 'a file_page_scheme \<Rightarrow> 'a file_page_scheme" where
  "parent_loaded res p =
     (if rs_status res \<noteq> 200 then js_alert (rs_msg res) p
      else if rs_status res = 401 then goto ''./login.html'' p
      else if rs_msg res \<noteq> ''top''
      then let p1 = (set_text ''currentPage'' ''0'' (p\<lparr>table := []\<rparr>))\<lparr>currentdir := JStr (u (rs_msg res))\<rparr>
           in case rs_files res of None \<Rightarrow> p1 | Some items \<Rightarrow> display_all items JUndefined p1
      else js_alert ''already at the top'' p)"

section \<open>Removing and restoring\<close>

definition has_length_zero :: "jsval \<Rightarrow> bool option" where
  "has_length_zero v =
     (case v of JUndefined \<Rightarrow> None | JNull \<Rightarrow> None | JStr s \<Rightarrow> Some (s = []) | _ \<Rightarrow> Some False)"

definition dokillItem :: "jsval \<Rightarrow> int \<Rightarrow> 'a file_page_scheme \<Rightarrow> 'a file_page_scheme" where
  "dokillItem idlist kill p =
     (case has_length_zero idlist of
        None \<Rightarrow> throw ''TypeError'' p
      | Some True \<Rightarrow> js_alert ''nothing selected'' p
      | Some False \<Rightarrow>
          ajax (session_request ''get'' (centerUrl p @ ''/api/file/kill'')
            (Query [(''delete'', JNum kill), (''idList'', idlist)]) Killed p) p)"

definition killed :: "response \<Rightarrow> 'a file_page_scheme \<Rightarrow> 'a file_page_scheme" where
  "killed res p =
     (if rs_status res \<noteq> 200 then js_alert (rs_msg res) p
      else if rs_status res = 401 then goto ''./login.html'' p
      else getFileList (currentpage p) (currentkind p) (currentDelete p) (currentdir p) p)"

definition reuseItem :: "bool \<Rightarrow> jsval \<Rightarrow> 'a file_page_scheme \<Rightarrow> 'a file_page_scheme" where
  "reuseItem confirmed idlist p =
     (if confirmed then dokillItem idlist 0 (p\<lparr>currentDelete := JNum 1\<rparr>) else p)"

definition killItem :: "bool \<Rightarrow> jsval \<Rightarrow> 'a file_page_scheme \<Rightarrow> 'a file_page_scheme" where
  "killItem confirmed i p = (if confirmed then dokillItem i 1 p else p)"

section \<open>The selection\<close>

text \<open>The checkedness of a box follows its attribute until the user toggles the box.\<close>

definition checked :: "row \<Rightarrow> bool" where
  "checked r = (case rw_toggled r of None \<Rightarrow> rw_attr r | Some b \<Rightarrow> b)"

definition toggle :: "nat \<Rightarrow> 'a file_page_scheme \<Rightarrow> 'a file_page_scheme" where
  "toggle i p =
     (if i < length (table p)
      then p\<lparr>table := (table p)[i := (table p ! i)\<lparr>rw_toggled := Some (\<not> checked (table p ! i))\<rparr>]\<rparr>
      else p)"

definition quanxuan :: "bool \<Rightarrow> 'a file_page_scheme \<Rightarrow> 'a file_page_scheme" where
  "quanxuan a p = p\<lparr>table := map (\<lambda>r. r\<lparr>rw_attr := a\<rparr>) (table p)\<rparr>"

fun hash_list_from :: "row list \<Rightarrow> (string \<times> string) list \<Rightarrow> (string \<times> string) list" where
  "hash_list_from [] hashlist = hashlist"
| "hash_list_from (r # rs) hashlist =
     hash_list_from rs (if checked r then hashlist @ [(rw_hash r, rw_title r)] else hashlist)"

definition getHashQuanxuanList :: "'a file_page_scheme \<Rightarrow> (string \<times> string) list" where
  "getHashQuanxuanList p = hash_list_from (table p) []"

fun id_list_from :: "row list \<Rightarrow> string \<Rightarrow> string" where
  "id_list_from [] idlist = idlist"
| "id_list_from (r # rs) idlist =
     id_list_from rs
       (if checked r then if idlist = [] then rw_value r else idlist @ '','' @ rw_value r else idlist)"

definition getQuanxuanList :: "'a file_page_scheme \<Rightarrow> string" where
  "getQuanxuanList p = id_list_from (table p) []"

definition removeAll :: "bool \<Rightarrow> 'a file_page_scheme \<Rightarrow> 'a file_page_scheme" where
  "removeAll confirmed p = (if confirmed then dokillItem (JStr (u (getQuanxuanList p))) (- 1) p else p)"

definition deleteAll :: "bool \<Rightarrow> 'a file_page_scheme \<Rightarrow> 'a file_page_scheme" where
  "deleteAll confirmed p =
     (if loose_eq_str (currentDelete p) (u ''1'')
      then (if confirmed then dokillItem (JStr (u (getQuanxuanList p))) 0 p else p)
      else (if confirmed then dokillItem (JStr (u (getQuanxuanList p))) 1 p else p))"

section \<open>Downloads\<close>

definition downloadThisFile :: "string \<Rightarrow> 'a file_page_scheme \<Rightarrow> 'a file_page_scheme" where
  "downloadThisFile hash_code p = window_open (''/store/'' @ hash_code) p"

text \<open>The link of a row, found by its \<open>id\<close>; rows of folders have none.\<close>

definition link_of :: "string \<Rightarrow> row list \<Rightarrow> bool" where
  "link_of hash rows \<longleftrightarrow>
     list_ex (\<lambda>r. case rw_link r of StoreLink _ h \<Rightarrow> h = hash \<and> hash \<noteq> [] | DirLink _ \<Rightarrow> False) rows"

fun download_all :: "(string \<times> string) list \<Rightarrow> 'a file_page_scheme \<Rightarrow> 'a file_page_scheme" where
  "download_all [] p = p"
| "download_all ((hash, title) # items) p =
     (if link_of hash (table p) then download_all items (window_open (''/store/'' @ hash) p)
      else throw ''TypeError'' p)"

definition batchDownload :: "'a file_page_scheme \<Rightarrow> 'a file_page_scheme" where
  "batchDownload p =
     (let hashlist = getHashQuanxuanList p
      in if 0 < length hashlist then download_all hashlist p else js_alert ''nothing selected'' p)"

section \<open>Uploads\<close>

definition uploadfile :: "'a file_page_scheme \<Rightarrow> 'a file_page_scheme" where
  "uploadfile p = show_panel ''uploadfile-layer''
     (prepend \<lparr>pn_id = ''uploadfile-layer'', pn_shown = False, pn_texts = [], pn_inputs = [(''fileInput'', [])]\<rparr> p)"

definition cancelUploadpanel :: "'a file_page_scheme \<Rightarrow> 'a file_page_scheme" where
  "cancelUploadpanel p = remove_panel ''uploadfile-layer'' (hide_panel ''uploadfile-layer'' p)"

text \<open>\<open>value\<close> is the path the file input shows, \<open>file\<close> the file chosen in it.\<close>

definition doUploadfile :: "string \<Rightarrow> string option \<Rightarrow> 'a file_page_scheme \<Rightarrow> 'a file_page_scheme" where
  "doUploadfile value file p =
     (let tmp_imgname = base_name value; fileFormat = getFileExt value; fileKind = getFileKind fileFormat
      in ajax (session_request ''post'' ''/store/addfile'' (FileForm file)
           (FileStored tmp_imgname fileFormat fileKind) p) p)"

definition file_stored :: "string \<Rightarrow> string \<Rightarrow> string \<Rightarrow> response \<Rightarrow> 'a file_page_scheme \<Rightarrow> 'a file_page_scheme" where
  "file_stored tmp_imgname fileFormat fileKind res p =
     (if rs_code res \<noteq> 0 then js_alert (rs_msg res) p
      else let p1 = cancelUploadpanel p in
           if loose_eq_num (loginuser p1) 0 then getAnonymousFileList fileKind p1
           else if loose_eq_num (loginuser p1) 1 then
             ajax (session_request ''post'' (centerUrl p1 @ ''/api/file/createDir'')
               (JsonText (object_text
                 [(''title'', JStr (u tmp_imgname)), (''kind'', JStr (u fileKind)), (''ext'', JStr (u fileFormat)),
                  (''delete'', JNum 0), (''parent_id'', parse_int (currentdir p1)),
                  (''hash_code'', JStr (u (rs_hashname res))), (''size'', JNum (int (rs_size res)))]))
               FileRecorded p1) p1
           else p1)"

definition file_recorded :: "response \<Rightarrow> 'a file_page_scheme \<Rightarrow> 'a file_page_scheme" where
  "file_recorded res p =
     (if rs_status res \<noteq> 200 then js_alert (rs_msg res) p
      else getFileList (currentpage p) (currentkind p) (currentDelete p) (currentdir p) p)"

section \<open>Anonymous mode and the start of the page\<close>

definition useAnonymous :: "'a file_page_scheme \<Rightarrow> 'a file_page_scheme" where
  "useAnonymous p =
     (if cookie ''Sessionid'' p = [] then getAnonymousFileList [] p
      else ajax (session_request ''GET'' (centerUrl p @ ''/api/user/logout'') NoBody AnonymousLeft p) p)"

definition anonymous_left :: "response \<Rightarrow> 'a file_page_scheme \<Rightarrow> 'a file_page_scheme" where
  "anonymous_left res p = (if rs_status res \<noteq> 200 then p else goto ''?user=0'' p)"

text \<open>The parameter \<open>user\<close> of the address: the first one that is named so.\<close>

fun find_user :: "units list \<Rightarrow> jsval option" where
  "find_user [] = None"
| "find_user (s # strs) =
     (let parts = split_on 61 s in
      if hd parts = u ''user''
      then Some (JStr (if length parts > 1 then unescape (parts ! 1) else u ''undefined''))
      else find_user strs)"

definition init :: "units \<Rightarrow> string \<Rightarrow> 'a file_page_scheme \<Rightarrow> 'a file_page_scheme" where
  "init search userAgent p =
     (let p1 = (if index_of 63 search \<noteq> - 1
                then case find_user (split_on 38 (slice_from 1 search)) of
                       Some v \<Rightarrow> p\<lparr>loginuser := v\<rparr> | None \<Rightarrow> p
                else p);
          p2 = (if loose_eq_num (loginuser p1) 0
                then (if cookie ''Sessionid'' p1 = [] then getAnonymousFileList ''*'' p1
                      else doLogoutFunc (Some ''?user=0'') p1)
                else if loose_eq_num (loginuser p1) 1
                then let q = myMessage p1
                     in getFileList (currentpage q) (currentkind q) (currentDelete q) (JNum 0) q
                else p1)
      in if sublist ''.NET'' userAgent then p2\<lparr>iswindows := True\<rparr> else p2)"

section \<open>Events\<close>

fun file_done :: "callback \<Rightarrow> response \<Rightarrow> 'a file_page_scheme \<Rightarrow> 'a file_page_scheme" where
  "file_done (FileListLoaded pg kind del dir) res p = file_list_loaded pg kind del dir res p"
| "file_done MessagesLoaded res p = messages_loaded res p"
| "file_done MessageRead res p = message_read res p"
| "file_done DirCreated res p = dir_created res p"
| "file_done ParentLoaded res p = parent_loaded res p"
| "file_done Killed res p = killed res p"
| "file_done (FileStored n e k) res p = file_stored n e k res p"
| "file_done FileRecorded res p = file_recorded res p"
| "file_done AnonymousLeft res p = anonymous_left res p"
| "file_done (AnonymousListLoaded k) res p = anonymous_loaded k res p"
| "file_done c res p = user_done c res p"

datatype event =
  OpenFileList string jsval jsval string
| OpenFile jsval
| OpenMessage int
| CancelMessage
| NewDir
| CreateDir string
| CancelDir
| BackParent
| ReuseItem bool jsval
| KillItem bool jsval
| Toggle nat
| SelectAll bool
| RemoveAll bool
| DeleteAll bool
| BatchDownload
| UploadFile
| DoUpload string "string option"
| CancelUpload
| UseAnonymous
| Logout bool "string option"
| Deliver nat response
| Fail nat

fun react :: "event \<Rightarrow> 'a file_page_scheme \<Rightarrow> 'a file_page_scheme" where
  "react (OpenFileList kind del parent bt) p = openFileList kind del parent bt p"
| "react (OpenFile i) p = openThisFile i p"
| "react (OpenMessage i) p = openMessage i p"
| "react CancelMessage p = cancelMessagepanel p"
| "react NewDir p = newDirctionary p"
| "react (CreateDir name) p = createNewDir name p"
| "react CancelDir p = cancelDirctionpanel p"
| "react BackParent p = backparentdir p"
| "react (ReuseItem b i) p = reuseItem b i p"
| "react (KillItem b i) p = killItem b i p"
| "react (Toggle i) p = toggle i p"
| "react (SelectAll b) p = quanxuan b p"
| "react (RemoveAll b) p = removeAll b p"
| "react (DeleteAll b) p = deleteAll b p"
| "react BatchDownload p = batchDownload p"
| "react UploadFile p = uploadfile p"
| "react (DoUpload v f) p = doUploadfile v f p"
| "react CancelUpload p = cancelUploadpanel p"
| "react UseAnonymous p = useAnonymous p"
| "react (Logout b r) p = logoutFunc b r p"
| "react (Deliver i res) p =
     (if i < length (pending p) then file_done (rq_done (pending p ! i)) res (take_request i p) else p)"
| "react (Fail i) p = take_request i p"

end
