(* ===== verification/FileIndexProps.thy ===== *)
theory FileIndexProps
  imports FileIndex
begin

text \<open>
  What the file manager page does: sizes and names of files, the rows it shows, the selection and
  the requests made from it, folders and uploads, the safety of the anonymous mode over every run of
  the page, and the label of the button that removes or restores.
\<close>

section \<open>Sizes\<close>

lemma dec_step: "10 \<le> n \<Longrightarrow> dec n = dec (n div 10) @ dec (n mod 10)"
  by (subst dec.simps) (simp add: dec.simps [of "n mod 10"])

lemma dec_digit_length: "length (dec (n mod 10)) = 1"
  by (simp add: dec.simps [of "n mod 10"])

lemma dec_thousands:
  assumes "1000 \<le> n"
  obtains g where "dec n = dec (n div 1000) @ g" "length g = 3"
proof -
  have "dec n = ((dec (n div 1000) @ dec (n div 100 mod 10)) @ dec (n div 10 mod 10)) @ dec (n mod 10)"
    using assms dec_step [of n] dec_step [of "n div 10"] dec_step [of "n div 100"]
    by (simp add: div_mult2_eq [symmetric])
  then show thesis
    by (intro that [of "dec (n div 100 mod 10) @ dec (n div 10 mod 10) @ dec (n mod 10)"])
      (simp_all add: dec_digit_length)
qed

lemma join_with_Cons: "gs \<noteq> [] \<Longrightarrow> join_with sep (g # gs) = g @ sep @ join_with sep gs"
  by (cases gs) simp_all

lemma join_groups_Nil: "\<forall>g \<in> set gs. length g = 3 \<Longrightarrow> join_with '','' gs = [] \<longleftrightarrow> gs = []"
  by (cases gs; cases "tl gs") auto

lemma size_loop_groups:
  "\<forall>g \<in> set gs. length g = 3 \<Longrightarrow>
   \<exists>q pre. size_loop n (join_with '','' gs) = (q, join_with '','' (pre @ gs)) \<and> q \<le> 1000 \<and>
     (\<forall>g \<in> set pre. length g = 3) \<and> dec n = dec q @ concat pre"
proof (induction n arbitrary: gs rule: less_induct)
  case (less n)
  show ?case
  proof (cases "1000 < n")
    case True
    then obtain g where g: "dec n = dec (n div 1000) @ g" "length g = 3"
      using dec_thousands [of n] by auto
    then have sub: "substring (dec n) (int (length (dec n)) - 3) (int (length (dec n))) = g"
      by (simp add: substring_def Let_def)
    have "size_loop n (join_with '','' gs) = size_loop (n div 1000) (join_with '','' (g # gs))"
      using True less.prems by (subst size_loop.simps) (simp add: Let_def sub join_groups_Nil join_with_Cons)
    moreover obtain q pre where "size_loop (n div 1000) (join_with '','' (g # gs)) =
        (q, join_with '','' (pre @ g # gs))" "q \<le> 1000" "\<forall>g \<in> set pre. length g = 3"
        "dec (n div 1000) = dec q @ concat pre"
      using less.IH [of "n div 1000" "g # gs"] True less.prems g(2) by auto
    ultimately show ?thesis using g by (intro exI [of _ q] exI [of _ "pre @ [g]"]) simp
  next
    case False
    then have "size_loop n (join_with '','' gs) = (n, join_with '','' gs)" by (subst size_loop.simps) simp
    with False show ?thesis by (intro exI [of _ n] exI [of _ "[]"]) simp
  qed
qed

lemma zero_text: "dec 0 = ''0''"
  by code_simp

lemma dec_no_comma: "CHR '','' \<notin> set (dec n)"
  using dec_digits [of "CHR '',''" n] by (auto simp: is_digit_def)

lemma filter_join:
  "\<forall>g \<in> set gs. c \<notin> set g \<Longrightarrow> filter (\<lambda>x. x \<noteq> c) (join_with [c] gs) = concat gs"
proof (induction gs)
  case (Cons g gs)
  have "filter (\<lambda>x. x \<noteq> c) g = g" using Cons.prems by (auto simp: filter_id_conv)
  with Cons show ?case by (cases gs) simp_all
qed simp

text \<open>
  C13: the text of a size is its decimal digits cut into groups by commas: every group
  after the first has three digits, the first stands for at most 1000, and without the commas the
  text is the decimal number.
\<close>

theorem size_readable:
  "filter (\<lambda>c. c \<noteq> CHR '','') (size_text n) = dec n
   \<and> (\<forall>g \<in> set (tl (split_on CHR '','' (size_text n))). length g = 3)
   \<and> dec_val (hd (split_on CHR '','' (size_text n))) \<le> 1000"
proof -
  obtain q pre where l: "size_loop n (join_with '','' []) = (q, join_with '','' (pre @ []))"
    and q: "q \<le> 1000" and pre: "\<forall>g \<in> set pre. length g = 3" and n: "dec n = dec q @ concat pre"
    using size_loop_groups [of "[]" n] by auto
  have no_comma: "\<forall>g \<in> set (dec q # pre). CHR '','' \<notin> set g"
  proof
    fix g
    assume "g \<in> set (dec q # pre)"
    then have "set g \<subseteq> set (dec n)" unfolding n by auto
    then show "CHR '','' \<notin> set g" using dec_no_comma [of n] by auto
  qed
  have shape: "size_text n = join_with '','' (dec q # pre)"
  proof (cases "q = 0")
    case True
    have "pre = []"
    proof (rule ccontr)
      assume "pre \<noteq> []"
      have "size_loop n [] = (0, join_with '','' pre)" using l True by simp
      moreover have "0 < fst (size_loop m r)" if "0 < m" for m r
        using that by (induction m r rule: size_loop.induct) (subst size_loop.simps, simp add: Let_def)
      ultimately have "n = 0" by (metis fst_conv gr_zeroI less_irrefl)
      with l \<open>pre \<noteq> []\<close> pre show False
        by (subst (asm) size_loop.simps) (use join_groups_Nil [OF pre] in auto)
    qed
    with l True show ?thesis by (simp add: size_text_def zero_text)
  next
    case False
    with l pre show ?thesis by (simp add: size_text_def join_groups_Nil join_with_Cons)
  qed
  have split: "split_on CHR '','' (size_text n) = dec q # pre"
    unfolding shape by (rule split_on_join) (use no_comma in auto)
  show ?thesis
    unfolding split using pre q filter_join [OF no_comma] n by (simp add: shape)
qed

section \<open>Names\<close>

text \<open>
  The extension of a path is what follows the last dot of what follows the last
  backslash (the whole name if it has no dot), and it decides one of the four kinds of files; no
  file is taken for a folder.
\<close>

theorem extension:
  "getFileExt path = after_last CHR ''.'' (after_last CHR 0x5C path)
   \<and> getFileKind (getFileExt path) \<in> {''pic'', ''video'', ''doc'', ''other''}"
  by (simp add: getFileExt_def base_name_def slice_after_last substring_after_last Let_def getFileKind_def)

section \<open>Rows\<close>

lemma table_display_all:
  "display_all items del p = p\<lparr>table := table p @ map (\<lambda>i. item_row (iswindows p) i del) items\<rparr>"
  by (induction items arbitrary: p) (simp_all add: displayItemFile_def)

lemma rw_checked_item [simp]: "checked (item_row w i del) = False"
  by (simp add: item_row_def checked_def Let_def)

text \<open>
  When the list of a folder arrives, the table shows exactly the files of the reply in
  their order, none of them selected, the box above them is cleared, and the page is in that folder
  and that view.
\<close>

theorem list_shown:
  assumes "i < length (pending p)" "rq_done (pending p ! i) = FileListLoaded pg kind del dir"
    and "rs_status res = 200" "rs_files res = Some items" "checks p ''quanxuanCB'' \<noteq> None"
  shows "table (react (Deliver i res) p) = map (\<lambda>item. item_row (iswindows p) item del) items
    \<and> getQuanxuanList (react (Deliver i res) p) = []
    \<and> checks (react (Deliver i res) p) ''quanxuanCB'' = Some False
    \<and> currentdir (react (Deliver i res) p) = dir \<and> currentDelete (react (Deliver i res) p) = del
    \<and> currentkind (react (Deliver i res) p) = kind \<and> currentpage (react (Deliver i res) p) = pg
    \<and> length (pending (react (Deliver i res) p)) = length (pending p) - 1"
proof -
  have "id_list_from (map (\<lambda>item. item_row w item del) items) [] = []" for w
    by (induction items) simp_all
  moreover obtain b where "checks p ''quanxuanCB'' = Some b" using assms(5) by auto
  ultimately show ?thesis using assms(1-4)
    by (simp add: file_list_loaded_def take_request_def table_display_all set_text_def getQuanxuanList_def)
qed

section \<open>The selection\<close>

definition selected :: "'a file_page_scheme \<Rightarrow> row list" where
  "selected p = filter checked (table p)"

lemma id_list_acc:
  "acc \<noteq> [] \<Longrightarrow> id_list_from rs acc = join_with '','' (acc # map rw_value (filter checked rs))"
proof (induction rs arbitrary: acc)
  case (Cons r rs)
  have "join_with '','' ((acc @ '','' @ v) # vs) = join_with '','' (acc # v # vs)" for v vs
    by (cases vs) simp_all
  with Cons show ?case by simp
qed simp

lemma id_list_join:
  "\<forall>r \<in> set rs. rw_value r \<noteq> [] \<Longrightarrow> id_list_from rs [] = join_with '','' (map rw_value (filter checked rs))"
  by (induction rs) (simp_all add: id_list_acc)

lemma hash_list: "hash_list_from rs hs = hs @ map (\<lambda>r. (rw_hash r, rw_title r)) (filter checked rs)"
  by (induction rs arbitrary: hs) simp_all

text \<open>The boxes' values are identifiers: not empty and without a comma.\<close>

definition ids_ok :: "'a file_page_scheme \<Rightarrow> bool" where
  "ids_ok p \<longleftrightarrow> list_all (\<lambda>r. rw_value r \<noteq> [] \<and> CHR '','' \<notin> set (rw_value r)) (table p)"

lemma selected_ids:
  assumes "ids_ok p"
  shows "getQuanxuanList p = join_with '','' (map rw_value (selected p))"
    and "getQuanxuanList p = [] \<longleftrightarrow> selected p = []"
    and "selected p \<noteq> [] \<Longrightarrow> split_on CHR '','' (getQuanxuanList p) = map rw_value (selected p)"
proof -
  show join: "getQuanxuanList p = join_with '','' (map rw_value (selected p))"
    using assms by (simp add: getQuanxuanList_def selected_def ids_ok_def list_all_iff id_list_join)
  have ok: "\<forall>r \<in> set (selected p). rw_value r \<noteq> [] \<and> CHR '','' \<notin> set (rw_value r)"
    using assms by (auto simp: ids_ok_def list_all_iff selected_def)
  show "getQuanxuanList p = [] \<longleftrightarrow> selected p = []"
    unfolding join using ok by (cases "selected p"; cases "tl (selected p)") auto
  show "selected p \<noteq> [] \<Longrightarrow> split_on CHR '','' (getQuanxuanList p) = map rw_value (selected p)"
    unfolding join by (rule split_on_join) (use ok in auto)
qed

definition kill_request :: "string \<Rightarrow> int \<Rightarrow> 'a file_page_scheme \<Rightarrow> request" where
  "kill_request ids kill p = session_request ''get'' (centerUrl p @ ''/api/file/kill'')
     (Query [(''delete'', JNum kill), (''idList'', JStr (u ids))]) Killed p"

text \<open>
  A confirmed click on the button that removes or restores sends one request with
  the ids of the selected rows, in their order and separated by commas, so that the server can split
  them apart again; it restores in the trash view and removes elsewhere. With nothing selected
  nothing is sent, and without the confirmation nothing happens.
\<close>

theorem delete_selected:
  assumes "ids_ok p"
  shows "deleteAll False p = p
    \<and> deleteAll True p =
      (if selected p = [] then js_alert ''nothing selected'' p
       else ajax (kill_request (join_with '','' (map rw_value (selected p)))
              (if loose_eq_str (currentDelete p) (u ''1'') then 0 else 1) p) p)
    \<and> (selected p \<noteq> [] \<longrightarrow>
      split_on CHR '','' (join_with '','' (map rw_value (selected p))) = map rw_value (selected p))"
  using selected_ids [OF assms]
  by (simp add: deleteAll_def dokillItem_def has_length_zero_def kill_request_def)

text \<open>
  The box above the table sets the \<open>checked\<close> attribute of every row, which decides for
  the boxes the user has not touched; a box the user has toggled keeps the user's choice. So a page
  whose boxes are untouched selects all rows or none.
\<close>

theorem select_all:
  "map checked (table (quanxuan a p)) =
     map (\<lambda>r. case rw_toggled r of None \<Rightarrow> a | Some b \<Rightarrow> b) (table p)
   \<and> (list_all (\<lambda>r. rw_toggled r = None) (table p) \<longrightarrow>
       map rw_value (selected (quanxuan a p)) = (if a then map rw_value (table p) else []))"
proof -
  have "map checked (table (quanxuan a p)) =
     map (\<lambda>r. case rw_toggled r of None \<Rightarrow> a | Some b \<Rightarrow> b) (table p)"
    by (simp add: quanxuan_def checked_def split: option.split)
  moreover have "list_all (\<lambda>r. rw_toggled r = None) rs \<Longrightarrow>
      map rw_value (filter checked (map (\<lambda>r. r\<lparr>rw_attr := a\<rparr>) rs)) = (if a then map rw_value rs else [])" for rs
    by (cases a; induction rs) (simp_all add: checked_def)
  ultimately show ?thesis by (simp add: selected_def quanxuan_def)
qed

definition has_link :: "'a file_page_scheme \<Rightarrow> row \<Rightarrow> bool" where
  "has_link p r = link_of (rw_hash r) (table p)"

lemma download_all_opened:
  "opened (download_all (map (\<lambda>r. (rw_hash r, rw_title r)) rs) p) =
     opened p @ map (\<lambda>r. ''/store/'' @ rw_hash r) (takeWhile (has_link p) rs)
   \<and> errors (download_all (map (\<lambda>r. (rw_hash r, rw_title r)) rs) p) =
     errors p @ (if list_all (has_link p) rs then [] else [''TypeError''])"
proof (induction rs arbitrary: p)
  case (Cons r rs)
  have "has_link (window_open s p) = has_link p" for s by (simp add: has_link_def window_open_def fun_eq_iff)
  with Cons [of "window_open (''/store/'' @ rw_hash r) p"] show ?case
    by (simp add: has_link_def window_open_def throw_def)
qed simp

text \<open>
  The batch download opens the selected files in order up to the first one without
  a link of its own (a folder), where an exception ends it; with no selection it says so.
\<close>

theorem batch_download:
  "opened (batchDownload p) = opened p @ map (\<lambda>r. ''/store/'' @ rw_hash r) (takeWhile (has_link p) (selected p))
   \<and> errors (batchDownload p) = errors p @ (if list_all (has_link p) (selected p) then [] else [''TypeError''])
   \<and> alerts (batchDownload p) = alerts p @ (if selected p = [] then [''nothing selected''] else [])"
proof -
  have "alerts (download_all hs p) = alerts p" for hs
    by (induction hs p rule: download_all.induct) (simp_all add: window_open_def throw_def)
  then show ?thesis
    using download_all_opened [of "selected p" p]
    by (simp add: batchDownload_def getHashQuanxuanList_def hash_list Let_def js_alert_def flip: selected_def)
qed

section \<open>What the user can click\<close>

text \<open>
  The events that the page offers in a state: buttons that are shown, links and buttons of rows that
  are in the table, the buttons of a panel that is open, answers to pending requests. The menu passes
  the folder -1; its trash entry is \<open>rubbishUI\<close>.
\<close>

definition has_panel :: "string \<Rightarrow> 'a file_page_scheme \<Rightarrow> bool" where
  "has_panel i p \<longleftrightarrow> i \<in> pn_id ` set (panels p)"

definition row_control :: "control \<Rightarrow> 'a file_page_scheme \<Rightarrow> bool" where
  "row_control c p \<longleftrightarrow> list_ex (\<lambda>r. c \<in> set (rw_controls r)) (table p)"

fun enabled :: "event \<Rightarrow> 'a file_page_scheme \<Rightarrow> bool" where
  "enabled (OpenFileList kind del parent bt) p \<longleftrightarrow>
     parent = JNum (- 1) \<and> (del = JNum 0 \<or> del = JNum 1 \<and> shown p ''rubbishUI'')"
| "enabled (OpenFile i) p \<longleftrightarrow> list_ex (\<lambda>r. rw_link r = DirLink i) (table p)"
| "enabled (OpenMessage i) p \<longleftrightarrow> i \<in> fst ` set (message_links p)"
| "enabled CancelMessage p \<longleftrightarrow> has_panel ''message-layer'' p"
| "enabled NewDir p \<longleftrightarrow> shown p ''newdirBT''"
| "enabled (CreateDir name) p \<longleftrightarrow> has_panel ''dirction-layer'' p"
| "enabled CancelDir p \<longleftrightarrow> has_panel ''dirction-layer'' p"
| "enabled BackParent p \<longleftrightarrow> True"
| "enabled (ReuseItem b i) p \<longleftrightarrow> row_control (Reuse i) p"
| "enabled (KillItem b i) p \<longleftrightarrow> row_control (Kill i) p \<or> row_control (KillForever i) p"
| "enabled (Toggle i) p \<longleftrightarrow> i < length (table p)"
| "enabled (SelectAll b) p \<longleftrightarrow> True"
| "enabled (RemoveAll b) p \<longleftrightarrow> shown p ''removeBT''"
| "enabled (DeleteAll b) p \<longleftrightarrow> shown p ''deleteBT''"
| "enabled BatchDownload p \<longleftrightarrow> shown p ''downloadBT''"
| "enabled UploadFile p \<longleftrightarrow> shown p ''uploadBT''"
| "enabled (DoUpload v f) p \<longleftrightarrow> has_panel ''uploadfile-layer'' p"
| "enabled CancelUpload p \<longleftrightarrow> has_panel ''uploadfile-layer'' p"
| "enabled UseAnonymous p \<longleftrightarrow> shown p ''userinfoBar''"
| "enabled (Logout b r) p \<longleftrightarrow> shown p ''userinfoBar''"
| "enabled (Deliver i res) p \<longleftrightarrow> i < length (pending p)"
| "enabled (Fail i) p \<longleftrightarrow> i < length (pending p)"

section \<open>The anonymous mode\<close>

fun anonymous_request :: "callback \<Rightarrow> bool" where
  "anonymous_request (AnonymousListLoaded k) = True"
| "anonymous_request (FileStored n e k) = True"
| "anonymous_request _ = False"

definition store_only :: "request \<Rightarrow> bool" where
  "store_only r \<longleftrightarrow> anonymous_request (rq_done r) \<and> prefix ''/store/'' (rq_url r)"

fun anonymous_control :: "control \<Rightarrow> bool" where
  "anonymous_control (SaveAs t h) = True"
| "anonymous_control (Kill i) = (i = JUndefined)"
| "anonymous_control _ = False"

definition anonymous_row :: "row \<Rightarrow> bool" where
  "anonymous_row r \<longleftrightarrow> list_all anonymous_control (rw_controls r) \<and> (\<forall>i. rw_link r \<noteq> DirLink i)"

definition account_ui :: "string list" where
  "account_ui = [''rubbishUI'', ''newdirBT'', ''deleteBT'', ''removeBT'', ''userinfoBar'']"

definition anonymous :: "'a file_page_scheme \<Rightarrow> bool" where
  "anonymous p \<longleftrightarrow> loginuser p = JNum 0 \<and> cookie ''Sessionid'' p = [] \<and>
     list_all (\<lambda>i. \<not> shown p i) account_ui \<and> \<not> has_panel ''dirction-layer'' p \<and>
     message_links p = [] \<and> currentdir p = JNum 0 \<and>
     list_all anonymous_row (table p) \<and> list_all store_only (pending p)"

lemma anonymous_kind: "getFileKind e \<noteq> ''dir''"
  by (simp add: getFileKind_def)

lemma anonymous_item_row: "anonymous_row (item_row w (anonymous_item z f) JUndefined)"
  by (simp add: anonymous_row_def item_row_def anonymous_item_def anonymous_kind Let_def)

lemma anonymous_frame:
  "now q = now p \<Longrightarrow> jar q = jar p \<Longrightarrow> shown q = shown p \<Longrightarrow> panels q = panels p \<Longrightarrow>
   loginuser q = loginuser p \<Longrightarrow> message_links q = message_links p \<Longrightarrow> currentdir q = currentdir p \<Longrightarrow>
   table q = table p \<Longrightarrow> pending q = pending p \<Longrightarrow> anonymous q = anonymous p"
  by (simp add: anonymous_def cookie_def has_panel_def)

lemma anonymous_list:
  assumes "cookie ''Sessionid'' p = []" "\<not> shown p ''removeBT''" "\<not> has_panel ''dirction-layer'' p"
    and "message_links p = []" "currentdir p = JNum 0" "list_all store_only (pending p)"
  shows "anonymous (getAnonymousFileList k p)"
  using assms by (simp add: anonymous_def getAnonymousFileList_def page_defs cookie_def account_ui_def
      has_panel_def store_only_def Let_def)

lemma anonymous_list_again: "anonymous p \<Longrightarrow> anonymous (getAnonymousFileList k p)"
  by (rule anonymous_list) (simp_all add: anonymous_def account_ui_def)

lemma take_request_store: "anonymous p \<Longrightarrow> anonymous (take_request i p)"
  by (auto simp: anonymous_def take_request_def cookie_def has_panel_def list_all_iff
      dest: in_set_takeD in_set_dropD)

lemma has_panel_mark: "pn_id ` set (mark_first i v ps) = pn_id ` set ps"
  by (induction ps) auto

lemma has_panel_remove: "pn_id ` set (remove_first i ps) \<subseteq> pn_id ` set ps"
  by (induction ps) auto

lemma anonymous_panels:
  "anonymous p \<Longrightarrow> ''dirction-layer'' \<notin> pn_id ` set ps \<Longrightarrow> anonymous (p\<lparr>panels := ps\<rparr>)"
  by (simp add: anonymous_def cookie_def has_panel_def)

lemma anonymous_close: "anonymous p \<Longrightarrow> anonymous (remove_panel i (hide_panel i p))"
  using anonymous_panels [of p "remove_first i (mark_first i False (panels p))"]
    has_panel_remove [of i "mark_first i False (panels p)"] has_panel_mark [of i False "panels p"]
  by (auto simp: page_defs anonymous_def has_panel_def)

lemma anonymous_done:
  assumes "anonymous p" "anonymous_request c"
  shows "anonymous (file_done c res p)"
proof (cases c)
  case (AnonymousListLoaded k)
  have "list_all anonymous_row (table p)" using assms(1) by (simp add: anonymous_def)
  then show ?thesis using AnonymousListLoaded assms(1)
    by (auto simp: anonymous_loaded_def table_display_all Let_def anonymous_item_row list_all_iff
        anonymous_def cookie_def has_panel_def js_alert_def split: option.split)
next
  case (FileStored n e k)
  have "anonymous (cancelUploadpanel p)" unfolding cancelUploadpanel_def using assms(1) by (rule anonymous_close)
  moreover from this have "loginuser (cancelUploadpanel p) = JNum 0" by (simp add: anonymous_def)
  moreover have "anonymous (js_alert s p)" for s
    using assms(1) by (subst anonymous_frame [of _ p]) (simp_all add: js_alert_def)
  ultimately show ?thesis using FileStored by (simp add: file_stored_def anonymous_list_again Let_def)
qed (use assms(2) in simp_all)

lemma anonymous_row_attr [simp]:
  "anonymous_row (r\<lparr>rw_attr := b\<rparr>) = anonymous_row r"
  "anonymous_row (r\<lparr>rw_toggled := t\<rparr>) = anonymous_row r"
  by (simp_all add: anonymous_row_def)

lemma anonymous_table:
  "anonymous p \<Longrightarrow> list_all anonymous_row t \<Longrightarrow> anonymous (p\<lparr>table := t\<rparr>)"
  by (simp add: anonymous_def cookie_def has_panel_def)

lemma no_account_control:
  assumes "anonymous p"
  shows "\<not> row_control (Reuse i) p" "\<not> row_control (KillForever i) p"
    "row_control (Kill i) p \<Longrightarrow> i = JUndefined" "\<not> list_ex (\<lambda>r. rw_link r = DirLink i) (table p)"
  using assms
  by (fastforce simp: anonymous_def row_control_def list_ex_iff list_all_iff anonymous_row_def)+

lemma anonymous_download: "anonymous p \<Longrightarrow> anonymous (download_all hs p)"
proof (induction hs p rule: download_all.induct)
  case (2 hash title items p)
  have "anonymous (window_open s p)" "anonymous (throw s p)" for s
    using 2(2) by (subst anonymous_frame [of _ p]; simp add: page_defs)+
  with 2 show ?case by simp
qed simp

lemma anonymous_ajax: "anonymous p \<Longrightarrow> store_only r \<Longrightarrow> anonymous (ajax r p)"
  by (simp add: anonymous_def ajax_def cookie_def has_panel_def)

lemma anonymous_alert: "anonymous p \<Longrightarrow> anonymous (js_alert s p)" "anonymous p \<Longrightarrow> anonymous (throw s p)"
  by (subst anonymous_frame [of _ p]; simp add: page_defs)+

lemma anonymous_step:
  assumes a: "anonymous p" and e: "enabled ev p"
  shows "anonymous (react ev p)"
proof -
  have hidden: "\<not> shown p ''newdirBT''" "\<not> shown p ''deleteBT''" "\<not> shown p ''removeBT''"
    "\<not> shown p ''userinfoBar''" "\<not> has_panel ''dirction-layer'' p" "message_links p = []"
    using a by (simp_all add: anonymous_def account_ui_def)
  show ?thesis
  proof (cases ev)
    case (OpenFileList kind del parent bt)
    have "anonymous (p\<lparr>active_menu := Some bt, currentDelete := del\<rparr>)"
      using a by (subst anonymous_frame [of _ p]) simp_all
    moreover from this have "loginuser (p\<lparr>active_menu := Some bt, currentDelete := del\<rparr>) = JNum 0"
      by (simp add: anonymous_def)
    ultimately show ?thesis using OpenFileList by (simp add: openFileList_def Let_def anonymous_list_again)
  next
    case (KillItem b i)
    then have "i = JUndefined" using e no_account_control [OF a] by auto
    with KillItem a show ?thesis by (simp add: killItem_def dokillItem_def has_length_zero_def anonymous_alert)
  next
    case (Toggle i)
    then have "anonymous_row (table p ! i)" using a e by (simp add: anonymous_def list_all_length)
    then have "list_all anonymous_row ((table p)[i := (table p ! i)\<lparr>rw_toggled := t\<rparr>])" for t
      using a set_update_subset_insert [of "table p" i] by (fastforce simp: anonymous_def list_all_iff)
    with Toggle a show ?thesis by (simp add: toggle_def anonymous_table)
  next
    case (SelectAll b)
    have "list_all anonymous_row (map (\<lambda>r. r\<lparr>rw_attr := b\<rparr>) (table p))"
      using a by (simp add: anonymous_def list_all_iff)
    with SelectAll a show ?thesis by (simp add: quanxuan_def anonymous_table)
  next
    case BackParent
    have "loose_eq_str (currentdir p) (u ''0'')"
      using a by (simp add: anonymous_def string_to_number_digit)
    with BackParent a show ?thesis by (simp add: backparentdir_def anonymous_alert)
  next
    case UploadFile
    have "''dirction-layer'' \<notin> pn_id ` set (panels (uploadfile p))"
      using a by (auto simp: uploadfile_def page_defs anonymous_def has_panel_def)
    from anonymous_panels [OF a this] show ?thesis
      using UploadFile by (simp add: uploadfile_def page_defs)
  next
    case (DoUpload v f)
    with a show ?thesis
      by (simp add: doUploadfile_def Let_def session_request_def anonymous_ajax store_only_def)
  next
    case (Deliver i res)
    have "anonymous_request (rq_done (pending p ! i))"
      using a e Deliver by (simp add: anonymous_def list_all_length store_only_def)
    with Deliver a show ?thesis by (simp add: anonymous_done take_request_store)
  next
    case BatchDownload
    with a show ?thesis by (simp add: batchDownload_def Let_def anonymous_download anonymous_alert)
  qed (use a e no_account_control [OF a] hidden in
      \<open>simp_all add: anonymous_close take_request_store cancelMessagepanel_def cancelUploadpanel_def\<close>)
qed

interpretation anon: page react anonymous enabled
  by standard (rule anonymous_step)

lemma init_anonymous:
  assumes "loose_eq_num v 0" "find_user (split_on 38 (slice_from 1 search)) = Some v" "index_of 63 search \<noteq> - 1"
    and "cookie ''Sessionid'' p = []" "\<not> shown p ''removeBT''" "panels p = []" "message_links p = []"
    "currentdir p = JNum 0" "pending p = []"
  shows "anonymous (init search agent p)"
proof -
  have "anonymous (getAnonymousFileList ''*'' (p\<lparr>loginuser := v\<rparr>))"
    using assms by (intro anonymous_list) (simp_all add: cookie_def has_panel_def)
  then have "anonymous ((getAnonymousFileList ''*'' (p\<lparr>loginuser := v\<rparr>))\<lparr>iswindows := w\<rparr>)" for w
    by (subst anonymous_frame [of _ "getAnonymousFileList ''*'' (p\<lparr>loginuser := v\<rparr>)"]) simp_all
  moreover have "cookie ''Sessionid'' (p\<lparr>loginuser := v\<rparr>) = []" using assms(4) by (simp add: cookie_def)
  ultimately show ?thesis
    using assms(1-3) \<open>anonymous (getAnonymousFileList _ _)\<close> by (simp add: init_def Let_def)
qed


section \<open>The properties on concrete pages\<close>

definition blank_files :: file_page where
  "blank_files = \<lparr>now = 0, jar = [], shown = (\<lambda>i. False), label = (\<lambda>i. []), inputs = (\<lambda>i. None),
     checks = (\<lambda>i. Some False), panels = [], alerts = [], visits = [], opened = [], pending = [], errors = [],
     centerUrl = [], cryptoPassword = [], currentdir = JNum 0, currentpage = JNum 1, currentkind = ''*'',
     currentDelete = JNum 0, loginuser = JNum 1, iswindows = False, table = [], active_menu = None,
     usermessage = None, message_links = [], timezone = 0\<rparr>"

definition sample_row :: row where
  "sample_row = \<lparr>rw_title = ''a'', rw_hash = ''h'', rw_value = ''7'', rw_attr = True, rw_toggled = None,
     rw_icon = [], rw_link = StoreLink None ''h'', rw_size = [], rw_time = [], rw_controls = []\<rparr>"

lemma size_readable_witness: "dec_val (hd (split_on CHR '','' (size_text 1234567))) \<le> 1000"
  using size_readable [of 1234567] by blast

lemma list_shown_witness:
  "table (react (Deliver 0 blank_response) (blank_files\<lparr>table := [sample_row],
     pending := [session_request [] [] NoBody (FileListLoaded (JNum 1) ''*'' (JNum 0) (JNum 3)) blank_files]\<rparr>)) = []"
  using list_shown [of 0 "blank_files\<lparr>table := [sample_row],
     pending := [session_request [] [] NoBody (FileListLoaded (JNum 1) ''*'' (JNum 0) (JNum 3)) blank_files]\<rparr>"
     "JNum 1" "''*''" "JNum 0" "JNum 3" blank_response "[]"]
  by (simp add: session_request_def blank_response_def blank_files_def del: react.simps)

lemma delete_selected_witness:
  "deleteAll True (blank_files\<lparr>table := [sample_row]\<rparr>) =
     ajax (kill_request ''7'' 1 (blank_files\<lparr>table := [sample_row]\<rparr>)) (blank_files\<lparr>table := [sample_row]\<rparr>)"
proof -
  have "ids_ok (blank_files\<lparr>table := [sample_row]\<rparr>)" by (simp add: ids_ok_def sample_row_def)
  moreover have "selected (blank_files\<lparr>table := [sample_row]\<rparr>) = [sample_row]"
    by (simp add: selected_def checked_def sample_row_def)
  moreover have "\<not> loose_eq_str (currentDelete (blank_files\<lparr>table := [sample_row]\<rparr>)) (u ''1'')"
    by (simp add: blank_files_def string_to_number_digit)
  ultimately show ?thesis using delete_selected [of "blank_files\<lparr>table := [sample_row]\<rparr>"]
    by (simp add: sample_row_def [THEN arg_cong [of _ _ rw_value]])
qed

lemma select_all_witness:
  "map rw_value (selected (quanxuan True (blank_files\<lparr>table := [sample_row]\<rparr>))) = [''7'']"
  using select_all [of True "blank_files\<lparr>table := [sample_row]\<rparr>"] by (simp add: sample_row_def)


end
