(* ===== verification/FileIndexOwner.thy ===== *)
theory FileIndexOwner
  imports FileIndexProps
begin

text \<open>
  The file manager of a logged-in user: over every run in which answers arrive in the order of the
  requests, the label of the button that removes or restores says what the button does whenever no
  list is on its way; answers that overtake each other break this. Then the flows that take several
  requests: entering a folder and creating one in it, an upload, reading a message.
\<close>

section \<open>The view and its button\<close>

fun list_del :: "callback \<Rightarrow> jsval option" where
  "list_del (FileListLoaded pg kind del dir) = Some del"
| "list_del _ = None"

fun list_page :: "callback \<Rightarrow> jsval" where
  "list_page (FileListLoaded pg kind del dir) = pg"
| "list_page _ = JNum 1"

definition dels :: "callback list \<Rightarrow> jsval list" where
  "dels cs = List.map_filter list_del cs"

definition is_view :: "jsval \<Rightarrow> bool" where
  "is_view d \<longleftrightarrow> d = JNum 0 \<or> d = JNum 1"

definition delete_label :: "jsval \<Rightarrow> string" where
  "delete_label d = (if d = JNum 1 then ''restore selected'' else ''remove selected'')"

text \<open>The view that the last request for a list was made for.\<close>

definition latest :: "jsval \<Rightarrow> callback list \<Rightarrow> jsval" where
  "latest d cs = (if dels cs = [] then d else last (dels cs))"

fun is_reuse :: "control \<Rightarrow> bool" where
  "is_reuse (Reuse i) = True"
| "is_reuse _ = False"

definition no_reuse :: "row list \<Rightarrow> bool" where
  "no_reuse rows \<longleftrightarrow> list_all (\<lambda>r. \<not> list_ex is_reuse (rw_controls r)) rows"

definition owner :: "'a file_page_scheme \<Rightarrow> bool" where
  "owner p \<longleftrightarrow> loginuser p = JNum 1 \<and> currentpage p = JNum 1 \<and> checks p ''quanxuanCB'' \<noteq> None \<and>
     is_view (currentDelete p) \<and>
     (let cs = map rq_done (pending p) in
      list_all is_view (dels cs) \<and> list_all (\<lambda>c. list_page c = JNum 1) cs \<and>
      label p ''deleteBT'' = delete_label (latest (currentDelete p) cs) \<and>
      (shown p ''removeBT'' \<longleftrightarrow> latest (currentDelete p) cs = JNum 1) \<and>
      (dels cs \<noteq> [] \<or> currentDelete p = JNum 1 \<or> no_reuse (table p)))"

lemma dels_simps [simp]:
  "dels [] = []" "dels (c # cs) = (case list_del c of None \<Rightarrow> dels cs | Some d \<Rightarrow> d # dels cs)"
  "dels (cs @ ds) = dels cs @ dels ds"
  by (simp_all add: dels_def List.map_filter_def split: option.split)

lemma owner_frame:
  "loginuser q = loginuser p \<Longrightarrow> currentpage q = currentpage p \<Longrightarrow>
   checks q ''quanxuanCB'' = checks p ''quanxuanCB'' \<Longrightarrow> currentDelete q = currentDelete p \<Longrightarrow>
   label q ''deleteBT'' = label p ''deleteBT'' \<Longrightarrow> shown q ''removeBT'' = shown p ''removeBT'' \<Longrightarrow>
   map rq_done (pending q) = map rq_done (pending p) \<Longrightarrow>
   (no_reuse (table p) \<Longrightarrow> no_reuse (table q)) \<Longrightarrow> owner p \<Longrightarrow> owner q"
  by (simp add: owner_def Let_def) blast

lemma owner_ajax: "owner p \<Longrightarrow> list_del (rq_done r) = None \<Longrightarrow> owner (ajax r p)"
proof -
  assume a: "owner p" "list_del (rq_done r) = None"
  then have "list_page (rq_done r) = JNum 1" by (cases "rq_done r") simp_all
  with a show ?thesis by (simp add: owner_def ajax_def Let_def latest_def)
qed

lemma owner_list:
  assumes "loginuser p = JNum 1" "checks p ''quanxuanCB'' \<noteq> None" "currentpage p = JNum 1" "is_view del"
    "list_all is_view (dels (map rq_done (pending p)))"
    "list_all (\<lambda>c. list_page c = JNum 1) (map rq_done (pending p))"
  shows "owner (getFileList (JNum 1) kind del parent p)"
proof -
  have "loose_eq_num del 1 \<longleftrightarrow> del = JNum 1" using assms(4) by (auto simp: is_view_def)
  then show ?thesis using assms
    by (simp add: getFileList_def owner_def page_defs session_request_def delete_label_def latest_def
        loose_le_num_def Let_def list_all_iff)
qed

lemma owner_list_again: "owner p \<Longrightarrow> owner (getFileList (currentpage p) kind (currentDelete p) parent p)"
  using owner_list [of p "currentDelete p" kind parent] by (simp add: owner_def Let_def)

lemma owner_alert: "owner p \<Longrightarrow> owner (js_alert s p)" "owner p \<Longrightarrow> owner (goto s p)" "owner p \<Longrightarrow> owner (throw s p)"
  by (rule owner_frame [of _ p]; simp add: page_defs)+

lemma owner_panel: "owner p \<Longrightarrow> owner (show_panel i (prepend pn p))" "owner p \<Longrightarrow> owner (remove_panel i (hide_panel i p))"
  by (rule owner_frame [of _ p]; simp add: page_defs)+

lemma no_reuse_append [simp]: "no_reuse (rs @ ss) \<longleftrightarrow> no_reuse rs \<and> no_reuse ss"
  by (simp add: no_reuse_def)

lemma no_reuse_items: "\<not> loose_eq_num del 1 \<Longrightarrow> no_reuse (map (\<lambda>i. item_row w i del) items)"
  by (auto simp: no_reuse_def list_all_iff item_row_def Let_def)

lemma owner_messages: "owner (display_messages items p) = owner p" "owner (p\<lparr>usermessage := m\<rparr>) = owner p"
proof -
  show "owner (p\<lparr>usermessage := m\<rparr>) = owner p" by (simp add: owner_def)
  show "owner (display_messages items p) = owner p"
    by (induction items arbitrary: p) (simp_all add: displayMessage_def owner_def)
qed

lemma owner_text: "i \<noteq> ''deleteBT'' \<Longrightarrow> owner (set_text i s p) = owner p"
  by (simp add: owner_def set_text_def)

lemma owner_take: "owner p \<Longrightarrow> pending p = r # rs \<Longrightarrow> list_del (rq_done r) = None \<Longrightarrow> owner (take_request 0 p)"
  by (simp add: owner_def take_request_def Let_def latest_def)

lemma owner_display: "owner p \<Longrightarrow> owner (display_all items JUndefined p)"
  by (rule owner_frame [of _ p]) (simp_all add: table_display_all no_reuse_items)

lemma owner_anonymous: "owner p \<Longrightarrow> owner (anonymous_loaded k res p)"
  by (simp add: anonymous_loaded_def Let_def owner_alert owner_display split: option.split)

lemma owner_user_done: "owner p \<Longrightarrow> owner (user_done c res p)"
proof -
  have set: "owner (set_cookie n v d p)" if "owner p" for n v d and p :: "'a file_page_scheme"
    using that by (rule owner_frame [rotated -1]) (simp_all add: set_cookie_def)
  have del: "owner (del_cookie n p)" if "owner p" for n and p :: "'a file_page_scheme"
    using that by (rule owner_frame [rotated -1]) (simp_all add: del_cookie_def)
  assume "owner p"
  then show ?thesis
    by (cases c)
      (auto simp: logged_in_def code_sent_def logged_out_def info_loaded_def info_updated_def pswd_updated_def
        cancelPersonInfopanel_def cancelUpdatepswdpanel_def set del owner_alert owner_panel Let_def
        split: option.split)
qed

lemma owner_parent: "owner p \<Longrightarrow> rs_status res = 200 \<Longrightarrow> owner (parent_loaded res p)"
proof -
  assume a: "owner p" "rs_status res = 200"
  let ?q = "(set_text ''currentPage'' ''0'' (p\<lparr>table := []\<rparr>))\<lparr>currentdir := d\<rparr>"
  have "owner ((set_text ''currentPage'' ''0'' (p\<lparr>table := []\<rparr>))\<lparr>currentdir := d\<rparr>)" for d
    using a(1) by (rule owner_frame [rotated -1]) (simp_all add: set_text_def no_reuse_def)
  with a show ?thesis by (simp add: parent_loaded_def Let_def owner_alert owner_display split: option.split)
qed

lemma owner_stored: "owner p \<Longrightarrow> owner (file_stored n e k res p)"
proof -
  assume a: "owner p"
  have c: "owner (cancelUploadpanel p)" unfolding cancelUploadpanel_def using a by (rule owner_panel)
  then have "loginuser (cancelUploadpanel p) = JNum 1" by (simp add: owner_def)
  with a c show ?thesis
    by (simp add: file_stored_def Let_def owner_alert owner_ajax session_request_def)
qed

lemma owner_list_loaded:
  assumes p: "owner p" and r: "pending p = r # rs" "rq_done r = FileListLoaded pg kind del dir"
    and "rs_status res = 200"
  shows "owner (file_list_loaded pg kind del dir res (take_request 0 p))"
proof -
  have pg: "pg = JNum 1" and del: "is_view del"
    using p r by (simp_all add: owner_def Let_def)
  have latest: "latest (currentDelete p) (map rq_done (pending p)) = latest del (map rq_done rs)"
    using r by (simp add: latest_def)
  have reuse: "del = JNum 1 \<or> no_reuse (map (\<lambda>i. item_row w i del) items)" for w items
    using del no_reuse_items [of del w items] by (auto simp: is_view_def)
  obtain b where "checks p ''quanxuanCB'' = Some b" using p by (auto simp: owner_def)
  with p r assms(4) latest del pg reuse show ?thesis
    by (auto simp: file_list_loaded_def take_request_def table_display_all owner_def Let_def set_text_def
        no_reuse_def [of "[]"] split: option.split)
qed

lemma owner_done:
  assumes "owner p" "pending p = r # rs" "rs_status res = 200"
  shows "owner (file_done (rq_done r) res (take_request 0 p))"
proof (cases "list_del (rq_done r)")
  case (Some d)
  then obtain pg kind dir where c: "rq_done r = FileListLoaded pg kind d dir" by (cases "rq_done r") auto
  from owner_list_loaded [OF assms(1,2) c assms(3)] show ?thesis by (simp add: c)
next
  case None
  let ?q = "take_request 0 p"
  have q: "owner ?q" using assms(1,2) None by (rule owner_take)
  have m: "owner (messages_loaded res ?q)" "owner (message_read res ?q)"
    using q assms(3) by (simp_all add: messages_loaded_def message_read_def owner_text owner_messages split: option.split)
  have d: "owner (dir_created res ?q)"
    using q assms(3) owner_display [OF q, of "[the (rs_file res)]"]
    by (auto simp: dir_created_def cancelDirctionpanel_def intro!: owner_panel split: option.split)
  have k: "owner (killed res ?q)" "owner (file_recorded res ?q)" "owner (anonymous_left res ?q)"
    using q assms(3) by (simp_all add: killed_def file_recorded_def anonymous_left_def owner_list_again owner_alert)
  show ?thesis
    by (cases "rq_done r")
      (use None q m d k assms(3) owner_user_done [OF q] in
        \<open>simp_all add: owner_parent owner_stored owner_anonymous del: user_done.simps\<close>)
qed

section \<open>Runs of the user's page\<close>

text \<open>
  The runs in question: what the page offers, without leaving it (logout, anonymous mode), every
  answer with status 200 and for the oldest pending request.
\<close>

fun in_order :: "event \<Rightarrow> 'a file_page_scheme \<Rightarrow> bool" where
  "in_order (Deliver i res) p \<longleftrightarrow> i = 0 \<and> pending p \<noteq> [] \<and> rs_status res = 200"
| "in_order (Fail i) p \<longleftrightarrow> False"
| "in_order UseAnonymous p \<longleftrightarrow> False"
| "in_order (Logout b r) p \<longleftrightarrow> False"
| "in_order ev p \<longleftrightarrow> enabled ev p"

lemma owner_kill: "owner p \<Longrightarrow> owner (dokillItem i k p)"
  by (simp add: dokillItem_def owner_alert owner_ajax session_request_def split: option.split bool.split)

lemma owner_table:
  assumes "owner p" "map rw_controls t = map rw_controls (table p)"
  shows "owner (p\<lparr>table := t\<rparr>)"
proof -
  have "no_reuse t = no_reuse (table p)"
    using assms(2) unfolding no_reuse_def
    by (metis (no_types, lifting) list.pred_map list.pred_mono_strong comp_apply)
  with assms(1) show ?thesis by (simp add: owner_def)
qed

lemma owner_reuse:
  assumes "owner p" "row_control (Reuse i) p"
  shows "owner (p\<lparr>currentDelete := JNum 1\<rparr>)"
proof -
  have "\<not> no_reuse (table p)"
    using assms(2) by (force simp: row_control_def no_reuse_def list_ex_iff list_all_iff intro: is_reuse.simps(1) [THEN iffD2])
  then show ?thesis using assms(1) by (auto simp: owner_def Let_def latest_def is_view_def)
qed

lemma owner_download: "owner p \<Longrightarrow> owner (download_all hs p)"
proof (induction hs p rule: download_all.induct)
  case (2 hash title items p)
  have "owner (window_open s p)" for s
    using 2(2) by (rule owner_frame [rotated -1]) (simp_all add: page_defs)
  with 2 show ?case by (simp add: owner_alert)
qed simp

lemma owner_open:
  assumes p: "owner p" and del: "is_view del"
  shows "owner (openFileList kind del parent bt p)"
proof -
  define q where "q = js_show ''deleteBT'' (js_show ''newdirBT'' (js_show ''rubbishUI''
    (p\<lparr>active_menu := Some bt, currentDelete := del\<rparr>)))"
  have "owner (getFileList (JNum 1) kind del parent q)"
    using p del by (intro owner_list) (simp_all add: q_def page_defs owner_def Let_def)
  moreover have "openFileList kind del parent bt p = getFileList (JNum 1) kind del parent q"
    using p by (simp add: openFileList_def q_def owner_def Let_def) (simp add: page_defs)
  ultimately show ?thesis by simp
qed

lemma owner_open_message: "owner p \<Longrightarrow> owner (openMessage i p)"
proof -
  assume "owner p"
  then have "owner (set_text ''messageLength'' [] (p\<lparr>message_links := []\<rparr>))"
    by (simp add: owner_text) (simp add: owner_def)
  then show ?thesis
    by (simp add: openMessage_def Let_def owner_alert owner_ajax owner_panel session_request_def
        split: option.split list.split)
qed

lemma owner_step:
  assumes p: "owner p" and ok: "in_order ev p"
  shows "owner (react ev p)"
proof (cases ev)
  case (Deliver i res)
  with ok obtain r rs where "i = 0" "pending p = r # rs" "rs_status res = 200"
    by (cases "pending p") auto
  with owner_done [OF p, of r rs res] Deliver show ?thesis by simp
next
  case (OpenFileList kind del parent bt)
  with ok show ?thesis by (auto simp: is_view_def intro!: owner_open [OF p])
next
  case (ReuseItem b i)
  with ok p show ?thesis by (simp add: reuseItem_def owner_kill owner_reuse)
next
  case (Toggle i)
  have "map rw_controls ((table p)[i := (table p ! i)\<lparr>rw_toggled := t\<rparr>]) = map rw_controls (table p)"
      if "i < length (table p)" for t
    using that by (simp add: map_update list_update_same_conv)
  with Toggle p show ?thesis by (simp add: toggle_def owner_table)
next
  case (SelectAll b)
  with p show ?thesis by (simp add: quanxuan_def owner_table)
qed (use p ok in \<open>simp_all add: openThisFile_def owner_list_again owner_open_message cancelMessagepanel_def
      owner_panel newDirctionary_def createNewDir_def owner_ajax session_request_def cancelDirctionpanel_def
      backparentdir_def owner_alert killItem_def owner_kill removeAll_def deleteAll_def batchDownload_def
      owner_download uploadfile_def doUploadfile_def cancelUploadpanel_def Let_def\<close>)

interpretation own: page react owner in_order
  by standard (rule owner_step)

lemma init_owner:
  assumes "loose_eq_num (loginuser p) 1" "index_of 63 search = - 1" "loginuser p = JNum 1"
    "currentDelete p = JNum 0" "currentpage p = JNum 1" "checks p ''quanxuanCB'' \<noteq> None" "pending p = []"
  shows "owner (init search agent p)"
proof -
  define q where "q = myMessage p"
  have "owner (getFileList (JNum 1) (currentkind q) (JNum 0) (JNum 0) q)"
    using assms by (intro owner_list)
      (simp_all add: q_def myMessage_def page_defs is_view_def session_request_def Let_def)
  then have "owner ((getFileList (JNum 1) (currentkind q) (JNum 0) (JNum 0) q)\<lparr>iswindows := w\<rparr>)" for w
    by (rule owner_frame [rotated -1]) simp_all
  moreover have "currentDelete q = JNum 0" "currentpage q = JNum 1"
    using assms(4,5) by (simp_all add: q_def myMessage_def page_defs Let_def)
  ultimately show ?thesis
    using assms(2,3) \<open>owner (getFileList _ _ _ _ _)\<close> by (simp add: init_def Let_def flip: q_def)
qed


text \<open>What a request for a list and its answer change, field by field.\<close>

lemma list_requested:
  assumes "\<not> loose_le_num pg 0"
  shows "pending (getFileList pg kind del parent p) = pending p @
      [session_request ''get'' (centerUrl p @ ''/api/file/mine'')
        (Query [(''kind'', JStr (u kind)), (''delete'', del),
          (''parentid'', if loose_le_num parent 0 then JNum 0 else parent)])
        (FileListLoaded pg kind del (if loose_le_num parent 0 then JNum 0 else parent)) p]"
    and "currentDelete (getFileList pg kind del parent p) = del"
    and "label (getFileList pg kind del parent p) ''deleteBT'' =
      (if loose_eq_num del 1 then ''restore selected'' else ''remove selected'')"
    and "shown (getFileList pg kind del parent p) ''removeBT'' = loose_eq_num del 1"
    and "checks (getFileList pg kind del parent p) = checks p"
    and "loginuser (getFileList pg kind del parent p) = loginuser p"
    and "currentdir (getFileList pg kind del parent p) = currentdir p"
  using assms by (simp_all add: getFileList_def page_defs session_request_def cookie_def Let_def)

lemma ex_not: "\<exists>y. \<not> y"
  by (rule exI [of _ False]) simp

lemma list_answered:
  assumes "checks p ''quanxuanCB'' \<noteq> None" "rs_status res = 200"
  shows "currentDelete (file_list_loaded pg kind del dir res p) = del"
    and "currentdir (file_list_loaded pg kind del dir res p) = dir"
    and "label (file_list_loaded pg kind del dir res p) ''deleteBT'' = label p ''deleteBT''"
    and "shown (file_list_loaded pg kind del dir res p) = shown p"
    and "pending (file_list_loaded pg kind del dir res p) = pending p"
    and "checks (file_list_loaded pg kind del dir res p) ''quanxuanCB'' \<noteq> None"
proof -
  obtain b where "checks p ''quanxuanCB'' = Some b" using assms(1) by auto
  then show "currentDelete (file_list_loaded pg kind del dir res p) = del"
    "currentdir (file_list_loaded pg kind del dir res p) = dir"
    "label (file_list_loaded pg kind del dir res p) ''deleteBT'' = label p ''deleteBT''"
    "shown (file_list_loaded pg kind del dir res p) = shown p"
    "pending (file_list_loaded pg kind del dir res p) = pending p"
    "checks (file_list_loaded pg kind del dir res p) ''quanxuanCB'' \<noteq> None"
    using assms(2) by (simp_all add: file_list_loaded_def table_display_all set_text_def Let_def ex_not split: option.split)
qed

lemma take_request_fields [simp]:
  "currentDelete (take_request i p) = currentDelete p" "label (take_request i p) = label p"
  "shown (take_request i p) = shown p" "checks (take_request i p) = checks p"
  "loginuser (take_request i p) = loginuser p" "currentdir (take_request i p) = currentdir p"
  "pending (take_request i p) = take i (pending p) @ drop (Suc i) (pending p)"
  by (simp_all add: take_request_def)

lemma rq_done_session [simp]: "rq_done (session_request m path b c p) = c"
  by (simp add: session_request_def)

lemma menu_opened:
  assumes "loginuser p = JNum 1"
  obtains q where "openFileList kind del parent bt p = getFileList (JNum 1) kind del parent q"
    "loginuser q = JNum 1" "checks q = checks p" "pending q = pending p"
  using assms by (intro that [of "js_show ''deleteBT'' (js_show ''newdirBT'' (js_show ''rubbishUI''
    (p\<lparr>active_menu := Some bt, currentDelete := del\<rparr>)))"]) (simp_all add: openFileList_def Let_def, simp_all add: page_defs)

lemma page_one: "\<not> loose_le_num (JNum 1) 0" "loose_le_num (JNum (- 1)) 0"
  by (simp_all add: loose_le_num_def)

lemmas first_page = page_one list_requested [OF page_one(1)]

text \<open>
  C11: answers that overtake each other break this. When the user opens the trash and
  then all files, and the answer for the trash comes last, the table and the view are those of the
  trash, so the button restores while it says "remove selected", and the button to remove for ever
  is not offered.
\<close>

theorem overtaken_list:
  assumes "loginuser p = JNum 1" "checks p ''quanxuanCB'' \<noteq> None" "pending p = []"
    and "rs_status files = 200" "rs_status trash = 200"
    and q: "q = own.run [OpenFileList ''*'' (JNum 1) (JNum (- 1)) ''rubbishUI'',
      OpenFileList ''*'' (JNum 0) (JNum (- 1)) ''allfileBT'', Deliver 1 files, Deliver 0 trash] p"
  shows "currentDelete q = JNum 1 \<and> label q ''deleteBT'' = ''remove selected'' \<and> \<not> shown q ''removeBT''"
proof -
  define p1 where "p1 = react (OpenFileList ''*'' (JNum 1) (JNum (- 1)) ''rubbishUI'') p"
  define p2 where "p2 = react (OpenFileList ''*'' (JNum 0) (JNum (- 1)) ''allfileBT'') p1"
  obtain q1 where q1: "p1 = getFileList (JNum 1) ''*'' (JNum 1) (JNum (- 1)) q1" "loginuser q1 = JNum 1"
    "checks q1 = checks p" "pending q1 = pending p"
    using assms(1) unfolding p1_def react.simps by (rule menu_opened)
  have p1: "loginuser p1 = JNum 1" "checks p1 = checks p"
    "map rq_done (pending p1) = [FileListLoaded (JNum 1) ''*'' (JNum 1) (JNum 0)]"
    unfolding q1(1) using q1 assms(3) by (simp_all add: first_page)
  obtain q2 where q2: "p2 = getFileList (JNum 1) ''*'' (JNum 0) (JNum (- 1)) q2" "loginuser q2 = JNum 1"
    "checks q2 = checks p1" "pending q2 = pending p1"
    using p1(1) unfolding p2_def react.simps by (rule menu_opened)
  have p2: "checks p2 = checks p" "label p2 ''deleteBT'' = ''remove selected''" "\<not> shown p2 ''removeBT''"
    "map rq_done (pending p2) = [FileListLoaded (JNum 1) ''*'' (JNum 1) (JNum 0), FileListLoaded (JNum 1) ''*'' (JNum 0) (JNum 0)]"
    unfolding q2(1) using q2 p1 by (simp_all add: first_page)
  then obtain r1 r2 where r: "pending p2 = [r1, r2]" "rq_done r1 = FileListLoaded (JNum 1) ''*'' (JNum 1) (JNum 0)"
    "rq_done r2 = FileListLoaded (JNum 1) ''*'' (JNum 0) (JNum 0)"
    by (auto simp: map_eq_Cons_conv)
  define p3 where "p3 = react (Deliver 1 files) p2"
  have p3: "p3 = file_list_loaded (JNum 1) ''*'' (JNum 0) (JNum 0) files (take_request 1 p2)"
    using r by (simp add: p3_def)
  have c3: "checks (take_request 1 p2) ''quanxuanCB'' \<noteq> None" using p2(1) assms(2) by simp
  note f3 = list_answered [OF c3 assms(4)]
  have "q = file_list_loaded (JNum 1) ''*'' (JNum 1) (JNum 0) trash (take_request 0 p3)"
  proof -
    have "q = react (Deliver 0 trash) p3" by (simp only: q own.run.simps p3_def p2_def p1_def)
    moreover have "pending p3 = [r1]" using f3(5) r(1) by (simp add: p3)
    ultimately show ?thesis using r(2) by simp
  qed
  moreover have c4: "checks (take_request 0 p3) ''quanxuanCB'' \<noteq> None" using f3(6) by (simp add: p3)
  ultimately show ?thesis using list_answered [OF c4 assms(5)] f3 p2 by (simp add: p3)
qed

section \<open>Folders and uploads\<close>

lemma chars_of_units [simp]: "map (char_of \<circ> (of_char :: char \<Rightarrow> nat)) s = s"
  by (induction s) simp_all

lemma dir_chars: "char_of (100 :: nat) = CHR ''d''" "char_of (105 :: nat) = CHR ''i''" "char_of (114 :: nat) = CHR ''r''"
  by code_simp+

lemma object_parsed: "json_parse (object_text ps) = Some (JSObj (stringify_vals ps))"
  by (simp only: object_text_def json_parse_stringify)

lemma folder_id_positive: "0 < k \<Longrightarrow> \<not> loose_le_num (JStr (u (dec k))) 0"
  by (simp add: loose_le_num_def string_to_number_dec)

text \<open>
  After the user has entered the folder with id \<open>k\<close> and its list has arrived,
  a new folder is created in it: the body of the request parses to an object with the typed name,
  the kind of a folder and the parent \<open>k\<close> (as a string, where the root is the number 0).
\<close>

theorem folder_created_here:
  assumes "pending p = []" "currentpage p = JNum 1" "checks p ''quanxuanCB'' \<noteq> None" "rs_status res = 200" "0 < k"
    and q: "q = own.run [OpenFile (JStr (u (dec k))), Deliver 0 res, CreateDir name] p"
  shows "\<exists>body. map rq_body (pending q) = [JsonText body]
    \<and> json_parse body = Some (JSObj [(''title'', JSString name), (''kind'', JSString ''dir''),
        (''ext'', JSString ''dir''), (''delete'', JSInt 0), (''parent_id'', JSString (dec k))])"
proof -
  define p1 where "p1 = react (OpenFile (JStr (u (dec k)))) p"
  have p1: "p1 = getFileList (JNum 1) (currentkind p) (currentDelete p) (JStr (u (dec k))) p"
    by (simp add: p1_def openThisFile_def assms(2))
  define p2 where "p2 = react (Deliver 0 res) p1"
  have p2: "p2 = file_list_loaded (JNum 1) (currentkind p) (currentDelete p) (JStr (u (dec k))) res (take_request 0 p1)"
    using folder_id_positive [OF assms(5)] assms(1) by (simp add: p2_def p1 first_page)
  have "checks (take_request 0 p1) ''quanxuanCB'' \<noteq> None"
    using assms(3) by (simp add: p1 first_page)
  note f = list_answered [OF this assms(4)]
  have "pending p2 = []" "currentdir p2 = JStr (u (dec k))"
    using f assms(1) by (simp_all add: p2 p1 first_page)
  moreover have "q = createNewDir name p2" by (simp add: q p2_def p1_def)
  ultimately show ?thesis
    by (simp add: createNewDir_def session_request_def ajax_def object_parsed dir_chars)
qed

text \<open>
  C9: an upload of a logged-in user in folder \<open>k\<close> takes three requests. The file goes to
  the store; when the store answers with its hash and size, they are recorded under the base name,
  the kind and the extension of the chosen path in folder \<open>k\<close> (a number); when that is done, the
  list of folder \<open>k\<close> is asked for again.
\<close>

theorem upload_flow:
  assumes "pending p = []" "loginuser p = JNum 1" "currentdir p = JStr (u (dec k))" "0 < k" "currentpage p = JNum 1"
    and "rs_code stored = 0" "rs_status recorded = 200"
  shows "map rq_url (pending (own.run [DoUpload path f] p)) = [''/store/addfile'']
    \<and> (\<exists>body. map rq_body (pending (own.run [DoUpload path f, Deliver 0 stored] p)) = [JsonText body]
      \<and> json_parse body = Some (JSObj [(''title'', JSString (after_last CHR 0x5C path)),
          (''kind'', JSString (getFileKind (getFileExt path))), (''ext'', JSString (getFileExt path)),
          (''delete'', JSInt 0), (''parent_id'', JSInt (int k)),
          (''hash_code'', JSString (rs_hashname stored)), (''size'', JSInt (int (rs_size stored)))]))
    \<and> map rq_done (pending (own.run [DoUpload path f, Deliver 0 stored, Deliver 0 recorded] p)) =
      [FileListLoaded (JNum 1) (currentkind p) (currentDelete p) (JStr (u (dec k)))]"
proof -
  define p1 where "p1 = react (DoUpload path f) p"
  define p2 where "p2 = react (Deliver 0 stored) p1"
  have p1: "map rq_url (pending p1) = [''/store/addfile'']"
    "map rq_done (pending p1) = [FileStored (base_name path) (getFileExt path) (getFileKind (getFileExt path))]"
    "loginuser p1 = JNum 1" "currentdir p1 = currentdir p" "currentpage p1 = JNum 1"
    "currentkind p1 = currentkind p" "currentDelete p1 = currentDelete p"
    using assms(1,2,5) by (simp_all add: p1_def doUploadfile_def session_request_def ajax_def Let_def)
  define p1' where "p1' = cancelUploadpanel (take_request 0 p1)"
  have c: "pending p1' = []" "loginuser p1' = JNum 1" "currentdir p1' = currentdir p" "currentpage p1' = JNum 1"
    "currentkind p1' = currentkind p" "currentDelete p1' = currentDelete p"
    using p1 by (auto simp: p1'_def cancelUploadpanel_def page_defs take_request_def map_eq_Cons_conv)
  have "p2 = file_stored (base_name path) (getFileExt path) (getFileKind (getFileExt path)) stored (take_request 0 p1)"
    using p1(2) by (auto simp: p2_def)
  then have p2: "p2 = ajax (session_request ''post'' (centerUrl p1' @ ''/api/file/createDir'')
      (JsonText (object_text [(''title'', JStr (u (base_name path))), (''kind'', JStr (u (getFileKind (getFileExt path)))),
        (''ext'', JStr (u (getFileExt path))), (''delete'', JNum 0), (''parent_id'', JNum (int k)),
        (''hash_code'', JStr (u (rs_hashname stored))), (''size'', JNum (int (rs_size stored)))])) FileRecorded p1') p1'"
    using c assms(3,6) by (simp add: file_stored_def parse_int_dec Let_def p1'_def [symmetric] del: parse_int.simps)
  define p3 where "p3 = react (Deliver 0 recorded) p2"
  have "p3 = getFileList (JNum 1) (currentkind p) (currentDelete p) (JStr (u (dec k))) (take_request 0 p2)"
    using c assms(3,7) by (simp add: p3_def p2 file_recorded_def ajax_def take_request_def)
  then have p3: "map rq_done (pending p3) =
      [FileListLoaded (JNum 1) (currentkind p) (currentDelete p) (JStr (u (dec k)))]"
    using folder_id_positive [OF assms(4)] c by (simp add: p2 ajax_def first_page)
  have "map rq_body (pending p2) = [JsonText (object_text [(''title'', JStr (u (base_name path))),
        (''kind'', JStr (u (getFileKind (getFileExt path)))),
        (''ext'', JStr (u (getFileExt path))), (''delete'', JNum 0), (''parent_id'', JNum (int k)),
        (''hash_code'', JStr (u (rs_hashname stored))), (''size'', JNum (int (rs_size stored)))])]"
    using c by (simp add: p2 ajax_def session_request_def)
  with p1(1) p3 show ?thesis
    unfolding own.run.simps p1_def [symmetric] p2_def [symmetric] p3_def [symmetric]
    by (simp add: object_parsed base_name_def slice_after_last)
qed

section \<open>Messages\<close>

text \<open>
  Once the messages have arrived, each has a link, the counter shows their number,
  and opening one shows a panel with the title and content of the first message of that id, and
  tells the server that it has been read; the other links are gone until the server answers.
\<close>

theorem message_opened:
  assumes "pending p = []" "rs_status res \<noteq> 500" "rs_messages res = Some (ms @ m # ms')"
    and "ms_id m \<notin> ms_id ` set ms" "message_links p = []"
    and q: "q = messages_loaded res p"
  shows "message_links q = map (\<lambda>m. (ms_id m, ms_title m)) (ms @ m # ms')
    \<and> label q ''messageLength'' = dec (length ms + 1 + length ms')
    \<and> panels (openMessage (ms_id m) q) =
        \<lparr>pn_id = ''message-layer'', pn_shown = True, pn_texts = [ms_title m, ms_content m], pn_inputs = []\<rparr> # panels p
    \<and> message_links (openMessage (ms_id m) q) = []
    \<and> map rq_url (pending (openMessage (ms_id m) q)) =
        [centerUrl p @ ''/api/message/readed/'' @ int_str (ms_id m)]"
proof -
  have disp: "display_messages xs q = q\<lparr>message_links := message_links q @ map (\<lambda>m. (ms_id m, ms_title m)) xs\<rparr>"
      for xs and q :: "'a file_page_scheme"
    by (induction xs arbitrary: q) (simp_all add: displayMessage_def)
  have "\<forall>x \<in> set ms. ms_id x \<noteq> ms_id m" using assms(4) by (metis image_eqI)
  then have "dropWhile (\<lambda>x. ms_id x \<noteq> ms_id m) (ms @ m # ms') = m # ms'"
    by (simp add: dropWhile_append2)
  with assms show ?thesis
    by (simp add: messages_loaded_def disp openMessage_def message_panel_def page_defs session_request_def Let_def)
qed

section \<open>The properties on concrete pages\<close>


lemma overtaken_list_witness:
  "label (own.run [OpenFileList ''*'' (JNum 1) (JNum (- 1)) ''rubbishUI'',
      OpenFileList ''*'' (JNum 0) (JNum (- 1)) ''allfileBT'', Deliver 1 blank_response, Deliver 0 blank_response] blank_files)
     ''deleteBT'' = ''remove selected''"
  using overtaken_list [OF _ _ _ _ _ refl, of blank_files blank_response blank_response]
  by (simp add: blank_files_def blank_response_def del: own.run.simps)

lemma folder_created_here_witness:
  "\<exists>body. map rq_body (pending (own.run [OpenFile (JStr (u (dec 7))), Deliver 0 blank_response, CreateDir ''n''] blank_files))
     = [JsonText body]"
  using folder_created_here [OF _ _ _ _ _ refl, of blank_files blank_response 7 "''n''"]
  by (auto simp: blank_files_def blank_response_def simp del: own.run.simps)

lemma upload_flow_witness:
  "map rq_url (pending (own.run [DoUpload ''a.png'' None] (blank_files\<lparr>currentdir := JStr (u (dec 7))\<rparr>))) = [''/store/addfile'']"
  using upload_flow [of "blank_files\<lparr>currentdir := JStr (u (dec 7))\<rparr>" 7 blank_response blank_response "''a.png''" None]
  by (simp add: blank_files_def blank_response_def del: own.run.simps)

lemma message_opened_witness:
  "message_links (messages_loaded (blank_response\<lparr>rs_messages := Some [\<lparr>ms_id = 3, ms_title = ''t'', ms_content = ''c''\<rparr>]\<rparr>) blank_files)
     = [(3, ''t'')]"
  using message_opened [OF _ _ _ _ _ refl, of blank_files "blank_response\<lparr>rs_messages := Some [\<lparr>ms_id = 3, ms_title = ''t'', ms_content = ''c''\<rparr>]\<rparr>"
    "[]" "\<lparr>ms_id = 3, ms_title = ''t'', ms_content = ''c''\<rparr>" "[]"]
  by (simp add: blank_files_def blank_response_def)

end
