(* ===== verification/UploadData.thy ===== *)
theory UploadData
  imports GVerify
begin

text \<open>
  The settings of an upload (\<open>jquery.fileupload.js\<close>): the options of the widget, what the browser
  supports, the parameter names, form data, headers and body of a request, the choice between XHR,
  chunked and iframe uploads, and the small helpers (totals, \<open>Range\<close> header, bit rate, regular
  expression options). A numeric option is 0 where it is undefined or null: the code tests them all
  for truth. A string option is empty in the same sense.
\<close>

section \<open>Files, options and the browser\<close>

record upload_file =
  f_name :: string
  f_size :: "nat option"  \<comment> \<open>undefined for the pseudo file of an old browser\<close>
  f_type :: string
  f_class :: string  \<comment> \<open>\<open>File\<close>, \<open>Blob\<close> or \<open>Object\<close>, as \<open>_isInstanceOf\<close> sees it\<close>
  f_uploadName :: string
  f_relativePath :: string

record support =
  sp_fileInput :: bool
  sp_xhrFileUpload :: bool
  sp_xhrFormDataFileUpload :: bool
  sp_blobSlice :: bool

datatype params = ParamUndefined | ParamName string | ParamNames "string list"

datatype form_data =
  FormFunction  \<comment> \<open>the default: the fields of the form\<close>
| FormArray "(string \<times> string) list"
| FormObject "(string \<times> string) list"
| FormDataObject "(string \<times> string) list"  \<comment> \<open>a \<open>FormData\<close> object and its entries\<close>
| FormNothing

record upload_options =
  replaceFileInput :: bool
  paramName :: params
  singleFileUploads :: bool
  limitMultiFileUploads :: nat
  limitMultiFileUploadSize :: nat
  limitMultiFileUploadSizeOverhead :: nat
  sequentialUploads :: bool
  limitConcurrentUploads :: nat
  forceIframeTransport :: bool
  redirect :: string
  redirectParamName :: string
  postMessage :: string
  multipart :: bool
  maxChunkSize :: nat
  uploadedBytes :: nat
  recalculateProgress :: bool
  progressInterval :: int
  bitrateInterval :: int
  autoUpload :: bool
  formData :: form_data
  disabled :: bool

definition default_upload_options :: upload_options where
  "default_upload_options =
     \<lparr>replaceFileInput = True, paramName = ParamUndefined, singleFileUploads = True,
      limitMultiFileUploads = 0, limitMultiFileUploadSize = 0, limitMultiFileUploadSizeOverhead = 512,
      sequentialUploads = False, limitConcurrentUploads = 0, forceIframeTransport = False, redirect = [],
      redirectParamName = [], postMessage = [], multipart = True, maxChunkSize = 0, uploadedBytes = 0,
      recalculateProgress = True, progressInterval = 100, bitrateInterval = 500, autoUpload = True,
      formData = FormFunction, disabled = False\<rparr>"

text \<open>The translation of a message: the first occurrence of each \<open>{key}\<close> is replaced.\<close>

fun replace_first :: "string \<Rightarrow> string \<Rightarrow> string \<Rightarrow> string" where
  "replace_first pat val [] = (if pat = [] then val else [])"
| "replace_first pat val (c # cs) =
     (if take (length pat) (c # cs) = pat then val @ drop (length pat) (c # cs)
      else c # replace_first pat val cs)"

definition i18n :: "(string \<times> string) list \<Rightarrow> string \<Rightarrow> (string \<times> string) list \<Rightarrow> string" where
  "i18n messages message ctxt =
     (let m = (case map_of messages message of Some t \<Rightarrow> (if t = [] then message else t) | None \<Rightarrow> message)
      in foldl (\<lambda>m (key, val). replace_first (''{'' @ key @ ''}'') val m) m ctxt)"

definition isXHRUpload :: "support \<Rightarrow> 'a upload_options_scheme \<Rightarrow> bool" where
  "isXHRUpload sp opt \<longleftrightarrow>
     \<not> forceIframeTransport opt \<and>
     (\<not> multipart opt \<and> sp_xhrFileUpload sp \<or> sp_xhrFormDataFileUpload sp)"

text \<open>
  \<open>ffields\<close> are the serialized fields of the form. A \<open>FormData\<close> object does not come here: it is
  only used by the multipart request, which takes its entries itself.
\<close>

definition getFormData :: "(string \<times> string) list \<Rightarrow> 'a upload_options_scheme \<Rightarrow> (string \<times> string) list" where
  "getFormData ffields opt =
     (case formData opt of
        FormFunction \<Rightarrow> ffields
      | FormArray fs \<Rightarrow> fs
      | FormObject fs \<Rightarrow> fs
      | FormDataObject fs \<Rightarrow> []
      | FormNothing \<Rightarrow> [])"

text \<open>\<open>file.size || 1\<close>.\<close>

definition size_or_one :: "upload_file \<Rightarrow> nat" where
  "size_or_one f = (case f_size f of None \<Rightarrow> 1 | Some n \<Rightarrow> if n = 0 then 1 else n)"

fun getTotal :: "upload_file list \<Rightarrow> nat" where
  "getTotal [] = 0"
| "getTotal (f # fs) = size_or_one f + getTotal fs"

section \<open>The bit rate\<close>

text \<open>
  Bits per second. The rate is exact where the source rounds to doubles; two events in the same
  millisecond give an infinite rate, or NaN when nothing was loaded in between.
\<close>

datatype rate = Rate rat | InfRate bool | NaNRate

definition rate_true :: "rate \<Rightarrow> bool" where
  "rate_true r \<longleftrightarrow> r \<noteq> Rate 0 \<and> r \<noteq> NaNRate"

record bitrate_timer =
  timestamp :: int
  bt_loaded :: int
  bitrate :: rate

definition new_timer :: "int \<Rightarrow> bitrate_timer" where
  "new_timer now = \<lparr>timestamp = now, bt_loaded = 0, bitrate = Rate 0\<rparr>"

definition rate_of :: "int \<Rightarrow> int \<Rightarrow> rate" where
  "rate_of diff timeDiff =
     (if timeDiff = 0 then (if diff = 0 then NaNRate else InfRate (0 < diff))
      else Rate (of_int diff * (1000 / of_int timeDiff) * 8))"

definition getBitrate :: "int \<Rightarrow> int \<Rightarrow> int \<Rightarrow> bitrate_timer \<Rightarrow> rate \<times> bitrate_timer" where
  "getBitrate now loaded interval t =
     (let timeDiff = now - timestamp t in
      if \<not> rate_true (bitrate t) \<or> interval = 0 \<or> timeDiff > interval
      then let r = rate_of (loaded - bt_loaded t) timeDiff
           in (r, \<lparr>timestamp = now, bt_loaded = loaded, bitrate = r\<rparr>)
      else (bitrate t, t))"

section \<open>Parameter names\<close>

text \<open>A file input with its name and its files; \<open>None\<close> where the browser has no file list.\<close>

record file_input =
  in_name :: string
  in_files :: "upload_file list option"
  in_value :: string

definition input_name :: "file_input \<Rightarrow> string" where
  "input_name i = (if in_name i = [] then ''files[]'' else in_name i)"

definition getParamName :: "file_input list \<Rightarrow> params \<Rightarrow> string list" where
  "getParamName inputs p =
     (let names = concat (map (\<lambda>i. replicate (case in_files i of Some fs \<Rightarrow> length fs | None \<Rightarrow> 1) (input_name i)) inputs);
          collected = (if names = [] then [case inputs of [] \<Rightarrow> ''files[]'' | i # _ \<Rightarrow> input_name i] else names)
      in case p of
           ParamUndefined \<Rightarrow> collected
         | ParamName n \<Rightarrow> (if n = [] then collected else [n])
         | ParamNames ns \<Rightarrow> ns)"

section \<open>The settings of a request\<close>

datatype part =
  TextPart string
| FilePart upload_file
| SlicePart upload_file nat nat  \<comment> \<open>bytes from, up to and without\<close>

datatype payload =
  RawBody part
| MultipartBody "(string \<times> part \<times> string) list"  \<comment> \<open>name, value and file name\<close>
| PostMessageBody "(string \<times> part) list"

record upload_form =
  fm_action :: string
  fm_method :: string
  fm_charset :: "string option"
  fm_fields :: "(string \<times> string) list"

record settings = upload_options +
  files :: "upload_file list"
  names :: "string list"  \<comment> \<open>\<open>paramName\<close>, once it has been determined\<close>
  form :: "upload_form option"
  url :: string
  req_type :: string
  charset :: "string option"
  headers :: "(string \<times> string) list"
  blob :: "(nat \<times> nat) option"
  contentRange :: string
  contentType :: "string option"
  dataType :: string
  data :: "payload option"
  iframe_data :: "(string \<times> string) list"

definition put_header :: "string \<Rightarrow> string \<Rightarrow> (string \<times> string) list \<Rightarrow> (string \<times> string) list" where
  "put_header k v hs = (if k \<in> fst ` set hs then map (\<lambda>(a, b). if a = k then (a, v) else (a, b)) hs else hs @ [(k, v)])"

text \<open>The elements of a list with their indices, as \<open>$.each\<close> passes them.\<close>

definition enumerated :: "'a list \<Rightarrow> (nat \<times> 'a) list" where
  "enumerated xs = zip [0..<length xs] xs"

lemma enumerated_snoc: "enumerated (xs @ [x]) = enumerated xs @ [(length xs, x)]"
  by (simp add: enumerated_def)

lemma map_snd_enumerated [simp]: "map snd (enumerated xs) = xs"
  by (simp add: enumerated_def)

lemma map_of_replace:
  "map_of (map (\<lambda>(a, b). if a = k then (a, v) else (a, b)) hs) j =
     (if j = k then map_option (\<lambda>b. v) (map_of hs k) else map_of hs j)"
  by (induction hs) (auto split: prod.split)

lemma map_of_put_header: "map_of (put_header k v hs) j = (if j = k then Some v else map_of hs j)"
proof (cases "map_of hs k")
  case None
  then have "k \<notin> fst ` set hs" by (simp add: map_of_eq_None_iff)
  with None show ?thesis by (simp add: put_header_def map_add_def split: option.split)
next
  case (Some w)
  then have "k \<in> fst ` set hs" by (metis map_of_eq_None_iff option.distinct(1))
  with Some show ?thesis by (simp add: put_header_def map_of_replace)
qed

text \<open>\<open>encodeURI\<close>: letters, digits and the marks of a URI stay, other characters become the
  percent-encoded bytes of their UTF-8 form.\<close>

definition hex_upper :: "nat \<Rightarrow> char" where
  "hex_upper n = char_of (if n < 10 then n + 48 else n + 55)"

definition percent :: "nat \<Rightarrow> string" where
  "percent b = [CHR ''%'', hex_upper (b div 16), hex_upper (b mod 16)]"

definition uri_char :: "char \<Rightarrow> bool" where
  "uri_char c \<longleftrightarrow>
     (let n = of_char c :: nat in 48 \<le> n \<and> n \<le> 57 \<or> 65 \<le> n \<and> n \<le> 90 \<or> 97 \<le> n \<and> n \<le> 122) \<or>
     c \<in> set '';,/?:@&=+$-_.!~*()#'' \<or> c = CHR 0x27"

definition encodeURI :: "string \<Rightarrow> string" where
  "encodeURI s = concat (map (\<lambda>c. if uri_char c then [c]
     else let n = of_char c :: nat in
          if n < 128 then percent n else percent (192 + n div 64) @ percent (128 + n mod 64)) s)"

definition file_part :: "settings \<Rightarrow> upload_file \<Rightarrow> part" where
  "file_part s f = (case blob s of Some (lo, hi) \<Rightarrow> SlicePart f lo hi | None \<Rightarrow> FilePart f)"

text \<open>\<open>(isArray(paramName) && paramName[index]) || paramName[0]\<close>.\<close>

definition name_at :: "string list \<Rightarrow> nat \<Rightarrow> string" where
  "name_at ns i = (if i < length ns \<and> ns ! i \<noteq> [] then ns ! i else hd ns)"

fun named_files :: "string list \<Rightarrow> nat \<Rightarrow> upload_file list \<Rightarrow> (string \<times> upload_file) list" where
  "named_files ns i [] = []"
| "named_files ns i (f # fs) = (name_at ns i, f) # named_files ns (Suc i) fs"

definition form_fields :: "settings \<Rightarrow> (string \<times> string) list" where
  "form_fields s = (case form s of None \<Rightarrow> [] | Some f \<Rightarrow> fm_fields f)"

text \<open>
  An array or \<open>FormData\<close> object given as \<open>formData\<close> keeps what is appended to it; requests that share
  one are not modelled.
\<close>

definition initXHRData :: "support \<Rightarrow> settings \<Rightarrow> settings" where
  "initXHRData sp s =
     (let file = hd (files s);
          multi = (multipart s \<or> \<not> sp_xhrFileUpload sp);
          h1 = (if contentRange s = [] then headers s else put_header ''Content-Range'' (contentRange s) (headers s));
          h2 = (if \<not> multi \<or> blob s \<noteq> None \<or> f_class file \<noteq> ''File''
                then put_header ''Content-Disposition''
                       (''attachment; filename='' @ [CHR 0x22] @ encodeURI (f_name file) @ [CHR 0x22]) h1
                else h1);
          s1 = s\<lparr>headers := h2\<rparr>;
          s2 = (if \<not> multi
                then s1\<lparr>contentType := Some (if f_type file = [] then ''application/octet-stream'' else f_type file),
                        data := Some (RawBody (file_part s file))\<rparr>
                else if sp_xhrFormDataFileUpload sp then
                  s1\<lparr>data := Some
                    (if postMessage s \<noteq> []
                     then PostMessageBody (map (\<lambda>(n, v). (n, TextPart v)) (getFormData (form_fields s) s) @
                            (if blob s \<noteq> None then [(hd (names s), file_part s file)]
                             else map (\<lambda>(n, f). (n, FilePart f)) (named_files (names s) 0 (files s))))
                     else MultipartBody
                            ((case formData s of
                                FormDataObject fs \<Rightarrow> map (\<lambda>(n, v). (n, TextPart v, [])) fs
                              | _ \<Rightarrow> map (\<lambda>(n, v). (n, TextPart v, [])) (getFormData (form_fields s) s)) @
                             (if blob s \<noteq> None then [(hd (names s), file_part s file, f_name file)]
                              else map (\<lambda>(n, f). (n, FilePart f, if f_uploadName f = [] then f_name f else f_uploadName f))
                                     (filter (\<lambda>(n, f). f_class f = ''File'' \<or> f_class f = ''Blob'')
                                       (named_files (names s) 0 (files s))))))\<rparr>
                else s1)
      in s2\<lparr>blob := None\<rparr>)"

text \<open>\<open>host_of\<close> is the host of a URL as the browser resolves it, \<open>here\<close> the host of the page.\<close>

definition initIframeSettings :: "(string \<Rightarrow> string) \<Rightarrow> string \<Rightarrow> settings \<Rightarrow> settings" where
  "initIframeSettings host_of here s =
     (let targetHost = host_of (url s); ffields = getFormData (form_fields s) s
      in s\<lparr>dataType := ''iframe '' @ dataType s,
           iframe_data := ffields @
             (if redirect s \<noteq> [] \<and> targetHost \<noteq> [] \<and> targetHost \<noteq> here
              then [(if redirectParamName s = [] then ''redirect'' else redirectParamName s, redirect s)] else [])\<rparr>)"

text \<open>Whether a file is uploaded in chunks (\<open>_chunkedUpload(options, true)\<close>).\<close>

definition chunk_size :: "settings \<Rightarrow> nat option" where
  "chunk_size s = (if maxChunkSize s = 0 then f_size (hd (files s)) else Some (maxChunkSize s))"

definition chunked :: "support \<Rightarrow> settings \<Rightarrow> bool" where
  "chunked sp s \<longleftrightarrow>
     isXHRUpload sp s \<and> sp_blobSlice sp \<and>
     (uploadedBytes s \<noteq> 0 \<or>
      (case (chunk_size s, f_size (hd (files s))) of (Some m, Some n) \<Rightarrow> m < n | _ \<Rightarrow> False)) \<and>
     data s = None"

definition initDataSettings :: "(string \<Rightarrow> string) \<Rightarrow> string \<Rightarrow> support \<Rightarrow> settings \<Rightarrow> settings" where
  "initDataSettings host_of here sp s =
     (if isXHRUpload sp s
      then let s1 = (if \<not> chunked sp s \<and> data s = None then initXHRData sp s else s)
           in if postMessage s1 \<noteq> [] then s1\<lparr>dataType := ''postmessage '' @ dataType s1\<rparr> else s1
      else initIframeSettings host_of here s)"

definition upper_char :: "char \<Rightarrow> char" where
  "upper_char c = (let n = of_char c :: nat in if 97 \<le> n \<and> n \<le> 122 then char_of (n - 32) else c)"

text \<open>\<open>input_form\<close> and \<open>widget_form\<close> are the forms of the file input and of the widget's input.\<close>

definition initFormSettings ::
    "file_input list \<Rightarrow> upload_form option \<Rightarrow> upload_form option \<Rightarrow> string \<Rightarrow> settings \<Rightarrow> settings" where
  "initFormSettings inputs input_form widget_form location s =
     (let f = (case form s of
                 Some f \<Rightarrow> Some f
               | None \<Rightarrow> (case input_form of Some f \<Rightarrow> Some f | None \<Rightarrow> widget_form));
          s1 = s\<lparr>form := f, names := getParamName inputs (paramName s)\<rparr>;
          action = (case f of Some g \<Rightarrow> fm_action g | None \<Rightarrow> []);
          meth = (case f of Some g \<Rightarrow> fm_method g | None \<Rightarrow> []);
          s2 = (if url s1 = [] then s1\<lparr>url := if action = [] then location else action\<rparr> else s1);
          t = map upper_char (if req_type s2 = [] then meth else req_type s2);
          s3 = s2\<lparr>req_type := if t \<noteq> ''POST'' \<and> t \<noteq> ''PUT'' \<and> t \<noteq> ''PATCH'' then ''POST'' else t\<rparr>
      in if charset s3 = None \<or> charset s3 = Some []
         then s3\<lparr>charset := (case f of Some g \<Rightarrow> fm_charset g | None \<Rightarrow> None)\<rparr> else s3)"

section \<open>The \<open>Range\<close> header\<close>

text \<open>
  \<open>None\<close> where the function returns a false value: no header, no dash, no number or the number 0;
  the caller then counts the bytes itself.
\<close>

definition getUploadedBytes :: "string option \<Rightarrow> nat option" where
  "getUploadedBytes hdr =
     (case hdr of
        None \<Rightarrow> None
      | Some r \<Rightarrow>
          if r = [] then None
          else let parts = split_on CHR ''-'' r in
               if length parts \<le> 1 then None
               else let ds = takeWhile is_digit (dropWhile (\<lambda>c. js_space (of_char c)) (parts ! 1))
                    in if ds = [] \<or> dec_val ds = 0 then None else Some (dec_val ds + 1))"

section \<open>Options in attributes\<close>

definition camel_to_hyphen :: "string \<Rightarrow> string" where
  "camel_to_hyphen key =
     map lower_char (concat (map (\<lambda>i. if 0 < i \<and> (let p = of_char (key ! (i - 1)) :: nat in 97 \<le> p \<and> p \<le> 122) \<and>
         (let n = of_char (key ! i) :: nat in 65 \<le> n \<and> n \<le> 90) then [CHR ''-'', key ! i] else [key ! i]) [0..<length key]))"

text \<open>A string option that looks like \<open>/pattern/flags\<close> is a regular expression; its two parts.\<close>

definition isRegExpOption :: "string \<Rightarrow> string \<Rightarrow> bool" where
  "isRegExpOption key value \<longleftrightarrow>
     key \<noteq> ''url'' \<and> value \<noteq> [] \<and> hd value = CHR ''/'' \<and> CHR ''/'' \<in> set (tl value) \<and>
     (\<forall>c \<in> set value. c \<noteq> CHR 0x0A \<and> c \<noteq> CHR 0x0D) \<and>
     length (after_last CHR ''/'' value) \<le> 3 \<and>
     (\<forall>c \<in> set (after_last CHR ''/'' value). c \<in> set ''igm'')"

definition getRegExp :: "string \<Rightarrow> string \<times> string" where
  "getRegExp str =
     (let parts = split_on CHR ''/'' str in (join_with ''/'' (tl (butlast parts)), last parts))"

end
