(* ===== verification/UploadQueue.thy ===== *)
theory UploadQueue
  imports UploadData
begin

text \<open>
  The life of uploads in the widget (\<open>jquery.fileupload.js\<close>): \<open>_onSend\<close> with its direct sends, slots and
  sequence, abort, the progress of each upload and of all of them, and the start and stop events. An
  upload is named by its index in \<open>w_uploads\<close>. \<open>pipe\<close> and the promises of the source call their handlers at
  once, so a step runs until everything it sets off has run; \<open>run\<close> keeps the callbacks that are still
  to be called on a stack. Bytes are integers; the scaling of a progress event is exact. \<open>w_first\<close> is
  not a variable of the source: it marks the first upload since the last start event.
\<close>

section \<open>Uploads and the widget\<close>

datatype phase = Waiting | Sent | Settled bool  \<comment> \<open>no \<open>jqXHR\<close> yet; running; done or failed\<close>

datatype slot = NoSlot | SlotPending | SlotResolved | SlotRejected

record upload =
  up_files :: "upload_file list"
  up_uploaded :: int  \<comment> \<open>\<open>uploadedBytes\<close>\<close>
  up_chunk :: int  \<comment> \<open>\<open>chunkSize\<close>, 0 for none\<close>
  up_interval :: int
  up_bitrate_interval :: int
  up_recalculate :: bool
  up_prevent :: bool  \<comment> \<open>the \<open>send\<close> callback returns false\<close>
  up_loaded :: int
  up_total :: int
  up_rate :: rate
  up_timer :: bitrate_timer
  up_time :: int
  up_phase :: phase
  up_aborted :: bool
  up_slot :: slot

record widget =
  w_now :: int
  w_sequential :: bool
  w_limit :: nat  \<comment> \<open>\<open>limitConcurrentUploads\<close>\<close>
  w_active :: int
  w_sending :: int
  w_loaded :: int
  w_total :: int
  w_rate :: rate
  w_timer :: bitrate_timer
  w_slots :: "nat list"
  w_sequence :: "nat list"  \<comment> \<open>uploads chained to the sequence and not yet reached\<close>
  w_busy :: "nat option"  \<comment> \<open>the upload the sequence waits for\<close>
  w_uploads :: "upload list"
  w_first :: nat
  w_log :: "(string \<times> nat option) list"  \<comment> \<open>events triggered, with their upload\<close>

definition created :: "bool \<Rightarrow> nat \<Rightarrow> int \<Rightarrow> widget" where
  "created sequential limit now =
     \<lparr>w_now = now, w_sequential = sequential, w_limit = limit, w_active = 0, w_sending = 0, w_loaded = 0,
      w_total = 0, w_rate = Rate 0, w_timer = new_timer now, w_slots = [], w_sequence = [], w_busy = None,
      w_uploads = [], w_first = 0, w_log = []\<rparr>"

definition trigger :: "string \<Rightarrow> nat option \<Rightarrow> widget \<Rightarrow> widget" where
  "trigger e i w = w\<lparr>w_log := w_log w @ [(e, i)]\<rparr>"

definition upd :: "nat \<Rightarrow> (upload \<Rightarrow> upload) \<Rightarrow> widget \<Rightarrow> widget" where
  "upd i f w = w\<lparr>w_uploads := (w_uploads w)[i := f (w_uploads w ! i)]\<rparr>"

abbreviation ul :: "widget \<Rightarrow> nat \<Rightarrow> upload" where
  "ul w i \<equiv> w_uploads w ! i"

section \<open>Progress\<close>

text \<open>A progress event that says \<open>l\<close> of \<open>t\<close> bytes (\<open>0 < t\<close>) are loaded.\<close>

definition onProgress :: "nat \<Rightarrow> int \<Rightarrow> int \<Rightarrow> widget \<Rightarrow> widget" where
  "onProgress i l t w =
     (let d = ul w i in
      if up_time d \<noteq> 0 \<and> up_interval d \<noteq> 0 \<and> w_now w - up_time d < up_interval d \<and> l \<noteq> t then w
      else let loaded = l * (if up_chunk d \<noteq> 0 then up_chunk d else up_total d) div t + up_uploaded d;
               w_loaded' = w_loaded w + (loaded - up_loaded d);
               (wr, wt) = getBitrate (w_now w) w_loaded' (up_bitrate_interval d) (w_timer w);
               (ur, ut) = getBitrate (w_now w) loaded (up_bitrate_interval d) (up_timer d);
               w1 = w\<lparr>w_loaded := w_loaded', w_rate := wr, w_timer := wt\<rparr>;
               w2 = upd i (\<lambda>d. d\<lparr>up_time := w_now w, up_loaded := loaded, up_rate := ur, up_timer := ut\<rparr>) w1
           in trigger ''progressall'' None (trigger ''progress'' (Some i) w2))"

definition beforeSend :: "upload \<Rightarrow> widget \<Rightarrow> widget" where
  "beforeSend d w =
     (let w1 = (if w_active w = 0
                then (trigger ''start'' None w)\<lparr>w_timer := new_timer (w_now w), w_loaded := 0, w_total := 0, w_rate := Rate 0,
                  w_first := length (w_uploads w)\<rparr>
                else w);
          total = (if getTotal (up_files d) = 0 then 1 else int (getTotal (up_files d)));
          d1 = d\<lparr>up_loaded := up_uploaded d, up_total := total, up_rate := Rate 0\<rparr>
      in w1\<lparr>w_uploads := w_uploads w1 @ [d1], w_active := w_active w1 + 1,
            w_loaded := w_loaded w1 + up_loaded d1, w_total := w_total w1 + up_total d1\<rparr>)"

definition onDone :: "nat \<Rightarrow> widget \<Rightarrow> widget" where
  "onDone i w =
     (let t = up_total (ul w i);
          w1 = (if up_loaded (ul w i) < t then onProgress i t t w else w)
      in trigger ''done'' (Some i) w1)"

definition onFail :: "nat \<Rightarrow> widget \<Rightarrow> widget" where
  "onFail i w =
     (let d = ul w i;
          w1 = (if up_recalculate d then w\<lparr>w_loaded := w_loaded w - up_loaded d, w_total := w_total w - up_total d\<rparr> else w)
      in trigger ''fail'' (Some i) w1)"

section \<open>Sending\<close>

text \<open>The part of the \<open>always\<close> handler before the slots, and the start of a request.\<close>

definition settle :: "nat \<Rightarrow> bool \<Rightarrow> widget \<Rightarrow> widget" where
  "settle i ok w =
     (let w1 = upd i (\<lambda>d. d\<lparr>up_phase := Settled ok\<rparr>) w;
          w2 = trigger ''always'' (Some i) (if ok then onDone i w1 else onFail i w1)
      in w2\<lparr>w_sending := w_sending w2 - 1, w_active := w_active w2 - 1\<rparr>)"

definition begin_send :: "nat \<Rightarrow> widget \<Rightarrow> widget" where
  "begin_send i w =
     upd i (\<lambda>d. d\<lparr>up_timer := new_timer (w_now w)\<rparr>) (w\<lparr>w_sending := w_sending w + 1\<rparr>)"

lemma upd_fields [simp]:
  "w_first (upd i f w) = w_first w" "w_slots (upd i f w) = w_slots w" "w_sequence (upd i f w) = w_sequence w" "w_busy (upd i f w) = w_busy w"
  "w_limit (upd i f w) = w_limit w" "w_sequential (upd i f w) = w_sequential w" "w_active (upd i f w) = w_active w"
  "w_sending (upd i f w) = w_sending w" "w_now (upd i f w) = w_now w" "w_log (upd i f w) = w_log w"
  "w_loaded (upd i f w) = w_loaded w" "w_total (upd i f w) = w_total w"
  by (simp_all add: upd_def)

lemma trigger_fields [simp]:
  "w_first (trigger e j w) = w_first w" "w_slots (trigger e j w) = w_slots w" "w_sequence (trigger e j w) = w_sequence w" "w_busy (trigger e j w) = w_busy w"
  "w_limit (trigger e j w) = w_limit w" "w_sequential (trigger e j w) = w_sequential w" "w_active (trigger e j w) = w_active w"
  "w_sending (trigger e j w) = w_sending w" "w_now (trigger e j w) = w_now w" "w_uploads (trigger e j w) = w_uploads w"
  "w_loaded (trigger e j w) = w_loaded w" "w_total (trigger e j w) = w_total w"
  by (simp_all add: trigger_def)

lemma onProgress_fields [simp]:
  "w_first (onProgress i l t w) = w_first w" "w_slots (onProgress i l t w) = w_slots w" "w_sequence (onProgress i l t w) = w_sequence w"
  "w_busy (onProgress i l t w) = w_busy w" "w_limit (onProgress i l t w) = w_limit w"
  "w_sequential (onProgress i l t w) = w_sequential w" "w_active (onProgress i l t w) = w_active w"
  "w_sending (onProgress i l t w) = w_sending w" "w_now (onProgress i l t w) = w_now w"
  "w_total (onProgress i l t w) = w_total w"
  by (simp_all add: onProgress_def Let_def split: prod.split)

lemma settle_fields [simp]:
  "w_first (settle i ok w) = w_first w" "w_slots (settle i ok w) = w_slots w" "w_sequence (settle i ok w) = w_sequence w"
  "w_busy (settle i ok w) = w_busy w" "w_limit (settle i ok w) = w_limit w"
  "w_sequential (settle i ok w) = w_sequential w" "w_active (settle i ok w) = w_active w - 1"
  "w_sending (settle i ok w) = w_sending w - 1" "w_now (settle i ok w) = w_now w"
  by (simp_all add: settle_def onDone_def onFail_def Let_def)

lemma begin_send_fields [simp]:
  "w_first (begin_send i w) = w_first w" "w_slots (begin_send i w) = w_slots w" "w_sequence (begin_send i w) = w_sequence w"
  "w_busy (begin_send i w) = w_busy w" "w_limit (begin_send i w) = w_limit w"
  "w_sequential (begin_send i w) = w_sequential w" "w_active (begin_send i w) = w_active w"
  "w_sending (begin_send i w) = w_sending w + 1" "w_now (begin_send i w) = w_now w"
  by (simp_all add: begin_send_def)

text \<open>
  The callbacks: \<open>send\<close> (a request that has settled before is only counted again; an aborted or
  prevented one fails at once), the rest of the \<open>always\<close> handler with the next slot and the stop event,
  after which the sequence goes on if it waited for this upload.
\<close>

datatype task = Send nat | Finish nat | NextSlot | Stop nat | NextInSequence

fun weight :: "task \<Rightarrow> nat" where
  "weight (Send i) = 5"
| "weight (Finish i) = 4"
| "weight (Stop i) = 2"
| "weight NextSlot = 1"
| "weight NextInSequence = 1"

function (sequential) run :: "task list \<Rightarrow> widget \<Rightarrow> widget" where
  "run [] w = w"
| "run (Send i # ts) w =
     (let w1 = begin_send i w in
      case up_phase (ul w1 i) of
        Settled ok \<Rightarrow> run (if w_busy w1 = Some i then NextInSequence # ts else ts) w1
      | Sent \<Rightarrow> run ts w1
      | Waiting \<Rightarrow>
          if up_aborted (ul w1 i) then run (Finish i # ts) (settle i False w1)
          else let w2 = trigger ''send'' (Some i) w1 in
               if up_prevent (ul w2 i) then run (Finish i # ts) (settle i False w2)
               else run ts (upd i (\<lambda>d. d\<lparr>up_phase := Sent\<rparr>) w2))"
| "run (Finish i # ts) w =
     run (if w_limit w \<noteq> 0 \<and> w_sending w < int (w_limit w) then NextSlot # Stop i # ts else Stop i # ts) w"
| "run (NextSlot # ts) w =
     (case w_slots w of
        [] \<Rightarrow> run ts w
      | j # js \<Rightarrow>
          if up_slot (ul w j) = SlotPending
          then run (Send j # ts) (upd j (\<lambda>d. d\<lparr>up_slot := SlotResolved\<rparr>) (w\<lparr>w_slots := js\<rparr>))
          else run (NextSlot # ts) (w\<lparr>w_slots := js\<rparr>))"
| "run (Stop i # ts) w =
     (let w1 = (if w_active w = 0 then trigger ''stop'' None w else w)
      in run (if w_busy w1 = Some i then NextInSequence # ts else ts) w1)"
| "run (NextInSequence # ts) w =
     (case w_sequence w of
        [] \<Rightarrow> run ts (w\<lparr>w_busy := None\<rparr>)
      | j # js \<Rightarrow> run (Send j # ts) (w\<lparr>w_sequence := js, w_busy := Some j\<rparr>))"
  by pat_completeness auto
termination
  by (relation "measures [\<lambda>(ts, w). length (w_slots w) + length (w_sequence w), \<lambda>(ts, w). sum_list (map weight ts)]")
    (auto simp: Let_def)

declare run.simps [simp del]

section \<open>Steps of the widget\<close>

datatype queue_event = Submit upload | Reply nat bool | Abort nat | Progress nat int int | Wait nat

definition new_upload :: "upload \<Rightarrow> upload" where
  "new_upload d = d\<lparr>up_phase := Waiting, up_aborted := False, up_slot := NoSlot, up_time := 0\<rparr>"

definition onSend :: "upload \<Rightarrow> widget \<Rightarrow> widget" where
  "onSend d w =
     (let i = length (w_uploads w); w1 = beforeSend (new_upload d) w in
      if w_sequential w1 \<or> w_limit w1 \<noteq> 0 \<and> int (w_limit w1) \<le> w_sending w1
      then if 1 < w_limit w1
           then upd i (\<lambda>d. d\<lparr>up_slot := SlotPending\<rparr>) (w1\<lparr>w_slots := w_slots w1 @ [i]\<rparr>)
           else if w_busy w1 = None then run [Send i] (w1\<lparr>w_busy := Some i\<rparr>)
           else w1\<lparr>w_sequence := w_sequence w1 @ [i]\<rparr>
      else run [Send i] w1)"

definition abort :: "nat \<Rightarrow> widget \<Rightarrow> widget" where
  "abort i w =
     (case up_phase (ul w i) of
        Waiting \<Rightarrow>
          run [Send i] (upd i (\<lambda>d. d\<lparr>up_aborted := True,
            up_slot := if up_slot d = SlotPending then SlotRejected else up_slot d\<rparr>) w)
      | Sent \<Rightarrow> run [Finish i] (settle i False w)
      | Settled ok \<Rightarrow> w)"

definition reply :: "nat \<Rightarrow> bool \<Rightarrow> widget \<Rightarrow> widget" where
  "reply i ok w = run [Finish i] (settle i ok w)"

fun queue_step :: "queue_event \<Rightarrow> widget \<Rightarrow> widget" where
  "queue_step (Submit d) w = onSend d w"
| "queue_step (Reply i ok) w = reply i ok w"
| "queue_step (Abort i) w = abort i w"
| "queue_step (Progress i l t) w = onProgress i l t w"
| "queue_step (Wait ms) w = w\<lparr>w_now := w_now w + int ms\<rparr>"

text \<open>What can happen: answers and progress for requests that run, aborts of known uploads.\<close>

fun queue_ok :: "queue_event \<Rightarrow> widget \<Rightarrow> bool" where
  "queue_ok (Submit d) w \<longleftrightarrow> True"
| "queue_ok (Reply i ok) w \<longleftrightarrow> i < length (w_uploads w) \<and> up_phase (ul w i) = Sent"
| "queue_ok (Abort i) w \<longleftrightarrow> i < length (w_uploads w)"
| "queue_ok (Progress i l t) w \<longleftrightarrow> i < length (w_uploads w) \<and> up_phase (ul w i) = Sent \<and> 0 < t"
| "queue_ok (Wait ms) w \<longleftrightarrow> True"

end
