(* ===== verification/UploadQueueProps.thy ===== *)
theory UploadQueueProps
  imports UploadQueue Browser
begin

text \<open>
  Invariants of the upload widget over all runs: the phases of the uploads and how each part of a
  step changes them, the counter of active uploads, and the global progress, which is the sum of the
  progress of the uploads since the last start event.
\<close>

section \<open>Phases\<close>

definition phases :: "widget \<Rightarrow> phase list" where
  "phases w = map up_phase (w_uploads w)"

definition slot_states :: "widget \<Rightarrow> slot list" where
  "slot_states w = map up_slot (w_uploads w)"

definition aborted_flags :: "widget \<Rightarrow> bool list" where
  "aborted_flags w = map up_aborted (w_uploads w)"

fun settled :: "phase \<Rightarrow> bool" where
  "settled (Settled ok) = True"
| "settled _ = False"

definition running :: "widget \<Rightarrow> nat" where
  "running w = length (filter (\<lambda>p. p = Sent) (phases w))"

definition unsettled :: "widget \<Rightarrow> nat" where
  "unsettled w = length (filter (\<lambda>p. \<not> settled p) (phases w))"

lemma length_phases [simp]: "length (phases w) = length (w_uploads w)"
  "length (slot_states w) = length (w_uploads w)" "length (aborted_flags w) = length (w_uploads w)"
  by (simp_all add: phases_def slot_states_def aborted_flags_def)

lemma nth_phases: "i < length (w_uploads w) \<Longrightarrow> phases w ! i = up_phase (ul w i)"
  "i < length (w_uploads w) \<Longrightarrow> slot_states w ! i = up_slot (ul w i)"
  "i < length (w_uploads w) \<Longrightarrow> aborted_flags w ! i = up_aborted (ul w i)"
  by (simp_all add: phases_def slot_states_def aborted_flags_def)

text \<open>How the parts of a step change the phases, the slots and the abort flags.\<close>

lemma map_update_same: "f (g (xs ! i)) = f (xs ! i) \<Longrightarrow> map f (xs[i := g (xs ! i)]) = map f xs"
  by (metis list_update_beyond list_update_id linorder_not_le map_update nth_map)

lemma length_uploads [simp]:
  "length (w_uploads (upd i f w)) = length (w_uploads w)"
  "length (w_uploads (onProgress i l t w)) = length (w_uploads w)"
  "length (w_uploads (settle i ok w)) = length (w_uploads w)"
  "length (w_uploads (begin_send i w)) = length (w_uploads w)"
  by (simp_all add: upd_def onProgress_def settle_def onDone_def onFail_def begin_send_def Let_def trigger_def
      split: prod.split)

lemma upd_views:
  "(\<And>d. up_phase (f d) = up_phase d) \<Longrightarrow> phases (upd i f w) = phases w"
  "(\<And>d. up_slot (f d) = up_slot d) \<Longrightarrow> slot_states (upd i f w) = slot_states w"
  "(\<And>d. up_aborted (f d) = up_aborted d) \<Longrightarrow> aborted_flags (upd i f w) = aborted_flags w"
  by (simp_all add: upd_def phases_def slot_states_def aborted_flags_def map_update_same)

lemma upd_phase:
  "phases (upd i (\<lambda>d. d\<lparr>up_phase := p\<rparr>) w) = (phases w)[i := p]"
  "slot_states (upd i (\<lambda>d. d\<lparr>up_slot := s\<rparr>) w) = (slot_states w)[i := s]"
  by (simp_all add: upd_def phases_def slot_states_def map_update)

lemma frame_views [simp]:
  "phases (w\<lparr>w_sending := a\<rparr>) = phases w" "phases (w\<lparr>w_active := b\<rparr>) = phases w"
  "phases (w\<lparr>w_slots := c\<rparr>) = phases w" "phases (w\<lparr>w_sequence := c\<rparr>) = phases w" "phases (w\<lparr>w_busy := e\<rparr>) = phases w"
  "phases (w\<lparr>w_loaded := x\<rparr>) = phases w" "phases (w\<lparr>w_total := y\<rparr>) = phases w" "phases (trigger t j w) = phases w"
  "slot_states (w\<lparr>w_sending := a\<rparr>) = slot_states w" "slot_states (w\<lparr>w_active := b\<rparr>) = slot_states w"
  "slot_states (w\<lparr>w_slots := c\<rparr>) = slot_states w" "slot_states (w\<lparr>w_sequence := c\<rparr>) = slot_states w"
  "slot_states (w\<lparr>w_busy := e\<rparr>) = slot_states w" "slot_states (w\<lparr>w_loaded := x\<rparr>) = slot_states w"
  "slot_states (w\<lparr>w_total := y\<rparr>) = slot_states w" "slot_states (trigger t j w) = slot_states w"
  "aborted_flags (w\<lparr>w_sending := a\<rparr>) = aborted_flags w" "aborted_flags (w\<lparr>w_active := b\<rparr>) = aborted_flags w"
  "aborted_flags (w\<lparr>w_slots := c\<rparr>) = aborted_flags w" "aborted_flags (w\<lparr>w_sequence := c\<rparr>) = aborted_flags w"
  "aborted_flags (w\<lparr>w_busy := e\<rparr>) = aborted_flags w" "aborted_flags (w\<lparr>w_loaded := x\<rparr>) = aborted_flags w"
  "aborted_flags (w\<lparr>w_total := y\<rparr>) = aborted_flags w" "aborted_flags (trigger t j w) = aborted_flags w"
  by (simp_all add: phases_def slot_states_def aborted_flags_def)

lemma onProgress_views [simp]:
  "phases (onProgress i l t w) = phases w" "slot_states (onProgress i l t w) = slot_states w"
  "aborted_flags (onProgress i l t w) = aborted_flags w"
  by (simp_all add: onProgress_def Let_def upd_views split: prod.split)
    (simp_all add: phases_def slot_states_def aborted_flags_def)

lemma begin_send_views [simp]:
  "phases (begin_send i w) = phases w" "slot_states (begin_send i w) = slot_states w"
  "aborted_flags (begin_send i w) = aborted_flags w"
  by (simp_all add: begin_send_def upd_views)

lemma settle_views [simp]:
  "phases (settle i ok w) = (phases w)[i := Settled ok]" "slot_states (settle i ok w) = slot_states w"
  "aborted_flags (settle i ok w) = aborted_flags w"
  by (simp_all add: settle_def onDone_def onFail_def Let_def upd_views upd_phase)

lemma count_update:
  "i < length xs \<Longrightarrow> int (length (filter P (xs[i := y]))) =
     int (length (filter P xs)) - (if P (xs ! i) then 1 else 0) + (if P y then 1 else 0)"
proof (induction xs arbitrary: i)
  case (Cons x xs)
  show ?case
  proof (cases i)
    case (Suc n)
    then have "n < length xs" using Cons.prems by simp
    from Cons.IH [OF this] Suc show ?thesis by (cases "P (xs ! n)"; cases "P y") simp_all
  qed simp
qed simp

section \<open>Counters and progress\<close>

definition counted :: "upload \<Rightarrow> bool" where
  "counted d \<longleftrightarrow> \<not> (up_phase d = Settled False \<and> up_recalculate d)"

definition sum_counted :: "(upload \<Rightarrow> int) \<Rightarrow> widget \<Rightarrow> int" where
  "sum_counted f w = (\<Sum>d\<leftarrow>drop (w_first w) (w_uploads w). if counted d then f d else 0)"

definition progress_ok :: "widget \<Rightarrow> bool" where
  "progress_ok w \<longleftrightarrow> w_loaded w = sum_counted up_loaded w \<and> w_total w = sum_counted up_total w"

lemma sum_list_update_int:
  "i < length xs \<Longrightarrow> (\<Sum>x\<leftarrow>xs[i := y]. f x) = (\<Sum>x\<leftarrow>xs. f x) - f (xs ! i) + (f y :: int)"
proof (induction xs arbitrary: i)
  case (Cons x xs)
  then show ?case by (cases i) auto
qed simp

lemma sum_counted_upd:
  assumes "i < length (w_uploads w)" "w_first w \<le> i"
  shows "sum_counted f (upd i g w) = sum_counted f w
    - (if counted (ul w i) then f (ul w i) else 0) + (if counted (g (ul w i)) then f (g (ul w i)) else 0)"
proof -
  have "drop (w_first w) ((w_uploads w)[i := g (ul w i)]) =
      (drop (w_first w) (w_uploads w))[i - w_first w := g (ul w i)]"
    using assms by (simp add: drop_update_swap)
  moreover have "drop (w_first w) (w_uploads w) ! (i - w_first w) = ul w i" using assms by simp
  ultimately show ?thesis
    using assms by (simp add: sum_counted_def upd_def sum_list_update_int)
qed

lemma sum_counted_frame [simp]:
  "sum_counted f (w\<lparr>w_loaded := x, w_rate := r, w_timer := t\<rparr>) = sum_counted f w"
  "sum_counted f (w\<lparr>w_loaded := x, w_total := y\<rparr>) = sum_counted f w"
  "sum_counted f (w\<lparr>w_sending := a\<rparr>) = sum_counted f w" "sum_counted f (w\<lparr>w_active := b\<rparr>) = sum_counted f w"
  "sum_counted f (trigger e j w) = sum_counted f w"
  by (simp_all add: sum_counted_def trigger_def)

lemma progress_ok_frame [simp]:
  "progress_ok (w\<lparr>w_sending := a\<rparr>) = progress_ok w" "progress_ok (w\<lparr>w_active := b\<rparr>) = progress_ok w"
  "progress_ok (w\<lparr>w_slots := c\<rparr>) = progress_ok w" "progress_ok (w\<lparr>w_sequence := c\<rparr>) = progress_ok w"
  "progress_ok (w\<lparr>w_busy := e\<rparr>) = progress_ok w" "progress_ok (trigger t j w) = progress_ok w"
  "progress_ok (w\<lparr>w_now := n\<rparr>) = progress_ok w"
  by (simp_all add: progress_ok_def sum_counted_def trigger_def)

lemma onProgress_ok:
  assumes "progress_ok w" "i < length (w_uploads w)" "w_first w \<le> i" "counted (ul w i)"
  shows "progress_ok (onProgress i l t w)"
proof -
  have c: "counted (d\<lparr>up_time := a, up_loaded := b, up_rate := e, up_timer := g\<rparr>) = counted d" for d a b e g
    by (simp add: counted_def)
  show ?thesis
    using assms by (simp add: onProgress_def Let_def progress_ok_def sum_counted_upd c split: prod.split)
qed

lemma progress_ok_upd:
  "progress_ok w \<Longrightarrow> i < length (w_uploads w) \<Longrightarrow> w_first w \<le> i \<Longrightarrow>
   counted (g (ul w i)) = counted (ul w i) \<Longrightarrow> up_loaded (g (ul w i)) = up_loaded (ul w i) \<Longrightarrow>
   up_total (g (ul w i)) = up_total (ul w i) \<Longrightarrow> progress_ok (upd i g w)"
  by (simp add: progress_ok_def sum_counted_upd)

lemma settle_ok:
  assumes "progress_ok w" "i < length (w_uploads w)" "w_first w \<le> i" "\<not> settled (up_phase (ul w i))"
  shows "progress_ok (settle i ok w)"
proof -
  define w1 where "w1 = upd i (\<lambda>d. d\<lparr>up_phase := Settled ok\<rparr>) w"
  have c: "counted (ul w i)" using assms(4) by (auto simp: counted_def)
  have i1: "i < length (w_uploads w1)" "w_first w1 \<le> i" "ul w1 i = (ul w i)\<lparr>up_phase := Settled ok\<rparr>"
    using assms(2,3) by (simp_all add: w1_def) (simp add: upd_def)
  show ?thesis
  proof (cases ok)
    case True
    have "progress_ok w1"
      using assms c True by (simp add: w1_def progress_ok_upd counted_def)
    then have "progress_ok (onProgress i l t w1)" for l t
      using i1 True by (intro onProgress_ok) (simp_all add: counted_def)
    then have "progress_ok (onDone i w1)"
      using \<open>progress_ok w1\<close> by (simp add: onDone_def Let_def)
    moreover have "progress_ok (settle i ok w) = progress_ok (onDone i w1)"
      using True by (simp add: settle_def w1_def Let_def)
    ultimately show ?thesis by simp
  next
    case False
    have "sum_counted f w1 = sum_counted f w - (if up_recalculate (ul w i) then f (ul w i) else 0)"
        if "f ((ul w i)\<lparr>up_phase := Settled ok\<rparr>) = f (ul w i)" for f
      using that c False assms(2,3) by (simp add: w1_def sum_counted_upd counted_def)
    then show ?thesis
      using assms(1) False i1 by (simp add: settle_def onFail_def Let_def progress_ok_def flip: w1_def)
        (auto simp: w1_def)
  qed
qed

text \<open>The counter of active uploads, the progress, and the indices in the queues.\<close>

definition counts_ok :: "widget \<Rightarrow> bool" where
  "counts_ok w \<longleftrightarrow> w_active w = int (unsettled w) \<and> progress_ok w \<and>
     (\<forall>i < w_first w. settled (phases w ! i)) \<and> w_first w \<le> length (w_uploads w) \<and>
     (\<forall>i \<in> set (w_slots w) \<union> set (w_sequence w). i < length (w_uploads w))"

fun task_ok :: "widget \<Rightarrow> task \<Rightarrow> bool" where
  "task_ok w (Send i) \<longleftrightarrow> i < length (w_uploads w)"
| "task_ok w _ \<longleftrightarrow> True"

lemma counts_first: "counts_ok w \<Longrightarrow> i < length (w_uploads w) \<Longrightarrow> \<not> settled (phases w ! i) \<Longrightarrow> w_first w \<le> i"
  by (meson counts_ok_def not_le)

lemma counts_settle:
  assumes c: "counts_ok w" and i: "i < length (w_uploads w)" "\<not> settled (phases w ! i)"
  shows "counts_ok (settle i ok w)"
proof -
  have "int (unsettled (settle i ok w)) = int (unsettled w) - 1"
    using count_update [of i "phases w" "\<lambda>p. \<not> settled p" "Settled ok"] i
    by (simp add: unsettled_def)
  moreover have "progress_ok (settle i ok w)"
    using c i counts_first [OF c i] by (intro settle_ok) (simp_all add: counts_ok_def nth_phases)
  ultimately show ?thesis
    using c i by (auto simp: counts_ok_def nth_list_update)
qed

lemma counts_frame:
  "w_active v = w_active w \<Longrightarrow> phases v = phases w \<Longrightarrow> progress_ok w \<longrightarrow> progress_ok v \<Longrightarrow> w_first v = w_first w \<Longrightarrow>
   length (w_uploads v) = length (w_uploads w) \<Longrightarrow> set (w_slots v) \<union> set (w_sequence v) \<subseteq> set (w_slots w) \<union> set (w_sequence w) \<Longrightarrow>
   counts_ok w \<Longrightarrow> counts_ok v"
  by (auto simp: counts_ok_def unsettled_def)

lemma progress_ok_same:
  "\<forall>d. up_loaded (g d) = up_loaded d \<and> up_total (g d) = up_total d \<and> up_recalculate (g d) = up_recalculate d \<and> up_phase (g d) = up_phase d \<Longrightarrow>
   progress_ok w \<Longrightarrow> progress_ok (upd i g w)"
proof (cases "i < length (w_uploads w) \<and> w_first w \<le> i")
  case False
  then have "drop (w_first w) ((w_uploads w)[i := x]) = drop (w_first w) (w_uploads w)" for x
    by (cases "i < length (w_uploads w)") (simp_all add: drop_update_cancel list_update_beyond)
  then show "progress_ok w \<Longrightarrow> progress_ok (upd i g w)"
    by (simp add: progress_ok_def sum_counted_def upd_def)
qed (auto simp: counted_def intro: progress_ok_upd)

lemma progress_begin: "progress_ok w \<Longrightarrow> progress_ok (begin_send i w)"
  unfolding begin_send_def by (rule progress_ok_same) simp_all

lemma counts_begin: "counts_ok w \<Longrightarrow> counts_ok (begin_send i w)"
  by (rule counts_frame [of _ w]) (simp_all add: progress_begin)

lemma counts_sent:
  assumes "counts_ok w" "i < length (w_uploads w)" "phases w ! i = Waiting"
  shows "counts_ok (upd i (\<lambda>d. d\<lparr>up_phase := Sent\<rparr>) w)"
proof -
  have "unsettled (upd i (\<lambda>d. d\<lparr>up_phase := Sent\<rparr>) w) = unsettled w"
    using count_update [of i "phases w" "\<lambda>p. \<not> settled p" Sent] assms(2,3) by (simp add: unsettled_def upd_phase)
  moreover have "progress_ok (upd i (\<lambda>d. d\<lparr>up_phase := Sent\<rparr>) w)"
    using assms counts_first [OF assms(1,2)]
    by (intro progress_ok_upd) (simp_all add: counts_ok_def counted_def nth_phases)
  ultimately show ?thesis
    using assms by (auto simp: counts_ok_def upd_phase nth_list_update)
qed

lemma counts_slot: "counts_ok w \<Longrightarrow> counts_ok (upd j (\<lambda>d. d\<lparr>up_slot := s\<rparr>) w)"
  by (rule counts_frame [of _ w]) (auto simp: upd_views intro!: progress_ok_same)

lemma tasks_frame:
  "list_all (task_ok w) ts \<Longrightarrow> length (w_uploads v) = length (w_uploads w) \<Longrightarrow> list_all (task_ok v) ts"
proof (induction ts)
  case (Cons t ts)
  then show ?case by (cases t) simp_all
qed simp

lemma counts_run:
  "counts_ok w \<Longrightarrow> list_all (task_ok w) ts \<Longrightarrow> counts_ok (run ts w)"
proof (induction ts w rule: run.induct)
  case (2 i ts w)
  let ?w1 = "begin_send i w"
  have i: "i < length (w_uploads w)" and ts: "list_all (task_ok w) ts" using "2.prems"(2) by simp_all
  have c1: "counts_ok ?w1" using "2.prems"(1) by (rule counts_begin)
  have tasks: "list_all (task_ok v) ts" if "length (w_uploads v) = length (w_uploads w)" for v
    using ts that by (rule tasks_frame)
  have ph: "up_phase (ul ?w1 i) = phases ?w1 ! i" using i nth_phases(1) [of i ?w1] by simp
  show ?case
  proof (cases "up_phase (ul ?w1 i)")
    case Waiting
    show ?thesis
    proof (cases "up_aborted (ul ?w1 i)")
      case True
      have "counts_ok (settle i False ?w1)" using c1 i Waiting ph by (intro counts_settle) simp_all
      with "2.IH"(1) [OF refl Waiting True] tasks show ?thesis
        using Waiting True by (simp add: run.simps Let_def)
    next
      case False
      let ?w2 = "trigger ''send'' (Some i) ?w1"
      have c2: "counts_ok ?w2" using c1 by (rule counts_frame [rotated -1]) simp_all
      have ph2: "phases ?w2 ! i = Waiting" using Waiting ph by simp
      show ?thesis
      proof (cases "up_prevent (ul ?w2 i)")
        case True
        have "counts_ok (settle i False ?w2)" using c2 i ph2 by (intro counts_settle) simp_all
        with "2.IH"(2) [OF refl Waiting False refl True] tasks show ?thesis
          using Waiting False True by (simp add: run.simps Let_def)
      next
        case noprev: False
        have "counts_ok (upd i (\<lambda>d. d\<lparr>up_phase := Sent\<rparr>) ?w2)" using c2 i ph2 by (intro counts_sent) simp_all
        with "2.IH"(3) [OF refl Waiting False refl noprev] tasks show ?thesis
          using Waiting False noprev by (simp add: run.simps Let_def)
      qed
    qed
  next
    case Sent
    with "2.IH"(4) [OF refl Sent] c1 tasks show ?thesis by (simp add: run.simps Let_def)
  next
    case (Settled ok)
    with "2.IH"(5) [OF refl Settled] c1 tasks show ?thesis by (simp add: run.simps Let_def)
  qed
next
  case (4 ts w)
  show ?case
  proof (cases "w_slots w")
    case Nil
    with 4 show ?thesis by (simp add: run.simps)
  next
    case (Cons j js)
    let ?w1 = "w\<lparr>w_slots := js\<rparr>"
    have j: "j < length (w_uploads w)" using "4.prems"(1) Cons by (simp add: counts_ok_def)
    have c1: "counts_ok ?w1" using "4.prems"(1) by (rule counts_frame [rotated -1]) (auto simp: Cons)
    have ts: "list_all (task_ok v) ts" if "length (w_uploads v) = length (w_uploads w)" for v
      using "4.prems"(2) that by (simp add: tasks_frame)
    show ?thesis
      using "4.IH"(2,3) [OF Cons] counts_slot [OF c1, of j SlotResolved] c1 ts j Cons
      by (cases "up_slot (ul w j) = SlotPending") (simp_all add: run.simps)
  qed
next
  case (5 i ts w)
  have "counts_ok (trigger ''stop'' None w)" using "5.prems"(1) by (rule counts_frame [rotated -1]) simp_all
  moreover have "list_all (task_ok (trigger ''stop'' None w)) ts"
    using "5.prems"(2) by (simp add: tasks_frame)
  ultimately show ?case using 5 by (simp add: run.simps Let_def)
next
  case (6 ts w)
  show ?case
  proof (cases "w_sequence w")
    case Nil
    have "counts_ok (w\<lparr>w_busy := None\<rparr>)" using "6.prems"(1) by (rule counts_frame [rotated -1]) simp_all
    moreover have "list_all (task_ok (w\<lparr>w_busy := None\<rparr>)) ts"
      using "6.prems"(2) by (simp add: tasks_frame)
    ultimately show ?thesis using "6.IH"(1) [OF Nil] Nil by (simp add: run.simps)
  next
    case (Cons j js)
    let ?w1 = "w\<lparr>w_sequence := js, w_busy := Some j\<rparr>"
    have "counts_ok ?w1" using "6.prems"(1) by (rule counts_frame [rotated -1]) (auto simp: Cons progress_ok_def sum_counted_def phases_def)
    moreover have "list_all (task_ok ?w1) ts"
      using "6.prems"(2) by (simp add: tasks_frame)
    moreover have "j < length (w_uploads w)" using "6.prems"(1) Cons by (simp add: counts_ok_def)
    ultimately show ?thesis using "6.IH"(2) [OF Cons] Cons by (simp add: run.simps)
  qed
qed (simp_all add: run.simps)

lemma all_settled: "counts_ok w \<Longrightarrow> w_active w = 0 \<Longrightarrow> i < length (w_uploads w) \<Longrightarrow> settled (phases w ! i)"
proof -
  assume "counts_ok w" "w_active w = 0" and i: "i < length (w_uploads w)"
  then have "filter (\<lambda>p. \<not> settled p) (phases w) = []" by (simp add: counts_ok_def unsettled_def)
  moreover have "phases w ! i \<in> set (phases w)" using i by simp
  ultimately show ?thesis by (metis (no_types, lifting) filter_empty_conv)
qed

lemma beforeSend_fields [simp]:
  "w_slots (beforeSend d w) = w_slots w" "w_sequence (beforeSend d w) = w_sequence w" "w_busy (beforeSend d w) = w_busy w"
  "w_limit (beforeSend d w) = w_limit w" "w_sequential (beforeSend d w) = w_sequential w"
  "w_sending (beforeSend d w) = w_sending w" "w_active (beforeSend d w) = w_active w + 1"
  "length (w_uploads (beforeSend d w)) = Suc (length (w_uploads w))"
  "phases (beforeSend d w) = phases w @ [up_phase d]" "slot_states (beforeSend d w) = slot_states w @ [up_slot d]"
  "aborted_flags (beforeSend d w) = aborted_flags w @ [up_aborted d]"
  by (simp_all add: beforeSend_def Let_def phases_def slot_states_def aborted_flags_def)

lemma new_upload_fields [simp]:
  "up_phase (new_upload d) = Waiting" "up_slot (new_upload d) = NoSlot" "up_aborted (new_upload d) = False"
  by (simp_all add: new_upload_def)

lemma counts_before:
  assumes c: "counts_ok w"
  shows "counts_ok (beforeSend (new_upload d) w)"
proof -
  let ?v = "beforeSend (new_upload d) w"
  have "unsettled ?v = Suc (unsettled w)" by (simp add: unsettled_def)
  moreover have "progress_ok ?v"
    using c by (cases "w_active w = 0")
      (simp_all add: counts_ok_def beforeSend_def Let_def progress_ok_def sum_counted_def counted_def new_upload_def)
  moreover have first: "w_first ?v = (if w_active w = 0 then length (w_uploads w) else w_first w)"
    by (simp add: beforeSend_def Let_def)
  moreover have "\<forall>i < w_first ?v. settled (phases ?v ! i)"
    using c all_settled [OF c] unfolding first by (auto simp: counts_ok_def nth_append)
  ultimately show ?thesis using c unfolding counts_ok_def
    by (auto simp: less_Suc_eq)
qed

lemma counts_step:
  assumes c: "counts_ok w" and ok: "queue_ok e w"
  shows "counts_ok (queue_step e w)"
proof (cases e)
  case (Submit d)
  let ?i = "length (w_uploads w)" and ?v = "beforeSend (new_upload d) w"
  have v: "counts_ok ?v" using c by (rule counts_before)
  have "counts_ok (upd ?i (\<lambda>d. d\<lparr>up_slot := SlotPending\<rparr>) (?v\<lparr>w_slots := w_slots ?v @ [?i]\<rparr>))"
    using v by (intro counts_slot) (auto simp: counts_ok_def unsettled_def)
  moreover have "counts_ok (run [Send ?i] (?v\<lparr>w_busy := Some ?i\<rparr>))"
    using v by (intro counts_run) (auto simp: counts_ok_def unsettled_def)
  moreover have "counts_ok (?v\<lparr>w_sequence := w_sequence ?v @ [?i]\<rparr>)"
    using v by (auto simp: counts_ok_def unsettled_def)
  moreover have "counts_ok (run [Send ?i] ?v)" using v by (intro counts_run) simp_all
  ultimately show ?thesis using Submit by (simp add: onSend_def Let_def)
next
  case (Reply i r)
  with c ok show ?thesis by (auto simp: reply_def nth_phases intro!: counts_run counts_settle)
next
  case (Abort i)
  then have i: "i < length (w_uploads w)" using ok by simp
  let ?f = "\<lambda>d. d\<lparr>up_aborted := True, up_slot := if up_slot d = SlotPending then SlotRejected else up_slot d\<rparr>"
  have "counts_ok (upd i ?f w)"
    using c by (rule counts_frame [rotated -1]) (auto simp: upd_views intro!: progress_ok_same)
  then have "counts_ok (run [Send i] (upd i ?f w))" using i by (intro counts_run) simp_all
  moreover have "counts_ok (run [Finish i] (settle i False w))" if "up_phase (ul w i) = Sent"
    using c i that by (intro counts_run counts_settle) (simp_all add: nth_phases)
  ultimately show ?thesis using c Abort by (simp add: abort_def split: phase.split)
next
  case (Progress i l t)
  then have i: "i < length (w_uploads w)" "up_phase (ul w i) = Sent" using ok by simp_all
  have "progress_ok (onProgress i l t w)"
    using c i counts_first [OF c i(1)] by (intro onProgress_ok) (simp_all add: counts_ok_def nth_phases counted_def)
  with c show ?thesis using Progress by (simp add: counts_ok_def unsettled_def)
next
  case (Wait ms)
  have "phases (w\<lparr>w_now := n\<rparr>) = phases w" for n by (simp add: phases_def)
  with Wait c show ?thesis by (simp add: counts_ok_def unsettled_def)
qed

interpretation counts: page queue_step counts_ok queue_ok
  by standard (rule counts_step)

lemma counts_created: "counts_ok (created s l t)"
  by (simp add: counts_ok_def created_def unsettled_def phases_def progress_ok_def sum_counted_def)

section \<open>Properties\<close>

text \<open>
  C6: in every run of the widget (submissions, answers, failures, aborts and progress
  events in any order) the counter of active uploads is the number of those that have not ended, and
  the global progress is the sum over the uploads of the current series (those since the last start
  event, less the failed ones that are taken out): loaded and total bytes never drift.
\<close>

theorem uploads_counted:
  assumes "counts.ok_run es (created s l t)" "w = counts.run es (created s l t)"
  shows "w_active w = int (unsettled w) \<and>
    w_loaded w = sum_list (map (\<lambda>d. if counted d then up_loaded d else 0) (drop (w_first w) (w_uploads w))) \<and>
    w_total w = sum_list (map (\<lambda>d. if counted d then up_total d else 0) (drop (w_first w) (w_uploads w)))"
proof -
  have "counts_ok w" unfolding assms(2) using counts_created assms(1) by (rule counts.holds_on_run)
  then show ?thesis by (simp add: counts_ok_def progress_ok_def sum_counted_def)
qed

definition blank_upload :: upload where
  "blank_upload = \<lparr>up_files = [], up_uploaded = 0, up_chunk = 0, up_interval = 100, up_bitrate_interval = 500,
     up_recalculate = True, up_prevent = False, up_loaded = 0, up_total = 0, up_rate = Rate 0, up_timer = new_timer 0,
     up_time = 0, up_phase = Waiting, up_aborted = False, up_slot = NoSlot\<rparr>"

lemma uploads_counted_witness: "w_active (counts.run [Submit blank_upload, Submit blank_upload] (created False 0 0)) = 2"
proof -
  let ?es = "[Submit blank_upload, Submit blank_upload]"
  have "counts.ok_run ?es (created False 0 0)" by (simp add: counts.ok_run.simps del: queue_step.simps)
  moreover have "unsettled (counts.run ?es (created False 0 0)) = 2"
    unfolding counts.run.simps by code_simp
  ultimately show ?thesis using uploads_counted [of ?es False 0 0] by simp
qed

end
