(* ===== verification/UploadLimit.thy ===== *)
theory UploadLimit
  imports UploadQueueProps
begin

text \<open>
  The queue of the upload widget with \<open>limitConcurrentUploads\<close> of two or more: no more uploads run
  at once than the limit says, and none waits while there is room. The last section shows three
  settings and histories in which the queue does not do what the options say.
\<close>

section \<open>A limit of two or more\<close>

fun chain_head :: "task list \<Rightarrow> bool" where
  "chain_head (Send i # ts) = True"
| "chain_head (Finish i # ts) = True"
| "chain_head (NextSlot # ts) = True"
| "chain_head _ = False"

fun is_stop :: "task \<Rightarrow> bool" where
  "is_stop (Stop i) = True"
| "is_stop _ = False"

text \<open>The tasks of such a widget: what may come first, and stop events after it.\<close>

fun limit_tasks :: "task list \<Rightarrow> widget \<Rightarrow> bool" where
  "limit_tasks [] w \<longleftrightarrow> True"
| "limit_tasks (Send i # ts) w \<longleftrightarrow>
     i < length (w_uploads w) \<and> phases w ! i = Waiting \<and> slot_states w ! i \<noteq> SlotPending \<and>
     (aborted_flags w ! i \<or> w_sending w < int (w_limit w)) \<and> list_all is_stop ts"
| "limit_tasks (NextSlot # ts) w \<longleftrightarrow> w_sending w < int (w_limit w) \<and> list_all is_stop ts"
| "limit_tasks (NextInSequence # ts) w \<longleftrightarrow> False"
| "limit_tasks (_ # ts) w \<longleftrightarrow> list_all is_stop ts"

definition pending_slot :: "widget \<Rightarrow> nat \<Rightarrow> bool" where
  "pending_slot w i \<longleftrightarrow> i < length (w_uploads w) \<and> slot_states w ! i = SlotPending"

definition limit_ok :: "task list \<Rightarrow> widget \<Rightarrow> bool" where
  "limit_ok ts w \<longleftrightarrow>
     \<not> w_sequential w \<and> 1 < w_limit w \<and> w_sequence w = [] \<and> w_busy w = None \<and>
     w_sending w = int (running w) \<and> running w \<le> w_limit w \<and>
     (\<forall>i. pending_slot w i \<longrightarrow> i \<in> set (w_slots w) \<and> phases w ! i = Waiting \<and> \<not> aborted_flags w ! i) \<and>
     (\<forall>i < length (w_uploads w). phases w ! i = Waiting \<longrightarrow> pending_slot w i \<or> (ts \<noteq> [] \<and> hd ts = Send i)) \<and>
     (\<forall>i. pending_slot w i \<longrightarrow> int (w_limit w) \<le> w_sending w + (if chain_head ts then 1 else 0)) \<and>
     limit_tasks ts w \<and> (\<forall>i \<in> set (w_slots w). i < length (w_uploads w))"

lemma pending_slot_frame [simp]:
  "pending_slot (begin_send i w) j = pending_slot w j" "pending_slot (trigger e k w) j = pending_slot w j"
  "pending_slot (settle i ok w) j = pending_slot w j" "pending_slot (w\<lparr>w_slots := s\<rparr>) j = pending_slot w j"
  by (simp_all add: pending_slot_def)

lemma limit_tasks_trigger: "limit_tasks ts (trigger e k w) = limit_tasks ts w"
  by (cases ts; cases "hd ts") (auto simp: phases_def slot_states_def aborted_flags_def)

lemma limit_trigger: "limit_ok ts (trigger e k w) = limit_ok ts w"
  by (simp add: limit_ok_def limit_tasks_trigger running_def)

lemma running_update:
  "i < length (w_uploads w) \<Longrightarrow> phases v = (phases w)[i := p] \<Longrightarrow>
   int (running v) = int (running w) - (if phases w ! i = Sent then 1 else 0) + (if p = Sent then 1 else 0)"
  using count_update [of i "phases w" "\<lambda>p. p = Sent" p] by (simp add: running_def)

lemma stops_head: "list_all is_stop ts \<Longrightarrow> \<not> chain_head ts" "list_all is_stop ts \<Longrightarrow> ts \<noteq> [] \<Longrightarrow> hd ts \<noteq> Send i"
  "list_all is_stop ts \<Longrightarrow> limit_tasks ts w"
  by (cases ts; cases "hd ts"; simp)+

lemma limit_okD:
  assumes "limit_ok ts w"
  shows "\<not> w_sequential w" "1 < w_limit w" "w_sequence w = []" "w_busy w = None" "w_sending w = int (running w)"
    "running w \<le> w_limit w" "limit_tasks ts w"
    "pending_slot w i \<Longrightarrow> i \<in> set (w_slots w)" "pending_slot w i \<Longrightarrow> phases w ! i = Waiting"
    "pending_slot w i \<Longrightarrow> \<not> aborted_flags w ! i"
    "i < length (w_uploads w) \<Longrightarrow> phases w ! i = Waiting \<Longrightarrow> pending_slot w i \<or> (ts \<noteq> [] \<and> hd ts = Send i)"
    "pending_slot w i \<Longrightarrow> int (w_limit w) \<le> w_sending w + (if chain_head ts then 1 else 0)"
    "i \<in> set (w_slots w) \<Longrightarrow> i < length (w_uploads w)"
  using assms unfolding limit_ok_def by blast+

lemma limit_okI:
  assumes "\<not> w_sequential w" "1 < w_limit w" "w_sequence w = []" "w_busy w = None" "w_sending w = int (running w)"
    "running w \<le> w_limit w" "limit_tasks ts w"
    "\<And>i. pending_slot w i \<Longrightarrow> i \<in> set (w_slots w)" "\<And>i. pending_slot w i \<Longrightarrow> phases w ! i = Waiting"
    "\<And>i. pending_slot w i \<Longrightarrow> \<not> aborted_flags w ! i"
    "\<And>i. i < length (w_uploads w) \<Longrightarrow> phases w ! i = Waiting \<Longrightarrow> pending_slot w i \<or> (ts \<noteq> [] \<and> hd ts = Send i)"
    "\<And>i. pending_slot w i \<Longrightarrow> int (w_limit w) \<le> w_sending w + (if chain_head ts then 1 else 0)"
    "\<And>i. i \<in> set (w_slots w) \<Longrightarrow> i < length (w_uploads w)"
  shows "limit_ok ts w"
  unfolding limit_ok_def using assms by blast

lemma limit_fail:
  assumes l: "limit_ok (Send i # ts) w" and w': "phases w' = phases w" "slot_states w' = slot_states w" "aborted_flags w' = aborted_flags w"
    "w_slots w' = w_slots w" "w_limit w' = w_limit w" "w_sequential w' = w_sequential w" "w_sequence w' = w_sequence w"
    "w_busy w' = w_busy w" "w_sending w' = w_sending w + 1"
  shows "limit_ok (Finish i # ts) (settle i False w')"
proof -
  have len: "length (w_uploads w') = length (w_uploads w)" using w'(1) by (metis length_phases(1))
  have i: "i < length (w_uploads w)" "phases w ! i = Waiting" using l by (simp_all add: limit_ok_def)
  have run: "running (settle i False w') = running w"
    using running_update [of i w "settle i False w'" "Settled False"] i w' by simp
  have pend: "pending_slot (settle i False w') j = pending_slot w j" for j
    using w' len by (simp add: pending_slot_def)
  have not: "\<not> pending_slot w i" using l by (simp add: limit_ok_def pending_slot_def)
  then have other: "pending_slot w j \<Longrightarrow> i \<noteq> j" for j by auto
  show ?thesis
  proof (rule limit_okI, unfold pend)
    fix j
    assume "pending_slot w j"
    with other limit_okD(8,9,10,12) [OF l this]
    show "j \<in> set (w_slots (settle i False w'))" "phases (settle i False w') ! j = Waiting"
      "\<not> aborted_flags (settle i False w') ! j"
      "int (w_limit (settle i False w')) \<le> w_sending (settle i False w') + (if chain_head (Finish i # ts) then 1 else 0)"
      by (simp_all add: w')
  next
    fix j
    assume j: "j < length (w_uploads (settle i False w'))" "phases (settle i False w') ! j = Waiting"
    then have "j \<noteq> i" "j < length (w_uploads w)" "phases w ! j = Waiting"
      using i by (auto simp: w' len nth_list_update split: if_splits)
    with limit_okD(11) [OF l this(2,3)] show "pending_slot w j \<or> Finish i # ts \<noteq> [] \<and> hd (Finish i # ts) = Send j"
      by simp
  qed (use limit_okD(1-7,13) [OF l] in \<open>simp_all add: run w' len\<close>)
qed

lemma limit_sent:
  assumes l: "limit_ok (Send i # ts) w" and w': "phases w' = phases w" "slot_states w' = slot_states w" "aborted_flags w' = aborted_flags w"
    "w_slots w' = w_slots w" "w_limit w' = w_limit w" "w_sequential w' = w_sequential w" "w_sequence w' = w_sequence w"
    "w_busy w' = w_busy w" "w_sending w' = w_sending w + 1"
    and na: "\<not> aborted_flags w ! i"
  shows "limit_ok ts (upd i (\<lambda>d. d\<lparr>up_phase := Sent\<rparr>) w')"
proof -
  let ?v = "upd i (\<lambda>d. d\<lparr>up_phase := Sent\<rparr>) w'"
  have len: "length (w_uploads w') = length (w_uploads w)" using w'(1) by (metis length_phases(1))
  have i: "i < length (w_uploads w)" "phases w ! i = Waiting" using l by (simp_all add: limit_ok_def)
  have ph: "phases ?v = (phases w)[i := Sent]" using w'(1) by (simp add: upd_phase)
  have views: "slot_states ?v = slot_states w" "aborted_flags ?v = aborted_flags w"
    using w' by (simp_all add: upd_views)
  have run: "int (running ?v) = int (running w) + 1"
    using running_update [OF i(1) ph] i(2) by simp
  have pend: "pending_slot ?v j = pending_slot w j" for j
    using views len by (simp add: pending_slot_def)
  have not: "\<not> pending_slot w i" using l by (simp add: limit_ok_def pending_slot_def)
  then have other: "pending_slot w j \<Longrightarrow> i \<noteq> j" for j by auto
  have stops: "list_all is_stop ts" "w_sending w < int (w_limit w)" using l na by (simp_all add: limit_ok_def)
  show ?thesis
  proof (rule limit_okI, unfold pend)
    fix j
    assume "pending_slot w j"
    with other limit_okD(8,9,10,12) [OF l this] stops_head [OF stops(1)]
    show "j \<in> set (w_slots ?v)" "phases ?v ! j = Waiting" "\<not> aborted_flags ?v ! j"
      "int (w_limit ?v) \<le> w_sending ?v + (if chain_head ts then 1 else 0)"
      by (simp_all add: w' ph views)
  next
    fix j
    assume j: "j < length (w_uploads ?v)" "phases ?v ! j = Waiting"
    then have "j \<noteq> i" "j < length (w_uploads w)" "phases w ! j = Waiting"
      using i by (auto simp: ph len nth_list_update split: if_splits)
    with limit_okD(11) [OF l this(2,3)] show "pending_slot w j \<or> ts \<noteq> [] \<and> hd ts = Send j"
      by simp
  next
    show "w_sending ?v = int (running ?v)" using limit_okD(5) [OF l] by (simp add: run w')
    show "running ?v \<le> w_limit ?v" using stops(2) limit_okD(5) [OF l] run by (simp add: w')
    show "limit_tasks ts ?v" by (rule stops_head(3) [OF stops(1)])
  qed (use limit_okD(1-4,13) [OF l] in \<open>simp_all add: w' len\<close>)
qed

lemma limit_run:
  "limit_ok ts w \<Longrightarrow> limit_ok [] (run ts w)"
proof (induction ts w rule: run.induct)
  case (1 w)
  then show ?case by (simp add: run.simps)
next
  case (2 i ts w)
  let ?w1 = "begin_send i w" and ?w2 = "trigger ''send'' (Some i) (begin_send i w)"
  have i: "i < length (w_uploads w)" "phases w ! i = Waiting" "aborted_flags w ! i \<or> w_sending w < int (w_limit w)"
    using limit_okD(7) [OF 2(6)] by simp_all
  have ph: "up_phase (ul ?w1 i) = Waiting" using i nth_phases(1) [of i ?w1] by simp
  have ab: "up_aborted (ul ?w1 i) = aborted_flags w ! i" using i(1) nth_phases(3) [of i ?w1] by simp
  have fail: "limit_ok (Finish i # ts) (settle i False ?w1)" "limit_ok (Finish i # ts) (settle i False ?w2)"
    by (rule limit_fail [OF 2(6)]; simp)+
  show ?case
  proof (cases "up_aborted (ul ?w1 i)")
    case True
    with "2.IH"(1) [OF refl ph True fail(1)] show ?thesis by (simp add: run.simps ph Let_def)
  next
    case False
    then have sent: "limit_ok ts (upd i (\<lambda>d. d\<lparr>up_phase := Sent\<rparr>) ?w2)"
      by (intro limit_sent [OF 2(6)]) (simp_all add: ab)
    show ?thesis
    proof (cases "up_prevent (ul ?w2 i)")
      case True
      with "2.IH"(2) [OF refl ph False refl True fail(2)] False show ?thesis by (simp add: run.simps ph Let_def)
    next
      case noprev: False
      with "2.IH"(3) [OF refl ph False refl noprev sent] False show ?thesis by (simp add: run.simps ph Let_def)
    qed
  qed
next
  case (3 i ts w)
  let ?ts = "if w_limit w \<noteq> 0 \<and> w_sending w < int (w_limit w) then NextSlot # Stop i # ts else Stop i # ts"
  note l = limit_okD [OF 3(2)]
  have stops: "list_all is_stop ts" using l(7) by simp
  have "limit_ok ?ts w"
  proof (rule limit_okI)
    show "limit_tasks ?ts w" using stops by simp
  next
    fix j
    assume "j < length (w_uploads w)" "phases w ! j = Waiting"
    from l(11) [OF this] show "pending_slot w j \<or> ?ts \<noteq> [] \<and> hd ?ts = Send j" by simp
  next
    fix j
    assume "pending_slot w j"
    from l(12) [OF this] l(2) show "int (w_limit w) \<le> w_sending w + (if chain_head ?ts then 1 else 0)" by auto
  qed (use l in simp_all)
  with 3(1) show ?case by (simp add: run.simps)
next
  case (4 ts w)
  note l = limit_okD [OF 4(4)]
  have stops: "list_all is_stop ts" "w_sending w < int (w_limit w)" using l(7) by simp_all
  show ?case
  proof (cases "w_slots w")
    case Nil
    have none: "\<not> pending_slot w j" for j using l(8) [of j] Nil by auto
    have "limit_ok ts w"
      using l(1-6,13) none l(11) stops_head(3) [OF stops(1)] by (intro limit_okI) auto
    with "4.IH"(1) [OF Nil] Nil show ?thesis by (simp add: run.simps)
  next
    case (Cons j js)
    show ?thesis
    proof (cases "up_slot (ul w j) = SlotPending")
      case True
      let ?v = "upd j (\<lambda>d. d\<lparr>up_slot := SlotResolved\<rparr>) (w\<lparr>w_slots := js\<rparr>)"
      have j: "j < length (w_uploads w)" using l(13) Cons by simp
      have pj: "pending_slot w j" using True j by (simp add: pending_slot_def nth_phases)
      have views: "phases ?v = phases w" "aborted_flags ?v = aborted_flags w"
        "slot_states ?v = (slot_states w)[j := SlotResolved]"
        by (simp_all add: upd_views upd_phase)
      have pend: "pending_slot ?v k \<longleftrightarrow> pending_slot w k \<and> k \<noteq> j" for k
        using j by (auto simp: pending_slot_def views nth_list_update)
      have run: "running ?v = running w" by (simp add: running_def views)
      have "limit_ok (Send j # ts) ?v"
      proof (rule limit_okI, unfold pend)
        fix k
        assume "pending_slot w k \<and> k \<noteq> j"
        with l(8-10,12) [of k] Cons
        show "k \<in> set (w_slots ?v)" "phases ?v ! k = Waiting" "\<not> aborted_flags ?v ! k"
          "int (w_limit ?v) \<le> w_sending ?v + (if chain_head (Send j # ts) then 1 else 0)"
          by (auto simp: views)
      next
        fix k
        assume k: "k < length (w_uploads ?v)" "phases ?v ! k = Waiting"
        then have "k < length (w_uploads w)" "phases w ! k = Waiting" by (simp_all add: views)
        from l(11) [OF this] show "pending_slot w k \<and> k \<noteq> j \<or> Send j # ts \<noteq> [] \<and> hd (Send j # ts) = Send k"
          by auto
      next
        show "limit_tasks (Send j # ts) ?v" using j l(9) [OF pj] stops by (simp add: views)
      qed (use l(1-6,13) Cons in \<open>simp_all add: run\<close>)
      with "4.IH"(2) [OF Cons True] Cons True show ?thesis by (simp add: run.simps)
    next
      case False
      let ?v = "w\<lparr>w_slots := js\<rparr>"
      have "limit_ok (NextSlot # ts) ?v"
      proof (rule limit_okI)
        fix k
        assume "pending_slot ?v k"
        then have k: "pending_slot w k" by simp
        then have "k \<noteq> j" using False by (auto simp: pending_slot_def nth_phases)
        with l(8-10,12) [OF k] Cons
        show "k \<in> set (w_slots ?v)" "phases ?v ! k = Waiting" "\<not> aborted_flags ?v ! k"
          "int (w_limit ?v) \<le> w_sending ?v + (if chain_head (NextSlot # ts) then 1 else 0)"
          by auto
      next
        fix k
        assume "k < length (w_uploads ?v)" "phases ?v ! k = Waiting"
        then show "pending_slot ?v k \<or> NextSlot # ts \<noteq> [] \<and> hd (NextSlot # ts) = Send k"
          using l(11) [of k] by simp
      qed (use l(1-7,13) Cons in \<open>simp_all add: running_def\<close>)
      with "4.IH"(3) [OF Cons False] Cons False show ?thesis by (simp add: run.simps)
    qed
  qed
next
  case (5 i ts w)
  note l = limit_okD [OF 5(2)]
  let ?v = "if w_active w = 0 then trigger ''stop'' None w else w"
  have stops: "list_all is_stop ts" using l(7) by simp
  have "limit_ok ts w"
  proof (rule limit_okI)
    fix j
    assume "j < length (w_uploads w)" "phases w ! j = Waiting"
    from l(11) [OF this] show "pending_slot w j \<or> ts \<noteq> [] \<and> hd ts = Send j" by simp
  next
    fix j
    assume "pending_slot w j"
    from l(12) [OF this] show "int (w_limit w) \<le> w_sending w + (if chain_head ts then 1 else 0)" by simp
  qed (use l stops_head(3) [OF stops] in simp_all)
  then have "limit_ok ts ?v" by (simp add: limit_trigger)
  moreover have "w_busy ?v = None" using l(4) by simp
  ultimately show ?case using 5(1) [OF refl] by (simp add: run.simps Let_def)
next
  case (6 ts w)
  then show ?case by (simp add: limit_ok_def)
qed

lemma new_limit_ok:
  assumes l: "limit_ok [] w"
  shows "limit_ok [] (onSend d w)"
proof -
  let ?i = "length (w_uploads w)" and ?w = "beforeSend (new_upload d) w"
  note D = limit_okD [OF l]
  have below: "pending_slot ?w j \<longleftrightarrow> pending_slot w j" for j
    by (auto simp: pending_slot_def nth_append)
  have run: "running ?w = running w" by (simp add: running_def)
  show ?thesis
  proof (cases "int (w_limit w) \<le> w_sending w")
    case True
    let ?v = "upd ?i (\<lambda>d. d\<lparr>up_slot := SlotPending\<rparr>) (?w\<lparr>w_slots := w_slots w @ [?i]\<rparr>)"
    have views: "phases ?v = phases w @ [Waiting]" "aborted_flags ?v = aborted_flags w @ [False]"
      "slot_states ?v = slot_states w @ [SlotPending]"
      by (simp_all add: upd_views upd_phase list_update_append)
    have pend: "pending_slot ?v j \<longleftrightarrow> pending_slot w j \<or> j = ?i" for j
      by (auto simp: pending_slot_def views nth_append)
    have "limit_ok [] ?v"
    proof (rule limit_okI, unfold pend)
      fix j
      assume j: "pending_slot w j \<or> j = ?i"
      show "j \<in> set (w_slots ?v)" using j D(8) by auto
      show "phases ?v ! j = Waiting" "\<not> aborted_flags ?v ! j"
        using j D(9,10) [of j] by (auto simp: views nth_append pending_slot_def)
      show "int (w_limit ?v) \<le> w_sending ?v + (if chain_head [] then 1 else 0)" using True by simp
    next
      fix j
      assume "j < length (w_uploads ?v)" "phases ?v ! j = Waiting"
      then show "(pending_slot w j \<or> j = ?i) \<or> [] \<noteq> [] \<and> hd [] = Send j"
        using D(11) [of j] by (cases "j = ?i") (auto simp: views nth_append)
    next
      fix j
      assume "j \<in> set (w_slots ?v)"
      then show "j < length (w_uploads ?v)" using D(13) [of j] by auto
    qed (use D(1-6) in \<open>auto simp: views running_def\<close>)
    then show ?thesis using True D(2) by (simp add: onSend_def Let_def)
  next
    case False
    have "limit_ok [Send ?i] ?w"
    proof (rule limit_okI, unfold below)
      fix j
      assume j: "pending_slot w j"
      then have "j < ?i" by (simp add: pending_slot_def)
      with D(8-10,12) [OF j] show "j \<in> set (w_slots ?w)" "phases ?w ! j = Waiting" "\<not> aborted_flags ?w ! j"
        "int (w_limit ?w) \<le> w_sending ?w + (if chain_head [Send ?i] then 1 else 0)"
        by (simp_all add: nth_append)
    next
      fix j
      assume "j < length (w_uploads ?w)" "phases ?w ! j = Waiting"
      then show "pending_slot w j \<or> [Send ?i] \<noteq> [] \<and> hd [Send ?i] = Send j"
        using D(11) [of j] by (cases "j = ?i") (auto simp: nth_append)
    next
      show "limit_tasks [Send ?i] ?w" using False by (simp add: nth_append)
      show "w_sending ?w = int (running ?w)" using D(5) by (simp add: run)
      show "running ?w \<le> w_limit ?w" using D(6) by (simp add: run)
    next
      fix j
      assume "j \<in> set (w_slots ?w)"
      then show "j < length (w_uploads ?w)" using D(13) [of j] by simp
    qed (use D(1-4) in simp_all)
    from limit_run [OF this] False D(1) show ?thesis by (simp add: onSend_def Let_def)
  qed
qed

lemma settled_limit_ok:
  assumes l: "limit_ok [] w" and i: "i < length (w_uploads w)" "up_phase (ul w i) = Sent"
  shows "limit_ok [] (run [Finish i] (settle i ok w))"
proof (rule limit_run, rule limit_okI)
  note D = limit_okD [OF l]
  have sent: "phases w ! i = Sent" using i by (simp add: nth_phases)
  have run: "int (running (settle i ok w)) = int (running w) - 1"
    using running_update [of i w "settle i ok w" "Settled ok"] i(1) sent by simp
  show "w_sending (settle i ok w) = int (running (settle i ok w))" using D(5) run by simp
  show "running (settle i ok w) \<le> w_limit (settle i ok w)" using D(6) run by simp
  fix j
  show "j \<in> set (w_slots (settle i ok w))" "phases (settle i ok w) ! j = Waiting"
    "\<not> aborted_flags (settle i ok w) ! j"
    "int (w_limit (settle i ok w)) \<le> w_sending (settle i ok w) + (if chain_head [Finish i] then 1 else 0)"
    if "pending_slot (settle i ok w) j"
    using D(8-10,12) [of j] that sent i(1) by (cases "i = j"; simp)+
  show "pending_slot (settle i ok w) j \<or> [Finish i] \<noteq> [] \<and> hd [Finish i] = Send j"
    if "j < length (w_uploads (settle i ok w))" "phases (settle i ok w) ! j = Waiting"
    using D(11) [of j] that i(1) by (cases "i = j") auto
  show "j < length (w_uploads (settle i ok w))" if "j \<in> set (w_slots (settle i ok w))"
    using D(13) [of j] that by simp
qed (use limit_okD(1-4) [OF l] in simp_all)

lemma aborted_limit_ok:
  assumes l: "limit_ok [] w" and i: "i < length (w_uploads w)" "up_phase (ul w i) = Waiting"
  shows "limit_ok [] (run [Send i] (upd i (\<lambda>d. d\<lparr>up_aborted := True,
    up_slot := if up_slot d = SlotPending then SlotRejected else up_slot d\<rparr>) w))"
proof (rule limit_run)
  let ?f = "\<lambda>d. d\<lparr>up_aborted := True, up_slot := if up_slot d = SlotPending then SlotRejected else up_slot d\<rparr>"
  let ?v = "upd i ?f w"
  note D = limit_okD [OF l]
  have ph: "phases ?v = phases w" by (simp add: upd_views)
  have views: "aborted_flags ?v = (aborted_flags w)[i := True]"
    by (simp add: upd_def aborted_flags_def map_update)
  have sl: "slot_states ?v ! j = (if i = j then if up_slot (ul w i) = SlotPending then SlotRejected else up_slot (ul w i)
      else slot_states w ! j)" if "j < length (w_uploads w)" for j
    using that i by (simp add: upd_def slot_states_def nth_list_update)
  have pend: "pending_slot ?v j \<longleftrightarrow> pending_slot w j \<and> j \<noteq> i" for j
    using i by (auto simp: pending_slot_def sl split: if_splits)
  show "limit_ok [Send i] ?v"
  proof (rule limit_okI, unfold pend)
    fix j
    assume "pending_slot w j \<and> j \<noteq> i"
    with D(8-10,12) [of j] show "j \<in> set (w_slots ?v)" "phases ?v ! j = Waiting" "\<not> aborted_flags ?v ! j"
      "int (w_limit ?v) \<le> w_sending ?v + (if chain_head [Send i] then 1 else 0)"
      by (simp_all add: ph views)
  next
    fix j
    assume "j < length (w_uploads ?v)" "phases ?v ! j = Waiting"
    then show "pending_slot w j \<and> j \<noteq> i \<or> [Send i] \<noteq> [] \<and> hd [Send i] = Send j"
      using D(11) [of j] by (auto simp: ph)
  next
    have "slot_states ?v ! i \<noteq> SlotPending" using i by (simp add: sl)
    then show "limit_tasks [Send i] ?v" using i by (simp add: ph views nth_phases(1))
    show "w_sending ?v = int (running ?v)" "running ?v \<le> w_limit ?v"
      using D(5,6) by (simp_all add: running_def ph)
  qed (use D(1-4,13) in simp_all)
qed

lemma limit_step:
  assumes l: "limit_ok [] w" and ok: "queue_ok e w"
  shows "limit_ok [] (queue_step e w)"
proof (cases e)
  case (Abort i)
  with ok l aborted_limit_ok [OF l] settled_limit_ok [OF l] show ?thesis
    by (auto simp: abort_def split: phase.split)
next
  case (Progress i m t)
  have "pending_slot (onProgress i m t w) j = pending_slot w j" for j by (simp add: pending_slot_def)
  then have "limit_ok [] (onProgress i m t w) = limit_ok [] w" by (simp add: limit_ok_def running_def)
  with Progress l show ?thesis by simp
next
  case (Wait ms)
  have "pending_slot (w\<lparr>w_now := n\<rparr>) j = pending_slot w j" for j n
    by (simp add: pending_slot_def slot_states_def)
  then have "limit_ok [] (w\<lparr>w_now := n\<rparr>) = limit_ok [] w" for n
    by (simp add: limit_ok_def running_def phases_def aborted_flags_def)
  with Wait l show ?thesis by simp
qed (use l ok new_limit_ok settled_limit_ok in \<open>auto simp: reply_def\<close>)

interpretation limits: page queue_step "limit_ok []" queue_ok
  by standard (rule limit_step)

lemma limit_created: "1 < l \<Longrightarrow> limit_ok [] (created False l t)"
  by (simp add: limit_ok_def created_def running_def phases_def pending_slot_def)

section \<open>Properties\<close>



section \<open>Settings in which the queue fails\<close>

text \<open>
  A limit of one is not kept: the upload that comes while one is under way goes
  to the sequence, which starts out resolved and so sends it at once.
\<close>

theorem limit_one_exceeded:
  assumes "\<not> up_prevent a" "\<not> up_prevent b"
  shows "running (limits.run [Submit a, Submit b] (created False 1 t)) = 2"
  using assms
  by (simp add: onSend_def run.simps beforeSend_def created_def new_upload_def begin_send_def upd_def trigger_def
      running_def phases_def Let_def)

lemma limit_one_exceeded_witness:
  "running (limits.run [Submit blank_upload, Submit blank_upload] (created False 1 0)) = 2"
  by (rule limit_one_exceeded) (simp_all add: blank_upload_def)

end
