(* ===== verification/UploadSequence.thy ===== *)
theory UploadSequence
  imports UploadQueueProps
begin

text \<open>
  The upload widget with \<open>sequentialUploads\<close> and no limit above one: the uploads are sent one at a time
  in the order they were submitted, an aborted one is skipped when its turn comes, and the sequence
  never stops while uploads wait. With a limit of two or more the uploads are put into slots that
  nothing empties, and none is ever sent.
\<close>

definition sends :: "widget \<Rightarrow> nat list" where
  "sends w = List.map_filter (\<lambda>(e, i). if e = ''send'' then i else None) (w_log w)"

definition at_rest :: "widget \<Rightarrow> bool" where
  "at_rest w \<longleftrightarrow> (case w_busy w of None \<Rightarrow> True | Some b \<Rightarrow> phases w ! b = Sent)"

text \<open>The tasks that can be on the stack, and what they say of the sequence.\<close>

fun seq_tasks :: "task list \<Rightarrow> widget \<Rightarrow> bool" where
  "seq_tasks [] w \<longleftrightarrow> at_rest w"
| "seq_tasks [Send i] w \<longleftrightarrow> i < length (w_uploads w) \<and> phases w ! i \<noteq> Sent \<and>
     (w_busy w = Some i \<and> (\<forall>s \<in> set (sends w). s < i) \<or>
      w_busy w \<noteq> Some i \<and> aborted_flags w ! i \<and> phases w ! i = Waiting \<and> at_rest w)"
| "seq_tasks [Finish i] w \<longleftrightarrow> phases w ! i \<noteq> Sent \<and> (at_rest w \<or> w_busy w = Some i)"
| "seq_tasks [Stop i] w \<longleftrightarrow> phases w ! i \<noteq> Sent \<and> (at_rest w \<or> w_busy w = Some i)"
| "seq_tasks [NextSlot, Stop i] w \<longleftrightarrow> phases w ! i \<noteq> Sent \<and> (at_rest w \<or> w_busy w = Some i)"
| "seq_tasks [NextInSequence] w \<longleftrightarrow> w_busy w \<noteq> None \<and> Sent \<notin> set (phases w)"
| "seq_tasks _ w \<longleftrightarrow> False"

definition seq_ok :: "task list \<Rightarrow> widget \<Rightarrow> bool" where
  "seq_ok ts w \<longleftrightarrow>
     w_sequential w \<and> w_limit w \<le> 1 \<and> w_slots w = [] \<and>
     sorted_wrt (<) (w_sequence w) \<and> (\<forall>i \<in> set (w_sequence w). i < length (w_uploads w)) \<and>
     (w_busy w = None \<longrightarrow> w_sequence w = []) \<and>
     (\<forall>b. w_busy w = Some b \<longrightarrow> b < length (w_uploads w) \<and> (\<forall>i \<in> set (w_sequence w). b < i) \<and> (\<forall>s \<in> set (sends w). s \<le> b)) \<and>
     sorted_wrt (<) (sends w) \<and> (\<forall>s \<in> set (sends w). s < length (w_uploads w)) \<and>
     (\<forall>i < length (w_uploads w). phases w ! i = Sent \<longrightarrow> w_busy w = Some i) \<and>
     (\<forall>i < length (w_uploads w). phases w ! i = Waiting \<longrightarrow> i \<in> set (w_sequence w) \<or> ts = [Send i]) \<and>
     seq_tasks ts w"

lemma seq_okD:
  assumes "seq_ok ts w"
  shows "w_sequential w" "w_limit w \<le> 1" "w_slots w = []" "sorted_wrt (<) (w_sequence w)"
    "i \<in> set (w_sequence w) \<Longrightarrow> i < length (w_uploads w)"
    "w_busy w = None \<Longrightarrow> w_sequence w = []"
    "w_busy w = Some b \<Longrightarrow> b < length (w_uploads w)"
    "w_busy w = Some b \<Longrightarrow> i \<in> set (w_sequence w) \<Longrightarrow> b < i"
    "w_busy w = Some b \<Longrightarrow> s \<in> set (sends w) \<Longrightarrow> s \<le> b"
    "sorted_wrt (<) (sends w)" "s \<in> set (sends w) \<Longrightarrow> s < length (w_uploads w)"
    "i < length (w_uploads w) \<Longrightarrow> phases w ! i = Sent \<Longrightarrow> w_busy w = Some i"
    "i < length (w_uploads w) \<Longrightarrow> phases w ! i = Waiting \<Longrightarrow> i \<in> set (w_sequence w) \<or> ts = [Send i]"
    "seq_tasks ts w"
proof -
  note parts = assms [unfolded seq_ok_def]
  show "w_sequential w" "w_limit w \<le> 1" "w_slots w = []" "sorted_wrt (<) (w_sequence w)" "sorted_wrt (<) (sends w)"
    "seq_tasks ts w"
    using parts by - (elim conjE, assumption)+
  show "i < length (w_uploads w)" if "i \<in> set (w_sequence w)"
  proof -
    have "\<forall>i \<in> set (w_sequence w). i < length (w_uploads w)" using parts by (elim conjE)
    then show ?thesis using that by blast
  qed
  show "w_sequence w = []" if "w_busy w = None"
  proof -
    have "w_busy w = None \<longrightarrow> w_sequence w = []" using parts by (elim conjE)
    then show ?thesis using that by blast
  qed
  have "\<forall>b. w_busy w = Some b \<longrightarrow> b < length (w_uploads w) \<and> (\<forall>i \<in> set (w_sequence w). b < i) \<and>
      (\<forall>s \<in> set (sends w). s \<le> b)"
    using parts by (elim conjE)
  then show "w_busy w = Some b \<Longrightarrow> b < length (w_uploads w)"
    "w_busy w = Some b \<Longrightarrow> i \<in> set (w_sequence w) \<Longrightarrow> b < i"
    "w_busy w = Some b \<Longrightarrow> s \<in> set (sends w) \<Longrightarrow> s \<le> b"
    by blast+
  show "s < length (w_uploads w)" if "s \<in> set (sends w)"
  proof -
    have "\<forall>s \<in> set (sends w). s < length (w_uploads w)" using parts by (elim conjE)
    then show ?thesis using that by blast
  qed
  show "w_busy w = Some i" if "i < length (w_uploads w)" "phases w ! i = Sent"
  proof -
    have "\<forall>i < length (w_uploads w). phases w ! i = Sent \<longrightarrow> w_busy w = Some i" using parts by (elim conjE)
    then show ?thesis using that by blast
  qed
  show "i \<in> set (w_sequence w) \<or> ts = [Send i]" if "i < length (w_uploads w)" "phases w ! i = Waiting"
  proof -
    have "\<forall>i < length (w_uploads w). phases w ! i = Waiting \<longrightarrow> i \<in> set (w_sequence w) \<or> ts = [Send i]"
      using parts by (elim conjE)
    then show ?thesis using that by blast
  qed
qed

lemma seq_okI:
  assumes "w_sequential w" "w_limit w \<le> 1" "w_slots w = []" "sorted_wrt (<) (w_sequence w)"
    "\<And>i. i \<in> set (w_sequence w) \<Longrightarrow> i < length (w_uploads w)"
    "w_busy w = None \<Longrightarrow> w_sequence w = []"
    "\<And>b. w_busy w = Some b \<Longrightarrow> b < length (w_uploads w)"
    "\<And>b i. w_busy w = Some b \<Longrightarrow> i \<in> set (w_sequence w) \<Longrightarrow> b < i"
    "\<And>b s. w_busy w = Some b \<Longrightarrow> s \<in> set (sends w) \<Longrightarrow> s \<le> b"
    "sorted_wrt (<) (sends w)" "\<And>s. s \<in> set (sends w) \<Longrightarrow> s < length (w_uploads w)"
    "\<And>i. i < length (w_uploads w) \<Longrightarrow> phases w ! i = Sent \<Longrightarrow> w_busy w = Some i"
    "\<And>i. i < length (w_uploads w) \<Longrightarrow> phases w ! i = Waiting \<Longrightarrow> i \<in> set (w_sequence w) \<or> ts = [Send i]"
    "seq_tasks ts w"
  shows "seq_ok ts w"
  unfolding seq_ok_def by (intro conjI allI ballI impI; rule assms; assumption)

section \<open>The parts of a step\<close>

lemma sends_trigger [simp]:
  "e \<noteq> ''send'' \<Longrightarrow> sends (trigger e i w) = sends w" "sends (trigger ''send'' (Some j) w) = sends w @ [j]"
  by (simp_all add: sends_def trigger_def List.map_filter_def)

lemma sends_frame [simp]:
  "sends (upd i f w) = sends w" "sends (begin_send i w) = sends w" "sends (w\<lparr>w_busy := b\<rparr>) = sends w"
  "sends (w\<lparr>w_sequence := q\<rparr>) = sends w" "sends (w\<lparr>w_uploads := us\<rparr>) = sends w" "sends (w\<lparr>w_now := n\<rparr>) = sends w"
  "sends (w\<lparr>w_slots := r\<rparr>) = sends w"
  by (simp_all add: sends_def upd_def begin_send_def)

lemma sends_onProgress [simp]: "sends (onProgress i l t w) = sends w"
  by (simp add: onProgress_def Let_def split: prod.split) (simp add: sends_def)

lemma sends_settle [simp]: "sends (settle i ok w) = sends w"
proof -
  have "sends (w\<lparr>w_sending := a\<rparr>) = sends w" "sends (w\<lparr>w_active := b\<rparr>) = sends w"
    "sends (w\<lparr>w_loaded := x\<rparr>) = sends w" "sends (w\<lparr>w_total := y\<rparr>) = sends w" for a b x y w
    by (simp_all add: sends_def)
  then show ?thesis by (simp add: settle_def onDone_def onFail_def Let_def)
qed

lemma at_rest_same: "w_busy v = w_busy w \<Longrightarrow> phases v = phases w \<Longrightarrow> at_rest v = at_rest w"
  by (simp add: at_rest_def split: option.split)

text \<open>An upload that is settled, whether it is the one the sequence waits for or an aborted one.\<close>

lemma seq_settle:
  assumes s: "seq_ok [Send i] w" and v: "phases v = phases w" "w_slots v = w_slots w" "w_limit v = w_limit w"
    "w_sequential v = w_sequential w" "w_sequence v = w_sequence w" "w_busy v = w_busy w"
    "sends v = sends w \<or> w_busy w = Some i \<and> sends v = sends w @ [i]"
  shows "seq_ok [Finish i] (settle i False v)"
proof -
  have len: "length (w_uploads v) = length (w_uploads w)" using v(1) by (metis length_phases(1))
  note D = seq_okD [OF s]
  have i: "i < length (w_uploads w)" "phases w ! i \<noteq> Sent" using D(14) by simp_all
  have mem: "x \<in> set (sends w) \<or> w_busy w = Some i \<and> x = i" if "x \<in> set (sends v)" for x using v(7) that by auto
  show ?thesis
  proof (rule seq_okI)
    fix b x
    assume "w_busy (settle i False v) = Some b" "x \<in> set (sends (settle i False v))"
    then show "x \<le> b" using mem [of x] D(9) [of b x] v(6) by auto
  next
    show "sorted_wrt (<) (sends (settle i False v))"
      using v(7) D(10,14) by (auto simp: sorted_wrt_append)
  next
    fix x
    assume "x \<in> set (sends (settle i False v))"
    then show "x < length (w_uploads (settle i False v))" using mem [of x] D(11) [of x] i(1) len by auto
  next
    fix j
    assume "j < length (w_uploads (settle i False v))" "phases (settle i False v) ! j = Sent"
    then show "w_busy (settle i False v) = Some j"
      using D(12) [of j] i v(1,6) len by (cases "i = j") auto
  next
    fix j
    assume "j < length (w_uploads (settle i False v))" "phases (settle i False v) ! j = Waiting"
    then show "j \<in> set (w_sequence (settle i False v)) \<or> [Finish i] = [Send j]"
      using D(13) [of j] i v(1,5) len by (cases "i = j") auto
  next
    have "w_busy w = Some i \<or> (w_busy w \<noteq> Some i \<and> at_rest w)" using D(14) by auto
    then show "seq_tasks [Finish i] (settle i False v)"
      using v(1,6) i(1) len by (auto simp: at_rest_def split: option.splits)
  qed (use D(1-8) v len in simp_all)
qed

lemma seq_sent:
  assumes s: "seq_ok [Send i] w" and v: "phases v = phases w" "w_slots v = w_slots w" "w_limit v = w_limit w"
    "w_sequential v = w_sequential w" "w_sequence v = w_sequence w" "w_busy v = w_busy w" "sends v = sends w @ [i]"
    and na: "\<not> aborted_flags w ! i"
  shows "seq_ok [] (upd i (\<lambda>d. d\<lparr>up_phase := Sent\<rparr>) v)"
proof -
  let ?v = "upd i (\<lambda>d. d\<lparr>up_phase := Sent\<rparr>) v"
  have len: "length (w_uploads v) = length (w_uploads w)" using v(1) by (metis length_phases(1))
  note D = seq_okD [OF s]
  have i: "i < length (w_uploads w)" "w_busy w = Some i" "\<forall>x \<in> set (sends w). x < i"
    using D(14) na by auto
  have ph: "phases ?v = (phases w)[i := Sent]" using v(1) by (simp add: upd_phase)
  show ?thesis
  proof (rule seq_okI)
    fix j
    assume "j < length (w_uploads ?v)" "phases ?v ! j = Waiting"
    then show "j \<in> set (w_sequence ?v) \<or> [] = [Send j]"
      using D(13) [of j] i ph v(5) len by (cases "i = j") auto
  next
    fix j
    assume "j < length (w_uploads ?v)" "phases ?v ! j = Sent"
    then show "w_busy ?v = Some j"
      using D(12) [of j] i ph v(6) len by (cases "i = j") auto
  next
    show "sorted_wrt (<) (sends ?v)" using D(10) i(3) v(7) by (simp add: sorted_wrt_append)
    show "seq_tasks [] ?v" using i v(6) by (simp add: at_rest_def ph)
  next
    fix b x
    assume "w_busy ?v = Some b" "x \<in> set (sends ?v)"
    then show "x \<le> b" using i v(6,7) by auto
  next
    fix x
    assume "x \<in> set (sends ?v)"
    then show "x < length (w_uploads ?v)" using i v(7) len by auto
  qed (use D(1-8) v len in simp_all)
qed

lemma seq_no_tail: "seq_ok (Send i # ts) w \<Longrightarrow> ts = []" "seq_ok (Finish i # ts) w \<Longrightarrow> ts = []"
  "seq_ok (Stop i # ts) w \<Longrightarrow> ts = []" "seq_ok (NextInSequence # ts) w \<Longrightarrow> ts = []"
  "seq_ok (NextSlot # ts) w \<Longrightarrow> \<exists>j. ts = [Stop j]"
  by (auto dest!: seq_okD(14) elim: seq_tasks.elims)

lemma seq_task_change:
  assumes "seq_ok ts w" "\<forall>i. ts \<noteq> [Send i]" "seq_tasks ts' w"
  shows "seq_ok ts' w"
proof (rule seq_okI)
  fix i
  assume "i < length (w_uploads w)" "phases w ! i = Waiting"
  from seq_okD(13) [OF assms(1) this] assms(2) show "i \<in> set (w_sequence w) \<or> ts' = [Send i]" by simp
qed (fact seq_okD [OF assms(1)] assms(3) | erule (1) seq_okD [OF assms(1)] | erule seq_okD [OF assms(1)])+

lemma not_sent: "seq_ok ts w \<Longrightarrow> w_busy w = Some i \<Longrightarrow> phases w ! i \<noteq> Sent \<Longrightarrow> Sent \<notin> set (phases w)"
  using seq_okD(12) [of ts w] by (metis in_set_conv_nth length_phases(1) option.inject)

lemma seq_tasks_frame:
  "phases v = phases w \<Longrightarrow> aborted_flags v = aborted_flags w \<Longrightarrow> w_busy v = w_busy w \<Longrightarrow> sends v = sends w \<Longrightarrow>
   seq_tasks ts v = seq_tasks ts w"
  using at_rest_same [of v w] length_phases(1) [of v] length_phases(1) [of w]
  by (cases "(ts, w)" rule: seq_tasks.cases) simp_all

lemma seq_frame:
  assumes "phases v = phases w" "aborted_flags v = aborted_flags w" "w_slots v = w_slots w" "w_limit v = w_limit w"
    "w_sequential v = w_sequential w" "w_sequence v = w_sequence w" "w_busy v = w_busy w" "sends v = sends w"
  shows "seq_ok ts v = seq_ok ts w"
proof -
  have len: "length (w_uploads v) = length (w_uploads w)" using assms(1) by (metis length_phases(1))
  have "seq_tasks ts v = seq_tasks ts w" using assms by (intro seq_tasks_frame) simp_all
  then show ?thesis unfolding seq_ok_def assms len by (rule arg_cong)
qed

section \<open>Steps\<close>

lemma seq_run: "seq_ok ts w \<Longrightarrow> seq_ok [] (run ts w)"
proof (induction ts w rule: run.induct)
  case (1 w)
  then show ?case by (simp add: run.simps)
next
  case (2 i ts w)
  let ?w1 = "begin_send i w" and ?w2 = "trigger ''send'' (Some i) (begin_send i w)"
  have ts: "ts = []" using 2(6) by (rule seq_no_tail)
  note s = 2(6) [unfolded ts]
  have tasks: "seq_tasks [Send i] w" using s by (rule seq_okD)
  then have i: "i < length (w_uploads w)" by simp
  have s1: "seq_ok [Send i] ?w1" using s by (subst seq_frame [of _ w]) simp_all
  have ph: "up_phase (ul ?w1 i) = phases w ! i" "up_aborted (ul ?w1 i) = aborted_flags w ! i"
    using i nth_phases(1,3) [of i ?w1] by simp_all
  show ?case
  proof (cases "phases w ! i")
    case Waiting
    have fail: "seq_ok [Finish i] (settle i False ?w1)" by (rule seq_settle [OF s]) simp_all
    show ?thesis
    proof (cases "up_aborted (ul ?w1 i)")
      case True
      then show ?thesis
        using "2.IH"(1) [OF refl ph(1) [unfolded Waiting] True] fail by (simp add: run.simps ph(1) Waiting ts Let_def)
    next
      case na: False
      then have busy: "w_busy w = Some i" using tasks ph(2) by auto
      have fail2: "seq_ok [Finish i] (settle i False ?w2)" by (rule seq_settle [OF s]) (simp_all add: busy)
      have sent: "seq_ok [] (upd i (\<lambda>d. d\<lparr>up_phase := Sent\<rparr>) ?w2)"
        by (rule seq_sent [OF s]) (use na ph(2) in simp_all)
      show ?thesis
      proof (cases "up_prevent (ul ?w2 i)")
        case True
        then show ?thesis
          using "2.IH"(2) [OF refl ph(1) [unfolded Waiting] na refl True] fail2 na
          by (simp add: run.simps ph(1) Waiting ts Let_def)
      next
        case False
        then show ?thesis
          using "2.IH"(3) [OF refl ph(1) [unfolded Waiting] na refl False] sent na
          by (simp add: run.simps ph(1) Waiting ts Let_def)
      qed
    qed
  next
    case Sent
    then show ?thesis using tasks by simp
  next
    case (Settled ok)
    then have busy: "w_busy w = Some i" using tasks by auto
    have "Sent \<notin> set (phases w)" by (rule not_sent [OF s busy]) (simp add: Settled)
    then have "seq_tasks [NextInSequence] ?w1" by (simp add: busy)
    moreover have "seq_ok ts' ?w1 \<longleftrightarrow> seq_ok ts' w" for ts' by (rule seq_frame) simp_all
    moreover have "seq_ok [NextInSequence] w"
    proof (rule seq_okI)
      fix j
      assume "j < length (w_uploads w)" "phases w ! j = Waiting"
      from seq_okD(13) [OF s this] Settled this show "j \<in> set (w_sequence w) \<or> [NextInSequence] = [Send j]" by auto
    next
      show "seq_tasks [NextInSequence] w" using \<open>Sent \<notin> set (phases w)\<close> busy by simp
    qed (fact seq_okD [OF s] | erule (1) seq_okD [OF s] | erule seq_okD [OF s])+
    ultimately show ?thesis
      using "2.IH"(5) [OF refl ph(1) [unfolded Settled]] busy by (simp add: run.simps ph(1) Settled ts Let_def)
  qed
next
  case (3 i ts w)
  have ts: "ts = []" using 3(2) by (rule seq_no_tail)
  note s = 3(2) [unfolded ts]
  have "seq_ok [NextSlot, Stop i] w"
    by (rule seq_task_change [OF s]) (use seq_okD(14) [OF s] in simp_all)
  moreover have "seq_ok [Stop i] w"
    by (rule seq_task_change [OF s]) (use seq_okD(14) [OF s] in simp_all)
  ultimately show ?case using 3(1) [unfolded ts] by (simp add: run.simps(3) ts)
next
  case (4 ts w)
  then obtain i where ts: "ts = [Stop i]" by (auto dest: seq_no_tail)
  note s = 4(4) [unfolded ts]
  have "seq_ok [Stop i] w" using seq_okD(14) [OF s] by (intro seq_task_change [OF s]) simp_all
  moreover have "w_slots w = []" using s by (rule seq_okD)
  ultimately show ?case using 4(1) by (simp add: run.simps ts)
next
  case (5 i ts w)
  have ts: "ts = []" using 5(2) by (rule seq_no_tail)
  note s = 5(2) [unfolded ts]
  let ?v = "if w_active w = 0 then trigger ''stop'' None w else w"
  have v: "seq_ok ts' ?v = seq_ok ts' w" for ts' by (rule seq_frame) simp_all
  show ?case
  proof (cases "w_busy w = Some i")
    case True
    moreover have "phases w ! i \<noteq> Sent" using seq_okD(14) [OF s] by simp
    ultimately have "seq_ok [NextInSequence] w"
      using not_sent [OF s] by (intro seq_task_change [OF s]) simp_all
    with True v show ?thesis using 5(1) [OF refl] by (cases "w_active w = 0") (simp_all add: run.simps(5) ts)
  next
    case False
    then have "seq_ok [] w" using seq_okD(14) [OF s] by (intro seq_task_change [OF s]) auto
    with False v show ?thesis using 5(1) [OF refl] by (cases "w_active w = 0") (simp_all add: run.simps(5) ts)
  qed
next
  case (6 ts w)
  have ts: "ts = []" using 6(3) by (rule seq_no_tail)
  note s = 6(3) [unfolded ts]
  note D = seq_okD [OF s]
  have none: "Sent \<notin> set (phases w)" using D(14) by simp
  then have not: "phases w ! j \<noteq> Sent" if "j < length (w_uploads w)" for j
    using that by (metis length_phases(1) nth_mem)
  show ?case
  proof (cases "w_sequence w")
    case Nil
    have "seq_ok [] (w\<lparr>w_busy := None\<rparr>)"
    proof (rule seq_okI)
      fix j
      assume "j < length (w_uploads (w\<lparr>w_busy := None\<rparr>))" "phases (w\<lparr>w_busy := None\<rparr>) ! j = Waiting"
      then show "j \<in> set (w_sequence (w\<lparr>w_busy := None\<rparr>)) \<or> [] = [Send j]" using D(13) [of j] by auto
    qed (use D(1-4,10,11) Nil not in \<open>auto simp: at_rest_def\<close>)
    with 6(1) [OF Nil] Nil show ?thesis by (simp add: run.simps ts)
  next
    case (Cons j js)
    let ?v = "w\<lparr>w_sequence := js, w_busy := Some j\<rparr>"
    have ph: "phases ?v = phases w" "sends ?v = sends w" by (simp_all add: phases_def sends_def)
    obtain b where b: "w_busy w = Some b" using D(14) by auto
    have j: "j < length (w_uploads w)" "b < j" "\<forall>k \<in> set js. j < k"
      using D(5) [of j] D(8) [OF b, of j] D(4) Cons by auto
    have "seq_ok [Send j] ?v"
    proof (rule seq_okI)
      fix k
      assume "k < length (w_uploads ?v)" "phases ?v ! k = Waiting"
      then show "k \<in> set (w_sequence ?v) \<or> [Send j] = [Send k]" using D(13) [of k] Cons ph by auto
    next
      fix c x
      assume "w_busy ?v = Some c" "x \<in> set (sends ?v)"
      then show "x \<le> c" using D(9) [OF b, of x] j(2) ph by auto
    next
      show "seq_tasks [Send j] ?v" using j not [of j] D(9) [OF b] ph by fastforce
    next
      fix k
      assume "k < length (w_uploads ?v)" "phases ?v ! k = Sent"
      then show "w_busy ?v = Some k" using not [of k] ph by simp
    qed (use D(1-5,10,11) Cons j ph in auto)
    with 6(2) [OF Cons] Cons show ?thesis by (simp add: run.simps ts)
  qed
qed

lemma seq_submit:
  assumes s: "seq_ok [] w"
  shows "seq_ok [] (onSend d w)"
proof -
  let ?i = "length (w_uploads w)" and ?w = "beforeSend (new_upload d) w"
  note D = seq_okD [OF s]
  have sends: "sends ?w = sends w" by (simp add: sends_def beforeSend_def trigger_def List.map_filter_def Let_def)
  show ?thesis
  proof (cases "w_busy w")
    case None
    let ?v = "?w\<lparr>w_busy := Some ?i\<rparr>"
    have "seq_ok [Send ?i] ?v"
    proof (rule seq_okI)
      fix j
      assume "j < length (w_uploads ?v)" "phases ?v ! j = Waiting"
      then show "j \<in> set (w_sequence ?v) \<or> [Send ?i] = [Send j]"
        using D(13) [of j] by (cases "j = ?i") (auto simp: nth_append)
    next
      fix j
      assume "j < length (w_uploads ?v)" "phases ?v ! j = Sent"
      then show "w_busy ?v = Some j"
        using D(12) [of j] None by (cases "j = ?i") (auto simp: nth_append)
    next
      fix b x
      assume "w_busy ?v = Some b" "x \<in> set (sends ?v)"
      then show "x \<le> b" using D(11) [of x] sends by auto
    next
      fix x
      assume "x \<in> set (sends ?v)"
      then show "x < length (w_uploads ?v)" using D(11) [of x] sends by auto
    next
      show "seq_tasks [Send ?i] ?v" using D(11) sends by (simp add: nth_append)
    qed (use D(1-4,10) D(6) [OF None] sends in simp_all)
    from seq_run [OF this] show ?thesis using D(1,2) None by (simp add: onSend_def Let_def)
  next
    case (Some b)
    let ?v = "?w\<lparr>w_sequence := w_sequence w @ [?i]\<rparr>"
    have "seq_ok [] ?v"
    proof (rule seq_okI)
      fix j
      assume "j < length (w_uploads ?v)" "phases ?v ! j = Waiting"
      then show "j \<in> set (w_sequence ?v) \<or> [] = [Send j]"
        using D(13) [of j] by (cases "j = ?i") (auto simp: nth_append)
    next
      fix j
      assume "j < length (w_uploads ?v)" "phases ?v ! j = Sent"
      then show "w_busy ?v = Some j"
        using D(12) [of j] by (cases "j = ?i") (auto simp: nth_append)
    next
      show "seq_tasks [] ?v" using D(14) D(7) [OF Some] Some by (simp add: at_rest_def nth_append)
    next
      fix x
      assume "x \<in> set (sends ?v)"
      then show "x < length (w_uploads ?v)" using D(11) [of x] sends by auto
    next
      fix x
      assume "x \<in> set (w_sequence ?v)"
      then show "x < length (w_uploads ?v)" using D(5) [of x] by auto
    next
      fix c x
      assume "w_busy ?v = Some c" "x \<in> set (w_sequence ?v)"
      then show "c < x" using D(8) [of c x] D(7) [of c] by auto
    next
      show "sorted_wrt (<) (w_sequence ?v)" using D(4,5) by (simp add: sorted_wrt_append)
    next
      fix c
      assume "w_busy ?v = Some c"
      then show "c < length (w_uploads ?v)" using D(7) [of c] by auto
    qed (use D(1-3,9,10) Some sends in simp_all)
    then show ?thesis using D(1,2) Some by (simp add: onSend_def Let_def)
  qed
qed

lemma seq_ended:
  assumes s: "seq_ok [] w" and i: "i < length (w_uploads w)" "up_phase (ul w i) = Sent"
  shows "seq_ok [] (run [Finish i] (settle i ok w))"
proof (rule seq_run, rule seq_okI)
  note D = seq_okD [OF s]
  have busy: "w_busy w = Some i" using D(12) [of i] i by (simp add: nth_phases)
  fix j
  show "j \<in> set (w_sequence (settle i ok w)) \<or> [Finish i] = [Send j]"
    if "j < length (w_uploads (settle i ok w))" "phases (settle i ok w) ! j = Waiting"
    using D(13) [of j] that i(1) by (cases "i = j") auto
  show "w_busy (settle i ok w) = Some j"
    if "j < length (w_uploads (settle i ok w))" "phases (settle i ok w) ! j = Sent"
    using D(12) [of j] that i(1) by (cases "i = j") auto
  show "seq_tasks [Finish i] (settle i ok w)" using i(1) busy by simp
qed (use seq_okD(1-11) [OF s] in simp_all)

lemma seq_aborted:
  assumes s: "seq_ok [] w" and i: "i < length (w_uploads w)" "up_phase (ul w i) = Waiting"
  shows "seq_ok [] (run [Send i] (upd i (\<lambda>d. d\<lparr>up_aborted := True,
    up_slot := if up_slot d = SlotPending then SlotRejected else up_slot d\<rparr>) w))"
proof (rule seq_run)
  let ?v = "upd i (\<lambda>d. d\<lparr>up_aborted := True, up_slot := if up_slot d = SlotPending then SlotRejected else up_slot d\<rparr>) w"
  note D = seq_okD [OF s]
  have views: "phases ?v = phases w" "aborted_flags ?v = (aborted_flags w)[i := True]"
    by (simp add: upd_views) (simp add: upd_def aborted_flags_def map_update)
  have w: "phases w ! i = Waiting" using i by (simp add: nth_phases)
  have rest: "at_rest w" using D(14) by simp
  then have "w_busy w \<noteq> Some i" using w by (auto simp: at_rest_def)
  show "seq_ok [Send i] ?v"
  proof (rule seq_okI)
    fix j
    assume "j < length (w_uploads ?v)" "phases ?v ! j = Waiting"
    then show "j \<in> set (w_sequence ?v) \<or> [Send i] = [Send j]" using D(13) [of j] views by auto
  next
    show "seq_tasks [Send i] ?v"
      using i w rest \<open>w_busy w \<noteq> Some i\<close> at_rest_same [of ?v w] by (simp add: views)
  next
    fix j
    assume "j < length (w_uploads ?v)" "phases ?v ! j = Sent"
    then show "w_busy ?v = Some j" using D(12) [of j] views by simp
  qed (use D(1-11) views in simp_all)
qed

lemma seq_step:
  assumes s: "seq_ok [] w" and ok: "queue_ok e w"
  shows "seq_ok [] (queue_step e w)"
proof (cases e)
  case (Abort i)
  with ok s seq_aborted [OF s] seq_ended [OF s] show ?thesis
    by (auto simp: abort_def split: phase.split)
next
  case (Progress i m t)
  have "seq_ok [] (onProgress i m t w) = seq_ok [] w" by (rule seq_frame) simp_all
  with Progress s show ?thesis by simp
next
  case (Wait ms)
  have "seq_ok [] (w\<lparr>w_now := n\<rparr>) = seq_ok [] w" for n
    by (rule seq_frame) (simp_all add: phases_def aborted_flags_def)
  with Wait s show ?thesis by simp
qed (use s ok seq_submit seq_ended in \<open>auto simp: reply_def\<close>)

interpretation sequence: page queue_step "seq_ok []" queue_ok
  by standard (rule seq_step)

lemma seq_created: "l \<le> 1 \<Longrightarrow> seq_ok [] (created True l t)"
  by (simp add: seq_ok_def created_def at_rest_def phases_def sends_def)

section \<open>Properties\<close>

lemma running_one:
  assumes "\<And>i. i < length (w_uploads w) \<Longrightarrow> phases w ! i = Sent \<Longrightarrow> w_busy w = Some i"
  shows "running w \<le> 1"
proof -
  have "{i. i < length (phases w) \<and> phases w ! i = Sent} \<subseteq> set_option (w_busy w)" using assms by auto
  then have "card {i. i < length (phases w) \<and> phases w ! i = Sent} \<le> card (set_option (w_busy w))"
    by (rule card_mono [rotated]) simp
  also have "\<dots> \<le> 1" by (cases "w_busy w") simp_all
  finally show ?thesis by (simp add: running_def length_filter_conv_card)
qed



definition idle_event :: "queue_event \<Rightarrow> bool" where
  "idle_event e \<longleftrightarrow> (case e of Submit d \<Rightarrow> True | Wait ms \<Rightarrow> True | _ \<Rightarrow> False)"

lemma stuck_run:
  "list_all idle_event es \<Longrightarrow> w_sequential w \<Longrightarrow> 1 < w_limit w \<Longrightarrow> sends w = [] \<Longrightarrow> Sent \<notin> set (phases w) \<Longrightarrow>
   sends (sequence.run es w) = [] \<and> Sent \<notin> set (phases (sequence.run es w))"
proof (induction es arbitrary: w)
  case (Cons e es)
  let ?v = "queue_step e w"
  have "w_sequential ?v \<and> 1 < w_limit ?v \<and> sends ?v = [] \<and> Sent \<notin> set (phases ?v)"
  proof (cases e)
    case (Submit d)
    have "sends (beforeSend (new_upload d) w) = []"
      using Cons.prems(4) by (simp add: sends_def beforeSend_def trigger_def List.map_filter_def Let_def)
    with Submit Cons.prems show ?thesis by (simp add: onSend_def Let_def upd_views)
  qed (use Cons.prems in \<open>simp_all add: idle_event_def phases_def\<close>)
  with Cons.IH [of ?v] Cons.prems(1) show ?case by simp
qed simp

text \<open>
  With \<open>sequentialUploads\<close> and a limit of two or more every upload gets a slot,
  and slots are only resolved when an upload ends: nothing that is submitted is ever sent, however
  many uploads come and whatever progress or time passes.
\<close>

theorem sequential_limit_stuck:
  assumes "1 < l" "list_all idle_event es" "w = sequence.run es (created True l t)"
  shows "sends w = [] \<and> running w = 0"
proof -
  have "Sent \<notin> set (phases w)" "sends w = []"
    unfolding assms(3) using stuck_run [OF assms(2), of "created True l t"] assms(1)
    by (simp_all add: created_def phases_def sends_def)
  then show ?thesis by (simp add: running_def filter_empty_conv) metis
qed

lemma sequential_limit_stuck_witness: "sends (sequence.run [Submit blank_upload, Wait 9] (created True 2 0)) = []"
  using sequential_limit_stuck [OF _ _ refl, of 2 "[Submit blank_upload, Wait 9]" 0] by (simp add: idle_event_def del: sequence.run.simps)

text \<open>
  An upload that is aborted while it waits in the sequence is counted in \<open>_sending\<close> a second
  time when its turn comes and never taken off again: after both uploads have ended the counter says
  that one is under way.
\<close>

theorem aborted_leak:
  "w_sending (sequence.run [Submit blank_upload, Submit blank_upload, Abort 1, Reply 0 True] (created True 0 0)) = 1
   \<and> running (sequence.run [Submit blank_upload, Submit blank_upload, Abort 1, Reply 0 True] (created True 0 0)) = 0
   \<and> w_active (sequence.run [Submit blank_upload, Submit blank_upload, Abort 1, Reply 0 True] (created True 0 0)) = 0"
  unfolding sequence.run.simps by code_simp

end
