(* ===== verification/UploadChunks.thy ===== *)
theory UploadChunks
  imports UploadQueueProps
begin

text \<open>
  The upload of a file in chunks (\<open>_chunkedUpload\<close> of \<open>jquery.fileupload.js\<close>): one request after the
  other, each with a slice of the file and a \<open>Content-Range\<close> header; the next one starts where the
  answer's \<open>Range\<close> header says, or else after the chunk. A transfer \<open>t\<close> belongs to upload \<open>ck_index t\<close>
  of the widget \<open>ck_widget t\<close>, which has been sent. A chunk has its own copy of the options, so its size
  and the time of its last progress event are set anew and are gone when the transfer ends. A progress
  event of 0 of 0 bytes makes the counters NaN in the source; here it raises the flag \<open>ck_nan\<close>.
\<close>

section \<open>State\<close>

record transfer =
  ck_widget :: widget
  ck_index :: nat
  ck_options :: settings
  ck_support :: support
  ck_prevent :: "nat \<Rightarrow> bool"  \<comment> \<open>the \<open>chunksend\<close> callback returns false at this offset\<close>
  ck_fs :: nat  \<comment> \<open>the size of the file\<close>
  ck_mcs :: nat
  ck_ub :: nat  \<comment> \<open>bytes uploaded so far\<close>
  ck_chunk :: nat  \<comment> \<open>\<open>chunkSize\<close> of the chunk under way\<close>
  ck_current_loaded :: int
  ck_requests :: "settings list"  \<comment> \<open>all requests so far\<close>
  ck_slices :: "(nat \<times> nat) list"  \<comment> \<open>their slices\<close>
  ck_waiting :: bool  \<comment> \<open>the last of them is under way\<close>
  ck_events :: "string list"
  ck_end :: "bool option"  \<comment> \<open>resolved or rejected\<close>
  ck_nan :: bool

definition content_range :: "nat \<Rightarrow> nat \<Rightarrow> nat \<Rightarrow> string" where
  "content_range ub chunk fs = ''bytes '' @ dec ub @ ''-'' @ dec (ub + chunk - 1) @ ''/'' @ dec fs"

section \<open>Sending chunks\<close>

text \<open>The promise of the whole upload is settled, and with it the upload in the widget.\<close>

definition transfer_ended :: "bool \<Rightarrow> transfer \<Rightarrow> transfer" where
  "transfer_ended ok t =
     t\<lparr>ck_waiting := False, ck_end := Some ok,
       ck_widget := reply (ck_index t) ok (upd (ck_index t) (\<lambda>d. d\<lparr>up_chunk := 0, up_time := 0\<rparr>) (ck_widget t))\<rparr>"

definition chunk_failed :: "transfer \<Rightarrow> transfer" where
  "chunk_failed t = transfer_ended False (t\<lparr>ck_events := ck_events t @ [''chunkfail'', ''chunkalways'']\<rparr>)"

definition send_chunk :: "transfer \<Rightarrow> transfer" where
  "send_chunk t =
     (let ub = ck_ub t; hi = min (ub + ck_mcs t) (ck_fs t); chunk = hi - ub;
          req = initXHRData (ck_support t)
            ((ck_options t)\<lparr>blob := Some (ub, hi), contentRange := content_range ub chunk (ck_fs t)\<rparr>);
          t1 = t\<lparr>ck_chunk := chunk, ck_current_loaded := up_loaded (ul (ck_widget t) (ck_index t)),
                 ck_widget := upd (ck_index t) (\<lambda>d. d\<lparr>up_chunk := int chunk, up_time := 0\<rparr>) (ck_widget t),
                 ck_events := ck_events t @ [''chunksend'']\<rparr>
      in if ck_prevent t ub then chunk_failed t1
         else t1\<lparr>ck_requests := ck_requests t @ [req], ck_slices := ck_slices t @ [(ub, hi)], ck_waiting := True\<rparr>)"

text \<open>The progress event after a chunk, unless one has already said that it is complete.\<close>

definition chunk_progress :: "nat \<Rightarrow> transfer \<Rightarrow> transfer" where
  "chunk_progress ub t =
     (let d = ul (ck_widget t) (ck_index t); l = int ub - up_uploaded d in
      if ck_current_loaded t + int (ck_chunk t) - up_loaded d = 0 then t
      else if l = 0 then t\<lparr>ck_nan := True\<rparr>
      else t\<lparr>ck_widget := onProgress (ck_index t) l l (ck_widget t)\<rparr>)"

definition chunk_done :: "string option \<Rightarrow> transfer \<Rightarrow> transfer" where
  "chunk_done range_header t =
     (let ub = (case getUploadedBytes range_header of Some n \<Rightarrow> n | None \<Rightarrow> ck_ub t + ck_chunk t);
          t1 = chunk_progress ub t;
          t2 = t1\<lparr>ck_ub := ub, ck_widget := upd (ck_index t) (\<lambda>d. d\<lparr>up_uploaded := int ub\<rparr>) (ck_widget t1),
                  ck_events := ck_events t @ [''chunkdone'', ''chunkalways''], ck_waiting := False\<rparr>
      in if ub < ck_fs t then send_chunk t2 else transfer_ended True t2)"

text \<open>
  \<open>None\<close> is the value false: the file is not uploaded in chunks. A file whose size the browser does
  not know is not chunked by its size; with \<open>uploadedBytes\<close> alone the comparisons with the undefined
  size are false, the slice is \<open>NaN\<close> and the code sends an empty blob: not modelled.
\<close>

definition chunkedUpload :: "support \<Rightarrow> (nat \<Rightarrow> bool) \<Rightarrow> settings \<Rightarrow> nat \<Rightarrow> widget \<Rightarrow> transfer option" where
  "chunkedUpload sp prevent s i w =
     (case f_size (hd (files s)) of
        None \<Rightarrow> None
      | Some fs \<Rightarrow>
          if \<not> chunked sp s then None
          else let t = \<lparr>ck_widget = upd i (\<lambda>d. d\<lparr>up_uploaded := int (uploadedBytes s)\<rparr>) w, ck_index = i, ck_options = s, ck_support = sp,
                        ck_prevent = prevent, ck_fs = fs,
                        ck_mcs = if maxChunkSize s = 0 then fs else maxChunkSize s, ck_ub = uploadedBytes s,
                        ck_chunk = 0, ck_current_loaded = 0, ck_requests = [], ck_slices = [], ck_waiting = False,
                        ck_events = [], ck_end = None, ck_nan = False\<rparr>
               in Some (if fs \<le> uploadedBytes s then transfer_ended False (t\<lparr>ck_events := [''Uploaded bytes exceed file size'']\<rparr>)
                        else send_chunk t))"

section \<open>Events of a transfer\<close>

datatype chunk_event = ChunkDone "string option" | ChunkFail | ChunkAbort | ChunkProgress int int

fun chunk_step :: "chunk_event \<Rightarrow> transfer \<Rightarrow> transfer" where
  "chunk_step (ChunkDone h) t = (if ck_waiting t then chunk_done h t else t)"
| "chunk_step ChunkFail t = (if ck_waiting t then chunk_failed t else t)"
| "chunk_step ChunkAbort t = (if ck_waiting t then chunk_failed t else t)"
| "chunk_step (ChunkProgress l n) t =
     (if ck_waiting t \<and> 0 < n then t\<lparr>ck_widget := onProgress (ck_index t) l n (ck_widget t)\<rparr> else t)"

section \<open>Headers\<close>

lemma request_range:
  "contentRange s \<noteq> [] \<Longrightarrow> map_of (headers (initXHRData sp s)) ''Content-Range'' = Some (contentRange s)"
  by (simp add: initXHRData_def Let_def map_of_put_header)

lemma range_parsed:
  assumes "CHR ''-'' \<notin> set pre" "0 < n"
  shows "getUploadedBytes (Some (pre @ ''-'' @ dec n)) = Some (n + 1)"
proof -
  have digits: "\<forall>c \<in> set (dec n). is_digit c" using dec_digits by blast
  then have no: "CHR ''-'' \<notin> set (dec n)" by (auto simp: is_digit_def)
  then have "split_on CHR ''-'' (pre @ CHR ''-'' # dec n) = [pre, dec n]"
    using assms(1) by (simp add: split_on_append split_on_id)
  moreover have "dropWhile (\<lambda>c. js_space (of_char c)) (dec n) = dec n"
    using dec_no_space [of _ n] by (intro dropWhile_id) auto
  ultimately show ?thesis using assms(2) by (simp add: getUploadedBytes_def takeWhile_id [OF digits] Let_def)
qed

section \<open>The requests of a transfer\<close>

definition requests_ok :: "transfer \<Rightarrow> bool" where
  "requests_ok t \<longleftrightarrow>
     map (\<lambda>q. map_of (headers q) ''Content-Range'') (ck_requests t) =
       map (\<lambda>(a, b). Some (content_range a (b - a) (ck_fs t))) (ck_slices t) \<and>
     (\<forall>(a, b) \<in> set (ck_slices t). a < b \<and> b \<le> ck_fs t \<and> b - a \<le> ck_mcs t) \<and> (0 < ck_fs t \<longrightarrow> 0 < ck_mcs t)"

text \<open>A transfer under way: its last request is that of the current chunk.\<close>

definition transfer_ok :: "transfer \<Rightarrow> bool" where
  "transfer_ok t \<longleftrightarrow> requests_ok t \<and>
     (ck_waiting t \<longrightarrow> ck_end t = None \<and> ck_slices t \<noteq> [] \<and> last (ck_slices t) = (ck_ub t, ck_ub t + ck_chunk t) \<and>
       ck_ub t < ck_fs t) \<and>
     (\<not> ck_waiting t \<longrightarrow> ck_end t \<noteq> None)"

lemma requests_frame:
  "ck_requests v = ck_requests t \<Longrightarrow> ck_slices v = ck_slices t \<Longrightarrow> ck_fs v = ck_fs t \<Longrightarrow> ck_mcs v = ck_mcs t \<Longrightarrow>
   requests_ok v = requests_ok t"
  by (simp add: requests_ok_def)

lemma ended_ok: "requests_ok t \<Longrightarrow> transfer_ok (transfer_ended ok t)"
  using requests_frame [of "transfer_ended ok t" t] by (simp add: transfer_ok_def transfer_ended_def)

lemma failed_ok: "requests_ok t \<Longrightarrow> transfer_ok (chunk_failed t)"
  unfolding chunk_failed_def by (rule ended_ok) (simp add: requests_ok_def)

lemma send_ok:
  assumes r: "requests_ok t" and ub: "ck_ub t < ck_fs t" and e: "ck_end t = None"
  shows "transfer_ok (send_chunk t)"
proof (cases "ck_prevent t (ck_ub t)")
  case True
  have "requests_ok (t\<lparr>ck_chunk := c, ck_current_loaded := l, ck_widget := w, ck_events := ev\<rparr>)" for c l w ev
    using r by (simp add: requests_ok_def)
  with True show ?thesis by (simp add: send_chunk_def Let_def failed_ok)
next
  case False
  let ?hi = "min (ck_ub t + ck_mcs t) (ck_fs t)"
  have mcs: "0 < ck_mcs t" using r ub by (simp add: requests_ok_def)
  have "contentRange s \<noteq> [] \<Longrightarrow> map_of (headers (initXHRData sp s)) ''Content-Range'' = Some (contentRange s)" for sp s
    by (rule request_range)
  moreover have "content_range a b c \<noteq> []" for a b c by (simp add: content_range_def)
  ultimately show ?thesis
    using False r ub e mcs by (auto simp: send_chunk_def transfer_ok_def requests_ok_def Let_def)
qed

lemma chunk_progress_fields [simp]:
  "ck_fs (chunk_progress ub t) = ck_fs t" "ck_mcs (chunk_progress ub t) = ck_mcs t"
  "ck_requests (chunk_progress ub t) = ck_requests t" "ck_slices (chunk_progress ub t) = ck_slices t"
  "ck_end (chunk_progress ub t) = ck_end t" "ck_index (chunk_progress ub t) = ck_index t"
  "ck_prevent (chunk_progress ub t) = ck_prevent t" "ck_events (chunk_progress ub t) = ck_events t"
  "ck_options (chunk_progress ub t) = ck_options t" "ck_support (chunk_progress ub t) = ck_support t"
  by (simp_all add: chunk_progress_def Let_def)

lemma transfer_step:
  assumes t: "transfer_ok t"
  shows "transfer_ok (chunk_step e t)"
proof (cases "ck_waiting t")
  case False
  with t show ?thesis by (cases e) simp_all
next
  case True
  then have r: "requests_ok t" "ck_end t = None" "ck_ub t < ck_fs t" using t by (simp_all add: transfer_ok_def)
  show ?thesis
  proof (cases e)
    case (ChunkDone h)
    define ub where "ub = (case getUploadedBytes h of Some n \<Rightarrow> n | None \<Rightarrow> ck_ub t + ck_chunk t)"
    let ?t1 = "chunk_progress ub t"
    let ?t2 = "?t1\<lparr>ck_ub := ub, ck_widget := upd (ck_index t) (\<lambda>d. d\<lparr>up_uploaded := int ub\<rparr>) (ck_widget ?t1),
                  ck_events := ck_events t @ [''chunkdone'', ''chunkalways''], ck_waiting := False\<rparr>"
    have ok: "requests_ok ?t2" using r(1) by (subst requests_frame [of _ t]) simp_all
    have "chunk_step e t = (if ub < ck_fs t then send_chunk ?t2 else transfer_ended True ?t2)"
      using True ChunkDone by (simp add: chunk_done_def ub_def Let_def)
    moreover have "transfer_ok (send_chunk ?t2)" if "ub < ck_fs t"
      using ok that r(2) by (intro send_ok) simp_all
    ultimately show ?thesis using ended_ok [OF ok] by simp
  next
    case (ChunkProgress l n)
    with True t show ?thesis by (simp add: transfer_ok_def requests_ok_def)
  qed (use True r in \<open>simp_all add: failed_ok\<close>)
qed

interpretation chunks: page chunk_step transfer_ok "\<lambda>e t. True"
  by standard (rule transfer_step)

lemma chunks_run_ok: "chunks.ok_run es t"
  by (induction es arbitrary: t) simp_all

lemma chunked_start:
  assumes "chunkedUpload sp prevent s i w = Some t" "f_size (hd (files s)) = Some fs" "uploadedBytes s < fs"
  obtains t0 where "t = send_chunk t0" "requests_ok t0" "ck_ub t0 = uploadedBytes s" "ck_end t0 = None" "ck_fs t0 = fs"
    "ck_mcs t0 = (if maxChunkSize s = 0 then fs else maxChunkSize s)" "ck_slices t0 = []" "ck_prevent t0 = prevent"
    "ck_index t0 = i" "ck_widget t0 = upd i (\<lambda>d. d\<lparr>up_uploaded := int (uploadedBytes s)\<rparr>) w" "ck_options t0 = s"
  using assms that by (auto simp: chunkedUpload_def requests_ok_def Let_def split: if_splits)

lemma chunked_ok:
  assumes "chunkedUpload sp prevent s i w = Some t"
  shows "transfer_ok t"
proof -
  obtain fs where fs: "f_size (hd (files s)) = Some fs" "chunked sp s"
    using assms by (auto simp: chunkedUpload_def split: option.splits if_splits)
  show ?thesis
  proof (cases "uploadedBytes s < fs")
    case True
    then obtain t0 where "t = send_chunk t0" "requests_ok t0" "ck_ub t0 = uploadedBytes s" "ck_end t0 = None" "ck_fs t0 = fs"
      using assms fs(1) by (auto elim: chunked_start)
    with True send_ok [of t0] show ?thesis by simp
  next
    case False
    show ?thesis
      using assms fs False
      by (auto simp: chunkedUpload_def transfer_ok_def requests_ok_def transfer_ended_def Let_def)
  qed
qed

section \<open>How far an upload is\<close>

definition loads :: "widget \<Rightarrow> int list" where
  "loads w = map up_loaded (w_uploads w)"

lemma loads_upd: "(\<And>d. up_loaded (f d) = up_loaded d) \<Longrightarrow> loads (upd i f w) = loads w"
  by (simp add: upd_def loads_def map_update_same)

lemma loads_frame [simp]:
  "loads (w\<lparr>w_sending := a\<rparr>) = loads w" "loads (w\<lparr>w_active := b\<rparr>) = loads w"
  "loads (w\<lparr>w_slots := c\<rparr>) = loads w" "loads (w\<lparr>w_sequence := c\<rparr>) = loads w" "loads (w\<lparr>w_busy := e\<rparr>) = loads w"
  "loads (w\<lparr>w_loaded := x\<rparr>) = loads w" "loads (w\<lparr>w_total := y\<rparr>) = loads w" "loads (trigger t j w) = loads w"
  by (simp_all add: loads_def)

lemma loads_send [simp]: "loads (begin_send i w) = loads w" "loads (settle i False w) = loads w"
  by (simp_all add: begin_send_def settle_def onFail_def loads_upd Let_def)

lemma loads_run: "loads (run ts w) = loads w"
proof (induction ts w rule: run.induct)
  case (2 i ts w)
  then show ?case by (auto simp: run.simps(2) Let_def loads_upd split: phase.splits)
next
  case (3 i ts w)
  then show ?case by (simp add: run.simps(3))
next
  case (4 ts w)
  then show ?case by (simp add: run.simps(4) loads_upd split: list.split)
next
  case (5 i ts w)
  have "loads (if w_active w = 0 then trigger ''stop'' None w else w) = loads w" by simp
  with 5 show ?case by (simp only: run.simps(5) Let_def)
next
  case (6 ts w)
  then show ?case by (simp add: run.simps(6) split: list.split)
qed (simp add: run.simps)

lemma ul_upd: "i < length (w_uploads w) \<Longrightarrow> ul (upd i f w) i = f (ul w i)"
  by (simp add: upd_def)

lemma nth_loads: "i < length (w_uploads w) \<Longrightarrow> up_loaded (ul w i) = loads w ! i"
  by (simp add: loads_def)

text \<open>A progress event that says that all is loaded is never suppressed.\<close>

lemma onProgress_all:
  assumes "i < length (w_uploads w)" "l \<noteq> 0" "up_chunk (ul w i) \<noteq> 0"
  shows "up_loaded (ul (onProgress i l l w) i) = up_chunk (ul w i) + up_uploaded (ul w i)"
    and "up_uploaded (ul (onProgress i l l w) i) = up_uploaded (ul w i)"
    and "up_total (ul (onProgress i l l w) i) = up_total (ul w i)"
  using assms by (simp_all add: onProgress_def Let_def upd_def trigger_def split: prod.split)

lemma reply_loaded:
  assumes "i < length (w_uploads w)" "up_loaded (ul w i) = up_total (ul w i)"
  shows "up_loaded (ul (reply i True w) i) = up_total (ul w i)"
proof -
  have "loads (settle i True w) = loads w"
    using assms by (simp add: settle_def onDone_def Let_def loads_upd ul_upd)
  then have "loads (reply i True w) = loads w" by (simp add: reply_def loads_run)
  moreover have "length (w_uploads (reply i True w)) = length (w_uploads w)"
    using calculation by (metis length_map loads_def)
  ultimately show ?thesis using assms by (simp add: nth_loads)
qed

section \<open>A transfer without interruption\<close>

text \<open>A chunk under way whose predecessors were answered without a \<open>Range\<close> header.\<close>

definition steady :: "nat \<Rightarrow> transfer \<Rightarrow> bool" where
  "steady start t \<longleftrightarrow>
     ck_waiting t \<and> ck_end t = None \<and> (\<forall>n. \<not> ck_prevent t n) \<and> 0 < ck_mcs t \<and> start \<le> ck_ub t \<and> ck_ub t < ck_fs t \<and>
     ck_chunk t = min (ck_mcs t) (ck_fs t - ck_ub t) \<and>
     concat (map (\<lambda>(a, b). [a..<b]) (ck_slices t)) = [start..<ck_ub t + ck_chunk t] \<and>
     ck_index t < length (w_uploads (ck_widget t)) \<and> ck_current_loaded t = int (ck_ub t) \<and>
     (let d = ul (ck_widget t) (ck_index t)
      in up_loaded d = int (ck_ub t) \<and> up_uploaded d = int (ck_ub t) \<and> up_total d = int (ck_fs t) \<and> up_chunk d = int (ck_chunk t))"

lemma steady_send:
  assumes t: "ck_end t = None" "\<forall>n. \<not> ck_prevent t n" "0 < ck_mcs t" "start \<le> ck_ub t" "ck_ub t < ck_fs t"
    "concat (map (\<lambda>(a, b). [a..<b]) (ck_slices t)) = [start..<ck_ub t]" "ck_index t < length (w_uploads (ck_widget t))"
    and d: "up_loaded (ul (ck_widget t) (ck_index t)) = int (ck_ub t)" "up_uploaded (ul (ck_widget t) (ck_index t)) = int (ck_ub t)"
      "up_total (ul (ck_widget t) (ck_index t)) = int (ck_fs t)"
  shows "steady start (send_chunk t)"
proof -
  let ?hi = "min (ck_ub t + ck_mcs t) (ck_fs t)"
  have "[start..<ck_ub t] @ [ck_ub t..<?hi] = [start..<?hi]"
    using upt_add_eq_append [of start "ck_ub t" "?hi - ck_ub t"] t(3-5) by simp
  then show ?thesis using t d by (simp add: steady_def send_chunk_def Let_def ul_upd min_diff)
qed

lemma steady_done:
  assumes s: "steady start t"
  defines "ub \<equiv> ck_ub t + ck_chunk t" and "r \<equiv> chunk_step (ChunkDone None) t"
  shows "ub < ck_fs t \<Longrightarrow> steady start r \<and> ck_ub r = ub"
    and "ck_fs t \<le> ub \<Longrightarrow> ck_end r = Some True \<and>
      concat (map (\<lambda>(a, b). [a..<b]) (ck_slices r)) = [start..<ck_fs t] \<and>
      up_loaded (ul (ck_widget r) (ck_index t)) = int (ck_fs t)"
    and "ck_fs r = ck_fs t" "ck_mcs r = ck_mcs t" "ck_index r = ck_index t"
proof -
  let ?w = "ck_widget t" and ?i = "ck_index t" and ?c = "int (ck_chunk t)"
  have i: "?i < length (w_uploads ?w)" and chunk: "0 < ck_chunk t"
    and d: "up_loaded (ul ?w ?i) = int (ck_ub t)" "up_uploaded (ul ?w ?i) = int (ck_ub t)"
      "up_total (ul ?w ?i) = int (ck_fs t)" "up_chunk (ul ?w ?i) = ?c"
    using s by (auto simp: steady_def Let_def)
  have cl: "ck_current_loaded t = int (ck_ub t)" and waiting: "ck_waiting t" using s by (simp_all add: steady_def)
  have p: "chunk_progress ub t = t\<lparr>ck_widget := onProgress ?i ?c ?c ?w\<rparr>"
    using chunk by (simp add: chunk_progress_def ub_def d cl Let_def)
  define t2 where "t2 = t\<lparr>ck_ub := ub, ck_widget := upd ?i (\<lambda>d. d\<lparr>up_uploaded := int ub\<rparr>) (onProgress ?i ?c ?c ?w),
      ck_events := ck_events t @ [''chunkdone'', ''chunkalways''], ck_waiting := False\<rparr>"
  have r: "r = (if ub < ck_fs t then send_chunk t2 else transfer_ended True t2)"
    using waiting by (simp add: r_def chunk_done_def getUploadedBytes_def Let_def t2_def p flip: ub_def)
  have d2: "up_loaded (ul (ck_widget t2) ?i) = int ub" "up_uploaded (ul (ck_widget t2) ?i) = int ub"
    "up_total (ul (ck_widget t2) ?i) = int (ck_fs t)"
    using onProgress_all [OF i, of ?c] d chunk i by (simp_all add: t2_def ul_upd ub_def)
  show "steady start r \<and> ck_ub r = ub" if "ub < ck_fs t"
  proof -
    have "steady start (send_chunk t2)"
      by (rule steady_send) (use s that d2 i in \<open>simp_all add: steady_def t2_def ub_def\<close>)
    moreover have "ck_ub (send_chunk t2) = ub"
      using s by (simp add: send_chunk_def Let_def t2_def steady_def)
    ultimately show ?thesis using r that by simp
  qed
  show "ck_end r = Some True \<and> concat (map (\<lambda>(a, b). [a..<b]) (ck_slices r)) = [start..<ck_fs t] \<and>
      up_loaded (ul (ck_widget r) ?i) = int (ck_fs t)" if "ck_fs t \<le> ub"
  proof -
    have ub: "ub = ck_fs t" using s that by (simp add: steady_def ub_def)
    have "up_loaded (ul (ck_widget r) ?i) = up_total (ul (upd ?i (\<lambda>d. d\<lparr>up_chunk := 0, up_time := 0\<rparr>) (ck_widget t2)) ?i)"
      unfolding r using d2 i ub
      by (subst if_not_P, simp, simp only: transfer_ended_def transfer.simps)
        (simp add: t2_def reply_loaded ul_upd)
    then show ?thesis using s r ub d2 i by (simp add: transfer_ended_def t2_def steady_def ub_def ul_upd)
  qed
  show "ck_fs r = ck_fs t" "ck_mcs r = ck_mcs t" "ck_index r = ck_index t"
    using s by (simp_all add: r send_chunk_def transfer_ended_def Let_def t2_def steady_def)
qed

lemma steady_run:
  "steady start t \<Longrightarrow> k = (ck_fs t - ck_ub t + ck_mcs t - 1) div ck_mcs t \<Longrightarrow>
   ck_end (chunks.run (replicate k (ChunkDone None)) t) = Some True \<and>
   concat (map (\<lambda>(a, b). [a..<b]) (ck_slices (chunks.run (replicate k (ChunkDone None)) t))) = [start..<ck_fs t] \<and>
   up_loaded (ul (ck_widget (chunks.run (replicate k (ChunkDone None)) t)) (ck_index t)) = int (ck_fs t)"
proof (induction k arbitrary: t)
  case 0
  then have "0 < ck_mcs t" "ck_ub t < ck_fs t" by (simp_all add: steady_def)
  then have "1 \<le> (ck_fs t - ck_ub t + ck_mcs t - 1) div ck_mcs t"
    by (simp add: Suc_le_eq div_greater_zero_iff)
  with 0 show ?case by simp
next
  case (Suc k)
  let ?r = "chunk_step (ChunkDone None) t" and ?ub = "ck_ub t + ck_chunk t"
  have run: "chunks.run (replicate (Suc k) (ChunkDone None)) t = chunks.run (replicate k (ChunkDone None)) ?r"
    by (simp del: chunk_step.simps)
  have t: "0 < ck_mcs t" "ck_ub t < ck_fs t" "ck_chunk t = min (ck_mcs t) (ck_fs t - ck_ub t)"
    using Suc.prems(1) by (simp_all add: steady_def)
  note r = steady_done [OF Suc.prems(1)]
  show ?case
  proof (cases "?ub < ck_fs t")
    case True
    then have "ck_chunk t = ck_mcs t" using t by simp
    moreover have "(ck_fs t - ck_ub t + ck_mcs t - 1) div ck_mcs t =
        Suc ((ck_fs t - ck_ub t - 1) div ck_mcs t)"
    proof -
      have "ck_fs t - ck_ub t + ck_mcs t - 1 = (ck_fs t - ck_ub t - 1) + ck_mcs t" using t(2) by simp
      then show ?thesis using t(1) by (simp only: div_add_self2)
    qed
    ultimately have "k = (ck_fs ?r - ck_ub ?r + ck_mcs ?r - 1) div ck_mcs ?r"
      using Suc.prems(2) r(1) [OF True] r(3,4) True t(1) by (simp del: chunk_step.simps)
    from Suc.IH [OF conjunct1 [OF r(1) [OF True]] this] show ?thesis unfolding run using r(3,5) by simp
  next
    case False
    then have "ck_fs t - ck_ub t \<le> ck_mcs t" using t by simp
    then have "ck_fs t - ck_ub t + ck_mcs t - 1 < 2 * ck_mcs t" using t(1) by linarith
    then have "(ck_fs t - ck_ub t + ck_mcs t - 1) div ck_mcs t < 2" by (rule less_mult_imp_div_less)
    then have "k = 0" using Suc.prems(2) by simp
    with r(2) False show ?thesis unfolding run by simp
  qed
qed

section \<open>Answers that advance\<close>

fun advances :: "chunk_event \<Rightarrow> transfer \<Rightarrow> bool" where
  "advances (ChunkDone h) t \<longleftrightarrow> (case getUploadedBytes h of None \<Rightarrow> True | Some n \<Rightarrow> ck_ub t < n)"
| "advances e t \<longleftrightarrow> True"

definition bounded :: "nat \<Rightarrow> nat \<Rightarrow> transfer \<Rightarrow> bool" where
  "bounded start fs t \<longleftrightarrow> transfer_ok t \<and> ck_fs t = fs \<and> start \<le> ck_ub t \<and> start < fs \<and>
     (if ck_waiting t then length (ck_slices t) \<le> ck_ub t - start + 1 else length (ck_slices t) \<le> fs - start)"

lemma bounded_send:
  assumes "requests_ok t" "ck_end t = None" "ck_fs t = fs" "start \<le> ck_ub t" "ck_ub t < fs" "length (ck_slices t) \<le> ck_ub t - start"
  shows "bounded start fs (send_chunk t)"
proof -
  have "transfer_ok (send_chunk t)" using assms by (intro send_ok) simp_all
  then show ?thesis using assms
    by (auto simp: bounded_def send_chunk_def chunk_failed_def transfer_ended_def Let_def)
qed

lemma bounded_step:
  assumes b: "bounded start fs t" and a: "advances e t"
  shows "bounded start fs (chunk_step e t)"
proof -
  have ok: "transfer_ok (chunk_step e t)" using b transfer_step by (simp add: bounded_def)
  show ?thesis
  proof (cases "ck_waiting t")
    case False
    with b show ?thesis by (cases e) simp_all
  next
    case True
    have t: "ck_ub t < fs" "ck_fs t = fs" "start \<le> ck_ub t" "length (ck_slices t) \<le> ck_ub t - start + 1" "ck_end t = None"
      "requests_ok t"
      using b True by (simp_all add: bounded_def transfer_ok_def)
    have chunk: "0 < ck_chunk t"
    proof -
      have "ck_slices t \<noteq> []" "last (ck_slices t) = (ck_ub t, ck_ub t + ck_chunk t)"
        using b True by (simp_all add: bounded_def transfer_ok_def)
      then have "(ck_ub t, ck_ub t + ck_chunk t) \<in> set (ck_slices t)" by (metis last_in_set)
      with t(6) show ?thesis by (auto simp: requests_ok_def)
    qed
    show ?thesis
    proof (cases e)
      case (ChunkDone h)
      define ub where "ub = (case getUploadedBytes h of Some n \<Rightarrow> n | None \<Rightarrow> ck_ub t + ck_chunk t)"
      let ?t1 = "chunk_progress ub t"
      let ?t2 = "?t1\<lparr>ck_ub := ub, ck_widget := upd (ck_index t) (\<lambda>d. d\<lparr>up_uploaded := int ub\<rparr>) (ck_widget ?t1),
                  ck_events := ck_events t @ [''chunkdone'', ''chunkalways''], ck_waiting := False\<rparr>"
      have ub: "ck_ub t < ub" using a ChunkDone chunk by (simp add: ub_def split: option.splits)
      have step: "chunk_step e t = (if ub < ck_fs t then send_chunk ?t2 else transfer_ended True ?t2)"
        using True ChunkDone by (simp add: chunk_done_def ub_def Let_def)
      show ?thesis
      proof (cases "ub < fs")
        case True
        have "requests_ok ?t2" using t(6) by (subst requests_frame [of _ t]) simp_all
        then have "bounded start fs (send_chunk ?t2)" using t ub True by (intro bounded_send) simp_all
        with step True t(2) show ?thesis by simp
      next
        case False
        with step ok t ub show ?thesis by (simp add: bounded_def transfer_ended_def)
      qed
    next
      case (ChunkProgress l n)
      with b True ok show ?thesis by (simp add: bounded_def)
    qed (use True ok t in \<open>simp_all add: bounded_def chunk_failed_def transfer_ended_def\<close>)
  qed
qed

interpretation advancing: page chunk_step "bounded start fs" advances
  by standard (rule bounded_step)

lemma bounded_start:
  assumes "chunkedUpload sp prevent s i w = Some t" "f_size (hd (files s)) = Some fs" "uploadedBytes s < fs"
  shows "bounded (uploadedBytes s) fs t"
proof -
  obtain t0 where t0: "t = send_chunk t0" "requests_ok t0" "ck_ub t0 = uploadedBytes s" "ck_end t0 = None" "ck_fs t0 = fs"
    "ck_slices t0 = []"
    using assms by (auto elim: chunked_start)
  then show ?thesis using bounded_send [of t0 fs "uploadedBytes s"] assms(3) by simp
qed

text \<open>While a transfer goes on, each answer has brought a request.\<close>

lemma answers_counted:
  "list_all (\<lambda>e. \<exists>h. e = ChunkDone h) es \<Longrightarrow> ck_waiting (chunks.run es t) \<Longrightarrow> ck_waiting t \<and>
   length (ck_slices (chunks.run es t)) = length (ck_slices t) + length es"
proof (induction es arbitrary: t)
  case (Cons e es)
  then obtain h where e: "e = ChunkDone h" by auto
  have next_t: "ck_waiting (chunk_step e t) \<and> length (ck_slices (chunks.run es (chunk_step e t))) =
      length (ck_slices (chunk_step e t)) + length es"
    using Cons by simp
  then have w: "ck_waiting t" using e by (auto split: if_splits)
  then have "length (ck_slices (chunk_step e t)) = Suc (length (ck_slices t))"
    using next_t e by (auto simp: chunk_done_def send_chunk_def chunk_failed_def transfer_ended_def Let_def split: if_splits)
  with next_t w show ?case by simp
qed simp

section \<open>Properties\<close>


text \<open>
  In every run of a transfer each request carries the header \<open>Content-Range\<close> of its
  slice, which is not empty, lies inside the file and is at most as long as the option says; when the
  transfer has ended nothing changes any more.
\<close>

theorem chunk_requests:
  assumes "chunkedUpload sp prevent s i w = Some t" "r = chunks.run es t"
  shows "map (\<lambda>q. map_of (headers q) ''Content-Range'') (ck_requests r) =
      map (\<lambda>(a, b). Some (content_range a (b - a) (ck_fs r))) (ck_slices r) \<and>
    (\<forall>(a, b) \<in> set (ck_slices r). a < b \<and> b \<le> ck_fs r \<and> b - a \<le> ck_mcs r) \<and>
    (ck_end r \<noteq> None \<longrightarrow> chunk_step e r = r)"
proof -
  have ok: "transfer_ok r"
    unfolding assms(2) using chunked_ok [OF assms(1)] chunks_run_ok by (rule chunks.holds_on_run)
  then have "ck_end r \<noteq> None \<longrightarrow> chunk_step e r = r" by (cases e) (auto simp: transfer_ok_def)
  with ok show ?thesis by (simp add: transfer_ok_def requests_ok_def)
qed

text \<open>
  C15: when every \<open>Range\<close> header reports more bytes than before, the transfer takes at most one
  request for each missing byte, and so many answers end it (a server that reports no advance gets
  the same chunk for ever).
\<close>

theorem chunks_end:
  assumes "chunkedUpload sp prevent s i w = Some t" "f_size (hd (files s)) = Some fs" "uploadedBytes s < fs"
    and "list_all (\<lambda>e. \<exists>h. e = ChunkDone h) es" "advancing.ok_run es t" "fs - uploadedBytes s \<le> length es"
    and "r = chunks.run es t"
  shows "length (ck_slices r) \<le> fs - uploadedBytes s \<and> ck_end r \<noteq> None"
proof -
  have b: "bounded (uploadedBytes s) fs r"
    unfolding assms(7) using bounded_start [OF assms(1-3)] assms(5) by (rule advancing.holds_on_run)
  have sent: "0 < length (ck_slices t)" if "ck_waiting t"
  proof -
    have "transfer_ok t" using assms(1) by (rule chunked_ok)
    with that show ?thesis by (simp add: transfer_ok_def)
  qed
  have "\<not> ck_waiting r"
  proof
    assume w: "ck_waiting r"
    then have "length (ck_slices r) = length (ck_slices t) + length es" "ck_waiting t"
      using answers_counted [OF assms(4)] assms(7) by auto
    moreover have "ck_ub r < fs" "length (ck_slices r) \<le> ck_ub r - uploadedBytes s + 1"
      using b w by (simp_all add: bounded_def transfer_ok_def)
    moreover have "0 < length (ck_slices t)" using sent calculation(2) .
    ultimately show False using assms(3,6) by arith
  qed
  with b show ?thesis by (simp add: bounded_def transfer_ok_def)
qed

text \<open>
  An answer whose \<open>Range\<close> header says that the bytes up to \<open>n\<close> have arrived makes the
  next chunk start at \<open>n + 1\<close>.
\<close>

theorem chunk_resumed:
  assumes "ck_waiting t" "CHR ''-'' \<notin> set pre" "0 < n" "n + 1 < ck_fs t" "\<forall>m. \<not> ck_prevent t m"
    and "r = chunk_step (ChunkDone (Some (pre @ ''-'' @ dec n))) t"
  shows "ck_waiting r \<and> ck_ub r = n + 1 \<and> last (ck_slices r) = (n + 1, min (n + 1 + ck_mcs t) (ck_fs t))"
proof -
  have "getUploadedBytes (Some (pre @ ''-'' @ dec n)) = Some (n + 1)" using assms(2,3) by (rule range_parsed)
  then show ?thesis using assms(1,4-6) by (simp add: chunk_done_def send_chunk_def Let_def)
qed

text \<open>
  A file of which more bytes are said to be uploaded than it has is rejected without
  a request.
\<close>

theorem chunk_too_far:
  assumes "chunkedUpload sp prevent s i w = Some t" "f_size (hd (files s)) = Some fs" "fs \<le> uploadedBytes s"
  shows "ck_requests (chunks.run es t) = [] \<and> ck_end (chunks.run es t) = Some False"
proof -
  have t: "ck_requests t = []" "ck_end t = Some False" "\<not> ck_waiting t"
    using assms by (auto simp: chunkedUpload_def transfer_ended_def Let_def split: if_splits)
  moreover have "chunk_step e t = t" for e using t(3) by (cases e) simp_all
  ultimately show ?thesis by (induction es) simp_all
qed

section \<open>Concrete transfers\<close>

definition sample_file :: upload_file where
  "sample_file = \<lparr>f_name = ''a'', f_size = Some 10, f_type = [], f_class = ''File'', f_uploadName = [], f_relativePath = []\<rparr>"

definition sample_support :: support where
  "sample_support = \<lparr>sp_fileInput = True, sp_xhrFileUpload = True, sp_xhrFormDataFileUpload = True, sp_blobSlice = True\<rparr>"

definition sample_settings :: settings where
  "sample_settings = upload_options.extend (default_upload_options\<lparr>maxChunkSize := 4\<rparr>)
     (settings.fields [sample_file] [''files[]''] None ''/up'' ''POST'' None [] None [] None [] None [])"

definition sample_widget :: widget where
  "sample_widget = (created False 0 0)\<lparr>w_uploads := [blank_upload\<lparr>up_files := [sample_file], up_total := 10, up_phase := Sent\<rparr>]\<rparr>"

definition sample_transfer :: transfer where
  "sample_transfer = the (chunkedUpload sample_support (\<lambda>n. False) sample_settings 0 sample_widget)"

lemma sample_chunked:
  "chunkedUpload sample_support (\<lambda>n. False) sample_settings 0 sample_widget = Some sample_transfer"
  "f_size (hd (files sample_settings)) = Some 10" "uploadedBytes sample_settings = 0" "maxChunkSize sample_settings = 4"
  by (simp_all add: sample_transfer_def chunkedUpload_def sample_settings_def upload_options.extend_def settings.fields_def
      sample_file_def chunked_def isXHRUpload_def sample_support_def default_upload_options_def chunk_size_def)


lemma chunk_requests_witness:
  "map (\<lambda>q. map_of (headers q) ''Content-Range'') (ck_requests (chunks.run [ChunkFail] sample_transfer)) =
   map (\<lambda>(a, b). Some (content_range a (b - a) (ck_fs (chunks.run [ChunkFail] sample_transfer)))) (ck_slices (chunks.run [ChunkFail] sample_transfer))"
  using chunk_requests [OF sample_chunked(1) refl, of "[ChunkFail]" ChunkAbort] by blast

lemma chunks_end_witness: "ck_end (chunks.run (replicate 10 (ChunkDone None)) sample_transfer) \<noteq> None"
proof -
  have "advancing.ok_run (replicate n (ChunkDone None)) t" for n t
    by (induction n arbitrary: t) (simp_all add: getUploadedBytes_def del: chunk_step.simps)
  then show ?thesis
    using chunks_end [OF sample_chunked(1,2), of "replicate 10 (ChunkDone None)"] sample_chunked(3)
    by (simp add: list_all_iff del: chunks.run.simps replicate.simps)
qed

lemma chunk_resumed_witness:
  "ck_ub (chunk_step (ChunkDone (Some (''0'' @ ''-'' @ dec 5))) sample_transfer) = 6"
proof -
  have "ck_waiting sample_transfer" "ck_fs sample_transfer = 10" "\<forall>m. \<not> ck_prevent sample_transfer m"
    by (simp_all add: sample_transfer_def chunkedUpload_def sample_settings_def upload_options.extend_def settings.fields_def
      sample_file_def chunked_def isXHRUpload_def sample_support_def default_upload_options_def chunk_size_def send_chunk_def Let_def)
  then show ?thesis using chunk_resumed [of sample_transfer "''0''" 5] by (simp del: chunk_step.simps)
qed

lemma chunk_too_far_witness:
  "ck_requests (chunks.run [ChunkDone None] (the (chunkedUpload sample_support (\<lambda>n. False) (sample_settings\<lparr>uploadedBytes := 12\<rparr>) 0 sample_widget))) = []"
proof -
  have "chunkedUpload sample_support (\<lambda>n. False) (sample_settings\<lparr>uploadedBytes := 12\<rparr>) 0 sample_widget \<noteq> None"
    "f_size (hd (files (sample_settings\<lparr>uploadedBytes := 12\<rparr>))) = Some 10"
    by (simp_all add: chunkedUpload_def sample_settings_def upload_options.extend_def settings.fields_def
      sample_file_def chunked_def isXHRUpload_def sample_support_def default_upload_options_def)
  then show ?thesis
    using chunk_too_far [of sample_support "\<lambda>n. False" "sample_settings\<lparr>uploadedBytes := 12\<rparr>" 0 sample_widget]
    by (auto simp: sample_settings_def upload_options.extend_def settings.fields_def simp del: chunks.run.simps)
qed

lemma onProgress_whole:
  assumes "i < length (w_uploads w)" "up_total (ul w i) \<noteq> 0" "up_chunk (ul w i) = 0"
  shows "up_loaded (ul (onProgress i (up_total (ul w i)) (up_total (ul w i)) w) i) = up_total (ul w i) + up_uploaded (ul w i)"
  using assms by (simp add: onProgress_def Let_def upd_def trigger_def split: prod.split)

lemma reply_adds:
  assumes i: "i < length (w_uploads w)" "up_loaded (ul w i) < up_total (ul w i)" "up_total (ul w i) \<noteq> 0" "up_chunk (ul w i) = 0"
  shows "up_loaded (ul (reply i True w) i) = up_total (ul w i) + up_uploaded (ul w i)"
proof -
  let ?v = "upd i (\<lambda>d. d\<lparr>up_phase := Settled True\<rparr>) w"
  have "loads (reply i True w) = loads (settle i True w)" by (simp add: reply_def loads_run)
  also have "\<dots> = loads (onProgress i (up_total (ul w i)) (up_total (ul w i)) ?v)"
    using i by (simp add: settle_def onDone_def Let_def ul_upd)
  finally have l: "loads (reply i True w) = loads (onProgress i (up_total (ul w i)) (up_total (ul w i)) ?v)" .
  then have "length (w_uploads (reply i True w)) = length (w_uploads w)"
    by (metis length_map length_uploads(1,2) loads_def)
  with i l onProgress_whole [of i ?v] show ?thesis by (simp add: nth_loads [symmetric] ul_upd) (simp add: nth_loads)
qed

text \<open>
  When the \<open>Range\<close> header reports the whole file before its last chunk has been
  sent, the progress of the upload ends at twice its size: the final progress event is computed on
  top of the bytes that \<open>uploadedBytes\<close> already counts.
\<close>

theorem chunk_progress_doubled:
  assumes "steady start t" "ck_ub t + ck_chunk t < ck_fs t" "getUploadedBytes h = Some (ck_fs t)"
    and "r = chunk_step (ChunkDone h) t"
  shows "ck_end r = Some True \<and> up_loaded (ul (ck_widget r) (ck_index t)) = 2 * int (ck_fs t)"
proof -
  let ?w = "ck_widget t" and ?i = "ck_index t" and ?fs = "int (ck_fs t)"
  have i: "?i < length (w_uploads ?w)" and chunk: "0 < ck_chunk t" "ck_waiting t" "ck_ub t < ck_fs t"
    and d: "up_loaded (ul ?w ?i) = int (ck_ub t)" "up_uploaded (ul ?w ?i) = int (ck_ub t)"
      "up_total (ul ?w ?i) = ?fs" "up_chunk (ul ?w ?i) = int (ck_chunk t)"
    using assms(1) by (auto simp: steady_def Let_def)
  have cl: "ck_current_loaded t = int (ck_ub t)" using assms(1) by (simp add: steady_def)
  let ?l = "?fs - int (ck_ub t)"
  have p: "chunk_progress (ck_fs t) t = t\<lparr>ck_widget := onProgress ?i ?l ?l ?w\<rparr>"
    using chunk by (simp add: chunk_progress_def d cl Let_def)
  define w2 where "w2 = upd ?i (\<lambda>d. d\<lparr>up_chunk := 0, up_time := 0\<rparr>)
    (upd ?i (\<lambda>d. d\<lparr>up_uploaded := ?fs\<rparr>) (onProgress ?i ?l ?l ?w))"
  have r: "ck_end r = Some True" "ck_widget r = reply ?i True w2"
    using chunk assms(3) by (simp_all add: assms(4) chunk_done_def p transfer_ended_def w2_def Let_def)
  have "up_loaded (ul w2 ?i) = int (ck_ub t) + int (ck_chunk t)" "up_uploaded (ul w2 ?i) = ?fs" "up_total (ul w2 ?i) = ?fs"
    "up_chunk (ul w2 ?i) = 0" "?i < length (w_uploads w2)"
    using onProgress_all [OF i, of ?l] d chunk i by (simp_all add: w2_def ul_upd)
  with reply_adds [of ?i w2] assms(2) r show ?thesis by simp
qed

lemma chunk_progress_doubled_witness:
  "up_loaded (ul (ck_widget (chunk_step (ChunkDone (Some (''0'' @ ''-'' @ dec 9))) sample_transfer)) 0) = 20"
proof -
  obtain t0 where t0: "sample_transfer = send_chunk t0" "ck_ub t0 = 0" "ck_end t0 = None" "ck_fs t0 = 10" "ck_mcs t0 = 4"
    "ck_slices t0 = []" "ck_prevent t0 = (\<lambda>n. False)" "ck_index t0 = 0"
    "ck_widget t0 = upd 0 (\<lambda>d. d\<lparr>up_uploaded := 0\<rparr>) sample_widget"
    using sample_chunked by (auto elim: chunked_start)
  have "steady 0 sample_transfer"
    unfolding t0(1) using t0(2-) by (intro steady_send) (simp_all add: ul_upd sample_widget_def blank_upload_def)
  moreover have "ck_fs sample_transfer = 10" "ck_ub sample_transfer = 0" "ck_chunk sample_transfer = 4" "ck_index sample_transfer = 0"
    using t0(2-) by (simp_all add: t0(1) send_chunk_def Let_def)
  moreover have "getUploadedBytes (Some (''0'' @ ''-'' @ dec 9)) = Some (9 + 1)" by (rule range_parsed) simp_all
  ultimately show ?thesis
    using chunk_progress_doubled [of 0 sample_transfer "Some (''0'' @ ''-'' @ dec 9)"] by (simp del: chunk_step.simps)
qed

end
