(* ===== verification/UploadAdd.thy ===== *)
theory UploadAdd
  imports UploadData
begin

text \<open>
  How files come to the upload widget (\<open>jquery.fileupload.js\<close>): the choice in a file input, a paste or a
  drop with its directories, the \<open>add\<close> and \<open>send\<close> methods, and \<open>_onAdd\<close>, which divides the files into
  the sets that are uploaded with one request each. The callbacks of the page (\<open>add\<close>, \<open>change\<close>, \<open>paste\<close>,
  \<open>drop\<close>) are parameters that say whether they return something else than false.
\<close>

section \<open>Sets of files\<close>

definition slice :: "nat \<Rightarrow> nat \<Rightarrow> 'a list \<Rightarrow> 'a list" where
  "slice lo hi xs = take (hi - lo) (drop lo xs)"

definition name_slice :: "nat \<Rightarrow> nat \<Rightarrow> string list \<Rightarrow> string list" where
  "name_slice lo hi ns = (if slice lo hi ns = [] then ns else slice lo hi ns)"

text \<open>The loop over \<open>limitMultiFileUploads\<close>.\<close>

function limit_sets :: "nat \<Rightarrow> nat \<Rightarrow> upload_file list \<Rightarrow> string list \<Rightarrow> (upload_file list \<times> string list) list" where
  "limit_sets limit i fs ns =
     (if i < length fs \<and> limit \<noteq> 0
      then (slice i (i + limit) fs, name_slice i (i + limit) ns) # limit_sets limit (i + limit) fs ns
      else [])"
  by auto
termination by (relation "measure (\<lambda>(limit, i, fs, ns). length fs - i)") auto

declare limit_sets.simps [simp del]

text \<open>
  A sum of sizes is \<open>None\<close> (NaN) once a size is undefined; comparing NaN is false. In the loop, \<open>fits\<close>
  says that the next file would not make the request too large.
\<close>

definition add_size :: "nat option \<Rightarrow> nat option \<Rightarrow> nat \<Rightarrow> nat option" where
  "add_size acc n overhead = (case (acc, n) of (Some a, Some b) \<Rightarrow> Some (a + b + overhead) | _ \<Rightarrow> None)"

definition above :: "nat option \<Rightarrow> nat \<Rightarrow> bool" where
  "above acc limit = (case acc of Some m \<Rightarrow> limit < m | None \<Rightarrow> False)"

function size_sets ::
    "nat \<Rightarrow> nat \<Rightarrow> nat \<Rightarrow> nat \<Rightarrow> nat \<Rightarrow> nat option \<Rightarrow> upload_file list \<Rightarrow> string list \<Rightarrow> (upload_file list \<times> string list) list" where
  "size_sets limitSize limit overhead i j batch fs ns =
     (if i < length fs
      then let batch' = add_size batch (f_size (fs ! i)) overhead in
           if i + 1 = length fs \<or> above (add_size batch' (f_size (fs ! (i + 1))) overhead) limitSize \<or>
              limit \<noteq> 0 \<and> limit \<le> i + 1 - j
           then (slice j (i + 1) fs, name_slice j (i + 1) ns) # size_sets limitSize limit overhead (i + 1) (i + 1) (Some 0) fs ns
           else size_sets limitSize limit overhead (i + 1) j batch' fs ns
      else [])"
  by auto
termination by (relation "measure (\<lambda>(limitSize, limit, overhead, i, j, batch, fs, ns). length fs - i)") (auto simp: Let_def)

declare size_sets.simps [simp del]

text \<open>The data of one request: its files and its parameter names.\<close>

definition file_sets ::
    "support \<Rightarrow> 'a upload_options_scheme \<Rightarrow> file_input list \<Rightarrow> upload_file list \<Rightarrow> (upload_file list \<times> params) list" where
  "file_sets sp opt inputs fs =
     (let limit = limitMultiFileUploads opt;
          limitSize = (if limitMultiFileUploadSize opt \<noteq> 0 \<and> (fs = [] \<or> f_size (hd fs) = None) then 0
                       else limitMultiFileUploadSize opt);
          ns = getParamName inputs (paramName opt);
          names = map (\<lambda>(files, ns). (files, ParamNames ns))
      in if \<not> (singleFileUploads opt \<or> limit \<noteq> 0 \<or> limitSize \<noteq> 0) \<or> \<not> isXHRUpload sp opt then [(fs, ParamNames ns)]
         else if \<not> (singleFileUploads opt \<or> limitSize \<noteq> 0) \<and> limit \<noteq> 0 then names (limit_sets limit 0 fs ns)
         else if \<not> singleFileUploads opt \<and> limitSize \<noteq> 0
         then names (size_sets limitSize limit (limitMultiFileUploadSizeOverhead opt) 0 0 (Some 0) fs ns)
         else map (\<lambda>i. ([fs ! i], if i < length ns then ParamName (ns ! i) else ParamUndefined)) [0..<length fs])"

record add_data =
  ad_files :: "upload_file list"
  ad_originalFiles :: "upload_file list"
  ad_paramName :: params

text \<open>\<open>$.each\<close> ends when the callback returns false; the result is that of the last call.\<close>

fun each_add :: "(add_data \<Rightarrow> bool) \<Rightarrow> upload_file list \<Rightarrow> (upload_file list \<times> params) list \<Rightarrow> bool \<Rightarrow> add_data list \<times> bool" where
  "each_add callback original [] result = ([], result)"
| "each_add callback original ((fs, ps) # sets) result =
     (let d = \<lparr>ad_files = fs, ad_originalFiles = original, ad_paramName = ps\<rparr> in
      if callback d then let (ds, r) = each_add callback original sets True in (d # ds, r)
      else ([d], False))"

definition onAdd ::
    "support \<Rightarrow> 'a upload_options_scheme \<Rightarrow> (add_data \<Rightarrow> bool) \<Rightarrow> file_input list \<Rightarrow> upload_file list \<Rightarrow> add_data list \<times> bool" where
  "onAdd sp opt callback inputs fs = each_add callback fs (file_sets sp opt inputs fs) True"

section \<open>Directories\<close>

text \<open>
  An entry of a dropped tree: a file that is read or gives an error (by its name), a directory, or
  something else. The reader of a directory returns batches of entries until it returns an empty one
  or, after the last, an error, if it has one. Reading yields files and, for what fails, error objects
  with the name of the entry.
\<close>

datatype entry =
  FileEntry string "string + upload_file"
| DirEntry string "entry list list" "string option"
| OtherEntry

datatype tree_item = TreeFile upload_file | TreeError string string

definition reader_fails :: "'a list list \<Rightarrow> string option \<Rightarrow> bool" where
  "reader_fails batches err \<longleftrightarrow> err \<noteq> None \<and> [] \<notin> set batches"

fun handleFileTreeEntry :: "entry \<Rightarrow> string \<Rightarrow> tree_item list"
  and handleFileTreeEntries :: "entry list \<Rightarrow> string \<Rightarrow> tree_item list"
  and readEntries :: "entry list list \<Rightarrow> string \<Rightarrow> tree_item list" where
  "handleFileTreeEntry (FileEntry name (Inr f)) path = [TreeFile (f\<lparr>f_relativePath := path\<rparr>)]"
| "handleFileTreeEntry (FileEntry name (Inl err)) path = [TreeError err name]"
| "handleFileTreeEntry (DirEntry name batches err) path =
     (if reader_fails batches err then [TreeError (the err) name] else readEntries batches (path @ name @ ''/''))"
| "handleFileTreeEntry OtherEntry path = []"
| "handleFileTreeEntries [] path = []"
| "handleFileTreeEntries (e # es) path = handleFileTreeEntry e path @ handleFileTreeEntries es path"
| "readEntries [] path = []"
| "readEntries (b # bs) path = (if b = [] then [] else handleFileTreeEntries b path @ readEntries bs path)"

text \<open>What is dropped: items that give an entry or none, if the browser knows them, and plain files.\<close>

record transfer_data =
  dt_items :: "entry option list option"
  dt_files :: "upload_file list"

definition getDroppedFiles :: "transfer_data \<Rightarrow> tree_item list" where
  "getDroppedFiles dt =
     (case dt_items dt of
        Some (i # is) \<Rightarrow> handleFileTreeEntries (List.map_filter id (i # is)) []
      | _ \<Rightarrow> map TreeFile (dt_files dt))"

section \<open>File inputs\<close>

text \<open>
  An input with the entries of a chosen directory; the file list of an old browser is missing and the
  input shows only a path. Files without a name but with the names of Safari 4 are not modelled.
\<close>

record input_entries = file_input +
  in_entries :: "entry list"

definition pseudo_file :: "string \<Rightarrow> upload_file" where
  "pseudo_file value =
     \<lparr>f_name = after_last CHR 0x5C value, f_size = None, f_type = [], f_class = ''Object'', f_uploadName = [], f_relativePath = []\<rparr>"

definition getSingleFileInputFiles :: "input_entries \<Rightarrow> tree_item list" where
  "getSingleFileInputFiles i =
     (if in_entries i \<noteq> [] then handleFileTreeEntries (in_entries i) []
      else let fs = (case in_files i of Some fs \<Rightarrow> fs | None \<Rightarrow> []) in
           if fs \<noteq> [] then map TreeFile fs
           else if in_value i = [] then []
           else [TreeFile (pseudo_file (in_value i))])"

text \<open>
  For several inputs the function is passed without its object: entries then raise an exception
  (\<open>None\<close>).
\<close>

definition getFileInputFiles :: "input_entries list \<Rightarrow> tree_item list option" where
  "getFileInputFiles is =
     (case is of
        [i] \<Rightarrow> Some (getSingleFileInputFiles i)
      | _ \<Rightarrow> if list_ex (\<lambda>i. in_entries i \<noteq> []) is then None
             else Some (concat (map getSingleFileInputFiles is)))"

definition reset_input :: "input_entries \<Rightarrow> input_entries" where
  "reset_input i = i\<lparr>in_files := map_option (\<lambda>fs. []) (in_files i), in_value := [], in_entries := []\<rparr>"

text \<open>The input is replaced by a clone that has been reset, in its place among the widget's inputs.\<close>

definition replaceFileInput_at :: "nat \<Rightarrow> input_entries list \<Rightarrow> input_entries list" where
  "replaceFileInput_at k is = is[k := reset_input (is ! k)]"

section \<open>Events\<close>

text \<open>
  An error object among the files has the name of the error, no size and no type.
\<close>

definition item_file :: "tree_item \<Rightarrow> upload_file" where
  "item_file x = (case x of TreeFile f \<Rightarrow> f
     | TreeError err n \<Rightarrow> \<lparr>f_name = err, f_size = None, f_type = [], f_class = ''Error'', f_uploadName = [], f_relativePath = []\<rparr>)"

record adder =
  au_support :: support
  au_options :: upload_options
  au_inputs :: "input_entries list"
  au_added :: "add_data list"  \<comment> \<open>calls of the \<open>add\<close> callback\<close>
  au_log :: "string list"

definition plain_input :: "input_entries \<Rightarrow> file_input" where
  "plain_input i = file_input.truncate i"

definition add_files :: "(add_data \<Rightarrow> bool) \<Rightarrow> input_entries list \<Rightarrow> upload_file list \<Rightarrow> adder \<Rightarrow> adder" where
  "add_files callback is fs a =
     a\<lparr>au_added := au_added a @ fst (onAdd (au_support a) (au_options a) callback (map plain_input is) fs)\<rparr>"

definition onChange :: "bool \<Rightarrow> (add_data \<Rightarrow> bool) \<Rightarrow> nat \<Rightarrow> adder \<Rightarrow> adder" where
  "onChange change callback k a =
     (let old = au_inputs a ! k; fs = map item_file (getSingleFileInputFiles old);
          a1 = (if replaceFileInput (au_options a) then a\<lparr>au_inputs := replaceFileInput_at k (au_inputs a)\<rparr> else a);
          a2 = a1\<lparr>au_log := au_log a1 @ [''change'']\<rparr>
      in if change then add_files callback [old] fs a2 else a2)"

text \<open>A paste: the files of its items, none where an item is no file.\<close>

definition onPaste :: "bool \<Rightarrow> (add_data \<Rightarrow> bool) \<Rightarrow> upload_file option list \<Rightarrow> adder \<Rightarrow> adder" where
  "onPaste paste callback items a =
     (if items = [] then a
      else let a1 = a\<lparr>au_log := au_log a @ [''paste'']\<rparr>
           in if paste then add_files callback (au_inputs a) (List.map_filter id items) a1 else a1)"

definition onDrop :: "bool \<Rightarrow> (add_data \<Rightarrow> bool) \<Rightarrow> transfer_data \<Rightarrow> adder \<Rightarrow> adder" where
  "onDrop allow callback dt a =
     (if dt_files dt = [] then a
      else let a1 = a\<lparr>au_log := au_log a @ [''drop'']\<rparr>
           in if allow then add_files callback (au_inputs a) (map item_file (getDroppedFiles dt)) a1 else a1)"

text \<open>The method \<open>add\<close>, with inputs or with files; \<open>None\<close> is an exception.\<close>

definition add_method :: "(add_data \<Rightarrow> bool) \<Rightarrow> input_entries list option \<Rightarrow> upload_file list option \<Rightarrow> adder \<Rightarrow> adder option" where
  "add_method callback inputs given a =
     (if disabled (au_options a) then Some a
      else let is = (case inputs of Some is \<Rightarrow> is | None \<Rightarrow> au_inputs a)
           in case (inputs, given) of
                (Some is, None) \<Rightarrow> map_option (\<lambda>xs. add_files callback is (map item_file xs) a) (getFileInputFiles is)
              | (_, Some fs) \<Rightarrow> Some (add_files callback is fs a)
              | (None, None) \<Rightarrow> Some (add_files callback is [] a))"

text \<open>
  The method \<open>send\<close>: \<open>Sends\<close> what goes to \<open>_onSend\<close>, or a rejected promise. \<open>aborted\<close>: the caller aborts
  before the files of the input have been read.
\<close>

datatype send_result = Sends "upload_file list" | Rejected | SendError

definition send_method :: "bool \<Rightarrow> input_entries list option \<Rightarrow> upload_file list option \<Rightarrow> adder \<Rightarrow> send_result" where
  "send_method aborted inputs given a =
     (if disabled (au_options a) then Rejected
      else case (inputs, given) of
        (Some is, None) \<Rightarrow>
          (case getFileInputFiles is of
             None \<Rightarrow> SendError
           | Some xs \<Rightarrow> if aborted \<or> xs = [] then Rejected else Sends (map item_file xs))
      | (_, Some fs) \<Rightarrow> if fs = [] then Rejected else Sends fs
      | (None, None) \<Rightarrow> Rejected)"

text \<open>The handler of a drag event over a drop zone: the event triggered and whether it is cancelled.\<close>

definition dragHandler :: "string \<Rightarrow> bool \<Rightarrow> string list option \<Rightarrow> adder \<Rightarrow> adder \<times> bool \<times> string option" where
  "dragHandler type allow types a =
     (case types of
        Some ts \<Rightarrow>
          if ''Files'' \<in> set ts
          then (a\<lparr>au_log := au_log a @ [type]\<rparr>, allow, if allow \<and> type = ''dragover'' then Some ''copy'' else None)
          else (a, False, None)
      | None \<Rightarrow> (a, False, None))"

section \<open>Listeners\<close>

text \<open>The events the widget listens for, and the options whose change renews them.\<close>

definition event_handlers :: "support \<Rightarrow> 'a upload_options_scheme \<Rightarrow> string list" where
  "event_handlers sp opt =
     (if isXHRUpload sp opt then [''dragover'', ''drop'', ''dragenter'', ''dragleave'', ''paste''] else []) @
     (if sp_fileInput sp then [''change''] else [])"

definition special_options :: "string list" where
  "special_options = [''fileInput'', ''dropZone'', ''pasteZone'', ''multipart'', ''forceIframeTransport'']"

definition setOption :: "support \<Rightarrow> string \<Rightarrow> (upload_options \<Rightarrow> upload_options) \<Rightarrow> upload_options \<times> string list \<Rightarrow> upload_options \<times> string list" where
  "setOption sp key change = (\<lambda>(opt, handlers).
     let opt' = change opt in (opt', if key \<in> set special_options then event_handlers sp opt' else handlers))"

section \<open>The sets make up the files\<close>

lemma slice_length: "length (slice lo hi xs) \<le> hi - lo"
  by (simp add: slice_def)

lemma slice_append: "lo \<le> mid \<Longrightarrow> mid \<le> hi \<Longrightarrow> slice lo mid xs @ slice mid hi xs = slice lo hi xs"
proof -
  assume "lo \<le> mid" and "mid \<le> hi"
  then have "hi - lo = (mid - lo) + (hi - mid)" and "drop (mid - lo) (drop lo xs) = drop mid xs" by simp_all
  then show ?thesis by (simp only: slice_def take_add)
qed

lemma slice_drop: "lo \<le> mid \<Longrightarrow> slice lo mid xs @ drop mid xs = drop lo xs"
  by (metis append_take_drop_id drop_drop le_add_diff_inverse2 slice_def)

lemma slice_empty_iff: "slice lo hi xs = [] \<longleftrightarrow> hi \<le> lo \<or> length xs \<le> lo"
  by (auto simp: slice_def)

lemma slice_snoc: "lo \<le> i \<Longrightarrow> i < length xs \<Longrightarrow> slice lo (i + 1) xs = slice lo i xs @ [xs ! i]"
proof -
  assume "lo \<le> i" and "i < length xs"
  then have "i + 1 - lo = Suc (i - lo)" and "i - lo < length (drop lo xs)" and "drop lo xs ! (i - lo) = xs ! i" by simp_all
  then show ?thesis by (simp only: slice_def take_Suc_conv_app_nth)
qed

lemma concat_limit_sets:
  "limit \<noteq> 0 \<Longrightarrow> concat (map fst (limit_sets limit i fs ns)) = drop i fs"
proof (induction limit i fs ns rule: limit_sets.induct)
  case (1 limit i fs ns)
  then show ?case by (subst limit_sets.simps) (simp add: slice_drop)
qed

lemma limit_sets_lengths:
  "\<forall>s\<in>set (map fst (limit_sets limit i fs ns)). s \<noteq> [] \<and> length s \<le> limit"
proof (induction limit i fs ns rule: limit_sets.induct)
  case (1 limit i fs ns)
  show ?case
  proof (cases "i < length fs \<and> limit \<noteq> 0")
    case True
    with 1 have "\<forall>s\<in>set (map fst (limit_sets limit (i + limit) fs ns)). s \<noteq> [] \<and> length s \<le> limit" by blast
    with True slice_length [of i "i + limit" fs] show ?thesis
      by (subst limit_sets.simps) (simp add: slice_empty_iff)
  qed (subst limit_sets.simps, simp)
qed

lemma concat_size_sets:
  "j \<le> i \<Longrightarrow> i < length fs \<or> i = j \<Longrightarrow> concat (map fst (size_sets limitSize limit overhead i j batch fs ns)) = drop j fs"
proof (induction limitSize limit overhead i j batch fs ns rule: size_sets.induct)
  case (1 limitSize limit overhead i j batch fs ns)
  then show ?case by (subst size_sets.simps) (auto simp: Let_def slice_drop)
qed

text \<open>The bytes of a request with its overhead; \<open>None\<close> if a size is unknown.\<close>

definition request_size :: "nat \<Rightarrow> upload_file list \<Rightarrow> nat option" where
  "request_size overhead fs = foldl (\<lambda>acc f. add_size acc (f_size f) overhead) (Some 0) fs"

definition set_fits :: "nat \<Rightarrow> nat \<Rightarrow> nat \<Rightarrow> upload_file list \<Rightarrow> bool" where
  "set_fits limitSize limit overhead s \<longleftrightarrow>
     s \<noteq> [] \<and> (limit \<noteq> 0 \<longrightarrow> length s \<le> limit) \<and> (length s = 1 \<or> \<not> above (request_size overhead s) limitSize)"

lemma request_size_snoc: "request_size overhead (s @ [f]) = add_size (request_size overhead s) (f_size f) overhead"
  by (simp add: request_size_def)

lemma request_size_slice:
  "j \<le> i \<Longrightarrow> i < length fs \<Longrightarrow>
   request_size overhead (slice j (i + 1) fs) = add_size (request_size overhead (slice j i fs)) (f_size (fs ! i)) overhead"
  by (simp only: slice_snoc request_size_snoc)

lemma size_sets_fit:
  assumes "j \<le> i" and "i < length fs \<or> i = j" and "batch = request_size overhead (slice j i fs)"
    and "limit \<noteq> 0 \<longrightarrow> i - j < limit"
    and "i < length fs \<longrightarrow> i = j \<or> \<not> above (request_size overhead (slice j (i + 1) fs)) limitSize"
  shows "\<forall>s\<in>set (map fst (size_sets limitSize limit overhead i j batch fs ns)). set_fits limitSize limit overhead s"
  using assms
proof (induction limitSize limit overhead i j batch fs ns rule: size_sets.induct)
  case (1 limitSize limit overhead i j batch fs ns)
  show ?case
  proof (cases "i < length fs")
    case False
    then show ?thesis by (simp add: size_sets.simps)
  next
    case True
    let ?b = "add_size batch (f_size (fs ! i)) overhead"
    have b: "?b = request_size overhead (slice j (i + 1) fs)"
      using "1.prems" True by (simp only: request_size_slice)
    have len: "length (slice j (i + 1) fs) = i + 1 - j"
      using True by (simp add: slice_def)
    have fit: "set_fits limitSize limit overhead (slice j (i + 1) fs)"
      using "1.prems" True len by (auto simp: set_fits_def slice_empty_iff)
    show ?thesis
    proof (cases "i + 1 = length fs \<or> above (add_size ?b (f_size (fs ! (i + 1))) overhead) limitSize \<or> limit \<noteq> 0 \<and> limit \<le> i + 1 - j")
      case closed: True
      have "\<forall>s\<in>set (map fst (size_sets limitSize limit overhead (i + 1) (i + 1) (Some 0) fs ns)). set_fits limitSize limit overhead s"
        by (rule "1.IH"(1) [OF True refl closed]) (auto simp: slice_def request_size_def)
      with True closed fit show ?thesis by (subst size_sets.simps) (simp add: Let_def)
    next
      case wait: False
      have "\<forall>s\<in>set (map fst (size_sets limitSize limit overhead (i + 1) j ?b fs ns)). set_fits limitSize limit overhead s"
      proof (rule "1.IH"(2) [OF True refl wait])
        show "?b = request_size overhead (slice j (i + 1) fs)" by (rule b)
        show "i + 1 < length fs \<longrightarrow> i + 1 = j \<or> \<not> above (request_size overhead (slice j (i + 1 + 1) fs)) limitSize"
          using wait "1.prems"(1) request_size_slice [of j "i + 1" fs overhead] by (simp add: b)
      qed (use True wait "1.prems" in auto)
      with True wait show ?thesis by (subst size_sets.simps) (auto simp: Let_def)
    qed
  qed
qed

lemma fst_names [simp]: "map (fst \<circ> (\<lambda>(files, ns). (files, ParamNames ns))) xs = map fst xs"
  by auto

text \<open>
  Whatever the options, the files that are added are divided into sets for one
  request each without losing, doubling or reordering a file.
\<close>

theorem batches_partition: "concat (map fst (file_sets sp opt inputs fs)) = fs"
  by (auto simp: file_sets_def Let_def concat_limit_sets concat_size_sets map_nth o_def case_prod_unfold)


definition three_files :: "upload_file list" where
  "three_files = map (\<lambda>n. \<lparr>f_name = ''f'', f_size = Some n, f_type = [], f_class = ''File'', f_uploadName = [], f_relativePath = []\<rparr>) [10, 20, 30]"

definition multi_options :: upload_options where
  "multi_options = default_upload_options\<lparr>singleFileUploads := False, limitMultiFileUploadSize := 1100\<rparr>"

definition new_browser :: support where
  "new_browser = \<lparr>sp_fileInput = True, sp_xhrFileUpload = True, sp_xhrFormDataFileUpload = True, sp_blobSlice = True\<rparr>"


text \<open>
  Several inputs lose their entries: the function that reads an input is passed without its object, and
  a chosen directory raises an exception where a single input reads it.
\<close>

lemma several_inputs_fail:
  "in_entries i \<noteq> [] \<Longrightarrow> getFileInputFiles [i, k] = None \<and> getFileInputFiles [i] = Some (handleFileTreeEntries (in_entries i) [])"
  by (simp add: getFileInputFiles_def getSingleFileInputFiles_def)

end
