(* ===== verification/UploadProcess.thy ===== *)
theory UploadProcess
  imports UploadData
begin

text \<open>
  The processing of added files before they are sent: the queue of the widget
  (\<open>jquery.fileupload-process.js\<close>), the validation of files (\<open>jquery.fileupload-validate.js\<close>), and the
  promises of an added set in \<open>_addConvenienceMethods\<close> of \<open>jquery.fileupload.js\<close>.

  \<open>pipe\<close> calls a handler at once when its promise is settled, so a step runs until it waits for an
  action of another plug-in; such an action is settled by an event. An exception of a callback (an
  action that is not defined, a file type option that is neither a regular expression nor false) is
  not modelled.
\<close>

section \<open>Settings of an action\<close>

datatype setting = Undefined | BoolS bool | NumS nat | StrS string | RegS "string \<Rightarrow> bool"

type_synonym queue_item = "(string \<times> setting) list"

fun truthy :: "setting \<Rightarrow> bool" where
  "truthy Undefined = False"
| "truthy (BoolS b) = b"
| "truthy (NumS n) = (n \<noteq> 0)"
| "truthy (StrS s) = (s \<noteq> [])"
| "truthy (RegS r) = True"

definition item_get :: "queue_item \<Rightarrow> string \<Rightarrow> setting" where
  "item_get item key = (case map_of item key of Some v \<Rightarrow> v | None \<Rightarrow> Undefined)"

definition action_is :: "queue_item \<Rightarrow> string \<Rightarrow> bool" where
  "action_is item name = (case item_get item ''action'' of StrS s \<Rightarrow> s = name | _ \<Rightarrow> False)"

definition upper_first :: "string \<Rightarrow> string" where
  "upper_first s = (case s of [] \<Rightarrow> []
     | c # cs \<Rightarrow> (if 97 \<le> (of_char c :: nat) \<and> (of_char c :: nat) \<le> 122 then char_of ((of_char c :: nat) - 32) else c) # cs)"

definition item_prefix :: "queue_item \<Rightarrow> string" where
  "item_prefix item =
     (case item_get item ''prefix'' of
        BoolS True \<Rightarrow> (case item_get item ''action'' of StrS s \<Rightarrow> s | _ \<Rightarrow> [])
      | StrS s \<Rightarrow> s
      | _ \<Rightarrow> [])"

text \<open>A string that starts with \<open>@\<close> is the name of an option, by default one made from prefix and key.\<close>

definition transform_value :: "(string \<Rightarrow> setting) \<Rightarrow> string \<Rightarrow> string \<Rightarrow> setting \<Rightarrow> setting" where
  "transform_value opts prefix key v =
     (case v of
        StrS (c # rest) \<Rightarrow>
          if c = CHR ''@''
          then opts (if rest \<noteq> [] then rest else if prefix \<noteq> [] then prefix @ upper_first key else key)
          else v
      | _ \<Rightarrow> v)"

definition transformProcessQueue :: "(string \<Rightarrow> setting) \<Rightarrow> queue_item list \<Rightarrow> queue_item list" where
  "transformProcessQueue opts items =
     map (\<lambda>item. map (\<lambda>(key, v). (key, transform_value opts (item_prefix item) key v)) item) items"

text \<open>What \<open>jquery.fileupload-validate.js\<close> appends to the default queue.\<close>

definition validate_item :: queue_item where
  "validate_item =
     [(''action'', StrS ''validate''), (''always'', BoolS True), (''acceptFileTypes'', StrS ''@''),
      (''maxFileSize'', StrS ''@''), (''minFileSize'', StrS ''@''), (''maxNumberOfFiles'', StrS ''@''),
      (''disabled'', StrS ''@disableValidation'')]"

definition validate_messages :: "(string \<times> string) list" where
  "validate_messages =
     [(''maxNumberOfFiles'', ''Maximum number of files exceeded''), (''acceptFileTypes'', ''File type not allowed''),
      (''maxFileSize'', ''File is too large''), (''minFileSize'', ''File is too small'')]"

section \<open>Validation\<close>

record vfile = upload_file +
  f_error :: "string option"

datatype promise = Pending | Resolved | Rejected

text \<open>A set of added files with its own queue, as the \<open>data\<close> object of the callbacks.\<close>

record pset =
  ps_files :: "vfile list"
  ps_error :: bool  \<comment> \<open>\<open>data.files.error\<close>\<close>
  ps_queue :: "queue_item list"
  ps_thrown :: bool  \<comment> \<open>\<open>data.errorThrown\<close>\<close>
  ps_auto :: bool
  ps_veto :: bool  \<comment> \<open>the \<open>submit\<close> callback returns false\<close>
  ps_state :: promise  \<comment> \<open>\<open>data._processQueue\<close>\<close>
  ps_xhr :: "promise option"  \<comment> \<open>\<open>data.jqXHR\<close>\<close>

definition type_ok :: "queue_item \<Rightarrow> 'a upload_file_scheme \<Rightarrow> bool" where
  "type_ok item f =
     (case item_get item ''acceptFileTypes'' of RegS r \<Rightarrow> r (f_type f) \<or> r (f_name f) | _ \<Rightarrow> True)"

definition checked_size :: "queue_item \<Rightarrow> 'a upload_file_scheme \<Rightarrow> nat option" where
  "checked_size item f =
     (if truthy (item_get item ''minFileSize'') \<or> truthy (item_get item ''maxFileSize'') then f_size f else None)"

definition too_large :: "queue_item \<Rightarrow> 'a upload_file_scheme \<Rightarrow> bool" where
  "too_large item f =
     (case (checked_size item f, item_get item ''maxFileSize'') of (Some n, NumS m) \<Rightarrow> m < n | _ \<Rightarrow> False)"

definition too_small :: "queue_item \<Rightarrow> 'a upload_file_scheme \<Rightarrow> bool" where
  "too_small item f =
     (case (checked_size item f, item_get item ''minFileSize'') of (Some n, NumS m) \<Rightarrow> n < m | _ \<Rightarrow> False)"

definition too_many :: "queue_item \<Rightarrow> nat \<Rightarrow> nat \<Rightarrow> bool" where
  "too_many item number added = (case item_get item ''maxNumberOfFiles'' of NumS m \<Rightarrow> m < number + added | _ \<Rightarrow> False)"

definition file_error :: "(string \<times> string) list \<Rightarrow> nat \<Rightarrow> queue_item \<Rightarrow> nat \<Rightarrow> 'a upload_file_scheme \<Rightarrow> string option" where
  "file_error messages number item added f =
     (if too_many item number added then Some (i18n messages ''maxNumberOfFiles'' [])
      else if \<not> type_ok item f then Some (i18n messages ''acceptFileTypes'' [])
      else if too_large item f then Some (i18n messages ''maxFileSize'' [])
      else if too_small item f then Some (i18n messages ''minFileSize'' [])
      else None)"

definition validate_file :: "(string \<times> string) list \<Rightarrow> nat \<Rightarrow> queue_item \<Rightarrow> nat \<Rightarrow> pset \<Rightarrow> pset \<times> bool" where
  "validate_file messages number item k d =
     (if truthy (item_get item ''disabled'') then (d, True)
      else let err = file_error messages number item (length (ps_files d)) (ps_files d ! k);
               bad = err \<noteq> None \<or> ps_error d
           in (d\<lparr>ps_files := (ps_files d)[k := (ps_files d ! k)\<lparr>f_error := err\<rparr>], ps_error := bad\<rparr>, \<not> bad))"

section \<open>The queue\<close>

datatype work = Task nat nat | Attach nat  \<comment> \<open>a file of a set; a set that only waits for the queue\<close>

record proc =
  pr_sets :: "pset list"
  pr_current :: "(nat \<times> nat \<times> queue_item list) option"  \<comment> \<open>an action that is awaited, and those after it\<close>
  pr_queue :: "work list"
  pr_count :: int  \<comment> \<open>\<open>_processing\<close>\<close>
  pr_last :: bool  \<comment> \<open>how \<open>_processingQueue\<close> was settled last\<close>
  pr_messages :: "(string \<times> string) list"
  pr_number :: nat  \<comment> \<open>what \<open>getNumberOfFiles\<close> returns\<close>
  pr_sent :: "nat list"  \<comment> \<open>sets given to \<open>_onSend\<close>\<close>
  pr_log :: "(string \<times> nat) list"

definition proc_created :: "(string \<times> string) list \<Rightarrow> proc" where
  "proc_created messages =
     \<lparr>pr_sets = [], pr_current = None, pr_queue = [], pr_count = 0, pr_last = True, pr_messages = messages,
      pr_number = 0, pr_sent = [], pr_log = []\<rparr>"

definition announce :: "string \<Rightarrow> nat \<Rightarrow> proc \<Rightarrow> proc" where
  "announce e s p = p\<lparr>pr_log := pr_log p @ [(e, s)]\<rparr>"

definition upd_set :: "nat \<Rightarrow> (pset \<Rightarrow> pset) \<Rightarrow> proc \<Rightarrow> proc" where
  "upd_set s f p = p\<lparr>pr_sets := (pr_sets p)[s := f (pr_sets p ! s)]\<rparr>"

abbreviation pst :: "proc \<Rightarrow> nat \<Rightarrow> pset" where
  "pst p s \<equiv> pr_sets p ! s"

text \<open>The state of a set: of its request, or else of its processing.\<close>

definition data_state :: "pset \<Rightarrow> promise" where
  "data_state d = (case ps_xhr d of Some x \<Rightarrow> x | None \<Rightarrow> ps_state d)"

definition submit :: "nat \<Rightarrow> proc \<Rightarrow> proc" where
  "submit s p =
     (if data_state (pst p s) = Pending then p
      else if ps_veto (pst p s) then upd_set s (\<lambda>d. d\<lparr>ps_xhr := None\<rparr>) (announce ''submit'' s p)
      else (upd_set s (\<lambda>d. d\<lparr>ps_xhr := Some Pending\<rparr>) (announce ''submit'' s p))\<lparr>pr_sent := pr_sent p @ [s]\<rparr>)"

text \<open>The promise of a set is settled; a set that uploads by itself is then submitted.\<close>

definition settle_set :: "nat \<Rightarrow> bool \<Rightarrow> proc \<Rightarrow> proc" where
  "settle_set s ok p =
     (let p1 = upd_set s (\<lambda>d. d\<lparr>ps_state := (if ok then Resolved else Rejected)\<rparr>) p
      in if ok \<and> ps_auto (pst p s) then submit s p1 else p1)"

text \<open>A file has been processed: its \<open>always\<close> handler, and the promise of its set after the last file.\<close>

definition finish_file :: "nat \<Rightarrow> nat \<Rightarrow> bool \<Rightarrow> proc \<Rightarrow> proc" where
  "finish_file s k ok p =
     (let p1 = p\<lparr>pr_count := pr_count p - 1, pr_last := ok\<rparr>;
          p2 = (if pr_count p1 = 0 then announce ''processstop'' s p1 else p1)
      in if k + 1 = length (ps_files (pst p2 s)) then settle_set s ok p2 else p2)"

definition process_ends :: "nat \<Rightarrow> bool \<Rightarrow> proc \<Rightarrow> proc" where
  "process_ends s ok p = announce ''processalways'' s (announce (if ok then ''processdone'' else ''processfail'') s p)"

text \<open>The chain of actions for one file; \<open>None\<close> while one of them is awaited.\<close>

fun do_actions :: "nat \<Rightarrow> nat \<Rightarrow> queue_item list \<Rightarrow> bool \<Rightarrow> proc \<Rightarrow> proc \<times> bool option" where
  "do_actions s k [] ok p = (process_ends s ok p, Some ok)"
| "do_actions s k (a # as) ok p =
     (if ok \<or> truthy (item_get a ''always'')
      then if ps_thrown (pst p s) then do_actions s k as False p
           else if action_is a ''validate''
           then let (d, r) = validate_file (pr_messages p) (pr_number p) a k (pst p s)
                in do_actions s k as r (upd_set s (\<lambda>_. d) p)
           else (p\<lparr>pr_current := Some (s, k, as)\<rparr>, None)
      else do_actions s k as False p)"

definition processFile :: "nat \<Rightarrow> nat \<Rightarrow> proc \<Rightarrow> proc \<times> bool option" where
  "processFile s k p =
     (if ps_thrown (pst p s) then (p, Some False)
      else do_actions s k (ps_queue (pst p s)) True (announce ''process'' s p))"

fun run_queue :: "work list \<Rightarrow> proc \<Rightarrow> proc" where
  "run_queue [] p = p\<lparr>pr_queue := []\<rparr>"
| "run_queue (Attach s # ws) p = run_queue ws (settle_set s (pr_last p) p)"
| "run_queue (Task s k # ws) p =
     (case processFile s k p of
        (p', Some ok) \<Rightarrow> run_queue ws (finish_file s k ok p')
      | (p', None) \<Rightarrow> p'\<lparr>pr_queue := ws\<rparr>)"

definition enqueue :: "work \<Rightarrow> proc \<Rightarrow> proc" where
  "enqueue w p = (if pr_current p = None then run_queue [w] p else p\<lparr>pr_queue := pr_queue p @ [w]\<rparr>)"

definition enqueue_file :: "nat \<Rightarrow> nat \<Rightarrow> proc \<Rightarrow> proc" where
  "enqueue_file s k p = enqueue (Task s k) (p\<lparr>pr_count := pr_count p + 1\<rparr>)"

text \<open>The method \<open>process\<close> for a new set, whose promise follows what the method returns.\<close>

definition process :: "nat \<Rightarrow> proc \<Rightarrow> proc" where
  "process s p =
     (let d = pst p s in
      if ps_queue d = [] then enqueue (Attach s) p
      else let p1 = (if pr_count p = 0 then announce ''processstart'' s p else p)
           in if ps_files d = [] then enqueue (Attach s) p1
              else fold (enqueue_file s) [0..<length (ps_files d)] p1)"

definition new_set :: "upload_file list \<Rightarrow> queue_item list \<Rightarrow> bool \<Rightarrow> bool \<Rightarrow> pset" where
  "new_set fs items auto veto =
     \<lparr>ps_files = map (\<lambda>f. upload_file.extend f \<lparr>f_error = None\<rparr>) fs, ps_error = False, ps_queue = items, ps_thrown = False,
      ps_auto = auto, ps_veto = veto, ps_state = Pending, ps_xhr = None\<rparr>"

section \<open>Events\<close>

datatype pevent =
  Added "upload_file list" "queue_item list" "string \<Rightarrow> setting" bool bool
    \<comment> \<open>the \<open>add\<close> callback: files, queue, options, whether the set uploads by itself, whether \<open>submit\<close> is vetoed\<close>
| ActionDone bool "upload_file option"  \<comment> \<open>the awaited action ends, perhaps with another file\<close>
| Aborted nat
| Submitted nat  \<comment> \<open>\<open>data.submit()\<close> is called\<close>
| Replied nat bool  \<comment> \<open>the request of a set ends\<close>
| Counted nat  \<comment> \<open>another value of \<open>getNumberOfFiles\<close>\<close>

definition add_set :: "upload_file list \<Rightarrow> queue_item list \<Rightarrow> (string \<Rightarrow> setting) \<Rightarrow> bool \<Rightarrow> bool \<Rightarrow> proc \<Rightarrow> proc" where
  "add_set fs items opts auto veto p =
     process (length (pr_sets p)) (p\<lparr>pr_sets := pr_sets p @ [new_set fs (transformProcessQueue opts items) auto veto]\<rparr>)"

definition replace_file :: "nat \<Rightarrow> upload_file \<Rightarrow> pset \<Rightarrow> pset" where
  "replace_file k f d = d\<lparr>ps_files := (ps_files d)[k := upload_file.extend f \<lparr>f_error = None\<rparr>]\<rparr>"

definition action_done :: "bool \<Rightarrow> upload_file option \<Rightarrow> proc \<Rightarrow> proc" where
  "action_done ok f p =
     (case pr_current p of
        None \<Rightarrow> p
      | Some (s, k, as) \<Rightarrow>
          let p1 = (case f of Some f \<Rightarrow> upd_set s (replace_file k f) p | None \<Rightarrow> p)\<lparr>pr_current := None\<rparr>
          in case do_actions s k as ok p1 of
               (p2, Some ok) \<Rightarrow> run_queue (pr_queue p) (finish_file s k ok p2)
             | (p2, None) \<Rightarrow> p2)"

definition reply_set :: "nat \<Rightarrow> bool \<Rightarrow> proc \<Rightarrow> proc" where
  "reply_set s ok p =
     (if ps_xhr (pst p s) = Some Pending
      then upd_set s (\<lambda>d. d\<lparr>ps_xhr := Some (if ok then Resolved else Rejected)\<rparr>) p else p)"

definition abort_set :: "nat \<Rightarrow> proc \<Rightarrow> proc" where
  "abort_set s p =
     (if ps_xhr (pst p s) \<noteq> None then reply_set s False p
      else announce ''fail'' s (upd_set s (\<lambda>d. d\<lparr>ps_thrown := True\<rparr>) p))"

fun pstep :: "pevent \<Rightarrow> proc \<Rightarrow> proc" where
  "pstep (Added fs items opts auto veto) p = add_set fs items opts auto veto p"
| "pstep (ActionDone ok f) p = action_done ok f p"
| "pstep (Aborted s) p = (if s < length (pr_sets p) then abort_set s p else p)"
| "pstep (Submitted s) p = (if s < length (pr_sets p) then submit s p else p)"
| "pstep (Replied s ok) p = (if s < length (pr_sets p) then reply_set s ok p else p)"
| "pstep (Counted n) p = p\<lparr>pr_number := n\<rparr>"

definition psteps :: "pevent list \<Rightarrow> proc \<Rightarrow> proc" where
  "psteps es p = fold pstep es p"

end
