(* ===== verification/UploadProcessProps.thy ===== *)
theory UploadProcessProps
  imports UploadProcess
begin

text \<open>
  What the processing of added files guarantees: in every run, the processing of a set only succeeds
  if each of its files is valid, a set that uploads by itself is only submitted in that case, and the
  widget's counter is the number of files that wait. The runs mix any sets, actions of other plug-ins
  in any number before the validation, aborts and manual submissions.
\<close>

section \<open>The invariant\<close>

fun tasks :: "work list \<Rightarrow> (nat \<times> nat) list" where
  "tasks [] = []"
| "tasks (Task s k # ws) = (s, k) # tasks ws"
| "tasks (Attach s # ws) = tasks ws"

fun attaches :: "work list \<Rightarrow> nat list" where
  "attaches [] = []"
| "attaches (Task s k # ws) = attaches ws"
| "attaches (Attach s # ws) = s # attaches ws"

lemma tasks_append [simp]: "tasks (ws @ vs) = tasks ws @ tasks vs"
  by (induction ws rule: tasks.induct) auto

lemma attaches_append [simp]: "attaches (ws @ vs) = attaches ws @ attaches vs"
  by (induction ws rule: attaches.induct) auto

definition works :: "proc \<Rightarrow> work list" where
  "works p = (case pr_current p of Some (s, k, as) \<Rightarrow> [Task s k] | None \<Rightarrow> []) @ pr_queue p"

text \<open>The queue ends with the validation, which is not disabled and runs whatever happened before.\<close>

definition checked :: "pset \<Rightarrow> bool" where
  "checked d \<longleftrightarrow>
     ps_queue d \<noteq> [] \<and> action_is (last (ps_queue d)) ''validate'' \<and>
     truthy (item_get (last (ps_queue d)) ''always'') \<and> \<not> truthy (item_get (last (ps_queue d)) ''disabled'')"

definition valid_file :: "queue_item \<Rightarrow> vfile \<Rightarrow> bool" where
  "valid_file item f \<longleftrightarrow> f_error f = None \<and> type_ok item f \<and> \<not> too_large item f \<and> \<not> too_small item f"

definition good :: "pset \<Rightarrow> nat \<Rightarrow> bool" where
  "good d k \<longleftrightarrow> valid_file (last (ps_queue d)) (ps_files d ! k)"

definition spoiled :: "pset \<Rightarrow> bool" where
  "spoiled d \<longleftrightarrow> ps_error d \<or> ps_thrown d"

definition before :: "nat \<times> nat \<Rightarrow> nat \<times> nat \<Rightarrow> bool" where
  "before x y \<longleftrightarrow> fst x < fst y \<or> fst x = fst y \<and> snd x < snd y"

definition live_task :: "proc \<Rightarrow> nat \<Rightarrow> nat \<Rightarrow> bool" where
  "live_task p s k \<longleftrightarrow>
     s < length (pr_sets p) \<and> k < length (ps_files (pst p s)) \<and> ps_state (pst p s) = Pending \<and> ps_queue (pst p s) \<noteq> []"

definition live_attach :: "proc \<Rightarrow> nat \<Rightarrow> bool" where
  "live_attach p s \<longleftrightarrow>
     s < length (pr_sets p) \<and> ps_state (pst p s) = Pending \<and> (ps_files (pst p s) = [] \<or> ps_queue (pst p s) = [])"

definition set_ok :: "(nat \<times> nat) list \<Rightarrow> nat \<Rightarrow> pset \<Rightarrow> bool" where
  "set_ok ts s d \<longleftrightarrow>
     (checked d \<longrightarrow>
       (\<forall>k<length (ps_files d). (s, k) \<in> set ts \<or> good d k \<or> spoiled d) \<and>
       (ps_state d = Resolved \<longrightarrow> (\<forall>k<length (ps_files d). good d k)))"

definition pcore :: "nat set \<Rightarrow> work list \<Rightarrow> proc \<Rightarrow> bool" where
  "pcore M ws p \<longleftrightarrow>
     sorted_wrt before (tasks ws) \<and> (\<forall>(s, k)\<in>set (tasks ws). live_task p s k) \<and>
     distinct (attaches ws) \<and> (\<forall>s\<in>set (attaches ws). live_attach p s) \<and>
     (\<forall>s<length (pr_sets p). set_ok (tasks ws) s (pst p s)) \<and>
     (\<forall>s\<in>set (pr_sent p). s < length (pr_sets p) \<and> (ps_state (pst p s) = Resolved \<or> s \<in> M))"

text \<open>A set whose promise is pending waits for its last file or is attached to the queue.\<close>

definition awaited :: "work list \<Rightarrow> proc \<Rightarrow> bool" where
  "awaited ws p \<longleftrightarrow>
     (\<forall>s<length (pr_sets p). ps_state (pst p s) = Pending \<longrightarrow>
       (\<exists>k. (s, k) \<in> set (tasks ws) \<and> k + 1 = length (ps_files (pst p s))) \<or> s \<in> set (attaches ws))"

definition pinv :: "nat set \<Rightarrow> work list \<Rightarrow> proc \<Rightarrow> bool" where
  "pinv M ws p \<longleftrightarrow> pcore M ws p \<and> awaited ws p"

definition rest_ok :: "proc \<Rightarrow> bool" where
  "rest_ok p \<longleftrightarrow>
     (case pr_current p of
        None \<Rightarrow> pr_queue p = []
      | Some (s, k, as) \<Rightarrow> checked (pst p s) \<longrightarrow> as \<noteq> [] \<and> last as = last (ps_queue (pst p s)))"

definition proc_inv :: "nat set \<Rightarrow> work list \<Rightarrow> proc \<Rightarrow> bool" where
  "proc_inv M later p \<longleftrightarrow>
     pinv M (works p @ later) p \<and> rest_ok p \<and> pr_count p = int (length (tasks (works p)))"

lemma pcoreI:
  assumes "sorted_wrt before (tasks ws)" and "\<And>s k. (s, k) \<in> set (tasks ws) \<Longrightarrow> live_task p s k"
    and "distinct (attaches ws)" and "\<And>s. s \<in> set (attaches ws) \<Longrightarrow> live_attach p s"
    and "\<And>s. s < length (pr_sets p) \<Longrightarrow> set_ok (tasks ws) s (pst p s)"
    and "\<And>s. s \<in> set (pr_sent p) \<Longrightarrow> s < length (pr_sets p) \<and> (ps_state (pst p s) = Resolved \<or> s \<in> M)"
  shows "pcore M ws p"
  using assms unfolding pcore_def by blast

lemma pcoreD:
  assumes "pcore M ws p"
  shows "sorted_wrt before (tasks ws)" and "\<And>s k. (s, k) \<in> set (tasks ws) \<Longrightarrow> live_task p s k"
    and "distinct (attaches ws)" and "\<And>s. s \<in> set (attaches ws) \<Longrightarrow> live_attach p s"
    and "\<And>s. s < length (pr_sets p) \<Longrightarrow> set_ok (tasks ws) s (pst p s)"
    and "\<And>s. s \<in> set (pr_sent p) \<Longrightarrow> s < length (pr_sets p) \<and> (ps_state (pst p s) = Resolved \<or> s \<in> M)"
  using assms unfolding pcore_def by blast+

lemma pinvD:
  assumes "pinv M ws p"
  shows "sorted_wrt before (tasks ws)" and "\<And>s k. (s, k) \<in> set (tasks ws) \<Longrightarrow> live_task p s k"
    and "distinct (attaches ws)" and "\<And>s. s \<in> set (attaches ws) \<Longrightarrow> live_attach p s"
    and "\<And>s. s < length (pr_sets p) \<Longrightarrow> set_ok (tasks ws) s (pst p s)"
    and "\<And>s. s \<in> set (pr_sent p) \<Longrightarrow> s < length (pr_sets p) \<and> (ps_state (pst p s) = Resolved \<or> s \<in> M)"
  using assms unfolding pinv_def pcore_def by blast+

lemma pinv_core: "pinv M ws p \<Longrightarrow> pcore M ws p" and pinv_awaited: "pinv M ws p \<Longrightarrow> awaited ws p"
  by (simp_all add: pinv_def)

lemma awaitedD:
  "awaited ws p \<Longrightarrow> s < length (pr_sets p) \<Longrightarrow> ps_state (pst p s) = Pending \<Longrightarrow> s \<notin> set (attaches ws) \<Longrightarrow>
   \<exists>k. (s, k) \<in> set (tasks ws) \<and> k + 1 = length (ps_files (pst p s))"
  by (auto simp: awaited_def)

text \<open>States and files as they were, except for sets that are not pending now.\<close>

lemma awaited_mono:
  assumes "awaited ws p" and "length (pr_sets q) = length (pr_sets p)"
    and "\<And>s. s < length (pr_sets p) \<Longrightarrow> ps_state (pst q s) = Pending \<Longrightarrow>
      ps_state (pst p s) = Pending \<and> length (ps_files (pst q s)) = length (ps_files (pst p s))"
  shows "awaited ws q"
  using assms unfolding awaited_def by metis

section \<open>Steps that touch one file\<close>

lemma f_error_frame [simp]:
  "f_type (f\<lparr>f_error := e\<rparr>) = f_type f" "f_name (f\<lparr>f_error := e\<rparr>) = f_name f" "f_size (f\<lparr>f_error := e\<rparr>) = f_size f"
  by (cases f, simp)+

lemma file_error_irrelevant [simp]:
  "type_ok item (f\<lparr>f_error := e\<rparr>) = type_ok item f" "too_large item (f\<lparr>f_error := e\<rparr>) = too_large item f"
  "too_small item (f\<lparr>f_error := e\<rparr>) = too_small item f"
  by (simp_all add: type_ok_def too_large_def too_small_def checked_size_def split: setting.split)

lemma upd_set_frame [simp]:
  "pr_current (upd_set s f p) = pr_current p" "pr_queue (upd_set s f p) = pr_queue p"
  "pr_count (upd_set s f p) = pr_count p" "pr_sent (upd_set s f p) = pr_sent p"
  "pr_last (upd_set s f p) = pr_last p" "length (pr_sets (upd_set s f p)) = length (pr_sets p)"
  by (simp_all add: upd_set_def)

lemma announce_frame [simp]:
  "pr_current (announce e s p) = pr_current p" "pr_queue (announce e s p) = pr_queue p"
  "pr_count (announce e s p) = pr_count p" "pr_sent (announce e s p) = pr_sent p"
  "pr_last (announce e s p) = pr_last p" "pr_sets (announce e s p) = pr_sets p"
  by (simp_all add: announce_def)

text \<open>Only file \<open>k\<close> of set \<open>s\<close> may change, and the error flag of the set only rises.\<close>

definition touches :: "nat \<Rightarrow> nat \<Rightarrow> proc \<Rightarrow> proc \<Rightarrow> bool" where
  "touches s k p q \<longleftrightarrow>
     length (pr_sets q) = length (pr_sets p) \<and> (\<forall>i. i \<noteq> s \<longrightarrow> pst q i = pst p i) \<and>
     length (ps_files (pst q s)) = length (ps_files (pst p s)) \<and>
     (\<forall>j. j \<noteq> k \<longrightarrow> ps_files (pst q s) ! j = ps_files (pst p s) ! j) \<and>
     ps_queue (pst q s) = ps_queue (pst p s) \<and> ps_state (pst q s) = ps_state (pst p s) \<and>
     (spoiled (pst p s) \<longrightarrow> spoiled (pst q s)) \<and>
     pr_sent q = pr_sent p \<and> pr_queue q = pr_queue p \<and> pr_count q = pr_count p"

lemma touches_refl [simp]: "touches s k p p"
  by (simp add: touches_def)

lemma touches_trans: "touches s k p q \<Longrightarrow> touches s k q r \<Longrightarrow> touches s k p r"
  unfolding touches_def by metis

lemma touches_checked: "touches s k p q \<Longrightarrow> checked (pst q i) = checked (pst p i)"
  unfolding touches_def checked_def by metis

lemma touches_pcore:
  assumes "touches s k p q" and "pcore M ws p" and "(s, k) \<in> set (tasks ws)"
  shows "pcore M ws q"
proof (rule pcoreI)
  have s: "s < length (pr_sets p)" "ps_state (pst p s) = Pending"
    using pcoreD(2) [OF assms(2,3)] by (auto simp: live_task_def)
  fix i assume i: "i < length (pr_sets q)"
  show "set_ok (tasks ws) i (pst q i)"
  proof (cases "i = s")
    case True
    have ok: "set_ok (tasks ws) s (pst p s)" by (rule pcoreD(5) [OF assms(2) s(1)])
    have "good (pst q s) j = good (pst p s) j" if "j \<noteq> k" for j
      using assms(1) that by (simp add: touches_def good_def)
    moreover have t: "length (ps_files (pst q s)) = length (ps_files (pst p s))" "ps_state (pst q s) = Pending"
      "spoiled (pst p s) \<Longrightarrow> spoiled (pst q s)" "checked (pst q s) = checked (pst p s)"
      using assms(1) s(2) touches_checked [OF assms(1), of s] by (simp_all add: touches_def)
    ultimately have "(s, j) \<in> set (tasks ws) \<or> good (pst q s) j \<or> spoiled (pst q s)"
      if "checked (pst q s)" "j < length (ps_files (pst q s))" for j
      using that ok assms(3) by (cases "j = k") (auto simp: set_ok_def)
    with t(2) True show ?thesis by (simp add: set_ok_def)
  next
    case False
    with assms(1) pcoreD(5) [OF assms(2)] i show ?thesis unfolding touches_def by metis
  qed
next
  fix i assume "i \<in> set (pr_sent q)"
  then show "i < length (pr_sets q) \<and> (ps_state (pst q i) = Resolved \<or> i \<in> M)"
    using pcoreD(6) [OF assms(2), of i] assms(1) unfolding touches_def by metis
next
  fix i assume "i \<in> set (attaches ws)"
  then have "live_attach p i" by (rule pcoreD(4) [OF assms(2)])
  then show "live_attach q i"
    using assms(1) unfolding touches_def live_attach_def by (metis length_0_conv)
next
  fix i j assume "(i, j) \<in> set (tasks ws)"
  then have "live_task p i j" by (rule pcoreD(2) [OF assms(2)])
  then show "live_task q i j"
    using assms(1) unfolding touches_def live_task_def by metis
qed (rule pcoreD [OF assms(2)])+

lemma do_actions_touches:
  assumes "s < length (pr_sets p)" and "do_actions s k as ok p = (q, r)"
  shows "touches s k p q \<and> pr_current q = (if r = None then pr_current q else pr_current p)"
  using assms
proof (induction as arbitrary: ok p)
  case Nil
  then show ?case by (auto simp: process_ends_def announce_def touches_def)
next
  case (Cons a as)
  show ?case
  proof (cases "(ok \<or> truthy (item_get a ''always'')) \<and> \<not> ps_thrown (pst p s)")
    case False
    with Cons.prems Cons.IH [of p False] show ?thesis by (auto split: if_splits)
  next
    case run: True
    show ?thesis
    proof (cases "action_is a ''validate''")
      case False
      with run Cons.prems show ?thesis by (auto simp: touches_def)
    next
      case True
      obtain d b where v: "validate_file (pr_messages p) (pr_number p) a k (pst p s) = (d, b)" by fastforce
      with True run Cons.prems(2) have "do_actions s k as b (upd_set s (\<lambda>_. d) p) = (q, r)" by simp
      with Cons.IH [of "upd_set s (\<lambda>_. d) p" b] Cons.prems(1)
      have "touches s k (upd_set s (\<lambda>_. d) p) q \<and> pr_current q = (if r = None then pr_current q else pr_current p)"
        by (cases r) simp_all
      moreover have "touches s k p (upd_set s (\<lambda>_. d) p)"
        using v Cons.prems(1)
        by (auto simp: touches_def upd_set_def validate_file_def Let_def spoiled_def split: if_splits)
      ultimately show ?thesis by (blast intro: touches_trans)
    qed
  qed
qed

text \<open>What the chain gives when it ends with the validation.\<close>

definition verdict :: "pset \<Rightarrow> nat \<Rightarrow> bool \<Rightarrow> bool" where
  "verdict d k ok \<longleftrightarrow> (checked d \<longrightarrow> (if ok then good d k \<and> \<not> spoiled d else spoiled d))"

lemma validate_verdict:
  assumes "checked d" and "k < length (ps_files d)" and "\<not> ps_thrown d"
    and "validate_file ms n (last (ps_queue d)) k d = (d', b)"
  shows "if b then good d' k \<and> \<not> spoiled d' else spoiled d'"
  using assms
  by (auto simp: validate_file_def Let_def checked_def good_def valid_file_def spoiled_def file_error_def split: if_splits)

lemma do_actions_verdict:
  assumes "s < length (pr_sets p)" and "k < length (ps_files (pst p s))" and "do_actions s k as ok p = (q, Some r)"
    and "checked (pst p s) \<Longrightarrow> as \<noteq> [] \<and> last as = last (ps_queue (pst p s))"
  shows "verdict (pst q s) k r"
  using assms
proof (induction as arbitrary: ok p)
  case Nil
  then show ?case by (auto simp: verdict_def process_ends_def announce_def)
next
  case (Cons a as)
  have thrown: "r = False \<and> ps_thrown (pst q s)" if "do_actions s k xs b p = (q, Some r)" "ps_thrown (pst p s)" "b \<longrightarrow> xs \<noteq> []" for xs b
    using that by (induction xs arbitrary: b) (auto simp: process_ends_def announce_def split: if_splits)
  show ?case
  proof (cases "ps_thrown (pst p s)")
    case True
    with thrown [OF Cons.prems(3)] show ?thesis by (simp add: verdict_def spoiled_def)
  next
    case nt: False
    show ?thesis
    proof (cases "as = []")
      case last: True
      show ?thesis
      proof (cases "checked (pst p s)")
        case True
        with Cons.prems(4) last have a: "a = last (ps_queue (pst p s))" by simp
        obtain d b where v: "validate_file (pr_messages p) (pr_number p) a k (pst p s) = (d, b)" by fastforce
        have "truthy (item_get a ''always'')" "action_is a ''validate''"
          using True a by (auto simp: checked_def)
        with v nt last Cons.prems(3) have "r = b \<and> q = process_ends s b (upd_set s (\<lambda>_. d) p)" by auto
        with validate_verdict [OF True Cons.prems(2) nt] v a Cons.prems(1) show ?thesis
          by (simp add: verdict_def process_ends_def announce_def upd_set_def)
      next
        case False
        have "touches s k p q" using do_actions_touches [OF Cons.prems(1,3)] by simp
        with False show ?thesis by (simp add: verdict_def touches_checked)
      qed
    next
      case more: False
      show ?thesis
      proof (cases "(ok \<or> truthy (item_get a ''always'')) \<and> action_is a ''validate''")
        case False
        with nt Cons.prems(3) have "do_actions s k as False p = (q, Some r)" by (auto split: if_splits)
        with Cons.IH [of p False] Cons.prems more show ?thesis by simp
      next
        case True
        obtain d b where v: "validate_file (pr_messages p) (pr_number p) a k (pst p s) = (d, b)" by fastforce
        let ?p = "upd_set s (\<lambda>_. d) p"
        have do: "do_actions s k as b ?p = (q, Some r)" using True nt v Cons.prems(3) by simp
        have "length (ps_files d) = length (ps_files (pst p s))" and "ps_queue d = ps_queue (pst p s)"
          using v by (auto simp: validate_file_def Let_def split: if_splits)
        with Cons.IH [OF _ _ do] Cons.prems more show ?thesis by (simp add: upd_set_def checked_def)
      qed
    qed
  qed
qed

lemma do_actions_rest:
  assumes "s < length (pr_sets p)" and "do_actions s k as ok p = (q, None)"
    and "checked (pst p s) \<Longrightarrow> as \<noteq> [] \<and> last as = last (ps_queue (pst p s))"
  shows "\<exists>rest. pr_current q = Some (s, k, rest) \<and> (checked (pst q s) \<longrightarrow> rest \<noteq> [] \<and> last rest = last (ps_queue (pst q s)))"
  using assms
proof (induction as arbitrary: ok p)
  case Nil
  then show ?case by simp
next
  case (Cons a as)
  show ?case
  proof (cases "as = []")
    case True
    with Cons.prems show ?thesis
      by (auto simp: checked_def Let_def split: if_splits prod.splits)
  next
    case more: False
    show ?thesis
    proof (cases "(ok \<or> truthy (item_get a ''always'')) \<and> \<not> ps_thrown (pst p s)")
      case False
      with Cons.prems have "do_actions s k as False p = (q, None)" by (auto split: if_splits)
      with Cons.IH [of p False] Cons.prems more show ?thesis by simp
    next
      case run: True
      show ?thesis
      proof (cases "action_is a ''validate''")
        case False
        with run Cons.prems more show ?thesis by (auto simp: checked_def)
      next
        case True
        obtain d b where v: "validate_file (pr_messages p) (pr_number p) a k (pst p s) = (d, b)" by fastforce
        let ?p = "upd_set s (\<lambda>_. d) p"
        have do: "do_actions s k as b ?p = (q, None)" using True run v Cons.prems(2) by simp
        have "ps_queue d = ps_queue (pst p s)" using v by (auto simp: validate_file_def Let_def split: if_splits)
        with Cons.IH [OF _ do] Cons.prems more show ?thesis by (simp add: upd_set_def checked_def)
      qed
    qed
  qed
qed


section \<open>Runs of the queue\<close>

lemma submit_pcore:
  assumes "pcore M ws p" and "s < length (pr_sets p)" and "ps_state (pst p s) = Resolved \<or> s \<in> M"
  shows "pcore M ws (submit s p)"
proof (rule pcoreI)
  let ?q = "submit s p"
  have v: "length (pr_sets ?q) = length (pr_sets p)" "ps_files (pst ?q i) = ps_files (pst p i)"
    "ps_queue (pst ?q i) = ps_queue (pst p i)" "ps_state (pst ?q i) = ps_state (pst p i)"
    "ps_error (pst ?q i) = ps_error (pst p i)" "ps_thrown (pst ?q i) = ps_thrown (pst p i)" for i
    using assms(2) by (cases "i = s"; simp add: submit_def upd_set_def announce_def)+
  show "sorted_wrt before (tasks ws)" and "distinct (attaches ws)" by (rule pcoreD [OF assms(1)])+
  show "live_task ?q i k" if "(i, k) \<in> set (tasks ws)" for i k
    using pcoreD(2) [OF assms(1) that] by (simp add: live_task_def v)
  show "live_attach ?q i" if "i \<in> set (attaches ws)" for i
    using pcoreD(4) [OF assms(1) that] by (simp add: live_attach_def v)
  show "set_ok (tasks ws) i (pst ?q i)" if "i < length (pr_sets ?q)" for i
    using pcoreD(5) [OF assms(1)] that by (simp add: set_ok_def checked_def good_def spoiled_def v)
  fix i assume "i \<in> set (pr_sent ?q)"
  then have "i \<in> set (pr_sent p) \<or> i = s" by (auto simp: submit_def split: if_splits)
  then show "i < length (pr_sets ?q) \<and> (ps_state (pst ?q i) = Resolved \<or> i \<in> M)"
    using pcoreD(6) [OF assms(1)] assms(2,3) by (auto simp: v)
qed

lemma settle_state: "s < length (pr_sets p) \<Longrightarrow> i < length (pr_sets p) \<Longrightarrow>
  ps_state (pst (upd_set s (\<lambda>d. d\<lparr>ps_state := x\<rparr>) p) i) = (if i = s then x else ps_state (pst p i))"
  by (simp add: upd_set_def)

text \<open>A set is settled when none of its tasks is left.\<close>

lemma settle_pcore:
  assumes "pcore M ws p" and "s < length (pr_sets p)" and "ps_state (pst p s) = Pending"
    and "s \<notin> fst ` set (tasks ws)" and "s \<notin> set (attaches ws)"
    and "checked (pst p s) \<Longrightarrow> ok \<Longrightarrow> \<forall>k<length (ps_files (pst p s)). good (pst p s) k"
  shows "pcore M ws (settle_set s ok p)"
proof -
  let ?x = "if ok then Resolved else Rejected"
  let ?q = "upd_set s (\<lambda>d. d\<lparr>ps_state := ?x\<rparr>) p"
  have other: "pst ?q i = pst p i" if "i \<noteq> s" for i
    using that by (simp add: upd_set_def)
  have same: "pst ?q s = (pst p s)\<lparr>ps_state := ?x\<rparr>"
    using assms(2) by (simp add: upd_set_def)
  have "pcore M ws ?q"
  proof (rule pcoreI)
    show "live_task ?q i k" if "(i, k) \<in> set (tasks ws)" for i k
      using pcoreD(2) [OF assms(1) that] assms(4) that other [of i] by (force simp: live_task_def)
    show "live_attach ?q i" if "i \<in> set (attaches ws)" for i
      using pcoreD(4) [OF assms(1) that] assms(5) that other [of i] by (cases "i = s") (simp_all add: live_attach_def)
    show "set_ok (tasks ws) i (pst ?q i)" if "i < length (pr_sets ?q)" for i
      using pcoreD(5) [OF assms(1), of i] that assms(6) other [of i] same
      by (cases "i = s") (auto simp: set_ok_def checked_def good_def spoiled_def)
    show "i < length (pr_sets ?q) \<and> (ps_state (pst ?q i) = Resolved \<or> i \<in> M)" if "i \<in> set (pr_sent ?q)" for i
      using pcoreD(6) [OF assms(1), of i] that assms(3) other [of i] by (cases "i = s") auto
  qed (rule pcoreD [OF assms(1)])+
  then show ?thesis
    using submit_pcore [of M ws ?q s] assms(2) same by (auto simp: settle_set_def Let_def)
qed

lemma settle_frame [simp]:
  "pr_current (settle_set s ok p) = pr_current p" "pr_queue (settle_set s ok p) = pr_queue p"
  "pr_count (settle_set s ok p) = pr_count p" "pr_last (settle_set s ok p) = pr_last p"
  by (simp_all add: settle_set_def submit_def Let_def)

lemma finish_pcore:
  assumes "pcore M (Task s k # ws) p" and "verdict (pst p s) k ok"
  shows "pcore M ws (finish_file s k ok p)"
proof -
  define p2 where "p2 = (let p1 = p\<lparr>pr_count := pr_count p - 1, pr_last := ok\<rparr> in if pr_count p1 = 0 then announce ''processstop'' s p1 else p1)"
  have f: "finish_file s k ok p = (if k + 1 = length (ps_files (pst p s)) then settle_set s ok p2 else p2)"
    by (simp add: finish_file_def p2_def Let_def)
  have v [simp]: "pr_sets p2 = pr_sets p" "pr_sent p2 = pr_sent p"
    by (simp_all add: p2_def Let_def)
  note D = pcoreD [OF assms(1)]
  have live: "live_task p s k" by (rule D(2)) simp
  then have s: "s < length (pr_sets p)" "ps_state (pst p s) = Pending" and k: "k < length (ps_files (pst p s))"
    by (simp_all add: live_task_def)
  have ws: "\<And>i j. (i, j) \<in> set (tasks ws) \<Longrightarrow> before (s, k) (i, j)" "sorted_wrt before (tasks ws)"
    using D(1) by auto
  have p2: "pcore M ws p2"
  proof (rule pcoreI)
    show "set_ok (tasks ws) i (pst p2 i)" if "i < length (pr_sets p2)" for i
      using D(5) [of i] that assms(2) s(2)
      by (cases "i = s") (auto simp: set_ok_def verdict_def split: if_splits)
    show "live_task p2 i j" if "(i, j) \<in> set (tasks ws)" for i j
      using D(2) [of i j] that by (simp add: live_task_def)
    show "live_attach p2 i" if "i \<in> set (attaches ws)" for i
      using D(4) [of i] that by (simp add: live_attach_def)
  qed (use D(3,6) ws(2) in auto)
  show ?thesis
  proof (cases "k + 1 = length (ps_files (pst p s))")
    case True
    have "pcore M ws (settle_set s ok p2)"
    proof (rule settle_pcore [OF p2])
      show "s \<notin> fst ` set (tasks ws)"
      proof
        assume "s \<in> fst ` set (tasks ws)"
        then obtain j where j: "(s, j) \<in> set (tasks ws)" by force
        then have "k < j" and "j < length (ps_files (pst p s))"
          using ws(1) [OF j] D(2) [of s j] by (auto simp: before_def live_task_def)
        with True show False by simp
      qed
      show "s \<notin> set (attaches ws)"
        using D(4) [of s] live by (auto simp: live_attach_def live_task_def)
      assume c: "checked (pst p2 s)" and ok
      then have g: "good (pst p s) k" "\<not> spoiled (pst p s)"
        using assms(2) by (simp_all add: verdict_def)
      show "\<forall>j<length (ps_files (pst p2 s)). good (pst p2 s) j"
      proof (intro allI impI)
        fix j assume "j < length (ps_files (pst p2 s))"
        with True have j: "j = k \<or> j < k" "j < length (ps_files (pst p s))" by auto
        have "(s, j) \<notin> set (tasks ws)" if "j < k"
          using ws(1) [of s j] that by (auto simp: before_def)
        with j D(5) [OF s(1)] g c show "good (pst p2 s) j" by (auto simp: set_ok_def)
      qed
    qed (use s in auto)
    with f True show ?thesis by simp
  next
    case False
    with f p2 show ?thesis by simp
  qed
qed

lemma submit_view:
  assumes "s < length (pr_sets p)"
  shows "length (pr_sets (submit s p)) = length (pr_sets p)" and "ps_files (pst (submit s p) i) = ps_files (pst p i)"
    and "ps_state (pst (submit s p) i) = ps_state (pst p i)"
  using assms by (cases "i = s"; simp add: submit_def upd_set_def announce_def)+

lemma settle_view:
  assumes "s < length (pr_sets p)"
  shows "length (pr_sets (settle_set s ok p)) = length (pr_sets p)"
    and "ps_files (pst (settle_set s ok p) i) = ps_files (pst p i)"
    and "ps_state (pst (settle_set s ok p) i) = (if i = s then if ok then Resolved else Rejected else ps_state (pst p i))"
proof -
  let ?q = "upd_set s (\<lambda>d. d\<lparr>ps_state := if ok then Resolved else Rejected\<rparr>) p"
  have "length (pr_sets ?q) = length (pr_sets p)" "ps_files (pst ?q i) = ps_files (pst p i)"
    "ps_state (pst ?q i) = (if i = s then if ok then Resolved else Rejected else ps_state (pst p i))"
    using assms by (cases "i = s"; simp add: upd_set_def)+
  moreover have "settle_set s ok p = submit s ?q \<or> settle_set s ok p = ?q"
    by (simp add: settle_set_def Let_def)
  ultimately show "length (pr_sets (settle_set s ok p)) = length (pr_sets p)"
    and "ps_files (pst (settle_set s ok p) i) = ps_files (pst p i)"
    and "ps_state (pst (settle_set s ok p) i) = (if i = s then if ok then Resolved else Rejected else ps_state (pst p i))"
    using submit_view [of s ?q] assms by auto
qed

lemma touches_pinv:
  assumes "touches s k p q" and "pinv M ws p" and "(s, k) \<in> set (tasks ws)"
  shows "pinv M ws q"
proof -
  have "length (pr_sets q) = length (pr_sets p)"
    and "ps_state (pst q i) = ps_state (pst p i) \<and> length (ps_files (pst q i)) = length (ps_files (pst p i))" for i
    using assms(1) by (cases "i = s"; simp add: touches_def)+
  then have "awaited ws q" by (intro awaited_mono [OF pinv_awaited [OF assms(2)]]) simp_all
  with touches_pcore [OF assms(1) pinv_core [OF assms(2)] assms(3)] show ?thesis by (simp add: pinv_def)
qed

lemma finish_pinv:
  assumes "pinv M (Task s k # ws) p" and "verdict (pst p s) k ok"
  shows "pinv M ws (finish_file s k ok p)"
proof -
  let ?q = "finish_file s k ok p"
  have s: "s < length (pr_sets p)" using pinvD(2) [OF assms(1), of s k] by (simp add: live_task_def)
  define p2 where "p2 = (let p1 = p\<lparr>pr_count := pr_count p - 1, pr_last := ok\<rparr> in if pr_count p1 = 0 then announce ''processstop'' s p1 else p1)"
  have p2: "pr_sets p2 = pr_sets p" by (simp add: p2_def Let_def)
  have q: "?q = (if k + 1 = length (ps_files (pst p s)) then settle_set s ok p2 else p2)"
    by (simp add: finish_file_def p2_def Let_def)
  have v: "length (pr_sets ?q) = length (pr_sets p)" "ps_files (pst ?q i) = ps_files (pst p i)"
    "ps_state (pst ?q i) = Pending \<Longrightarrow> ps_state (pst p i) = Pending \<and> (i = s \<longrightarrow> k + 1 \<noteq> length (ps_files (pst p s)))" for i
    using settle_view [of s p2] s by (auto simp: q p2 split: if_splits)
  have "awaited ws ?q"
    unfolding awaited_def
  proof (intro allI impI)
    fix i assume "i < length (pr_sets ?q)" and "ps_state (pst ?q i) = Pending"
    with v have i: "i < length (pr_sets p)" "ps_state (pst p i) = Pending" "i = s \<Longrightarrow> k + 1 \<noteq> length (ps_files (pst p s))" by auto
    show "(\<exists>j. (i, j) \<in> set (tasks ws) \<and> j + 1 = length (ps_files (pst ?q i))) \<or> i \<in> set (attaches ws)"
      using awaitedD [OF pinv_awaited [OF assms(1)] i(1,2)] i(3) v(2) by auto
  qed
  with finish_pcore [OF pinv_core [OF assms(1)] assms(2)] show ?thesis by (simp add: pinv_def)
qed

lemma submit_pinv:
  assumes "pinv M ws p" and "s < length (pr_sets p)" and "ps_state (pst p s) = Resolved \<or> s \<in> M"
  shows "pinv M ws (submit s p)"
proof -
  have "awaited ws (submit s p)"
    by (rule awaited_mono [OF pinv_awaited [OF assms(1)]]) (use assms(2) submit_view in auto)
  with submit_pcore [OF pinv_core [OF assms(1)] assms(2,3)] show ?thesis by (simp add: pinv_def)
qed

lemma pinv_copy: "pinv M ws p \<Longrightarrow> pr_sets q = pr_sets p \<Longrightarrow> pr_sent q = pr_sent p \<Longrightarrow> pinv M ws q"
  by (simp add: pinv_def pcore_def awaited_def live_task_def live_attach_def)

lemma rest_copy:
  "rest_ok p \<Longrightarrow> pr_sets q = pr_sets p \<Longrightarrow> pr_current q = pr_current p \<Longrightarrow> pr_queue q = pr_queue p \<Longrightarrow> rest_ok q"
  by (simp add: rest_ok_def split: option.splits prod.splits)

lemma finish_frame [simp]:
  "pr_current (finish_file s k ok p) = pr_current p" "pr_queue (finish_file s k ok p) = pr_queue p"
  "pr_count (finish_file s k ok p) = pr_count p - 1"
  by (simp_all add: finish_file_def Let_def)

lemma processFile_ends:
  assumes "live_task p s k" and "processFile s k p = (q, Some ok)"
  shows "touches s k p q \<and> verdict (pst q s) k ok \<and> pr_current q = pr_current p"
proof (cases "ps_thrown (pst p s)")
  case True
  with assms show ?thesis by (simp add: processFile_def verdict_def spoiled_def)
next
  case False
  let ?p = "announce ''process'' s p"
  from False assms(2) have d: "do_actions s k (ps_queue (pst p s)) True ?p = (q, Some ok)"
    by (simp add: processFile_def)
  from assms(1) have s: "s < length (pr_sets ?p)" and k: "k < length (ps_files (pst ?p s))"
    by (simp_all add: live_task_def)
  have "touches s k p ?p" by (simp add: touches_def)
  with do_actions_touches [OF s d] do_actions_verdict [OF s k d] show ?thesis
    by (auto intro: touches_trans simp: checked_def)
qed

lemma processFile_waits:
  assumes "live_task p s k" and "processFile s k p = (q, None)"
  shows "touches s k p q \<and>
    (\<exists>rest. pr_current q = Some (s, k, rest) \<and> (checked (pst q s) \<longrightarrow> rest \<noteq> [] \<and> last rest = last (ps_queue (pst q s))))"
proof -
  let ?p = "announce ''process'' s p"
  from assms(2) have d: "do_actions s k (ps_queue (pst p s)) True ?p = (q, None)"
    by (simp add: processFile_def split: if_splits)
  from assms(1) have s: "s < length (pr_sets ?p)" by (simp add: live_task_def)
  have "touches s k p ?p" by (simp add: touches_def)
  with do_actions_touches [OF s d] do_actions_rest [OF s d] show ?thesis
    by (auto intro: touches_trans simp: checked_def)
qed

lemma attach_pinv:
  assumes "pinv M (Attach s # ws) p"
  shows "pinv M ws (settle_set s ok p)"
proof -
  note D = pinvD [OF assms]
  have live: "live_attach p s" by (rule D(4)) simp
  then have s: "s < length (pr_sets p)" "ps_state (pst p s) = Pending" by (simp_all add: live_attach_def)
  have "pcore M ws (settle_set s ok p)"
  proof (rule settle_pcore [OF _ s])
    show "pcore M ws p" using pinv_core [OF assms] by (simp add: pcore_def)
    show "s \<notin> set (attaches ws)" using D(3) by simp
    show "s \<notin> fst ` set (tasks ws)" using D(2) live by (force simp: live_attach_def live_task_def)
    show "\<forall>k<length (ps_files (pst p s)). good (pst p s) k" if "checked (pst p s)"
      using live that by (auto simp: live_attach_def checked_def)
  qed
  moreover have "awaited ws (settle_set s ok p)"
    using pinv_awaited [OF assms] settle_view [OF s(1)] by (auto simp: awaited_def)
  ultimately show ?thesis by (simp add: pinv_def)
qed

lemma run_queue_inv:
  assumes "pinv M (ws @ later) p" and "pr_current p = None" and "pr_count p = int (length (tasks ws))"
  shows "proc_inv M later (run_queue ws p)"
  using assms
proof (induction ws p rule: run_queue.induct)
  case (1 p)
  have "pinv M later (p\<lparr>pr_queue := []\<rparr>)" by (rule pinv_copy [of _ _ p]) (use "1.prems"(1) in simp_all)
  with "1.prems" show ?case by (simp add: proc_inv_def works_def rest_ok_def)
next
  case (2 s ws p)
  then show ?case using attach_pinv [of M s "ws @ later" p] by simp
next
  case (3 s k ws p)
  have live: "live_task p s k" using pinvD(2) [OF "3.prems"(1)] by simp
  obtain q r where q: "processFile s k p = (q, r)" by fastforce
  show ?case
  proof (cases r)
    case (Some ok)
    with processFile_ends [OF live] q
    have t: "touches s k p q" "verdict (pst q s) k ok" "pr_current q = pr_current p" by simp_all
    have "pinv M (Task s k # (ws @ later)) q" using touches_pinv [OF t(1) "3.prems"(1)] by simp
    then have "pinv M (ws @ later) (finish_file s k ok q)" using t(2) by (rule finish_pinv)
    with "3.IH" q Some t "3.prems" show ?thesis by (simp add: touches_def)
  next
    case None
    with processFile_waits [OF live] q obtain rest where
      t: "touches s k p q" "pr_current q = Some (s, k, rest)"
        "checked (pst q s) \<longrightarrow> rest \<noteq> [] \<and> last rest = last (ps_queue (pst q s))" by blast
    have "pinv M (Task s k # (ws @ later)) (q\<lparr>pr_queue := ws\<rparr>)"
      by (rule pinv_copy [of _ _ q]) (use touches_pinv [OF t(1) "3.prems"(1)] in simp_all)
    with q None t "3.prems" show ?thesis
      by (simp add: proc_inv_def works_def rest_ok_def touches_def)
  qed
qed

lemma enqueue_inv:
  assumes "pinv M (works p @ w # later) p" and "rest_ok p" and "pr_count p = int (length (tasks (works p @ [w])))"
  shows "proc_inv M later (enqueue w p)"
proof (cases "pr_current p")
  case None
  with assms show ?thesis
    using run_queue_inv [of M "[w]" later p] by (simp add: enqueue_def works_def rest_ok_def)
next
  case (Some c)
  have "pinv M (works p @ w # later) (p\<lparr>pr_queue := pr_queue p @ [w]\<rparr>)"
    by (rule pinv_copy [OF assms(1)]) simp_all
  with Some assms show ?thesis
    by (cases c) (simp add: enqueue_def proc_inv_def works_def rest_ok_def)
qed

lemma enqueue_files_inv:
  "proc_inv M (map (Task s) ks) p \<Longrightarrow> proc_inv M [] (fold (enqueue_file s) ks p)"
proof (induction ks arbitrary: p)
  case Nil
  then show ?case by simp
next
  case (Cons k ks)
  let ?p = "p\<lparr>pr_count := pr_count p + 1\<rparr>"
  have w: "works ?p = works p" by (simp add: works_def)
  have p: "pinv M (works p @ Task s k # map (Task s) ks) p" "rest_ok p" "pr_count p = int (length (tasks (works p)))"
    using Cons.prems by (simp_all add: proc_inv_def)
  have "pinv M (works ?p @ Task s k # map (Task s) ks) ?p"
    unfolding w by (rule pinv_copy [OF p(1)]) simp_all
  moreover have "rest_ok ?p" by (rule rest_copy [OF p(2)]) simp_all
  ultimately have "proc_inv M (map (Task s) ks) (enqueue (Task s k) ?p)"
    using p(3) by (intro enqueue_inv) (simp_all add: works_def)
  with Cons.IH show ?case by (simp add: enqueue_file_def)
qed

section \<open>Events\<close>

lemma tasks_map [simp]: "tasks (map (Task s) ks) = map (Pair s) ks" "attaches (map (Task s) ks) = []"
  by (induction ks) auto

lemma works_frame: "pr_current q = pr_current p \<Longrightarrow> pr_queue q = pr_queue p \<Longrightarrow> works q = works p"
  by (simp add: works_def)

lemma add_set_inv:
  assumes "proc_inv M [] p"
  shows "proc_inv M [] (add_set fs items opts auto veto p)"
proof -
  let ?s = "length (pr_sets p)" and ?d = "new_set fs (transformProcessQueue opts items) auto veto"
  define q where "q = p\<lparr>pr_sets := pr_sets p @ [?d]\<rparr>"
  define q1 where "q1 = (if pr_count q = 0 then announce ''processstart'' ?s q else q)"
  have i: "pinv M (works p) p" "rest_ok p" "pr_count p = int (length (tasks (works p)))"
    using assms by (simp_all add: proc_inv_def)
  note D = pinvD [OF i(1)]
  have old: "pst q j = pst p j" if "j < ?s" for j using that by (simp add: q_def nth_append)
  have new: "pst q ?s = ?d" by (simp add: q_def)
  have w: "works q = works p" "works q1 = works p" by (simp_all add: q_def q1_def works_def)
  have r: "rest_ok q" "rest_ok q1"
  proof -
    have "s < ?s" if "pr_current p = Some (s, k, as)" for s k as
      using D(2) [of s k] that by (simp add: works_def live_task_def)
    with i(2) show "rest_ok q" by (auto simp: rest_ok_def q_def nth_append split: option.splits prod.splits)
    then show "rest_ok q1" by (rule rest_copy) (simp_all add: q1_def)
  qed
  have live: "live_task q j k" if "(j, k) \<in> set (tasks (works p))" for j k
    using D(2) [OF that] old [of j] by (simp add: live_task_def q_def)
  have alive: "live_attach q j" if "j \<in> set (attaches (works p))" for j
    using D(4) [OF that] old [of j] by (simp add: live_attach_def q_def)
  have sent: "j < length (pr_sets q) \<and> (ps_state (pst q j) = Resolved \<or> j \<in> M)" if "j \<in> set (pr_sent q)" for j
    using D(6) [of j] that old [of j] by (auto simp: q_def)
  have state: "ps_state ?d = Pending" by (simp add: new_set_def)
  have aw: "(\<exists>k. (j, k) \<in> set (tasks (works p @ vs)) \<and> k + 1 = length (ps_files (pst q j))) \<or> j \<in> set (attaches (works p @ vs))"
    if "j < ?s" "ps_state (pst q j) = Pending" for j vs
    using awaitedD [OF pinv_awaited [OF i(1)], of j] that old [of j] by auto
  have set_ok: "set_ok (tasks (works p) @ ts) j (pst q j)" if "j < ?s" for j ts
    using D(5) [OF that] old [OF that] by (auto simp: set_ok_def)
  show ?thesis
  proof (cases "ps_queue ?d = [] \<or> ps_files ?d = []")
    case True
    have "pcore M (works p @ [Attach ?s]) q"
    proof (rule pcoreI)
      show "set_ok (tasks (works p @ [Attach ?s])) j (pst q j)" if "j < length (pr_sets q)" for j
        using that set_ok [of j "[]"] True state
        by (cases "j = ?s") (auto simp: q_def set_ok_def checked_def)
      show "distinct (attaches (works p @ [Attach ?s]))"
        using D(3,4) by (force simp: live_attach_def)
      show "live_attach q j" if "j \<in> set (attaches (works p @ [Attach ?s]))" for j
        using that alive [of j] True state by (auto simp: live_attach_def q_def)
    qed (use D(1) live sent in auto)
    moreover have "awaited (works p @ [Attach ?s]) q"
      using aw [of _ "[Attach ?s]"] by (auto simp: awaited_def q_def less_Suc_eq)
    ultimately have p: "pinv M (works p @ [Attach ?s]) q" by (simp add: pinv_def)
    have "add_set fs items opts auto veto p = enqueue (Attach ?s) (if ps_queue ?d = [] then q else q1)"
      using True by (auto simp: add_set_def process_def q_def q1_def Let_def)
    moreover have "proc_inv M [] (enqueue (Attach ?s) q)"
      using p r i(3) w by (intro enqueue_inv) (simp_all add: q_def)
    moreover have "pinv M (works p @ [Attach ?s]) q1"
      by (rule pinv_copy [OF p]) (simp_all add: q1_def)
    then have "proc_inv M [] (enqueue (Attach ?s) q1)"
      using r i(3) w by (intro enqueue_inv) (simp_all add: q1_def q_def)
    ultimately show ?thesis by simp
  next
    case False
    let ?ks = "[0..<length (ps_files ?d)]"
    have "pcore M (works p @ map (Task ?s) ?ks) q"
    proof (rule pcoreI)
      have "before (j, k) (?s, k')" if "(j, k) \<in> set (tasks (works p))" for j k k'
        using D(2) [OF that] by (simp add: before_def live_task_def)
      moreover have "sorted_wrt before (map (Pair ?s) ?ks)"
        by (simp add: sorted_wrt_map before_def sorted_wrt_upt)
      ultimately show "sorted_wrt before (tasks (works p @ map (Task ?s) ?ks))"
        using D(1) by (auto simp: sorted_wrt_append)
      show "live_task q j k" if "(j, k) \<in> set (tasks (works p @ map (Task ?s) ?ks))" for j k
        using that live [of j k] False new state by (auto simp: live_task_def q_def)
      show "set_ok (tasks (works p @ map (Task ?s) ?ks)) j (pst q j)" if "j < length (pr_sets q)" for j
        using that set_ok [of j "map (Pair ?s) ?ks"] new state
        by (cases "j = ?s") (auto simp: q_def set_ok_def)
      show "live_attach q j" if "j \<in> set (attaches (works p @ map (Task ?s) ?ks))" for j
        using that alive [of j] by simp
    qed (use D(3) sent in auto)
    moreover have "awaited (works p @ map (Task ?s) ?ks) q"
    proof -
      have "length (ps_files ?d) - 1 \<in> set ?ks" using False by simp
      then have "\<exists>k. (?s, k) \<in> set (tasks (map (Task ?s) ?ks)) \<and> k + 1 = length (ps_files (pst q ?s))"
        using False new by (intro exI [of _ "length (ps_files ?d) - 1"]) auto
      then have last: "\<exists>k. (?s, k) \<in> set (tasks (works p @ map (Task ?s) ?ks)) \<and> k + 1 = length (ps_files (pst q ?s))" by auto
      show ?thesis
        unfolding awaited_def
      proof (intro allI impI)
        fix j assume "j < length (pr_sets q)" and j: "ps_state (pst q j) = Pending"
        then have "j = ?s \<or> j < ?s" by (auto simp: q_def)
        then show "(\<exists>k. (j, k) \<in> set (tasks (works p @ map (Task ?s) ?ks)) \<and> k + 1 = length (ps_files (pst q j))) \<or>
            j \<in> set (attaches (works p @ map (Task ?s) ?ks))"
          using last aw [OF _ j] by blast
      qed
    qed
    ultimately have "pinv M (works p @ map (Task ?s) ?ks) q" by (simp add: pinv_def)
    then have "pinv M (works p @ map (Task ?s) ?ks) q1"
      by (rule pinv_copy) (simp_all add: q1_def)
    then have "proc_inv M (map (Task ?s) ?ks) q1"
      using r i(3) w by (simp add: proc_inv_def) (simp add: q1_def q_def)
    then have "proc_inv M [] (fold (enqueue_file ?s) ?ks q1)" by (rule enqueue_files_inv)
    moreover have "add_set fs items opts auto veto p = fold (enqueue_file ?s) ?ks q1"
      using False by (simp add: add_set_def process_def q_def q1_def Let_def)
    ultimately show ?thesis by simp
  qed
qed

lemma abort_set_inv:
  assumes "proc_inv M [] p" and "s < length (pr_sets p)"
    and "length (pr_sets q) = length (pr_sets p)" and "\<And>i. i \<noteq> s \<Longrightarrow> pst q i = pst p i"
    and "ps_files (pst q s) = ps_files (pst p s)" and "ps_queue (pst q s) = ps_queue (pst p s)"
    and "ps_state (pst q s) = ps_state (pst p s)" and "spoiled (pst p s) \<Longrightarrow> spoiled (pst q s)"
    and "pr_current q = pr_current p" and "pr_queue q = pr_queue p" and "pr_count q = pr_count p" and "pr_sent q = pr_sent p"
  shows "proc_inv M [] q"
proof -
  have v: "ps_files (pst q i) = ps_files (pst p i)" "ps_queue (pst q i) = ps_queue (pst p i)"
    "ps_state (pst q i) = ps_state (pst p i)" "spoiled (pst p i) \<Longrightarrow> spoiled (pst q i)" for i
    using assms(4-8) by (cases "i = s"; simp)+
  have c: "checked (pst q i) = checked (pst p i)" "good (pst q i) k = good (pst p i) k" for i k
    by (simp_all add: checked_def good_def v)
  have i: "pinv M (works p) p" "rest_ok p" using assms(1) by (simp_all add: proc_inv_def)
  note D = pinvD [OF i(1)]
  have "pcore M (works p) q"
  proof (rule pcoreI)
    show "set_ok (tasks (works p)) j (pst q j)" if "j < length (pr_sets q)" for j
      using D(5) [of j] that v(4) [of j] assms(3) by (auto simp: set_ok_def c v(1,3))
    show "live_task q j k" if "(j, k) \<in> set (tasks (works p))" for j k
      using D(2) [OF that] by (simp add: live_task_def v assms(3))
    show "live_attach q j" if "j \<in> set (attaches (works p))" for j
      using D(4) [OF that] by (simp add: live_attach_def v assms(3))
    show "j < length (pr_sets q) \<and> (ps_state (pst q j) = Resolved \<or> j \<in> M)" if "j \<in> set (pr_sent q)" for j
      using D(6) [of j] that by (simp add: v assms(3,12))
  qed (rule D)+
  moreover have "awaited (works p) q"
    by (rule awaited_mono [OF pinv_awaited [OF i(1)] assms(3)]) (simp add: v)
  ultimately have "pinv M (works p) q" by (simp add: pinv_def)
  moreover have "rest_ok q"
    using i(2) by (simp add: rest_ok_def assms(9,10) c v split: option.splits prod.splits)
  moreover have "works q = works p" by (simp add: works_def assms(9,10))
  ultimately show ?thesis using assms(1,11) by (simp add: proc_inv_def)
qed

lemma submit_inv:
  assumes "proc_inv M [] p" and "s < length (pr_sets p)" and "s \<in> M"
  shows "proc_inv M [] (submit s p)"
proof -
  have "pinv M (works p) (submit s p)"
    using assms by (intro submit_pinv) (simp_all add: proc_inv_def)
  moreover have f: "pr_current (submit s p) = pr_current p" "pr_queue (submit s p) = pr_queue p"
    "pr_count (submit s p) = pr_count p" "ps_queue (pst (submit s p) i) = ps_queue (pst p i)" for i
    using assms(2) by (cases "i = s"; simp add: submit_def upd_set_def announce_def)+
  then have "rest_ok (submit s p)"
    using assms(1) by (simp add: proc_inv_def rest_ok_def checked_def split: option.splits prod.splits)
  moreover have "works (submit s p) = works p" by (simp add: works_def f)
  ultimately show ?thesis using assms(1) by (simp add: proc_inv_def f)
qed

lemma action_done_inv:
  assumes "proc_inv M [] p"
  shows "proc_inv M [] (action_done ok f p)"
proof (cases "pr_current p")
  case None
  with assms show ?thesis by (simp add: action_done_def)
next
  case (Some c)
  obtain s k as where c: "pr_current p = Some (s, k, as)" using Some by (cases c) auto
  define p1 where "p1 = (case f of Some f \<Rightarrow> upd_set s (replace_file k f) p | None \<Rightarrow> p)\<lparr>pr_current := None\<rparr>"
  have w: "works p = Task s k # pr_queue p" by (simp add: works_def c)
  have i: "pinv M (Task s k # pr_queue p) p" "rest_ok p" "pr_count p = int (length (tasks (works p)))"
    using assms by (simp_all add: proc_inv_def w)
  have live: "live_task p s k" using pinvD(2) [OF i(1)] by simp
  have t: "touches s k p p1" and cur: "pr_current p1 = None"
    using live by (auto simp: touches_def p1_def upd_set_def replace_file_def live_task_def spoiled_def split: option.split)
  have len: "s < length (pr_sets p1)" "k < length (ps_files (pst p1 s))"
    using t live by (simp_all add: touches_def live_task_def)
  have as: "checked (pst p1 s) \<Longrightarrow> as \<noteq> [] \<and> last as = last (ps_queue (pst p1 s))"
    using i(2) c touches_checked [OF t, of s] t by (simp add: rest_ok_def touches_def)
  obtain q r where q: "do_actions s k as ok p1 = (q, r)" by fastforce
  have tq: "touches s k p q" using do_actions_touches [OF len(1) q] t by (blast intro: touches_trans)
  have pq: "pinv M (Task s k # pr_queue p) q" by (rule touches_pinv [OF tq i(1)]) simp
  show ?thesis
  proof (cases r)
    case (Some b)
    have "verdict (pst q s) k b" using q Some by (intro do_actions_verdict [OF len _ as]) auto
    with pq have "pinv M (pr_queue p) (finish_file s k b q)" by (rule finish_pinv)
    moreover have "pr_current q = None" using do_actions_touches [OF len(1) q] Some cur by simp
    ultimately have "proc_inv M [] (run_queue (pr_queue p) (finish_file s k b q))"
      using i(3) tq by (intro run_queue_inv) (simp_all add: w touches_def)
    with c q Some show ?thesis by (simp add: action_done_def p1_def [symmetric])
  next
    case None
    with do_actions_rest [OF len(1) _ as] q obtain rest where
      r: "pr_current q = Some (s, k, rest)" "checked (pst q s) \<longrightarrow> rest \<noteq> [] \<and> last rest = last (ps_queue (pst q s))" by blast
    have "pr_queue q = pr_queue p" using tq by (simp add: touches_def)
    with r pq i(3) tq have "proc_inv M [] q"
      by (simp add: proc_inv_def rest_ok_def works_def touches_def c)
    with c q None show ?thesis by (simp add: action_done_def p1_def [symmetric])
  qed
qed

lemma pstep_inv:
  assumes "proc_inv M [] p" and "\<And>s. e = Submitted s \<Longrightarrow> s \<in> M"
  shows "proc_inv M [] (pstep e p)"
proof (cases e)
  case (Aborted s)
  have "proc_inv M [] (abort_set s p)" if "s < length (pr_sets p)"
    by (rule abort_set_inv [OF assms(1) that])
      (use that in \<open>auto simp: abort_set_def reply_set_def upd_set_def announce_def spoiled_def\<close>)
  with Aborted assms(1) show ?thesis by simp
next
  case (Replied s ok)
  have "proc_inv M [] (reply_set s ok p)" if "s < length (pr_sets p)"
    by (rule abort_set_inv [OF assms(1) that])
      (use that in \<open>auto simp: reply_set_def upd_set_def spoiled_def\<close>)
  with Replied assms(1) show ?thesis by simp
next
  case (Counted n)
  have "pinv M (works p) (p\<lparr>pr_number := n\<rparr>)" and "rest_ok (p\<lparr>pr_number := n\<rparr>)"
    using assms(1) by (auto simp: proc_inv_def intro: pinv_copy rest_copy)
  with Counted assms(1) show ?thesis by (simp add: proc_inv_def works_def)
qed (use assms in \<open>simp_all add: add_set_inv action_done_inv submit_inv\<close>)

lemma psteps_inv:
  "proc_inv M [] p \<Longrightarrow> \<forall>s. Submitted s \<in> set es \<longrightarrow> s \<in> M \<Longrightarrow> proc_inv M [] (psteps es p)"
  by (induction es arbitrary: p) (auto simp: psteps_def pstep_inv)

lemma created_inv: "proc_inv M [] (proc_created ms)"
  by (simp add: proc_inv_def pinv_def pcore_def awaited_def rest_ok_def works_def proc_created_def)

section \<open>Properties\<close>

text \<open>
  The options of the widget become the settings of the validation.
\<close>

lemma default_settings:
  "key \<in> {''acceptFileTypes'', ''maxFileSize'', ''minFileSize'', ''maxNumberOfFiles''} \<Longrightarrow>
   item_get (last (transformProcessQueue opts (items @ [validate_item]))) key = opts key"
  by (auto simp: transformProcessQueue_def validate_item_def item_get_def transform_value_def item_prefix_def action_is_def)

lemma default_checked:
  "checked (new_set fs (transformProcessQueue opts (items @ [validate_item])) auto veto) \<longleftrightarrow> \<not> truthy (opts ''disableValidation'')"
  by (simp add: checked_def new_set_def transformProcessQueue_def validate_item_def item_get_def transform_value_def item_prefix_def action_is_def)

text \<open>
  C17: whatever is added, processed, aborted or counted in any order, a set that
  the widget submits by itself (nobody called its submit method) and whose queue ends with the
  validation has only files that the validation accepts: no error, an accepted type, a size within the
  limits. With the queue of the validation plug-in the limits are the options of the widget
  (\<open>default_settings\<close>, \<open>default_checked\<close>).
\<close>

theorem only_valid_submitted:
  assumes "s \<in> set (pr_sent (psteps es (proc_created ms)))" and "Submitted s \<notin> set es"
    and "checked (pst (psteps es (proc_created ms)) s)"
  shows "\<forall>f\<in>set (ps_files (pst (psteps es (proc_created ms)) s)). valid_file (last (ps_queue (pst (psteps es (proc_created ms)) s))) f"
proof -
  let ?p = "psteps es (proc_created ms)"
  have "proc_inv {s. Submitted s \<in> set es} [] ?p"
    by (rule psteps_inv [OF created_inv]) simp
  then have i: "pinv {s. Submitted s \<in> set es} (works ?p) ?p" by (simp add: proc_inv_def)
  have "s < length (pr_sets ?p)" and "ps_state (pst ?p s) = Resolved"
    using pinvD(6) [OF i assms(1)] assms(2) by auto
  with pinvD(5) [OF i, of s] assms(3) show ?thesis
    by (auto simp: set_ok_def good_def in_set_conv_nth)
qed

definition sample_file :: "string \<Rightarrow> nat \<Rightarrow> upload_file" where
  "sample_file name n = \<lparr>f_name = name, f_size = Some n, f_type = ''image/png'', f_class = ''File'', f_uploadName = [], f_relativePath = []\<rparr>"

definition sample_options :: "string \<Rightarrow> setting" where
  "sample_options key = (if key = ''maxFileSize'' then NumS 100 else Undefined)"

definition load_item :: queue_item where
  "load_item = [(''action'', StrS ''loadImage'')]"

text \<open>Three sets: one that is valid after two awaited actions, one with a file too large, one without a queue.\<close>

definition sample_run :: "pevent list" where
  "sample_run =
     [Added [sample_file ''a'' 10, sample_file ''b'' 20] [load_item, validate_item] sample_options True False,
      Added [sample_file ''c'' 30, sample_file ''d'' 200, sample_file ''e'' 5] [validate_item] sample_options True False,
      ActionDone True None, ActionDone False None]"

lemma sample_sent: "pr_sent (psteps sample_run (proc_created validate_messages)) = [0]"
  by code_simp

lemma only_valid_submitted_witness:
  "list_all (valid_file (last (ps_queue (pst (psteps sample_run (proc_created validate_messages)) 0))))
     (ps_files (pst (psteps sample_run (proc_created validate_messages)) 0))"
  unfolding list_all_iff
proof (rule only_valid_submitted)
  show "0 \<in> set (pr_sent (psteps sample_run (proc_created validate_messages)))" by (simp add: sample_sent)
  show "Submitted 0 \<notin> set sample_run" by (simp add: sample_run_def)
  show "checked (pst (psteps sample_run (proc_created validate_messages)) 0)" by code_simp
qed

text \<open>
  C18: in every run the widget's \<open>processing\<close> is the number of files that are
  processed or wait, and no set is forgotten: while the promise of a set is pending an action of some
  plug-in is awaited, so with the last answer every promise has been settled.
\<close>

theorem processing_settles:
  assumes "p = psteps es (proc_created ms)" and "s < length (pr_sets p)"
  shows "pr_count p = (case pr_current p of None \<Rightarrow> 0 | Some task \<Rightarrow> 1 + int (length (tasks (pr_queue p)))) \<and>
    (ps_state (pst p s) = Pending \<longrightarrow> pr_current p \<noteq> None)"
proof -
  have i: "proc_inv UNIV [] p"
    unfolding assms(1) by (rule psteps_inv [OF created_inv]) simp
  then have "pr_count p = (case pr_current p of None \<Rightarrow> 0 | Some task \<Rightarrow> 1 + int (length (tasks (pr_queue p))))"
    by (simp add: proc_inv_def rest_ok_def works_def split: option.splits prod.splits)
  moreover have "ps_state (pst p s) \<noteq> Pending" if "pr_current p = None"
  proof -
    have "works p = []" using i that by (simp add: works_def proc_inv_def rest_ok_def)
    moreover have "pinv UNIV (works p) p" using i by (simp add: proc_inv_def)
    ultimately have "awaited [] p" by (simp add: pinv_def)
    with assms(2) show ?thesis by (auto simp: awaited_def)
  qed
  ultimately show ?thesis by blast
qed

lemma processing_settles_witness: "ps_state (pst (psteps sample_run (proc_created validate_messages)) 1) \<noteq> Pending"
proof -
  have "1 < length (pr_sets (psteps sample_run (proc_created validate_messages)))"
    and "pr_current (psteps sample_run (proc_created validate_messages)) = None" by code_simp+
  with processing_settles [OF refl, of 1 sample_run validate_messages] show ?thesis by blast
qed

text \<open>
  The method \<open>process\<close> returns the queue of the widget. A set without actions gets the outcome of the
  file before it: after a rejected file it is rejected too and is not uploaded.
\<close>

lemma inherited_rejection:
  "pr_current p = None \<Longrightarrow> \<not> pr_last p \<Longrightarrow>
   ps_state (pst (add_set fs [] opts True False p) (length (pr_sets p))) = Rejected \<and>
   pr_sent (add_set fs [] opts True False p) = pr_sent p"
  by (simp add: add_set_def process_def enqueue_def settle_set_def upd_set_def new_set_def transformProcessQueue_def Let_def nth_append)

text \<open>
  When no action is awaited the queue runs while it is being filled: a set of two files gives one start
  event and two stop events.
\<close>

lemma doubled_stop:
  "map fst (pr_log (psteps [Added [sample_file ''a'' 1, sample_file ''b'' 2] [validate_item] sample_options False False] (proc_created validate_messages))) =
   [''processstart'', ''process'', ''processdone'', ''processalways'', ''processstop'', ''process'', ''processdone'', ''processalways'', ''processstop'']"
  by code_simp

end
