(* ===== verification/Double.thy ===== *)
theory Double
  imports Complex_Main "HOL-Library.Log_Nat" JsString
begin

text \<open>
  The numbers of JavaScript where fractions matter: an operation gives the nearest double, on ties the one
  with the even mantissa of 53 bits. Exponents are unbounded: overflow to infinity and numbers below
  the normal range do not occur in the code that uses this theory. \<open>toFixed\<close> rounds the exact value of
  the double.
\<close>

definition round_even :: "rat \<Rightarrow> int" where
  "round_even x = (let n = \<lfloor>x\<rfloor>; r = x - of_int n in if r < 1 / 2 \<or> r = 1 / 2 \<and> even n then n else n + 1)"

text \<open>The exponent of a positive number.\<close>

definition exponent :: "rat \<Rightarrow> int" where
  "exponent x =
     (let (p, q) = quotient_of x; e = int (floorlog 2 (nat p)) - int (floorlog 2 (nat q))
      in if 2 powi e \<le> x then e else e - 1)"

definition to_double :: "rat \<Rightarrow> rat" where
  "to_double x =
     (if x = 0 then 0
      else let k = exponent \<bar>x\<bar> - 52 in sgn x * of_int (round_even (\<bar>x\<bar> / 2 powi k)) * 2 powi k)"

definition double_div :: "rat \<Rightarrow> rat \<Rightarrow> rat" where
  "double_div x y = to_double (x / y)"

definition double_mult :: "rat \<Rightarrow> rat \<Rightarrow> rat" where
  "double_mult x y = to_double (x * y)"

text \<open>
  With infinities and what a division by zero gives. Zero has no sign here: the quotient by a negative zero
  is that by zero.
\<close>

datatype double = Fin rat | Infinity bool | NotANumber

fun add_double :: "double \<Rightarrow> double \<Rightarrow> double" where
  "add_double (Fin a) (Fin b) = Fin (to_double (a + b))"
| "add_double (Fin a) (Infinity q) = Infinity q"
| "add_double (Infinity p) (Fin b) = Infinity p"
| "add_double (Infinity p) (Infinity q) = (if p = q then Infinity p else NotANumber)"
| "add_double x y = NotANumber"

fun minus_double :: "double \<Rightarrow> double" where
  "minus_double (Fin a) = Fin (- a)"
| "minus_double (Infinity p) = Infinity (\<not> p)"
| "minus_double NotANumber = NotANumber"

fun mult_double :: "double \<Rightarrow> double \<Rightarrow> double" where
  "mult_double (Fin a) (Fin b) = Fin (to_double (a * b))"
| "mult_double (Fin a) (Infinity q) = (if a = 0 then NotANumber else Infinity (q = (0 < a)))"
| "mult_double (Infinity p) (Fin b) = (if b = 0 then NotANumber else Infinity (p = (0 < b)))"
| "mult_double (Infinity p) (Infinity q) = Infinity (p = q)"
| "mult_double x y = NotANumber"

fun div_double :: "double \<Rightarrow> double \<Rightarrow> double" where
  "div_double (Fin a) (Fin b) = (if b \<noteq> 0 then Fin (to_double (a / b)) else if a = 0 then NotANumber else Infinity (0 < a))"
| "div_double (Fin a) (Infinity q) = Fin 0"
| "div_double (Infinity p) (Fin b) = Infinity (p = (0 \<le> b))"
| "div_double x y = NotANumber"

definition trunc_rat :: "rat \<Rightarrow> int" where
  "trunc_rat x = (if 0 \<le> x then \<lfloor>x\<rfloor> else \<lceil>x\<rceil>)"

text \<open>The remainder has the sign of the dividend and is exact.\<close>

fun mod_double :: "double \<Rightarrow> double \<Rightarrow> double" where
  "mod_double (Fin a) (Fin b) = (if b = 0 then NotANumber else Fin (a - b * of_int (trunc_rat (a / b))))"
| "mod_double (Fin a) (Infinity q) = Fin a"
| "mod_double x y = NotANumber"

fun less_double :: "double \<Rightarrow> double \<Rightarrow> bool" where
  "less_double (Fin a) (Fin b) = (a < b)"
| "less_double (Fin a) (Infinity q) = q"
| "less_double (Infinity p) (Fin b) = (\<not> p)"
| "less_double (Infinity p) (Infinity q) = (\<not> p \<and> q)"
| "less_double x y = False"

definition eq_double :: "double \<Rightarrow> double \<Rightarrow> bool" where
  "eq_double x y \<longleftrightarrow> x = y \<and> x \<noteq> NotANumber"

definition divide_double :: "double \<Rightarrow> rat \<Rightarrow> double" where
  "divide_double x b = div_double x (Fin b)"

definition times_double :: "double \<Rightarrow> rat \<Rightarrow> double" where
  "times_double x b = mult_double x (Fin b)"

fun floor_double :: "double \<Rightarrow> double" where
  "floor_double (Fin a) = Fin (of_int \<lfloor>a\<rfloor>)"
| "floor_double x = x"

text \<open>\<open>x.toFixed(2)\<close> for \<open>x\<close> below \<open>10 ^ 21\<close>.\<close>

definition hundredths :: "rat \<Rightarrow> nat" where
  "hundredths x = nat \<lfloor>\<bar>x\<bar> * 100 + 1 / 2\<rfloor>"

definition to_fixed2 :: "rat \<Rightarrow> string" where
  "to_fixed2 x =
     (let n = hundredths x
      in (if x < 0 then ''-'' else []) @ dec (n div 100) @ ''.'' @ dec (n mod 100 div 10) @ dec (n mod 10))"

fun fixed_text :: "double \<Rightarrow> string" where
  "fixed_text (Fin a) = to_fixed2 a"
| "fixed_text (Infinity p) = (if p then ''Infinity'' else ''-Infinity'')"
| "fixed_text NotANumber = ''NaN''"

text \<open>
  The text of a number: the shortest digits that identify the double, where the point stands near them, and
  otherwise with an exponent. \<open>decimal_point x\<close> is the \<open>e\<close> with \<open>10 ^ (e - 1) \<le> x < 10 ^ e\<close>.
\<close>

definition decimal_point :: "rat \<Rightarrow> int" where
  "decimal_point x =
     (let (p, q) = quotient_of x; e = int (length (dec (nat p))) - int (length (dec (nat q)))
      in if 10 powi e \<le> x then e + 1 else e)"

fun shortest_digits :: "nat \<Rightarrow> nat \<Rightarrow> rat \<Rightarrow> int \<Rightarrow> nat \<times> nat" where
  "shortest_digits 0 k x e = (nat \<lfloor>x * 10 powi (int k - e) + 1 / 2\<rfloor>, k)"
| "shortest_digits (Suc m) k x e =
     (let n = nat \<lfloor>x * 10 powi (int k - e) + 1 / 2\<rfloor>
      in if to_double (of_nat n * 10 powi (e - int k)) = x then (n, k) else shortest_digits m (k + 1) x e)"

definition positive_text :: "rat \<Rightarrow> string" where
  "positive_text x =
     (let e = decimal_point x; (n, k) = shortest_digits 16 1 x e; ds = dec n
      in if int k \<le> e \<and> e \<le> 21 then ds @ replicate (nat e - k) CHR ''0''
         else if 0 < e \<and> e \<le> 21 then take (nat e) ds @ ''.'' @ drop (nat e) ds
         else if - 6 < e \<and> e \<le> 0 then ''0.'' @ replicate (nat (- e)) CHR ''0'' @ ds
         else take 1 ds @ (if k = 1 then [] else ''.'' @ drop 1 ds) @ ''e'' @
              (if 0 \<le> e - 1 then ''+'' else []) @ int_str (e - 1))"

fun number_text :: "double \<Rightarrow> string" where
  "number_text (Fin x) = (if x = 0 then ''0'' else if x < 0 then CHR ''-'' # positive_text (- x) else positive_text x)"
| "number_text (Infinity p) = (if p then ''Infinity'' else ''-Infinity'')"
| "number_text NotANumber = ''NaN''"

text \<open>Numbers of texts; a text with more digits than a double holds is rounded once.\<close>

fun double_of_number :: "number \<Rightarrow> double" where
  "double_of_number NaN = NotANumber"
| "double_of_number (Infinite p) = Infinity p"
| "double_of_number (Dec m e) = Fin (to_double (of_int m * 10 powi e))"

section \<open>Rounding\<close>

lemma round_even_near: "\<bar>of_int (round_even x) - x\<bar> \<le> 1 / 2"
proof -
  have "of_int \<lfloor>x\<rfloor> \<le> x" "x < of_int \<lfloor>x\<rfloor> + 1" by linarith+
  then show ?thesis unfolding round_even_def Let_def abs_le_iff by (auto simp del: of_int_floor_le)
qed

lemma round_even_of_int [simp]: "round_even (of_int n) = n"
  by (simp add: round_even_def)

lemma round_even_le: "x \<le> of_int n \<Longrightarrow> round_even x \<le> n"
proof -
  assume x: "x \<le> of_int n"
  show ?thesis
  proof (cases "x = of_int n")
    case False
    with x have "\<lfloor>x\<rfloor> < n" by (simp add: floor_less_iff)
    then show ?thesis by (simp add: round_even_def Let_def)
  qed simp
qed

lemma round_even_ge: "of_int n \<le> x \<Longrightarrow> n \<le> round_even x"
  unfolding le_floor_iff [symmetric] by (auto simp: round_even_def Let_def)

lemma powi_double: "(2 :: rat) powi (e + 1) = 2 * 2 powi e" "(2 :: rat) powi (e - 1) = 2 powi e / 2"
  by (simp_all add: power_int_add power_int_diff)

lemma floorlog_powi:
  assumes "0 < p"
  shows "2 powi (int (floorlog 2 (nat p)) - 1) \<le> (of_int p :: rat) \<and> of_int p < (2 :: rat) powi int (floorlog 2 (nat p))"
proof -
  let ?b = "floorlog 2 (nat p)"
  have b: "0 < ?b" "2 ^ (?b - 1) \<le> nat p" "nat p < 2 ^ ?b"
    using assms floorlog_bounds [of "nat p" 2] by (auto simp: floorlog_def)
  have "(2 :: int) ^ (?b - 1) \<le> p" "p < 2 ^ ?b"
    using b(2,3) assms by (simp_all add: le_nat_iff nat_less_iff)
  then have "(2 :: rat) ^ (?b - 1) \<le> of_int p" "of_int p < (2 :: rat) ^ ?b"
    by (metis of_int_le_iff of_int_numeral of_int_power, metis of_int_less_iff of_int_numeral of_int_power)
  moreover have "(2 :: rat) powi (int ?b - 1) = 2 ^ (?b - 1)"
    using b(1) by (metis Suc_pred' diff_Suc_1 int_ops(2) of_nat_diff One_nat_def Suc_leI power_int_of_nat)
  ultimately show ?thesis by simp
qed

lemma exponent_bounds:
  assumes "0 < x"
  shows "2 powi exponent x \<le> x \<and> x < 2 powi (exponent x + 1)"
proof -
  obtain p q where pq: "quotient_of x = (p, q)" by fastforce
  have x: "x = of_int p / of_int q" and q: "0 < q" by (simp_all add: quotient_of_div [OF pq] quotient_of_denom_pos [OF pq])
  then have p: "0 < p" using assms by (simp add: zero_less_divide_iff)
  let ?a = "int (floorlog 2 (nat p))" and ?b = "int (floorlog 2 (nat q))"
  have fp: "2 powi (?a - 1) \<le> (of_int p :: rat)" "of_int p < (2 :: rat) powi ?a" using floorlog_powi [OF p] by auto
  have fq: "2 powi (?b - 1) \<le> (of_int q :: rat)" "of_int q < (2 :: rat) powi ?b" using floorlog_powi [OF q] by auto
  have pos: "(0 :: rat) < 2 powi ?b" "(0 :: rat) < 2 powi ?a" by simp_all
  have "x < 2 powi ?a / (2 powi ?b / 2)"
    unfolding x using fp(2) fq(1) q p pos by (intro frac_less) (simp_all add: powi_double)
  then have upper: "x < 2 * 2 powi (?a - ?b)" by (simp add: power_int_diff mult.commute)
  have "2 powi ?a / 2 / 2 powi ?b < x"
    unfolding x using fp(1) fq(2) q p pos by (intro frac_less2) (simp_all add: powi_double)
  then have lower: "2 powi (?a - ?b) / 2 < x" by (simp add: power_int_diff)
  show ?thesis
    using upper lower by (auto simp: exponent_def pq Let_def powi_double)
qed

lemma to_double_pos:
  assumes "0 < x"
  defines "k \<equiv> exponent x - 52"
  shows "to_double x = of_int (round_even (x / 2 powi k)) * 2 powi k" and "2 ^ 52 \<le> x / 2 powi k" and "x / 2 powi k < 2 ^ 53"
proof -
  show "to_double x = of_int (round_even (x / 2 powi k)) * 2 powi k"
    using assms by (simp add: to_double_def Let_def)
  have "(2 :: rat) powi exponent x = 2 powi k * 2 ^ 52" by (simp add: k_def power_int_diff)
  then show "2 ^ 52 \<le> x / 2 powi k" "x / 2 powi k < 2 ^ 53"
    using exponent_bounds [OF assms(1)] powi_double(1) [of "exponent x"] by (simp_all add: field_simps)
qed

lemma to_double_minus: "to_double (- x) = - to_double x"
  by (simp add: to_double_def Let_def)

lemma to_double_zero [simp]: "to_double 0 = 0"
  by (simp add: to_double_def)

text \<open>The relative error of an operation.\<close>

lemma to_double_error: "\<bar>to_double x - x\<bar> \<le> \<bar>x\<bar> / 2 ^ 53"
proof -
  have pos: "\<bar>to_double x - x\<bar> \<le> x / 2 ^ 53" if "0 < x" for x
  proof -
    define k where "k = exponent x - 52"
    let ?y = "x / 2 powi k"
    have y: "to_double x = of_int (round_even ?y) * 2 powi k" "2 ^ 52 \<le> ?y"
      using to_double_pos [OF that] by (simp_all add: k_def)
    have "to_double x - x = (of_int (round_even ?y) - ?y) * 2 powi k" by (simp add: y(1) left_diff_distrib)
    then have "\<bar>to_double x - x\<bar> = \<bar>of_int (round_even ?y) - ?y\<bar> * 2 powi k" by (simp add: abs_mult)
    also have "\<dots> \<le> 1 / 2 * 2 powi k" by (intro mult_right_mono round_even_near) simp
    also have "\<dots> \<le> x / 2 ^ 53" using y(2) by (simp add: field_simps)
    finally show ?thesis .
  qed
  consider "x = 0" | "0 < x" | "0 < - x" by linarith
  then show ?thesis
  proof cases
    case 3
    with pos [of "- x"] show ?thesis by (simp add: to_double_minus abs_minus_commute)
  qed (use pos in auto)
qed

lemma powi_int: "k \<le> 0 \<Longrightarrow> (of_int n :: rat) / 2 powi k = of_int (n * 2 ^ nat (- k))"
  by (simp add: power_int_def field_simps)

lemma exponent_le_52: "0 < x \<Longrightarrow> x < 2 ^ 53 \<Longrightarrow> exponent x - 52 \<le> 0"
proof (rule ccontr)
  assume x: "0 < x" "x < 2 ^ 53" and "\<not> exponent x - 52 \<le> 0"
  then have "(2 :: rat) powi 53 \<le> 2 powi exponent x" by (intro power_int_increasing) simp_all
  with exponent_bounds [OF x(1)] x(2) show False by simp
qed

text \<open>An integer bound up to \<open>2 ^ 53\<close> is kept, and such integers are exact.\<close>

lemma to_double_le:
  assumes "0 \<le> x" and "x \<le> of_int n" and "x < 2 ^ 53"
  shows "to_double x \<le> of_int n"
proof (cases "x = 0")
  case False
  define k where "k = exponent x - 52"
  have x: "0 < x" and k: "k \<le> 0" using assms False exponent_le_52 by (simp_all add: k_def)
  have "x / 2 powi k \<le> of_int (n * 2 ^ nat (- k))"
    unfolding powi_int [OF k, symmetric] using assms(2) by (intro divide_right_mono) simp_all
  then have "round_even (x / 2 powi k) \<le> n * 2 ^ nat (- k)" by (rule round_even_le)
  then have "of_int (round_even (x / 2 powi k)) * 2 powi k \<le> (of_int (n * 2 ^ nat (- k)) :: rat) * 2 powi k"
    by (intro mult_right_mono) (simp_all only: of_int_le_iff, simp)
  also have "\<dots> = of_int n / 2 powi k * 2 powi k" by (simp only: powi_int [OF k])
  also have "\<dots> = of_int n" by simp
  finally show ?thesis using to_double_pos(1) [OF x] by (simp add: k_def)
qed (use assms in simp)

lemma to_double_ge:
  assumes "0 \<le> n" and "of_int n \<le> x" and "x < 2 ^ 53"
  shows "of_int n \<le> to_double x"
proof (cases "x = 0")
  case False
  define k where "k = exponent x - 52"
  have "(0 :: rat) \<le> of_int n" using assms(1) by simp
  with assms False have x: "0 < x" by linarith
  then have k: "k \<le> 0" using assms exponent_le_52 by (simp add: k_def)
  have "of_int (n * 2 ^ nat (- k)) \<le> x / 2 powi k"
    unfolding powi_int [OF k, symmetric] using assms(2) by (intro divide_right_mono) simp_all
  then have "n * 2 ^ nat (- k) \<le> round_even (x / 2 powi k)" by (rule round_even_ge)
  then have "(of_int (n * 2 ^ nat (- k)) :: rat) * 2 powi k \<le> of_int (round_even (x / 2 powi k)) * 2 powi k"
    by (intro mult_right_mono) (simp_all only: of_int_le_iff, simp)
  moreover have "(of_int (n * 2 ^ nat (- k)) :: rat) * 2 powi k = of_int n / 2 powi k * 2 powi k" by (simp only: powi_int [OF k])
  moreover have "of_int n / 2 powi k * 2 powi k = (of_int n :: rat)" by simp
  ultimately have "of_int n \<le> of_int (round_even (x / 2 powi k)) * (2 powi k :: rat)" by (simp only:)
  then show ?thesis using to_double_pos(1) [OF x] by (simp add: k_def)
qed (use assms in simp)

text \<open>The integer part of a quotient of integers.\<close>

lemma floor_double_div:
  assumes "0 \<le> a" and "a < 2 ^ 33" and "0 < b" and "b \<le> 2 ^ 17"
  shows "\<lfloor>double_div (of_int a) (of_int b)\<rfloor> = a div b"
proof -
  let ?x = "of_int a / of_int b :: rat"
  define q where "q = a div b"
  have a: "a = b * q + a mod b" by (simp add: q_def)
  have q: "0 \<le> q" using assms by (simp add: q_def pos_imp_zdiv_nonneg_iff)
  have m: "0 \<le> a mod b" "a mod b \<le> b - 1" using assms(3) pos_mod_bound [of b a] by simp_all
  have "(of_int a :: rat) < of_int (2 ^ 33)" using assms(2) by (simp only: of_int_less_iff)
  then have ra: "(of_int a :: rat) < 2 ^ 33" by simp
  have rb: "1 \<le> (of_int b :: rat)" "(of_int b :: rat) \<le> 2 ^ 17" using assms(3,4) by (simp, metis of_int_le_iff of_int_numeral of_int_power)
  have ra0: "0 \<le> (of_int a :: rat)" using assms(1) by simp
  have "?x \<le> of_int a" using rb(1) ra0 by (simp add: divide_le_eq mult_left_mono [of 1 _ "of_int a", simplified])
  then have small: "?x < 2 ^ 33" "0 \<le> ?x" using ra ra0 rb(1) by (linarith, simp)
  have "b * q \<le> a" using a m(1) by linarith
  then have "of_int q \<le> ?x" using assms(3) by (simp add: le_divide_eq mult.commute of_int_mult [symmetric] del: of_int_mult)
  then have "of_int q \<le> to_double ?x" using q small by (intro to_double_ge) simp_all
  moreover have "to_double ?x < of_int (q + 1)"
  proof -
    have "(of_int a :: rat) \<le> of_int (b * (q + 1) - 1)" using a m(2) by (simp only: of_int_le_iff) (simp add: algebra_simps)
    then have "?x \<le> of_int (q + 1) - 1 / of_int b" using rb(1) by (simp add: field_simps)
    moreover have "1 / 2 ^ 17 \<le> 1 / (of_int b :: rat)" using rb by (intro divide_left_mono) simp_all
    moreover have "\<bar>to_double ?x - ?x\<bar> \<le> ?x / 2 ^ 53" using to_double_error [of ?x] small(2) by simp
    ultimately show ?thesis using small(1) by (simp add: abs_le_iff)
  qed
  ultimately show ?thesis unfolding double_div_def q_def [symmetric] by (intro floor_unique) simp_all
qed

lemma to_double_nonneg: "0 \<le> x \<Longrightarrow> 0 \<le> to_double x"
proof -
  assume "0 \<le> x"
  moreover have "x / 2 ^ 53 \<le> x" if "0 \<le> x" using that by (simp add: field_simps)
  ultimately show ?thesis using to_double_error [of x] by (simp add: abs_if split: if_splits)
qed

lemma to_double_int:
  assumes "\<bar>n\<bar> < 2 ^ 53"
  shows "to_double (of_int n) = of_int n"
proof -
  have pos: "to_double (of_int n) = of_int n" if n: "0 < n" "n < 2 ^ 53" for n
  proof -
    have "(of_int n :: rat) < of_int (2 ^ 53)" using n(2) by (simp only: of_int_less_iff)
    then have k: "exponent (of_int n) - 52 \<le> 0" using n(1) exponent_le_52 by simp
    define j where "j = exponent (of_int n) - 52"
    have j: "(of_int n :: rat) / 2 powi j = of_int (n * 2 ^ nat (- j))" unfolding j_def by (rule powi_int [OF k])
    have "to_double (of_int n) = of_int (round_even (of_int n / 2 powi j)) * 2 powi j"
      using to_double_pos(1) [of "of_int n"] n(1) by (simp add: j_def)
    also have "\<dots> = of_int n / 2 powi j * 2 powi j" by (simp only: j round_even_of_int)
    finally show ?thesis by simp
  qed
  consider "n = 0" | "0 < n" | "0 < - n" by linarith
  then show ?thesis
  proof cases
    case 3
    then show ?thesis using pos [of "- n"] assms to_double_minus [of "of_int n"] by simp
  qed (use pos assms in auto)
qed

lemma exponent_unique:
  assumes "2 powi e \<le> x" and "x < 2 powi (e + 1)"
  shows "exponent x = e"
proof -
  have "0 < (2 :: rat) powi e" by simp
  with assms have x: "0 < x" by linarith
  have "(2 :: rat) powi exponent x < 2 powi (e + 1)" "(2 :: rat) powi e < 2 powi (exponent x + 1)"
    using exponent_bounds [OF x] assms by linarith+
  then show ?thesis
    by (smt (verit) power_int_increasing one_le_numeral not_le)
qed

text \<open>The quotient 1005 / 1000 lies below the tie, so that the text is 1.00.\<close>

lemma tie_below: "to_fixed2 (double_div 1005 1000) = ''1.00''"
proof -
  have "exponent (201 / 200) = 0" by (rule exponent_unique) simp_all
  moreover have "\<lfloor>113152940637683712 / 25 :: rat\<rfloor> = 4526117625507348" by (simp add: floor_eq_iff)
  ultimately have "to_double (201 / 200) = 4526117625507348 / 4503599627370496"
    by (simp add: to_double_def round_even_def Let_def power_int_def power_divide)
  then have "hundredths (double_div 1005 1000) = 100"
    by (simp add: double_div_def hundredths_def floor_eq_iff nat_eq_iff)
  moreover have "dec (Suc 0) = ''1''" "dec 0 = ''0''" by code_simp+
  ultimately show ?thesis using to_double_nonneg [of "201 / 200"] by (simp add: to_fixed2_def double_div_def)
qed

section \<open>Fixed notation\<close>

text \<open>The number a text of \<open>toFixed(2)\<close> stands for is within half a unit of the last place.\<close>

lemma hundredths_near:
  assumes "0 \<le> x"
  shows "\<bar>of_nat (hundredths x) / 100 - x\<bar> \<le> 1 / 200"
proof -
  have "0 \<le> \<lfloor>\<bar>x\<bar> * 100 + 1 / 2\<rfloor>" using assms by simp
  then have "(of_nat (hundredths x) :: rat) = of_int \<lfloor>\<bar>x\<bar> * 100 + 1 / 2\<rfloor>" by (simp add: hundredths_def)
  then show ?thesis using assms of_int_floor_le [of "\<bar>x\<bar> * 100 + 1 / 2"] floor_correct [of "\<bar>x\<bar> * 100 + 1 / 2"]
    by (simp add: abs_if field_simps)
qed

end
