(* ===== verification/UploadUi.thy ===== *)
theory UploadUi
  imports UploadData Double
begin

text \<open>
  The user interface plug-in of the upload widget (\<open>jquery.fileupload-ui.js\<close>): rows of the list of files,
  what the callbacks of the widget do to them, the transitions of rows, the deferred objects of finished
  uploads, and the texts of sizes and progress.

  Rows have identities. The page's templates decide on the look of a row, of which the model keeps the
  file it was rendered from and what the plug-in sets later. A row's transition takes time when
  \<open>ui_fade\<close> (transitions are supported, the row has the class \<open>fade\<close> and is visible); then it ends by an event.
  The variables that the closures of one call share are cells of a store.
\<close>

section \<open>Texts\<close>

definition formatFileSize :: "rat option \<Rightarrow> string" where
  "formatFileSize bytes =
     (case bytes of
        None \<Rightarrow> []
      | Some n \<Rightarrow>
          if 1000000000 \<le> n then to_fixed2 (double_div n 1000000000) @ '' GB''
          else if 1000000 \<le> n then to_fixed2 (double_div n 1000000) @ '' MB''
          else to_fixed2 (double_div n 1000) @ '' KB'')"

definition formatBitrate :: "double option \<Rightarrow> string" where
  "formatBitrate bits =
     (case bits of
        None \<Rightarrow> []
      | Some (Infinity True) \<Rightarrow> ''Infinity Gbit/s''
      | Some (Fin n) \<Rightarrow>
          if 1000000000 \<le> n then to_fixed2 (double_div n 1000000000) @ '' Gbit/s''
          else if 1000000 \<le> n then to_fixed2 (double_div n 1000000) @ '' Mbit/s''
          else if 1000 \<le> n then to_fixed2 (double_div n 1000) @ '' kbit/s''
          else to_fixed2 n @ '' bit/s''
      | Some x \<Rightarrow> fixed_text x @ '' bit/s'')"

text \<open>
  A date is its time in whole milliseconds, cut towards zero; dates outside of a range of 100,000,000
  days have no fields. \<open>two_digits\<close> is \<open>('0' + x).slice(-2)\<close>.
\<close>

definition date_time :: "double \<Rightarrow> int option" where
  "date_time t =
     (case t of
        Fin x \<Rightarrow> if \<bar>x\<bar> \<le> 8640000000000000 then Some (trunc_rat x) else None
      | _ \<Rightarrow> None)"

definition two_digits :: "int option \<Rightarrow> string" where
  "two_digits x =
     (let s = CHR ''0'' # (case x of Some n \<Rightarrow> int_str n | None \<Rightarrow> ''NaN'') in drop (length s - 2) s)"

definition formatTime :: "double \<Rightarrow> string" where
  "formatTime seconds =
     (let date = date_time (times_double seconds 1000);
          days = (case floor_double (divide_double seconds 86400) of
                    Fin d \<Rightarrow> if d = 0 then [] else int_str \<lfloor>d\<rfloor> @ ''d ''
                  | Infinity p \<Rightarrow> (if p then ''Infinity'' else ''-Infinity'') @ ''d ''
                  | NotANumber \<Rightarrow> [])
      in days @
         two_digits (map_option (\<lambda>t. t div 3600000 mod 24) date) @ '':'' @
         two_digits (map_option (\<lambda>t. t div 60000 mod 60) date) @ '':'' @
         two_digits (map_option (\<lambda>t. t div 1000 mod 60) date))"

definition formatPercentage :: "double \<Rightarrow> string" where
  "formatPercentage x = fixed_text (times_double x 100) @ '' %''"

definition renderExtendedProgress :: "rat \<Rightarrow> rat \<Rightarrow> rat \<Rightarrow> string" where
  "renderExtendedProgress bits loaded whole =
     formatBitrate (Some (Fin bits)) @ '' | '' @
     formatTime (divide_double (Fin (double_mult (whole - loaded) 8)) bits) @ '' | '' @
     formatPercentage (divide_double (Fin loaded) whole) @ '' | '' @
     formatFileSize (Some loaded) @ '' / '' @ formatFileSize (Some whole)"

definition progress_of :: "rat \<Rightarrow> rat \<Rightarrow> double" where
  "progress_of loaded whole = floor_double (times_double (divide_double (Fin loaded) whole) 100)"

section \<open>The state\<close>

text \<open>An error text that is empty or missing is \<open>[]\<close>.\<close>

record ui_file =
  uf_name :: "string option"
  uf_size :: "rat option"
  uf_error :: string

record ui_row =
  r_node :: nat
  r_upload :: bool  \<comment> \<open>\<open>template-upload\<close>, otherwise \<open>template-download\<close>\<close>
  r_set :: "nat option"  \<comment> \<open>\<open>data('data')\<close>\<close>
  r_file :: ui_file
  r_in :: bool
  r_processing :: bool
  r_size :: string
  r_error :: string
  r_disabled :: bool  \<comment> \<open>its start button\<close>
  r_progress :: double
  r_checked :: bool

record ui_set =
  us_files :: "ui_file list"
  us_context :: "nat list option"
  us_autoUpload :: "bool option"
  us_iframe :: bool

datatype ui_entry = Trigger string "nat option" | Submit nat | Abort nat | DeleteRequest nat

text \<open>What happens when a transition ends: the callbacks of \<open>done\<close>, \<open>fail\<close> and \<open>destroy\<close>.\<close>

datatype outcome = Completed | Failed

definition event_name :: "outcome \<Rightarrow> string" where
  "event_name e = (case e of Completed \<Rightarrow> ''completed'' | Failed \<Rightarrow> ''failed'')"

datatype ui_cont =
  Shown
| Replace nat ui_file "nat option" outcome  \<comment> \<open>cell of the deferred object, file, set, event\<close>
| Finish nat "nat option" outcome "nat list"
| Remove nat "nat option"
| Destroyed

datatype bar_cont = Started | Reset nat

record ui =
  ui_fade :: bool
  ui_bar_fade :: bool
  ui_prepend :: bool
  ui_autoUpload :: bool
  ui_accepts :: bool  \<comment> \<open>no listener of \<open>added\<close> prevents it\<close>
  ui_disabled_start :: bool  \<comment> \<open>the template renders start buttons disabled\<close>
  ui_messages :: "(string \<times> string) list"
  ui_rows :: "ui_row list"  \<comment> \<open>the files container\<close>
  ui_node :: nat
  ui_sets :: "ui_set list"
  ui_deferreds :: "bool list"  \<comment> \<open>resolved\<close>
  ui_finished :: "nat list"  \<comment> \<open>\<open>_finishedUploads\<close>\<close>
  ui_whens :: "nat list list"  \<comment> \<open>callers of \<open>$.when\<close> that still wait\<close>
  ui_cells :: "nat option list"
  ui_pending :: "(nat \<times> nat list \<times> ui_cont) list"  \<comment> \<open>transitions of rows by their first node\<close>
  ui_bar :: "bar_cont list"
  ui_progress :: double
  ui_extended :: string
  ui_processing :: bool
  ui_disabled :: bool
  ui_input_disabled :: bool
  ui_toggle :: bool  \<comment> \<open>the box of the button bar\<close>
  ui_log :: "ui_entry list"

section \<open>Deferred objects\<close>

definition log_entry :: "ui_entry \<Rightarrow> ui \<Rightarrow> ui" where
  "log_entry e s = s\<lparr>ui_log := ui_log s @ [e]\<rparr>"

definition resetFinishedDeferreds :: "ui \<Rightarrow> ui" where
  "resetFinishedDeferreds s = s\<lparr>ui_finished := []\<rparr>"

definition addFinishedDeferreds :: "ui \<Rightarrow> nat \<times> ui" where
  "addFinishedDeferreds s =
     (let d = length (ui_deferreds s)
      in (d, s\<lparr>ui_deferreds := ui_deferreds s @ [False], ui_finished := ui_finished s @ [d]\<rparr>))"

definition all_resolved :: "bool list \<Rightarrow> nat list \<Rightarrow> bool" where
  "all_resolved bs ds \<longleftrightarrow> list_all (\<lambda>d. d < length bs \<and> bs ! d) ds"

definition resolve :: "nat \<Rightarrow> ui \<Rightarrow> ui" where
  "resolve d s =
     (let bs = (ui_deferreds s)[d := True]
      in s\<lparr>ui_deferreds := bs, ui_whens := filter (\<lambda>ds. \<not> all_resolved bs ds) (ui_whens s),
           ui_log := ui_log s @ map (\<lambda>ds. Trigger ''stopped'' None) (filter (all_resolved bs) (ui_whens s))\<rparr>)"

text \<open>\<open>deferred.resolve()\<close> through the variable; it is assigned before any callback runs.\<close>

definition resolve_cell :: "nat \<Rightarrow> ui \<Rightarrow> ui" where
  "resolve_cell c s =
     (case (if c < length (ui_cells s) then ui_cells s ! c else None) of Some d \<Rightarrow> resolve d s | None \<Rightarrow> s)"

definition when_finished :: "ui \<Rightarrow> ui" where
  "when_finished s =
     (if all_resolved (ui_deferreds s) (ui_finished s) then log_entry (Trigger ''stopped'' None) s
      else s\<lparr>ui_whens := ui_whens s @ [ui_finished s]\<rparr>)"

section \<open>Rows\<close>

definition upd_row :: "nat \<Rightarrow> (ui_row \<Rightarrow> ui_row) \<Rightarrow> ui \<Rightarrow> ui" where
  "upd_row n f s = s\<lparr>ui_rows := map (\<lambda>r. if r_node r = n then f r else r) (ui_rows s)\<rparr>"

definition in_page :: "nat \<Rightarrow> ui \<Rightarrow> bool" where
  "in_page n s = list_ex (\<lambda>r. r_node r = n) (ui_rows s)"

definition remove_row :: "nat \<Rightarrow> ui \<Rightarrow> ui" where
  "remove_row n s = s\<lparr>ui_rows := filter (\<lambda>r. r_node r \<noteq> n) (ui_rows s)\<rparr>"

definition render_row :: "bool \<Rightarrow> bool \<Rightarrow> nat option \<Rightarrow> ui_file \<Rightarrow> nat \<Rightarrow> ui_row" where
  "render_row off up i file n =
     \<lparr>r_node = n, r_upload = up, r_set = i, r_file = file, r_in = False, r_processing = False, r_size = [], r_error = [],
      r_disabled = off, r_progress = Fin 0, r_checked = False\<rparr>"

text \<open>\<open>_renderUpload\<close> or \<open>_renderDownload\<close>, and the new rows put into the container.\<close>

definition render :: "bool \<Rightarrow> nat option \<Rightarrow> ui_file list \<Rightarrow> ui \<Rightarrow> nat list \<times> ui" where
  "render up i fs s =
     (let ns = map (\<lambda>j. ui_node s + j) [0..<length fs];
          rows = map (\<lambda>(j, f). render_row (ui_disabled_start s) up i f (ui_node s + j)) (enumerated fs)
      in (ns, s\<lparr>ui_node := ui_node s + length fs,
                ui_rows := (if ui_prepend s then rows @ ui_rows s else ui_rows s @ rows)\<rparr>))"

definition set_context :: "nat option \<Rightarrow> nat list \<Rightarrow> ui \<Rightarrow> ui" where
  "set_context i ns s =
     (case i of None \<Rightarrow> s | Some i \<Rightarrow> s\<lparr>ui_sets := (ui_sets s)[i := (ui_sets s ! i)\<lparr>us_context := Some ns\<rparr>]\<rparr>)"

section \<open>Transitions\<close>

definition toggle_in :: "nat list \<Rightarrow> ui \<Rightarrow> ui" where
  "toggle_in ns s = s\<lparr>ui_rows := map (\<lambda>r. if r_node r \<in> set ns then r\<lparr>r_in := \<not> r_in r\<rparr> else r) (ui_rows s)\<rparr>"

text \<open>\<open>_transition(ns).done(k)\<close>, where \<open>now\<close> is \<open>k\<close> when there is nothing to wait for.\<close>

definition transition :: "nat list \<Rightarrow> ui_cont \<Rightarrow> (ui \<Rightarrow> ui) \<Rightarrow> ui \<Rightarrow> ui" where
  "transition ns k now s =
     (case ns of
        n # _ \<Rightarrow> (if ui_fade s \<and> in_page n s then (toggle_in ns s)\<lparr>ui_pending := ui_pending s @ [(n, ns, k)]\<rparr>
                  else now (toggle_in ns s))
      | [] \<Rightarrow> now s)"

definition finish_rows :: "nat \<Rightarrow> nat option \<Rightarrow> outcome \<Rightarrow> nat list \<Rightarrow> ui \<Rightarrow> ui" where
  "finish_rows c i e ns s =
     (let s1 = log_entry (Trigger ''finished'' i) (log_entry (Trigger (event_name e) i) (set_context i ns s))
      in resolve_cell c s1)"

definition replace_row :: "nat \<Rightarrow> nat \<Rightarrow> ui_file \<Rightarrow> nat option \<Rightarrow> outcome \<Rightarrow> ui \<Rightarrow> ui" where
  "replace_row n c file i e s =
     (let m = ui_node s;
          s1 = (upd_row n (\<lambda>r. render_row (ui_disabled_start s) False None file m) s)\<lparr>ui_node := m + 1\<rparr>
      in transition [m] (Finish c i e [m]) (finish_rows c i e [m]) s1)"

definition remove_failed :: "nat \<Rightarrow> nat \<Rightarrow> nat option \<Rightarrow> ui \<Rightarrow> ui" where
  "remove_failed n c i s =
     (let s1 = log_entry (Trigger ''finished'' i) (log_entry (Trigger ''failed'' i) (remove_row n s))
      in resolve_cell c s1)"

definition remove_destroyed :: "nat \<Rightarrow> ui \<Rightarrow> ui" where
  "remove_destroyed n s = log_entry (Trigger ''destroyed'' None) (remove_row n s)"

fun run_cont :: "nat \<Rightarrow> ui_cont \<Rightarrow> ui \<Rightarrow> ui" where
  "run_cont n Shown s = s"
| "run_cont n (Replace c file i e) s = replace_row n c file i e s"
| "run_cont n (Finish c i e ns) s = finish_rows c i e ns s"
| "run_cont n (Remove c i) s = remove_failed n c i s"
| "run_cont n Destroyed s = remove_destroyed n s"

definition start_transition :: "nat \<Rightarrow> ui_cont \<Rightarrow> ui \<Rightarrow> ui" where
  "start_transition n k s = transition [n] k (run_cont n k) s"

text \<open>The end of the transitions of a node runs what waits for it, in order.\<close>

definition transition_end :: "nat \<Rightarrow> ui \<Rightarrow> ui" where
  "transition_end n s =
     (let now = filter (\<lambda>(m, ns, k). m = n) (ui_pending s)
      in fold (\<lambda>(m, ns, k). run_cont m k) now (s\<lparr>ui_pending := filter (\<lambda>(m, ns, k). m \<noteq> n) (ui_pending s)\<rparr>))"

definition bar_done :: "bar_cont \<Rightarrow> ui \<Rightarrow> ui" where
  "bar_done k s =
     (case k of
        Started \<Rightarrow> log_entry (Trigger ''started'' None) s
      | Reset d \<Rightarrow> resolve d (s\<lparr>ui_progress := Fin 0, ui_extended := ''&nbsp;''\<rparr>))"

definition bar_transition :: "bar_cont \<Rightarrow> ui \<Rightarrow> ui" where
  "bar_transition k s = (if ui_bar_fade s then s\<lparr>ui_bar := ui_bar s @ [k]\<rparr> else bar_done k s)"

definition bar_end :: "ui \<Rightarrow> ui" where
  "bar_end s = fold bar_done (ui_bar s) (s\<lparr>ui_bar := []\<rparr>)"

section \<open>Callbacks\<close>

text \<open>\<open>add\<close> up to the processing of the set, and what follows when that has ended.\<close>

definition ui_add :: "ui_file list \<Rightarrow> bool option \<Rightarrow> bool \<Rightarrow> ui \<Rightarrow> ui" where
  "ui_add fs auto iframe s =
     (let i = length (ui_sets s);
          (ns, s1) = render True (Some i) fs s;
          s2 = s1\<lparr>ui_sets := ui_sets s1 @ [\<lparr>us_files = fs, us_context = Some ns, us_autoUpload = auto, us_iframe = iframe\<rparr>]\<rparr>;
          s3 = fold (\<lambda>n. upd_row n (\<lambda>r. r\<lparr>r_processing := True\<rparr>)) ns s2
      in transition ns Shown (\<lambda>s. s) s3)"

definition each_context :: "nat \<Rightarrow> (nat \<Rightarrow> nat \<Rightarrow> ui \<Rightarrow> ui) \<Rightarrow> ui \<Rightarrow> ui" where
  "each_context i f s =
     (case us_context (ui_sets s ! i) of None \<Rightarrow> s | Some ns \<Rightarrow> fold (\<lambda>(j, n). f j n) (enumerated ns) s)"

definition ui_processed :: "nat \<Rightarrow> bool \<Rightarrow> string list \<Rightarrow> ui \<Rightarrow> ui" where
  "ui_processed i accepted errors s =
     (let fs = us_files (ui_sets s ! i);
          s1 = each_context i (\<lambda>j n. upd_row n (\<lambda>r. r\<lparr>r_size := formatFileSize (uf_size (fs ! j)), r_processing := False\<rparr>)) s
      in if accepted
         then let s2 = each_context i (\<lambda>j n. upd_row n (\<lambda>r. r\<lparr>r_disabled := False\<rparr>)) s1;
                  s3 = log_entry (Trigger ''added'' (Some i)) s2;
                  auto = us_autoUpload (ui_sets s3 ! i)
              in if ui_accepts s3 \<and> (ui_autoUpload s3 \<or> auto = Some True) \<and> auto \<noteq> Some False then log_entry (Submit i) s3 else s3
         else each_context i (\<lambda>j n. upd_row n (\<lambda>r. if j < length errors \<and> errors ! j \<noteq> [] then r\<lparr>r_error := errors ! j\<rparr> else r)) s1)"

definition ui_send :: "nat \<Rightarrow> ui \<Rightarrow> ui" where
  "ui_send i s =
     log_entry (Trigger ''sent'' (Some i))
       (if us_iframe (ui_sets s ! i) then each_context i (\<lambda>j n. upd_row n (\<lambda>r. r\<lparr>r_progress := Fin 100\<rparr>)) s else s)"

definition getFilesFromResponse :: "ui_file list option \<Rightarrow> ui_file list" where
  "getFilesFromResponse result = (case result of Some fs \<Rightarrow> fs | None \<Rightarrow> [])"

definition answer_for :: "ui_file list \<Rightarrow> nat \<Rightarrow> ui_file" where
  "answer_for fs j =
     (if j < length fs then fs ! j else \<lparr>uf_name = None, uf_size = None, uf_error = ''Empty file upload result''\<rparr>)"

text \<open>A new cell for the variable \<open>deferred\<close> of a call; \<open>next_deferred\<close> is the assignment to it.\<close>

definition new_cell :: "ui \<Rightarrow> nat \<times> ui" where
  "new_cell s = (length (ui_cells s), s\<lparr>ui_cells := ui_cells s @ [None]\<rparr>)"

definition next_deferred :: "nat \<Rightarrow> ui \<Rightarrow> ui" where
  "next_deferred c s = (let (d, s1) = addFinishedDeferreds s in s1\<lparr>ui_cells := (ui_cells s1)[c := Some d]\<rparr>)"

definition answer_row :: "nat \<Rightarrow> nat option \<Rightarrow> outcome \<Rightarrow> ui_file \<Rightarrow> nat \<Rightarrow> ui \<Rightarrow> ui" where
  "answer_row c i e file n s = start_transition n (Replace c file i e) (next_deferred c s)"

definition ui_done :: "nat \<Rightarrow> ui_file list option \<Rightarrow> ui \<Rightarrow> ui" where
  "ui_done i result s =
     (let fs = getFilesFromResponse result; (c, s1) = new_cell s
      in case us_context (ui_sets s1 ! i) of
           Some ns \<Rightarrow> fold (\<lambda>(j, n). answer_row c (Some i) Completed (answer_for fs j) n) (enumerated ns) s1
         | None \<Rightarrow>
             let (ns, s2) = render False None fs s1; s3 = next_deferred c s2
             in transition ns (Finish c (Some i) Completed ns) (finish_rows c (Some i) Completed ns) s3)"

definition unknown_error :: "ui \<Rightarrow> string" where
  "unknown_error s = i18n (ui_messages s) ''unknownError'' []"

text \<open>A row without its file stops the loop by an exception; the rows after it have none either.\<close>

definition fail_row :: "nat \<Rightarrow> nat \<Rightarrow> string \<Rightarrow> nat \<Rightarrow> nat \<Rightarrow> ui \<Rightarrow> ui" where
  "fail_row i c errorThrown j n s =
     (if j < length (us_files (ui_sets s ! i))
      then let file = us_files (ui_sets s ! i) ! j;
               e = (if uf_error file \<noteq> [] then uf_error file else if errorThrown \<noteq> [] then errorThrown else unknown_error s);
               file' = file\<lparr>uf_error := e\<rparr>;
               s1 = s\<lparr>ui_sets := (ui_sets s)[i := (ui_sets s ! i)\<lparr>us_files := (us_files (ui_sets s ! i))[j := file']\<rparr>]\<rparr>
           in answer_row c (Some i) Failed file' n s1
      else s)"

definition abort_row :: "nat \<Rightarrow> nat option \<Rightarrow> nat \<Rightarrow> ui \<Rightarrow> ui" where
  "abort_row c i n s = start_transition n (Remove c i) (next_deferred c s)"

definition ui_fail :: "nat \<Rightarrow> string \<Rightarrow> ui \<Rightarrow> ui" where
  "ui_fail i errorThrown s =
     (let (c, s1) = new_cell s
      in case us_context (ui_sets s1 ! i) of
           Some ns \<Rightarrow>
             fold (\<lambda>(j, n). if errorThrown \<noteq> ''abort'' then fail_row i c errorThrown j n else abort_row c (Some i) n) (enumerated ns) s1
         | None \<Rightarrow>
             if errorThrown \<noteq> ''abort''
             then let (ns, s2) = render True (Some i) (us_files (ui_sets s1 ! i)) s1;
                      s3 = next_deferred c (set_context (Some i) ns s2)
                  in transition ns (Finish c (Some i) Failed ns) (finish_rows c (Some i) Failed ns) s3
             else let s2 = log_entry (Trigger ''finished'' (Some i)) (log_entry (Trigger ''failed'' (Some i)) s1);
                      (d, s3) = addFinishedDeferreds s2
                  in resolve d s3)"

definition ui_progress_event :: "nat \<Rightarrow> rat \<Rightarrow> rat \<Rightarrow> ui \<Rightarrow> ui" where
  "ui_progress_event i loaded whole s =
     each_context i (\<lambda>j n. upd_row n (\<lambda>r. r\<lparr>r_progress := progress_of loaded whole\<rparr>)) s"

definition ui_progressall :: "rat \<Rightarrow> rat \<Rightarrow> rat \<Rightarrow> ui \<Rightarrow> ui" where
  "ui_progressall bits loaded whole s =
     s\<lparr>ui_progress := progress_of loaded whole, ui_extended := renderExtendedProgress bits loaded whole\<rparr>"

definition ui_start :: "ui \<Rightarrow> ui" where
  "ui_start s = bar_transition Started (resetFinishedDeferreds s)"

definition ui_stop :: "ui \<Rightarrow> ui" where
  "ui_stop s = (let (d, s1) = addFinishedDeferreds s in bar_transition (Reset d) (when_finished s1))"

definition ui_destroy :: "nat \<Rightarrow> bool \<Rightarrow> ui \<Rightarrow> ui" where
  "ui_destroy n has_url s =
     (if has_url then log_entry (DeleteRequest n) s else start_transition n Destroyed s)"

definition destroy_answered :: "nat \<Rightarrow> bool \<Rightarrow> ui \<Rightarrow> ui" where
  "destroy_answered n ok s =
     (if ok then start_transition n Destroyed s else log_entry (Trigger ''destroyfailed'' None) s)"

section \<open>Buttons\<close>

definition row_of :: "nat \<Rightarrow> ui \<Rightarrow> ui_row option" where
  "row_of n s = find (\<lambda>r. r_node r = n) (ui_rows s)"

text \<open>A click on a disabled start button does nothing; \<open>submit\<close> and \<open>abort\<close> are the widget's.\<close>

definition startHandler :: "nat \<Rightarrow> ui \<Rightarrow> ui" where
  "startHandler n s =
     (case row_of n s of
        Some r \<Rightarrow>
          if r_upload r \<and> \<not> r_disabled r
          then let s1 = upd_row n (\<lambda>r. r\<lparr>r_disabled := True\<rparr>) s
               in (case r_set r of Some i \<Rightarrow> log_entry (Submit i) s1 | None \<Rightarrow> s1)
          else s
      | None \<Rightarrow> s)"

definition cancelHandler :: "nat \<Rightarrow> ui \<Rightarrow> ui" where
  "cancelHandler n s =
     (case row_of n s of
        Some r \<Rightarrow>
          (case r_set r of
             Some i \<Rightarrow> log_entry (Abort i) (if us_context (ui_sets s ! i) = None then set_context (Some i) [n] s else s)
           | None \<Rightarrow> let (c, s1) = new_cell s in abort_row c None n s1)
      | None \<Rightarrow> s)"

definition deleteHandler :: "nat \<Rightarrow> bool \<Rightarrow> ui \<Rightarrow> ui" where
  "deleteHandler n has_url s =
     (case row_of n s of
        Some r \<Rightarrow> if r_upload r then s else ui_destroy n has_url s
      | None \<Rightarrow> s)"

text \<open>The button bar; \<open>has_url\<close> tells which rows have delete buttons with an address.\<close>

definition start_all :: "ui \<Rightarrow> ui" where
  "start_all s = fold startHandler (map r_node (ui_rows s)) s"

definition cancel_all :: "ui \<Rightarrow> ui" where
  "cancel_all s = fold cancelHandler (map r_node (ui_rows s)) s"

definition delete_checked :: "(nat \<Rightarrow> bool) \<Rightarrow> ui \<Rightarrow> ui" where
  "delete_checked has_url s =
     (fold (\<lambda>n. deleteHandler n (has_url n)) (map r_node (filter (\<lambda>r. r_checked r \<and> \<not> r_upload r) (ui_rows s))) s)\<lparr>ui_toggle := False\<rparr>"

definition toggle_all :: "bool \<Rightarrow> ui \<Rightarrow> ui" where
  "toggle_all checked s = s\<lparr>ui_toggle := checked, ui_rows := map (\<lambda>r. r\<lparr>r_checked := checked\<rparr>) (ui_rows s)\<rparr>"

definition enable :: "ui \<Rightarrow> ui" where
  "enable s =
     (if ui_disabled s
      then s\<lparr>ui_disabled := False, ui_input_disabled := False, ui_rows := map (\<lambda>r. r\<lparr>r_disabled := False\<rparr>) (ui_rows s)\<rparr>
      else s)"

definition disable :: "ui \<Rightarrow> ui" where
  "disable s =
     (if \<not> ui_disabled s
      then s\<lparr>ui_disabled := True, ui_input_disabled := True, ui_rows := map (\<lambda>r. r\<lparr>r_disabled := True\<rparr>) (ui_rows s)\<rparr>
      else s)"

definition getNumberOfFiles :: "ui \<Rightarrow> nat" where
  "getNumberOfFiles s = length (filter (\<lambda>r. \<not> r_processing r) (ui_rows s))"

section \<open>Events\<close>

datatype ui_callback =
  Add "ui_file list" "bool option" bool
| Send nat
| Done nat "ui_file list option"
| Fail nat string
| Progress nat rat rat
| ProgressAll rat rat rat
| Start
| Stop
| ProcessStart
| ProcessStop
| Destroy nat bool

datatype ui_event =
  Callback bool ui_callback  \<comment> \<open>a listener has prevented its default\<close>
| Processed nat bool "string list"
| TransitionEnd nat
| BarEnd
| Answered nat bool
| ClickStart nat
| ClickCancel nat
| ClickDelete nat bool
| StartAll
| CancelAll
| DeleteChecked "nat list"
| ToggleAll bool
| Enable
| Disable

fun run_callback :: "ui_callback \<Rightarrow> ui \<Rightarrow> ui" where
  "run_callback (Add fs auto iframe) s = ui_add fs auto iframe s"
| "run_callback (Send i) s = (if i < length (ui_sets s) then ui_send i s else s)"
| "run_callback (Done i result) s = (if i < length (ui_sets s) then ui_done i result s else s)"
| "run_callback (Fail i err) s = (if i < length (ui_sets s) then ui_fail i err s else s)"
| "run_callback (Progress i loaded whole) s = (if i < length (ui_sets s) then ui_progress_event i loaded whole s else s)"
| "run_callback (ProgressAll bits loaded whole) s = ui_progressall bits loaded whole s"
| "run_callback Start s = ui_start s"
| "run_callback Stop s = ui_stop s"
| "run_callback ProcessStart s = s\<lparr>ui_processing := True\<rparr>"
| "run_callback ProcessStop s = s\<lparr>ui_processing := False\<rparr>"
| "run_callback (Destroy n has_url) s = ui_destroy n has_url s"

fun ui_step :: "ui_event \<Rightarrow> ui \<Rightarrow> ui" where
  "ui_step (Callback prevented k) s = (if prevented then s else run_callback k s)"
| "ui_step (Processed i accepted errors) s = (if i < length (ui_sets s) then ui_processed i accepted errors s else s)"
| "ui_step (TransitionEnd n) s = transition_end n s"
| "ui_step BarEnd s = bar_end s"
| "ui_step (Answered n ok) s = destroy_answered n ok s"
| "ui_step (ClickStart n) s = startHandler n s"
| "ui_step (ClickCancel n) s = cancelHandler n s"
| "ui_step (ClickDelete n has_url) s = deleteHandler n has_url s"
| "ui_step StartAll s = start_all s"
| "ui_step CancelAll s = cancel_all s"
| "ui_step (DeleteChecked ns) s = delete_checked (\<lambda>n. n \<in> set ns) s"
| "ui_step (ToggleAll checked) s = toggle_all checked s"
| "ui_step Enable s = enable s"
| "ui_step Disable s = disable s"

definition ui_run :: "ui_event list \<Rightarrow> ui \<Rightarrow> ui" where
  "ui_run es s = fold ui_step es s"

text \<open>The widget after \<open>_create\<close>; without support for file inputs their button is disabled.\<close>

definition ui_created :: "bool \<Rightarrow> bool \<Rightarrow> bool \<Rightarrow> ui" where
  "ui_created fileInput fade bar_fade =
     resetFinishedDeferreds
       \<lparr>ui_fade = fade, ui_bar_fade = bar_fade, ui_prepend = False, ui_autoUpload = False, ui_accepts = True, ui_disabled_start = True,
        ui_messages = [(''unknownError'', ''Unknown error'')], ui_rows = [], ui_node = 0, ui_sets = [], ui_deferreds = [],
        ui_finished = [], ui_whens = [], ui_cells = [], ui_pending = [], ui_bar = [], ui_progress = Fin 0, ui_extended = [],
        ui_processing = False, ui_disabled = False, ui_input_disabled = \<not> fileInput, ui_toggle = False, ui_log = []\<rparr>"

section \<open>Times and progress\<close>

definition pad2 :: "nat \<Rightarrow> string" where
  "pad2 n = dec (n div 10) @ dec (n mod 10)"

lemma dec_length: "n < 10 \<Longrightarrow> length (dec n) = 1" "10 \<le> n \<Longrightarrow> n < 100 \<Longrightarrow> dec n = dec (n div 10) @ dec (n mod 10)"
  by (simp_all add: dec.simps [of n] dec.simps [of "n mod 10"])

lemma two_digits_pad: "n < 100 \<Longrightarrow> two_digits (Some (int n)) = pad2 n"
proof -
  have z: "dec 0 = ''0''" by code_simp
  assume "n < 100"
  then consider "n < 10" | "10 \<le> n" "n < 100" by linarith
  then show ?thesis
  proof cases
    case 1
    then show ?thesis using dec_length(1) [of n] by (simp add: two_digits_def int_str_def pad2_def z Let_def)
  next
    case 2
    then have "n div 10 < 10" "n mod 10 < 10" by auto
    then show ?thesis
      using 2 dec_length(1) [of "n div 10"] dec_length(1) [of "n mod 10"] dec_length(2) [of n]
      by (simp add: two_digits_def int_str_def pad2_def Let_def)
  qed
qed

text \<open>
  A time of whole seconds, up to 272 years, is shown as its days, unless there are none, and
  its hours, minutes and seconds with two digits each, although days and milliseconds are computed
  with doubles.
\<close>

theorem time_shown:
  assumes "t < 2 ^ 33"
  shows "formatTime (Fin (of_nat t)) =
    (if t < 86400 then [] else dec (t div 86400) @ ''d '') @
    pad2 (t div 3600 mod 24) @ '':'' @ pad2 (t div 60 mod 60) @ '':'' @ pad2 (t mod 60)"
proof -
  have "to_double (of_int (int t * 1000)) = of_int (int t * 1000)" using assms by (intro to_double_int) simp
  then have ms: "times_double (Fin (of_nat t)) 1000 = Fin (of_int (int t * 1000))" by (simp add: times_double_def)
  have "int t < 2 ^ 33" using assms by (metis of_nat_less_iff of_nat_numeral of_nat_power)
  then have "(of_int (int t * 1000) :: rat) \<le> of_int 8640000000000000" by (simp only: of_int_le_iff) simp
  then have date: "date_time (Fin (of_int (int t * 1000))) = Some (int t * 1000)"
    by (simp add: date_time_def trunc_rat_def del: of_int_mult)
  have "\<lfloor>double_div (of_int (int t)) (of_int 86400)\<rfloor> = int t div 86400" using assms by (intro floor_double_div) simp_all
  then have days: "floor_double (divide_double (Fin (of_nat t)) 86400) = Fin (of_int (int (t div 86400)))"
    by (simp add: zdiv_int divide_double_def double_div_def)
  have f: "two_digits (Some (int t * 1000 div 3600000 mod 24)) = pad2 (t div 3600 mod 24)"
    "two_digits (Some (int t * 1000 div 60000 mod 60)) = pad2 (t div 60 mod 60)"
    "two_digits (Some (int t * 1000 div 1000 mod 60)) = pad2 (t mod 60)"
  proof -
    have i: "int t * 1000 div 3600000 mod 24 = int (t div 3600 mod 24)" "int t * 1000 div 60000 mod 60 = int (t div 60 mod 60)"
      "int t * 1000 div 1000 mod 60 = int (t mod 60)"
      by (simp_all add: zdiv_int zmod_int)
    have m: "t div 3600 mod 24 < 100" "t div 60 mod 60 < 100" "t mod 60 < 100"
      by (rule less_trans [OF mod_less_divisor]; simp)+
    show "two_digits (Some (int t * 1000 div 3600000 mod 24)) = pad2 (t div 3600 mod 24)" unfolding i by (rule two_digits_pad [OF m(1)])
    show "two_digits (Some (int t * 1000 div 60000 mod 60)) = pad2 (t div 60 mod 60)" unfolding i by (rule two_digits_pad [OF m(2)])
    show "two_digits (Some (int t * 1000 div 1000 mod 60)) = pad2 (t mod 60)" unfolding i by (rule two_digits_pad [OF m(3)])
  qed
  have z: "((of_int (int (t div 86400)) :: rat) = 0) = (t < 86400)" by (simp add: div_eq_0_iff)
  have s: "int_str (int (t div 86400)) = dec (t div 86400)" by (simp add: int_str_def)
  show ?thesis
    unfolding formatTime_def Let_def ms date days double.case option.map f z floor_of_int s by (simp only: append_assoc)
qed

lemma time_shown_witness: "formatTime (Fin 93784) = ''1d 02:03:04''"
proof -
  have "formatTime (Fin (of_nat 93784)) = dec 1 @ ''d '' @ pad2 2 @ '':'' @ pad2 3 @ '':'' @ pad2 4"
    by (subst time_shown) simp_all
  moreover have "dec 1 @ ''d '' @ pad2 2 @ '':'' @ pad2 3 @ '':'' @ pad2 4 = ''1d 02:03:04''" by code_simp
  ultimately show ?thesis by simp
qed

text \<open>The bar is between empty and full, and full when everything has been sent.\<close>

lemma progress_bounds:
  assumes "0 \<le> loaded" and "loaded \<le> whole" and "0 < whole"
  shows "\<exists>p. progress_of loaded whole = Fin (of_int p) \<and> 0 \<le> p \<and> p \<le> 100 \<and> (loaded = whole \<longrightarrow> p = 100)"
proof -
  let ?q = "double_div loaded whole"
  have "loaded / whole \<le> 1" using assms by simp
  then have small: "loaded / whole < 2 ^ 53" by (rule le_less_trans) simp
  then have q: "0 \<le> ?q" "?q \<le> 1"
    using assms to_double_nonneg [of "loaded / whole"] to_double_le [of "loaded / whole" 1] by (simp_all add: double_div_def)
  then have "0 \<le> to_double (?q * 100)" "to_double (?q * 100) \<le> 100"
    using to_double_nonneg [of "?q * 100"] to_double_le [of "?q * 100" 100] by simp_all
  moreover have "to_double 1 = 1" "to_double 100 = 100" using to_double_int [of 1] to_double_int [of 100] by simp_all
  ultimately show ?thesis
    using assms by (auto simp: progress_of_def times_double_def divide_double_def double_div_def floor_le_iff)
qed

text \<open>At the bounds of the units, and without a bit rate, the texts are odd.\<close>

lemma size_below_unit: "formatFileSize (Some 999999) = ''1000.00 KB''"
proof -
  have e: "exponent (999999 / 1000) = 9" by (rule exponent_unique) (simp_all add: power_int_def)
  have "\<bar>double_div 999999 1000 - 999999 / 1000\<bar> \<le> 1 / 1000"
    using to_double_error [of "999999 / 1000"] by (simp add: double_div_def)
  then have "hundredths (double_div 999999 1000) = 100000"
    by (simp add: hundredths_def nat_eq_iff floor_eq_iff abs_if split: if_splits)
  moreover have "\<not> double_div 999999 1000 < 0" using to_double_nonneg [of "999999 / 1000"] by (simp add: double_div_def)
  moreover have "dec 1000 @ ''.'' @ dec 0 @ dec 0 @ '' KB'' = ''1000.00 KB''" by code_simp
  ultimately show ?thesis by (simp add: formatFileSize_def to_fixed2_def)
qed

lemma no_rate_time: "formatTime (divide_double (Fin (double_mult (100 - 0) 8)) 0) = ''Infinityd aN:aN:aN''"
proof -
  have "to_double 800 = 800" using to_double_int [of 800] by simp
  then show ?thesis by (simp add: formatTime_def double_mult_def times_double_def divide_double_def date_time_def two_digits_def Let_def)
qed

end
