(* ===== verification/UploadUiProps.thy ===== *)
theory UploadUiProps
  imports UploadUi
begin

text \<open>
  What the rows and the deferred objects of the upload interface do in every run: the event \<open>stopped\<close> when
  transitions end at once, and what happens to it when they take time.
\<close>

section \<open>Frames\<close>

definition stops :: "ui \<Rightarrow> nat" where
  "stops s = length (filter (\<lambda>e. e = Trigger ''stopped'' None) (ui_log s))"

text \<open>What the deferred objects depend on.\<close>

definition deferred_view where
  "deferred_view s = (ui_fade s, ui_bar_fade s, ui_deferreds s, ui_finished s, ui_whens s, ui_cells s, ui_bar s, ui_pending s, stops s)"

named_theorems ui_frame "operations that leave the deferred objects alone"

lemma view_row [ui_frame]:
  "deferred_view (upd_row n f s) = deferred_view s" "deferred_view (remove_row n s) = deferred_view s"
  "deferred_view (toggle_in ns s) = deferred_view s" "deferred_view (snd (render up i fs s)) = deferred_view s"
  "deferred_view (set_context i ns s) = deferred_view s"
  by (simp_all add: deferred_view_def stops_def upd_row_def remove_row_def toggle_in_def render_def set_context_def Let_def split: option.split)

lemma view_log [ui_frame]: "e \<noteq> Trigger ''stopped'' None \<Longrightarrow> deferred_view (log_entry e s) = deferred_view s"
  by (simp add: deferred_view_def stops_def log_entry_def)

lemma view_fold [ui_frame]: "(\<And>x s. deferred_view (f x s) = deferred_view s) \<Longrightarrow> deferred_view (fold f xs s) = deferred_view s"
  by (induction xs arbitrary: s) simp_all

lemma view_each [ui_frame]: "(\<And>j n s. deferred_view (f j n s) = deferred_view s) \<Longrightarrow> deferred_view (each_context i f s) = deferred_view s"
  by (auto simp: each_context_def intro!: view_fold split: option.split)

lemma view_update [ui_frame]:
  "deferred_view (s\<lparr>ui_rows := rows\<rparr>) = deferred_view s" "deferred_view (s\<lparr>ui_node := m\<rparr>) = deferred_view s"
  "deferred_view (s\<lparr>ui_sets := sets\<rparr>) = deferred_view s" "deferred_view (s\<lparr>ui_progress := p\<rparr>) = deferred_view s"
  "deferred_view (s\<lparr>ui_extended := x\<rparr>) = deferred_view s" "deferred_view (s\<lparr>ui_processing := b\<rparr>) = deferred_view s"
  "deferred_view (s\<lparr>ui_disabled := b\<rparr>) = deferred_view s" "deferred_view (s\<lparr>ui_input_disabled := b\<rparr>) = deferred_view s"
  "deferred_view (s\<lparr>ui_toggle := b\<rparr>) = deferred_view s"
  by (simp_all add: deferred_view_def stops_def)

lemma view_processed [ui_frame]: "deferred_view (ui_processed i accepted errors s) = deferred_view s"
  by (simp add: ui_processed_def Let_def ui_frame)

lemma view_send [ui_frame]: "deferred_view (ui_send i s) = deferred_view s"
  by (simp add: ui_send_def ui_frame)

lemma view_progress [ui_frame]:
  "deferred_view (ui_progress_event i loaded whole s) = deferred_view s" "deferred_view (ui_progressall bits loaded whole s) = deferred_view s"
  by (simp_all add: ui_progress_event_def ui_progressall_def ui_frame)

lemma view_start_handler [ui_frame]: "deferred_view (startHandler n s) = deferred_view s"
  by (simp add: startHandler_def Let_def ui_frame split: option.split)

lemma view_enable [ui_frame]:
  "deferred_view (enable s) = deferred_view s" "deferred_view (disable s) = deferred_view s" "deferred_view (toggle_all b s) = deferred_view s"
  by (simp_all add: enable_def disable_def toggle_all_def ui_frame)

lemma event_name_stopped [simp]: "event_name e \<noteq> ''stopped''"
  by (cases e) (simp_all add: event_name_def)

section \<open>Transitions that end at once\<close>

text \<open>Nothing waits, every deferred object is resolved, and \<open>stopped\<close> has been triggered \<open>k\<close> times.\<close>

definition quiet :: "nat \<Rightarrow> ui \<Rightarrow> bool" where
  "quiet k s \<longleftrightarrow>
     \<not> ui_fade s \<and> \<not> ui_bar_fade s \<and> ui_pending s = [] \<and> ui_bar s = [] \<and> ui_whens s = [] \<and> list_all id (ui_deferreds s) \<and>
     list_all (\<lambda>d. d < length (ui_deferreds s)) (ui_finished s) \<and> stops s = k"

lemma quiet_view: "deferred_view s = deferred_view t \<Longrightarrow> quiet k s = quiet k t"
  by (simp add: deferred_view_def quiet_def)

lemma quiet_frame: "deferred_view t = deferred_view s \<Longrightarrow> quiet k s \<Longrightarrow> quiet k t"
  using quiet_view by blast

lemma view_fade: "deferred_view s = deferred_view t \<Longrightarrow> ui_fade s = ui_fade t"
  by (simp add: deferred_view_def)

lemma resolve_view: "deferred_view s = deferred_view t \<Longrightarrow> deferred_view (resolve d s) = deferred_view (resolve d t)"
  by (simp add: deferred_view_def resolve_def stops_def Let_def)

lemma resolve_cell_view:
  assumes "deferred_view s = deferred_view t"
  shows "deferred_view (resolve_cell c s) = deferred_view (resolve_cell c t)"
proof -
  have "ui_cells s = ui_cells t" using assms by (simp add: deferred_view_def)
  then show ?thesis using resolve_view [OF assms] assms by (simp add: resolve_cell_def split: option.split)
qed

lemma finish_view:
  "deferred_view t = deferred_view s \<Longrightarrow> deferred_view (finish_rows c i e ns t) = deferred_view (resolve_cell c s)"
  unfolding finish_rows_def Let_def by (rule resolve_cell_view) (simp add: ui_frame)

lemma transition_now:
  "\<not> ui_fade s \<Longrightarrow> transition ns k now s = now (if ns = [] then s else toggle_in ns s)"
  by (simp add: transition_def split: list.split)

lemma replace_view:
  assumes "\<not> ui_fade s"
  shows "deferred_view (replace_row n c file i e s) = deferred_view (resolve_cell c s)"
proof -
  define s1 where "s1 = (upd_row n (\<lambda>r. render_row (ui_disabled_start s) False None file (ui_node s)) s)\<lparr>ui_node := ui_node s + 1\<rparr>"
  have v: "deferred_view s1 = deferred_view s" by (simp add: s1_def ui_frame)
  then have "\<not> ui_fade s1" using assms(1) view_fade by metis
  then have "replace_row n c file i e s = finish_rows c i e [ui_node s] (toggle_in [ui_node s] s1)"
    by (simp add: replace_row_def s1_def Let_def transition_now)
  moreover have "deferred_view (finish_rows c i e [ui_node s] (toggle_in [ui_node s] s1)) = deferred_view (resolve_cell c s)"
    by (rule finish_view) (simp add: v ui_frame)
  ultimately show ?thesis by simp
qed

lemma remove_view:
  "deferred_view t = deferred_view s \<Longrightarrow> deferred_view (remove_failed n c i t) = deferred_view (resolve_cell c s)"
  unfolding remove_failed_def Let_def by (rule resolve_cell_view) (simp add: ui_frame)

lemma next_deferred_fade [simp]: "ui_fade (next_deferred c s) = ui_fade s"
  by (simp add: next_deferred_def addFinishedDeferreds_def Let_def)

lemma toggle_fade [simp]: "ui_fade (toggle_in ns s) = ui_fade s"
  by (simp add: toggle_in_def)

lemma answer_view:
  assumes "\<not> ui_fade s"
  shows "deferred_view (answer_row c i e file n s) = deferred_view (resolve_cell c (next_deferred c s))"
proof -
  let ?t = "toggle_in [n] (next_deferred c s)"
  have "answer_row c i e file n s = replace_row n c file i e ?t"
    using assms(1) by (simp add: answer_row_def start_transition_def transition_now)
  also have "deferred_view \<dots> = deferred_view (resolve_cell c ?t)" by (rule replace_view) (simp_all add: assms)
  also have "\<dots> = deferred_view (resolve_cell c (next_deferred c s))" by (rule resolve_cell_view) (simp add: ui_frame)
  finally show ?thesis .
qed

lemma abort_view:
  assumes "\<not> ui_fade s"
  shows "deferred_view (abort_row c i n s) = deferred_view (resolve_cell c (next_deferred c s))"
proof -
  have "abort_row c i n s = remove_failed n c i (toggle_in [n] (next_deferred c s))"
    using assms by (simp add: abort_row_def start_transition_def transition_now)
  also have "deferred_view \<dots> = deferred_view (resolve_cell c (next_deferred c s))" by (rule remove_view) (simp add: ui_frame)
  finally show ?thesis .
qed

text \<open>A deferred object that is added and resolved at once.\<close>

lemma resolved_view:
  assumes "c < length (ui_cells s)" and "ui_whens s = []"
  shows "deferred_view (resolve_cell c (next_deferred c s)) =
    (ui_fade s, ui_bar_fade s, ui_deferreds s @ [True], ui_finished s @ [length (ui_deferreds s)], [],
     (ui_cells s)[c := Some (length (ui_deferreds s))], ui_bar s, ui_pending s, stops s)"
  using assms by (simp add: deferred_view_def resolve_cell_def next_deferred_def addFinishedDeferreds_def resolve_def stops_def Let_def)

lemma quiet_step:
  assumes "quiet k s" and "c < length (ui_cells s)" and "deferred_view t = deferred_view (resolve_cell c (next_deferred c s))"
  shows "quiet k t \<and> length (ui_cells t) = length (ui_cells s)"
proof -
  have "ui_whens s = []" using assms(1) by (simp add: quiet_def)
  from assms(3) [unfolded resolved_view [OF assms(2) this]] show ?thesis
    using assms(1) by (auto simp: quiet_def deferred_view_def list_all_iff)
qed

lemma quiet_cell: "quiet k s \<Longrightarrow> quiet k (snd (new_cell s)) \<and> fst (new_cell s) < length (ui_cells (snd (new_cell s)))"
  by (simp add: quiet_def new_cell_def stops_def)

lemma quiet_fold:
  assumes "\<And>j n s. quiet k s \<Longrightarrow> c < length (ui_cells s) \<Longrightarrow> quiet k (f j n s) \<and> length (ui_cells (f j n s)) = length (ui_cells s)"
  shows "quiet k s \<Longrightarrow> c < length (ui_cells s) \<Longrightarrow> quiet k (fold (\<lambda>(j, n). f j n) xs s)"
proof (induction xs arbitrary: s)
  case (Cons x xs)
  obtain j n where x: "x = (j, n)" by fastforce
  have "quiet k (f j n s)" "c < length (ui_cells (f j n s))" using assms [OF Cons.prems, of j n] Cons.prems(2) by auto
  from Cons.IH [OF this] show ?case by (simp add: x)
qed simp

lemma quiet_fade: "quiet k s \<Longrightarrow> \<not> ui_fade s"
  by (simp add: quiet_def)

lemma quiet_answer:
  "quiet k s \<Longrightarrow> c < length (ui_cells s) \<Longrightarrow>
   quiet k (answer_row c i e file n s) \<and> length (ui_cells (answer_row c i e file n s)) = length (ui_cells s)"
  by (rule quiet_step [OF _ _ answer_view]) (auto dest: quiet_fade)

lemma quiet_abort:
  "quiet k s \<Longrightarrow> c < length (ui_cells s) \<Longrightarrow>
   quiet k (abort_row c i n s) \<and> length (ui_cells (abort_row c i n s)) = length (ui_cells s)"
  by (rule quiet_step [OF _ _ abort_view]) (auto dest: quiet_fade)

text \<open>Rows that are added and finished at once.\<close>

lemma quiet_added:
  assumes "quiet k s" and "c < length (ui_cells s)"
  shows "quiet k (transition ns (Finish c i e ns) (finish_rows c i e ns) (next_deferred c s))"
proof -
  let ?t = "if ns = [] then next_deferred c s else toggle_in ns (next_deferred c s)"
  have "deferred_view (finish_rows c i e ns ?t) = deferred_view (resolve_cell c (next_deferred c s))"
    by (rule finish_view) (simp add: ui_frame)
  then show ?thesis using quiet_step [OF assms(1,2)] quiet_fade [OF assms(1)] by (simp add: transition_now)
qed

lemma quiet_render:
  assumes "quiet k s" and "c < length (ui_cells s)" and "render up i fs s = (ns, t)"
  shows "quiet k t \<and> c < length (ui_cells t)"
proof -
  have "deferred_view t = deferred_view s" using view_row(4) [of up i fs s] by (simp add: assms(3))
  moreover from this have "ui_cells t = ui_cells s" by (simp add: deferred_view_def)
  ultimately show ?thesis using quiet_frame assms(1,2) by simp
qed

lemma quiet_done: "quiet k s \<Longrightarrow> quiet k (ui_done i result s)"
proof -
  assume q: "quiet k s"
  obtain c s1 where n: "new_cell s = (c, s1)" by fastforce
  then have s1: "quiet k s1" "c < length (ui_cells s1)" using quiet_cell [OF q] by auto
  let ?fs = "getFilesFromResponse result"
  show ?thesis
  proof (cases "us_context (ui_sets s1 ! i)")
    case (Some ns)
    have "quiet k (fold (\<lambda>(j, n). answer_row c (Some i) Completed (answer_for ?fs j) n) (enumerated ns) s1)"
      by (rule quiet_fold [OF _ s1]) (rule quiet_answer)
    then show ?thesis using Some by (simp add: ui_done_def n)
  next
    case None
    obtain ns s2 where r: "render False None ?fs s1 = (ns, s2)" by fastforce
    have "quiet k (transition ns (Finish c (Some i) Completed ns) (finish_rows c (Some i) Completed ns) (next_deferred c s2))"
      using quiet_render [OF s1 r] by (intro quiet_added) simp_all
    then show ?thesis using None by (simp add: ui_done_def n r Let_def)
  qed
qed

lemma quiet_fail_row:
  assumes "quiet k s" and "c < length (ui_cells s)"
  shows "quiet k (fail_row i c err j n s) \<and> length (ui_cells (fail_row i c err j n s)) = length (ui_cells s)"
proof (cases "j < length (us_files (ui_sets s ! i))")
  case True
  have "quiet k (answer_row c (Some i) Failed row_file n (s\<lparr>ui_sets := new_sets\<rparr>)) \<and>
      length (ui_cells (answer_row c (Some i) Failed row_file n (s\<lparr>ui_sets := new_sets\<rparr>))) = length (ui_cells s)" for row_file new_sets
    using quiet_answer [of k "s\<lparr>ui_sets := new_sets\<rparr>" c "Some i" Failed row_file n] quiet_frame [OF view_update(3) assms(1)] assms(2) by simp
  with True show ?thesis by (simp only: fail_row_def Let_def if_True)
qed (use assms in \<open>simp add: fail_row_def\<close>)

lemma quiet_fail: "quiet k s \<Longrightarrow> quiet k (ui_fail i err s)"
proof -
  assume q: "quiet k s"
  obtain c s1 where n: "new_cell s = (c, s1)" by fastforce
  then have s1: "quiet k s1" "c < length (ui_cells s1)" using quiet_cell [OF q] by auto
  show ?thesis
  proof (cases "us_context (ui_sets s1 ! i)")
    case (Some ns)
    have "quiet k (fold (\<lambda>(j, n). if err \<noteq> ''abort'' then fail_row i c err j n else abort_row c (Some i) n) (enumerated ns) s1)"
      by (rule quiet_fold [OF _ s1]) (cases "err = ''abort''", simp_all only: quiet_abort quiet_fail_row not_True_eq_False if_False not_False_eq_True if_True simp_thms)
    then show ?thesis using Some by (simp add: ui_fail_def n)
  next
    case None
    show ?thesis
    proof (cases "err = ''abort''")
      case True
      let ?s2 = "log_entry (Trigger ''finished'' (Some i)) (log_entry (Trigger ''failed'' (Some i)) s1)"
      have s2: "quiet k ?s2" using s1(1) by (rule quiet_frame [rotated]) (simp add: ui_frame)
      have "quiet k (resolve (fst (addFinishedDeferreds s)) (snd (addFinishedDeferreds s)))" if "quiet k s" for s
        using that by (simp add: quiet_def addFinishedDeferreds_def resolve_def stops_def list_all_iff Let_def) auto
      from this [OF s2] show ?thesis using None True by (simp add: ui_fail_def n Let_def case_prod_unfold)
    next
      case False
      obtain ns s2 where r: "render True (Some i) (us_files (ui_sets s1 ! i)) s1 = (ns, s2)" by fastforce
      have v: "deferred_view (set_context (Some i) ns s2) = deferred_view s2" by (simp add: ui_frame)
      have "quiet k (set_context (Some i) ns s2) \<and> c < length (ui_cells (set_context (Some i) ns s2))"
        using quiet_render [OF s1 r] quiet_view [OF v] v by (simp add: deferred_view_def)
      then have "quiet k (transition ns (Finish c (Some i) Failed ns) (finish_rows c (Some i) Failed ns)
          (next_deferred c (set_context (Some i) ns s2)))"
        by (intro quiet_added) simp_all
      then show ?thesis using None False by (simp add: ui_fail_def n r Let_def)
    qed
  qed
qed

lemma quiet_removed:
  assumes "quiet k s" and "\<And>t. deferred_view t = deferred_view s \<Longrightarrow> deferred_view (f t) = deferred_view s"
    and "run_cont n c = f"
  shows "quiet k (start_transition n c s)"
proof -
  have "start_transition n c s = f (toggle_in [n] s)"
    using assms(1,3) quiet_fade by (simp add: start_transition_def transition_now)
  with assms(1,2) show ?thesis by (metis quiet_frame view_row(3))
qed

lemma view_destroyed: "deferred_view t = deferred_view s \<Longrightarrow> deferred_view (remove_destroyed n t) = deferred_view s"
  by (simp add: remove_destroyed_def ui_frame)

lemma quiet_destroyed: "quiet k s \<Longrightarrow> quiet k (start_transition n Destroyed s)"
  by (rule quiet_removed [where f = "remove_destroyed n"]) (auto simp: fun_eq_iff intro: view_destroyed)

lemma quiet_log: "quiet k s \<Longrightarrow> e \<noteq> Trigger ''stopped'' None \<Longrightarrow> quiet k (log_entry e s)"
  by (rule quiet_frame [OF view_log])

lemma quiet_destroy: "quiet k s \<Longrightarrow> quiet k (ui_destroy n has_url s)" "quiet k s \<Longrightarrow> quiet k (destroy_answered n ok s)"
  by (simp_all add: ui_destroy_def destroy_answered_def quiet_destroyed quiet_log)

lemma quiet_handlers:
  "quiet k s \<Longrightarrow> quiet k (cancelHandler n s)" "quiet k s \<Longrightarrow> quiet k (deleteHandler n has_url s)"
proof -
  assume q: "quiet k s"
  have "quiet k (set_context i ns s)" for i ns by (rule quiet_frame [OF _ q]) (simp add: ui_frame)
  moreover obtain c s1 where n: "new_cell s = (c, s1)" by fastforce
  have "quiet k (abort_row c None n s1)" using quiet_cell [OF q] quiet_abort [of k s1 c None n] by (simp add: n)
  ultimately show "quiet k (cancelHandler n s)"
    using q by (auto simp: cancelHandler_def n intro!: quiet_log split: option.split)
  show "quiet k (deleteHandler n has_url s)" using q by (simp add: deleteHandler_def quiet_destroy split: option.split)
qed

lemma quiet_fold_nodes: "(\<And>n s. quiet k s \<Longrightarrow> quiet k (f n s)) \<Longrightarrow> quiet k s \<Longrightarrow> quiet k (fold f ns s)"
  by (induction ns arbitrary: s) simp_all

lemma quiet_add: "quiet k s \<Longrightarrow> quiet k (ui_add fs auto iframe s)"
proof -
  assume q: "quiet k s"
  obtain ns s1 where r: "render True (Some (length (ui_sets s))) fs s = (ns, s1)" by fastforce
  have v: "deferred_view s1 = deferred_view s" using view_row(4) [of True _ fs s] r by (metis snd_conv)
  let ?s3 = "fold (\<lambda>n. upd_row n (\<lambda>r. r\<lparr>r_processing := True\<rparr>)) ns
    (s1\<lparr>ui_sets := ui_sets s1 @ [\<lparr>us_files = fs, us_context = Some ns, us_autoUpload = auto, us_iframe = iframe\<rparr>]\<rparr>)"
  have v3: "deferred_view ?s3 = deferred_view s" by (simp add: ui_frame v)
  have "ui_add fs auto iframe s = transition ns Shown (\<lambda>s. s) ?s3" by (simp add: ui_add_def r Let_def)
  also have "\<dots> = (if ns = [] then ?s3 else toggle_in ns ?s3)"
    using quiet_frame [OF v3 q] by (intro trans [OF transition_now]) (auto simp: quiet_def)
  finally show ?thesis using v3 quiet_frame [OF _ q] by (simp add: ui_frame)
qed

lemma quiet_start: "quiet k s \<Longrightarrow> quiet k (ui_start s)"
  by (simp add: ui_start_def bar_transition_def bar_done_def resetFinishedDeferreds_def quiet_def stops_def log_entry_def)

text \<open>A stop adds a deferred object, waits for all, and resolves it at once.\<close>

lemma quiet_stop: "quiet k s \<Longrightarrow> quiet (k + 1) (ui_stop s)"
proof -
  assume q: "quiet k s"
  let ?n = "length (ui_deferreds s)"
  have f: "list_all (\<lambda>d. d < ?n) (ui_finished s)" and d: "list_all id (ui_deferreds s)" using q by (simp_all add: quiet_def)
  have w: "\<not> all_resolved (ui_deferreds s @ [False]) (ui_finished s @ [?n])" by (simp add: all_resolved_def)
  have r: "all_resolved (ui_deferreds s @ [True]) (ui_finished s @ [?n])"
    using f d by (auto simp: all_resolved_def list_all_iff nth_append)
  have "list_all (\<lambda>d. d < Suc ?n) (ui_finished s)" using f by (auto simp: list_all_iff)
  with q w r show ?thesis
    by (simp add: ui_stop_def addFinishedDeferreds_def when_finished_def bar_transition_def bar_done_def resolve_def quiet_def stops_def Let_def)
qed

definition stop_events :: "ui_event list \<Rightarrow> nat" where
  "stop_events es = length (filter (\<lambda>e. e = Callback False Stop) es)"

lemma quiet_callback:
  assumes "quiet k s"
  shows "quiet (if c = Stop then k + 1 else k) (run_callback c s)"
proof (cases c)
  case (Send i)
  then show ?thesis using assms quiet_frame [OF view_send assms] by simp
next
  case (Progress i loaded whole)
  then show ?thesis using assms quiet_frame [OF view_progress(1) assms] by simp
next
  case (ProgressAll bits loaded whole)
  then show ?thesis using quiet_frame [OF view_progress(2) assms] by simp
next
  case ProcessStart
  then show ?thesis using quiet_frame [OF view_update(6) assms] by simp
next
  case ProcessStop
  then show ?thesis using quiet_frame [OF view_update(6) assms] by simp
next
  case (Done i r)
  then show ?thesis using assms quiet_done by simp
next
  case (Fail i e)
  then show ?thesis using assms quiet_fail by simp
next
  case (Add f a b)
  then show ?thesis using assms quiet_add by simp
next
  case Start
  then show ?thesis using assms quiet_start by simp
next
  case Stop
  then show ?thesis using quiet_stop [OF assms] by simp
next
  case (Destroy n b)
  then show ?thesis using assms quiet_destroy by simp
qed

lemma quiet_event:
  assumes "quiet k s"
  shows "quiet (if e = Callback False Stop then k + 1 else k) (ui_step e s)"
proof (cases e)
  case (Callback p c)
  then show ?thesis using assms quiet_callback [OF assms, of c] by simp
next
  case (Processed i a err)
  then show ?thesis using assms quiet_frame [OF view_processed assms] by simp
next
  case (TransitionEnd n)
  then show ?thesis using assms by (simp add: transition_end_def quiet_def stops_def)
next
  case BarEnd
  then show ?thesis using assms by (simp add: bar_end_def quiet_def stops_def)
next
  case StartAll
  then show ?thesis using quiet_fold_nodes [OF quiet_frame [OF view_start_handler] assms] by (simp add: start_all_def)
next
  case CancelAll
  then show ?thesis using quiet_fold_nodes [OF quiet_handlers(1) assms] by (simp add: cancel_all_def)
next
  case (DeleteChecked ns)
  have "quiet k (fold (\<lambda>n. deleteHandler n (n \<in> set ns)) ms s)" for ms
    by (rule quiet_fold_nodes [OF quiet_handlers(2) assms])
  then show ?thesis using DeleteChecked quiet_frame [OF view_update(9)] by (simp add: delete_checked_def)
qed (use assms quiet_handlers quiet_destroy quiet_frame [OF view_start_handler assms] quiet_frame [OF view_enable(1) assms]
    quiet_frame [OF view_enable(2) assms] quiet_frame [OF view_enable(3) assms] in simp_all)

lemma quiet_run: "quiet k s \<Longrightarrow> quiet (k + stop_events es) (ui_run es s)"
proof (induction es arbitrary: k s)
  case (Cons e es)
  have "quiet ((if e = Callback False Stop then k + 1 else k) + stop_events es) (ui_run es (ui_step e s))"
    by (rule Cons.IH [OF quiet_event [OF Cons.prems]])
  then show ?case by (simp add: ui_run_def stop_events_def split: if_splits)
qed (simp add: ui_run_def stop_events_def)

text \<open>
  When transitions end at once, the interface triggers \<open>stopped\<close> exactly once for each stop
  of the uploads, whatever else happens: every deferred object of a finished upload has been resolved.
\<close>

theorem stopped_counted:
  "stops (ui_run es (ui_created inp False False)) = stop_events es \<and>
   list_all id (ui_deferreds (ui_run es (ui_created inp False False))) \<and> ui_whens (ui_run es (ui_created inp False False)) = []"
proof -
  have "quiet 0 (ui_created inp False False)"
    by (simp add: quiet_def ui_created_def resetFinishedDeferreds_def stops_def)
  from quiet_run [OF this, of es] show ?thesis by (simp add: quiet_def)
qed

section \<open>Invariants of the deferred objects\<close>

text \<open>
  A property that depends on the deferred objects only holds in every run when the few operations on them
  keep it: a new variable, a new object assigned to it, the resolution through a variable, the end of
  the transitions of the progress bar, and a stop.
\<close>

locale deferred_invariant =
  fixes holds :: "ui \<Rightarrow> bool"
  assumes frame: "deferred_view t = deferred_view s \<Longrightarrow> holds s \<Longrightarrow> holds t"
    and new_cell: "holds s \<Longrightarrow> holds (snd (new_cell s))"
    and next_deferred: "holds s \<Longrightarrow> holds (next_deferred c s)"
    and resolve_cell: "holds s \<Longrightarrow> holds (resolve_cell c s)"
    and resolve_new: "holds s \<Longrightarrow> addFinishedDeferreds s = (d, t) \<Longrightarrow> holds (resolve d t)"
    and waiting: "holds s \<Longrightarrow> holds (s\<lparr>ui_pending := p\<rparr>)"
    and bar_end: "holds s \<Longrightarrow> holds (bar_end s)"
    and stop: "holds s \<Longrightarrow> holds (ui_stop s)"
begin

lemma log: "holds s \<Longrightarrow> e \<noteq> Trigger ''stopped'' None \<Longrightarrow> holds (log_entry e s)"
  by (rule frame [OF view_log])

lemma transition:
  assumes "holds s" and "\<And>t. holds t \<Longrightarrow> holds (now t)"
  shows "holds (transition ns c now s)"
proof (cases ns)
  case (Cons n ms)
  have "holds (toggle_in ns s)" by (rule frame [OF view_row(3) assms(1)])
  with Cons assms(2) waiting show ?thesis by (simp add: transition_def)
qed (use assms in \<open>simp add: transition_def\<close>)

lemma finish: "holds s \<Longrightarrow> holds (finish_rows c i e ns s)"
  unfolding finish_rows_def Let_def by (intro resolve_cell log frame [OF view_row(5)]) simp_all

lemma replace: "holds s \<Longrightarrow> holds (replace_row n c file i e s)"
  unfolding replace_row_def Let_def
  by (intro transition finish frame [OF view_update(2)] frame [OF view_row(1)])

lemma remove: "holds s \<Longrightarrow> holds (remove_failed n c i s)"
  unfolding remove_failed_def Let_def by (intro resolve_cell log frame [OF view_row(2)]) simp_all

lemma destroyed: "holds s \<Longrightarrow> holds (remove_destroyed n s)"
  unfolding remove_destroyed_def by (intro log frame [OF view_row(2)]) simp_all

lemma cont: "holds s \<Longrightarrow> holds (run_cont n c s)"
  by (cases c) (simp_all add: finish replace remove destroyed)

lemma each: "(\<And>x s. holds s \<Longrightarrow> holds (f x s)) \<Longrightarrow> holds s \<Longrightarrow> holds (fold f xs s)"
  by (induction xs arbitrary: s) simp_all

lemma start_row: "holds s \<Longrightarrow> holds (start_transition n c s)"
  unfolding start_transition_def by (rule transition [OF _ cont])

lemma rows:
  "holds s \<Longrightarrow> holds (answer_row c i e file n s)" "holds s \<Longrightarrow> holds (abort_row c i n s)"
  by (simp_all add: answer_row_def abort_row_def start_row next_deferred)

lemma failed_row: "holds s \<Longrightarrow> holds (fail_row i c err j n s)"
  unfolding fail_row_def Let_def by (auto intro!: rows frame [OF view_update(3)])

lemma added:
  "holds s \<Longrightarrow> holds (transition ns (Finish c i e ns) (finish_rows c i e ns) (next_deferred c s))"
  by (intro transition finish next_deferred)

lemma rendered: "render up i fs s = (ns, t) \<Longrightarrow> holds s \<Longrightarrow> holds t"
  using view_row(4) [of up i fs s] by (auto intro: frame)

lemma set_done: "holds s \<Longrightarrow> holds (ui_done i result s)"
proof -
  assume l: "holds s"
  obtain c s1 where n: "UploadUi.new_cell s = (c, s1)" by fastforce
  then have s1: "holds s1" using new_cell [OF l] by simp
  then show ?thesis
    by (auto simp: ui_done_def n Let_def intro!: each rows added intro: rendered split: option.split prod.split)
qed

lemma set_failed: "holds s \<Longrightarrow> holds (ui_fail i err s)"
proof -
  assume l: "holds s"
  obtain c s1 where n: "UploadUi.new_cell s = (c, s1)" by fastforce
  then have s1: "holds s1" using new_cell [OF l] by simp
  let ?s2 = "log_entry (Trigger ''finished'' (Some i)) (log_entry (Trigger ''failed'' (Some i)) s1)"
  have "holds (case addFinishedDeferreds ?s2 of (d, s) \<Rightarrow> resolve d s)"
    using resolve_new [of ?s2] s1 by (auto simp: log split: prod.split)
  then show ?thesis
    using s1 by (auto simp: ui_fail_def n Let_def intro!: each failed_row rows added frame [OF view_row(5)]
        intro: rendered split: option.split prod.split)
qed

lemma transition_ended: "holds s \<Longrightarrow> holds (transition_end n s)"
  by (auto simp: transition_end_def waiting intro!: each cont)

lemma set_added: "holds s \<Longrightarrow> holds (ui_add fs auto iframe s)"
  by (auto simp: ui_add_def Let_def intro!: transition each frame [OF view_row(1)] frame [OF view_update(3)]
      intro: rendered split: prod.split)

lemma handlers:
  "holds s \<Longrightarrow> holds (cancelHandler n s)" "holds s \<Longrightarrow> holds (deleteHandler n has_url s)"
  "holds s \<Longrightarrow> holds (ui_destroy n has_url s)" "holds s \<Longrightarrow> holds (destroy_answered n ok s)"
  using new_cell [of s]
  by (auto simp: cancelHandler_def deleteHandler_def ui_destroy_def destroy_answered_def
      intro!: log frame [OF view_row(5)] rows start_row split: option.split prod.split)

lemma callback: "holds s \<Longrightarrow> c \<noteq> Start \<Longrightarrow> holds (run_callback c s)"
  by (cases c) (auto simp: set_added set_done set_failed stop handlers
      intro: frame [OF view_send] frame [OF view_progress(1)] frame [OF view_progress(2)] frame [OF view_update(6)])

lemma event: "holds s \<Longrightarrow> e \<noteq> Callback False Start \<Longrightarrow> holds (ui_step e s)"
  by (cases e) (auto simp: callback transition_ended bar_end handlers start_all_def cancel_all_def delete_checked_def
      intro!: each handlers frame [OF view_start_handler] frame [OF view_update(9)]
      intro: frame [OF view_processed] frame [OF view_start_handler] frame [OF view_enable(1)]
        frame [OF view_enable(2)] frame [OF view_enable(3)])

lemma run: "holds s \<Longrightarrow> Callback False Start \<notin> set es \<Longrightarrow> holds (ui_run es s)"
  by (induction es arbitrary: s) (auto simp: ui_run_def event)

end

section \<open>A deferred object that is lost\<close>

text \<open>
  The deferred object \<open>d\<close> waits to be resolved, is one of those a stop waits for, and no variable and no
  transition of the progress bar holds it any more.
\<close>

definition lost :: "nat \<Rightarrow> nat \<Rightarrow> ui \<Rightarrow> bool" where
  "lost d k s \<longleftrightarrow>
     d < length (ui_deferreds s) \<and> \<not> ui_deferreds s ! d \<and> d \<in> set (ui_finished s) \<and> Some d \<notin> set (ui_cells s) \<and>
     Reset d \<notin> set (ui_bar s) \<and> list_all (\<lambda>w. d \<in> set w) (ui_whens s) \<and> stops s = k"

lemma unresolved: "d < length bs \<Longrightarrow> \<not> bs ! d \<Longrightarrow> d \<in> set w \<Longrightarrow> \<not> all_resolved bs w"
  by (auto simp: all_resolved_def list_all_iff)

lemma lost_resolve:
  assumes "lost d k s" and "d' \<noteq> d"
  shows "lost d k (resolve d' s)"
proof -
  have "\<not> all_resolved ((ui_deferreds s)[d' := True]) w" if "w \<in> set (ui_whens s)" for w
    using assms that by (intro unresolved [of d]) (auto simp: lost_def list_all_iff)
  then have "filter (all_resolved ((ui_deferreds s)[d' := True])) (ui_whens s) = []" by (simp add: filter_empty_conv)
  with assms show ?thesis by (auto simp: lost_def resolve_def stops_def list_all_iff Let_def)
qed

lemma lost_cell: "lost d k s \<Longrightarrow> lost d k (resolve_cell c s)"
  by (auto simp: resolve_cell_def intro!: lost_resolve split: option.split) (auto simp: lost_def in_set_conv_nth)

lemma lost_next: "lost d k s \<Longrightarrow> lost d k (next_deferred c s)"
  using set_update_subset_insert [of "ui_cells s" c "Some (length (ui_deferreds s))"]
  by (auto simp: lost_def next_deferred_def addFinishedDeferreds_def stops_def nth_append Let_def)

lemma lost_new: "lost d k s \<Longrightarrow> addFinishedDeferreds s = (d', t) \<Longrightarrow> lost d k t \<and> d' \<noteq> d"
  by (auto simp: lost_def addFinishedDeferreds_def stops_def nth_append Let_def)

lemma lost_bar: "lost d k s \<Longrightarrow> c \<noteq> Reset d \<Longrightarrow> lost d k (bar_done c s)"
proof (cases c)
  case Started
  then show "lost d k s \<Longrightarrow> lost d k (bar_done c s)" by (simp add: bar_done_def lost_def stops_def log_entry_def)
next
  case (Reset x)
  assume "lost d k s" and "c \<noteq> Reset d"
  moreover from this have "lost d k (s\<lparr>ui_progress := Fin 0, ui_extended := ''&nbsp;''\<rparr>)" by (simp add: lost_def stops_def)
  ultimately show ?thesis using Reset by (simp add: bar_done_def lost_resolve)
qed

lemma lost_bar_end: "lost d k s \<Longrightarrow> lost d k (bar_end s)"
proof -
  assume l: "lost d k s"
  then have "lost d k (s\<lparr>ui_bar := []\<rparr>)" by (simp add: lost_def stops_def)
  moreover have "lost d k (fold bar_done cs t)" if "lost d k t" "Reset d \<notin> set cs" for cs t
    using that by (induction cs arbitrary: t) (auto simp: lost_bar)
  ultimately show ?thesis using l by (simp add: bar_end_def lost_def)
qed

lemma lost_stop: "lost d k s \<Longrightarrow> lost d k (ui_stop s)"
proof -
  assume l: "lost d k s"
  obtain d' s1 where a: "addFinishedDeferreds s = (d', s1)" by fastforce
  have s1: "lost d k s1" and d': "d' \<noteq> d" using lost_new [OF l a] by auto
  then have "\<not> all_resolved (ui_deferreds s1) (ui_finished s1)" by (intro unresolved [of d]) (simp_all add: lost_def)
  then have "lost d k (when_finished s1)" using s1 by (simp add: when_finished_def lost_def stops_def)
  moreover from this have "lost d k ((when_finished s1)\<lparr>ui_bar := ui_bar (when_finished s1) @ [Reset d']\<rparr>)"
    using d' by (simp add: lost_def stops_def)
  ultimately show ?thesis using d' by (simp add: ui_stop_def a bar_transition_def lost_bar)
qed

interpretation lost_object: deferred_invariant "lost d k" for d k
proof unfold_locales
  show "deferred_view t = deferred_view s \<Longrightarrow> lost d k s \<Longrightarrow> lost d k t" for s t
    by (simp add: deferred_view_def lost_def)
  show "lost d k s \<Longrightarrow> lost d k (snd (new_cell s))" for s by (simp add: lost_def new_cell_def stops_def)
  show "lost d k s \<Longrightarrow> addFinishedDeferreds s = (d', t) \<Longrightarrow> lost d k (resolve d' t)" for s t d'
    using lost_new lost_resolve by blast
  show "lost d k s \<Longrightarrow> lost d k (s\<lparr>ui_pending := p\<rparr>)" for s p by (simp add: lost_def stops_def)
qed (auto intro: lost_next lost_cell lost_bar_end lost_stop)

text \<open>Variables and transitions of the progress bar hold objects that exist; \<open>ui_fade\<close> never changes.\<close>

definition bounded_objects :: "bool \<Rightarrow> ui \<Rightarrow> bool" where
  "bounded_objects fade s \<longleftrightarrow>
     ui_fade s = fade \<and> (\<forall>d. Some d \<in> set (ui_cells s) \<longrightarrow> d < length (ui_deferreds s)) \<and>
     (\<forall>d. Reset d \<in> set (ui_bar s) \<longrightarrow> d < length (ui_deferreds s))"

lemma bounded_resolve: "bounded_objects fade (resolve d s) = bounded_objects fade s"
  by (simp add: bounded_objects_def resolve_def Let_def)

lemma bounded_bar: "bounded_objects fade (bar_done c s) = bounded_objects fade s"
  by (cases c) (simp_all add: bar_done_def bounded_resolve, simp_all add: bounded_objects_def log_entry_def)

lemma bounded_bar_fold: "bounded_objects fade (fold bar_done cs s) = bounded_objects fade s"
  by (induction cs arbitrary: s) (simp_all add: bounded_bar)

lemma bounded_next: "bounded_objects fade s \<Longrightarrow> bounded_objects fade (next_deferred c s)"
  using set_update_subset_insert [of "ui_cells s" c "Some (length (ui_deferreds s))"]
  by (auto simp: bounded_objects_def next_deferred_def addFinishedDeferreds_def Let_def dest!: less_SucI)

lemma bounded_when: "bounded_objects fade (when_finished s) = bounded_objects fade s"
  by (simp add: when_finished_def log_entry_def bounded_objects_def)

interpretation bounded: deferred_invariant "bounded_objects fade" for fade
proof unfold_locales
  show "deferred_view t = deferred_view s \<Longrightarrow> bounded_objects fade s \<Longrightarrow> bounded_objects fade t" for s t
    by (simp add: deferred_view_def bounded_objects_def)
  show "bounded_objects fade s \<Longrightarrow> bounded_objects fade (snd (new_cell s))" for s
    by (auto simp: bounded_objects_def new_cell_def)
  show "bounded_objects fade s \<Longrightarrow> bounded_objects fade (resolve_cell c s)" for s c
    by (simp add: resolve_cell_def bounded_resolve split: option.split)
  show "bounded_objects fade s \<Longrightarrow> addFinishedDeferreds s = (d, t) \<Longrightarrow> bounded_objects fade (resolve d t)" for s t d
    by (auto simp: bounded_resolve addFinishedDeferreds_def Let_def) (auto simp: bounded_objects_def dest!: less_SucI)
  show "bounded_objects fade s \<Longrightarrow> bounded_objects fade (s\<lparr>ui_pending := p\<rparr>)" for s p by (simp add: bounded_objects_def)
  show "bounded_objects fade s \<Longrightarrow> bounded_objects fade (bar_end s)" for s
    by (simp add: bar_end_def bounded_bar_fold) (simp add: bounded_objects_def)
  show "bounded_objects fade s \<Longrightarrow> bounded_objects fade (ui_stop s)" for s
  proof -
    assume b: "bounded_objects fade s"
    obtain d t where a: "addFinishedDeferreds s = (d, t)" by fastforce
    have t: "bounded_objects fade t" "d < length (ui_deferreds t)"
      using a b by (auto simp: addFinishedDeferreds_def bounded_objects_def Let_def dest!: less_SucI)
    have "ui_deferreds (when_finished t) = ui_deferreds t" by (simp add: when_finished_def log_entry_def)
    with t have "bounded_objects fade ((when_finished t)\<lparr>ui_bar := ui_bar (when_finished t) @ [Reset d]\<rparr>)"
      using bounded_when [of fade t] by (auto simp: bounded_objects_def)
    then show ?thesis using t(1) by (simp add: ui_stop_def a bar_transition_def bounded_bar bounded_when)
  qed
qed (auto intro: bounded_next)

lemma bounded_reset: "bounded_objects fade s \<Longrightarrow> bounded_objects fade (ui_start s)"
  by (simp add: ui_start_def bar_transition_def bounded_bar resetFinishedDeferreds_def) (auto simp: bounded_objects_def)

lemma bounded_run: "bounded_objects fade s \<Longrightarrow> bounded_objects fade (ui_run es s)"
proof (induction es arbitrary: s)
  case (Cons e es)
  have "bounded_objects fade (ui_step e s)"
    by (cases "e = Callback False Start") (simp_all add: bounded_reset bounded.event Cons.prems)
  from Cons.IH [OF this] show ?case by (simp add: ui_run_def)
qed (simp add: ui_run_def)

lemma bounded_created: "bounded_objects fade (ui_created inp fade bar)"
  by (simp add: bounded_objects_def ui_created_def resetFinishedDeferreds_def)

text \<open>The first of two rows of a set: the second one takes the variable from it.\<close>

lemma row_waits:
  assumes "ui_fade s" and "in_page m s"
  shows "deferred_view (answer_row c i e file m s) = deferred_view ((next_deferred c s)\<lparr>ui_pending := ui_pending s @ [(m, [m], Replace c file i e)]\<rparr>)"
proof -
  have "in_page m (next_deferred c s)" "ui_pending (next_deferred c s) = ui_pending s"
    using assms(2) by (simp_all add: in_page_def next_deferred_def addFinishedDeferreds_def Let_def)
  with assms(1) show ?thesis
    by (simp add: answer_row_def start_transition_def transition_def deferred_view_def stops_def toggle_in_def)
qed

lemma lost_begins:
  assumes "bounded_objects True s" and "in_page m s" and "ui_whens s = []"
  shows "lost (length (ui_deferreds s)) (stops s)
    (next_deferred (length (ui_cells s)) (answer_row (length (ui_cells s)) i e file m (snd (new_cell s))))"
proof -
  let ?c = "length (ui_cells s)" and ?d = "length (ui_deferreds s)"
  let ?s1 = "snd (new_cell s)"
  have "ui_fade ?s1" "in_page m ?s1" using assms(1,2) by (simp_all add: bounded_objects_def new_cell_def in_page_def)
  from row_waits [OF this, of ?c i e "file"] have
    v: "deferred_view (answer_row ?c i e file m ?s1) =
      deferred_view ((next_deferred ?c ?s1)\<lparr>ui_pending := ui_pending ?s1 @ [(m, [m], Replace ?c file i e)]\<rparr>)" .
  define t where "t = answer_row ?c i e file m ?s1"
  have "ui_deferreds t = ui_deferreds s @ [False]" "ui_finished t = ui_finished s @ [?d]" "ui_whens t = []"
    "ui_cells t = ui_cells s @ [Some ?d]" "ui_bar t = ui_bar s" "stops t = stops s"
    using v assms(3)
    by (simp_all add: t_def deferred_view_def next_deferred_def new_cell_def addFinishedDeferreds_def stops_def Let_def)
  then show ?thesis
    using assms(1) unfolding t_def [symmetric]
    by (auto simp: lost_def next_deferred_def addFinishedDeferreds_def stops_def bounded_objects_def nth_append Let_def)
qed

text \<open>
  When rows fade, a finished set of two files or more keeps the event \<open>stopped\<close> from ever
  being triggered until the next start: the callbacks of the rows share one variable, so that only the
  deferred object of the last row is resolved.
\<close>

theorem stopped_lost:
  assumes "s = ui_run es (ui_created inp True bar)" and "i < length (ui_sets s)"
    and "us_context (ui_sets s ! i) = Some (m # n # ns)" and "in_page m s" and "ui_whens s = []"
    and "Callback False Start \<notin> set later"
  shows "stops (ui_run later (ui_step (Callback False (Done i result)) s)) = stops s"
proof -
  have b: "bounded_objects True s" unfolding assms(1) by (rule bounded_run [OF bounded_created])
  let ?c = "length (ui_cells s)" and ?d = "length (ui_deferreds s)" and ?fs = "getFilesFromResponse result"
  let ?f = "\<lambda>(j, n). answer_row ?c (Some i) Completed (answer_for ?fs j) n"
  let ?t = "answer_row ?c (Some i) Completed (answer_for ?fs 0) m (snd (new_cell s))"
  obtain rest where rest: "enumerated (m # n # ns) = (0, m) # (1, n) # rest"
    by (simp add: enumerated_def upt_conv_Cons del: upt.simps)
  have "lost ?d (stops s) (next_deferred ?c ?t)" by (rule lost_begins [OF b assms(4,5)])
  then have "lost ?d (stops s) (answer_row ?c (Some i) Completed (answer_for ?fs 1) n ?t)"
    unfolding answer_row_def by (rule lost_object.start_row)
  then have "lost ?d (stops s) (fold ?f rest (answer_row ?c (Some i) Completed (answer_for ?fs 1) n ?t))"
    by (rule lost_object.each [rotated]) (auto intro: lost_object.rows)
  moreover have "ui_done i result s = fold ?f ((0, m) # (1, n) # rest) (snd (new_cell s))"
    using assms(3) rest by (simp add: ui_done_def new_cell_def Let_def)
  ultimately have "lost ?d (stops s) (ui_step (Callback False (Done i result)) s)" using assms(2) by simp
  from lost_object.run [OF this assms(6)] show ?thesis by (simp add: lost_def)
qed

definition two_files :: "ui_file list" where
  "two_files = [\<lparr>uf_name = Some ''a'', uf_size = None, uf_error = []\<rparr>, \<lparr>uf_name = Some ''b'', uf_size = None, uf_error = []\<rparr>]"

definition two_rows :: ui where
  "two_rows = ui_run [Callback False (Add two_files None False), Callback False Start, TransitionEnd 0] (ui_created True True False)"

definition two_ended :: ui where
  "two_ended = ui_run [TransitionEnd 0, TransitionEnd 1, TransitionEnd 2, TransitionEnd 3, Callback False Stop]
     (ui_step (Callback False (Done 0 (Some two_files))) two_rows)"

lemma stopped_lost_witness:
  "stops two_ended = 0 \<and> ui_pending two_ended = [] \<and> ui_bar two_ended = [] \<and> map r_upload (ui_rows two_ended) = [False, False]"
proof -
  have "us_context (ui_sets two_rows ! 0) = Some [0, 1] \<and> length (ui_sets two_rows) = 1 \<and> in_page 0 two_rows \<and> ui_whens two_rows = []"
    by code_simp
  then have "stops two_ended = stops two_rows"
    unfolding two_ended_def by (intro stopped_lost [OF two_rows_def, where m = 0 and n = 1 and ns = "[]"]) simp_all
  moreover have "stops two_rows = 0" by code_simp
  moreover have "ui_pending two_ended = [] \<and> ui_bar two_ended = [] \<and> map r_upload (ui_rows two_ended) = [False, False]" by code_simp
  ultimately show ?thesis by simp
qed

end
