(* ===== verification/UploadUiRows.thy ===== *)
theory UploadUiRows
  imports UploadUiProps
begin

text \<open>
  The rows of the upload interface when transitions end at once: in every run rows have their own nodes, the
  contexts of sets name existing or former nodes, and an answer takes the places of the rows of its set.
\<close>

section \<open>Nodes\<close>

definition node_view where
  "node_view s = (ui_fade s, ui_pending s, map r_node (ui_rows s), ui_node s, map us_context (ui_sets s))"

definition nodes_ok :: "ui \<Rightarrow> bool" where
  "nodes_ok s \<longleftrightarrow>
     \<not> ui_fade s \<and> ui_pending s = [] \<and> (\<forall>n\<in>set (map r_node (ui_rows s)). n < ui_node s) \<and>
     (\<forall>ns. Some ns \<in> set (map us_context (ui_sets s)) \<longrightarrow> distinct ns \<and> (\<forall>n\<in>set ns. n < ui_node s))"

named_theorems node_frame "operations that leave nodes and contexts alone"

lemma nodes_frame: "node_view t = node_view s \<Longrightarrow> nodes_ok s \<Longrightarrow> nodes_ok t"
  by (simp add: node_view_def nodes_ok_def)

lemma map_node_update: "(\<And>r. r_node (f r) = r_node r) \<Longrightarrow> map r_node (map (\<lambda>r. if P r then f r else r) rows) = map r_node rows"
  by (induction rows) simp_all

lemma node_rows [node_frame]:
  "(\<And>r. r_node (f r) = r_node r) \<Longrightarrow> node_view (upd_row n f s) = node_view s" "node_view (toggle_in ns s) = node_view s"
  by (simp_all add: node_view_def upd_row_def toggle_in_def map_node_update del: map_map)

lemma node_deferred [node_frame]:
  "node_view (log_entry e s) = node_view s" "node_view (resolve d s) = node_view s" "node_view (resolve_cell c s) = node_view s"
  "node_view (next_deferred c s) = node_view s" "node_view (snd (new_cell s)) = node_view s"
  "node_view (snd (addFinishedDeferreds s)) = node_view s" "node_view (when_finished s) = node_view s"
  by (simp_all add: node_view_def log_entry_def resolve_def resolve_cell_def next_deferred_def new_cell_def addFinishedDeferreds_def
      when_finished_def Let_def split: option.split)

lemma node_bar [node_frame]: "node_view (bar_done c s) = node_view s"
  by (cases c) (simp_all add: bar_done_def log_entry_def resolve_def node_view_def Let_def)

lemma node_fold [node_frame]: "(\<And>x s. node_view (f x s) = node_view s) \<Longrightarrow> node_view (fold f xs s) = node_view s"
  by (induction xs arbitrary: s) simp_all

lemma node_each [node_frame]: "(\<And>j n s. node_view (f j n s) = node_view s) \<Longrightarrow> node_view (each_context i f s) = node_view s"
  by (auto simp: each_context_def intro!: node_fold split: option.split)

lemma node_update [node_frame]:
  "node_view (s\<lparr>ui_progress := p\<rparr>) = node_view s" "node_view (s\<lparr>ui_extended := x\<rparr>) = node_view s"
  "node_view (s\<lparr>ui_processing := b\<rparr>) = node_view s" "node_view (s\<lparr>ui_bar := cs\<rparr>) = node_view s"
  "node_view (s\<lparr>ui_finished := ds\<rparr>) = node_view s" "node_view (s\<lparr>ui_toggle := b\<rparr>) = node_view s"
  by (simp_all add: node_view_def)

lemma node_callbacks [node_frame]:
  "node_view (ui_processed i accepted errors s) = node_view s" "node_view (ui_send i s) = node_view s"
  "node_view (ui_progress_event i loaded whole s) = node_view s" "node_view (ui_progressall bits loaded whole s) = node_view s"
  "node_view (ui_start s) = node_view s" "node_view (ui_stop s) = node_view s" "node_view (bar_end s) = node_view s"
  "node_view (startHandler n s) = node_view s" "node_view (enable s) = node_view s" "node_view (disable s) = node_view s"
  "node_view (toggle_all b s) = node_view s"
proof -
  show "node_view (ui_processed i accepted errors s) = node_view s"
    by (simp add: ui_processed_def Let_def node_frame)
  show "node_view (ui_send i s) = node_view s" by (simp add: ui_send_def node_frame)
  show "node_view (ui_progress_event i loaded whole s) = node_view s" by (simp add: ui_progress_event_def node_frame)
  show "node_view (ui_progressall bits loaded whole s) = node_view s" by (simp add: ui_progressall_def node_frame)
  show "node_view (ui_start s) = node_view s"
    by (simp add: ui_start_def bar_transition_def resetFinishedDeferreds_def node_frame)
  show "node_view (ui_stop s) = node_view s"
    by (simp add: ui_stop_def bar_transition_def node_frame case_prod_unfold Let_def)
  show "node_view (bar_end s) = node_view s" by (simp add: bar_end_def node_frame)
  show "node_view (startHandler n s) = node_view s" by (simp add: startHandler_def node_frame Let_def split: option.split)
  show "node_view (enable s) = node_view s" "node_view (disable s) = node_view s" "node_view (toggle_all b s) = node_view s"
    by (simp_all add: enable_def disable_def toggle_all_def node_view_def comp_def)
qed

section \<open>Operations that change them\<close>

lemma nodes_set_context:
  assumes "nodes_ok s" and "distinct ns" and "\<forall>n\<in>set ns. n < ui_node s"
  shows "nodes_ok (set_context i ns s)"
proof (cases i)
  case (Some j)
  have "us_context x = Some ns \<or> x \<in> set (ui_sets s)"
    if "x \<in> set ((ui_sets s)[j := (ui_sets s ! j)\<lparr>us_context := Some ns\<rparr>])" for x
    using that set_update_subset_insert [of "ui_sets s" j "(ui_sets s ! j)\<lparr>us_context := Some ns\<rparr>"] by auto
  with assms Some show ?thesis by (fastforce simp: nodes_ok_def set_context_def image_iff)
qed (use assms in \<open>simp add: set_context_def\<close>)

lemma nodes_finish:
  assumes "nodes_ok s" and "distinct ns" and "\<forall>n\<in>set ns. n < ui_node s"
  shows "nodes_ok (finish_rows c i e ns s)"
  unfolding finish_rows_def Let_def
  by (rule nodes_frame [OF _ nodes_set_context [OF assms]]) (simp add: node_frame)

text \<open>The row that takes the place of another one; \<open>node_rows_of\<close> is what the page shows.\<close>

definition shown_rows :: "ui \<Rightarrow> (nat \<times> bool \<times> ui_file) list" where
  "shown_rows s = map (\<lambda>r. (r_node r, r_upload r, r_file r)) (ui_rows s)"

definition put_row :: "nat \<Rightarrow> nat \<Rightarrow> ui_file \<Rightarrow> ui \<Rightarrow> ui" where
  "put_row n m file s = (upd_row n (\<lambda>r. render_row (ui_disabled_start s) False None file m) s)\<lparr>ui_node := m + 1\<rparr>"

lemma nodes_put: "nodes_ok s \<Longrightarrow> nodes_ok (put_row n (ui_node s) file s)"
  by (fastforce simp: nodes_ok_def put_row_def upd_row_def render_row_def)

lemma nodes_fade: "nodes_ok s \<Longrightarrow> \<not> ui_fade s"
  by (simp add: nodes_ok_def)

lemma replace_now:
  assumes "\<not> ui_fade s"
  shows "replace_row n c file i e s = finish_rows c i e [ui_node s] (toggle_in [ui_node s] (put_row n (ui_node s) file s))"
  using assms by (simp add: replace_row_def put_row_def transition_now upd_row_def Let_def)

lemma nodes_replace: "nodes_ok s \<Longrightarrow> nodes_ok (replace_row n c file i e s)"
proof -
  assume s: "nodes_ok s"
  have "nodes_ok (toggle_in [ui_node s] (put_row n (ui_node s) file s))"
    by (rule nodes_frame [OF node_rows(2) nodes_put [OF s]])
  then show ?thesis
    unfolding replace_now [OF nodes_fade [OF s]] by (intro nodes_finish) (simp_all add: toggle_in_def put_row_def)
qed

lemma nodes_remove: "nodes_ok s \<Longrightarrow> nodes_ok (remove_row n s)"
  by (auto simp: nodes_ok_def remove_row_def)

lemma nodes_removed: "nodes_ok s \<Longrightarrow> nodes_ok (remove_failed n c i s)" "nodes_ok s \<Longrightarrow> nodes_ok (remove_destroyed n s)"
  unfolding remove_failed_def remove_destroyed_def Let_def
  by (rule nodes_frame [OF _ nodes_remove], simp add: node_frame, assumption)+

lemma start_now: "nodes_ok s \<Longrightarrow> start_transition n k s = run_cont n k (toggle_in [n] s)"
  using nodes_fade by (simp add: start_transition_def transition_now)

lemma nodes_toggle: "nodes_ok s \<Longrightarrow> nodes_ok (toggle_in ns s)"
  by (rule nodes_frame [OF node_rows(2)])

lemma nodes_next: "nodes_ok s \<Longrightarrow> nodes_ok (next_deferred c s)"
  by (rule nodes_frame [OF node_deferred(4)])

lemma nodes_rows:
  "nodes_ok s \<Longrightarrow> nodes_ok (answer_row c i e file n s)" "nodes_ok s \<Longrightarrow> nodes_ok (abort_row c i n s)"
  by (simp_all add: answer_row_def abort_row_def start_now nodes_next nodes_toggle nodes_replace nodes_removed)

lemma nodes_each: "(\<And>x s. nodes_ok s \<Longrightarrow> nodes_ok (f x s)) \<Longrightarrow> nodes_ok s \<Longrightarrow> nodes_ok (fold f xs s)"
  by (induction xs arbitrary: s) simp_all

lemma nodes_render:
  assumes "render up i fs s = (ns, t)" and "nodes_ok s"
  shows "nodes_ok t \<and> distinct ns \<and> (\<forall>n\<in>set ns. n < ui_node t)"
proof -
  have "ns = map (\<lambda>j. ui_node s + j) [0..<length fs]" "ui_node t = ui_node s + length fs" "ui_fade t = ui_fade s"
    "ui_pending t = ui_pending s" "ui_sets t = ui_sets s"
    using assms(1) by (auto simp: render_def Let_def)
  moreover have "set (map r_node (ui_rows t)) \<subseteq> set (map r_node (ui_rows s)) \<union> (\<lambda>j. ui_node s + j) ` {..<length fs}"
    using assms(1) by (cases "ui_prepend s") (auto simp: render_def render_row_def enumerated_def Let_def set_zip)
  ultimately show ?thesis using assms(2) by (fastforce simp: nodes_ok_def distinct_map inj_on_def)
qed

lemma nodes_added:
  assumes "nodes_ok s" and "distinct ns" and "\<forall>n\<in>set ns. n < ui_node s"
  shows "nodes_ok (transition ns (Finish c i e ns) (finish_rows c i e ns) (next_deferred c s))"
proof -
  have "ui_node (toggle_in ns (next_deferred c s)) = ui_node s" "ui_node (next_deferred c s) = ui_node s"
    using node_rows(2) [of ns "next_deferred c s"] node_deferred(4) [of c s] by (simp_all add: node_view_def)
  moreover have "nodes_ok (next_deferred c s)" "nodes_ok (toggle_in ns (next_deferred c s))"
    using assms(1) by (simp_all add: nodes_next nodes_toggle)
  ultimately show ?thesis using assms nodes_fade [OF assms(1)] by (simp add: transition_now nodes_finish)
qed

section \<open>Every run\<close>

lemma nodes_done: "nodes_ok s \<Longrightarrow> nodes_ok (ui_done i result s)"
proof -
  assume s: "nodes_ok s"
  obtain c s1 where n: "new_cell s = (c, s1)" by fastforce
  then have s1: "nodes_ok s1" using nodes_frame [OF node_deferred(5) s] by simp
  obtain ns s2 where r: "render False None (getFilesFromResponse result) s1 = (ns, s2)" by fastforce
  show ?thesis
    using s1 nodes_added nodes_render [OF r s1]
    by (auto simp: ui_done_def n r Let_def intro!: nodes_each nodes_rows split: option.split)
qed

lemma nodes_fail_row: "nodes_ok s \<Longrightarrow> nodes_ok (fail_row i c err j n s)"
proof -
  assume s: "nodes_ok s"
  have "node_view (s\<lparr>ui_sets := (ui_sets s)[i := (ui_sets s ! i)\<lparr>us_files := fs\<rparr>]\<rparr>) = node_view s" for fs
    by (cases "i < length (ui_sets s)") (simp_all add: node_view_def map_update list_update_same_conv list_update_beyond)
  from nodes_frame [OF this s] show ?thesis using s by (auto simp: fail_row_def Let_def intro!: nodes_rows)
qed

lemma nodes_fail: "nodes_ok s \<Longrightarrow> nodes_ok (ui_fail i err s)"
proof -
  assume s: "nodes_ok s"
  obtain c s1 where n: "new_cell s = (c, s1)" by fastforce
  then have s1: "nodes_ok s1" using nodes_frame [OF node_deferred(5) s] by simp
  obtain ns s2 where r: "render True (Some i) (us_files (ui_sets s1 ! i)) s1 = (ns, s2)" by fastforce
  have s2: "nodes_ok s2" "distinct ns" "\<forall>n\<in>set ns. n < ui_node s2" using nodes_render [OF r s1] by auto
  have "ui_node (set_context (Some i) ns s2) = ui_node s2" by (simp add: set_context_def)
  then have a: "nodes_ok (transition ns (Finish c (Some i) Failed ns) (finish_rows c (Some i) Failed ns)
      (next_deferred c (set_context (Some i) ns s2)))"
    using nodes_added [OF nodes_set_context [OF s2]] s2 by simp
  let ?l = "log_entry (Trigger ''finished'' (Some i)) (log_entry (Trigger ''failed'' (Some i)) s1)"
  have "nodes_ok (case addFinishedDeferreds ?l of (d, s) \<Rightarrow> resolve d s)"
    by (rule nodes_frame [OF _ s1]) (simp add: node_frame case_prod_unfold)
  with s1 a show ?thesis
    by (auto simp: ui_fail_def n r Let_def intro!: nodes_each nodes_rows nodes_fail_row split: option.split)
qed

lemma nodes_add: "nodes_ok s \<Longrightarrow> nodes_ok (ui_add fs auto iframe s)"
proof -
  assume s: "nodes_ok s"
  obtain ns s1 where r: "render True (Some (length (ui_sets s))) fs s = (ns, s1)" by fastforce
  let ?s2 = "s1\<lparr>ui_sets := ui_sets s1 @ [\<lparr>us_files = fs, us_context = Some ns, us_autoUpload = auto, us_iframe = iframe\<rparr>]\<rparr>"
  have s2: "nodes_ok ?s2" using nodes_render [OF r s] by (auto simp: nodes_ok_def)
  let ?s3 = "fold (\<lambda>n. upd_row n (\<lambda>r. r\<lparr>r_processing := True\<rparr>)) ns ?s2"
  have "nodes_ok ?s3" by (rule nodes_frame [OF _ s2]) (simp add: node_frame)
  then show ?thesis
    by (cases ns) (use s2 in \<open>simp_all add: ui_add_def r Let_def transition_now nodes_fade nodes_toggle del: fold_simps\<close>)
qed

lemma nodes_destroy:
  "nodes_ok s \<Longrightarrow> nodes_ok (ui_destroy n has_url s)" "nodes_ok s \<Longrightarrow> nodes_ok (destroy_answered n ok s)"
  using nodes_frame [OF node_deferred(1)]
  by (simp_all add: ui_destroy_def destroy_answered_def start_now nodes_toggle nodes_removed)

lemma nodes_handlers:
  "nodes_ok s \<Longrightarrow> nodes_ok (cancelHandler n s)" "nodes_ok s \<Longrightarrow> nodes_ok (deleteHandler n has_url s)"
proof -
  assume s: "nodes_ok s"
  obtain c s1 where n: "new_cell s = (c, s1)" by fastforce
  have s1: "nodes_ok s1" using nodes_frame [OF node_deferred(5) s] by (simp add: n)
  have "n < ui_node s" if "row_of n s = Some r" for r
    using that s by (auto simp: row_of_def find_Some_iff nodes_ok_def)
  then have "row_of n s = Some r \<Longrightarrow> nodes_ok (set_context i [n] s)" for i r
    using s by (intro nodes_set_context) simp_all
  then show "nodes_ok (cancelHandler n s)"
    using s nodes_rows(2) [OF s1] nodes_frame [OF node_deferred(1)]
    by (auto simp: cancelHandler_def n split: option.split)
  show "nodes_ok (deleteHandler n has_url s)" using s by (simp add: deleteHandler_def nodes_destroy split: option.split)
qed

lemma nodes_callback: "nodes_ok s \<Longrightarrow> nodes_ok (run_callback k s)"
  by (cases k) (auto simp: nodes_add nodes_done nodes_fail nodes_destroy
      intro: nodes_frame [OF node_callbacks(2)] nodes_frame [OF node_callbacks(3)] nodes_frame [OF node_callbacks(4)]
        nodes_frame [OF node_callbacks(5)] nodes_frame [OF node_callbacks(6)] nodes_frame [OF node_update(3)])

lemma nodes_event: "nodes_ok s \<Longrightarrow> nodes_ok (ui_step e s)"
proof (cases e)
  case (TransitionEnd n)
  assume s: "nodes_ok s"
  then have "s\<lparr>ui_pending := []\<rparr> = s" by (simp add: nodes_ok_def)
  with s TransitionEnd show ?thesis by (simp add: transition_end_def nodes_ok_def)
qed (auto simp: nodes_callback nodes_destroy nodes_handlers start_all_def cancel_all_def delete_checked_def
    intro!: nodes_each nodes_handlers nodes_frame [OF node_callbacks(8)] nodes_frame [OF node_update(6)]
    intro: nodes_frame [OF node_callbacks(1)] nodes_frame [OF node_callbacks(7)] nodes_frame [OF node_callbacks(9)]
      nodes_frame [OF node_callbacks(10)] nodes_frame [OF node_callbacks(11)])

lemma nodes_run: "nodes_ok s \<Longrightarrow> nodes_ok (ui_run es s)"
  by (induction es arbitrary: s) (simp_all add: ui_run_def nodes_event del: ui_step.simps)

section \<open>Answers take the places of the rows\<close>

lemma shown_frame:
  "shown_rows (log_entry x s) = shown_rows s" "shown_rows (resolve d s) = shown_rows s" "shown_rows (resolve_cell c s) = shown_rows s"
  "shown_rows (next_deferred c s) = shown_rows s" "shown_rows (set_context i ns s) = shown_rows s"
  "shown_rows (toggle_in ns s) = shown_rows s" "shown_rows (finish_rows c i e ns s) = shown_rows s"
  by (auto simp: shown_rows_def log_entry_def resolve_def resolve_cell_def next_deferred_def addFinishedDeferreds_def set_context_def
      toggle_in_def finish_rows_def Let_def split: option.split)

lemma node_same:
  assumes "node_view t = node_view s"
  shows "ui_node t = ui_node s"
  using assms by (simp add: node_view_def)

lemma shown_answer:
  assumes "nodes_ok s"
  shows "shown_rows (answer_row c i e file n s) = map (\<lambda>(m, u, f). if m = n then (ui_node s, False, file) else (m, u, f)) (shown_rows s)"
    and "ui_node (answer_row c i e file n s) = ui_node s + 1"
proof -
  let ?t = "toggle_in [n] (next_deferred c s)"
  have t: "nodes_ok ?t" using assms by (simp add: nodes_toggle nodes_next)
  have nt: "ui_node ?t = ui_node s" by (rule node_same) (simp add: node_frame)
  have a: "answer_row c i e file n s = finish_rows c i e [ui_node s] (toggle_in [ui_node s] (put_row n (ui_node s) file ?t))"
    using assms replace_now [OF nodes_fade [OF t], of n c "file" i e] by (simp add: answer_row_def start_now nodes_next nt)
  have "shown_rows (put_row n m file s) = map (\<lambda>(k, u, f). if k = n then (m, False, file) else (k, u, f)) (shown_rows s)" for m s
    by (auto simp: shown_rows_def put_row_def upd_row_def render_row_def)
  then show "shown_rows (answer_row c i e file n s) = map (\<lambda>(m, u, f). if m = n then (ui_node s, False, file) else (m, u, f)) (shown_rows s)"
    by (simp add: a shown_frame)
  show "ui_node (answer_row c i e file n s) = ui_node s + 1"
    by (simp add: a finish_rows_def set_context_def resolve_cell_def resolve_def log_entry_def toggle_in_def put_row_def Let_def split: option.split)
qed

lemma shown_answers:
  assumes "nodes_ok s" and "\<forall>(j, n)\<in>set xs. n < ui_node s" and "distinct (map snd xs)"
  shows "map snd (shown_rows (fold (\<lambda>(j, n). answer_row c i e (answer j) n) xs s)) =
    map (\<lambda>(m, u, f). case map_of (map (\<lambda>(j, n). (n, j)) xs) m of Some j \<Rightarrow> (False, answer j) | None \<Rightarrow> (u, f)) (shown_rows s)"
  using assms
proof (induction xs arbitrary: s)
  case (Cons x xs)
  obtain j n where x: "x = (j, n)" by fastforce
  let ?t = "answer_row c i e (answer j) n s" and ?m = "map_of (map (\<lambda>(j, n). (n, j)) xs)"
  have t: "nodes_ok ?t" by (rule nodes_rows(1) [OF Cons.prems(1)])
  have "\<forall>(j, n)\<in>set xs. n < ui_node ?t" "distinct (map snd xs)"
    using Cons.prems(2,3) shown_answer(2) [OF Cons.prems(1)] by auto
  note IH = Cons.IH [OF t this]
  have "?m (ui_node s) = None" "?m n = None"
    using Cons.prems(2,3) by (fastforce simp: map_of_eq_None_iff x image_iff)+
  then show ?case
    unfolding fold_simps x comp_def prod.case IH shown_answer(1) [OF Cons.prems(1)]
    by (auto simp: comp_def)
qed (auto simp: comp_def)

text \<open>
  C22: when transitions end at once, the answer of the server to a set takes the places of the
  rows of the set: each row becomes the download row of the file the answer has for it, or of an error
  where the answer has none, and all other rows and the order stay.
\<close>

theorem rows_answered:
  assumes "s = ui_run es (ui_created inp False bar)" and "i < length (ui_sets s)" and "us_context (ui_sets s ! i) = Some ns"
  shows "map (\<lambda>r. (r_upload r, r_file r)) (ui_rows (ui_step (Callback False (Done i result)) s)) =
    map (\<lambda>r. case map_of (zip ns [0..<length ns]) (r_node r) of
               Some j \<Rightarrow> (False, answer_for (getFilesFromResponse result) j)
             | None \<Rightarrow> (r_upload r, r_file r)) (ui_rows s)"
proof -
  have "nodes_ok (ui_created inp False bar)"
    by (simp add: nodes_ok_def ui_created_def resetFinishedDeferreds_def)
  then have s: "nodes_ok s" unfolding assms(1) by (rule nodes_run)
  have "Some ns \<in> set (map us_context (ui_sets s))" using assms(2,3) by (metis length_map nth_map nth_mem)
  then have ns: "distinct ns" "\<forall>n\<in>set ns. n < ui_node s" using s by (auto simp only: nodes_ok_def)
  obtain c s1 where c: "new_cell s = (c, s1)" by fastforce
  then have s1: "nodes_ok s1" "shown_rows s1 = shown_rows s" "ui_sets s1 = ui_sets s" "ui_node s1 = ui_node s"
    using nodes_frame [OF node_deferred(5) s] by (auto simp: new_cell_def shown_rows_def)
  have z: "map (\<lambda>(j, n). (n, j)) (enumerated ns) = zip ns [0..<length ns]"
    by (simp add: enumerated_def zip_commute [of ns])
  have "distinct (map snd (enumerated ns))" "\<forall>(j, n)\<in>set (enumerated ns). n < ui_node s1"
    using ns s1(4) by (auto simp: enumerated_def dest: set_zip_rightD)
  from shown_answers [OF s1(1) this(2,1), of c "Some i" Completed "answer_for (getFilesFromResponse result)"]
  have "map snd (shown_rows (ui_done i result s)) =
    map (\<lambda>(m, u, f). case map_of (zip ns [0..<length ns]) m of Some j \<Rightarrow> (False, answer_for (getFilesFromResponse result) j) | None \<Rightarrow> (u, f))
      (shown_rows s)"
    using assms(3) s1(2,3) by (simp add: ui_done_def c z Let_def)
  then show ?thesis using assms(2) by (simp add: shown_rows_def comp_def)
qed

definition one_answer :: ui where
  "one_answer = ui_step (Callback False (Done 0 (Some [hd two_files]))) (ui_run [Callback False (Add two_files None False)] (ui_created True False False))"

lemma rows_answered_witness:
  "map (\<lambda>r. (r_upload r, uf_error (r_file r))) (ui_rows one_answer) = [(False, []), (False, ''Empty file upload result'')]"
proof -
  let ?s = "ui_run [Callback False (Add two_files None False)] (ui_created True False False)"
  have s: "0 < length (ui_sets ?s)" "us_context (ui_sets ?s ! 0) = Some [0, 1]" by code_simp+
  from arg_cong [OF rows_answered [OF refl s, of "Some [hd two_files]"], of "map (\<lambda>(u, f). (u, uf_error f))"]
  have "map (\<lambda>r. (r_upload r, uf_error (r_file r))) (ui_rows one_answer) =
    map (\<lambda>(u, f). (u, uf_error f)) (map (\<lambda>r. case map_of (zip [0, 1] [0..<length [0, 1 :: nat]]) (r_node r) of
               Some j \<Rightarrow> (False, answer_for (getFilesFromResponse (Some [hd two_files])) j)
             | None \<Rightarrow> (r_upload r, r_file r)) (ui_rows ?s))"
    by (simp add: one_answer_def comp_def)
  also have "\<dots> = [(False, []), (False, ''Empty file upload result'')]" by code_simp
  finally show ?thesis .
qed

end
