(* ===== verification/MessageCenter.thy ===== *)
theory MessageCenter
  imports GVerify
begin

text \<open>
  The message centers of the prototype pages (\<open>messagecenter.js\<close>): what the script finds out about the
  browser, and the centers of a page and its frames, which deliver every message to all of them. The
  listeners of a center are names, and a call is recorded with its arguments; they do not post messages
  themselves. A page without an accessible center (another domain, no \<open>$axure\<close>) is \<open>Foreign\<close>; the
  frames below it have a top of their own.
\<close>

section \<open>The browser\<close>

record browser_env =
  be_agent :: string
  be_platform :: string
  be_location :: string
  be_jquery :: "(bool \<times> nat) option"  \<comment> \<open>\<open>$.browser\<close>: whether \<open>msie\<close>, and the major version\<close>

record browser_flags =
  CHROME :: bool
  CHROME_5_LOCAL :: bool
  SAFARI :: bool
  FIREFOX :: bool
  WEBKIT :: bool
  OS_MAC :: bool
  IOS :: bool
  ANDROID :: bool
  MOBILE_DEVICE :: bool
  IE :: bool
  IE_10_AND_BELOW :: bool
  BROWSER_VERSION :: nat
  isEdge :: bool

text \<open>A search for a pattern looks at every suffix of the text.\<close>

fun search :: "(string \<Rightarrow> 'a option) \<Rightarrow> string \<Rightarrow> 'a option" where
  "search m [] = m []"
| "search m (c # cs) = (case m (c # cs) of Some x \<Rightarrow> Some x | None \<Rightarrow> search m cs)"

definition after :: "string \<Rightarrow> string \<Rightarrow> string option" where
  "after pat s = (if take (length pat) s = pat then Some (drop (length pat) s) else None)"

definition mentions :: "string \<Rightarrow> string \<Rightarrow> bool" where
  "mentions pat s \<longleftrightarrow> search (after pat) s \<noteq> None"

definition mentions_nocase :: "string \<Rightarrow> string \<Rightarrow> bool" where
  "mentions_nocase pat s \<longleftrightarrow> mentions (to_lower pat) (to_lower s)"

text \<open>A word followed by a slash and a digit, as in \<open>/Edge\/([0-9]+)/\<close>.\<close>

definition versioned :: "string \<Rightarrow> string \<Rightarrow> bool" where
  "versioned pat s \<longleftrightarrow>
     search (\<lambda>t. case after pat t of Some (c # cs) \<Rightarrow> if is_digit c then Some () else None | _ \<Rightarrow> None) s \<noteq> None"

text \<open>
  \<open>/Chrome\/([0-9]+).([0-9]+)/\<close>: the first group takes as many digits as leave any character and then
  a digit.
\<close>

fun chrome_digits :: "nat \<Rightarrow> string \<Rightarrow> string option" where
  "chrome_digits 0 s = None"
| "chrome_digits (Suc n) s =
     (case drop (Suc n) s of
        c # d # cs \<Rightarrow> if is_digit d \<and> c \<noteq> CHR 0x0A \<and> c \<noteq> CHR 0x0D then Some (take (Suc n) s) else chrome_digits n s
      | _ \<Rightarrow> chrome_digits n s)"

definition chrome_version :: "string \<Rightarrow> string option" where
  "chrome_version agent =
     search (\<lambda>t. case after ''Chrome/'' t of
        Some rest \<Rightarrow> chrome_digits (length (takeWhile is_digit rest)) rest
      | None \<Rightarrow> None) agent"

definition sniff :: "browser_env \<Rightarrow> browser_flags" where
  "sniff b =
     (let agent = be_agent b;
          edge = versioned ''Edge/'' agent;
          match = (if edge then None else chrome_version agent);
          ios = mentions_nocase ''iPhone'' agent \<or> mentions_nocase ''iPad'' agent \<or> mentions_nocase ''iPod'' agent;
          android = mentions_nocase ''Android'' agent;
          old_ie = (case be_jquery b of Some (msie, v) \<Rightarrow> msie | None \<Rightarrow> False);
          new_ie = (case be_jquery b of Some (msie, v) \<Rightarrow> \<not> msie \<and> mentions ''trident'' (to_lower agent) | None \<Rightarrow> False)
      in \<lparr>CHROME = match \<noteq> None,
          CHROME_5_LOCAL = (case match of Some ds \<Rightarrow> 5 \<le> dec_val ds \<and> mentions ''file://'' (be_location b) | None \<Rightarrow> False),
          SAFARI = versioned ''Safari/'' agent \<and> match = None,
          FIREFOX = mentions ''firefox'' (to_lower agent), WEBKIT = mentions ''WebKit/'' agent,
          OS_MAC = mentions ''Mac'' (be_platform b), IOS = ios, ANDROID = android,
          MOBILE_DEVICE = android \<or> ios \<or> mentions_nocase ''webOS'' agent \<or> mentions_nocase ''BlackBerry'' agent \<or>
            mentions_nocase ''Tablet PC'' agent \<or> mentions_nocase ''Windows Phone'' agent,
          IE = old_ie \<or> new_ie, IE_10_AND_BELOW = old_ie,
          BROWSER_VERSION = (case be_jquery b of Some (msie, v) \<Rightarrow> v | None \<Rightarrow> 5000),
          isEdge = edge\<rparr>)"

definition preview_server :: "string \<Rightarrow> bool" where
  "preview_server address \<longleftrightarrow>
     search (\<lambda>t. case after ''http://127.0.0.1:'' t of
        Some rest \<Rightarrow> if length (takeWhile is_digit rest) \<ge> 5 then Some () else None
      | None \<Rightarrow> None) address \<noteq> None \<and>
     search (\<lambda>t. if length t \<ge> 8 \<and> is_digit (t ! 0) \<and> is_digit (t ! 1) \<and> t ! 2 = CHR ''.'' \<and> is_digit (t ! 3) \<and>
        is_digit (t ! 4) \<and> t ! 5 = CHR ''.'' \<and> is_digit (t ! 6) \<and> is_digit (t ! 7) then Some () else None) address \<noteq> None"

text \<open>The answer is computed once and kept.\<close>

definition shouldSendVarsToServer :: "browser_flags \<Rightarrow> string \<Rightarrow> string option \<Rightarrow> bool option \<Rightarrow> bool \<times> bool option" where
  "shouldSendVarsToServer b here given memo =
     (case memo of
        Some r \<Rightarrow> (r, memo)
      | None \<Rightarrow>
          let r = (SAFARI b \<or> IE_10_AND_BELOW b \<and> BROWSER_VERSION b < 10) \<and>
                  preview_server (case given of Some x \<Rightarrow> x | None \<Rightarrow> here)
          in (r, Some r))"

section \<open>Centers\<close>

datatype mdata =
  NoData
| Text string
| StateData string string  \<comment> \<open>key and value\<close>
| Batch "(string \<times> mdata) list"

type_synonym message = "string \<times> mdata"

record center =
  listeners :: "string list"
  stateListeners :: "(string \<times> string) list"  \<comment> \<open>key, empty for all, and listener\<close>
  state :: "(string \<times> string) list"
  queuedMessages :: "message list"
  initialized :: bool
  combineEventMessages :: bool
  compositeEventMessageData :: "message list"
  received :: "(string \<times> message) list"  \<comment> \<open>calls of listeners\<close>
  sender :: "message list"  \<comment> \<open>sent through the sender element\<close>

definition new_center :: center where
  "new_center =
     \<lparr>listeners = [], stateListeners = [], state = [], queuedMessages = [], initialized = False,
      combineEventMessages = False, compositeEventMessageData = [], received = [], sender = []\<rparr>"

definition addMessageListener :: "string \<Rightarrow> center \<Rightarrow> center" where
  "addMessageListener l c = c\<lparr>listeners := listeners c @ [l]\<rparr>"

definition addStateListener :: "string \<Rightarrow> string \<Rightarrow> center \<Rightarrow> center" where
  "addStateListener key l c = c\<lparr>stateListeners := stateListeners c @ [(key, l)]\<rparr>"

definition getState :: "string \<Rightarrow> center \<Rightarrow> string option" where
  "getState key c = map_of (state c) key"

definition startCombineEventMessages :: "center \<Rightarrow> center" where
  "startCombineEventMessages c = c\<lparr>combineEventMessages := True\<rparr>"

definition event_message :: "string \<Rightarrow> bool" where
  "event_message message \<longleftrightarrow> message \<in> {''axEvent'', ''axCase'', ''axAction'', ''axEventComplete''}"

text \<open>
  What \<open>postMessage\<close> does before it sends: the messages that are sent now, and the center with its
  collected events. A tenth event sends the collection.
\<close>

definition collect :: "message \<Rightarrow> center \<Rightarrow> message list \<times> center" where
  "collect m c =
     (if combineEventMessages c \<and> event_message (fst m)
      then let ms = compositeEventMessageData c @ [m]
           in if 10 \<le> length ms then ([(''axCompositeEventMessage'', Batch ms)], c\<lparr>compositeEventMessageData := []\<rparr>)
              else ([], c\<lparr>compositeEventMessageData := ms\<rparr>)
      else ([m], c))"

section \<open>Pages opened from files in Chrome\<close>

text \<open>The center sends through an element of the page, and waits until it has been initialized.\<close>

definition send_local :: "message \<Rightarrow> center \<Rightarrow> center" where
  "send_local m c =
     (if initialized c then c\<lparr>sender := sender c @ [m]\<rparr> else c\<lparr>queuedMessages := queuedMessages c @ [m]\<rparr>)"

definition postMessage_local :: "message \<Rightarrow> center \<Rightarrow> center" where
  "postMessage_local m c = (let (ms, c') = collect m c in fold send_local ms c')"

text \<open>A request that arrives. Only a center of this kind has queued messages.\<close>

definition set_state :: "message \<Rightarrow> center \<Rightarrow> center" where
  "set_state m c =
     (case m of
        (message, StateData key val) \<Rightarrow>
          if message = ''setState''
          then c\<lparr>state := (key, val) # state c,
                 received := received c @ map (\<lambda>(k, l). (l, key, Text val)) (filter (\<lambda>(k, l). k = [] \<or> k = key) (stateListeners c))\<rparr>
          else c
      | _ \<Rightarrow> c)"

definition handleRequest :: "message \<Rightarrow> center \<Rightarrow> center" where
  "handleRequest m c =
     (let c1 = c\<lparr>received := received c @ map (\<lambda>l. (l, m)) (listeners c)\<rparr>;
          c2 = (if fst m = ''initialize''
                then (fold postMessage_local (queuedMessages c1) (c1\<lparr>initialized := True\<rparr>))\<lparr>queuedMessages := []\<rparr>
                else c1)
      in set_state m c2)"

definition sendCompositeEventMessage_local :: "center \<Rightarrow> center" where
  "sendCompositeEventMessage_local c =
     (postMessage_local (''axCompositeEventMessage'', Batch (compositeEventMessageData c)) c)\<lparr>compositeEventMessageData := []\<rparr>"

definition endCombineEventMessages_local :: "center \<Rightarrow> center" where
  "endCombineEventMessages_local c = (sendCompositeEventMessage_local c)\<lparr>combineEventMessages := False\<rparr>"

section \<open>Pages with frames\<close>

datatype frame = Frame center "frame list" | Foreign

text \<open>The top of a page: its ancestors from the inside, as long as they are accessible.\<close>

definition top_window :: "bool list \<Rightarrow> nat" where
  "top_window accessible = length (takeWhile (\<lambda>a. a) accessible)"

fun dispatchMessageRecursively :: "message \<Rightarrow> frame \<Rightarrow> frame" where
  "dispatchMessageRecursively m (Frame c fs) = Frame (handleRequest m c) (map (dispatchMessageRecursively m) fs)"
| "dispatchMessageRecursively m Foreign = Foreign"

text \<open>A page of the tree is named by the positions of the frames that lead to it.\<close>

fun center_at :: "nat list \<Rightarrow> frame \<Rightarrow> center option" where
  "center_at [] (Frame c fs) = Some c"
| "center_at (i # is) (Frame c fs) = (if i < length fs then center_at is (fs ! i) else None)"
| "center_at is Foreign = None"

fun update_at :: "nat list \<Rightarrow> (center \<Rightarrow> center) \<Rightarrow> frame \<Rightarrow> frame" where
  "update_at [] f (Frame c fs) = Frame (f c) fs"
| "update_at (i # is) f (Frame c fs) = Frame c (if i < length fs then fs[i := update_at is f (fs ! i)] else fs)"
| "update_at is f Foreign = Foreign"

definition postMessage :: "nat list \<Rightarrow> message \<Rightarrow> frame \<Rightarrow> frame" where
  "postMessage w m t =
     (case center_at w t of
        None \<Rightarrow> t
      | Some c \<Rightarrow> let (ms, c') = collect m c in fold dispatchMessageRecursively ms (update_at w (\<lambda>_. c') t))"

definition sendCompositeEventMessage :: "nat list \<Rightarrow> frame \<Rightarrow> frame" where
  "sendCompositeEventMessage w t =
     (case center_at w t of
        None \<Rightarrow> t
      | Some c \<Rightarrow>
          update_at w (\<lambda>c. c\<lparr>compositeEventMessageData := []\<rparr>)
            (postMessage w (''axCompositeEventMessage'', Batch (compositeEventMessageData c)) t))"

definition endCombineEventMessages :: "nat list \<Rightarrow> frame \<Rightarrow> frame" where
  "endCombineEventMessages w t = update_at w (\<lambda>c. c\<lparr>combineEventMessages := False\<rparr>) (sendCompositeEventMessage w t)"

definition setState :: "nat list \<Rightarrow> string \<Rightarrow> string \<Rightarrow> frame \<Rightarrow> frame" where
  "setState w key val t = postMessage w (''setState'', StateData key val) t"

text \<open>The calls a page can make of its center.\<close>

datatype call =
  Post string mdata
| SetState string string
| StartCombine
| EndCombine
| AddListener string
| AddStateListener string string

fun call_center :: "nat list \<times> call \<Rightarrow> frame \<Rightarrow> frame" where
  "call_center (w, Post message d) t = postMessage w (message, d) t"
| "call_center (w, SetState key val) t = setState w key val t"
| "call_center (w, StartCombine) t = update_at w startCombineEventMessages t"
| "call_center (w, EndCombine) t = endCombineEventMessages w t"
| "call_center (w, AddListener l) t = update_at w (addMessageListener l) t"
| "call_center (w, AddStateListener key l) t = update_at w (addStateListener key l) t"

definition calls :: "(nat list \<times> call) list \<Rightarrow> frame \<Rightarrow> frame" where
  "calls cs t = fold call_center cs t"

section \<open>One shared state\<close>

fun centers :: "frame \<Rightarrow> center list" where
  "centers (Frame c fs) = c # concat (map centers fs)"
| "centers Foreign = []"

definition agree :: "(string \<times> string) list \<Rightarrow> frame \<Rightarrow> bool" where
  "agree s t \<longleftrightarrow> (\<forall>c\<in>set (centers t). state c = s)"

text \<open>What the calls writes, in a single map.\<close>

definition written :: "message \<Rightarrow> (string \<times> string) list \<Rightarrow> (string \<times> string) list" where
  "written m s = (case m of (message, StateData key val) \<Rightarrow> if message = ''setState'' then (key, val) # s else s | _ \<Rightarrow> s)"

fun writes :: "frame \<Rightarrow> nat list \<times> call \<Rightarrow> (string \<times> string) list \<Rightarrow> (string \<times> string) list" where
  "writes t (w, Post message d) s = (if center_at w t = None then s else written (message, d) s)"
| "writes t (w, SetState key val) s = (if center_at w t = None then s else (key, val) # s)"
| "writes t (w, c) s = s"

lemma send_local_frame [simp]: "state (send_local m c) = state c"
  by (simp add: send_local_def)

lemma fold_send_local_frame [simp]: "state (fold send_local ms c) = state c"
  by (induction ms arbitrary: c) auto

lemma collect_frame:
  assumes "collect m c = (ms, c')"
  shows "c' = c\<lparr>compositeEventMessageData := compositeEventMessageData c'\<rparr>"
    and "ms = [m] \<or> (event_message (fst m) \<and> (\<forall>x\<in>set ms. fst x = ''axCompositeEventMessage''))"
  using assms by (auto simp: collect_def Let_def split: if_splits)

lemma postMessage_local_frame [simp]: "state (postMessage_local m c) = state c"
proof -
  obtain ms c' where c: "collect m c = (ms, c')" by fastforce
  have "state c' = state c" by (subst collect_frame(1) [OF c]) simp
  with c show ?thesis by (simp add: postMessage_local_def)
qed

lemma fold_post_frame [simp]: "state (fold postMessage_local ms c) = state c"
  by (induction ms arbitrary: c) auto

lemma handleRequest_state: "state (handleRequest m c) = written m (state c)"
  by (cases m; cases "snd m") (auto simp: handleRequest_def set_state_def written_def Let_def)

lemma dispatch_agree: "agree s t \<Longrightarrow> agree (written m s) (dispatchMessageRecursively m t)"
  by (induction m t rule: dispatchMessageRecursively.induct) (auto simp: agree_def handleRequest_state)

lemma fold_dispatch_agree: "agree s t \<Longrightarrow> agree (fold written ms s) (fold dispatchMessageRecursively ms t)"
  by (induction ms arbitrary: s t) (auto simp: dispatch_agree)

lemma centers_list: "set (centers (Frame c fs)) = insert c (\<Union>f\<in>set fs. set (centers f))"
  by simp

lemma update_agree: "(\<And>c. state (f c) = state c) \<Longrightarrow> agree s t \<Longrightarrow> agree s (update_at w f t)"
proof (induction w f t rule: update_at.induct)
  case (2 i "is" f c fs)
  have sub: "agree s g" if "g \<in> set fs" for g
    using 2(3) that by (auto simp: agree_def)
  have "agree s g" if i: "i < length fs" and "g \<in> set (fs[i := update_at is f (fs ! i)])" for g
    using that set_update_subset_insert [of fs i "update_at is f (fs ! i)"] sub 2(1) [OF i 2(2) sub] by auto
  then have "agree s g" if "i < length fs" "g \<in> set (fs[i := update_at is f (fs ! i)])" for g
    using that by blast
  with 2(3) show ?case by (auto simp: agree_def)
qed (auto simp: agree_def)

lemma center_at_in: "center_at w t = Some c \<Longrightarrow> c \<in> set (centers t)"
proof (induction w t rule: center_at.induct)
  case (2 i "is" c fs)
  then show ?case by (auto split: if_splits)
qed auto

lemma center_at_update: "(center_at v (update_at w f t) = None) = (center_at v t = None)"
proof (induction w f t arbitrary: v rule: update_at.induct)
  case (1 f c fs)
  then show ?case by (cases v) auto
next
  case (2 i "is" f c fs)
  then show ?case by (cases v) (auto simp: nth_list_update)
qed auto

lemma center_at_dispatch:
  "center_at v (dispatchMessageRecursively m t) = map_option (handleRequest m) (center_at v t)"
  by (induction v t rule: center_at.induct) auto

lemma center_at_fold_dispatch: "(center_at v (fold dispatchMessageRecursively ms t) = None) = (center_at v t = None)"
  by (induction ms arbitrary: t) (auto simp: center_at_dispatch)

lemma postMessage_agree:
  assumes "agree s t"
  shows "agree (if center_at w t = None then s else written m s) (postMessage w m t)"
proof (cases "center_at w t")
  case None
  with assms show ?thesis by (simp add: postMessage_def)
next
  case (Some c)
  obtain ms c' where c: "collect m c = (ms, c')" by fastforce
  have w: "fold written ms s = written m s"
  proof (cases "ms = [m]")
    case False
    with collect_frame(2) [OF c] have e: "event_message (fst m)" "\<forall>x\<in>set ms. fst x = ''axCompositeEventMessage''" by auto
    have "fold written xs r = r" if "\<forall>x\<in>set xs. fst x = ''axCompositeEventMessage''" for xs r
      using that by (induction xs) (auto simp: written_def split: mdata.split)
    moreover have "written m s = s"
      using e(1) by (auto simp: written_def event_message_def split: prod.split mdata.split)
    ultimately show ?thesis using e(2) by simp
  qed simp
  have "state c' = s"
    using collect_frame(1) [OF c] center_at_in [OF Some] assms by (metis agree_def center.select_convs(3) center.surjective center.update_convs(7))
  have "agree s (update_at w (\<lambda>_. c') t)" if "center_at w t = Some c" "agree s t" for t
    using that
  proof (induction w t rule: center_at.induct)
    case (1 c fs)
    with \<open>state c' = s\<close> show ?case by (auto simp: agree_def)
  next
    case (2 i "is" d fs)
    have i: "i < length fs" "center_at is (fs ! i) = Some c" using 2(2) by (auto split: if_splits)
    have "agree s (fs ! i)" using 2(3) i(1) by (auto simp: agree_def)
    with 2(1) [OF i] have "agree s (update_at is (\<lambda>_. c') (fs ! i))" .
    with 2(3) i(1) set_update_subset_insert [of fs i "update_at is (\<lambda>_. c') (fs ! i)"] show ?case
      by (auto simp: agree_def)
  qed simp
  then have "agree s (update_at w (\<lambda>_. c') t)" using Some assms by blast
  then have "agree (written m s) (fold dispatchMessageRecursively ms (update_at w (\<lambda>_. c') t))"
    using fold_dispatch_agree [of s _ ms] w by metis
  with Some c show ?thesis by (simp add: postMessage_def)
qed

lemma sendComposite_agree: "agree s t \<Longrightarrow> agree s (sendCompositeEventMessage w t)"
proof (cases "center_at w t")
  case (Some c)
  assume "agree s t"
  with postMessage_agree [of s t w "(''axCompositeEventMessage'', Batch (compositeEventMessageData c))"] Some
  show ?thesis by (simp add: sendCompositeEventMessage_def written_def update_agree)
qed (simp add: sendCompositeEventMessage_def)

lemma written_setState [simp]: "written (''setState'', StateData key val) s = (key, val) # s"
  by (simp add: written_def)

lemma setState_agree:
  "agree s t \<Longrightarrow> agree (if center_at w t = None then s else (key, val) # s) (setState w key val t)"
  using postMessage_agree [of s t w "(''setState'', StateData key val)"]
  by (cases "center_at w t") (simp_all add: setState_def)

lemma call_agree: "agree s t \<Longrightarrow> agree (writes t wc s) (call_center wc t)"
proof (cases wc)
  case (Pair w c)
  assume "agree s t"
  with Pair show ?thesis
    using postMessage_agree [of s t w] setState_agree [of s t w] sendComposite_agree [of s t w]
    by (cases c) (auto simp: endCombineEventMessages_def startCombineEventMessages_def
        addMessageListener_def addStateListener_def update_agree)
qed

lemma postMessage_shape: "(center_at v (postMessage w m t) = None) = (center_at v t = None)"
  by (auto simp: postMessage_def center_at_fold_dispatch center_at_update split: option.split prod.split)

lemma call_shape: "(center_at v (call_center wc t) = None) = (center_at v t = None)"
proof (cases wc)
  case (Pair w c)
  then show ?thesis
    by (cases c) (simp_all add: postMessage_shape center_at_update setState_def endCombineEventMessages_def
        sendCompositeEventMessage_def split: option.split)
qed

lemma writes_cong: "(\<And>v. (center_at v t = None) = (center_at v t' = None)) \<Longrightarrow> writes t wc s = writes t' wc s"
  by (cases wc; cases "snd wc") auto

text \<open>
  C19: the centers of a page and all its frames hold one state between them: after any
  calls, from any pages, combined events or not, every center has in its state exactly what the calls
  have set, the last value of a key first.
\<close>

theorem state_agreed:
  assumes "agree [] t"
  shows "agree (fold (writes t) cs []) (calls cs t)"
proof -
  have "agree (fold (writes t) cs s) (fold call_center cs t')"
    if "agree s t'" "\<And>v. (center_at v t' = None) = (center_at v t = None)" for s t'
    using that
  proof (induction cs arbitrary: s t')
    case (Cons wc cs)
    have "agree (writes t wc s) (call_center wc t')"
      using call_agree [OF Cons.prems(1), of wc] writes_cong [OF Cons.prems(2)] by simp
    with Cons.IH [of "writes t wc s" "call_center wc t'"] Cons.prems(2) call_shape show ?case by simp
  qed simp
  from this [OF assms] show ?thesis by (simp add: calls_def)
qed

definition sample_frames :: frame where
  "sample_frames = Frame new_center [Frame new_center [Foreign], Frame new_center []]"

lemma state_agreed_witness:
  "map (getState ''page'')
     (centers (calls [([0], StartCombine), ([0], SetState ''page'' ''1''), ([1], SetState ''page'' ''2'')] sample_frames)) =
   replicate 3 (Some ''2'')"
proof -
  have "agree [] sample_frames" by (simp add: agree_def sample_frames_def new_center_def)
  from state_agreed [OF this, of "[([0], StartCombine), ([0], SetState ''page'' ''1''), ([1], SetState ''page'' ''2'')]"]
  have "\<forall>c\<in>set (centers (calls [([0], StartCombine), ([0], SetState ''page'' ''1''), ([1], SetState ''page'' ''2'')] sample_frames)).
      getState ''page'' c = Some ''2''"
    by (simp add: agree_def getState_def sample_frames_def)
  moreover have "length (centers (calls [([0], StartCombine), ([0], SetState ''page'' ''1''), ([1], SetState ''page'' ''2'')] sample_frames)) = 3"
    by code_simp
  moreover have "map f xs = replicate 3 y" if "\<forall>x\<in>set xs. f x = y" "length xs = 3" for f :: "center \<Rightarrow> string option" and xs y
    using that by (metis map_eq_conv map_replicate_const)
  ultimately show ?thesis by blast
qed

section \<open>Combined events\<close>

text \<open>Batches of ten and the rest, which may be empty.\<close>

fun batches :: "'a list \<Rightarrow> 'a list \<Rightarrow> 'a list list" where
  "batches buf [] = [buf]"
| "batches buf (x # xs) = (if 10 \<le> length (buf @ [x]) then (buf @ [x]) # batches [] xs else batches (buf @ [x]) xs)"

lemma concat_batches: "concat (batches buf xs) = buf @ xs"
  by (induction buf xs rule: batches.induct) auto

lemma batches_length: "length buf < 10 \<Longrightarrow> \<forall>b\<in>set (batches buf xs). length b \<le> 10"
  by (induction buf xs rule: batches.induct) auto

lemma batches_number: "length buf < 10 \<Longrightarrow> length (batches buf xs) = (length buf + length xs) div 10 + 1"
proof (induction buf xs rule: batches.induct)
  case (2 buf x xs)
  show ?case
  proof (cases "length buf = 9")
    case True
    then have "(length buf + length (x # xs)) div 10 = length xs div 10 + 1" by simp
    with 2 True show ?thesis by simp
  next
    case False
    with 2 show ?thesis by simp
  qed
qed simp

abbreviation composite :: "message list \<Rightarrow> message" where
  "composite ms \<equiv> (''axCompositeEventMessage'', Batch ms)"

text \<open>The collected events and the flag of one center, which dispatching a collection does not touch.\<close>

definition buffer :: "bool \<Rightarrow> message list \<Rightarrow> center \<Rightarrow> center" where
  "buffer on ms c = c\<lparr>combineEventMessages := on, compositeEventMessageData := ms\<rparr>"

lemma handle_buffer: "handleRequest (composite bs) (buffer on ms c) = buffer on ms (handleRequest (composite bs) c)"
  by (simp add: handleRequest_def set_state_def buffer_def Let_def)

lemma dispatch_buffer:
  "dispatchMessageRecursively (composite bs) (update_at w (buffer on ms) t) =
   update_at w (buffer on ms) (dispatchMessageRecursively (composite bs) t)"
  by (induction w "buffer on ms" t rule: update_at.induct) (auto simp: handle_buffer map_update)

lemma update_update: "update_at w f (update_at w g t) = update_at w (f \<circ> g) t"
  by (induction w g t rule: update_at.induct) auto

lemma update_const: "center_at w t = Some c \<Longrightarrow> update_at w (\<lambda>_. f c) t = update_at w f t"
  by (induction w t rule: center_at.induct) (auto split: if_splits)

lemma update_cong: "center_at w t = Some c \<Longrightarrow> f c = g c \<Longrightarrow> update_at w f t = update_at w g t"
  by (induction w t rule: center_at.induct) (auto split: if_splits)

lemma center_at_same: "center_at w (update_at w f t) = map_option f (center_at w t)"
  by (induction w f t rule: update_at.induct) auto

lemma buffer_buffer [simp]: "buffer on ms \<circ> buffer on' ms' = buffer on ms"
  by (auto simp: buffer_def)

lemma update_id: "center_at w t = Some c \<Longrightarrow> f c = c \<Longrightarrow> update_at w f t = t"
proof (induction w t rule: center_at.induct)
  case (2 i "is" d fs)
  then show ?case by (auto split: if_splits)
qed auto

abbreviation posts :: "nat list \<Rightarrow> message list \<Rightarrow> frame \<Rightarrow> frame" where
  "posts w es t \<equiv> fold (postMessage w) es t"

lemma post_event:
  assumes "center_at w t = Some c" and "event_message (fst m)" and "length buf < 10"
  shows "postMessage w m (update_at w (buffer True buf) t) =
    (if 10 \<le> length (buf @ [m]) then update_at w (buffer True []) (dispatchMessageRecursively (composite (buf @ [m])) t)
     else update_at w (buffer True (buf @ [m])) t)"
proof -
  have put: "update_at w (\<lambda>_. buffer True b c) (update_at w (buffer True buf) t) = update_at w (buffer True b) t" for b
    using assms(1) by (simp add: update_update comp_def update_const)
  have "collect m (buffer True buf c) =
    (if 10 \<le> length (buf @ [m]) then ([composite (buf @ [m])], buffer True [] c) else ([], buffer True (buf @ [m]) c))"
    using assms(2) by (simp add: collect_def buffer_def Let_def)
  with assms(1) put show ?thesis
    by (auto simp: postMessage_def center_at_same dispatch_buffer)
qed

lemma end_combine:
  assumes "center_at w t = Some c"
  shows "endCombineEventMessages w (update_at w (buffer True buf) t) =
    update_at w (buffer False []) (dispatchMessageRecursively (composite buf) t)"
proof -
  have "collect (composite buf) (buffer True buf c) = ([composite buf], buffer True buf c)"
    by (simp add: collect_def event_message_def)
  moreover have "update_at w (\<lambda>_. buffer True buf c) (update_at w (buffer True buf) t) = update_at w (buffer True buf) t"
    using assms by (simp add: update_update comp_def update_const)
  ultimately have "postMessage w (composite buf) (update_at w (buffer True buf) t) =
      update_at w (buffer True buf) (dispatchMessageRecursively (composite buf) t)"
    using assms by (simp add: postMessage_def center_at_same dispatch_buffer)
  moreover have "(\<lambda>c. c\<lparr>combineEventMessages := False\<rparr>) \<circ> ((\<lambda>c. c\<lparr>compositeEventMessageData := []\<rparr>) \<circ> buffer True buf) = buffer False []"
    by (auto simp: buffer_def)
  ultimately show ?thesis
    using assms by (simp add: endCombineEventMessages_def sendCompositeEventMessage_def center_at_same update_update buffer_def)
qed

lemma combine_run:
  "center_at w t = Some c \<Longrightarrow> \<forall>m\<in>set es. event_message (fst m) \<Longrightarrow> length buf < 10 \<Longrightarrow>
   endCombineEventMessages w (posts w es (update_at w (buffer True buf) t)) =
   update_at w (buffer False []) (fold dispatchMessageRecursively (map composite (batches buf es)) t)"
proof (induction es arbitrary: t c buf)
  case Nil
  then show ?case by (simp add: end_combine)
next
  case (Cons m es)
  show ?case
  proof (cases "10 \<le> length (buf @ [m])")
    case True
    have "center_at w (dispatchMessageRecursively (composite (buf @ [m])) t) = Some (handleRequest (composite (buf @ [m])) c)"
      using Cons.prems(1) by (simp add: center_at_dispatch)
    from Cons.IH [OF this, of "[]"] Cons.prems True show ?thesis by (simp add: post_event)
  next
    case False
    with Cons show ?thesis by (simp add: post_event)
  qed
qed

lemma handle_composite_flags:
  "combineEventMessages (handleRequest (composite bs) c) = combineEventMessages c"
  "compositeEventMessageData (handleRequest (composite bs) c) = compositeEventMessageData c"
  by (simp_all add: handleRequest_def set_state_def Let_def)

lemma fold_composite_flags:
  "center_at w t = Some c \<Longrightarrow> \<exists>c'. center_at w (fold dispatchMessageRecursively (map composite bss) t) = Some c' \<and>
     combineEventMessages c' = combineEventMessages c \<and> compositeEventMessageData c' = compositeEventMessageData c"
proof (induction bss arbitrary: t c)
  case (Cons bs bss)
  from Cons.IH [of "dispatchMessageRecursively (composite bs) t"] Cons.prems show ?case
    by (simp add: center_at_dispatch handle_composite_flags)
qed simp

text \<open>
  Between the start and the end of combining, the events a page posts reach every
  center in order, each once, in batches of at most ten, one for each ten events and one for the rest;
  nothing else changes.
\<close>

theorem events_combined:
  assumes "center_at w t = Some c" and "\<not> combineEventMessages c" and "compositeEventMessageData c = []"
    and "\<forall>m\<in>set es. event_message (fst m)"
  shows "calls ((w, StartCombine) # map (\<lambda>m. (w, Post (fst m) (snd m))) es @ [(w, EndCombine)]) t =
      fold dispatchMessageRecursively (map composite (batches [] es)) t \<and>
    concat (batches [] es) = es \<and> (\<forall>b\<in>set (batches [] es). length b \<le> 10) \<and>
    length (batches [] es) = length es div 10 + 1"
proof -
  have posts: "fold call_center (map (\<lambda>m. (w, Post (fst m) (snd m))) es) t = posts w es t" for t
    by (induction es arbitrary: t) auto
  have start: "update_at w startCombineEventMessages t = update_at w (buffer True []) t"
    using assms(3) by (intro update_cong [OF assms(1)]) (simp add: startCombineEventMessages_def buffer_def)
  obtain c' where c': "center_at w (fold dispatchMessageRecursively (map composite (batches [] es)) t) = Some c'"
    "\<not> combineEventMessages c'" "compositeEventMessageData c' = []"
    using fold_composite_flags [OF assms(1)] assms(2,3) by auto
  have "update_at w (buffer False []) (fold dispatchMessageRecursively (map composite (batches [] es)) t) =
      fold dispatchMessageRecursively (map composite (batches [] es)) t"
    by (rule update_id [OF c'(1)]) (use c' in \<open>simp add: buffer_def\<close>)
  then have "calls ((w, StartCombine) # map (\<lambda>m. (w, Post (fst m) (snd m))) es @ [(w, EndCombine)]) t =
      fold dispatchMessageRecursively (map composite (batches [] es)) t"
    using combine_run [OF assms(1,4), of "[]"] by (simp add: calls_def posts start)
  then show ?thesis using batches_length [of "[]" es] by (simp add: concat_batches batches_number)
qed

lemma events_combined_witness:
  "\<exists>t. calls (([0], StartCombine) # map (\<lambda>m. ([0], Post (fst m) (snd m))) (replicate 12 (''axEvent'', NoData)) @ [([0], EndCombine)]) sample_frames = t \<and>
     length (batches [] (replicate 12 (''axEvent'', NoData))) = 2"
  using events_combined [of "[0]" sample_frames new_center "replicate 12 (''axEvent'', NoData)"]
  by (simp add: sample_frames_def new_center_def event_message_def)

section \<open>Messages before the initialization\<close>

text \<open>
  A page opened from files keeps what it posts until it is initialized, and
  then sends all of it, in order and once; later messages follow.
\<close>

theorem queued_until_initialized:
  assumes "\<not> initialized c" and "\<not> combineEventMessages c"
  shows "sender (fold postMessage_local later (handleRequest (''initialize'', d) (fold postMessage_local ms c))) =
      sender c @ queuedMessages c @ ms @ later \<and>
    queuedMessages (handleRequest (''initialize'', d) (fold postMessage_local ms c)) = []"
proof -
  have post: "postMessage_local m c = send_local m c" if "\<not> combineEventMessages c" for m c
    using that by (simp add: postMessage_local_def collect_def)
  have wait: "fold postMessage_local ms c = c\<lparr>queuedMessages := queuedMessages c @ ms\<rparr>"
    if "\<not> initialized c" "\<not> combineEventMessages c" for ms and c :: center
    using that by (induction ms arbitrary: c) (simp_all add: post send_local_def)
  have go: "fold postMessage_local ms c = c\<lparr>sender := sender c @ ms\<rparr>"
    if "initialized c" "\<not> combineEventMessages c" for ms and c :: center
    using that by (induction ms arbitrary: c) (simp_all add: post send_local_def)
  define c1 where "c1 = handleRequest (''initialize'', d) (fold postMessage_local ms c)"
  have c1: "initialized c1" "\<not> combineEventMessages c1" "queuedMessages c1 = []"
    "sender c1 = sender c @ queuedMessages c @ ms"
    using assms by (simp_all add: c1_def handleRequest_def wait go set_state_def Let_def split: mdata.split)
  show ?thesis using c1 go [OF c1(1,2)] by (simp add: c1_def [symmetric])
qed

lemma queued_until_initialized_witness:
  "sender (fold postMessage_local [(''b'', NoData)] (handleRequest (''initialize'', NoData) (fold postMessage_local [(''a'', NoData)] new_center))) =
     [(''a'', NoData), (''b'', NoData)]"
  using queued_until_initialized [of new_center "[(''b'', NoData)]" NoData "[(''a'', NoData)]"]
  by (simp add: new_center_def)

section \<open>Edge\<close>

text \<open>Edge names Chrome and Safari in its user agent. It is kept from counting as Chrome, and then counts as Safari.\<close>

lemma edge_is_safari:
  "versioned ''Edge/'' (be_agent b) \<Longrightarrow> versioned ''Safari/'' (be_agent b) \<Longrightarrow>
   SAFARI (sniff b) \<and> isEdge (sniff b) \<and> \<not> CHROME (sniff b)"
  by (simp add: sniff_def Let_def)

lemma edge_agent: "versioned ''Edge/'' ''Chrome/5 Safari/5 Edge/1'' \<and> versioned ''Safari/'' ''Chrome/5 Safari/5 Edge/1''"
  by code_simp

lemma chrome_is_not_safari: "CHROME (sniff b) \<Longrightarrow> \<not> SAFARI (sniff b) \<and> \<not> isEdge (sniff b)"
  by (auto simp: sniff_def Let_def split: if_splits)

end
