(* ===== verification/IframeTransport.thy ===== *)
theory IframeTransport
  imports UploadData Json
begin

text \<open>
  The transport for browsers without file uploads by XHR (\<open>jquery.iframe-transport.js\<close>): a hidden form
  with the file inputs of the page is submitted to an iframe. The first load of the iframe submits the
  form, the second one is the answer. The inputs stand in the page at positions; those of the request
  are \<open>tr_chosen\<close>. The converters of the answer read the text of the iframe's body.
\<close>

section \<open>The request\<close>

record page_input = file_input +
  in_form :: "string option"  \<comment> \<open>the \<open>form\<close> attribute\<close>

record iframe_request =
  ir_url :: string
  ir_type :: string
  ir_charset :: string
  ir_paramName :: params
  ir_formData :: "(string \<times> string) list"
  ir_initialSrc :: string

record hidden_form =
  hf_action :: string
  hf_method :: string
  hf_charset :: string
  hf_target :: string
  hf_fields :: "(string \<times> string) list"
  hf_inputs :: "page_input list"
  hf_multipart :: bool

text \<open>Methods other than GET and POST go into the address.\<close>

definition method_override :: "string \<Rightarrow> string \<Rightarrow> string \<times> string" where
  "method_override address type =
     (if type \<in> {''DELETE'', ''PUT'', ''PATCH''}
      then (address @ (if CHR ''?'' \<in> set address then ''&'' else ''?'') @ ''_method='' @ type, ''POST'')
      else (address, type))"

text \<open>
  The name an input gets: its own parameter name or, where there is none, the option itself, of which an
  array becomes its names with commas.
\<close>

definition input_param :: "params \<Rightarrow> nat \<Rightarrow> string option" where
  "input_param p i =
     (case p of
        ParamUndefined \<Rightarrow> None
      | ParamName n \<Rightarrow> if n = [] then None else Some n
      | ParamNames ns \<Rightarrow> Some (if i < length ns \<and> ns ! i \<noteq> [] then ns ! i else join_with '','' ns))"

section \<open>The transport\<close>

datatype tr_phase = Loading | Submitted | Completed | Unbound

record transport =
  tr_page :: "page_input list"  \<comment> \<open>the inputs of the page by position\<close>
  tr_chosen :: "nat list"
  tr_request :: iframe_request
  tr_name :: string
  tr_phase :: tr_phase
  tr_submits :: "hidden_form list"
  tr_answers :: "string option list"  \<comment> \<open>calls of the complete callback: the body, unless it cannot be read\<close>
  tr_form :: bool  \<comment> \<open>the form is in the page\<close>

text \<open>\<open>counter\<close> numbers the iframes; the address and the method of the request are changed for good.\<close>

definition send_iframe :: "nat \<Rightarrow> page_input list \<Rightarrow> nat list \<Rightarrow> iframe_request \<Rightarrow> nat \<times> transport" where
  "send_iframe counter page chosen r =
     (let (address, type) = method_override (ir_url r) (ir_type r)
      in (counter + 1,
          \<lparr>tr_page = page, tr_chosen = chosen, tr_request = r\<lparr>ir_url := address, ir_type := type\<rparr>,
           tr_name = ''iframe-transport-'' @ dec (counter + 1), tr_phase = Loading, tr_submits = [], tr_answers = [],
           tr_form = True\<rparr>))"

definition with_files :: "transport \<Rightarrow> bool" where
  "with_files t \<longleftrightarrow> tr_chosen t \<noteq> [] \<and> ir_type (tr_request t) = ''POST''"

text \<open>The inputs as they are put into the form, and back in the page with the properties of their clones.\<close>

definition form_input :: "params \<Rightarrow> nat \<Rightarrow> page_input \<Rightarrow> page_input" where
  "form_input p i x =
     (case input_param p i of None \<Rightarrow> x | Some n \<Rightarrow> x\<lparr>in_name := n\<rparr>)\<lparr>in_form := None\<rparr>"

definition restore_input :: "page_input \<Rightarrow> page_input \<Rightarrow> page_input" where
  "restore_input clone x =
     (let x1 = x\<lparr>in_name := in_name clone\<rparr>
      in case in_form clone of None \<Rightarrow> x1 | Some f \<Rightarrow> x1\<lparr>in_form := Some f\<rparr>)"

text \<open>The first load: clones take the places of the inputs, the form is submitted, and the inputs return.\<close>

definition first_load :: "transport \<Rightarrow> transport" where
  "first_load t =
     (let r = tr_request t;
          clones = map (\<lambda>j. tr_page t ! j) (tr_chosen t);
          inputs = map (\<lambda>(i, x). form_input (ir_paramName r) i x) (enumerated clones);
          form = \<lparr>hf_action = ir_url r, hf_method = ir_type r, hf_charset = ir_charset r, hf_target = tr_name t,
                  hf_fields = ir_formData r, hf_inputs = (if with_files t then inputs else []), hf_multipart = with_files t\<rparr>;
          t1 = t\<lparr>tr_phase := Submitted, tr_submits := tr_submits t @ [form]\<rparr>
      in if with_files t
         then t1\<lparr>tr_page := fold (\<lambda>(j, clone, x) page. page[j := restore_input clone x])
                   (zip (tr_chosen t) (zip clones inputs)) (tr_page t)\<rparr>
         else t1)"

definition second_load :: "string option \<Rightarrow> transport \<Rightarrow> transport" where
  "second_load body t = t\<lparr>tr_answers := tr_answers t @ [body]\<rparr>"

text \<open>Later loads of the same iframe call the same handler; the form is removed after the first of them.\<close>

datatype tr_event = Load "string option" | RemoveForm | AbortTransport

fun tr_step :: "tr_event \<Rightarrow> transport \<Rightarrow> transport" where
  "tr_step (Load body) t =
     (if \<not> tr_form t then t
      else case tr_phase t of
        Loading \<Rightarrow> first_load t
      | Submitted \<Rightarrow> (second_load body t)\<lparr>tr_phase := Completed\<rparr>
      | Completed \<Rightarrow> second_load body t
      | Unbound \<Rightarrow> t)"
| "tr_step RemoveForm t = (if tr_phase t = Completed then t\<lparr>tr_form := False\<rparr> else t)"
| "tr_step AbortTransport t = t\<lparr>tr_phase := Unbound, tr_form := False\<rparr>"

definition tr_run :: "tr_event list \<Rightarrow> transport \<Rightarrow> transport" where
  "tr_run es t = fold tr_step es t"

section \<open>Converters\<close>

definition iframe_text :: "string option \<Rightarrow> string option" where
  "iframe_text body = body"

text \<open>An inner \<open>None\<close> is the exception of \<open>$.parseJSON\<close>.\<close>

definition iframe_json :: "string option \<Rightarrow> json option option" where
  "iframe_json body = map_option json_parse body"

section \<open>The page gets its inputs back\<close>

lemma restore_form_input: "restore_input x (form_input p i x) = x"
  by (cases x) (simp add: restore_input_def form_input_def Let_def split: option.split)

lemma fold_restore:
  assumes "\<forall>(j, x, y)\<in>set es. restore_input x y = page ! j"
  shows "fold (\<lambda>(j, x, y) page. page[j := restore_input x y]) es page = page"
  using assms by (induction es) (auto simp: list_update_id)

lemma first_load_page: "tr_page (first_load t) = tr_page t"
proof -
  let ?c = "map (\<lambda>j. tr_page t ! j) (tr_chosen t)"
  let ?i = "map (\<lambda>(i, x). form_input (ir_paramName (tr_request t)) i x) (enumerated ?c)"
  have "\<forall>(j, x, y)\<in>set (zip (tr_chosen t) (zip ?c ?i)). restore_input x y = tr_page t ! j"
    by (auto simp: set_zip enumerated_def restore_form_input)
  from fold_restore [OF this] show ?thesis by (simp add: first_load_def Let_def)
qed

lemma first_load_once:
  "length (tr_submits (first_load t)) = length (tr_submits t) + 1" "tr_answers (first_load t) = tr_answers t"
  "tr_phase (first_load t) = Submitted" "tr_form (first_load t) = tr_form t"
  by (simp_all add: first_load_def Let_def)

text \<open>One submission at most, and answers only after it.\<close>

definition tr_ok :: "page_input list \<Rightarrow> transport \<Rightarrow> bool" where
  "tr_ok page t \<longleftrightarrow>
     tr_page t = page \<and>
     (case tr_phase t of
        Loading \<Rightarrow> tr_submits t = [] \<and> tr_answers t = []
      | Submitted \<Rightarrow> length (tr_submits t) = 1
      | Completed \<Rightarrow> length (tr_submits t) = 1
      | Unbound \<Rightarrow> \<not> tr_form t \<and> (tr_answers t = [] \<and> tr_submits t = [] \<or> length (tr_submits t) = 1))"

lemma tr_step_ok: "tr_ok page t \<Longrightarrow> tr_ok page (tr_step e t)"
  by (cases e; cases "tr_phase t") (auto simp: tr_ok_def first_load_page first_load_once second_load_def)

lemma tr_run_ok: "tr_ok page t \<Longrightarrow> tr_ok page (tr_run es t)"
  by (induction es arbitrary: t) (simp_all add: tr_run_def tr_step_ok del: tr_step.simps)

text \<open>
  C20: whatever the iframe loads and whenever the request is aborted, the inputs of the
  page keep their places, names, forms and files, although they go through the hidden form under other
  names; the form is submitted at most once, and there is no answer before.
\<close>

theorem transport_restores:
  assumes "t = tr_run es (snd (send_iframe counter page chosen r))"
  shows "tr_page t = page \<and> length (tr_submits t) \<le> 1 \<and> (tr_answers t \<noteq> [] \<longrightarrow> length (tr_submits t) = 1)"
proof -
  have "tr_ok page (snd (send_iframe counter page chosen r))"
    by (simp add: send_iframe_def tr_ok_def split: prod.split)
  then have "tr_ok page t" unfolding assms by (rule tr_run_ok)
  then show ?thesis by (cases "tr_phase t") (auto simp: tr_ok_def)
qed

text \<open>The form has the files of the chosen inputs in order, under the parameter names.\<close>

lemma form_submitted:
  assumes "snd (send_iframe counter page chosen r) = t" and "chosen \<noteq> []" and "ir_type r = ''PUT''"
  shows "\<exists>form. tr_submits (first_load t) = [form] \<and> hf_method form = ''POST'' \<and> hf_multipart form \<and>
    map in_files (hf_inputs form) = map (\<lambda>j. in_files (page ! j)) chosen \<and> hf_target form = ''iframe-transport-'' @ dec (counter + 1)"
proof -
  have f: "in_files (form_input p i x) = in_files x" for p i x
    by (cases x) (simp add: form_input_def split: option.split)
  have "map (\<lambda>(i, x). in_files x) (enumerated xs) = map in_files xs" for xs :: "page_input list"
    by (rule nth_equalityI) (simp_all add: enumerated_def)
  then show ?thesis
    using assms by (auto simp: send_iframe_def method_override_def first_load_def with_files_def Let_def f comp_def case_prod_unfold)
qed

lemma abort_is_final: "tr_answers (tr_run es (tr_step AbortTransport t)) = tr_answers t"
proof -
  have "tr_phase (tr_run es t) = Unbound \<and> tr_answers (tr_run es t) = tr_answers t \<and> \<not> tr_form (tr_run es t)"
    if "tr_phase t = Unbound" "\<not> tr_form t" for t
    using that
  proof (induction es arbitrary: t)
    case (Cons e es)
    have "tr_phase (tr_step e t) = Unbound" "tr_answers (tr_step e t) = tr_answers t" "\<not> tr_form (tr_step e t)"
      using Cons.prems by (cases e; simp)+
    with Cons.IH [of "tr_step e t"] show ?case by (simp add: tr_run_def)
  qed (simp add: tr_run_def)
  from this [of "tr_step AbortTransport t"] show ?thesis by simp
qed

definition sample_page :: "page_input list" where
  "sample_page = [\<lparr>in_name = ''a'', in_files = Some [], in_value = ''x'', in_form = Some ''f''\<rparr>, \<lparr>in_name = ''b'', in_files = Some [], in_value = [], in_form = None\<rparr>]"

definition sample_request :: iframe_request where
  "sample_request = \<lparr>ir_url = ''/up'', ir_type = ''PUT'', ir_charset = [], ir_paramName = ParamNames [''p''], ir_formData = [], ir_initialSrc = []\<rparr>"

lemma transport_restores_witness:
  "tr_page (tr_run [Load None, Load (Some ''ok'')] (snd (send_iframe 0 sample_page [1, 0] sample_request))) = sample_page \<and>
   length (tr_submits (tr_run [Load None, Load (Some ''ok'')] (snd (send_iframe 0 sample_page [1, 0] sample_request)))) = 1"
proof -
  have "tr_answers (tr_run [Load None, Load (Some ''ok'')] (snd (send_iframe 0 sample_page [1, 0] sample_request))) \<noteq> []"
    by (simp add: tr_run_def send_iframe_def sample_request_def method_override_def first_load_once second_load_def)
  with transport_restores [OF refl, of "[Load None, Load (Some ''ok'')]" 0 sample_page "[1, 0]" sample_request] show ?thesis by blast
qed

end
