(* ===== verification/Dialogs.thy ===== *)
theory Dialogs
  imports JsString Complex_Main
begin

text \<open>
  The small scripts of the pages: the side menu (\<open>dist/sidebar-menu.js\<close>), the layers of
  \<open>popmodel.js\<close>, the account panel and the fee of \<open>getnewaddress.js\<close>, and the full-screen button of
  \<open>thisapp.js\<close>. An animation is a step; what is visible depends on the menus around it.
\<close>

section \<open>The side menu\<close>

text \<open>A list item is a link or has a menu: whether it is displayed, its class \<open>menu-open\<close>, its items.\<close>

datatype menu_item =
  Link bool  \<comment> \<open>class \<open>active\<close>\<close>
| Sub bool bool bool "menu_item list"  \<comment> \<open>active, displayed, open\<close>

fun displayed :: "menu_item \<Rightarrow> bool" where
  "displayed (Link a) = False"
| "displayed (Sub a d open_menu items) = d"

text \<open>\<open>slideUp\<close> of all visible menus inside: a menu inside one that is not displayed is not visible.\<close>

fun close_visible :: "menu_item \<Rightarrow> menu_item" where
  "close_visible (Link a) = Link a"
| "close_visible (Sub a d open_menu items) =
     (if d then Sub a False False (map close_visible items) else Sub a d open_menu items)"

fun deactivate :: "menu_item \<Rightarrow> menu_item" where
  "deactivate (Link a) = Link False"
| "deactivate (Sub a d open_menu items) = Sub False d open_menu (map deactivate items)"

definition toggle_menu :: "nat \<Rightarrow> menu_item list \<Rightarrow> menu_item list" where
  "toggle_menu i items =
     (case items ! i of
        Link a \<Rightarrow> items
      | Sub a d open_menu sub \<Rightarrow>
          if d then items[i := Sub False False False sub]
          else (map deactivate (map close_visible items))[i := Sub True True True (map deactivate sub)])"

text \<open>A click on the item at a path through displayed menus, and whether the link is not followed.\<close>

fun click_menu :: "nat list \<Rightarrow> menu_item list \<Rightarrow> menu_item list \<times> bool" where
  "click_menu [] items = (items, False)"
| "click_menu [i] items =
     (if i < length items then (toggle_menu i items, case items ! i of Link a \<Rightarrow> False | Sub a d open_menu sub \<Rightarrow> True)
      else (items, False))"
| "click_menu (i # j # path) items =
     (if i < length items
      then case items ! i of
             Sub a True open_menu sub \<Rightarrow>
               let (sub', stop) = click_menu (j # path) sub in (items[i := Sub a True open_menu sub'], stop)
           | _ \<Rightarrow> (items, False)
      else (items, False))"

definition click_all :: "nat list list \<Rightarrow> menu_item list \<Rightarrow> menu_item list" where
  "click_all paths items = fold (\<lambda>p items. fst (click_menu p items)) paths items"

section \<open>Layers\<close>

text \<open>The overlays of the page with their ids; \<open>data-show-layer\<close> names one of them.\<close>

type_synonym layers = "(string \<times> bool) list"

definition showLayer :: "string \<Rightarrow> layers \<Rightarrow> layers" where
  "showLayer name ls = map (\<lambda>(n, v). (n, v \<or> n = name)) ls"

definition hideLayer :: "layers \<Rightarrow> layers" where
  "hideLayer ls = map (\<lambda>(n, v). (n, False)) ls"

datatype layer_event =
  ClickButton  \<comment> \<open>ok, cancel or close\<close>
| ClickShow string
| ClickOverlay bool  \<comment> \<open>on the overlay itself, not on what it shows\<close>
| KeyUp nat

fun layer_step :: "layer_event \<Rightarrow> layers \<Rightarrow> layers" where
  "layer_step ClickButton ls = hideLayer ls"
| "layer_step (ClickShow name) ls = showLayer name ls"
| "layer_step (ClickOverlay itself) ls = (if itself then hideLayer ls else ls)"
| "layer_step (KeyUp code) ls = (if code = 27 then hideLayer ls else ls)"

section \<open>The account panel\<close>

record account_request =
  aq_url :: string
  aq_type :: string
  aq_headers :: "(string \<times> string) list"
  aq_method :: string
  aq_id :: nat

definition getnewaddress :: account_request where
  "getnewaddress =
     \<lparr>aq_url = ''/v1/object/'', aq_type = ''POST'', aq_headers = [(''user'', ''test''), (''password'', ''testp'')],
      aq_method = ''getinfo'', aq_id = 10\<rparr>"

record account_panel =
  ap_time :: string
  ap_usable :: string
  ap_waiting :: string
  ap_sum :: string

definition account_panel_of :: "string \<Rightarrow> string \<Rightarrow> string \<Rightarrow> account_panel" where
  "account_panel_of now balance blocks =
     \<lparr>ap_time = substring now 10 25, ap_usable = balance, ap_waiting = ''0.25821232'', ap_sum = blocks\<rparr>"

text \<open>The fields a click fills, and the fee as a fraction of the amount.\<close>

record address_page =
  sendToInput :: string
  currentAccountUI :: string
  jineJiaoyifei :: rat
  accountDiv :: "account_panel list"

definition account_loaded :: "string \<Rightarrow> string \<Rightarrow> string \<Rightarrow> address_page \<Rightarrow> address_page" where
  "account_loaded now balance blocks p = p\<lparr>accountDiv := accountDiv p @ [account_panel_of now balance blocks]\<rparr>"

definition fillAddrInput :: "string \<Rightarrow> address_page \<Rightarrow> address_page" where
  "fillAddrInput evt p = p\<lparr>sendToInput := evt\<rparr>"

definition fillAccountAddrInput :: "string \<Rightarrow> address_page \<Rightarrow> address_page" where
  "fillAccountAddrInput evt p = p\<lparr>currentAccountUI := evt\<rparr>"

definition jinechange :: "rat \<Rightarrow> address_page \<Rightarrow> address_page" where
  "jinechange amount p = p\<lparr>jineJiaoyifei := amount * (2 / 10000000)\<rparr>"

section \<open>Full screen\<close>

definition fullscreen_text :: "bool \<Rightarrow> string" where
  "fullscreen_text isFullscreen = (if isFullscreen then ''leave full screen'' else ''full screen'')"

section \<open>One open menu on each level\<close>

fun single :: "menu_item \<Rightarrow> bool" where
  "single (Link a) = True"
| "single (Sub a d open_menu items) = (length (filter displayed items) \<le> 1 \<and> list_all single items)"

definition accordion :: "menu_item list \<Rightarrow> bool" where
  "accordion items \<longleftrightarrow> length (filter displayed items) \<le> 1 \<and> list_all single items"

lemma displayed_deactivate [simp]: "displayed (deactivate x) = displayed x"
  by (cases x) auto

lemma displayed_close [simp]: "\<not> displayed (close_visible x)"
  by (cases x) auto

lemma filter_map_displayed:
  "length (filter displayed (map deactivate items)) = length (filter displayed items)"
  "filter displayed (map close_visible items) = []"
  by (induction items) auto

lemma single_deactivate: "single x \<Longrightarrow> single (deactivate x)"
proof (induction x)
  case (Sub a d open_menu items)
  then have "list_all single (map deactivate items)" by (auto simp: list_all_iff)
  with Sub.prems show ?case using filter_map_displayed(1) [of items] by simp
qed simp

lemma single_close: "single x \<Longrightarrow> single (close_visible x)"
proof (induction x)
  case (Sub a d open_menu items)
  then have "list_all single (map close_visible items)" by (auto simp: list_all_iff)
  with Sub.prems show ?case using filter_map_displayed(2) [of items] by simp
qed simp

lemma filter_update_le:
  "i < length xs \<Longrightarrow> length (filter P (xs[i := y])) \<le> length (filter P xs) + (if P y then 1 else 0)"
  by (induction xs arbitrary: i) (auto split: nat.split)

lemma filter_update_same:
  "i < length xs \<Longrightarrow> P (xs ! i) = P y \<Longrightarrow> length (filter P (xs[i := y])) = length (filter P xs)"
  by (induction xs arbitrary: i) (auto split: nat.split)

lemma list_all_update: "list_all P xs \<Longrightarrow> P y \<Longrightarrow> list_all P (xs[i := y])"
  using set_update_subset_insert [of xs i y] by (auto simp: list_all_iff)

lemma accordion_sub: "accordion items \<Longrightarrow> i < length items \<Longrightarrow> items ! i = Sub a d open_menu sub \<Longrightarrow> accordion sub"
  by (auto simp: accordion_def list_all_length)

lemma toggle_accordion:
  assumes "accordion items" and "i < length items"
  shows "accordion (toggle_menu i items)"
proof (cases "items ! i")
  case (Link a)
  with assms show ?thesis by (simp add: toggle_menu_def)
next
  case (Sub a d open_menu sub)
  have sub: "accordion sub" by (rule accordion_sub [OF assms Sub])
  show ?thesis
  proof (cases d)
    case True
    have "length (filter displayed (items[i := Sub False False False sub])) \<le> 1"
      using filter_update_le [OF assms(2), of displayed "Sub False False False sub"] assms(1) by (simp add: accordion_def)
    moreover have "list_all single (items[i := Sub False False False sub])"
      using assms(1) sub by (intro list_all_update) (auto simp: accordion_def)
    ultimately show ?thesis using Sub True by (simp add: toggle_menu_def accordion_def)
  next
    case False
    let ?rest = "map deactivate (map close_visible items)" and ?new = "Sub True True True (map deactivate sub)"
    have "length (filter displayed (?rest[i := ?new])) \<le> 1"
      using filter_update_le [of i ?rest displayed ?new] assms(2) filter_map_displayed [of "map close_visible items"]
        filter_map_displayed(2) [of items] by (simp del: map_map)
    moreover have "single ?new"
      using sub filter_map_displayed(1) [of sub] by (auto simp: accordion_def list_all_iff single_deactivate)
    then have "list_all single (?rest[i := ?new])"
      using assms(1) by (intro list_all_update) (auto simp: accordion_def list_all_iff single_deactivate single_close)
    ultimately show ?thesis using Sub False by (simp add: toggle_menu_def accordion_def)
  qed
qed

lemma click_accordion: "accordion items \<Longrightarrow> accordion (fst (click_menu path items))"
proof (induction path items rule: click_menu.induct)
  case (2 i items)
  then show ?case by (simp add: toggle_accordion)
next
  case (3 i j path items)
  show ?case
  proof (cases "i < length items \<and> (\<exists>a open_menu sub. items ! i = Sub a True open_menu sub)")
    case False
    with "3.prems" show ?thesis by (auto split: menu_item.split bool.split)
  next
    case True
    then obtain a open_menu sub where i: "i < length items" "items ! i = Sub a True open_menu sub" by blast
    obtain sub' stop where c: "click_menu (j # path) sub = (sub', stop)" by fastforce
    have "accordion sub'" using "3.IH" [OF i(1) i(2) refl] accordion_sub [OF "3.prems" i] c by simp
    then have "accordion (items[i := Sub a True open_menu sub'])"
      using "3.prems" i filter_update_same [of i items displayed "Sub a True open_menu sub'"]
      by (auto simp: accordion_def intro!: list_all_update)
    with i c show ?thesis by simp
  qed
qed simp

text \<open>
  Whatever is clicked, at most one menu is displayed on each level of the side menu.
\<close>

theorem menu_accordion: "accordion items \<Longrightarrow> accordion (click_all paths items)"
  by (induction paths arbitrary: items) (simp_all add: click_all_def click_accordion)

definition sample_menu :: "menu_item list" where
  "sample_menu = [Sub False False False [Link False, Sub False False False [Link True]], Sub True True True [Link False]]"

lemma menu_accordion_witness:
  "accordion (click_all [[0], [0, 1], [0, 1, 0], [1]] sample_menu) \<and>
   map displayed (click_all [[0], [0, 1], [0, 1, 0], [1]] sample_menu) = [False, True]"
proof -
  have "accordion sample_menu" by code_simp
  then have "accordion (click_all [[0], [0, 1], [0, 1, 0], [1]] sample_menu)" by (rule menu_accordion)
  moreover have "map displayed (click_all [[0], [0, 1], [0, 1, 0], [1]] sample_menu) = [False, True]" by code_simp
  ultimately show ?thesis by (rule conjI)
qed

lemma escape_hides: "list_all (\<lambda>(n, v). \<not> v) (layer_step (KeyUp 27) ls)"
  by (induction ls) (auto simp: hideLayer_def)

end
