(* ===== verification/Variables.thy ===== *)
theory Variables
  imports GVerify UploadData
begin

text \<open>
  The global variables of the prototype pages (\<open>variables.js\<close> in \<open>prototypePost.js\<close>, \<open>axplayer.js\<close>): they
  go from page to page in the fragment of the address, those that differ from their defaults only.
  Names and values are strings of characters below 256; what is not a global variable of the document
  (\<open>PageName\<close>, \<open>Now\<close>, the parts of a date and so on) is a parameter.
\<close>

section \<open>Encoding\<close>

definition component_char :: "char \<Rightarrow> bool" where
  "component_char c \<longleftrightarrow>
     (let n = of_char c :: nat in 48 \<le> n \<and> n \<le> 57 \<or> 65 \<le> n \<and> n \<le> 90 \<or> 97 \<le> n \<and> n \<le> 122) \<or>
     c \<in> set ''-_.!~*()'' \<or> c = CHR 0x27"

definition encode_char :: "char \<Rightarrow> string" where
  "encode_char c =
     (if component_char c then [c]
      else let n = of_char c :: nat in
           if n < 128 then percent n else percent (192 + n div 64) @ percent (128 + n mod 64))"

definition encodeURIComponent :: "string \<Rightarrow> string" where
  "encodeURIComponent s = concat (map encode_char s)"

definition hex_value :: "char \<Rightarrow> nat option" where
  "hex_value c =
     (let n = of_char c :: nat in
      if 48 \<le> n \<and> n \<le> 57 then Some (n - 48)
      else if 65 \<le> n \<and> n \<le> 70 then Some (n - 55)
      else if 97 \<le> n \<and> n \<le> 102 then Some (n - 87)
      else None)"

text \<open>A percent-encoded byte at the start of a text.\<close>

definition take_byte :: "string \<Rightarrow> (nat \<times> string) option" where
  "take_byte s =
     (case s of
        p # a # b # rest \<Rightarrow>
          (if p = CHR ''%''
           then case (hex_value a, hex_value b) of (Some x, Some y) \<Rightarrow> Some (16 * x + y, rest) | _ \<Rightarrow> None
           else None)
      | _ \<Rightarrow> None)"

lemma take_byte_length: "take_byte s = Some (b, rest) \<Longrightarrow> length rest < length s"
  by (auto simp: take_byte_def split: list.splits option.splits if_splits)

text \<open>\<open>None\<close> is an exception, or a character from 256 on, which is not modelled.\<close>

function decodeURIComponent :: "string \<Rightarrow> string option" where
  "decodeURIComponent [] = Some []"
| "decodeURIComponent (c # cs) =
     (if c \<noteq> CHR ''%'' then map_option ((#) c) (decodeURIComponent cs)
      else case take_byte (c # cs) of
        None \<Rightarrow> None
      | Some (b, rest) \<Rightarrow>
          if b < 128 then map_option ((#) (char_of b)) (decodeURIComponent rest)
          else if b = 194 \<or> b = 195
          then (case take_byte rest of
                  None \<Rightarrow> None
                | Some (d, rest') \<Rightarrow>
                    if 128 \<le> d \<and> d < 192 then map_option ((#) (char_of ((b - 192) * 64 + (d - 128)))) (decodeURIComponent rest')
                    else None)
          else None)"
  by pat_completeness auto
termination
proof (relation "measure length")
  fix c cs x b rest y d rest'
  assume "take_byte (c # cs) = Some x" and "(b, rest) = x" and "take_byte rest = Some y" and "(d, rest') = y"
  then have "length rest < length (c # cs)" and "length rest' < length rest"
    using take_byte_length by metis+
  then show "(rest', c # cs) \<in> measure length" by simp
qed (auto dest: take_byte_length)

section \<open>Variables\<close>

record variables =
  v_values :: "(string \<times> string) list"  \<comment> \<open>\<open>_globalVariableValues\<close>\<close>
  v_defaults :: "(string \<times> string) list"  \<comment> \<open>\<open>document.globalVariables\<close>\<close>
  v_defined :: "string list"  \<comment> \<open>\<open>pageData.variables\<close>\<close>
  v_pageData :: bool  \<comment> \<open>the data of the page have been loaded\<close>
  v_posted :: "(string \<times> string) list list"  \<comment> \<open>messages \<open>globalVariableValues\<close>\<close>
  v_broadcast :: "(string \<times> string) list"  \<comment> \<open>messages \<open>setGlobalVar\<close>\<close>
  v_alerts :: "string list"

definition getVariableValue :: "(string \<Rightarrow> string option) \<Rightarrow> string \<Rightarrow> bool \<Rightarrow> variables \<Rightarrow> string option" where
  "getVariableValue special variable ignoreDefaultsForLinkUrl v =
     (let key = to_lower variable in
      case map_of (v_values v) key of
        Some x \<Rightarrow> if ignoreDefaultsForLinkUrl \<and> map_of (v_defaults v) key = Some x then None else Some x
      | None \<Rightarrow>
          (case map_of (v_defaults v) key of
             Some d \<Rightarrow> if ignoreDefaultsForLinkUrl then None else Some d
           | None \<Rightarrow> special key))"

definition postGlobalVarVals :: "(string \<Rightarrow> string option) \<Rightarrow> variables \<Rightarrow> variables" where
  "postGlobalVarVals special v =
     v\<lparr>v_posted := v_posted v @
        [List.map_filter (\<lambda>key. map_option (Pair key) (getVariableValue special key False v)) (v_defined v)]\<rparr>"

definition setVariableValue :: "(string \<Rightarrow> string option) \<Rightarrow> string \<Rightarrow> string \<Rightarrow> bool \<Rightarrow> variables \<Rightarrow> variables" where
  "setVariableValue special variable new suppressBroadcast v =
     (let key = to_lower variable;
          v1 = v\<lparr>v_values := put_header key new (v_values v)\<rparr>;
          v2 = (if suppressBroadcast then v1 else v1\<lparr>v_broadcast := v_broadcast v1 @ [(key, new)]\<rparr>)
      in if v_pageData v2 then postGlobalVarVals special v2 else v2)"

definition link_part :: "string \<times> string \<Rightarrow> string" where
  "link_part = (\<lambda>(key, x). key @ ''='' @ encodeURIComponent x)"

definition link_url :: "bool \<Rightarrow> string \<Rightarrow> (string \<times> string) list \<Rightarrow> string" where
  "link_url server baseUrl kvs =
     (if kvs = [] then baseUrl
      else baseUrl @ (if server then ''?'' else ''#'') @ join_with ''&'' (map link_part kvs) @ ''&CSUM=1'')"

definition getLinkUrl :: "(string \<Rightarrow> string option) \<Rightarrow> bool \<Rightarrow> string \<Rightarrow> variables \<Rightarrow> string" where
  "getLinkUrl special server baseUrl v =
     link_url server baseUrl
       (List.map_filter (\<lambda>key. map_option (Pair key) (getVariableValue special key True v)) (v_defined v))"

text \<open>What a page does with its address when it is loaded; \<open>None\<close> is an exception of the decoding.\<close>

definition fragment :: "string \<Rightarrow> string" where
  "fragment href = (case split_on CHR ''#'' href of a # b # rest \<Rightarrow> b | _ \<Rightarrow> [])"

fun load_vars :: "(string \<Rightarrow> string option) \<Rightarrow> string list \<Rightarrow> bool \<Rightarrow> variables \<Rightarrow> (bool \<times> variables) option" where
  "load_vars special [] csum v = Some (csum, v)"
| "load_vars special (x # xs) csum v =
     (let pair = split_on CHR ''='' x; varName = hd pair in
      if varName = [] then load_vars special xs csum v
      else if varName = ''CSUM'' then load_vars special xs True v
      else case (if length pair < 2 then Some ''undefined'' else decodeURIComponent (pair ! 1)) of
             None \<Rightarrow> None
           | Some x \<Rightarrow> load_vars special xs csum (setVariableValue special varName x True v))"

definition load :: "(string \<Rightarrow> string option) \<Rightarrow> string \<Rightarrow> variables \<Rightarrow> variables option" where
  "load special href v =
     (let query = fragment href in
      if query = [] then Some v
      else map_option (\<lambda>(csum, v). if \<not> csum \<and> 250 < length query then v\<lparr>v_alerts := v_alerts v @ [''variables too long'']\<rparr> else v)
             (load_vars special (split_on CHR ''&'' query) False v))"

text \<open>Messages of the other pages ask for the values or take them back to their defaults.\<close>

definition global_message :: "(string \<Rightarrow> string option) \<Rightarrow> string \<Rightarrow> variables \<Rightarrow> variables" where
  "global_message special message v =
     (if message = ''getGlobalVariables'' then postGlobalVarVals special v
      else if message = ''resetGlobalVariables'' then postGlobalVarVals special (v\<lparr>v_values := []\<rparr>)
      else v)"

lemma reset_to_defaults:
  "map_of (v_defaults v) (to_lower key) = Some d \<Longrightarrow>
   getVariableValue special key False (global_message special ''resetGlobalVariables'' v) = Some d"
  by (simp add: getVariableValue_def global_message_def postGlobalVarVals_def Let_def)

section \<open>The player\<close>

text \<open>The frame around the pages keeps the variables it is told of, in order, and makes the same kind of link.\<close>

definition player_message :: "string \<times> string \<Rightarrow> (string \<times> string) list \<Rightarrow> (string \<times> string) list" where
  "player_message kv vars = put_header (fst kv) (snd kv) vars"

definition player_link :: "bool \<Rightarrow> string \<Rightarrow> (string \<times> string) list \<Rightarrow> string" where
  "player_link server baseUrl vars = link_url server baseUrl vars"

section \<open>Decoding undoes encoding\<close>

lemma hex_value_upper: "d < 16 \<Longrightarrow> hex_value (hex_upper d) = Some d"
  by (auto simp: hex_value_def hex_upper_def of_char_of Let_def)

lemma take_byte_percent: "b < 256 \<Longrightarrow> take_byte (percent b @ rest) = Some (b, rest)"
  by (simp add: take_byte_def percent_def hex_value_upper)

lemma percent_head: "percent b @ rest = CHR ''%'' # tl (percent b) @ rest"
  by (simp add: percent_def)

lemma two_byte_lead: "128 \<le> n \<Longrightarrow> n < 256 \<Longrightarrow> 192 + n div 64 = 194 \<or> 192 + n div 64 = 195" for n :: nat
  by linarith

lemma decode_encode_char:
  "decodeURIComponent (encode_char c @ rest) = map_option ((#) c) (decodeURIComponent rest)"
proof -
  let ?n = "of_char c :: nat"
  have n: "?n < 256" by (rule nat_of_char_less_256)
  consider "component_char c" | "\<not> component_char c" "?n < 128" | "\<not> component_char c" "128 \<le> ?n" by linarith
  then show ?thesis
  proof cases
    case 1
    then have "c \<noteq> CHR ''%''" by (auto simp: component_char_def)
    with 1 show ?thesis by (simp add: encode_char_def)
  next
    case 2
    have "take_byte (CHR ''%'' # tl (percent ?n) @ rest) = Some (?n, rest)"
      using take_byte_percent [of ?n rest] n by (simp add: percent_head)
    with 2 show ?thesis by (simp add: encode_char_def percent_head [of ?n rest] Let_def)
  next
    case 3
    define b d where bd: "b = 192 + ?n div 64" "d = 128 + ?n mod 64"
    have b: "b = 194 \<or> b = 195" unfolding bd by (rule two_byte_lead [OF 3(2) n])
    have d: "128 \<le> d" "d < 192" "(b - 192) * 64 + (d - 128) = ?n" unfolding bd by simp_all
    have e: "encode_char c = percent b @ percent d" using 3 by (simp add: encode_char_def bd Let_def)
    have tb: "take_byte (CHR ''%'' # tl (percent b) @ percent d @ rest) = Some (b, percent d @ rest)"
      using take_byte_percent [of b "percent d @ rest"] b by (auto simp: percent_head)
    have td: "take_byte (percent d @ rest) = Some (d, rest)" by (rule take_byte_percent) (use d in simp)
    have "decodeURIComponent (encode_char c @ rest) = decodeURIComponent (CHR ''%'' # tl (percent b) @ percent d @ rest)"
      by (simp only: e append_assoc percent_head [of b "percent d @ rest"])
    also have "\<dots> = map_option ((#) (char_of ((b - 192) * 64 + (d - 128)))) (decodeURIComponent rest)"
      using b d(1,2) by (subst decodeURIComponent.simps(2)) (auto simp add: tb td simp del: decodeURIComponent.simps)
    finally show ?thesis by (simp add: d(3))
  qed
qed

lemma decode_encode: "decodeURIComponent (encodeURIComponent s) = Some s"
proof (induction s)
  case (Cons c s)
  then show ?case using decode_encode_char [of c "encodeURIComponent s"] by (simp add: encodeURIComponent_def)
qed (simp add: encodeURIComponent_def)

section \<open>Variables survive a link\<close>

text \<open>A name that can stand in a fragment: lower case, and none of the characters that separate.\<close>

definition plain_key :: "string \<Rightarrow> bool" where
  "plain_key k \<longleftrightarrow> k \<noteq> [] \<and> to_lower k = k \<and> set k \<inter> {CHR ''#'', CHR ''&'', CHR ''=''} = {}"

lemma plain_not_csum: "plain_key k \<Longrightarrow> k \<noteq> ''CSUM''"
proof -
  have "to_lower ''CSUM'' \<noteq> ''CSUM''" by code_simp
  then show "plain_key k \<Longrightarrow> k \<noteq> ''CSUM''" by (auto simp only: plain_key_def)
qed

lemma encode_safe: "set (encodeURIComponent s) \<inter> {CHR ''#'', CHR ''&'', CHR ''=''} = {}"
proof -
  have "list_all (\<lambda>d. hex_upper d \<notin> {CHR ''#'', CHR ''&'', CHR ''=''}) [0..<16]" by code_simp
  then have hex: "hex_upper (n mod 16) \<notin> {CHR ''#'', CHR ''&'', CHR ''=''}" for n
    by (auto simp: list_all_iff simp del: upt_rec_numeral)
  have "set (encode_char c) \<inter> {CHR ''#'', CHR ''&'', CHR ''=''} = {}" for c
  proof -
    have "set (percent b) \<inter> {CHR ''#'', CHR ''&'', CHR ''=''} = {}" if "b < 256" for b
    proof -
      have "b div 16 = b div 16 mod 16" using that by simp
      then show ?thesis using hex [of b] hex [of "b div 16"] by (auto simp: percent_def)
    qed
    moreover have "(of_char c :: nat) < 256" by (rule nat_of_char_less_256)
    then have "of_char c div 64 < (4 :: nat)" by (simp add: less_mult_imp_div_less)
    then have "192 + of_char c div 64 < (256 :: nat)" "128 + of_char c mod 64 < (256 :: nat)" by auto
    ultimately show ?thesis by (auto simp: encode_char_def component_char_def Let_def)
  qed
  then show ?thesis by (auto simp: encodeURIComponent_def)
qed

definition assign :: "(string \<times> string) list \<Rightarrow> (string \<times> string) list \<Rightarrow> (string \<times> string) list" where
  "assign kvs old = fold (\<lambda>(k, x). put_header k x) kvs old"

lemma map_of_assign:
  "distinct (map fst kvs) \<Longrightarrow> map_of (assign kvs old) j = (case map_of kvs j of Some x \<Rightarrow> Some x | None \<Rightarrow> map_of old j)"
proof (induction kvs arbitrary: old)
  case (Cons kv kvs)
  have "map_of kvs (fst kv) = None" using Cons.prems by (simp add: map_of_eq_None_iff)
  with Cons show ?case
    by (cases kv) (auto simp: assign_def map_of_put_header split: option.splits)
qed (simp add: assign_def)

lemma set_frame:
  "v_values (setVariableValue special k x b v) = put_header (to_lower k) x (v_values v)"
  "v_defaults (setVariableValue special k x b v) = v_defaults v" "v_alerts (setVariableValue special k x b v) = v_alerts v"
  by (simp_all add: setVariableValue_def postGlobalVarVals_def Let_def)

lemma load_link_parts:
  assumes "\<forall>(k, x)\<in>set kvs. plain_key k"
  shows "\<exists>w. load_vars special (map link_part kvs @ [''CSUM=1'']) csum v = Some (True, w) \<and>
    v_values w = assign kvs (v_values v) \<and> v_defaults w = v_defaults v \<and> v_alerts w = v_alerts v"
  using assms
proof (induction kvs arbitrary: csum v)
  case Nil
  have "split_on CHR ''='' ''CSUM=1'' = [''CSUM'', ''1'']" by code_simp
  then show ?case by (simp add: assign_def)
next
  case (Cons kv kvs)
  obtain k x where kv: "kv = (k, x)" by fastforce
  have k: "plain_key k" using Cons.prems kv by simp
  then have "CHR ''='' \<notin> set k" "k \<noteq> []" "to_lower k = k" by (auto simp: plain_key_def)
  moreover have "CHR ''='' \<notin> set (encodeURIComponent x)" using encode_safe [of x] by auto
  ultimately have "split_on CHR ''='' (link_part kv) = [k, encodeURIComponent x]"
    by (simp add: kv link_part_def split_on_append split_on_id)
  then have "load_vars special (map link_part (kv # kvs) @ [''CSUM=1'']) csum v =
      load_vars special (map link_part kvs @ [''CSUM=1'']) csum (setVariableValue special k x True v)"
    using \<open>k \<noteq> []\<close> plain_not_csum [OF k] by (simp add: decode_encode)
  with Cons.IH [of csum "setVariableValue special k x True v"] Cons.prems \<open>to_lower k = k\<close> show ?case
    by (auto simp: kv set_frame assign_def)
qed

lemma join_snoc: "ps \<noteq> [] \<Longrightarrow> join_with sep ps @ sep @ q = join_with sep (ps @ [q])"
  by (induction sep ps rule: join_with.induct) auto

lemma load_link:
  assumes "CHR ''#'' \<notin> set baseUrl" and "\<forall>(k, x)\<in>set kvs. plain_key k"
  shows "\<exists>w. load special (link_url False baseUrl kvs) v = Some w \<and>
    v_values w = assign kvs (v_values v) \<and> v_defaults w = v_defaults v \<and> v_alerts w = v_alerts v"
proof (cases "kvs = []")
  case True
  with assms(1) show ?thesis by (simp add: load_def link_url_def fragment_def split_on_id assign_def)
next
  case False
  let ?parts = "map link_part kvs @ [''CSUM=1'']"
  let ?query = "join_with ''&'' ?parts"
  have part: "set (link_part (k, x)) \<inter> {CHR ''#'', CHR ''&''} = {}" if "(k, x) \<in> set kvs" for k x
  proof -
    have "plain_key k" using that assms(2) by auto
    then have "set k \<inter> {CHR ''#'', CHR ''&''} = {}" by (auto simp: plain_key_def)
    with encode_safe [of x] show ?thesis by (auto simp: link_part_def)
  qed
  have safe: "\<forall>p\<in>set ?parts. CHR ''&'' \<notin> set p \<and> CHR ''#'' \<notin> set p"
    using part by fastforce
  have chars: "set (join_with sep ps) \<subseteq> set sep \<union> (\<Union>p\<in>set ps. set p)" for sep :: string and ps
    by (induction sep ps rule: join_with.induct) auto
  have q: "CHR ''#'' \<notin> set ?query"
    using chars [of "''&''" ?parts] safe by auto
  have url: "link_url False baseUrl kvs = baseUrl @ CHR ''#'' # ?query"
    using False join_snoc [of "map link_part kvs" "''&''" "''CSUM=1''"] by (simp add: link_url_def)
  have f: "fragment (link_url False baseUrl kvs) = ?query"
    using assms(1) q by (simp add: url fragment_def split_on_append split_on_id)
  have ne: "?query \<noteq> []"
    using False join_snoc [of "map link_part kvs" "''&''" "''CSUM=1''"] by (metis append_is_Nil_conv list.distinct(1) map_is_Nil_conv)
  have s: "split_on CHR ''&'' ?query = ?parts"
    using safe by (intro split_on_join) auto
  obtain w where w: "load_vars special ?parts False v = Some (True, w)" "v_values w = assign kvs (v_values v)"
    "v_defaults w = v_defaults v" "v_alerts w = v_alerts v"
    using load_link_parts [OF assms(2)] by blast
  show ?thesis using w ne by (intro exI [of _ w]) (simp add: load_def f s Let_def)
qed

definition link_vars :: "(string \<Rightarrow> string option) \<Rightarrow> variables \<Rightarrow> (string \<times> string) list" where
  "link_vars special v = List.map_filter (\<lambda>key. map_option (Pair key) (getVariableValue special key True v)) (v_defined v)"

lemma map_of_filter:
  "map_of (List.map_filter (\<lambda>k. map_option (Pair k) (f k)) ks) j = (if j \<in> set ks then f j else None)"
  by (induction ks) (auto simp: List.map_filter_def split: option.splits)

lemma filter_keys: "distinct ks \<Longrightarrow> distinct (map fst (List.map_filter (\<lambda>k. map_option (Pair k) (f k)) ks))"
proof (induction ks)
  case (Cons k ks)
  have "fst ` set (List.map_filter (\<lambda>k. map_option (Pair k) (f k)) ks) \<subseteq> set ks"
    by (auto simp: List.map_filter_def)
  with Cons show ?case by (auto simp: List.map_filter_def)
qed (simp add: List.map_filter_def)


definition sample_variables :: variables where
  "sample_variables =
     \<lparr>v_values = [(''name'', ''a&b #=1'')], v_defaults = [(''name'', []), (''other'', ''x'')], v_defined = [''name'', ''other''],
      v_pageData = False, v_posted = [], v_broadcast = [], v_alerts = []\<rparr>"


text \<open>An address that has a fragment already loses the variables: the page reads the first fragment only.\<close>

lemma second_fragment_lost:
  "load (\<lambda>k. None) (link_url False ''p.html#top'' [(''name'', ''x'')]) (sample_variables\<lparr>v_values := []\<rparr>) =
   Some (sample_variables\<lparr>v_values := [(''top'', ''undefined'')]\<rparr>)"
  by code_simp

end
