(* ===== verification/Player.thy ===== *)
theory Player
  imports Variables
begin

text \<open>
  The frame around the prototype pages (\<open>axplayer.js\<close>): navigation of the page in the main frame, the
  plug-ins of the tool bar, of which one can be shown, and the manager of global variables. A plug-in is
  named by its id; the events of the document are a log.
\<close>

section \<open>Navigation\<close>

definition loaded_url :: "string \<Rightarrow> string \<Rightarrow> string" where
  "loaded_url winHref address =
     (if index_of CHR '':'' address < 0 \<or> (\<exists>rest. address = CHR ''/'' # rest)
      then substring winHref 0 (last_index_of CHR ''/'' winHref + 1) @ address
      else address)"

lemma loaded_url_code [code]:
  "loaded_url winHref address =
     (if index_of CHR '':'' address < 0 \<or> take 1 address = ''/''
      then substring winHref 0 (last_index_of CHR ''/'' winHref + 1) @ address
      else address)"
  by (cases address) (auto simp: loaded_url_def)

text \<open>\<open>location\<close> is that of the page in the main frame, as the state \<open>page.data\<close> says; its fragment is cut.\<close>

definition before_hash :: "string \<Rightarrow> string" where
  "before_hash s = (if index_of CHR ''#'' s \<noteq> - 1 then substring s 0 (index_of CHR ''#'' s) else s)"

definition navigate :: "bool \<Rightarrow> string \<Rightarrow> string option \<Rightarrow> (string \<times> string) list \<Rightarrow> string \<Rightarrow> bool \<Rightarrow> string" where
  "navigate server winHref location vars address includeVariables =
     (let urlToLoad = loaded_url winHref address in
      if \<not> includeVariables then urlToLoad
      else let urlWithVars = player_link server urlToLoad vars;
               currentUrl = before_hash (case location of Some l \<Rightarrow> l | None \<Rightarrow> [])
           in if currentUrl \<noteq> [] \<and> to_lower urlToLoad \<noteq> to_lower currentUrl then urlWithVars
              else ''resources/reload.html#'' @ encodeURI urlWithVars)"

section \<open>Plug-ins\<close>

record host =
  h_id :: string
  h_gid :: string
  h_visible :: bool
  h_selected :: bool  \<comment> \<open>its link in the header\<close>

record player =
  p_hosts :: "host list"  \<comment> \<open>in the order of their creation\<close>
  p_header :: "string list"  \<comment> \<open>the links in the header\<close>
  p_current :: "string option"  \<comment> \<open>\<open>currentVisibleHostId\<close>\<close>
  p_collapsed :: bool
  p_log :: "(string \<times> string) list"

definition player_log :: "string \<Rightarrow> string \<Rightarrow> player \<Rightarrow> player" where
  "player_log e x p = p\<lparr>p_log := p_log p @ [(e, x)]\<rparr>"

text \<open>A link is put before that of the debugger in one case. \<open>None\<close> is an exception.\<close>

fun insert_before :: "string \<Rightarrow> string \<Rightarrow> string list \<Rightarrow> string list" where
  "insert_before x y [] = []"
| "insert_before x y (z # zs) = (if z = y then x # z # zs else z # insert_before x y zs)"

definition createPluginHost :: "string option \<Rightarrow> string \<Rightarrow> string \<Rightarrow> player \<Rightarrow> player option" where
  "createPluginHost ctxt name gid p =
     (if ctxt \<notin> {None, Some [], Some ''interface''} then None
      else if name = [] then None
      else let first = (name = ''feedbackHost'' \<or> name = ''feedbackContainer'') \<and>
                 p_hosts p \<noteq> [] \<and> h_id (last (p_hosts p)) = ''debugHost''
           in Some (player_log ''pluginCreated'' gid
                (p\<lparr>p_hosts := p_hosts p @ [\<lparr>h_id = name, h_gid = gid, h_visible = False, h_selected = False\<rparr>],
                   p_header := (if first then insert_before name ''debugHost'' (p_header p) else p_header p @ [name])\<rparr>)))"

definition change_host :: "string \<Rightarrow> (host \<Rightarrow> host) \<Rightarrow> player \<Rightarrow> player" where
  "change_host i f p = p\<lparr>p_hosts := map (\<lambda>h. if h_id h = i then f h else h) (p_hosts p)\<rparr>"

definition plugin_gid :: "string \<Rightarrow> player \<Rightarrow> string" where
  "plugin_gid i p = (case find (\<lambda>h. h_id h = i) (p_hosts p) of Some h \<Rightarrow> h_gid h | None \<Rightarrow> [])"

definition headerButton_click :: "string \<Rightarrow> player \<Rightarrow> player" where
  "headerButton_click i p =
     (if list_ex (\<lambda>h. h_id h = i \<and> h_selected h) (p_hosts p)
      then player_log ''ContainerHeightChange'' []
        (player_log ''pluginShown'' []
          ((change_host i (\<lambda>h. h\<lparr>h_visible := False, h_selected := False\<rparr>) p)\<lparr>p_collapsed := True\<rparr>))
      else let p1 = p\<lparr>p_hosts := map (\<lambda>h. h\<lparr>h_selected := h_id h = i\<rparr>) (p_hosts p)\<rparr>;
               p2 = (case p_current p of Some j \<Rightarrow> change_host j (\<lambda>h. h\<lparr>h_visible := False\<rparr>) p1 | None \<Rightarrow> p1);
               p3 = change_host i (\<lambda>h. h\<lparr>h_visible := True\<rparr>) p2
           in player_log ''ContainerHeightChange'' []
                (player_log ''pluginShown'' (plugin_gid i p) (p3\<lparr>p_current := Some i, p_collapsed := False\<rparr>)))"

definition showPlugin :: "string \<Rightarrow> player \<Rightarrow> player" where
  "showPlugin gid p =
     (case find (\<lambda>h. h_gid h = gid) (p_hosts p) of Some h \<Rightarrow> headerButton_click (h_id h) p | None \<Rightarrow> p)"

datatype player_event = Create "string option" string string | Click string | Show string

text \<open>A link can be clicked when it exists; ids of plug-ins are different; an exception leaves the player as it is.\<close>

fun player_step :: "player_event \<Rightarrow> player \<Rightarrow> player" where
  "player_step (Create ctxt name gid) p =
     (if name \<in> h_id ` set (p_hosts p) then p
      else case createPluginHost ctxt name gid p of Some q \<Rightarrow> q | None \<Rightarrow> p)"
| "player_step (Click i) p = (if i \<in> h_id ` set (p_hosts p) then headerButton_click i p else p)"
| "player_step (Show gid) p = showPlugin gid p"

definition new_player :: player where
  "new_player = \<lparr>p_hosts = [], p_header = [], p_current = None, p_collapsed = False, p_log = []\<rparr>"

section \<open>The manager of global variables\<close>

record state_manager =
  globalVariableValues :: "(string \<times> string) list"
  sm_events :: "(string \<times> string \<times> string option \<times> string) list"  \<comment> \<open>name, new value, old value, source\<close>

definition getGlobalVariable :: "string \<Rightarrow> state_manager \<Rightarrow> string option" where
  "getGlobalVariable name m = map_of (globalVariableValues m) name"

definition setGlobalVariable :: "string \<Rightarrow> string \<Rightarrow> string \<Rightarrow> state_manager \<Rightarrow> state_manager" where
  "setGlobalVariable name new source m =
     m\<lparr>globalVariableValues := put_header name new (globalVariableValues m),
       sm_events := sm_events m @ [(name, new, getGlobalVariable name m, source)]\<rparr>"

lemma get_set_variable:
  "getGlobalVariable k (setGlobalVariable name new source m) = (if k = name then Some new else getGlobalVariable k m)"
  by (simp add: getGlobalVariable_def setGlobalVariable_def map_of_put_header)

section \<open>One plug-in is shown\<close>

definition one_shown :: "player \<Rightarrow> bool" where
  "one_shown p \<longleftrightarrow>
     distinct (map h_id (p_hosts p)) \<and> (\<forall>h\<in>set (p_hosts p). h_visible h = h_selected h \<and> (h_visible h \<longrightarrow> p_current p = Some (h_id h)))"

lemma one_shownI:
  "distinct (map h_id (p_hosts p)) \<Longrightarrow> (\<And>h. h \<in> set (p_hosts p) \<Longrightarrow> h_visible h = h_selected h) \<Longrightarrow>
   (\<And>h. h \<in> set (p_hosts p) \<Longrightarrow> h_visible h \<Longrightarrow> p_current p = Some (h_id h)) \<Longrightarrow> one_shown p"
  by (simp add: one_shown_def)

lemma log_fields [simp]:
  "p_hosts (player_log e x p) = p_hosts p" "p_current (player_log e x p) = p_current p"
  by (simp_all add: player_log_def)

lemma change_fields [simp]:
  "p_hosts (change_host i f p) = map (\<lambda>h. if h_id h = i then f h else h) (p_hosts p)" "p_current (change_host i f p) = p_current p"
  by (simp_all add: change_host_def)

definition click_host :: "string \<Rightarrow> string option \<Rightarrow> host \<Rightarrow> host" where
  "click_host i cur h = h\<lparr>h_visible := h_id h = i \<or> h_visible h \<and> cur \<noteq> Some (h_id h), h_selected := h_id h = i\<rparr>"

lemma click_hosts:
  "p_hosts (headerButton_click i p) =
     (if list_ex (\<lambda>h. h_id h = i \<and> h_selected h) (p_hosts p)
      then map (\<lambda>h. if h_id h = i then h\<lparr>h_visible := False, h_selected := False\<rparr> else h) (p_hosts p)
      else map (click_host i (p_current p)) (p_hosts p))"
  "p_current (headerButton_click i p) =
     (if list_ex (\<lambda>h. h_id h = i \<and> h_selected h) (p_hosts p) then p_current p else Some i)"
  by (auto simp: headerButton_click_def click_host_def Let_def split: option.split)

lemma click_shown: "one_shown p \<Longrightarrow> one_shown (headerButton_click i p)"
proof -
  assume p: "one_shown p"
  then have d: "distinct (map h_id (p_hosts p))" by (simp add: one_shown_def)
  have shown: "h_visible h = h_selected h" "h_visible h \<Longrightarrow> p_current p = Some (h_id h)" if "h \<in> set (p_hosts p)" for h
    using p that by (auto simp: one_shown_def)
  show ?thesis
  proof (cases "list_ex (\<lambda>h. h_id h = i \<and> h_selected h) (p_hosts p)")
    case True
    let ?f = "\<lambda>h. if h_id h = i then h\<lparr>h_visible := False, h_selected := False\<rparr> else h"
    have "map h_id (map ?f (p_hosts p)) = map h_id (p_hosts p)" by simp
    with True d shown show ?thesis by (intro one_shownI) (auto simp: click_hosts simp del: map_map)
  next
    case False
    have "map h_id (map (click_host i (p_current p)) (p_hosts p)) = map h_id (p_hosts p)"
      by (simp add: click_host_def)
    with False d shown show ?thesis
      by (intro one_shownI) (auto simp: click_hosts click_host_def simp del: map_map)
  qed
qed

lemma create_shown:
  assumes "one_shown p" and "createPluginHost ctxt name gid p = Some q" and "name \<notin> h_id ` set (p_hosts p)"
  shows "one_shown q"
proof -
  have "p_hosts q = p_hosts p @ [\<lparr>h_id = name, h_gid = gid, h_visible = False, h_selected = False\<rparr>]" "p_current q = p_current p"
    using assms(2) by (auto simp: createPluginHost_def Let_def split: if_splits)
  with assms(1,3) show ?thesis by (auto simp: one_shown_def)
qed

lemma step_shown: "one_shown p \<Longrightarrow> one_shown (player_step e p)"
  by (cases e) (auto simp: click_shown showPlugin_def create_shown split: option.split)

lemma one_shown_filter:
  assumes "one_shown p"
  shows "length (filter h_visible (p_hosts p)) \<le> 1"
proof -
  let ?v = "filter h_visible (p_hosts p)"
  have "distinct (map h_id ?v)" using assms by (simp add: one_shown_def distinct_map_filter)
  moreover have "set (map h_id ?v) \<subseteq> set_option (p_current p)" using assms by (auto simp: one_shown_def)
  ultimately have "length (map h_id ?v) \<le> card (set_option (p_current p))"
    by (cases "p_current p") (metis card_mono distinct_card finite.intros option.set)+
  also have "\<dots> \<le> 1" by (cases "p_current p") simp_all
  finally show ?thesis by simp
qed

text \<open>
  However plug-ins are created, clicked and shown, a plug-in is visible exactly if its
  link is selected, and at most one is.
\<close>

theorem plugins_exclusive:
  "map h_visible (p_hosts (fold player_step es new_player)) = map h_selected (p_hosts (fold player_step es new_player)) \<and>
   length (filter h_visible (p_hosts (fold player_step es new_player))) \<le> 1"
proof -
  have "one_shown (fold player_step es p)" if "one_shown p" for p
    using that by (induction es arbitrary: p) (simp_all add: step_shown del: player_step.simps)
  moreover have "one_shown new_player" by (simp add: one_shown_def new_player_def)
  ultimately have "one_shown (fold player_step es new_player)" by blast
  then show ?thesis using one_shown_filter by (simp add: one_shown_def)
qed

text \<open>\<open>showPlugin\<close> clicks the link of the plug-in, which hides one that is shown.\<close>

lemma show_hides:
  "one_shown p \<Longrightarrow> p_hosts p = [h] \<Longrightarrow> h_visible h \<Longrightarrow> p_hosts (showPlugin (h_gid h) p) = [h\<lparr>h_visible := False, h_selected := False\<rparr>]"
  by (simp add: showPlugin_def headerButton_click_def one_shown_def Let_def)

end
