(* ===== verification/Sto.thy ===== *)
theory Sto
  imports Double Calendar GVerify
begin

text \<open>
  The expressions of the prototype pages (\<open>sto.js\<close> in \<open>prototypePost.js\<close>): values of JavaScript, the
  operators, the functions on dates, casts to the computed or desired type, and the evaluation.

  Dates and number objects are objects: \<open>nat\<close> is their identity, and evaluation counts the objects it
  makes. What is not in the file is the \<open>host\<close>: global variables, data of repeaters, properties and
  methods of other values, and how the browser prints and parses dates. \<open>None\<close> is an exception. Local time
  differs from universal time by a constant \<open>zone\<close>.
\<close>

section \<open>Values\<close>

datatype 'o sval =
  Undef
| Null
| Bool bool
| Num double
| Str units
| Date nat "int option"  \<comment> \<open>milliseconds, unless the date is invalid\<close>
| NumObj nat double
| Obj 'o

record 'o host =
  hs_var :: "string \<Rightarrow> 'o sval"  \<comment> \<open>\<open>globalVariableProvider.getVariableValue\<close>\<close>
  hs_expr :: "'o \<Rightarrow> 'o sval option"  \<comment> \<open>the value of an object with an \<open>exprType\<close>\<close>
  hs_hasData :: "string \<Rightarrow> bool"
  hs_data :: "bool \<Rightarrow> string \<Rightarrow> string \<Rightarrow> 'o sval"  \<comment> \<open>of the target element or of the source\<close>
  hs_kind :: string  \<comment> \<open>the property an item has in this event\<close>
  hs_prop :: "'o sval \<Rightarrow> string \<Rightarrow> 'o sval"
  hs_method :: "'o sval \<Rightarrow> string \<Rightarrow> 'o sval list \<Rightarrow> 'o sval option"
  hs_prim :: "'o \<Rightarrow> 'o sval"  \<comment> \<open>the primitive value of another object\<close>
  hs_print :: "int option \<Rightarrow> units"
  hs_parse :: "units \<Rightarrow> int option"
  hs_zone :: int

definition lower_units :: "units \<Rightarrow> units" where
  "lower_units s = map (\<lambda>c. if 65 \<le> c \<and> c \<le> 90 then c + 32 else c) s"

fun prim_number :: "'o sval \<Rightarrow> double" where
  "prim_number Null = Fin 0"
| "prim_number (Bool b) = Fin (if b then 1 else 0)"
| "prim_number (Num x) = x"
| "prim_number (Str s) = double_of_number (string_to_number s)"
| "prim_number v = NotANumber"

definition date_number :: "int option \<Rightarrow> double" where
  "date_number t = (case t of Some t \<Rightarrow> Fin (of_int t) | None \<Rightarrow> NotANumber)"

text \<open>\<open>Number(v)\<close>, \<open>String(v)\<close> and \<open>Boolean(v)\<close>.\<close>

fun to_num :: "'o host \<Rightarrow> 'o sval \<Rightarrow> double" where
  "to_num h (Date i t) = date_number t"
| "to_num h (NumObj i x) = x"
| "to_num h (Obj x) = prim_number (hs_prim h x)"
| "to_num h v = prim_number v"

fun prim_text :: "'o sval \<Rightarrow> units" where
  "prim_text Null = u ''null''"
| "prim_text (Bool b) = u (if b then ''true'' else ''false'')"
| "prim_text (Num x) = u (number_text x)"
| "prim_text (Str s) = s"
| "prim_text v = u ''undefined''"

fun to_text :: "'o host \<Rightarrow> 'o sval \<Rightarrow> units" where
  "to_text h (Date i t) = hs_print h t"
| "to_text h (NumObj i x) = u (number_text x)"
| "to_text h (Obj x) = prim_text (hs_prim h x)"
| "to_text h v = prim_text v"

fun to_bool :: "'o sval \<Rightarrow> bool" where
  "to_bool Undef = False"
| "to_bool Null = False"
| "to_bool (Bool b) = b"
| "to_bool (Num x) = (x \<noteq> Fin 0 \<and> x \<noteq> NotANumber)"
| "to_bool (Str s) = (s \<noteq> [])"
| "to_bool v = True"

text \<open>What an object becomes in a comparison or an addition.\<close>

fun primitive :: "'o host \<Rightarrow> 'o sval \<Rightarrow> 'o sval" where
  "primitive h (Date i t) = Str (hs_print h t)"
| "primitive h (NumObj i x) = Num x"
| "primitive h (Obj x) = hs_prim h x"
| "primitive h v = v"

fun is_object :: "'o sval \<Rightarrow> bool" where
  "is_object (Date i t) = True"
| "is_object (NumObj i x) = True"
| "is_object (Obj x) = True"
| "is_object v = False"

fun missing :: "'o sval \<Rightarrow> bool" where
  "missing Undef = True"
| "missing Null = True"
| "missing v = False"

fun eq_prim :: "'o sval \<Rightarrow> 'o sval \<Rightarrow> bool" where
  "eq_prim (Str s) (Str t) = (s = t)"
| "eq_prim v w = (missing v \<and> missing w \<or> \<not> missing v \<and> \<not> missing w \<and> eq_double (prim_number v) (prim_number w))"

text \<open>The operator \<open>==\<close>: objects are equal when they are the same one.\<close>

fun same_object :: "'o sval \<Rightarrow> 'o sval \<Rightarrow> bool" where
  "same_object (Date i s) (Date j t) = (i = j)"
| "same_object (NumObj i x) (NumObj j y) = (i = j)"
| "same_object (Obj x) (Obj y) = (x = y)"
| "same_object v w = False"

definition js_eq :: "'o host \<Rightarrow> 'o sval \<Rightarrow> 'o sval \<Rightarrow> bool" where
  "js_eq h v w =
     (if is_object v \<and> is_object w then same_object v w
      else if missing v \<or> missing w then missing v \<and> missing w
      else eq_prim (primitive h v) (primitive h w))"

section \<open>Dates\<close>

definition time_clip :: "double \<Rightarrow> int option" where
  "time_clip x =
     (case x of Fin t \<Rightarrow> if \<bar>t\<bar> \<le> 8640000000000000 then Some (trunc_rat t) else None | _ \<Rightarrow> None)"

definition local_day :: "'o host \<Rightarrow> int \<Rightarrow> int" where
  "local_day h t = (t + hs_zone h) div 86400000"

definition getDate :: "'o host \<Rightarrow> int \<Rightarrow> int" where
  "getDate h t = (case civil (local_day h t) of (y, m, d) \<Rightarrow> d)"

text \<open>A setter replaces fields of the local time by a number cut to an integer; NaN and infinities make the date invalid.\<close>

definition set_fields :: "'o host \<Rightarrow> (int \<Rightarrow> int \<Rightarrow> int) \<Rightarrow> int option \<Rightarrow> double \<Rightarrow> int option" where
  "set_fields h change t x =
     (case (t, x) of
        (Some t, Fin x) \<Rightarrow> time_clip (Fin (of_int (change t (trunc_rat x))))
      | _ \<Rightarrow> None)"

definition set_date :: "'o host \<Rightarrow> int option \<Rightarrow> double \<Rightarrow> int option" where
  "set_date h = set_fields h (\<lambda>t n. t + (n - getDate h t) * 86400000)"

definition set_year_month :: "'o host \<Rightarrow> bool \<Rightarrow> int option \<Rightarrow> double \<Rightarrow> int option" where
  "set_year_month h year =
     set_fields h (\<lambda>t n.
       case civil (local_day h t) of
         (y, m, d) \<Rightarrow> t + ((if year then make_day n m d else make_day y (n + 1) d) - local_day h t) * 86400000)"

text \<open>The setter of a field that is a number of units within a longer one.\<close>

definition set_unit :: "'o host \<Rightarrow> int \<Rightarrow> int \<Rightarrow> int option \<Rightarrow> double \<Rightarrow> int option" where
  "set_unit h unit count = set_fields h (\<lambda>t n. t + (n - (t + hs_zone h) div unit mod count) * unit)"

definition field_of :: "'o host \<Rightarrow> (int \<Rightarrow> int) \<Rightarrow> int option \<Rightarrow> double" where
  "field_of h f t = (case t of Some t \<Rightarrow> Fin (of_int (f t)) | None \<Rightarrow> NotANumber)"

definition weekday :: "string list" where
  "weekday = [''Sunday'', ''Monday'', ''Tuesday'', ''Wednesday'', ''Thursday'', ''Friday'', ''Saturday'']"

definition month_names :: "string list" where
  "month_names = [''January'', ''February'', ''March'', ''April'', ''May'', ''June'', ''July'', ''August'', ''September'',
     ''October'', ''November'', ''December'']"

text \<open>An index that is not one of the array gives \<open>undefined\<close>.\<close>

definition name_of :: "string list \<Rightarrow> double \<Rightarrow> 'o sval" where
  "name_of names x =
     (case x of
        Fin i \<Rightarrow> if 0 \<le> i \<and> \<lfloor>i\<rfloor> < int (length names) \<and> i = of_int \<lfloor>i\<rfloor> then Str (u (names ! nat \<lfloor>i\<rfloor>)) else Undef
      | _ \<Rightarrow> Undef)"

definition getDayOfWeek :: "'o host \<Rightarrow> int option \<Rightarrow> 'o sval" where
  "getDayOfWeek h t = name_of weekday (field_of h (\<lambda>t. week_day (local_day h t)) t)"

definition month_index :: "'o host \<Rightarrow> int option \<Rightarrow> double" where
  "month_index h t = field_of h (\<lambda>t. fst (snd (civil (local_day h t))) - 1) t"

definition getMonthName :: "'o host \<Rightarrow> int option \<Rightarrow> 'o sval" where
  "getMonthName h t = name_of month_names (month_index h t)"

definition getMonth :: "'o host \<Rightarrow> int option \<Rightarrow> double" where
  "getMonth h t = add_double (month_index h t) (Fin 1)"

definition addYears :: "'o host \<Rightarrow> double \<Rightarrow> int option \<Rightarrow> int option" where
  "addYears h n t = set_year_month h True t (add_double (field_of h (\<lambda>t. fst (civil (local_day h t))) t) n)"

definition addMonths :: "'o host \<Rightarrow> double \<Rightarrow> int option \<Rightarrow> int option" where
  "addMonths h n t = set_year_month h False t (add_double (month_index h t) n)"

definition addDays :: "'o host \<Rightarrow> double \<Rightarrow> int option \<Rightarrow> int option" where
  "addDays h n t = set_date h t (add_double (field_of h (getDate h) t) n)"

definition addUnits :: "'o host \<Rightarrow> int \<Rightarrow> int \<Rightarrow> double \<Rightarrow> int option \<Rightarrow> int option" where
  "addUnits h unit count n t =
     set_unit h unit count t (add_double (field_of h (\<lambda>t. (t + hs_zone h) div unit mod count) t) n)"

definition addHours :: "'o host \<Rightarrow> double \<Rightarrow> int option \<Rightarrow> int option" where
  "addHours h = addUnits h 3600000 24"

definition addMinutes :: "'o host \<Rightarrow> double \<Rightarrow> int option \<Rightarrow> int option" where
  "addMinutes h = addUnits h 60000 60"

definition addSeconds :: "'o host \<Rightarrow> double \<Rightarrow> int option \<Rightarrow> int option" where
  "addSeconds h = addUnits h 1000 60"

definition addMilliseconds :: "'o host \<Rightarrow> double \<Rightarrow> int option \<Rightarrow> int option" where
  "addMilliseconds h = addUnits h 1 1000"

text \<open>The functions of \<open>funcs\<close>; they need a date as \<open>this\<close>.\<close>

definition date_adders :: "(string \<times> ('o host \<Rightarrow> double \<Rightarrow> int option \<Rightarrow> int option)) list" where
  "date_adders =
     [(''addYears'', addYears), (''addMonths'', addMonths), (''addDays'', addDays), (''addHours'', addHours),
      (''addMinutes'', addMinutes), (''addSeconds'', addSeconds), (''addMilliseconds'', addMilliseconds)]"

definition date_getters :: "(string \<times> ('o host \<Rightarrow> int option \<Rightarrow> 'o sval)) list" where
  "date_getters =
     [(''getDayOfWeek'', getDayOfWeek), (''getMonthName'', getMonthName), (''getMonth'', \<lambda>h t. Num (getMonth h t))]"

definition call_func :: "'o host \<Rightarrow> string \<Rightarrow> 'o sval \<Rightarrow> 'o sval list \<Rightarrow> nat \<Rightarrow> ('o sval \<times> nat) option" where
  "call_func h func this args n =
     (case map_of date_getters func of
        Some get \<Rightarrow> (case this of Date i t \<Rightarrow> Some (get h t, n) | _ \<Rightarrow> None)
      | None \<Rightarrow>
          (case map_of date_adders func of
             Some add \<Rightarrow>
               (case this of
                  Date i t \<Rightarrow> Some (Date n (add h (case args of a # _ \<Rightarrow> to_num h a | [] \<Rightarrow> NotANumber) t), n + 1)
                | _ \<Rightarrow> None)
           | None \<Rightarrow> if missing this then None else map_option (\<lambda>v. (v, n)) (hs_method h this func args)))"

section \<open>Operators\<close>

definition getBool :: "'o host \<Rightarrow> 'o sval \<Rightarrow> 'o sval option" where
  "getBool h v =
     (if missing v then None
      else let lowerVal = (case v of Str s \<Rightarrow> Str (lower_units s) | _ \<Rightarrow> v)
           in Some (if js_eq h lowerVal (Str (u ''false'')) then Bool False
                    else if js_eq h lowerVal (Str (u ''true'')) then Bool True else v))"

text \<open>The sum of a number and a value, as a setter reads it: a text is appended to the digits.\<close>

definition plus_value :: "'o host \<Rightarrow> double \<Rightarrow> 'o sval \<Rightarrow> double" where
  "plus_value h x v =
     (case primitive h v of
        Str s \<Rightarrow> double_of_number (string_to_number (u (number_text x) @ s))
      | w \<Rightarrow> add_double x (prim_number w))"

definition addDayToDate :: "'o host \<Rightarrow> int option \<Rightarrow> 'o sval \<Rightarrow> int option" where
  "addDayToDate h t days = set_date h t (plus_value h (field_of h (getDate h) t) days)"

definition op_plus :: "'o host \<Rightarrow> 'o sval \<Rightarrow> 'o sval \<Rightarrow> nat \<Rightarrow> 'o sval \<times> nat" where
  "op_plus h left right n =
     (case left of
        Date i t \<Rightarrow> (Date n (addDayToDate h t right), n + 1)
      | _ \<Rightarrow>
          (case right of
             Date i t \<Rightarrow> (Date n (addDayToDate h t left), n + 1)
           | _ \<Rightarrow> let x = add_double (to_num h left) (to_num h right)
                  in (if x = NotANumber then Str (to_text h left @ to_text h right) else Num x, n)))"

definition op_minus :: "'o host \<Rightarrow> 'o sval \<Rightarrow> 'o sval \<Rightarrow> nat \<Rightarrow> 'o sval \<times> nat" where
  "op_minus h left right n =
     (case left of
        Date i t \<Rightarrow> (Date n (addDayToDate h t (Num (minus_double (to_num h right)))), n + 1)
      | _ \<Rightarrow> (Num (add_double (to_num h left) (minus_double (to_num h right))), n))"

definition op_equal :: "'o host \<Rightarrow> 'o sval \<Rightarrow> 'o sval \<Rightarrow> bool option" where
  "op_equal h left right =
     (case (getBool h left, getBool h right) of (Some v, Some w) \<Rightarrow> Some (js_eq h v w) | _ \<Rightarrow> None)"

text \<open>The operands themselves are the results of \<open>&&\<close> and \<open>||\<close>.\<close>

definition op_logic :: "bool \<Rightarrow> 'o host \<Rightarrow> 'o sval \<Rightarrow> 'o sval \<Rightarrow> 'o sval option" where
  "op_logic both h left right =
     (case getBool h left of
        None \<Rightarrow> None
      | Some v \<Rightarrow> if to_bool v = both then getBool h right else Some v)"

definition arithmetic_ops :: "(string \<times> (double \<Rightarrow> double \<Rightarrow> double)) list" where
  "arithmetic_ops = [(''*'', mult_double), (''/'', div_double), (''%'', mod_double)]"

definition comparison_ops :: "(string \<times> (double \<Rightarrow> double \<Rightarrow> bool)) list" where
  "comparison_ops =
     [(''<'', less_double), (''<='', \<lambda>x y. less_double x y \<or> eq_double x y),
      (''>'', \<lambda>x y. less_double y x), (''>='', \<lambda>x y. less_double y x \<or> eq_double x y)]"

definition binOps :: "'o host \<Rightarrow> string \<Rightarrow> 'o sval \<Rightarrow> 'o sval \<Rightarrow> nat \<Rightarrow> ('o sval \<times> nat) option" where
  "binOps h bop left right n =
     (if bop = ''+'' then Some (op_plus h left right n)
      else if bop = ''-'' then Some (op_minus h left right n)
      else if bop = ''=='' then map_option (\<lambda>b. (Bool b, n)) (op_equal h left right)
      else if bop = ''!='' then map_option (\<lambda>b. (Bool (\<not> b), n)) (op_equal h left right)
      else if bop = ''&&'' then map_option (\<lambda>v. (v, n)) (op_logic True h left right)
      else if bop = ''||'' then map_option (\<lambda>v. (v, n)) (op_logic False h left right)
      else case map_of arithmetic_ops bop of
             Some f \<Rightarrow> Some (Num (f (to_num h left) (to_num h right)), n)
           | None \<Rightarrow>
               (case map_of comparison_ops bop of
                  Some f \<Rightarrow> Some (Bool (f (to_num h left) (to_num h right)), n)
                | None \<Rightarrow> None))"

definition unOps :: "'o host \<Rightarrow> string \<Rightarrow> 'o sval \<Rightarrow> 'o sval option" where
  "unOps h uop v =
     (if uop = ''+'' then Some (Num (to_num h v))
      else if uop = ''-'' then Some (Num (minus_double (to_num h v)))
      else if uop = ''!'' then map_option (\<lambda>w. Bool (\<not> to_bool w)) (getBool h v)
      else None)"

section \<open>Evaluation\<close>

datatype sto_type = TString | TDate | TInt | TFloat | TBool | TOther

record sto_info =
  computedType :: "sto_type option"
  desiredType :: "sto_type option"

datatype 'o sto =
  ErrorSto
| Literal "'o sval" sto_info
| Var string sto_info
| Item string bool sto_info
| Paren "'o sto" sto_info
| FCall "'o sto" string "'o sto list" sto_info
| PropCall "'o sto" string sto_info
| BinOp string "'o sto" "'o sto" sto_info
| UnOp string "'o sto" sto_info

definition no_info :: sto_info where
  "no_info = \<lparr>computedType = None, desiredType = None\<rparr>"

fun info_of :: "'o sto \<Rightarrow> sto_info" where
  "info_of ErrorSto = no_info"
| "info_of (Literal v i) = i"
| "info_of (Var x i) = i"
| "info_of (Item x b i) = i"
| "info_of (Paren e i) = i"
| "info_of (FCall e f es i) = i"
| "info_of (PropCall e p i) = i"
| "info_of (BinOp b l r i) = i"
| "info_of (UnOp b e i) = i"

definition cast_type :: "sto_info \<Rightarrow> sto_type option" where
  "cast_type i = (case computedType i of Some t \<Rightarrow> Some t | None \<Rightarrow> desiredType i)"

definition new_date :: "'o host \<Rightarrow> 'o sval \<Rightarrow> int option" where
  "new_date h v = (case primitive h v of Str s \<Rightarrow> hs_parse h s | w \<Rightarrow> time_clip (prim_number w))"

definition castSto :: "'o host \<Rightarrow> sto_info \<Rightarrow> 'o sval \<Rightarrow> nat \<Rightarrow> 'o sval \<times> nat" where
  "castSto h i v n =
     (case cast_type i of
        Some TString \<Rightarrow> (Str (to_text h v), n)
      | Some TDate \<Rightarrow> (case v of Date j t \<Rightarrow> (v, n) | _ \<Rightarrow> (Date n (new_date h v), n + 1))
      | Some TInt \<Rightarrow> (Num (to_num h v), n)
      | Some TFloat \<Rightarrow> (Num (to_num h v), n)
      | Some TBool \<Rightarrow> (Bool (to_bool v), n)
      | _ \<Rightarrow> (v, n))"

text \<open>Only the first \<open><\<close> of a text is replaced.\<close>

definition escapeRichText :: "'o sval \<Rightarrow> 'o sval" where
  "escapeRichText v =
     (case v of
        Str s \<Rightarrow> Str (if 60 \<in> set s then takeWhile (\<lambda>c. c \<noteq> 60) s @ u ''&lt;'' @ tl (dropWhile (\<lambda>c. c \<noteq> 60) s) else s)
      | _ \<Rightarrow> v)"

definition tryEscapeRichText :: "bool \<Rightarrow> 'o sval \<Rightarrow> 'o sval" where
  "tryEscapeRichText html v = (if html then escapeRichText v else v)"

definition finish_sto :: "'o host \<Rightarrow> bool \<Rightarrow> sto_info \<Rightarrow> 'o sval \<times> nat \<Rightarrow> 'o sval \<times> nat" where
  "finish_sto h html i r = (case castSto h i (fst r) (snd r) of (v, n) \<Rightarrow> (tryEscapeRichText html v, n))"

definition eval_var :: "'o host \<Rightarrow> (string \<times> 'o sval) list \<Rightarrow> string \<Rightarrow> sto_info \<Rightarrow> nat \<Rightarrow> 'o sval \<times> nat" where
  "eval_var h scope x i n =
     (let v = (case map_of scope x of Some v \<Rightarrow> v | None \<Rightarrow> hs_var h x);
          w = (case v of Obj y \<Rightarrow> (case hs_expr h y of Some w \<Rightarrow> w | None \<Rightarrow> v) | _ \<Rightarrow> v)
      in if desiredType i \<in> {Some TInt, Some TFloat} \<and> to_num h w \<noteq> NotANumber then (NumObj n (to_num h w), n + 1) else (w, n))"

definition eval_item :: "'o host \<Rightarrow> string \<Rightarrow> bool \<Rightarrow> string \<Rightarrow> 'o sval" where
  "eval_item h x isTarget prop = hs_data h (isTarget \<or> \<not> hs_hasData h x) x (if prop = [] then hs_kind h else prop)"

fun evaluateSTO :: "'o host \<Rightarrow> bool \<Rightarrow> (string \<times> 'o sval) list \<Rightarrow> 'o sto \<Rightarrow> nat \<Rightarrow> ('o sval \<times> nat) option"
  and evaluate_args :: "'o host \<Rightarrow> bool \<Rightarrow> (string \<times> 'o sval) list \<Rightarrow> 'o sto list \<Rightarrow> nat \<Rightarrow> ('o sval list \<times> nat) option"
where
  "evaluateSTO h html scope ErrorSto n = Some (Undef, n)"
| "evaluateSTO h html scope (Literal v i) n = Some (finish_sto h html i (v, n))"
| "evaluateSTO h html scope (Var x i) n = Some (finish_sto h html i (eval_var h scope x i n))"
| "evaluateSTO h html scope (Item x b i) n = Some (finish_sto h html i (eval_item h x b [], n))"
| "evaluateSTO h html scope (Paren e i) n = map_option (finish_sto h html i) (evaluateSTO h html scope e n)"
| "evaluateSTO h html scope (FCall this func args i) n =
     (case evaluateSTO h html scope this n of
        None \<Rightarrow> None
      | Some (v, n1) \<Rightarrow>
          let text = (desiredType (info_of this) = Some TString \<and> computedType (info_of this) \<noteq> Some TString)
          in if text \<and> missing v then None
             else case evaluate_args h html scope args n1 of
                    None \<Rightarrow> None
                  | Some (vs, n2) \<Rightarrow>
                      map_option (finish_sto h html i) (call_func h func (if text then Str (to_text h v) else v) vs n2))"
| "evaluateSTO h html scope (PropCall this prop i) n =
     (case (if prop \<in> {''url'', ''img''} then (case this of Item x b j \<Rightarrow> Some (x, b) | _ \<Rightarrow> None) else None) of
        Some (x, b) \<Rightarrow> Some (finish_sto h html i (eval_item h x b prop, n))
      | None \<Rightarrow>
          (case evaluateSTO h html scope this n of
             None \<Rightarrow> None
           | Some (v, n1) \<Rightarrow> if missing v then None else Some (finish_sto h html i (hs_prop h v prop, n1))))"
| "evaluateSTO h html scope (BinOp bop l r i) n =
     (case evaluateSTO h html scope l n of
        None \<Rightarrow> None
      | Some (v, n1) \<Rightarrow>
          (case evaluateSTO h html scope r n1 of
             None \<Rightarrow> None
           | Some (w, n2) \<Rightarrow> map_option (finish_sto h html i) (binOps h bop v w n2)))"
| "evaluateSTO h html scope (UnOp uop e i) n =
     (case evaluateSTO h html scope e n of
        None \<Rightarrow> None
      | Some (v, n1) \<Rightarrow> map_option (\<lambda>w. finish_sto h html i (w, n1)) (unOps h uop v))"
| "evaluate_args h html scope [] n = Some ([], n)"
| "evaluate_args h html scope (e # es) n =
     (case evaluateSTO h html scope e n of
        None \<Rightarrow> None
      | Some (v, n1) \<Rightarrow> map_option (\<lambda>(vs, n2). (v # vs, n2)) (evaluate_args h html scope es n1))"

section \<open>Types\<close>

text \<open>A value of a type; \<open>int\<close> does not ask for an integer.\<close>

fun has_type :: "sto_type option \<Rightarrow> 'o sval \<Rightarrow> bool" where
  "has_type (Some TString) v = (case v of Str s \<Rightarrow> True | _ \<Rightarrow> False)"
| "has_type (Some TDate) v = (case v of Date i t \<Rightarrow> True | _ \<Rightarrow> False)"
| "has_type (Some TInt) v = (case v of Num x \<Rightarrow> True | _ \<Rightarrow> False)"
| "has_type (Some TFloat) v = (case v of Num x \<Rightarrow> True | _ \<Rightarrow> False)"
| "has_type (Some TBool) v = (case v of Bool b \<Rightarrow> True | _ \<Rightarrow> False)"
| "has_type t v = (\<not> missing v)"

definition operators :: "string list" where
  "operators = [''+'', ''-'', ''=='', ''!='', ''&&'', ''||'', ''*'', ''/'', ''%'', ''<'', ''<='', ''>'', ''>='']"

definition typed :: "sto_info \<Rightarrow> bool" where
  "typed i \<longleftrightarrow> cast_type i \<in> {Some TString, Some TDate, Some TInt, Some TFloat, Some TBool}"

text \<open>
  An expression that cannot go wrong: no error nodes, literals that are there, known operators, and calls of
  the date functions on expressions of the type \<open>date\<close>, which may be of no use but have a type.
\<close>

fun checked :: "'o sto \<Rightarrow> bool" where
  "checked ErrorSto = False"
| "checked (Literal v i) = (\<not> missing v)"
| "checked (Var x i) = True"
| "checked (Item x b i) = typed i"
| "checked (Paren e i) = checked e"
| "checked (FCall e f es i) =
     (checked e \<and> list_all checked es \<and> cast_type (info_of e) = Some TDate \<and> desiredType (info_of e) \<noteq> Some TString \<and>
      f \<in> set (map fst (date_getters :: (string \<times> ('o host \<Rightarrow> int option \<Rightarrow> 'o sval)) list)) \<union>
           set (map fst (date_adders :: (string \<times> ('o host \<Rightarrow> double \<Rightarrow> int option \<Rightarrow> int option)) list)) \<and> typed i)"
| "checked (PropCall e p i) = False"
| "checked (BinOp b l r i) = (checked l \<and> checked r \<and> b \<in> set operators)"
| "checked (UnOp b e i) = (checked e \<and> b \<in> set [''+'', ''-'', ''!''])"

definition variables_there :: "'o host \<Rightarrow> (string \<times> 'o sval) list \<Rightarrow> bool" where
  "variables_there h scope \<longleftrightarrow>
     (\<forall>x. \<not> missing (hs_var h x)) \<and> (\<forall>x v. hs_expr h x = Some v \<longrightarrow> \<not> missing v) \<and> list_all (\<lambda>(x, v). \<not> missing v) scope"

end
