(* ===== verification/StoProps.thy ===== *)
theory StoProps
  imports Sto
begin

text \<open>
  Type soundness of the expressions of the prototype pages, and what their operators and casts do against
  expectation: dates are compared by identity, and only the first \<open><\<close> of a text is escaped.
\<close>

section \<open>Soundness\<close>

lemma typed_there: "has_type t v \<Longrightarrow> \<not> missing v"
  by (cases "(t, v)" rule: has_type.cases) (auto split: sval.splits)

lemma cast_typed:
  assumes "\<not> missing v \<or> typed i" and "castSto h i v n = (w, m)"
  shows "has_type (cast_type i) w \<and> n \<le> m"
  using assms by (auto simp: castSto_def typed_def split: option.splits sto_type.splits sval.splits)

lemma escape_typed: "has_type t v \<Longrightarrow> has_type t (tryEscapeRichText html v)"
  by (cases t; cases "the t"; cases v) (auto simp: tryEscapeRichText_def escapeRichText_def)

lemma finish_typed:
  assumes "\<not> missing (fst r) \<or> typed i"
  shows "\<exists>w m. finish_sto h html i r = (w, m) \<and> has_type (cast_type i) w \<and> snd r \<le> m"
proof -
  obtain w m where c: "castSto h i (fst r) (snd r) = (w, m)" by fastforce
  with cast_typed [OF assms c] escape_typed [of "cast_type i" w html] show ?thesis by (simp add: finish_sto_def)
qed

lemma getBool_there: "\<not> missing v \<Longrightarrow> \<exists>w. getBool h v = Some w \<and> \<not> missing w"
  by (auto simp: getBool_def Let_def)

lemma equal_there: "\<not> missing v \<Longrightarrow> \<not> missing w \<Longrightarrow> \<exists>b. op_equal h v w = Some b"
  using getBool_there [of v h] getBool_there [of w h] by (auto simp: op_equal_def)

lemma logic_there: "\<not> missing v \<Longrightarrow> \<not> missing w \<Longrightarrow> \<exists>x. op_logic b h v w = Some x \<and> \<not> missing x"
  using getBool_there [of v h] getBool_there [of w h] by (auto simp: op_logic_def)

lemma binOps_there:
  assumes "b \<in> set operators" and "\<not> missing v" and "\<not> missing w"
  shows "\<exists>r. binOps h b v w n = Some r \<and> \<not> missing (fst r) \<and> n \<le> snd r"
proof -
  have "b \<in> {''+'', ''-''} \<or> b \<in> {''=='', ''!=''} \<or> b \<in> {''&&'', ''||''} \<or> b \<in> set (map fst arithmetic_ops) \<or>
      b \<in> set (map fst comparison_ops)"
    using assms(1) by (auto simp: operators_def arithmetic_ops_def comparison_ops_def)
  then consider "b \<in> {''+'', ''-''}" | "b \<in> {''=='', ''!=''}" | "b \<in> {''&&'', ''||''}" |
    "b \<in> set (map fst arithmetic_ops)" | "b \<in> set (map fst comparison_ops)" by blast
  then show ?thesis
  proof cases
    case 1
    then show ?thesis by (auto simp: binOps_def op_plus_def op_minus_def Let_def split: sval.split)
  next
    case 2
    then show ?thesis using equal_there [OF assms(2,3), of h] by (auto simp: binOps_def)
  next
    case 3
    then show ?thesis using logic_there [OF assms(2,3), of _ h] by (auto simp: binOps_def)
  qed (auto simp: binOps_def arithmetic_ops_def comparison_ops_def)
qed

lemma unOps_there:
  assumes "b \<in> set [''+'', ''-'', ''!'']" and "\<not> missing v"
  shows "\<exists>w. unOps h b v = Some w \<and> \<not> missing w"
  using assms getBool_there [OF assms(2), of h] by (auto simp: unOps_def)

lemma date_func_there:
  assumes "f \<in> set (map fst (date_getters :: (string \<times> ('o host \<Rightarrow> int option \<Rightarrow> 'o sval)) list)) \<union>
      set (map fst (date_adders :: (string \<times> ('o host \<Rightarrow> double \<Rightarrow> int option \<Rightarrow> int option)) list))"
  shows "\<exists>r. call_func (h :: 'o host) f (Date i t) vs n = Some r \<and> n \<le> snd r"
proof -
  let ?g = "date_getters :: (string \<times> ('o host \<Rightarrow> int option \<Rightarrow> 'o sval)) list"
  let ?a = "date_adders :: (string \<times> ('o host \<Rightarrow> double \<Rightarrow> int option \<Rightarrow> int option)) list"
  show ?thesis
  proof (cases "map_of ?g f")
    case None
    then have "f \<in> set (map fst ?a)" using assms by (simp add: map_of_eq_None_iff image_iff) 
    then have "map_of ?a f \<noteq> None" unfolding map_of_eq_None_iff by simp
    then obtain add where "map_of ?a f = Some add" by blast
    with None show ?thesis by (simp add: call_func_def split: list.split)
  qed (simp add: call_func_def)
qed

lemma var_there:
  assumes "variables_there h scope"
  shows "\<exists>w m. eval_var h scope x i n = (w, m) \<and> \<not> missing w \<and> n \<le> m"
proof -
  let ?v = "case map_of scope x of Some v \<Rightarrow> v | None \<Rightarrow> hs_var h x"
  have "\<not> missing ?v"
    using assms by (auto simp: variables_there_def list_all_iff split: option.split dest!: map_of_SomeD)
  then show ?thesis
    using assms by (auto simp: eval_var_def variables_there_def Let_def split: sval.split option.split)
qed

lemma sound:
  assumes "variables_there h scope"
  shows "checked e \<Longrightarrow> \<exists>v m. evaluateSTO h html scope e n = Some (v, m) \<and> has_type (cast_type (info_of e)) v \<and> n \<le> m"
    and "list_all checked es \<Longrightarrow> \<exists>vs m. evaluate_args h html scope es n = Some (vs, m) \<and> n \<le> m"
  using assms
proof (induction h html scope e n and h html scope es n rule: evaluateSTO_evaluate_args.induct)
  case (2 h html scope v i n)
  then show ?case using finish_typed [of "(v, n)" i h html] by simp
next
  case (3 h html scope x i n)
  obtain w m where "eval_var h scope x i n = (w, m)" "\<not> missing w" "n \<le> m" using var_there [OF "3.prems"(2)] by metis
  then show ?case using finish_typed [of "(w, m)" i h html] by auto
next
  case (4 h html scope x b i n)
  then show ?case using finish_typed [of "(eval_item h x b [], n)" i h html] by simp
next
  case (5 h html scope e i n)
  obtain v m where v: "evaluateSTO h html scope e n = Some (v, m)" "has_type (cast_type (info_of e)) v" "n \<le> m"
    using "5.IH" "5.prems" by auto
  then show ?case using finish_typed [of "(v, m)" i h html] typed_there [OF v(2)] by auto
next
  case (6 h html scope this func args i n)
  obtain v m where v: "evaluateSTO h html scope this n = Some (v, m)" "has_type (Some TDate) v" "n \<le> m"
    using "6.IH"(1) "6.prems" by auto
  obtain j t where d: "v = Date j t" using v(2) by (auto split: sval.splits)
  obtain vs m2 where vs: "evaluate_args h html scope args m = Some (vs, m2)" "m \<le> m2"
    using "6.IH"(2) [OF v(1) refl refl] "6.prems" by (auto simp: d)
  obtain r where r: "call_func h func v vs m2 = Some r" "m2 \<le> snd r"
    using date_func_there [of func h j t vs m2] "6.prems"(1) d by auto
  obtain w m3 where "finish_sto h html i r = (w, m3)" "has_type (cast_type i) w" "snd r \<le> m3"
    using finish_typed [of r i h html] "6.prems"(1) by auto
  with v vs r "6.prems"(1) show ?case by auto
next
  case (8 h html scope bop l r i n)
  obtain v m where v: "evaluateSTO h html scope l n = Some (v, m)" "has_type (cast_type (info_of l)) v" "n \<le> m"
    using "8.IH"(1) "8.prems" by auto
  obtain w m2 where w: "evaluateSTO h html scope r m = Some (w, m2)" "has_type (cast_type (info_of r)) w" "m \<le> m2"
    using "8.IH"(2) [OF v(1)] "8.prems" by auto
  have "bop \<in> set operators" using "8.prems"(1) by simp
  from binOps_there [OF this typed_there [OF v(2)] typed_there [OF w(2)], of h m2]
  obtain x where x: "binOps h bop v w m2 = Some x" "\<not> missing (fst x)" "m2 \<le> snd x" by blast
  with v w show ?case using finish_typed [of x i h html] by auto
next
  case (9 h html scope uop e i n)
  obtain v m where v: "evaluateSTO h html scope e n = Some (v, m)" "has_type (cast_type (info_of e)) v" "n \<le> m"
    using "9.IH" "9.prems" by auto
  obtain w where "unOps h uop v = Some w" "\<not> missing w" using unOps_there [OF _ typed_there [OF v(2)]] "9.prems"(1) by auto
  with v show ?case using finish_typed [of "(w, m)" i h html] by auto
next
  case (11 h html scope e es n)
  obtain v m where v: "evaluateSTO h html scope e n = Some (v, m)" "n \<le> m" using "11.IH"(1) "11.prems" by auto
  then show ?case using "11.IH"(2) [OF v(1)] "11.prems" by auto
qed auto


definition plain_host :: "unit host" where
  "plain_host =
     \<lparr>hs_var = \<lambda>x. Str [], hs_expr = \<lambda>x. None, hs_hasData = \<lambda>x. False, hs_data = \<lambda>b x p. Undef, hs_kind = ''text'',
      hs_prop = \<lambda>v p. Undef, hs_method = \<lambda>v f vs. None, hs_prim = \<lambda>x. Str [], hs_print = \<lambda>t. [], hs_parse = \<lambda>s. None, hs_zone = 0\<rparr>"

abbreviation typed_as :: "sto_type \<Rightarrow> sto_info" where
  "typed_as t \<equiv> \<lparr>computedType = Some t, desiredType = None\<rparr>"

text \<open>The name of the month of the 31st of January, 1970, and one month later, which is in March.\<close>

definition next_month :: "unit sto" where
  "next_month =
     FCall (FCall (Var ''d'' (typed_as TDate)) ''addMonths'' [Literal (Num (Fin 1)) (typed_as TInt)] (typed_as TDate)) ''getMonthName'' []
       (typed_as TString)"


section \<open>Against expectation\<close>

text \<open>Two dates of the same time are not equal, unless they are the same object.\<close>

lemma dates_by_identity:
  "i \<noteq> j \<Longrightarrow> hs_print h t \<notin> {u ''false'', u ''true''} \<Longrightarrow> binOps h ''=='' (Date i t) (Date j t) n = Some (Bool False, n)"
  by (simp add: binOps_def op_equal_def getBool_def js_eq_def)

text \<open>A day more as a text puts the digit behind the day of the month.\<close>

lemma digit_text:
  assumes "0 < n" and "n < 10"
  shows "number_text (Fin (of_nat n)) = dec n"
proof -
  have l: "length (dec n) = 1" "length (dec (Suc 0)) = 1" using assms by (simp_all add: dec.simps [of n] dec.simps [of "Suc 0"])
  have q: "quotient_of (of_nat n) = (int n, 1)" using quotient_of_int [of "int n"] by simp
  have e: "decimal_point (of_nat n) = 1" using assms(1) by (simp add: decimal_point_def q l)
  have "\<lfloor>of_nat n + 1 / 2 :: rat\<rfloor> = int n" by (simp add: floor_eq_iff)
  moreover have "to_double (of_nat n) = of_nat n" using to_double_int [of "int n"] assms(2) by simp
  ultimately have "shortest_digits (Suc 15) 1 (of_nat n) 1 = (n, 1)"
    by (simp only: shortest_digits.simps Let_def) simp
  moreover have "Suc 15 = 16" by simp
  ultimately have "shortest_digits 16 1 (of_nat n) 1 = (n, 1)" by (simp only:)
  then have "positive_text (of_nat n) = dec n" by (simp add: positive_text_def e del: shortest_digits.simps)
  then show ?thesis using assms(1) by simp
qed

lemma text_added_to_date:
  "evaluateSTO plain_host False [(''d'', Date 0 (Some 86400000))] (BinOp ''+'' (Var ''d'' no_info) (Literal (Str (u ''1'')) no_info) no_info) 1 =
   Some (Date 1 (Some 1728000000), 2)"
proof -
  have d: "dec 2 = ''2''" by code_simp
  have "number_text (Fin (of_nat 2)) = dec 2" by (rule digit_text) simp_all
  then have t: "number_text (Fin 2) = ''2''" by (simp only: of_nat_numeral d)
  have n: "string_to_number (u ''2'' @ u ''1'') = Dec 21 0"
  proof -
    have "dec 21 = ''2'' @ ''1''" by code_simp
    then have "u ''2'' @ u ''1'' = u (dec 21)" by (simp only: map_append)
    then show ?thesis using string_to_number_dec [of 21] by (simp only: of_nat_numeral)
  qed
  have "to_double 21 = 21" using to_double_int [of 21] by simp
  then have "double_of_number (Dec 21 0) = Fin 21" by simp
  then have s: "plus_value plain_host (Fin 2) (Str (u ''1'')) = Fin 21"
    by (simp only: plus_value_def primitive.simps sval.case t n)
  have c: "civil 1 = (1970, 1, 2)" by code_simp
  have g: "getDate plain_host 86400000 = 2" by (simp add: getDate_def local_day_def plain_host_def c)
  have "addDayToDate plain_host (Some 86400000) (Str (u ''1'')) = set_date plain_host (Some 86400000) (Fin 21)"
    by (simp only: addDayToDate_def field_of_def option.case g of_int_numeral s)
  also have "\<dots> = Some 1728000000" by (simp add: set_date_def set_fields_def g trunc_rat_def time_clip_def)
  finally have "addDayToDate plain_host (Some 86400000) (Str (u ''1'')) = Some 1728000000" .
  then show ?thesis
    by (simp add: eval_var_def finish_sto_def castSto_def cast_type_def tryEscapeRichText_def no_info_def binOps_def op_plus_def)
qed

text \<open>Only the first bracket of a text is escaped, so that markup passes.\<close>

lemma second_bracket_passes:
  "evaluateSTO plain_host True [] (Literal (Str (u ''<i><img>'')) (typed_as TString)) n = Some (Str (u ''&lt;i><img>''), n)"
  by (simp add: finish_sto_def castSto_def cast_type_def tryEscapeRichText_def escapeRichText_def)

end
