(* ===== verification/Geometry.thy ===== *)
theory Geometry
  imports Complex_Main
begin

text \<open>
  The regions of the prototype pages (\<open>geometry.js\<close> in \<open>prototypePost.js\<close>): polygons under the mouse with
  callbacks, the meeting of two segments, and the test whether a point is inside of a polygon. Numbers are
  real: the rounding of doubles is left out. The two ends of a segment are different objects.
\<close>

section \<open>Segments\<close>

record point =
  px :: real
  py :: real

record segment =
  p1 :: point
  p2 :: point

definition genPoint :: "real \<Rightarrow> real \<Rightarrow> point" where
  "genPoint x y = \<lparr>px = x, py = y\<rparr>"

datatype tie = TieStart | TieEnd

text \<open>
  \<open>False\<close>, the part two parallel segments share from the perspective of the first one, or the point where
  they meet: whether the first one enters the left side of the second one, and which of them end there.
\<close>

datatype meeting =
  Apart
| Parallel point point bool
| Crossing point bool "tie option" "tie option"

text \<open>Whether the first end is the smaller one, and the ends in order.\<close>

definition forward :: "segment \<Rightarrow> bool" where
  "forward l \<longleftrightarrow> px (p1 l) < px (p2 l) \<or> px (p1 l) = px (p2 l) \<and> py (p1 l) < py (p2 l)"

definition low :: "segment \<Rightarrow> point" where
  "low l = (if forward l then p1 l else p2 l)"

definition high :: "segment \<Rightarrow> point" where
  "high l = (if forward l then p2 l else p1 l)"

definition slope :: "segment \<Rightarrow> real" where
  "slope l = (py (high l) - py (low l)) / (px (high l) - px (low l))"

definition vertical :: "segment \<Rightarrow> bool" where
  "vertical l \<longleftrightarrow> px (p1 l) = px (p2 l)"

text \<open>The common part of two segments on one line, by the coordinate \<open>c\<close>.\<close>

definition overlap :: "(point \<Rightarrow> real) \<Rightarrow> segment \<Rightarrow> segment \<Rightarrow> meeting" where
  "overlap c l1 l2 =
     (if c (high l1) < c (low l2) \<or> c (low l1) > c (high l2) then Apart
      else let first = (if c (low l1) \<ge> c (low l2) then low l1 else low l2);
               second = (if c (high l1) \<le> c (high l2) then high l1 else high l2)
           in Parallel (if forward l1 then first else second) (if forward l1 then second else first) (forward l1 = forward l2))"

text \<open>A segment \<open>n\<close> that is not vertical and a vertical one \<open>v\<close>; \<open>vSecond\<close> tells that \<open>v\<close> is the second segment.\<close>

definition meet_vertical :: "bool \<Rightarrow> segment \<Rightarrow> segment \<Rightarrow> meeting" where
  "meet_vertical vSecond n v =
     (let x1 = px (low n); x2 = px (high n); xVert = px (low v);
          y = py (low n) + (xVert - x1) * slope n;
          y1 = py (low v); y2 = py (high v)
      in if xVert \<ge> x1 \<and> xVert \<le> x2 \<and> y \<ge> y1 \<and> y \<le> y2
         then let exiting = ((vSecond = (y1 = py (p1 v))) = (x1 = px (p1 n)));
                  tieN = (if x1 = xVert then Some (if x1 = px (p1 n) then TieStart else TieEnd)
                          else if x2 = xVert then Some (if x2 = px (p2 n) then TieEnd else TieStart) else None);
                  tieV = (if y1 = y then Some (if y1 = py (p1 v) then TieStart else TieEnd)
                          else if y2 = y then Some (if y2 = py (p2 v) then TieEnd else TieStart) else None)
              in Crossing (genPoint xVert y) (\<not> exiting) (if vSecond then tieN else tieV) (if vSecond then tieV else tieN)
         else Apart)"

definition end_tie :: "segment \<Rightarrow> real \<Rightarrow> tie option" where
  "end_tie l x = (if px (p1 l) = x then Some TieStart else if px (p2 l) = x then Some TieEnd else None)"

definition linesIntersect :: "segment \<Rightarrow> segment \<Rightarrow> meeting" where
  "linesIntersect l1 l2 =
     (if vertical l1 \<or> vertical l2
      then if vertical l1 \<and> vertical l2
           then if px (low l1) \<noteq> px (low l2) then Apart else overlap py l1 l2
           else if vertical l2 then meet_vertical True l1 l2 else meet_vertical False l2 l1
      else let m1 = slope l1; m2 = slope l2
           in if m1 = m2
              then if py (low l1) \<noteq> py (low l2) + (px (low l1) - px (low l2)) * m1 then Apart else overlap px l1 l2
              else let x = (py (low l2) - px (low l2) * m2 - py (low l1) + px (low l1) * m1) / (m1 - m2)
                   in if x \<ge> px (low l1) \<and> x \<le> px (high l1) \<and> x \<ge> px (low l2) \<and> x \<le> px (high l2)
                      then Crossing (genPoint x (py (low l1) + (x - px (low l1)) * m1)) (((m1 > m2) = forward l1) = forward l2)
                             (end_tie l1 x) (end_tie l2 x)
                      else Apart)"

section \<open>Points on a segment\<close>

definition on_segment :: "point \<Rightarrow> segment \<Rightarrow> bool" where
  "on_segment p l \<longleftrightarrow>
     (\<exists>t. 0 \<le> t \<and> t \<le> 1 \<and> px p = px (p1 l) + t * (px (p2 l) - px (p1 l)) \<and> py p = py (p1 l) + t * (py (p2 l) - py (p1 l)))"

lemma low_high: "px (low l) \<le> px (high l)" "vertical l \<Longrightarrow> py (low l) \<le> py (high l)"
  "vertical l \<longleftrightarrow> px (low l) = px (high l)"
  by (auto simp: low_def high_def forward_def vertical_def)

lemma on_low_high:
  "on_segment p l \<longleftrightarrow>
     (\<exists>t. 0 \<le> t \<and> t \<le> 1 \<and> px p = px (low l) + t * (px (high l) - px (low l)) \<and> py p = py (low l) + t * (py (high l) - py (low l)))"
proof (cases "forward l")
  case False
  have "on_segment p l = on_segment p \<lparr>p1 = p2 l, p2 = p1 l\<rparr>"
  proof -
    have flip: "on_segment p \<lparr>p1 = p2 k, p2 = p1 k\<rparr>" if k: "on_segment p k" for k
    proof -
      obtain t where t: "0 \<le> t" "t \<le> 1" "px p = px (p1 k) + t * (px (p2 k) - px (p1 k))" "py p = py (p1 k) + t * (py (p2 k) - py (p1 k))"
        using k unfolding on_segment_def by blast
      then show ?thesis unfolding on_segment_def by (intro exI [of _ "1 - t"]) (auto simp: algebra_simps)
    qed
    have "l = \<lparr>p1 = p2 \<lparr>p1 = p2 l, p2 = p1 l\<rparr>, p2 = p1 \<lparr>p1 = p2 l, p2 = p1 l\<rparr>\<rparr>" by simp
    then show ?thesis using flip by metis
  qed
  with False show ?thesis by (simp add: low_def high_def on_segment_def)
qed (simp add: low_def high_def on_segment_def)

lemma between_param:
  fixes a b x :: real
  assumes "a \<le> x" and "x \<le> b"
  shows "\<exists>t. 0 \<le> t \<and> t \<le> 1 \<and> x = a + t * (b - a)"
proof (cases "a = b")
  case True
  with assms show ?thesis by (intro exI [of _ 0]) simp
next
  case False
  with assms show ?thesis by (intro exI [of _ "(x - a) / (b - a)"]) (simp add: field_simps)
qed

lemma param_between:
  fixes a b t :: real
  assumes "a \<le> b" and "0 \<le> t" and "t \<le> 1"
  shows "a \<le> a + t * (b - a)" and "a + t * (b - a) \<le> b"
  using assms mult_left_le_one_le [of "b - a" t] by simp_all

lemma on_vertical:
  assumes "vertical l"
  shows "on_segment p l \<longleftrightarrow> px p = px (low l) \<and> py (low l) \<le> py p \<and> py p \<le> py (high l)"
proof
  assume "on_segment p l"
  then show "px p = px (low l) \<and> py (low l) \<le> py p \<and> py p \<le> py (high l)"
    using assms param_between [OF low_high(2) [OF assms]] low_high(3) [of l] by (auto simp: on_low_high)
next
  assume p: "px p = px (low l) \<and> py (low l) \<le> py p \<and> py p \<le> py (high l)"
  then obtain t where "0 \<le> t" "t \<le> 1" "py p = py (low l) + t * (py (high l) - py (low l))"
    using between_param by blast
  with p assms low_high(3) [of l] show "on_segment p l" by (auto simp: on_low_high)
qed

lemma on_slanted:
  assumes "\<not> vertical l"
  shows "on_segment p l \<longleftrightarrow>
    px (low l) \<le> px p \<and> px p \<le> px (high l) \<and> py p = py (low l) + (px p - px (low l)) * slope l"
proof -
  have d: "px (low l) < px (high l)" using assms low_high by (metis less_le)
  have y: "py (low l) + (px (low l) + t * (px (high l) - px (low l)) - px (low l)) * slope l =
      py (low l) + t * (py (high l) - py (low l))" for t
    using d by (simp add: slope_def)
  show ?thesis
  proof
    assume "on_segment p l"
    then show "px (low l) \<le> px p \<and> px p \<le> px (high l) \<and> py p = py (low l) + (px p - px (low l)) * slope l"
      using y param_between [OF low_high(1) [of l]] by (auto simp: on_low_high)
  next
    assume p: "px (low l) \<le> px p \<and> px p \<le> px (high l) \<and> py p = py (low l) + (px p - px (low l)) * slope l"
    then obtain t where "0 \<le> t" "t \<le> 1" "px p = px (low l) + t * (px (high l) - px (low l))" using between_param by blast
    with p y show "on_segment p l" by (auto simp: on_low_high)
  qed
qed


lemma on_reversed: "on_segment p \<lparr>p1 = b, p2 = a\<rparr> \<longleftrightarrow> on_segment p \<lparr>p1 = a, p2 = b\<rparr>"
proof -
  have "on_segment p \<lparr>p1 = d, p2 = c\<rparr>" if on: "on_segment p \<lparr>p1 = c, p2 = d\<rparr>" for c d
  proof -
    obtain t where "0 \<le> t" "t \<le> 1" "px p = px c + t * (px d - px c)" "py p = py c + t * (py d - py c)"
      using on unfolding on_segment_def by auto
    then show ?thesis unfolding on_segment_def by (intro exI [of _ "1 - t"]) (auto simp: algebra_simps)
  qed
  then show ?thesis by blast
qed

lemma on_upright:
  assumes "px a = px b" and "py a \<le> py b"
  shows "on_segment p \<lparr>p1 = a, p2 = b\<rparr> \<longleftrightarrow> px p = px a \<and> py a \<le> py p \<and> py p \<le> py b"
  using assms on_vertical [of "\<lparr>p1 = a, p2 = b\<rparr>" p] by (auto simp: vertical_def low_def high_def forward_def)

lemma on_line:
  assumes "px a \<le> px b" and "py b = py a + (px b - px a) * m"
  shows "on_segment p \<lparr>p1 = a, p2 = b\<rparr> \<longleftrightarrow> px a \<le> px p \<and> px p \<le> px b \<and> py p = py a + (px p - px a) * m"
proof (cases "px a = px b")
  case True
  with assms show ?thesis by (subst on_upright) auto
next
  case False
  with assms have "forward \<lparr>p1 = a, p2 = b\<rparr>" "\<not> vertical \<lparr>p1 = a, p2 = b\<rparr>" by (auto simp: forward_def vertical_def)
  moreover have "slope \<lparr>p1 = a, p2 = b\<rparr> = m"
    using False assms(2) calculation(1) by (simp add: slope_def low_def high_def field_simps)
  ultimately show ?thesis by (simp add: on_slanted low_def high_def)
qed

section \<open>The meeting is the common part\<close>

fun meets :: "meeting \<Rightarrow> point \<Rightarrow> bool" where
  "meets Apart p = False"
| "meets (Parallel a b s) p = on_segment p \<lparr>p1 = a, p2 = b\<rparr>"
| "meets (Crossing q e t t') p = (p = q)"

lemma meets_overlap:
  "meets (overlap c l1 l2) p \<longleftrightarrow> \<not> (c (high l1) < c (low l2) \<or> c (low l1) > c (high l2)) \<and>
     on_segment p \<lparr>p1 = (if c (low l1) \<ge> c (low l2) then low l1 else low l2),
                   p2 = (if c (high l1) \<le> c (high l2) then high l1 else high l2)\<rparr>"
  unfolding overlap_def Let_def by (auto simp only: meets.simps if_True if_False on_reversed split: if_split)

lemma meet_upright:
  assumes "vertical l1" and "vertical l2"
  shows "meets (linesIntersect l1 l2) p \<longleftrightarrow> on_segment p l1 \<and> on_segment p l2"
proof (cases "px (low l1) = px (low l2)")
  case True
  have v: "px (low l1) = px (high l1)" "px (low l2) = px (high l2)" "py (low l1) \<le> py (high l1)" "py (low l2) \<le> py (high l2)"
    using assms low_high by blast+
  have "linesIntersect l1 l2 = overlap py l1 l2" using assms True by (simp add: linesIntersect_def)
  moreover have "meets (overlap py l1 l2) p \<longleftrightarrow> on_segment p l1 \<and> on_segment p l2"
  proof (cases "py (high l1) < py (low l2) \<or> py (low l1) > py (high l2)")
    case False
    then show ?thesis using v True
      by (subst meets_overlap, subst on_upright) (auto simp: on_vertical [OF assms(1)] on_vertical [OF assms(2)])
  qed (auto simp: meets_overlap on_vertical [OF assms(1)] on_vertical [OF assms(2)])
  ultimately show ?thesis by simp
next
  case False
  with assms show ?thesis by (simp add: linesIntersect_def on_vertical)
qed

lemma point_eq: "p = genPoint x y \<longleftrightarrow> px p = x \<and> py p = y"
  by (cases p) (auto simp: genPoint_def)

lemma meets_vertical:
  assumes "vertical v" and "\<not> vertical n"
  shows "meets (meet_vertical b n v) p \<longleftrightarrow> on_segment p n \<and> on_segment p v"
  unfolding meet_vertical_def Let_def by (auto simp: on_vertical [OF assms(1)] on_slanted [OF assms(2)] point_eq)

lemma slanted_end:
  assumes "\<not> vertical l"
  shows "py (high l) = py (low l) + (px (high l) - px (low l)) * slope l"
proof -
  have "px (low l) \<noteq> px (high l)" using assms low_high(3) by blast
  then show ?thesis by (simp add: slope_def)
qed

lemma meet_same_slope:
  assumes n: "\<not> vertical l1" "\<not> vertical l2" and m: "slope l1 = slope l2"
  shows "meets (linesIntersect l1 l2) p \<longleftrightarrow> on_segment p l1 \<and> on_segment p l2"
proof (cases "py (low l1) = py (low l2) + (px (low l1) - px (low l2)) * slope l1")
  case True
  have line: "linesIntersect l1 l2 = overlap px l1 l2" using n m True by (simp add: linesIntersect_def)
  note on = on_slanted [OF n(1)] on_slanted [OF n(2)]
  have y: "py (low l1) + (x - px (low l1)) * slope l1 = py (low l2) + (x - px (low l2)) * slope l1" for x
    using True by (simp add: algebra_simps)
  have e: "py (high l1) = py (low l1) + (px (high l1) - px (low l1)) * slope l1"
    "py (high l2) = py (low l2) + (px (high l2) - px (low l2)) * slope l1"
    using slanted_end [OF n(1)] slanted_end [OF n(2)] m by simp_all
  show ?thesis
  proof (cases "px (high l1) < px (low l2) \<or> px (low l1) > px (high l2)")
    case False
    let ?a = "if px (low l1) \<ge> px (low l2) then low l1 else low l2"
    let ?b = "if px (high l1) \<le> px (high l2) then high l1 else high l2"
    have "px ?a \<le> px ?b" using False low_high(1) by auto
    moreover have "py ?b = py ?a + (px ?b - px ?a) * slope l1"
      using e y [of "px (high l1)"] y [of "px (high l2)"] by auto
    ultimately have "on_segment p \<lparr>p1 = ?a, p2 = ?b\<rparr> \<longleftrightarrow> px ?a \<le> px p \<and> px p \<le> px ?b \<and> py p = py ?a + (px p - px ?a) * slope l1"
      by (rule on_line)
    with False show ?thesis unfolding line meets_overlap using y [of "px p"] m by (auto simp: on)
  qed (auto simp: line meets_overlap on)
next
  case False
  have "\<not> (on_segment p l1 \<and> on_segment p l2)"
  proof
    assume "on_segment p l1 \<and> on_segment p l2"
    then have "py (low l1) + (px p - px (low l1)) * slope l1 = py (low l2) + (px p - px (low l2)) * slope l1"
      using m by (simp add: on_slanted n)
    then show False using False by (simp add: algebra_simps)
  qed
  with False n m show ?thesis by (simp add: linesIntersect_def)
qed

lemma meet_slopes:
  assumes n: "\<not> vertical l1" "\<not> vertical l2" and m: "slope l1 \<noteq> slope l2"
  shows "meets (linesIntersect l1 l2) p \<longleftrightarrow> on_segment p l1 \<and> on_segment p l2"
proof -
  let ?m1 = "slope l1" and ?m2 = "slope l2"
  let ?x = "(py (low l2) - px (low l2) * ?m2 - py (low l1) + px (low l1) * ?m1) / (?m1 - ?m2)"
  have x: "py (low l1) + (z - px (low l1)) * ?m1 = py (low l2) + (z - px (low l2)) * ?m2 \<longleftrightarrow> z = ?x" for z
  proof -
    have "z = ?x \<longleftrightarrow> z * (?m1 - ?m2) = py (low l2) - px (low l2) * ?m2 - py (low l1) + px (low l1) * ?m1"
      using m by (simp add: eq_divide_eq)
    also have "\<dots> \<longleftrightarrow> py (low l1) + (z - px (low l1)) * ?m1 = py (low l2) + (z - px (low l2)) * ?m2"
      by (auto simp: algebra_simps)
    finally show ?thesis by simp
  qed
  have "on_segment p l1 \<and> on_segment p l2 \<longleftrightarrow>
    px p = ?x \<and> py p = py (low l1) + (?x - px (low l1)) * ?m1 \<and>
    ?x \<ge> px (low l1) \<and> ?x \<le> px (high l1) \<and> ?x \<ge> px (low l2) \<and> ?x \<le> px (high l2)"
    using x [of "px p"] by (auto simp only: on_slanted [OF n(1)] on_slanted [OF n(2)])
  moreover have "meets (linesIntersect l1 l2) p \<longleftrightarrow>
    px p = ?x \<and> py p = py (low l1) + (?x - px (low l1)) * ?m1 \<and>
    ?x \<ge> px (low l1) \<and> ?x \<le> px (high l1) \<and> ?x \<ge> px (low l2) \<and> ?x \<le> px (high l2)"
    using n m unfolding linesIntersect_def Let_def by (auto simp only: meets.simps point_eq if_True if_False split: if_split)
  ultimately show ?thesis by blast
qed

lemma meets_common:
  "meets (linesIntersect l1 l2) p \<longleftrightarrow> on_segment p l1 \<and> on_segment p l2"
proof (cases "vertical l1 \<or> vertical l2")
  case True
  then consider "vertical l1" "vertical l2" | "vertical l1" "\<not> vertical l2" | "\<not> vertical l1" "vertical l2" by blast
  then show ?thesis
  proof cases
    case 1
    then show ?thesis by (rule meet_upright)
  next
    case 2
    then show ?thesis using meets_vertical [OF 2] by (auto simp: linesIntersect_def)
  next
    case 3
    then show ?thesis using meets_vertical [OF 3(2,1)] by (auto simp: linesIntersect_def)
  qed
next
  case False
  then show ?thesis using meet_same_slope meet_slopes by blast
qed


section \<open>Entering and leaving\<close>

text \<open>The cross product of the directions of two segments.\<close>

definition turn :: "segment \<Rightarrow> segment \<Rightarrow> real" where
  "turn a b = (px (p2 a) - px (p1 a)) * (py (p2 b) - py (p1 b)) - (py (p2 a) - py (p1 a)) * (px (p2 b) - px (p1 b))"


lemma rising:
  assumes "\<not> vertical l"
  shows "py (p2 l) - py (p1 l) = (px (p2 l) - px (p1 l)) * slope l" and "forward l \<longleftrightarrow> 0 < px (p2 l) - px (p1 l)"
    and "px (p1 l) \<noteq> px (p2 l)"
  using assms by (auto simp: slope_def low_def high_def forward_def vertical_def field_simps)

lemma sign_product:
  fixes a b c :: real
  assumes "a \<noteq> 0" and "b \<noteq> 0" and "c \<noteq> 0"
  shows "0 < a * b * c \<longleftrightarrow> ((0 < c) = (0 < a)) = (0 < b)"
  using assms by (auto simp: zero_less_mult_iff mult_less_0_iff)

lemma side_slopes:
  assumes "\<not> vertical l1" and "\<not> vertical l2" and "slope l1 \<noteq> slope l2"
  shows "0 < turn l2 l1 \<longleftrightarrow> ((slope l1 > slope l2) = forward l1) = forward l2"
proof -
  have "turn l2 l1 = (px (p2 l1) - px (p1 l1)) * (px (p2 l2) - px (p1 l2)) * (slope l1 - slope l2)"
    unfolding turn_def rising(1) [OF assms(1)] rising(1) [OF assms(2)] by (simp add: algebra_simps)
  then show ?thesis
    using sign_product [of "px (p2 l1) - px (p1 l1)" "px (p2 l2) - px (p1 l2)" "slope l1 - slope l2"] assms(3)
      rising(2,3) [OF assms(1)] rising(2,3) [OF assms(2)] by simp
qed

lemma upright_start:
  assumes "vertical v" and "p1 v \<noteq> p2 v"
  shows "py (low v) = py (p1 v) \<longleftrightarrow> 0 < py (p2 v) - py (p1 v)" and "py (p2 v) - py (p1 v) \<noteq> 0"
  using assms by (cases "p1 v"; cases "p2 v"; auto simp: vertical_def low_def forward_def)+

lemma slanted_start:
  assumes "\<not> vertical n"
  shows "px (low n) = px (p1 n) \<longleftrightarrow> 0 < px (p2 n) - px (p1 n)"
  using assms by (auto simp: vertical_def low_def forward_def)

lemma side_vertical:
  assumes "meet_vertical b n v = Crossing q e t1 t2" and "vertical v" and "p1 v \<noteq> p2 v" and "\<not> vertical n"
  shows "e \<longleftrightarrow> 0 < (if b then turn v n else turn n v)"
proof -
  have e: "e \<longleftrightarrow> \<not> ((b = (0 < py (p2 v) - py (p1 v))) = (0 < px (p2 n) - px (p1 n)))"
    using assms(1) unfolding meet_vertical_def Let_def
    by (simp add: upright_start [OF assms(2,3)] slanted_start [OF assms(4)] split: if_splits)
  have "px (p2 v) = px (p1 v)" using assms(2) by (simp add: vertical_def)
  then have "turn v n = - ((py (p2 v) - py (p1 v)) * (px (p2 n) - px (p1 n)))" "turn n v = - turn v n"
    by (simp_all add: turn_def algebra_simps)
  then show ?thesis using e upright_start(2) [OF assms(2,3)] rising(3) [OF assms(4)]
    by (auto simp: zero_less_mult_iff mult_less_0_iff)
qed

text \<open>
  The crossing of two segments that are no single points is reported as entering exactly when the second
  segment has to turn counterclockwise (with the \<open>y\<close> axis upwards) to the direction of the first.
\<close>

lemma crossing_side:
  assumes "linesIntersect l1 l2 = Crossing q e t1 t2" and "p1 l1 \<noteq> p2 l1" and "p1 l2 \<noteq> p2 l2"
  shows "e \<longleftrightarrow> 0 < turn l2 l1"
proof (cases "vertical l1 \<or> vertical l2")
  case True
  with assms(1) have "\<not> (vertical l1 \<and> vertical l2)"
    by (auto simp: linesIntersect_def overlap_def Let_def split: if_splits)
  with True consider "vertical l1" "\<not> vertical l2" | "\<not> vertical l1" "vertical l2" by blast
  then show ?thesis
  proof cases
    case 1
    with assms(1) have "meet_vertical False l2 l1 = Crossing q e t1 t2" by (simp add: linesIntersect_def)
    from side_vertical [OF this 1(1) assms(2) 1(2)] show ?thesis by simp
  next
    case 2
    with assms(1) have "meet_vertical True l1 l2 = Crossing q e t1 t2" by (simp add: linesIntersect_def)
    from side_vertical [OF this 2(2) assms(3) 2(1)] show ?thesis by simp
  qed
next
  case False
  with assms(1) have m: "slope l1 \<noteq> slope l2"
    by (auto simp: linesIntersect_def overlap_def Let_def split: if_splits)
  with False assms(1) have "e \<longleftrightarrow> ((slope l1 > slope l2) = forward l1) = forward l2"
    by (auto simp: linesIntersect_def Let_def split: if_splits)
  with False m show ?thesis using side_slopes by blast
qed

lemma parallel_turn:
  assumes "linesIntersect l1 l2 = Parallel a b s"
  shows "turn l2 l1 = 0"
proof (cases "vertical l1 \<or> vertical l2")
  case True
  with assms have "vertical l1 \<and> vertical l2" by (auto simp: linesIntersect_def meet_vertical_def Let_def split: if_splits)
  then show ?thesis by (simp add: turn_def vertical_def)
next
  case False
  with assms have "slope l1 = slope l2" by (auto simp: linesIntersect_def Let_def split: if_splits)
  with False show ?thesis unfolding turn_def using rising(1) [of l1] rising(1) [of l2] by simp
qed

lemma on_segment_ends: "on_segment a \<lparr>p1 = a, p2 = b\<rparr>"
  unfolding on_segment_def by (intro exI [of _ 0]) simp

end
