(* ===== verification/Regions.thy ===== *)
theory Regions
  imports Geometry Prelude "HOL-Library.AList"
begin

text \<open>
  The regions under the mouse (\<open>geometry.js\<close>) and the flyouts that register them (\<open>flyout.js\<close>): a panel
  shown as a flyout closes when the mouse leaves the polygon around the panel and its source. The only
  callback that is ever registered is the one of \<open>registerFlyout\<close>, so a region holds the panel of its callback.
\<close>

section \<open>Inside of a polygon\<close>

text \<open>\<open>None\<close> is the \<open>NaN\<close> of a segment that is one point; no comparison with it is true.\<close>

definition getCos :: "segment \<Rightarrow> real option" where
  "getCos l =
     (let x = px (p2 l) - px (p1 l); y = py (p2 l) - py (p1 l)
      in if x = 0 \<and> y = 0 then None else Some (x / sqrt (x * x + y * y)))"

definition edges :: "point list \<Rightarrow> segment list" where
  "edges ps = map (\<lambda>j. \<lparr>p1 = ps ! j, p2 = ps ! ((j + 1) mod length ps)\<rparr>) [0..<length ps]"

fun scan :: "point \<Rightarrow> segment \<Rightarrow> segment list \<Rightarrow> bool \<Rightarrow> real \<Rightarrow> real \<Rightarrow> bool" where
  "scan p line [] entered closest c = entered"
| "scan p line (e # es) entered closest c =
     (case linesIntersect line e of
        Apart \<Rightarrow> scan p line es entered closest c
      | Parallel a b s \<Rightarrow> if px a \<le> px p \<and> px b \<ge> px p then True else scan p line es entered closest c
      | Crossing q entering t1 t2 \<Rightarrow>
          if px q > px p \<or> px q < closest then scan p line es entered closest c
          else if px q = px p then True
          else
            let c1 = (if px q \<noteq> closest then -2 else c);
                turned = (if t1 \<noteq> None \<or> t2 \<noteq> None then t2 = Some TieEnd else px (p1 e) > px (p2 e))
            in (case getCos (if turned then \<lparr>p1 = p2 e, p2 = p1 e\<rparr> else e) of
                  Some d \<Rightarrow> if d > c1 then scan p line es entering (px q) d else scan p line es entered closest c1
                | None \<Rightarrow> scan p line es entered closest c1))"

text \<open>An empty polygon has no first point: \<open>None\<close> is the exception.\<close>

definition checkInside :: "point list \<Rightarrow> point \<Rightarrow> bool option" where
  "checkInside ps p =
     (case ps of
        [] \<Rightarrow> None
      | q # qs \<Rightarrow>
          let firstX = fold (\<lambda>r m. min m (px r)) qs (px q) - 1;
              secondX = fold (\<lambda>r m. max m (px r)) qs (px q) + 1;
              line = \<lparr>p1 = genPoint firstX (py p), p2 = genPoint secondX (py p)\<rparr>
          in Some (scan p line (edges ps) False firstX (-2)))"

section \<open>Rectangles and the polygons of a flyout\<close>

record rect =
  rx :: real
  ry :: real
  rw :: real
  rh :: real

definition right :: "rect \<Rightarrow> real" where
  "right r = rx r + rw r"

definition bottom :: "rect \<Rightarrow> real" where
  "bottom r = ry r + rh r"

definition genRect :: "rect \<Rightarrow> bool \<Rightarrow> rect" where
  "genRect i roundHalfPixel =
     (let (x, w) = (if roundHalfPixel \<and> rx i \<noteq> of_int \<lfloor>rx i\<rfloor> then (of_int \<lfloor>rx i\<rfloor>, rw i + 1) else (rx i, rw i));
          (y, h) = (if roundHalfPixel \<and> ry i \<noteq> of_int \<lfloor>ry i\<rfloor> then (of_int \<lfloor>ry i\<rfloor>, rh i + 1) else (ry i, rh i))
      in \<lparr>rx = x, ry = y, rw = w, rh = h\<rparr>)"

definition corners :: "rect \<Rightarrow> point list" where
  "corners r = [genPoint (rx r) (ry r), genPoint (right r) (ry r), genPoint (right r) (bottom r), genPoint (rx r) (bottom r)]"

record sides =
  rlr :: bool
  lrl :: bool
  tbt :: bool
  bab :: bool

definition compare_rects :: "rect \<Rightarrow> rect \<Rightarrow> sides" where
  "compare_rects r0 r1 =
     \<lparr>rlr = right r0 \<le> right r1, lrl = rx r0 \<ge> rx r1, tbt = ry r0 \<ge> ry r1, bab = bottom r0 \<le> bottom r1\<rparr>"

definition getSmallPolygon :: "rect \<Rightarrow> rect \<Rightarrow> sides \<Rightarrow> point list" where
  "getSmallPolygon r0 r1 i =
     [genPoint (rx r1) (ry r1)]
     @ (if tbt i then [] else
          [genPoint (rx r0) (ry r1), genPoint (rx r0) (ry r0), genPoint (right r0) (ry r0), genPoint (right r0) (ry r1)])
     @ [genPoint (right r1) (ry r1)]
     @ (if rlr i then [] else
          [genPoint (right r1) (ry r0), genPoint (right r0) (ry r0), genPoint (right r0) (bottom r0), genPoint (right r1) (bottom r0)])
     @ [genPoint (right r1) (bottom r1)]
     @ (if bab i then [] else
          [genPoint (right r0) (bottom r1), genPoint (right r0) (bottom r0), genPoint (rx r0) (bottom r0), genPoint (rx r0) (bottom r1)])
     @ [genPoint (rx r1) (bottom r1)]
     @ (if lrl i then [] else
          [genPoint (rx r1) (bottom r0), genPoint (rx r0) (bottom r0), genPoint (rx r0) (ry r0), genPoint (rx r1) (ry r0)])"

definition getLargePolygon :: "rect \<Rightarrow> rect \<Rightarrow> sides \<Rightarrow> point list" where
  "getLargePolygon r0 r1 i =
     (if tbt i
      then (if lrl i then [] else [genPoint (rx r0) (ry r0)]) @ [genPoint (rx r1) (ry r1)]
      else (if lrl i then [genPoint (rx r1) (ry r1)] else []) @ [genPoint (rx r0) (ry r0)])
     @ (if tbt i
        then genPoint (right r1) (ry r1) # (if rlr i then [] else [genPoint (right r0) (ry r0)])
        else genPoint (right r0) (ry r0) # (if rlr i then [genPoint (right r1) (ry r1)] else []))
     @ (if bab i
        then (if rlr i then [] else [genPoint (right r0) (bottom r0)]) @ [genPoint (right r1) (bottom r1)]
        else (if rlr i then [genPoint (right r1) (bottom r1)] else []) @ [genPoint (right r0) (bottom r0)])
     @ (if bab i
        then genPoint (rx r1) (bottom r1) # (if lrl i then [] else [genPoint (rx r0) (bottom r0)])
        else genPoint (rx r0) (bottom r0) # (if lrl i then [genPoint (rx r1) (bottom r1)] else []))"

record rects =
  src :: "rect option"
  target :: "rect option"

text \<open>Without a target the code reads a property of \<open>undefined\<close>.\<close>

definition flyout_points :: "rects \<Rightarrow> point list option" where
  "flyout_points rs =
     (case target rs of
        None \<Rightarrow> None
      | Some r1 \<Rightarrow>
          Some (case src rs of
                  None \<Rightarrow> corners r1
                | Some r0 \<Rightarrow>
                    let i = compare_rects r0 r1
                    in if rlr i \<and> lrl i \<or> tbt i \<and> bab i then getSmallPolygon r0 r1 i else getLargePolygon r0 r1 i))"

section \<open>The registered regions and the flyouts\<close>

record region =
  points :: "point list"
  panel :: string
  rects_of :: rects
  checked :: bool

text \<open>What the pages see: a widget drawn with or without its rollover style, a panel that is hidden after its fade.\<close>

datatype effect =
  Hover string bool
| Fade_out string

text \<open>
  The variables of both scripts with the two lists they share with the rest of the runtime, the sources that are
  drawn as under the mouse and the elements that are under the mouse. \<open>panelToSrc\<close> keeps its keys in the order of
  their creation, as \<open>for in\<close> meets them.
\<close>

record flyouts =
  regionMap :: "string \<Rightarrow> region option"
  regionList :: "string list"
  oldPoint :: point
  mouseLocation :: point
  panelToSrc :: "(string \<times> string) list"
  rolloverOverrides :: "string list"
  mouseOverIds :: "string list"
  effects :: "effect list"

definition start :: flyouts where
  "start = \<lparr>regionMap = Map.empty, regionList = [], oldPoint = genPoint 0 0, mouseLocation = genPoint 0 0,
     panelToSrc = [], rolloverOverrides = [], mouseOverIds = [], effects = []\<rparr>"

definition getFlyoutLabel :: "string \<Rightarrow> string" where
  "getFlyoutLabel panelId = panelId @ ''_flyout''"

definition hover :: "string \<Rightarrow> bool \<Rightarrow> flyouts \<Rightarrow> flyouts" where
  "hover i b s = (if i \<in> set (mouseOverIds s) then s else s\<lparr>effects := effects s @ [Hover i b]\<rparr>)"

definition addRolloverOverride :: "string \<Rightarrow> flyouts \<Rightarrow> flyouts" where
  "addRolloverOverride i s =
     (if i \<in> set (rolloverOverrides s) then s
      else hover i True (s\<lparr>rolloverOverrides := rolloverOverrides s @ [i]\<rparr>))"

definition removeRolloverOverride :: "string \<Rightarrow> flyouts \<Rightarrow> flyouts" where
  "removeRolloverOverride i s =
     (if i \<in> set (rolloverOverrides s) then hover i False (s\<lparr>rolloverOverrides := remove1 i (rolloverOverrides s)\<rparr>)
      else s)"

definition unregister :: "string \<Rightarrow> flyouts \<Rightarrow> flyouts" where
  "unregister label s =
     s\<lparr>regionList := takeWhile (\<lambda>l. l \<noteq> label) (regionList s) @ drop 1 (dropWhile (\<lambda>l. l \<noteq> label) (regionList s)),
       regionMap := (regionMap s)(label := None)\<rparr>"

definition clear :: "flyouts \<Rightarrow> flyouts" where
  "clear s = s\<lparr>regionMap := Map.empty, regionList := []\<rparr>"

definition polygonRegistered :: "string \<Rightarrow> flyouts \<Rightarrow> bool" where
  "polygonRegistered label s \<longleftrightarrow> regionMap s label \<noteq> None"

definition registerPolygon :: "string \<Rightarrow> region \<Rightarrow> flyouts \<Rightarrow> flyouts" where
  "registerPolygon label r s =
     s\<lparr>regionList := (if label \<in> set (regionList s) then regionList s else regionList s @ [label]),
       regionMap := (regionMap s)(label \<mapsto> r)\<rparr>"

definition getPolygonInfo :: "string \<Rightarrow> flyouts \<Rightarrow> rects option" where
  "getPolygonInfo label s = (if polygonRegistered label s then map_option rects_of (regionMap s label) else None)"

definition unregisterPanel :: "string \<Rightarrow> bool \<Rightarrow> flyouts \<Rightarrow> flyouts" where
  "unregisterPanel panelId keepShown s =
     (let s1 = unregister (getFlyoutLabel panelId) s;
          s2 = (case map_of (panelToSrc s1) panelId of
                  Some i \<Rightarrow> if i = [] then s1
                            else (removeRolloverOverride i s1)\<lparr>panelToSrc := AList.delete panelId (panelToSrc s1)\<rparr>
                | None \<Rightarrow> s1)
      in if keepShown then s2 else s2\<lparr>effects := effects s2 @ [Fade_out panelId]\<rparr>)"

text \<open>The callback: the panel closes when the mouse leaves the polygon, or is outside of it at the first look.\<close>

fun exiting :: "meeting \<Rightarrow> bool" where
  "exiting (Crossing q entering t1 t2) = (\<not> entering)"
| "exiting m = False"

definition flyout_callback :: "string \<Rightarrow> bool \<Rightarrow> flyouts \<Rightarrow> flyouts" where
  "flyout_callback panelId leaves s = (if leaves then unregisterPanel panelId False s else s)"

definition set_source :: "string \<Rightarrow> string option \<Rightarrow> flyouts \<Rightarrow> flyouts" where
  "set_source panelId srcId s =
     (let lastSrcId = map_of (panelToSrc s) panelId
      in if lastSrcId = srcId then s
         else let s1 = (case lastSrcId of Some i \<Rightarrow> if i = [] then s else removeRolloverOverride i s | None \<Rightarrow> s)
              in case srcId of
                   Some i \<Rightarrow>
                     if i = [] then s1\<lparr>panelToSrc := AList.delete panelId (panelToSrc s1)\<rparr>
                     else let s2 = addRolloverOverride i s1 in s2\<lparr>panelToSrc := AList.update panelId i (panelToSrc s2)\<rparr>
                 | None \<Rightarrow> s1\<lparr>panelToSrc := AList.delete panelId (panelToSrc s1)\<rparr>)"

definition registerFlyout :: "rects \<Rightarrow> string \<Rightarrow> string option \<Rightarrow> flyouts \<Rightarrow> flyouts option" where
  "registerFlyout rs panelId srcId s =
     (case flyout_points rs of
        None \<Rightarrow> None
      | Some ps \<Rightarrow>
          Some (registerPolygon (getFlyoutLabel panelId)
                  \<lparr>points = ps, panel = panelId, rects_of = rs, checked = False\<rparr> (set_source panelId srcId s)))"

definition checkInsideRegion :: "string \<Rightarrow> point \<Rightarrow> flyouts \<Rightarrow> bool option" where
  "checkInsideRegion label p s =
     (case regionMap s label of None \<Rightarrow> Some False | Some r \<Rightarrow> checkInside (points r) p)"

definition updateFlyout :: "string \<Rightarrow> rect \<Rightarrow> flyouts \<Rightarrow> flyouts option" where
  "updateFlyout panelId targetWidget s =
     (case getPolygonInfo (getFlyoutLabel panelId) s of
        None \<Rightarrow> Some s
      | Some rs \<Rightarrow>
          (case registerFlyout (rs\<lparr>target := Some (genRect targetWidget False)\<rparr>) panelId (map_of (panelToSrc s) panelId) s of
             None \<Rightarrow> None
           | Some s1 \<Rightarrow>
               map_option (\<lambda>b. if b then s1 else unregisterPanel panelId False s1)
                 (checkInsideRegion (getFlyoutLabel panelId) (mouseLocation s1) s1)))"

definition reregisterFlyout :: "string \<Rightarrow> flyouts \<Rightarrow> flyouts option" where
  "reregisterFlyout panelId s =
     (case getPolygonInfo (getFlyoutLabel panelId) s of
        None \<Rightarrow> None
      | Some rs \<Rightarrow> registerFlyout rs panelId (map_of (panelToSrc s) panelId) s)"

definition reregisterAllFlyouts :: "flyouts \<Rightarrow> flyouts option" where
  "reregisterAllFlyouts s = fold (\<lambda>(panelId, i) r. Option.bind r (reregisterFlyout panelId)) (panelToSrc s) (Some s)"

section \<open>A move of the mouse\<close>

text \<open>The first edge that the way of the mouse touches.\<close>

definition region_event :: "segment \<Rightarrow> point list \<Rightarrow> meeting option" where
  "region_event line ps = find (\<lambda>m. m \<noteq> Apart) (map (linesIntersect line) (edges ps))"

definition visit :: "segment \<Rightarrow> string \<Rightarrow> region \<Rightarrow> flyouts \<Rightarrow> flyouts option" where
  "visit line label r s =
     (case (if checked r then Some True else checkInside (points r) (mouseLocation s)) of
        None \<Rightarrow> None
      | Some False \<Rightarrow> Some (flyout_callback (panel r) True s)
      | Some True \<Rightarrow>
          let s1 = s\<lparr>regionMap := (regionMap s)(label \<mapsto> r\<lparr>checked := True\<rparr>)\<rparr>
          in Some (case region_event line (points r) of
                     None \<Rightarrow> s1
                   | Some m \<Rightarrow> flyout_callback (panel r) (exiting m) s1))"

lemma list_after_unregister [simp]: "length (regionList (unregister l s)) \<le> length (regionList s)"
  unfolding unregister_def using length_append [of "takeWhile (\<lambda>k. k \<noteq> l) (regionList s)" "dropWhile (\<lambda>k. k \<noteq> l) (regionList s)"]
  by simp

lemma unregister_after [simp]: "regionList (unregister l (s\<lparr>regionMap := m\<rparr>)) = regionList (unregister l s)"
  by (simp add: unregister_def)

lemma rollover_lists [simp]:
  "regionList (removeRolloverOverride i s) = regionList s" "regionMap (removeRolloverOverride i s) = regionMap s"
  "panelToSrc (removeRolloverOverride i s) = panelToSrc s"
  "regionList (addRolloverOverride i s) = regionList s" "regionMap (addRolloverOverride i s) = regionMap s"
  "panelToSrc (addRolloverOverride i s) = panelToSrc s"
  by (simp_all add: removeRolloverOverride_def addRolloverOverride_def hover_def)

lemma unregisterPanel_lists [simp]:
  "regionList (unregisterPanel p k s) = regionList (unregister (getFlyoutLabel p) s)"
  "regionMap (unregisterPanel p k s) = (regionMap s)(getFlyoutLabel p := None)"
  by (simp_all add: unregisterPanel_def Let_def unregister_def split: option.split)

lemma visit_length:
  assumes "visit line l r s = Some s'"
  shows "length (regionList s') \<le> length (regionList s)"
  using assms unfolding visit_def Let_def
  by (auto simp: flyout_callback_def split: option.splits bool.splits if_splits intro: order.trans [OF list_after_unregister])

text \<open>The list is read again at every step: a region that goes moves its successors forward.\<close>

function tick_loop :: "segment \<Rightarrow> nat \<Rightarrow> flyouts \<Rightarrow> flyouts option" where
  "tick_loop line i s =
     (if i < length (regionList s) then
        (case regionMap s (regionList s ! i) of
           None \<Rightarrow> None
         | Some r \<Rightarrow> (case visit line (regionList s ! i) r s of None \<Rightarrow> None | Some s1 \<Rightarrow> tick_loop line (i + 1) s1))
      else Some s)"
  by pat_completeness auto
termination
  by (relation "measure (\<lambda>(line, i, s). length (regionList s) - i)") (auto dest!: visit_length)

declare tick_loop.simps [simp del]

definition tick :: "real \<Rightarrow> real \<Rightarrow> bool \<Rightarrow> flyouts \<Rightarrow> flyouts option" where
  "tick x y ends s =
     (let line = \<lparr>p1 = oldPoint s, p2 = genPoint x y\<rparr>;
          s1 = s\<lparr>oldPoint := genPoint x y\<rparr>
      in if regionList s1 = [] then Some s1
         else map_option (\<lambda>s2. if ends then clear s2 else s2) (tick_loop line 0 s1))"

definition updateMouseLocation :: "real \<Rightarrow> real \<Rightarrow> bool \<Rightarrow> flyouts \<Rightarrow> flyouts option" where
  "updateMouseLocation x y ends s =
     (if mouseLocation s = genPoint x y then Some s else tick x y ends (s\<lparr>mouseLocation := genPoint x y\<rparr>))"

section \<open>Runs\<close>

text \<open>
  What the pages do: a panel is shown as a flyout, changes its size, is shown without one; the window scrolls; the
  mouse or a finger moves, the last move of a finger with \<open>True\<close>.
\<close>

datatype fly_event =
  Show_flyout rects string "string option"
| Update_flyout string rect
| Drop_flyout string bool
| Scroll
| Mouse real real bool
| Over "string list"

fun fly_step :: "fly_event \<Rightarrow> flyouts \<Rightarrow> flyouts option" where
  "fly_step (Show_flyout rs p i) s = registerFlyout rs p i s"
| "fly_step (Update_flyout p r) s = updateFlyout p r s"
| "fly_step (Drop_flyout p b) s = Some (unregisterPanel p b s)"
| "fly_step Scroll s = reregisterAllFlyouts s"
| "fly_step (Mouse x y e) s = updateMouseLocation x y e s"
| "fly_step (Over is) s = Some (s\<lparr>mouseOverIds := is\<rparr>)"

fun fly_run :: "fly_event list \<Rightarrow> flyouts \<Rightarrow> flyouts option" where
  "fly_run [] s = Some s"
| "fly_run (e # es) s = (case fly_step e s of None \<Rightarrow> None | Some s1 \<Rightarrow> fly_run es s1)"

section \<open>The invariant of the registry\<close>

definition region_ok :: "string \<Rightarrow> region \<Rightarrow> bool" where
  "region_ok l r \<longleftrightarrow> flyout_points (rects_of r) = Some (points r) \<and> l = getFlyoutLabel (panel r)"

definition regs_ok :: "flyouts \<Rightarrow> bool" where
  "regs_ok s \<longleftrightarrow>
     distinct (regionList s) \<and> (\<forall>l. l \<in> set (regionList s) \<longleftrightarrow> regionMap s l \<noteq> None) \<and>
     (\<forall>l r. regionMap s l = Some r \<longrightarrow> region_ok l r)"

definition sources_ok :: "flyouts \<Rightarrow> bool" where
  "sources_ok s \<longleftrightarrow>
     [] \<notin> ran (map_of (panelToSrc s)) \<and> distinct (rolloverOverrides s) \<and>
     set (rolloverOverrides s) \<subseteq> ran (map_of (panelToSrc s))"

text \<open>Every panel with a source has a registered region.\<close>

definition linked :: "flyouts \<Rightarrow> bool" where
  "linked s \<longleftrightarrow> (\<forall>p. map_of (panelToSrc s) p \<noteq> None \<longrightarrow> regionMap s (getFlyoutLabel p) \<noteq> None)"

named_theorems fly_intros

lemma unregister_list:
  assumes "distinct (regionList s)"
  shows "regionList (unregister l s) = remove1 l (regionList s)"
proof -
  have "takeWhile (\<lambda>k. k \<noteq> l) xs @ drop 1 (dropWhile (\<lambda>k. k \<noteq> l) xs) = remove1 l xs" for xs :: "string list"
    by (induction xs) auto
  then show ?thesis by (simp add: unregister_def)
qed

lemma unregister_map: "regionMap (unregister l s) = (regionMap s)(l := None)"
  by (simp add: unregister_def)

lemma regs_unregister [fly_intros]:
  assumes "regs_ok s"
  shows "regs_ok (unregister l s)"
proof -
  have d: "distinct (regionList s)" and m: "\<And>k. k \<in> set (regionList s) \<longleftrightarrow> regionMap s k \<noteq> None"
    and r: "\<And>k r. regionMap s k = Some r \<Longrightarrow> region_ok k r"
    using assms unfolding regs_ok_def by blast+
  show ?thesis unfolding regs_ok_def unregister_list [OF d] unregister_map
    by (intro conjI allI impI) (use d m r in \<open>auto split: if_splits\<close>)
qed

lemma regs_unregisterPanel [fly_intros]: "regs_ok s \<Longrightarrow> regs_ok (unregisterPanel p k s)"
  using regs_unregister [of s "getFlyoutLabel p"] unfolding regs_ok_def by (simp add: unregister_def)

lemma regs_callback [fly_intros]: "regs_ok s \<Longrightarrow> regs_ok (flyout_callback p b s)"
  by (simp add: flyout_callback_def fly_intros)

lemma set_source_lists [simp]:
  "regionList (set_source p i s) = regionList s" "regionMap (set_source p i s) = regionMap s"
  "mouseLocation (set_source p i s) = mouseLocation s"
  by (auto simp: set_source_def Let_def addRolloverOverride_def removeRolloverOverride_def hover_def split: option.split)

lemma regs_set_source [fly_intros]: "regs_ok s \<Longrightarrow> regs_ok (set_source p i s)"
  by (simp add: regs_ok_def)

lemma flyout_points_some: "flyout_points rs = Some ps \<Longrightarrow> ps \<noteq> []"
  by (auto simp: flyout_points_def corners_def getSmallPolygon_def getLargePolygon_def Let_def
      split: option.splits if_splits)

lemma regs_registerFlyout [fly_intros]:
  "regs_ok s \<Longrightarrow> registerFlyout rs p i s = Some s' \<Longrightarrow> regs_ok s'"
  by (auto simp: registerFlyout_def registerPolygon_def regs_ok_def region_ok_def split: option.splits if_splits)

lemma checkInside_total: "ps \<noteq> [] \<Longrightarrow> \<exists>b. checkInside ps p = Some b"
  by (cases ps) (auto simp: checkInside_def Let_def)

lemma visit_total:
  assumes "regs_ok s" and "regionMap s l = Some r"
  shows "\<exists>s'. visit line l r s = Some s' \<and> regs_ok s'"
proof -
  obtain b where b: "(if checked r then Some True else checkInside (points r) (mouseLocation s)) = Some b"
    using assms checkInside_total [OF flyout_points_some, of "rects_of r" "points r" "mouseLocation s"]
    unfolding regs_ok_def region_ok_def by (cases "checked r") auto
  let ?s = "s\<lparr>regionMap := (regionMap s)(l \<mapsto> r\<lparr>checked := True\<rparr>)\<rparr>"
  have "regs_ok ?s" using assms by (auto simp: regs_ok_def region_ok_def)
  then show ?thesis unfolding visit_def b Let_def
    using assms(1) by (auto simp: fly_intros split: bool.split option.split)
qed

lemma tick_loop_total: "regs_ok s \<Longrightarrow> \<exists>s'. tick_loop line i s = Some s' \<and> regs_ok s'"
proof (induction line i s rule: tick_loop.induct)
  case (1 line i s)
  show ?case
  proof (cases "i < length (regionList s)")
    case True
    then have "regionList s ! i \<in> set (regionList s)" by simp
    then obtain r where r: "regionMap s (regionList s ! i) = Some r" using "1.prems" unfolding regs_ok_def by blast
    then obtain s1 where "visit line (regionList s ! i) r s = Some s1" "regs_ok s1" using visit_total "1.prems" by blast
    with r True "1.IH" show ?thesis by (subst tick_loop.simps) simp
  qed (use "1.prems" in \<open>simp add: tick_loop.simps\<close>)
qed

lemma regs_other [simp]:
  "regs_ok (s\<lparr>mouseLocation := q\<rparr>) = regs_ok s" "regs_ok (s\<lparr>oldPoint := q\<rparr>) = regs_ok s"
  "regs_ok (s\<lparr>mouseOverIds := is\<rparr>) = regs_ok s" "regs_ok (s\<lparr>effects := es\<rparr>) = regs_ok s" "regs_ok (clear s)"
  by (simp_all add: regs_ok_def clear_def)

lemma tick_total: "regs_ok s \<Longrightarrow> \<exists>s'. tick x y e s = Some s' \<and> regs_ok s'"
  using tick_loop_total [of "s\<lparr>oldPoint := genPoint x y\<rparr>" "\<lparr>p1 = oldPoint s, p2 = genPoint x y\<rparr>" 0]
  by (cases e) (auto simp: tick_def Let_def)

lemma mouse_total: "regs_ok s \<Longrightarrow> \<exists>s'. updateMouseLocation x y e s = Some s' \<and> regs_ok s'"
  using tick_total [of "s\<lparr>mouseLocation := genPoint x y\<rparr>"] by (auto simp: updateMouseLocation_def)

end
