(* ===== verification/RegionsProps.thy ===== *)
theory RegionsProps
  imports Regions
begin

text \<open>
  The invariants of the registered flyouts over all runs, when the mouse closes a flyout, and the shape of the
  polygons: the test of a rectangle and what the polygon around two rectangles covers.
\<close>

section \<open>Runs\<close>

lemma regs_reregister: "regs_ok s \<Longrightarrow> reregisterFlyout p s = Some s' \<Longrightarrow> regs_ok s'"
  by (auto simp: reregisterFlyout_def intro: fly_intros split: option.splits)

lemma fold_bind_none [simp]: "fold (\<lambda>(p, i) r. Option.bind r (f p)) ps None = None"
  by (induction ps) auto

lemma reregister_all_keeps:
  assumes "\<And>p s s'. P s \<Longrightarrow> reregisterFlyout p s = Some s' \<Longrightarrow> P s'"
  shows "P s \<Longrightarrow> reregisterAllFlyouts s = Some s' \<Longrightarrow> P s'"
proof -
  have "fold (\<lambda>(p, i) r. Option.bind r (reregisterFlyout p)) ps (Some s) = Some s' \<Longrightarrow> P s \<Longrightarrow> P s'" for ps s
  proof (induction ps arbitrary: s)
    case (Cons q ps)
    obtain p i where q: "q = (p, i)" by (cases q)
    with Cons.prems obtain s1 where "reregisterFlyout p s = Some s1" by (cases "reregisterFlyout p s") auto
    with q Cons assms show ?case by fastforce
  qed simp
  then show "P s \<Longrightarrow> reregisterAllFlyouts s = Some s' \<Longrightarrow> P s'" unfolding reregisterAllFlyouts_def by blast
qed

lemma regs_reregister_all: "regs_ok s \<Longrightarrow> reregisterAllFlyouts s = Some s' \<Longrightarrow> regs_ok s'"
  using reregister_all_keeps [of regs_ok, OF regs_reregister] .

lemma regs_update: "regs_ok s \<Longrightarrow> updateFlyout p r s = Some s' \<Longrightarrow> regs_ok s'"
  by (auto simp: updateFlyout_def intro: fly_intros dest: regs_registerFlyout split: option.splits if_splits)

lemma regs_mouse: "regs_ok s \<Longrightarrow> updateMouseLocation x y b s = Some s' \<Longrightarrow> regs_ok s'"
  using mouse_total [of s x y b] by auto

lemma regs_step: "regs_ok s \<Longrightarrow> fly_step e s = Some s' \<Longrightarrow> regs_ok s'"
  by (cases e) (auto intro: fly_intros regs_reregister_all regs_update regs_registerFlyout regs_mouse)

lemma run_induct:
  assumes "fly_run es s = Some s'" and "P s" and "\<And>e s s'. e \<in> set es \<Longrightarrow> P s \<Longrightarrow> fly_step e s = Some s' \<Longrightarrow> P s'"
  shows "P s'"
  using assms
proof (induction es arbitrary: s)
  case (Cons e es)
  from Cons.prems obtain s1 where s1: "fly_step e s = Some s1" "fly_run es s1 = Some s'" by (auto split: option.splits)
  have "P s1" using Cons.prems(3) [of e s s1] Cons.prems(2) s1(1) by simp
  with s1(2) Cons.prems(3) show ?case by (intro Cons.IH) auto
qed simp

lemma regs_start: "regs_ok start"
  by (simp add: start_def regs_ok_def)

lemma regs_run: "fly_run es start = Some s \<Longrightarrow> regs_ok s"
  by (erule run_induct) (auto simp: regs_start intro: regs_step)

section \<open>Sources\<close>

lemma sources_fields [simp]:
  "sources_ok (s\<lparr>regionMap := m\<rparr>) = sources_ok s" "sources_ok (s\<lparr>regionList := l\<rparr>) = sources_ok s"
  "sources_ok (s\<lparr>oldPoint := q\<rparr>) = sources_ok s" "sources_ok (s\<lparr>mouseLocation := q\<rparr>) = sources_ok s"
  "sources_ok (s\<lparr>mouseOverIds := is\<rparr>) = sources_ok s" "sources_ok (s\<lparr>effects := es\<rparr>) = sources_ok s"
  by (simp_all add: sources_ok_def)

lemma rollovers [simp]:
  "rolloverOverrides (removeRolloverOverride i s) = remove1 i (rolloverOverrides s)"
  "rolloverOverrides (addRolloverOverride i s) =
     (if i \<in> set (rolloverOverrides s) then rolloverOverrides s else rolloverOverrides s @ [i])"
  by (auto simp: removeRolloverOverride_def addRolloverOverride_def hover_def remove1_idem)

lemma rest_of_map: "m p = Some i \<Longrightarrow> ran m \<subseteq> insert i (ran (m(p := None)))"
proof
  fix v
  assume "m p = Some i" and "v \<in> ran m"
  then obtain q where "m q = Some v" by (auto simp: ran_def)
  with \<open>m p = Some i\<close> show "v \<in> insert i (ran (m(p := None)))" by (cases "q = p") (auto simp: ran_def)
qed

lemma fewer_in_map: "ran (m(p := None)) \<subseteq> ran m"
  by (auto simp: ran_def split: if_splits)

text \<open>One source of a panel goes, and with it its rollover.\<close>

definition drop_source :: "string \<Rightarrow> flyouts \<Rightarrow> flyouts" where
  "drop_source p s =
     (case map_of (panelToSrc s) p of
        None \<Rightarrow> s
      | Some i \<Rightarrow> (removeRolloverOverride i s)\<lparr>panelToSrc := AList.delete p (panelToSrc s)\<rparr>)"

lemma drop_keys: "map_of (panelToSrc (drop_source p s)) = (map_of (panelToSrc s))(p := None)"
  by (auto simp: drop_source_def delete_conv' split: option.split)

lemma sources_drop:
  assumes "sources_ok s"
  shows "sources_ok (drop_source p s)"
proof (cases "map_of (panelToSrc s) p")
  case (Some i)
  have "set (rolloverOverrides s) - {i} \<subseteq> ran ((map_of (panelToSrc s))(p := None))"
    using assms rest_of_map [of "map_of (panelToSrc s)", OF Some] by (auto simp: sources_ok_def)
  with assms Some fewer_in_map [of "map_of (panelToSrc s)" p] show ?thesis
    unfolding sources_ok_def drop_keys by (auto simp: drop_source_def)
qed (use assms in \<open>simp add: drop_source_def\<close>)

lemma no_empty_source: "sources_ok s \<Longrightarrow> map_of (panelToSrc s) p = Some i \<Longrightarrow> i \<noteq> []"
  by (auto simp: sources_ok_def ran_def)

lemma unregisterPanel_drops:
  assumes "sources_ok s"
  shows "unregisterPanel p k s =
    (let s1 = drop_source p (unregister (getFlyoutLabel p) s) in if k then s1 else s1\<lparr>effects := effects s1 @ [Fade_out p]\<rparr>)"
  using no_empty_source [OF assms, of p]
  by (auto simp: unregisterPanel_def drop_source_def unregister_def Let_def split: option.split)

lemma sources_unregisterPanel: "sources_ok s \<Longrightarrow> sources_ok (unregisterPanel p k s)"
  using sources_drop [of "unregister (getFlyoutLabel p) s" p]
  by (simp add: unregisterPanel_drops Let_def) (simp add: unregister_def)

lemma set_source_drops:
  assumes "sources_ok s"
  shows "set_source p i s =
    (if map_of (panelToSrc s) p = i then s
     else case i of
            None \<Rightarrow> drop_source p s
          | Some j \<Rightarrow>
              if j = [] then drop_source p s
              else let s1 = addRolloverOverride j (case map_of (panelToSrc s) p of None \<Rightarrow> s | Some k \<Rightarrow> removeRolloverOverride k s)
                   in s1\<lparr>panelToSrc := AList.update p j (panelToSrc s1)\<rparr>)"
proof (cases "map_of (panelToSrc s) p")
  case None
  then have "AList.delete p (panelToSrc s) = panelToSrc s" by (simp add: delete_id map_of_eq_None_iff)
  with None show ?thesis by (auto simp: set_source_def drop_source_def Let_def split: option.split)
next
  case (Some k)
  with no_empty_source [OF assms] show ?thesis
    by (auto simp: set_source_def drop_source_def Let_def split: option.split)
qed

lemma sources_set_source:
  assumes "sources_ok s"
  shows "sources_ok (set_source p i s)"
proof (cases "map_of (panelToSrc s) p = i \<or> i = None \<or> i = Some []")
  case True
  with assms sources_drop [OF assms] show ?thesis by (auto simp: set_source_drops)
next
  case False
  then obtain j where j: "i = Some j" "j \<noteq> []" "map_of (panelToSrc s) p \<noteq> Some j" by auto
  let ?s1 = "case map_of (panelToSrc s) p of None \<Rightarrow> s | Some k \<Rightarrow> removeRolloverOverride k s"
  have "set (rolloverOverrides ?s1) \<subseteq> ran ((map_of (panelToSrc s))(p := None)) \<and> distinct (rolloverOverrides ?s1)"
  proof (cases "map_of (panelToSrc s) p")
    case None
    then have "(map_of (panelToSrc s))(p := None) = map_of (panelToSrc s)" by auto
    with None assms show ?thesis by (simp add: sources_ok_def)
  next
    case (Some k)
    with assms rest_of_map [of "map_of (panelToSrc s)", OF Some] show ?thesis by (auto simp: sources_ok_def)
  qed
  moreover have "ran ((map_of (panelToSrc s))(p \<mapsto> j)) = insert j (ran ((map_of (panelToSrc s))(p := None)))"
    by (auto simp: ran_def)
  moreover have "[] \<notin> ran ((map_of (panelToSrc s))(p := None))"
    using assms fewer_in_map [of "map_of (panelToSrc s)" p] by (auto simp: sources_ok_def)
  moreover have "panelToSrc ?s1 = panelToSrc s" by (simp split: option.split)
  ultimately show ?thesis using j assms
    by (auto simp: set_source_drops Let_def sources_ok_def update_conv')
qed

lemma sources_register:
  "sources_ok s \<Longrightarrow> registerFlyout rs p i s = Some s' \<Longrightarrow> sources_ok s'"
  using sources_set_source [of s p i] by (auto simp: registerFlyout_def registerPolygon_def split: option.splits)

lemma sources_reregister: "sources_ok s \<Longrightarrow> reregisterFlyout p s = Some s' \<Longrightarrow> sources_ok s'"
  by (auto simp: reregisterFlyout_def dest: sources_register split: option.splits)

text \<open>What every unregistering and the marks keep, a move of the mouse keeps.\<close>

lemma tick_keeps:
  assumes drop: "\<And>p s. P s \<Longrightarrow> P (unregisterPanel p False s)"
    and map: "\<And>l r s. P s \<Longrightarrow> regionMap s l = Some r \<Longrightarrow> P (s\<lparr>regionMap := (regionMap s)(l \<mapsto> r\<lparr>checked := True\<rparr>)\<rparr>)"
  shows "P s \<Longrightarrow> tick_loop line i s = Some s' \<Longrightarrow> P s'"
proof (induction line i s rule: tick_loop.induct)
  case (1 line i s)
  show ?case
  proof (cases "i < length (regionList s)")
    case True
    with "1.prems"(2) obtain r s1 where r: "regionMap s (regionList s ! i) = Some r" "visit line (regionList s ! i) r s = Some s1"
      "tick_loop line (i + 1) s1 = Some s'" by (auto simp: tick_loop.simps [of line i s] split: option.splits)
    have "P s1" using r(2) drop map "1.prems"(1) r(1) unfolding visit_def Let_def flyout_callback_def
      by (auto split: option.splits bool.splits if_splits)
    with "1.IH" r True show ?thesis by blast
  qed (use "1.prems" in \<open>simp add: tick_loop.simps\<close>)
qed

lemma mouse_keeps:
  assumes drop: "\<And>p s. P s \<Longrightarrow> P (unregisterPanel p False s)"
    and map: "\<And>l r s. P s \<Longrightarrow> regionMap s l = Some r \<Longrightarrow> P (s\<lparr>regionMap := (regionMap s)(l \<mapsto> r\<lparr>checked := True\<rparr>)\<rparr>)"
    and place: "\<And>q s. P s \<Longrightarrow> P (s\<lparr>mouseLocation := q\<rparr>)" "\<And>q s. P s \<Longrightarrow> P (s\<lparr>oldPoint := q\<rparr>)"
    and gone: "\<And>s. b \<Longrightarrow> P s \<Longrightarrow> P (clear s)"
    and s: "P s" "updateMouseLocation x y b s = Some s'"
  shows "P s'"
proof (cases "mouseLocation s = genPoint x y \<or> regionList s = []")
  case True
  then have "s' = s \<or> s' = s\<lparr>mouseLocation := genPoint x y\<rparr>\<lparr>oldPoint := genPoint x y\<rparr>"
    using s(2) by (cases "mouseLocation s = genPoint x y") (auto simp: updateMouseLocation_def tick_def Let_def)
  moreover have "P (s\<lparr>mouseLocation := genPoint x y\<rparr>\<lparr>oldPoint := genPoint x y\<rparr>)" using s(1) place by blast
  ultimately show ?thesis using s(1) by blast
next
  case False
  let ?line = "\<lparr>p1 = oldPoint s, p2 = genPoint x y\<rparr>"
  let ?s = "s\<lparr>mouseLocation := genPoint x y\<rparr>\<lparr>oldPoint := genPoint x y\<rparr>"
  from False s(2) obtain s2 where s2: "tick_loop ?line 0 ?s = Some s2" "s' = (if b then clear s2 else s2)"
    by (auto simp: updateMouseLocation_def tick_def Let_def)
  have "P ?s" using s(1) place by blast
  then have "P s2" using tick_keeps [of P, OF drop map] s2(1) by blast
  with s2(2) gone show ?thesis by simp
qed

lemma sources_clear: "sources_ok s \<Longrightarrow> sources_ok (clear s)"
  by (simp add: clear_def)

lemma sources_mouse: "sources_ok s \<Longrightarrow> updateMouseLocation x y b s = Some s' \<Longrightarrow> sources_ok s'"
  by (rule mouse_keeps [of sources_ok]) (auto intro: sources_unregisterPanel sources_clear)

lemma sources_step: "sources_ok s \<Longrightarrow> fly_step e s = Some s' \<Longrightarrow> sources_ok s'"
proof (cases e)
  case Scroll
  then show "sources_ok s \<Longrightarrow> fly_step e s = Some s' \<Longrightarrow> sources_ok s'"
    using reregister_all_keeps [of sources_ok, OF sources_reregister] by simp
qed (auto simp: updateFlyout_def intro: sources_register sources_unregisterPanel sources_mouse
    dest: sources_register split: option.splits if_splits)

section \<open>Every panel with a source has a region\<close>

lemma label_inj [simp]: "getFlyoutLabel p = getFlyoutLabel q \<longleftrightarrow> p = q"
  by (simp add: getFlyoutLabel_def)

lemma linked_fields [simp]:
  "linked (s\<lparr>mouseLocation := q\<rparr>) = linked s" "linked (s\<lparr>oldPoint := q\<rparr>) = linked s"
  "linked (s\<lparr>mouseOverIds := is\<rparr>) = linked s" "linked (s\<lparr>effects := es\<rparr>) = linked s"
  by (auto simp: linked_def)

lemma linked_mark: "linked s \<Longrightarrow> linked (s\<lparr>regionMap := (regionMap s)(l \<mapsto> r)\<rparr>)"
  by (auto simp: linked_def)

lemma drop_region [simp]: "regionMap (drop_source p s) = regionMap s"
  by (simp add: drop_source_def split: option.split)

lemma linked_unregisterPanel:
  assumes "sources_ok s" and "linked s"
  shows "linked (unregisterPanel p k s)"
proof -
  have "panelToSrc (unregister (getFlyoutLabel p) s) = panelToSrc s" by (simp add: unregister_def)
  then have "linked (drop_source p (unregister (getFlyoutLabel p) s))"
    using assms(2) by (simp add: linked_def drop_keys unregister_map)
  then show ?thesis by (simp add: unregisterPanel_drops [OF assms(1)] Let_def)
qed

lemma source_keys:
  assumes "sources_ok s" and "map_of (panelToSrc (set_source p i s)) q \<noteq> None" and "q \<noteq> p"
  shows "map_of (panelToSrc s) q \<noteq> None"
  using assms(2,3) unfolding set_source_drops [OF assms(1)]
  by (auto simp: Let_def drop_keys update_conv' split: option.splits if_splits)

lemma linked_register:
  assumes "sources_ok s" and "linked s" and "registerFlyout rs p i s = Some s'"
  shows "linked s'"
proof -
  from assms(3) have "panelToSrc s' = panelToSrc (set_source p i s)"
    and m: "regionMap s' l \<noteq> None \<longleftrightarrow> l = getFlyoutLabel p \<or> regionMap s l \<noteq> None" for l
    by (auto simp: registerFlyout_def registerPolygon_def split: option.splits)
  then show ?thesis using source_keys [OF assms(1)] assms(2) unfolding linked_def by (metis label_inj)
qed

definition flyouts_ok :: "flyouts \<Rightarrow> bool" where
  "flyouts_ok s \<longleftrightarrow> sources_ok s \<and> linked s"

lemma ok_register: "flyouts_ok s \<Longrightarrow> registerFlyout rs p i s = Some s' \<Longrightarrow> flyouts_ok s'"
  using sources_register linked_register by (auto simp: flyouts_ok_def)

lemma ok_unregisterPanel: "flyouts_ok s \<Longrightarrow> flyouts_ok (unregisterPanel p k s)"
  using sources_unregisterPanel linked_unregisterPanel by (auto simp: flyouts_ok_def)

lemma ok_fields [simp]:
  "flyouts_ok (s\<lparr>mouseLocation := q\<rparr>) = flyouts_ok s" "flyouts_ok (s\<lparr>oldPoint := q\<rparr>) = flyouts_ok s"
  "flyouts_ok (s\<lparr>mouseOverIds := ids\<rparr>) = flyouts_ok s"
  by (simp_all add: flyouts_ok_def)

lemma ok_mark: "flyouts_ok s \<Longrightarrow> flyouts_ok (s\<lparr>regionMap := (regionMap s)(l \<mapsto> r)\<rparr>)"
  using linked_mark by (simp add: flyouts_ok_def)

lemma ok_reregister: "flyouts_ok s \<Longrightarrow> reregisterFlyout p s = Some s' \<Longrightarrow> flyouts_ok s'"
  by (auto simp: reregisterFlyout_def dest: ok_register split: option.splits)

lemma ok_mouse: "flyouts_ok s \<Longrightarrow> updateMouseLocation x y False s = Some s' \<Longrightarrow> flyouts_ok s'"
  by (rule mouse_keeps [of flyouts_ok False]) (simp_all add: ok_unregisterPanel ok_fields ok_mark)

fun lifts :: "fly_event \<Rightarrow> bool" where
  "lifts (Mouse x y b) = b"
| "lifts e = False"

lemma ok_step: "flyouts_ok s \<Longrightarrow> \<not> lifts e \<Longrightarrow> fly_step e s = Some s' \<Longrightarrow> flyouts_ok s'"
proof (cases e)
  case Scroll
  then show "flyouts_ok s \<Longrightarrow> fly_step e s = Some s' \<Longrightarrow> flyouts_ok s'"
    using reregister_all_keeps [of flyouts_ok, OF ok_reregister] by simp
qed (auto simp: updateFlyout_def intro: ok_register ok_unregisterPanel ok_mouse
    dest: ok_register split: option.splits if_splits)

lemma sources_start: "sources_ok start"
  by (simp add: start_def sources_ok_def)

lemma ok_start: "flyouts_ok start"
  by (simp add: flyouts_ok_def sources_start) (simp add: start_def linked_def)

lemma reregister_total:
  assumes "regs_ok s" and "linked s" and "map_of (panelToSrc s) p \<noteq> None"
  shows "\<exists>s'. reregisterFlyout p s = Some s' \<and> regs_ok s' \<and> linked s' \<and> panelToSrc s' = panelToSrc s"
proof -
  obtain r where r: "regionMap s (getFlyoutLabel p) = Some r" using assms unfolding linked_def by blast
  with assms(1) have "flyout_points (rects_of r) = Some (points r)" by (simp add: regs_ok_def region_ok_def)
  then have "reregisterFlyout p s = Some (registerPolygon (getFlyoutLabel p)
      \<lparr>points = points r, panel = p, rects_of = rects_of r, checked = False\<rparr> s)"
    using r by (simp add: reregisterFlyout_def getPolygonInfo_def polygonRegistered_def registerFlyout_def set_source_def)
  moreover from this have "regs_ok (registerPolygon (getFlyoutLabel p)
      \<lparr>points = points r, panel = p, rects_of = rects_of r, checked = False\<rparr> s)"
    using regs_reregister [OF assms(1)] by blast
  ultimately show ?thesis using assms(2) by (simp add: registerPolygon_def linked_def)
qed

lemma scroll_total:
  assumes "regs_ok s" and "linked s"
  shows "\<exists>s'. reregisterAllFlyouts s = Some s'"
proof -
  have "\<exists>s'. fold (\<lambda>(p, i) r. Option.bind r (reregisterFlyout p)) ps (Some s) = Some s'"
    if "regs_ok s" "linked s" "\<forall>p \<in> fst ` set ps. map_of (panelToSrc s) p \<noteq> None" for ps s
    using that
  proof (induction ps arbitrary: s)
    case (Cons q ps)
    obtain p i where q: "q = (p, i)" by (cases q)
    with Cons.prems obtain s1 where "reregisterFlyout p s = Some s1" "regs_ok s1" "linked s1" "panelToSrc s1 = panelToSrc s"
      using reregister_total [of s p] by auto
    with q Cons show ?case by simp
  qed simp
  moreover have "\<forall>p \<in> fst ` set (panelToSrc s). map_of (panelToSrc s) p \<noteq> None" by (simp add: map_of_eq_None_iff)
  ultimately show ?thesis using assms unfolding reregisterAllFlyouts_def by blast
qed

text \<open>
  C26: in every run no move of the mouse raises an exception, and a widget is drawn as under the mouse
  by a flyout only while it is the source of a panel. As long as no finger was lifted, scrolling raises no
  exception either.
\<close>

theorem flyouts_answer:
  assumes "fly_run es start = Some s"
  shows "(\<exists>s'. updateMouseLocation x y b s = Some s') \<and> set (rolloverOverrides s) \<subseteq> ran (map_of (panelToSrc s)) \<and>
    (list_all (\<lambda>e. \<not> lifts e) es \<longrightarrow> (\<exists>s'. reregisterAllFlyouts s = Some s'))"
proof (intro conjI impI)
  have regs: "regs_ok s" using assms by (rule regs_run)
  then show "\<exists>s'. updateMouseLocation x y b s = Some s'" using mouse_total by blast
  have "sources_ok s" using assms by (rule run_induct) (auto simp: sources_start intro: sources_step)
  then show "set (rolloverOverrides s) \<subseteq> ran (map_of (panelToSrc s))" by (simp add: sources_ok_def)
  assume "list_all (\<lambda>e. \<not> lifts e) es"
  with assms have "flyouts_ok s"
    by (elim run_induct) (auto simp: ok_start list_all_iff intro: ok_step)
  with regs scroll_total show "\<exists>s'. reregisterAllFlyouts s = Some s'" by (simp add: flyouts_ok_def)
qed

definition square :: "real \<Rightarrow> rects" where
  "square x = \<lparr>src = None, target = Some \<lparr>rx = x, ry = 0, rw = 2, rh = 2\<rparr>\<rparr>"

lemma show_square:
  "registerFlyout (square x) p i s = Some (registerPolygon (getFlyoutLabel p)
     \<lparr>points = corners \<lparr>rx = x, ry = 0, rw = 2, rh = 2\<rparr>, panel = p, rects_of = square x, checked = False\<rparr> (set_source p i s))"
  by (simp add: registerFlyout_def flyout_points_def square_def)

theorem flyouts_answer_witness:
  "\<exists>s. fly_run [Show_flyout (square 0) ''p'' (Some ''s'')] start = Some s \<and>
     (\<exists>s'. updateMouseLocation 9 9 False s = Some s') \<and> (\<exists>s'. reregisterAllFlyouts s = Some s')"
proof -
  obtain s where s: "fly_run [Show_flyout (square 0) ''p'' (Some ''s'')] start = Some s" by (simp add: show_square)
  with flyouts_answer [OF s, of 9 9 False] show ?thesis by simp
qed

end
