(* ===== verification/RegionsShape.thy ===== *)
theory RegionsShape
  imports Regions
begin

text \<open>
  When a move of the mouse closes a flyout, the test of a rectangle, and what the polygon around two rectangles
  covers. The polygons go clockwise on the screen, where \<open>y\<close> grows downwards.
\<close>

section \<open>Leaving a polygon\<close>

text \<open>On which side of an edge a point is: positive to the inner side.\<close>

definition side :: "segment \<Rightarrow> point \<Rightarrow> real" where
  "side e p = (px (p2 e) - px (p1 e)) * (py p - py (p1 e)) - (py (p2 e) - py (p1 e)) * (px p - px (p1 e))"

definition strictly_inside :: "point list \<Rightarrow> point \<Rightarrow> bool" where
  "strictly_inside ps p \<longleftrightarrow> (\<forall>e \<in> set (edges ps). 0 < side e p)"

lemma side_way:
  assumes "px q = px (p1 l) + t * (px (p2 l) - px (p1 l))" and "py q = py (p1 l) + t * (py (p2 l) - py (p1 l))"
  shows "side e q = side e (p1 l) + t * turn e l"
  unfolding side_def turn_def assms by (simp add: algebra_simps)

lemma side_edge: "on_segment q e \<Longrightarrow> side e q = 0"
  unfolding on_segment_def using side_way [of q e _ e] by (auto simp: side_def turn_def)

lemma touching_leaves:
  assumes inside: "0 < side e (p1 l)" and move: "p1 l \<noteq> p2 l" and m: "linesIntersect l e = m" "m \<noteq> Apart"
  shows "exiting m"
proof -
  have e: "p1 e \<noteq> p2 e" using inside by (auto simp: side_def)
  have out: "turn e l < 0" if q: "on_segment q l" "on_segment q e" for q
  proof -
    obtain t where t: "0 \<le> t" "side e q = side e (p1 l) + t * turn e l"
      using q(1) side_way unfolding on_segment_def by blast
    then have "t * turn e l < 0" using inside side_edge [OF q(2)] by simp
    with t(1) show ?thesis by (simp add: mult_less_0_iff)
  qed
  obtain q where q: "meets m q" using m(2) on_segment_ends by (cases m) auto
  then have "on_segment q l" "on_segment q e" using meets_common [of l e q] m(1) by auto
  then have t: "turn e l < 0" by (rule out)
  show ?thesis
  proof (cases m)
    case (Crossing q entering t1 t2)
    with crossing_side [of l e q entering t1 t2, OF _ move e] m(1) t show ?thesis by simp
  next
    case (Parallel a b s)
    with parallel_turn [of l e a b s] m(1) t show ?thesis by simp
  qed (use m(2) in simp)
qed


section \<open>The edges of a polygon\<close>

fun link :: "point list \<Rightarrow> point \<Rightarrow> segment list" where
  "link [] q = []"
| "link [a] q = [\<lparr>p1 = a, p2 = q\<rparr>]"
| "link (a # b # ps) q = \<lparr>p1 = a, p2 = b\<rparr> # link (b # ps) q"

lemma link_nth: "length (link ps q) = length ps"
  "i < length ps \<Longrightarrow> link ps q ! i = \<lparr>p1 = ps ! i, p2 = (if i + 1 < length ps then ps ! (i + 1) else q)\<rparr>"
  by (induction ps q arbitrary: i rule: link.induct) (auto simp: nth_Cons split: nat.split)

lemma edges_link: "edges (q # qs) = link (q # qs) q"
proof (rule nth_equalityI)
  fix i
  assume "i < length (edges (q # qs))"
  then have "i < length qs \<or> i = length qs" by (auto simp: edges_def)
  then show "edges (q # qs) ! i = link (q # qs) q ! i"
    by (auto simp: edges_def link_nth simp del: upt_Suc link.simps)
qed (simp add: edges_def link_nth del: link.simps)

section \<open>The test of a rectangle\<close>

text \<open>The horizontal way of the test with an upright and with a horizontal edge between its ends.\<close>

lemma test_upright:
  assumes "a < x" and "x < b" and "c \<noteq> d"
  shows "\<exists>t2. linesIntersect \<lparr>p1 = genPoint a y, p2 = genPoint b y\<rparr> \<lparr>p1 = genPoint x c, p2 = genPoint x d\<rparr> =
    (if min c d \<le> y \<and> y \<le> max c d then Crossing (genPoint x y) (d < c) None t2 else Apart)"
  using assms by (auto simp: linesIntersect_def meet_vertical_def Let_def vertical_def low_def high_def forward_def slope_def genPoint_def)

lemma test_level:
  assumes "a < min c d" and "max c d < b" and "c \<noteq> d"
  shows "linesIntersect \<lparr>p1 = genPoint a y, p2 = genPoint b y\<rparr> \<lparr>p1 = genPoint c z, p2 = genPoint d z\<rparr> =
    (if y = z then Parallel (genPoint (min c d) z) (genPoint (max c d) z) (c < d) else Apart)"
  using assms by (auto simp: linesIntersect_def overlap_def Let_def vertical_def low_def high_def forward_def slope_def genPoint_def)

lemma upright_cos: "c \<noteq> d \<Longrightarrow> getCos \<lparr>p1 = genPoint x c, p2 = genPoint x d\<rparr> = Some 0"
  by (simp add: getCos_def Let_def genPoint_def)

lemma scan_upright:
  assumes "a < x" and "x < b" and "c \<noteq> d" and "-2 \<le> v" and "v < 0 \<or> x \<noteq> closest"
  shows "scan p \<lparr>p1 = genPoint a y, p2 = genPoint b y\<rparr> (\<lparr>p1 = genPoint x c, p2 = genPoint x d\<rparr> # es) entered closest v =
    (if min c d \<le> y \<and> y \<le> max c d \<and> x \<le> px p \<and> closest \<le> x
     then x = px p \<or> scan p \<lparr>p1 = genPoint a y, p2 = genPoint b y\<rparr> es (d < c) x 0
     else scan p \<lparr>p1 = genPoint a y, p2 = genPoint b y\<rparr> es entered closest v)"
proof -
  obtain t2 where t2: "linesIntersect \<lparr>p1 = genPoint a y, p2 = genPoint b y\<rparr> \<lparr>p1 = genPoint x c, p2 = genPoint x d\<rparr> =
    (if min c d \<le> y \<and> y \<le> max c d then Crossing (genPoint x y) (d < c) None t2 else Apart)"
    using test_upright assms(1-3) by blast
  have "px (genPoint x y) = x" by (simp add: genPoint_def)
  with t2 assms(3-5) show ?thesis
    by (cases "t2 = Some TieEnd") (auto simp: upright_cos Let_def simp del: min_le_iff_disj le_max_iff_disj)
qed

lemma scan_level:
  assumes "a < min c d" and "max c d < b" and "c \<noteq> d"
  shows "scan p \<lparr>p1 = genPoint a y, p2 = genPoint b y\<rparr> (\<lparr>p1 = genPoint c z, p2 = genPoint d z\<rparr> # es) entered closest v =
    (y = z \<and> min c d \<le> px p \<and> px p \<le> max c d \<or> scan p \<lparr>p1 = genPoint a y, p2 = genPoint b y\<rparr> es entered closest v)"
  using test_level [OF assms, of y z] by (auto simp: genPoint_def)

lemma rectangle_test:
  assumes "0 < rw r" and "0 < rh r"
  shows "checkInside (corners r) p =
    Some (rx r \<le> px p \<and> px p \<le> right r \<and> ry r \<le> py p \<and> py p \<le> bottom r)"
proof -
  have o: "rx r < right r" "ry r < bottom r" using assms by (simp_all add: right_def bottom_def)
  have m: "min (rx r) (right r) = rx r" "max (rx r) (right r) = right r" "px (genPoint x y) = x" "py (genPoint x y) = y" for x y
    using o by (simp_all add: genPoint_def)
  have line: "checkInside (corners r) p = Some (scan p \<lparr>p1 = genPoint (rx r - 1) (py p), p2 = genPoint (right r + 1) (py p)\<rparr>
    (edges (corners r)) False (rx r - 1) (-2))"
    using o by (simp add: checkInside_def corners_def m Let_def)
  have e: "edges (corners r) =
    [\<lparr>p1 = genPoint (rx r) (ry r), p2 = genPoint (right r) (ry r)\<rparr>, \<lparr>p1 = genPoint (right r) (ry r), p2 = genPoint (right r) (bottom r)\<rparr>,
     \<lparr>p1 = genPoint (right r) (bottom r), p2 = genPoint (rx r) (bottom r)\<rparr>, \<lparr>p1 = genPoint (rx r) (bottom r), p2 = genPoint (rx r) (ry r)\<rparr>]"
    by (simp add: corners_def edges_link)
  let ?scan = "scan p \<lparr>p1 = genPoint (rx r - 1) (py p), p2 = genPoint (right r + 1) (py p)\<rparr>"
  have top: "?scan (\<lparr>p1 = genPoint (rx r) z, p2 = genPoint (right r) z\<rparr> # es) en cl v \<longleftrightarrow>
      py p = z \<and> rx r \<le> px p \<and> px p \<le> right r \<or> ?scan es en cl v" for z es en cl v
    using o by (subst scan_level) auto
  have low: "?scan (\<lparr>p1 = genPoint (right r) z, p2 = genPoint (rx r) z\<rparr> # es) en cl v \<longleftrightarrow>
      py p = z \<and> rx r \<le> px p \<and> px p \<le> right r \<or> ?scan es en cl v" for z es en cl v
    using o by (subst scan_level) auto
  have down: "?scan (\<lparr>p1 = genPoint (right r) (ry r), p2 = genPoint (right r) (bottom r)\<rparr> # es) False (rx r - 1) (-2) =
      (if ry r \<le> py p \<and> py p \<le> bottom r \<and> right r \<le> px p then right r = px p \<or> ?scan es False (right r) 0
       else ?scan es False (rx r - 1) (-2))" for es
    using o by (subst scan_upright) auto
  have up: "?scan [\<lparr>p1 = genPoint (rx r) (bottom r), p2 = genPoint (rx r) (ry r)\<rparr>] False cl v \<longleftrightarrow>
      ry r \<le> py p \<and> py p \<le> bottom r \<and> rx r \<le> px p \<and> cl \<le> rx r" if "cl = right r \<and> v = 0 \<or> cl = rx r - 1 \<and> v = -2" for cl v
    using o that by (subst scan_upright) auto
  show ?thesis unfolding line e top low down using o up by auto
qed

text \<open>
  For a rectangle of positive width and height the test is true exactly for the points that are
  in it or on its border.
\<close>

theorem inside_rectangle:
  assumes "0 < rw r" and "0 < rh r"
  shows "checkInside (corners r) p =
    Some (rx r \<le> px p \<and> px p \<le> right r \<and> ry r \<le> py p \<and> py p \<le> bottom r)"
  using assms by (rule rectangle_test)

theorem inside_rectangle_witness:
  "checkInside (corners \<lparr>rx = 0, ry = 0, rw = 4, rh = 2\<rparr>) (genPoint 4 1) = Some True \<and>
   checkInside (corners \<lparr>rx = 0, ry = 0, rw = 4, rh = 2\<rparr>) (genPoint 5 1) = Some False"
  by (simp add: inside_rectangle) (simp add: right_def bottom_def genPoint_def)

section \<open>What the polygons cover\<close>

definition in_rect :: "rect \<Rightarrow> point \<Rightarrow> bool" where
  "in_rect r p \<longleftrightarrow> rx r \<le> px p \<and> px p \<le> right r \<and> ry r \<le> py p \<and> py p \<le> bottom r"

text \<open>
  A point is on the inner side of an edge when it is in the quadrant behind one of its ends, for each of the four
  directions in which the edge can go.
\<close>

lemma side_from:
  assumes "q = p1 e \<or> q = p2 e"
  shows "side e p = (px (p2 e) - px (p1 e)) * (py p - py q) + (py (p1 e) - py (p2 e)) * (px p - px q)"
  using assms by (auto simp: side_def algebra_simps)

text \<open>The edges that the polygon of two rectangles \<open>a\<close> and \<open>b\<close> can have, seen from one of them.\<close>

definition hull_edge :: "rect \<Rightarrow> rect \<Rightarrow> segment \<Rightarrow> bool" where
  "hull_edge a b e \<longleftrightarrow>
     e = \<lparr>p1 = genPoint (rx a) (ry a), p2 = genPoint (rx b) (ry b)\<rparr> \<and> rx a \<le> rx b \<and> ry b \<le> ry a \<or>
     e = \<lparr>p1 = genPoint (right a) (ry a), p2 = genPoint (right b) (ry b)\<rparr> \<and> right a \<le> right b \<and> ry a \<le> ry b \<or>
     e = \<lparr>p1 = genPoint (right a) (bottom a), p2 = genPoint (right b) (bottom b)\<rparr> \<and> right b \<le> right a \<and> bottom a \<le> bottom b \<or>
     e = \<lparr>p1 = genPoint (rx a) (bottom a), p2 = genPoint (rx b) (bottom b)\<rparr> \<and> rx b \<le> rx a \<and> bottom b \<le> bottom a \<or>
     e = \<lparr>p1 = genPoint (rx a) (ry a), p2 = genPoint (right a) (ry a)\<rparr> \<and> ry a \<le> ry b \<or>
     e = \<lparr>p1 = genPoint (right a) (ry a), p2 = genPoint (right a) (bottom a)\<rparr> \<and> right b \<le> right a \<or>
     e = \<lparr>p1 = genPoint (right a) (bottom a), p2 = genPoint (rx a) (bottom a)\<rparr> \<and> bottom b \<le> bottom a \<or>
     e = \<lparr>p1 = genPoint (rx a) (bottom a), p2 = genPoint (rx a) (ry a)\<rparr> \<and> rx a \<le> rx b"

lemma large_edges:
  assumes "e \<in> set (edges (getLargePolygon r0 r1 (compare_rects r0 r1)))"
  shows "hull_edge r0 r1 e \<or> hull_edge r1 r0 e"
proof -
  note cases = assms [unfolded compare_rects_def getLargePolygon_def sides.simps]
  show ?thesis
    using cases
    by (cases "right r0 \<le> right r1"; cases "rx r0 \<ge> rx r1"; cases "ry r0 \<ge> ry r1"; cases "bottom r0 \<le> bottom r1")
       (simp_all add: edges_link, (elim disjE; simp add: hull_edge_def)+)
qed

lemma hull_side:
  assumes "hull_edge a b e" and "rx a \<le> right a" "ry a \<le> bottom a" and "in_rect a p \<or> in_rect b p"
  shows "0 \<le> side e p"
proof -
  have from_ends: "0 \<le> side e p"
    if "q = p1 e \<or> q = p2 e" "0 \<le> (px (p2 e) - px (p1 e)) * (py p - py q)" "0 \<le> (py (p1 e) - py (p2 e)) * (px p - px q)" for q
    using that(2,3) by (simp add: side_from [OF that(1)])
  have in_a: "in_rect a p \<Longrightarrow> 0 \<le> side e p"
    using assms(1-3) unfolding hull_edge_def in_rect_def
    by (elim disjE; intro from_ends [of "p1 e"]) (auto simp: genPoint_def zero_le_mult_iff)
  have in_b: "in_rect b p \<Longrightarrow> 0 \<le> side e p"
    using assms(1-3) unfolding hull_edge_def in_rect_def
    by (elim disjE; intro from_ends [of "p2 e"]) (auto simp: genPoint_def zero_le_mult_iff)
  from assms(4) in_a in_b show ?thesis by blast
qed

text \<open>
  The polygon that connects the outermost corners of two rectangles has all points of both on the
  inner side of each of its edges.
\<close>

theorem flyout_covers:
  assumes "0 \<le> rw r0" and "0 \<le> rh r0" and "0 \<le> rw r1" and "0 \<le> rh r1" and "in_rect r0 p \<or> in_rect r1 p"
    and "e \<in> set (edges (getLargePolygon r0 r1 (compare_rects r0 r1)))"
  shows "0 \<le> side e p"
proof -
  have "rx r0 \<le> right r0" "ry r0 \<le> bottom r0" "rx r1 \<le> right r1" "ry r1 \<le> bottom r1"
    using assms(1-4) by (simp_all add: right_def bottom_def)
  with hull_side large_edges [OF assms(6)] assms(5) show ?thesis by blast
qed

theorem flyout_covers_witness:
  "0 \<le> side \<lparr>p1 = genPoint 0 2, p2 = genPoint 1 0\<rparr> (genPoint 2 2)"
proof (rule flyout_covers [of "\<lparr>rx = 0, ry = 2, rw = 1, rh = 1\<rparr>" "\<lparr>rx = 1, ry = 0, rw = 2, rh = 2\<rparr>"])
  show "\<lparr>p1 = genPoint 0 2, p2 = genPoint 1 0\<rparr> \<in> set (edges (getLargePolygon \<lparr>rx = 0, ry = 2, rw = 1, rh = 1\<rparr>
      \<lparr>rx = 1, ry = 0, rw = 2, rh = 2\<rparr> (compare_rects \<lparr>rx = 0, ry = 2, rw = 1, rh = 1\<rparr> \<lparr>rx = 1, ry = 0, rw = 2, rh = 2\<rparr>)))"
    by (simp add: getLargePolygon_def compare_rects_def edges_link right_def bottom_def)
qed (simp_all add: in_rect_def right_def bottom_def genPoint_def)

end
