(* ===== verification/RegionsLimits.thy ===== *)
theory RegionsLimits
  imports RegionsProps RegionsShape
begin

text \<open>What goes wrong with the flyouts, and the examples of their properties that need the geometry.\<close>

section \<open>A square\<close>

definition square_region :: "real \<Rightarrow> string \<Rightarrow> bool \<Rightarrow> region" where
  "square_region x p c = \<lparr>points = corners \<lparr>rx = x, ry = 0, rw = 2, rh = 2\<rparr>, panel = p, rects_of = square x, checked = c\<rparr>"

lemma square_edges:
  "edges (corners \<lparr>rx = x, ry = 0, rw = 2, rh = 2\<rparr>) =
    [\<lparr>p1 = genPoint x 0, p2 = genPoint (x + 2) 0\<rparr>, \<lparr>p1 = genPoint (x + 2) 0, p2 = genPoint (x + 2) 2\<rparr>,
     \<lparr>p1 = genPoint (x + 2) 2, p2 = genPoint x 2\<rparr>, \<lparr>p1 = genPoint x 2, p2 = genPoint x 0\<rparr>]"
  by (simp add: corners_def edges_link right_def bottom_def)

lemma square_test:
  "checkInside (corners \<lparr>rx = x, ry = 0, rw = 2, rh = 2\<rparr>) (genPoint a b) = Some (x \<le> a \<and> a \<le> x + 2 \<and> 0 \<le> b \<and> b \<le> 2)"
  by (simp add: rectangle_test) (simp add: right_def bottom_def genPoint_def)

lemmas meet_defs = linesIntersect_def meet_vertical_def overlap_def Let_def vertical_def low_def high_def forward_def slope_def genPoint_def end_tie_def


section \<open>What goes wrong\<close>

text \<open>
  A way that starts on the right edge and leaves through the left one touches the right edge first, where it enters:
  the flyout stays although the mouse is outside.
\<close>

lemma way_out_missed:
  "region_event \<lparr>p1 = genPoint 2 1, p2 = genPoint (-1) 1\<rparr> (corners \<lparr>rx = 0, ry = 0, rw = 2, rh = 2\<rparr>) =
   Some (Crossing (genPoint 2 1) True (Some TieStart) None)"
  by (simp add: region_event_def square_edges) (simp add: meet_defs)

text \<open>
  The last move of a finger forgets the regions and not the sources: the next scrolling reads the rectangles of a
  region that is gone.
\<close>

lemma lifted_then_scrolled:
  "fly_run [Show_flyout (square 0) ''p'' (Some ''s''), Mouse 1 1 True, Scroll] start = None"
proof -
  let ?l = "\<lparr>p1 = genPoint 0 0, p2 = genPoint 1 1\<rparr>"
  have "linesIntersect ?l \<lparr>p1 = genPoint 0 0, p2 = genPoint 2 0\<rparr> = Crossing (genPoint 0 0) True (Some TieStart) (Some TieStart)"
    by (simp add: meet_defs)
  then have e: "region_event ?l (corners \<lparr>rx = 0, ry = 0, rw = 2, rh = 2\<rparr>) = Some (Crossing (genPoint 0 0) True (Some TieStart) (Some TieStart))"
    by (simp add: region_event_def square_edges)
  have n: "genPoint 0 0 \<noteq> genPoint 1 1" by (simp add: genPoint_def)
  obtain s where s: "fly_run [Show_flyout (square 0) ''p'' (Some ''s''), Mouse 1 1 True] start = Some s"
    "regionMap s = Map.empty" "panelToSrc s = [(''p'', ''s'')]"
    by (simp add: show_square registerPolygon_def start_def set_source_def addRolloverOverride_def hover_def
        updateMouseLocation_def n tick_def Let_def tick_loop.simps visit_def square_test e flyout_callback_def clear_def)
  have "reregisterAllFlyouts s = None"
    by (simp add: reregisterAllFlyouts_def reregisterFlyout_def getPolygonInfo_def polygonRegistered_def s)
  with s(1) show ?thesis by (auto split: option.splits)
qed

text \<open>
  The list of regions is read while it shrinks: of two flyouts the mouse is outside of only the first one closes.
\<close>

lemma next_region_skipped:
  "map_option (\<lambda>s. (regionList s, effects s))
     (fly_run [Show_flyout (square 0) ''p'' None, Show_flyout (square 4) ''q'' None, Mouse 9 9 False] start) =
   Some ([getFlyoutLabel ''q''], [Fade_out ''p''])"
proof -
  have n: "genPoint 0 0 \<noteq> genPoint 9 9" by (simp add: genPoint_def)
  show ?thesis
    by (simp add: show_square registerPolygon_def start_def set_source_def updateMouseLocation_def n tick_def Let_def
        tick_loop.simps visit_def square_test flyout_callback_def unregisterPanel_def unregister_def)
qed

text \<open>Two panels of one source: the first that closes takes the rollover of the source with it.\<close>

lemma shared_source:
  "map_option (\<lambda>s. (rolloverOverrides s, panelToSrc s))
     (fly_run [Show_flyout (square 0) ''p'' (Some ''s''), Show_flyout (square 9) ''q'' (Some ''s''), Drop_flyout ''p'' False] start) =
   Some ([], [(''q'', ''s'')])"
  by (simp add: show_square registerPolygon_def start_def set_source_def addRolloverOverride_def removeRolloverOverride_def
      hover_def unregisterPanel_def unregister_def Let_def AList.delete_eq)

end
