(* ===== verification/Transform.thy ===== *)
theory Transform
  imports Complex_Main JsString
begin

text \<open>
  The transformations of the prototype pages (\<open>math.js\<close> in \<open>prototypePost.js\<close>): matrices of the plane, rotations,
  bounding rectangles of rotated widgets, of groups and of single widgets, the layers of a page, the identifiers of
  the components of a compound widget, and the trick that shows hidden parents while a widget is measured. Numbers
  are real: the rounding of doubles is left out, and a division by 0 has no use here.
\<close>

section \<open>Matrices and vectors\<close>

record vector =
  vx :: real
  vy :: real

text \<open>The translation may be missing; every function sets it to 0 then.\<close>

record matrix =
  m11 :: real
  m12 :: real
  m21 :: real
  m22 :: real
  tx :: "real option"
  ty :: "real option"

definition or_zero :: "real option \<Rightarrow> real" where
  "or_zero t = (case t of Some x \<Rightarrow> x | None \<Rightarrow> 0)"

definition matrixMultiply :: "matrix \<Rightarrow> vector \<Rightarrow> vector" where
  "matrixMultiply m v =
     \<lparr>vx = m11 m * vx v + m12 m * vy v + or_zero (tx m), vy = m21 m * vx v + m22 m * vy v + or_zero (ty m)\<rparr>"

definition determinant :: "matrix \<Rightarrow> real" where
  "determinant m = m11 m * m22 m - m12 m * m21 m"

definition matrixInverse :: "matrix \<Rightarrow> matrix" where
  "matrixInverse m =
     (let d = determinant m
      in \<lparr>m11 = m22 m / d, m12 = - m12 m / d, m21 = - m21 m / d, m22 = m11 m / d,
          tx = Some ((or_zero (ty m) * m12 m - or_zero (tx m) * m22 m) / d),
          ty = Some ((or_zero (tx m) * m21 m - or_zero (ty m) * m11 m) / d)\<rparr>)"

definition matrixMultiplyMatrix :: "matrix \<Rightarrow> matrix \<Rightarrow> matrix" where
  "matrixMultiplyMatrix a b =
     \<lparr>m11 = m12 a * m21 b + m11 a * m11 b, m12 = m12 a * m22 b + m11 a * m12 b,
      m21 = m22 a * m21 b + m21 a * m11 b, m22 = m22 a * m22 b + m21 a * m12 b,
      tx = Some (m12 a * or_zero (ty b) + m11 a * or_zero (tx b) + or_zero (tx a)),
      ty = Some (m22 a * or_zero (ty b) + m21 a * or_zero (tx b) + or_zero (ty a))\<rparr>"

definition vectorMinus :: "vector \<Rightarrow> vector \<Rightarrow> vector" where
  "vectorMinus v w = \<lparr>vx = vx v - vx w, vy = vy v - vy w\<rparr>"

definition vectorPlus :: "vector \<Rightarrow> vector \<Rightarrow> vector" where
  "vectorPlus v w = \<lparr>vx = vx v + vx w, vy = vy v + vy w\<rparr>"

definition vectorMidpoint :: "vector \<Rightarrow> vector \<Rightarrow> vector" where
  "vectorMidpoint v w = \<lparr>vx = (vx v + vx w) / 2, vy = (vy v + vy w) / 2\<rparr>"

record four_corners =
  widgetTopLeft :: vector
  widgetTopRight :: vector
  widgetBottomLeft :: vector

definition fourCornersToBasis :: "four_corners \<Rightarrow> vector \<times> vector" where
  "fourCornersToBasis c = (vectorMinus (widgetTopRight c) (widgetTopLeft c), vectorMinus (widgetBottomLeft c) (widgetTopLeft c))"

definition l2 :: "real \<Rightarrow> real \<Rightarrow> real" where
  "l2 x y = sqrt (x * x + y * y)"

definition rotationMatrix :: "real \<Rightarrow> matrix" where
  "rotationMatrix angleInDegrees =
     (let a = angleInDegrees * (pi / 180)
      in \<lparr>m11 = cos a, m12 = - sin a, m21 = sin a, m22 = cos a, tx = Some 0, ty = Some 0\<rparr>)"

definition getPointAfterRotate :: "real \<Rightarrow> vector \<Rightarrow> vector \<Rightarrow> vector" where
  "getPointAfterRotate angleInDegrees pointToRotate centerPoint =
     matrixMultiply ((rotationMatrix angleInDegrees)\<lparr>tx := Some (vx centerPoint), ty := Some (vy centerPoint)\<rparr>)
       (vectorMinus pointToRotate centerPoint)"

definition getBoundingSizeForRotate :: "real \<Rightarrow> real \<Rightarrow> real \<Rightarrow> real \<times> real" where
  "getBoundingSizeForRotate width height rotation =
     (let origin = \<lparr>vx = 0, vy = 0\<rparr>;
          c1 = getPointAfterRotate rotation \<lparr>vx = width, vy = 0\<rparr> origin;
          c2 = getPointAfterRotate rotation \<lparr>vx = 0, vy = height\<rparr> origin;
          c3 = getPointAfterRotate rotation \<lparr>vx = width, vy = height\<rparr> origin;
          left = min (min (min 0 (vx c1)) (vx c2)) (vx c3);
          right = max (max (max 0 (vx c1)) (vx c2)) (vx c3);
          top = min (min (min 0 (vy c1)) (vy c2)) (vy c3);
          bottom = max (max (max 0 (vy c1)) (vy c2)) (vy c3)
      in (right - left, bottom - top))"

section \<open>Bounding rectangles\<close>

record bounding =
  left :: real
  right :: real
  top :: real
  bottom :: real

text \<open>
  What the browser says of a widget: its place, its size (the attributes of a compound one), the margins of a fixed
  one, the height and width on the screen, and the layers around it from the inside out, each with its place, the
  place of its container, and the mirror with the size of the inner container when a transform is applied.
\<close>

datatype flip = FlipX | FlipY

record layer_view =
  layer_pos :: vector
  outer_pos :: "vector option"
  mirror :: "(flip \<times> real \<times> real) option"

record widget_view =
  is_compound :: bool
  place :: vector
  attr_size :: vector
  client_size :: vector
  fixed_margin :: "vector option"
  around :: "layer_view list"

definition layer_offset :: "layer_view \<Rightarrow> vector \<times> (flip \<times> real \<times> real) option \<Rightarrow> vector \<times> (flip \<times> real \<times> real) option" where
  "layer_offset l = (\<lambda>(p, f).
     (let p1 = vectorPlus p (layer_pos l)
      in (case outer_pos l of None \<Rightarrow> p1 | Some o1 \<Rightarrow> vectorPlus p1 o1), case mirror l of None \<Rightarrow> f | Some m \<Rightarrow> Some m))"

definition getBoundingRectForSingleWidget :: "widget_view \<Rightarrow> bounding" where
  "getBoundingRectForSingleWidget w =
     (let size = (if is_compound w then attr_size w else client_size w);
          p0 = (if is_compound w then place w
                else case fixed_margin w of None \<Rightarrow> place w | Some m \<Rightarrow> vectorPlus (place w) m);
          (p1, f) = fold layer_offset (around w) (p0, None);
          p2 = (case f of
                  None \<Rightarrow> p1
                | Some (FlipX, mirrorWidth, mirrorHeight) \<Rightarrow> p1\<lparr>vy := mirrorHeight - vy p1 - vy (client_size w)\<rparr>
                | Some (FlipY, mirrorWidth, mirrorHeight) \<Rightarrow> p1\<lparr>vx := mirrorWidth - vx p1 - vx (client_size w)\<rparr>)
      in \<lparr>left = vx p2, right = vx p2 + vx size, top = vy p2, bottom = vy p2 + vy size\<rparr>)"

record bounding_full = bounding +
  centerPoint :: vector
  width :: real
  height :: real

definition full_rect :: "bounding \<Rightarrow> bounding_full" where
  "full_rect b =
     bounding.extend b \<lparr>centerPoint = \<lparr>vx = (right b + left b) / 2, vy = (bottom b + top b) / 2\<rparr>,
       width = right b - left b, height = bottom b - top b\<rparr>"

text \<open>The rectangle of no widgets has no right and no bottom side, all else in it is 0.\<close>

datatype group_rect =
  EmptyRect
| GroupRect bounding_full

definition join_rect :: "bounding \<Rightarrow> bounding \<Rightarrow> bounding" where
  "join_rect r b =
     \<lparr>left = min (left b) (left r), right = max (right b) (right r), top = min (top b) (top r), bottom = max (bottom b) (bottom r)\<rparr>"

definition getBoundingRectForMultipleWidgets :: "widget_view list \<Rightarrow> group_rect" where
  "getBoundingRectForMultipleWidgets ws =
     (case ws of
        [] \<Rightarrow> EmptyRect
      | w # vs \<Rightarrow> GroupRect (full_rect (fold (join_rect \<circ> getBoundingRectForSingleWidget) vs (getBoundingRectForSingleWidget w))))"

section \<open>Layers\<close>

text \<open>A widget of a page with whether it is visible; a layer has its children.\<close>

datatype page_widget =
  Widget string bool
| Layer string bool "page_widget list"

fun widget_id :: "page_widget \<Rightarrow> string" where
  "widget_id (Widget i b) = i"
| "widget_id (Layer i b ws) = i"

fun is_visible :: "page_widget \<Rightarrow> bool" where
  "is_visible (Widget i b) = b"
| "is_visible (Layer i b ws) = b"

fun getLayerChildrenDeep :: "bool \<Rightarrow> bool \<Rightarrow> page_widget list \<Rightarrow> string list"
and deep_of :: "bool \<Rightarrow> bool \<Rightarrow> page_widget \<Rightarrow> string list" where
  "deep_of includeLayers includeHidden (Widget i b) = (if \<not> includeHidden \<and> \<not> b then [] else [i])"
| "deep_of includeLayers includeHidden (Layer i b ws) =
     (if \<not> includeHidden \<and> \<not> b then []
      else (if includeLayers then [i] else []) @ getLayerChildrenDeep includeLayers includeHidden ws)"
| "getLayerChildrenDeep includeLayers includeHidden [] = []"
| "getLayerChildrenDeep includeLayers includeHidden (w # ws) =
     deep_of includeLayers includeHidden w @ getLayerChildrenDeep includeLayers includeHidden ws"

section \<open>Hidden parents\<close>

text \<open>The elements from one to the root of the page, and the value of \<open>style.display\<close> of each.\<close>

fun displayHackStart :: "string list \<Rightarrow> (string \<Rightarrow> string) \<Rightarrow> string list \<times> (string \<Rightarrow> string)" where
  "displayHackStart [] d = ([], d)"
| "displayHackStart (e # parents) d =
     (if d e = ''none'' then (let (displays, d1) = displayHackStart parents (d(e := ''block'')) in (e # displays, d1))
      else displayHackStart parents d)"

definition displayHackEnd :: "string list \<Rightarrow> (string \<Rightarrow> string) \<Rightarrow> string \<Rightarrow> string" where
  "displayHackEnd displayChangedList d = fold (\<lambda>e d. d(e := ''none'')) displayChangedList d"

section \<open>Components of a compound widget\<close>

definition getComponentId :: "string \<Rightarrow> string \<Rightarrow> string" where
  "getComponentId i componentId =
     (case split_on (CHR ''-'') i of [] \<Rightarrow> [] | p # ps \<Rightarrow> join_with ''-'' ((p @ componentId) # ps))"

definition compoundIdFromComponent :: "string \<Rightarrow> string" where
  "compoundIdFromComponent i =
     (let pPos = index_of (CHR ''p'') i; dashPos = index_of (CHR ''-'') i
      in if pPos < 1 then i
         else if dashPos < 0 then substring i 0 pPos
         else substring i 0 pPos @ slice_from dashPos i)"

section \<open>Properties\<close>

lemma multiply_composes: "matrixMultiply (matrixMultiplyMatrix a b) v = matrixMultiply a (matrixMultiply b v)"
  by (simp add: matrixMultiply_def matrixMultiplyMatrix_def or_zero_def algebra_simps)

lemma vector_eq: "v = w \<longleftrightarrow> vx v = vx w \<and> vy v = vy w" for v w :: vector
  by (cases v; cases w) auto

lemma inverse_left:
  assumes "determinant m \<noteq> 0"
  shows "matrixMultiply (matrixInverse m) (matrixMultiply m v) = v"
  using assms
  by (simp add: vector_eq matrixMultiply_def matrixInverse_def Let_def or_zero_def determinant_def
      add_divide_distrib [symmetric] diff_divide_distrib [symmetric] divide_eq_eq) (simp add: algebra_simps)

lemma inverse_right:
  assumes "determinant m \<noteq> 0"
  shows "matrixMultiply m (matrixMultiply (matrixInverse m) v) = v"
  using assms
  by (simp add: vector_eq matrixMultiply_def matrixInverse_def Let_def or_zero_def determinant_def
      add_divide_distrib [symmetric] diff_divide_distrib [symmetric] add_divide_eq_iff divide_eq_eq) (simp add: field_simps)



text \<open>The width and the height of a rectangle turned by any angle.\<close>

lemma span_four: "max (max (max 0 a) b) (a + b) - min (min (min 0 a) b) (a + b) = \<bar>a\<bar> + \<bar>b\<bar>" for a b :: real
  by (simp add: max_def min_def)

lemma rotated_size:
  "getBoundingSizeForRotate w h r =
     (let a = r * (pi / 180) in (\<bar>w * cos a\<bar> + \<bar>h * sin a\<bar>, \<bar>w * sin a\<bar> + \<bar>h * cos a\<bar>))"
proof -
  let ?a = "r * (pi / 180)"
  have p: "getPointAfterRotate r \<lparr>vx = x, vy = y\<rparr> \<lparr>vx = 0, vy = 0\<rparr> =
      \<lparr>vx = x * cos ?a + - (y * sin ?a), vy = x * sin ?a + y * cos ?a\<rparr>" for x y
    by (simp add: getPointAfterRotate_def rotationMatrix_def Let_def matrixMultiply_def vectorMinus_def or_zero_def)
  have c: "getPointAfterRotate r \<lparr>vx = w, vy = 0\<rparr> \<lparr>vx = 0, vy = 0\<rparr> = \<lparr>vx = w * cos ?a, vy = w * sin ?a\<rparr>"
    "getPointAfterRotate r \<lparr>vx = 0, vy = h\<rparr> \<lparr>vx = 0, vy = 0\<rparr> = \<lparr>vx = - (h * sin ?a), vy = h * cos ?a\<rparr>"
    by (simp_all add: p)
  show ?thesis
    unfolding getBoundingSizeForRotate_def Let_def c p
    by (simp only: vector.simps mult_zero_left minus_zero add_0_left add_0_right span_four abs_minus_cancel)
qed

text \<open>Turning a point and turning it back gives the point.\<close>

lemma unturn:
  fixes c s x y :: real
  assumes "c * c + s * s = 1"
  shows "c * (c * x - s * y) + s * (s * x + c * y) = x" and "c * (s * x + c * y) - s * (c * x - s * y) = y"
proof -
  have "c * (c * x - s * y) + s * (s * x + c * y) = (c * c + s * s) * x"
    "c * (s * x + c * y) - s * (c * x - s * y) = (c * c + s * s) * y" by (simp_all add: algebra_simps)
  with assms show "c * (c * x - s * y) + s * (s * x + c * y) = x" "c * (s * x + c * y) - s * (c * x - s * y) = y" by simp_all
qed

lemma rotate_back: "getPointAfterRotate (- a) (getPointAfterRotate a p c) c = p"
proof -
  let ?a = "a * (pi / 180)"
  have g: "getPointAfterRotate b q c =
      \<lparr>vx = cos (b * (pi / 180)) * (vx q - vx c) - sin (b * (pi / 180)) * (vy q - vy c) + vx c,
       vy = sin (b * (pi / 180)) * (vx q - vx c) + cos (b * (pi / 180)) * (vy q - vy c) + vy c\<rparr>" for b q
    by (simp add: getPointAfterRotate_def rotationMatrix_def Let_def matrixMultiply_def vectorMinus_def or_zero_def)
  have one: "cos ?a * cos ?a + sin ?a * sin ?a = 1" using sin_cos_squared_add [of ?a] by (simp add: power2_eq_square)
  have n: "cos (- a * (pi / 180)) = cos ?a" "sin (- a * (pi / 180)) = - sin ?a" by simp_all
  show ?thesis
    unfolding vector_eq g n using unturn [OF one, of "vx p - vx c" "vy p - vy c"] by simp
qed

text \<open>The rectangle of a group contains the rectangles of its widgets, and each of its sides is a side of one of them.\<close>

lemma fold_extreme:
  "fold min (map f xs) (f x) = Min (f ` set (x # xs))" "fold max (map f xs) (f x) = Max (f ` set (x # xs))"
  for f :: "'a \<Rightarrow> real"
  using Min.set_eq_fold [of "f x" "map f xs"] Max.set_eq_fold [of "f x" "map f xs"] by simp_all

lemma group_rect_least:
  assumes "getBoundingRectForMultipleWidgets ws = GroupRect b"
  shows "left b = Min ((left \<circ> getBoundingRectForSingleWidget) ` set ws)" and "right b = Max ((right \<circ> getBoundingRectForSingleWidget) ` set ws)"
    and "top b = Min ((top \<circ> getBoundingRectForSingleWidget) ` set ws)" and "bottom b = Max ((bottom \<circ> getBoundingRectForSingleWidget) ` set ws)"
proof -
  obtain w vs where ws: "ws = w # vs" using assms by (cases ws) (auto simp: getBoundingRectForMultipleWidgets_def)
  let ?r = "fold (join_rect \<circ> getBoundingRectForSingleWidget) vs"
  have sides: "left (?r c) = fold min (map (left \<circ> getBoundingRectForSingleWidget) vs) (left c)"
    "right (?r c) = fold max (map (right \<circ> getBoundingRectForSingleWidget) vs) (right c)"
    "top (?r c) = fold min (map (top \<circ> getBoundingRectForSingleWidget) vs) (top c)"
    "bottom (?r c) = fold max (map (bottom \<circ> getBoundingRectForSingleWidget) vs) (bottom c)" for c
    by (induction vs arbitrary: c) (simp_all add: join_rect_def min.commute max.commute)
  have b: "b = full_rect (?r (getBoundingRectForSingleWidget w))"
    using assms by (simp add: ws getBoundingRectForMultipleWidgets_def)
  note fold = fold_extreme [of "left \<circ> getBoundingRectForSingleWidget" vs w] fold_extreme [of "right \<circ> getBoundingRectForSingleWidget" vs w]
    fold_extreme [of "top \<circ> getBoundingRectForSingleWidget" vs w] fold_extreme [of "bottom \<circ> getBoundingRectForSingleWidget" vs w]
  show "left b = Min ((left \<circ> getBoundingRectForSingleWidget) ` set ws)" "right b = Max ((right \<circ> getBoundingRectForSingleWidget) ` set ws)"
    "top b = Min ((top \<circ> getBoundingRectForSingleWidget) ` set ws)" "bottom b = Max ((bottom \<circ> getBoundingRectForSingleWidget) ` set ws)"
    unfolding b using fold by (simp_all add: ws full_rect_def bounding.extend_def sides)
qed

text \<open>
  While a widget is measured none of its parents is hidden, and afterwards every element is displayed as before.
\<close>

lemma hack_shows:
  assumes "displayHackStart es d = (displays, d1)"
  shows "(\<forall>e \<in> set es. d1 e \<noteq> ''none'') \<and> (\<forall>e. d e \<noteq> ''none'' \<longrightarrow> d1 e = d e) \<and> (\<forall>e. e \<in> set displays \<longleftrightarrow> d1 e \<noteq> d e)"
  using assms
proof (induction es arbitrary: d displays d1)
  case (Cons e es)
  show ?case
  proof (cases "d e = ''none''")
    case True
    with Cons.prems obtain ds where ds: "displays = e # ds" "displayHackStart es (d(e := ''block'')) = (ds, d1)"
      by (auto split: prod.splits)
    from Cons.IH [OF ds(2)] True ds(1) show ?thesis by (auto split: if_splits)
  next
    case False
    with Cons.prems have "displayHackStart es d = (displays, d1)" by simp
    from Cons.IH [OF this] False show ?thesis by simp
  qed
qed auto

lemma hack_marks: "displayHackStart es d = (displays, d1) \<Longrightarrow> e \<in> set displays \<Longrightarrow> d e = ''none''"
proof (induction es arbitrary: d displays d1)
  case (Cons f es)
  show ?case
  proof (cases "d f = ''none''")
    case True
    with Cons.prems(1) obtain ds where ds: "displays = f # ds" "displayHackStart es (d(f := ''block'')) = (ds, d1)"
      by (auto split: prod.splits)
    with Cons.IH [OF ds(2)] Cons.prems(2) True show ?thesis by (auto split: if_splits)
  qed (use Cons in auto)
qed simp

lemma set_all: "displayHackEnd es d e = (if e \<in> set es then ''none'' else d e)"
  unfolding displayHackEnd_def by (induction es arbitrary: d) auto

text \<open>
  While a widget is measured neither it nor any of its parents is hidden, and after the
  measurement every element of the page has its \<open>display\<close> again.
\<close>

theorem hidden_restored:
  "case displayHackStart parents d of (displays, d1) \<Rightarrow>
     list_all (\<lambda>e. d1 e \<noteq> ''none'') parents \<and> displayHackEnd displays d1 = d"
proof -
  obtain displays d1 where h: "displayHackStart parents d = (displays, d1)" by fastforce
  note during = hack_shows [OF h] and marks = hack_marks [OF h]
  have "displayHackEnd displays d1 = d"
  proof
    fix e
    show "displayHackEnd displays d1 e = d e"
      using during marks [of e] by (auto simp: set_all)
  qed
  with h during show ?thesis by (simp add: list_all_iff)
qed

text \<open>
  The identifier of a component of a compound widget leads back to the identifier of the widget, with or
  without the part of a repeater: when the widget's own part has no \<open>p\<close> and the component's begins with one.
\<close>

lemma index_of_after: "c \<notin> set xs \<Longrightarrow> c \<in> set ys \<Longrightarrow> index_of c (xs @ ys) = int (length xs) + index_of c ys"
proof (induction xs)
  case (Cons x xs)
  have "0 \<le> index_of c ys" using Cons.prems(2) by (induction ys) (auto simp: Let_def)
  with Cons show ?case by (auto simp: Let_def)
qed simp

lemma component_id:
  assumes "h \<noteq> []" and "CHR ''p'' \<notin> set h" and "CHR ''-'' \<notin> set h" and "CHR ''-'' \<notin> set k" and "t = [] \<or> hd t = CHR ''-''"
  shows "compoundIdFromComponent (getComponentId (h @ t) (CHR ''p'' # k)) = h @ t"
proof (cases t)
  case Nil
  have "getComponentId h (CHR ''p'' # k) = h @ CHR ''p'' # k" using assms(3) by (simp add: getComponentId_def split_on_id)
  moreover have "index_of (CHR ''-'') (h @ CHR ''p'' # k) = -1" using assms(3,4) by (intro index_of_none [THEN iffD2]) auto
  moreover have "\<not> int (length h) < 1" using assms(1) by (cases h) auto
  ultimately show ?thesis using Nil
    by (simp add: compoundIdFromComponent_def Let_def index_of_first [OF assms(2)] substring_head)
next
  case (Cons d r)
  with assms(5) have t: "t = CHR ''-'' # r" by simp
  have "getComponentId (h @ t) (CHR ''p'' # k) = h @ CHR ''p'' # k @ t"
  proof (cases "split_on (CHR ''-'') r")
    case (Cons q qs)
    with join_split_on [of "CHR ''-''" r] show ?thesis by (simp add: getComponentId_def t split_on_append assms(3))
  qed simp
  moreover have "index_of (CHR ''-'') ((h @ CHR ''p'' # k) @ CHR ''-'' # r) = int (length (h @ CHR ''p'' # k))"
    using assms(3,4) by (intro index_of_first) auto
  moreover have "\<not> int (length h) < 1" using assms(1) by (cases h) auto
  moreover have "nat (1 + (int (length h) + int (length k))) - length h = Suc (length k)" by simp
  ultimately show ?thesis using t
    by (simp add: compoundIdFromComponent_def Let_def index_of_first [OF assms(2)] substring_head slice_from_def)
qed

end
