(* ===== verification/TreeWidget.thy ===== *)
theory TreeWidget
  imports Complex_Main
begin

text \<open>
  The tree widgets of the prototype pages (\<open>tree.js\<close> in \<open>prototypePost.js\<close>): nodes in absolute places, a container
  of children below each node that has some, and the functions that open and close a container and move what is
  below it. A tree is the list of nodes in the container of its root; a node is found by its indices from there.
\<close>

section \<open>Trees\<close>

text \<open>
  A node: its identifier, place and height, the place of its annotation, whether its plus sign is selected (without
  a plus sign \<open>None\<close>), whether the element itself is visible, whether it has a container of children and whether
  that is visible, and the children.
\<close>

datatype tnode = TNode
  (tid: string) (ttop: real) (theight: real) (tann: "real option") (tplus: "bool option") (tshown: bool)
  (tbox: bool) (topen: bool) (kids: "tnode list")

fun getChildContainerHeightHelper :: "tnode list \<Rightarrow> real" and child_height :: "tnode \<Rightarrow> real" where
  "child_height (TNode i t h a p s b op ks) = h + (if b \<and> op then getChildContainerHeightHelper ks else 0)"
| "getChildContainerHeightHelper [] = 0"
| "getChildContainerHeightHelper (n # ns) = child_height n + getChildContainerHeightHelper ns"

text \<open>A list of indices leads to a node: the last one in the list of nodes that the others lead to.\<close>

fun leads :: "nat list \<Rightarrow> tnode list \<Rightarrow> bool" where
  "leads [] ns = False"
| "leads (i # p) ns \<longleftrightarrow> i < length ns \<and> (p = [] \<or> tbox (ns ! i) \<and> leads p (kids (ns ! i)))"

fun node_at :: "nat list \<Rightarrow> tnode list \<Rightarrow> tnode" where
  "node_at (i # p) ns = (if p = [] then ns ! i else node_at p (kids (ns ! i)))"
| "node_at [] ns = undefined"

definition set_kids :: "tnode list \<Rightarrow> tnode \<Rightarrow> tnode" where
  "set_kids ks n = TNode (tid n) (ttop n) (theight n) (tann n) (tplus n) (tshown n) (tbox n) (topen n) ks"

fun change_at :: "nat list \<Rightarrow> (tnode \<Rightarrow> tnode) \<Rightarrow> tnode list \<Rightarrow> tnode list" where
  "change_at [] f ns = ns"
| "change_at (i # p) f ns =
     (if p = [] then ns[i := f (ns ! i)] else ns[i := set_kids (change_at p f (kids (ns ! i))) (ns ! i)])"

text \<open>A container opens or closes, with the plus sign.\<close>

definition set_open :: "bool \<Rightarrow> tnode \<Rightarrow> tnode" where
  "set_open b n =
     TNode (tid n) (ttop n) (theight n) (tann n) (map_option (\<lambda>_. b) (tplus n)) (tshown n) (tbox n) b (kids n)"

definition shift :: "real \<Rightarrow> tnode \<Rightarrow> tnode" where
  "shift d n =
     TNode (tid n) (ttop n + d) (theight n) (map_option (\<lambda>a. a + d) (tann n)) (tplus n) (tshown n) (tbox n) (topen n) (kids n)"

text \<open>
  Whether all elements around a node are visible. The first argument is the visibility of the container of the list.
\<close>

fun isNodeVisible :: "bool \<Rightarrow> nat list \<Rightarrow> tnode list \<Rightarrow> bool" where
  "isNodeVisible c [] ns = c"
| "isNodeVisible c (i # p) ns = (c \<and> (p = [] \<or> tshown (ns ! i) \<and> isNodeVisible (topen (ns ! i)) p (kids (ns ! i))))"

text \<open>
  The loop from the node up to the root: at each container the nodes after the current one move. For a node that
  is not visible it ends at the first parent that is, a container or the element of a node; the second result
  tells that it goes on.
\<close>

definition shift_after :: "nat \<Rightarrow> real \<Rightarrow> tnode list \<Rightarrow> tnode list" where
  "shift_after i d ns = take (i + 1) ns @ map (shift d) (drop (i + 1) ns)"

fun move_below :: "bool \<Rightarrow> bool \<Rightarrow> real \<Rightarrow> nat list \<Rightarrow> tnode list \<Rightarrow> tnode list \<times> bool" where
  "move_below c isVisible d [] ns = (ns, True)"
| "move_below c isVisible d (i # p) ns =
     (if p = [] then (shift_after i d ns, True)
      else
        let (ks, going) = move_below (topen (ns ! i)) isVisible d p (kids (ns ! i));
            ns1 = ns[i := set_kids ks (ns ! i)];
            going1 = (going \<and> (isVisible \<or> \<not> tshown (ns ! i)) \<and> (isVisible \<or> \<not> c))
        in (if going1 then shift_after i d ns1 else ns1, going1))"

definition expandNode :: "bool \<Rightarrow> nat list \<Rightarrow> tnode list \<Rightarrow> tnode list" where
  "expandNode c p ns =
     (let n = node_at p ns
      in if \<not> tbox n \<or> topen n then ns
         else fst (move_below c (isNodeVisible c p ns) (getChildContainerHeightHelper (kids n)) p (change_at p (set_open True) ns)))"

definition collapseNode :: "bool \<Rightarrow> nat list \<Rightarrow> tnode list \<Rightarrow> tnode list" where
  "collapseNode c p ns =
     (let n = node_at p ns
      in if \<not> tbox n \<or> \<not> topen n then ns
         else fst (move_below c (isNodeVisible c p ns) (- getChildContainerHeightHelper (kids n)) p (change_at p (set_open False) ns)))"

text \<open>A click on the plus sign.\<close>

definition plus_click :: "bool \<Rightarrow> nat list \<Rightarrow> tnode list \<Rightarrow> tnode list" where
  "plus_click c p ns = (if topen (node_at p ns) then collapseNode c p ns else expandNode c p ns)"

section \<open>The layout\<close>

text \<open>
  In every container, visible or not, the nodes stand below each other, with room for the visible children of each.
\<close>

fun inner_laid :: "tnode \<Rightarrow> bool" and laid :: "real \<Rightarrow> tnode list \<Rightarrow> bool" where
  "inner_laid (TNode i t h a p s b op ks) = (s \<and> laid 0 ks)"
| "laid y [] = True"
| "laid y (n # ns) = (ttop n = y \<and> inner_laid n \<and> laid (y + child_height n) ns)"

lemma child_height_fields: "child_height n = theight n + (if tbox n \<and> topen n then getChildContainerHeightHelper (kids n) else 0)"
  by (cases n) simp

lemma inner_laid_fields: "inner_laid n \<longleftrightarrow> tshown n \<and> laid 0 (kids n)"
  by (cases n) simp

lemma heights_append: "getChildContainerHeightHelper (xs @ ys) = getChildContainerHeightHelper xs + getChildContainerHeightHelper ys"
  by (induction xs) auto

lemma laid_append: "laid y (xs @ ys) \<longleftrightarrow> laid y xs \<and> laid (y + getChildContainerHeightHelper xs) ys"
  by (induction xs arbitrary: y) (auto simp: add.assoc)

lemma shift_child [simp]: "child_height (shift d n) = child_height n" "inner_laid (shift d n) = inner_laid n" "ttop (shift d n) = ttop n + d"
  by (simp_all add: shift_def child_height_fields inner_laid_fields)

lemma shift_heights [simp]: "getChildContainerHeightHelper (map (shift d) ns) = getChildContainerHeightHelper ns"
  by (induction ns) auto

lemma shift_laid [simp]: "laid (y + d) (map (shift d) ns) \<longleftrightarrow> laid y ns"
proof (induction ns arbitrary: y)
  case (Cons n ns)
  have "laid (y + d + child_height n) (map (shift d) ns) = laid (y + child_height n) ns"
    using Cons [of "y + child_height n"] by (simp add: add_ac)
  then show ?case by simp
qed simp

text \<open>One node changes its height by \<open>d\<close> and those after it move by \<open>d\<close>.\<close>

lemma replace_laid:
  assumes "laid y ns" and "i < length ns" and "ttop n = ttop (ns ! i)" and "inner_laid n" and "child_height n = child_height (ns ! i) + d"
  shows "laid y (shift_after i d (ns[i := n]))" and "getChildContainerHeightHelper (shift_after i d (ns[i := n])) = getChildContainerHeightHelper ns + d"
proof -
  let ?a = "take i ns" and ?b = "drop (Suc i) ns"
  have ns: "ns = ?a @ ns ! i # ?b" using assms(2) by (simp add: id_take_nth_drop [symmetric])
  have new: "shift_after i d (ns[i := n]) = ?a @ n # map (shift d) ?b"
    using assms(2) by (simp add: shift_after_def take_Suc_conv_app_nth upd_conv_take_nth_drop take_update_swap)
  let ?h = "getChildContainerHeightHelper ?a"
  have old: "laid y ?a" "ttop (ns ! i) = y + ?h" "laid (y + ?h + child_height (ns ! i)) ?b"
    using assms(1) laid_append [of y ?a "ns ! i # ?b"] ns by simp_all
  moreover have "y + ?h + child_height n = (y + ?h + child_height (ns ! i)) + d" using assms(5) by simp
  ultimately show "laid y (shift_after i d (ns[i := n]))"
    using assms(3,4) shift_laid [of "y + ?h + child_height (ns ! i)" d ?b] unfolding new laid_append by (simp add: add_ac)
  have "getChildContainerHeightHelper ns = ?h + child_height (ns ! i) + getChildContainerHeightHelper ?b"
    using heights_append [of ?a "ns ! i # ?b"] ns by simp
  then show "getChildContainerHeightHelper (shift_after i d (ns[i := n])) = getChildContainerHeightHelper ns + d"
    unfolding new heights_append using assms(5) by simp
qed

lemma replace_same:
  assumes "laid y ns" and "i < length ns" and "ttop n = ttop (ns ! i)" and "inner_laid n" and "child_height n = child_height (ns ! i)"
  shows "laid y (ns[i := n])" and "getChildContainerHeightHelper (ns[i := n]) = getChildContainerHeightHelper ns"
proof -
  have z: "shift 0 = (\<lambda>m. m)" by (rule ext) (simp add: shift_def option.map_ident)
  have "shift_after i 0 (ns[i := n]) = ns[i := n]" by (simp only: shift_after_def z list.map_ident append_take_drop_id)
  with replace_laid [OF assms(1-4), of 0] assms(5) show "laid y (ns[i := n])"
    "getChildContainerHeightHelper (ns[i := n]) = getChildContainerHeightHelper ns" by simp_all
qed

lemma laid_at: "laid y ns \<Longrightarrow> i < length ns \<Longrightarrow> inner_laid (ns ! i)"
  by (induction ns arbitrary: y i) (auto simp: nth_Cons split: nat.split)

lemma set_kids_fields [simp]:
  "ttop (set_kids ks n) = ttop n" "theight (set_kids ks n) = theight n" "tshown (set_kids ks n) = tshown n"
  "tbox (set_kids ks n) = tbox n" "topen (set_kids ks n) = topen n" "kids (set_kids ks n) = ks"
  by (simp_all add: set_kids_def)

lemma set_open_fields [simp]:
  "ttop (set_open b n) = ttop n" "theight (set_open b n) = theight n" "tshown (set_open b n) = tshown n"
  "tbox (set_open b n) = tbox n" "topen (set_open b n) = b" "kids (set_open b n) = kids n"
  by (simp_all add: set_open_def)

text \<open>The container in which a node is.\<close>

fun own_container :: "bool \<Rightarrow> nat list \<Rightarrow> tnode list \<Rightarrow> bool" where
  "own_container c [] ns = c"
| "own_container c (i # p) ns = (if p = [] then c else own_container (topen (ns ! i)) p (kids (ns ! i)))"

text \<open>
  The node opens or closes, which changes its height by \<open>d\<close>. When all around it is visible all its parents grow by
  \<open>d\<close>; when its own container is not, nothing outside of that changes.
\<close>

lemma open_height:
  assumes "tbox n" and "topen n \<noteq> b" and "d = (if b then 1 else -1) * getChildContainerHeightHelper (kids n)"
  shows "child_height (set_open b n) = child_height n + d"
  using assms by (auto simp: child_height_fields)

lemma set_kids_twice [simp]: "set_kids ks (set_kids ks' n) = set_kids ks n"
  by (simp add: set_kids_def)

lemma move_step:
  assumes "i < length ns" and "p \<noteq> []"
    and "move_below (topen (ns ! i)) v d p (change_at p f (kids (ns ! i))) = (ks, g)"
  shows "move_below c v d (i # p) (change_at (i # p) f ns) =
    (let going = (g \<and> (v \<or> \<not> tshown (ns ! i)) \<and> (v \<or> \<not> c)); ns1 = ns[i := set_kids ks (ns ! i)]
     in (if going then shift_after i d ns1 else ns1, going))"
  using assms by (auto simp: Let_def)

lemma kids_height:
  "child_height (set_kids ks n) =
   child_height n + (if tbox n \<and> topen n then getChildContainerHeightHelper ks - getChildContainerHeightHelper (kids n) else 0)"
  by (simp add: child_height_fields)

lemma move_seen:
  assumes "laid y ns" and "leads p ns" and "tbox (node_at p ns)" and "topen (node_at p ns) \<noteq> b"
    and "d = (if b then 1 else -1) * getChildContainerHeightHelper (kids (node_at p ns))" and "isNodeVisible c p ns"
  shows "\<exists>ns'. move_below c True d p (change_at p (set_open b) ns) = (ns', True) \<and> laid y ns' \<and>
    getChildContainerHeightHelper ns' = getChildContainerHeightHelper ns + d"
  using assms
proof (induction p arbitrary: y ns c)
  case (Cons i p)
  have i: "i < length ns" using Cons.prems(2) by simp
  note inner = laid_at [OF Cons.prems(1) i]
  show ?case
  proof (cases "p = []")
    case True
    with Cons.prems(3-5) have "child_height (set_open b (ns ! i)) = child_height (ns ! i) + d" by (intro open_height) simp_all
    with replace_laid [OF Cons.prems(1) i, of "set_open b (ns ! i)" d] True inner show ?thesis
      by (simp add: inner_laid_fields)
  next
    case False
    with Cons.prems obtain ks where ks: "move_below (topen (ns ! i)) True d p (change_at p (set_open b) (kids (ns ! i))) = (ks, True)"
      "laid 0 ks" "getChildContainerHeightHelper ks = getChildContainerHeightHelper (kids (ns ! i)) + d"
      using Cons.IH [of 0 "kids (ns ! i)" "topen (ns ! i)"] inner by (auto simp: inner_laid_fields)
    have "isNodeVisible (topen (ns ! i)) p (kids (ns ! i))" using Cons.prems(6) False by simp
    then have "topen (ns ! i)" by (cases p) auto
    then have "child_height (set_kids ks (ns ! i)) = child_height (ns ! i) + d"
      using Cons.prems(2) False ks(3) by (simp add: kids_height)
    with replace_laid [OF Cons.prems(1) i, of "set_kids ks (ns ! i)" d] inner ks(2) show ?thesis
      by (simp add: move_step [OF i False ks(1)] inner_laid_fields Let_def del: move_below.simps change_at.simps)
  qed
qed simp

lemma move_unseen:
  assumes "laid y ns" and "leads p ns" and "tbox (node_at p ns)" and "topen (node_at p ns) \<noteq> b"
    and "d = (if b then 1 else -1) * getChildContainerHeightHelper (kids (node_at p ns))" and "\<not> own_container c p ns" and "length p > 1"
  shows "\<exists>ns'. move_below c False d p (change_at p (set_open b) ns) = (ns', False) \<and> laid y ns' \<and>
    getChildContainerHeightHelper ns' = getChildContainerHeightHelper ns"
  using assms
proof (induction p arbitrary: y ns c)
  case (Cons i p)
  have i: "i < length ns" and p: "p \<noteq> []" using Cons.prems(2,7) by auto
  note inner = laid_at [OF Cons.prems(1) i]
  have "\<exists>ks g. move_below (topen (ns ! i)) False d p (change_at p (set_open b) (kids (ns ! i))) = (ks, g) \<and> laid 0 ks \<and>
    (topen (ns ! i) \<longrightarrow> getChildContainerHeightHelper ks = getChildContainerHeightHelper (kids (ns ! i)))"
  proof (cases "length p > 1")
    case True
    with Cons.prems Cons.IH [of 0 "kids (ns ! i)" "topen (ns ! i)"] p inner show ?thesis by (auto simp: inner_laid_fields)
  next
    case False
    with p obtain k where k: "p = [k]" by (cases p) auto
    with Cons.prems have "\<not> topen (ns ! i)" and len: "k < length (kids (ns ! i))" by auto
    have laid: "laid 0 (kids (ns ! i))" using inner by (simp add: inner_laid_fields)
    note two = laid_at [OF laid len]
    have "child_height (set_open b (kids (ns ! i) ! k)) = child_height (kids (ns ! i) ! k) + d"
      using Cons.prems(3-5) k by (intro open_height) simp_all
    with replace_laid(1) [OF laid len, of "set_open b (kids (ns ! i) ! k)" d] two \<open>\<not> topen (ns ! i)\<close> k show ?thesis
      by (auto simp: inner_laid_fields)
  qed
  then obtain ks g where ks: "move_below (topen (ns ! i)) False d p (change_at p (set_open b) (kids (ns ! i))) = (ks, g)"
    "laid 0 ks" "topen (ns ! i) \<longrightarrow> getChildContainerHeightHelper ks = getChildContainerHeightHelper (kids (ns ! i))" by blast
  have "child_height (set_kids ks (ns ! i)) = child_height (ns ! i)" using ks(3) by (simp add: kids_height)
  with replace_same [OF Cons.prems(1) i, of "set_kids ks (ns ! i)"] inner ks(2) show ?case
    by (simp add: move_step [OF i p ks(1)] inner_laid_fields Let_def del: move_below.simps change_at.simps)
qed simp

lemma seen_container: "isNodeVisible c p ns \<Longrightarrow> own_container c p ns"
  by (induction p arbitrary: c ns) auto

lemma root_seen: "length p = 1 \<Longrightarrow> isNodeVisible c p ns = own_container c p ns"
  by (cases p) auto

lemma toggle_laid:
  assumes "laid y ns" and "leads p ns" and "tbox (node_at p ns)" and "topen (node_at p ns) \<noteq> b"
    and "d = (if b then 1 else -1) * getChildContainerHeightHelper (kids (node_at p ns))"
    and "isNodeVisible c p ns \<or> \<not> own_container c p ns \<and> length p > 1"
  shows "laid y (fst (move_below c (isNodeVisible c p ns) d p (change_at p (set_open b) ns)))"
proof (cases "isNodeVisible c p ns")
  case True
  with move_seen [OF assms(1-5) True] show ?thesis by auto
next
  case False
  with assms(6) have "\<not> own_container c p ns" "length p > 1" by auto
  with move_unseen [OF assms(1-5)] False show ?thesis by fastforce
qed

text \<open>
  C28: opening or closing a node keeps the layout of the tree, in every container the nodes stand below each
  other with room for the visible children, when everything around the node is visible or the node's own container
  is not.
\<close>

theorem tree_layout:
  assumes "laid y ns" and "leads p ns" and "isNodeVisible c p ns \<or> \<not> own_container c p ns \<and> 1 < length p"
  shows "laid y (expandNode c p ns) \<and> laid y (collapseNode c p ns)"
proof
  let ?h = "getChildContainerHeightHelper (kids (node_at p ns))"
  show "laid y (expandNode c p ns)"
    using toggle_laid [of y ns p True ?h c] assms by (simp add: expandNode_def Let_def)
  show "laid y (collapseNode c p ns)"
    using toggle_laid [of y ns p False "- ?h" c] assms by (simp add: collapseNode_def Let_def)
qed

definition leaf :: "string \<Rightarrow> real \<Rightarrow> tnode" where
  "leaf i t = TNode i t 20 None None True False False []"

theorem tree_layout_witness:
  "laid 0 (expandNode True [0] [TNode ''a'' 0 20 None (Some False) True True False [leaf ''b'' 0], leaf ''c'' 20]) \<and>
   expandNode True [0] [TNode ''a'' 0 20 None (Some False) True True False [leaf ''b'' 0], leaf ''c'' 20] =
     [TNode ''a'' 0 20 None (Some True) True True True [leaf ''b'' 0], leaf ''c'' 40]"
proof
  show "laid 0 (expandNode True [0] [TNode ''a'' 0 20 None (Some False) True True False [leaf ''b'' 0], leaf ''c'' 20])"
    by (rule tree_layout [THEN conjunct1]) (simp_all add: leaf_def)
qed (simp add: expandNode_def Let_def set_open_def shift_after_def shift_def leaf_def)

text \<open>
  Opening a node two levels below a closed one moves only the nodes in its own container: the next one in the
  container above keeps its place and is covered when the closed node opens.
\<close>

definition closed_branch :: "tnode list" where
  "closed_branch =
     [TNode ''a'' 0 20 None (Some False) True True False
        [TNode ''b'' 0 20 None (Some True) True True True [TNode ''c'' 0 20 None (Some False) True True False [leaf ''d'' 0]],
         leaf ''e'' 40]]"

lemma covered_below: "laid 0 closed_branch" "\<not> laid 0 (expandNode True [0, 0, 0] closed_branch)"
  by (simp_all add: closed_branch_def leaf_def expandNode_def Let_def set_open_def set_kids_def shift_after_def)

end
