(* ===== verification/ResizeMove.thy ===== *)
theory ResizeMove
  imports Main
begin

text \<open>
  How the moves, resizings and rotations of one widget are put together (\<open>_queueResizeMove\<close> and
  \<open>_flushResizeMoveActions\<close> in \<open>action.js\<close>, part of \<open>prototypePost.js\<close>): actions of one kind wait in a queue, and
  pieces of equal length are played together. Times are whole numbers of milliseconds.
\<close>

section \<open>Actions, queues and what is played\<close>

datatype kind = Move | Resize | Rotate

text \<open>An action with its easing, the empty text when there is none, and its duration, 0 when there is none.\<close>

record action =
  info :: nat
  easing :: string
  duration :: int

record track =
  queue :: "(nat \<times> action) list"
  used :: int

type_synonym tracks = "kind \<Rightarrow> track"

datatype stop =
  Instant
| Stop int int int

text \<open>
  A call of \<open>_addMove\<close>, \<open>_addResize\<close> or \<open>_addRotate\<close>: the information of its event, its easing and its duration, and
  the actions it plays a piece of, each with start, end and length.
\<close>

record call =
  base :: kind
  event :: "nat option"
  call_easing :: string
  call_duration :: int
  parts :: "(kind \<times> action \<times> stop) list"

definition instant_action :: "action \<Rightarrow> bool" where
  "instant_action a \<longleftrightarrow> easing a = [] \<or> easing a = ''none'' \<or> duration a = 0"

definition instant_call :: "kind \<Rightarrow> nat option \<Rightarrow> action \<Rightarrow> call" where
  "instant_call k ev a =
     \<lparr>base = k, event = ev, call_easing = ''none'', call_duration = 0, parts = [(k, a, Instant)]\<rparr>"

definition no_tracks :: tracks where
  "no_tracks = (\<lambda>k. \<lparr>queue = [], used = 0\<rparr>)"

definition otherType1 :: "kind \<Rightarrow> kind" where
  "otherType1 k = (if k = Move then Resize else Move)"

definition otherType2 :: "kind \<Rightarrow> kind" where
  "otherType2 k = (if k = Rotate then Resize else Rotate)"

section \<open>Queueing\<close>

definition move_easing :: "(kind \<times> action \<times> stop) list \<Rightarrow> string" where
  "move_easing ps = (case find (\<lambda>(k, a, s). k = Move) ps of Some (k, a, s) \<Rightarrow> easing a | None \<Rightarrow> [])"

text \<open>
  The loop that plays the new action \<open>a\<close>, of which \<open>d\<close> is left, with the first ones of the two other queues. A first
  action that is instant is not taken from its queue: the call is made again and again and the loop does not end.
\<close>

partial_function (option) combine ::
  "kind \<Rightarrow> nat \<Rightarrow> action \<Rightarrow> int \<Rightarrow> track \<Rightarrow> track \<Rightarrow> call list \<Rightarrow> (int \<times> track \<times> track \<times> call list) option" where
  "combine k ev a d t1 t2 cs =
     (case queue t1 of
        [] \<Rightarrow> Some (d, t1, t2, cs)
      | (ev1, b1) # r1 \<Rightarrow>
          (case queue t2 of
             [] \<Rightarrow> Some (d, t1, t2, cs)
           | (ev2, b2) # r2 \<Rightarrow>
               if d = 0 then Some (d, t1, t2, cs)
               else if instant_action b1 then combine k ev a d t1 t2 (cs @ [instant_call (otherType1 k) (Some ev) a])
               else if instant_action b2 then combine k ev a d t1 t2 (cs @ [instant_call (otherType2 k) (Some ev) a])
               else
                 let d1 = duration b1 - used t1; d2 = duration b2 - used t2; m = min d (min d1 d2);
                     ps = [(k, a, Stop (duration a - d) (duration a - d + m) (duration a)),
                           (otherType1 k, b1, Stop (used t1) (used t1 + m) (duration b1)),
                           (otherType2 k, b2, Stop (used t2) (used t2 + m) (duration b2))]
                 in combine k ev a (d - m)
                      (if d1 = m then \<lparr>queue = r1, used = 0\<rparr> else t1\<lparr>used := used t1 + m\<rparr>)
                      (if d2 = m then \<lparr>queue = r2, used = 0\<rparr> else t2\<lparr>used := used t2 + m\<rparr>)
                      (cs @ [\<lparr>base = Resize, event = Some ev, call_easing = move_easing ps, call_duration = m, parts = ps\<rparr>])))"

definition queueResizeMove :: "kind \<Rightarrow> nat \<Rightarrow> action \<Rightarrow> tracks \<Rightarrow> (tracks \<times> call list) option" where
  "queueResizeMove k ev a ts =
     (if queue (ts k) = [] \<and> instant_action a then Some (ts, [instant_call k (Some ev) a])
      else if queue (ts (otherType1 k)) = [] \<or> queue (ts (otherType2 k)) = []
      then Some (ts(k := (ts k)\<lparr>queue := queue (ts k) @ [(ev, a)]\<rparr>), [])
      else map_option (\<lambda>(d, t1, t2, cs).
             (ts(k := (if d = 0 then ts k else \<lparr>queue = queue (ts k) @ [(ev, a)], used = duration a - d\<rparr>),
                 otherType1 k := t1, otherType2 k := t2), cs))
             (combine k ev a (duration a) (ts (otherType1 k)) (ts (otherType2 k)) []))"

section \<open>Flushing\<close>

text \<open>
  The variables \<open>moveInfo\<close>, \<open>resizeInfo\<close> and \<open>rotateInfo\<close> hold an entry of a queue at the head of the loop. After an
  instant action the two others still hold the action itself; it has no property \<open>eventInfo\<close> or \<open>actionInfo\<close>.
\<close>

datatype slot =
  Nothing
| Entry nat action
| Bare action

fun slot_event :: "slot \<Rightarrow> nat option" where
  "slot_event (Entry ev a) = Some ev"
| "slot_event s = None"

fun slot_action :: "slot \<Rightarrow> action option" where
  "slot_action (Entry ev a) = Some a"
| "slot_action s = None"

definition head_slot :: "track \<Rightarrow> slot" where
  "head_slot t = (case queue t of [] \<Rightarrow> Nothing | (ev, a) # r \<Rightarrow> Entry ev a)"

definition kept_slot :: "action option \<Rightarrow> slot" where
  "kept_slot x = (case x of None \<Rightarrow> Nothing | Some a \<Rightarrow> Bare a)"

definition updateResizeMoveUsed :: "int \<Rightarrow> track \<Rightarrow> track" where
  "updateResizeMoveUsed d t =
     (case queue t of
        [] \<Rightarrow> t
      | (ev, a) # r \<Rightarrow>
          if (if easing a \<noteq> [] \<and> easing a \<noteq> ''none'' then duration a else 0) \<le> used t + d then \<lparr>queue = r, used = 0\<rparr>
          else t\<lparr>used := used t + d\<rparr>)"

text \<open>The actions at the heads of the three queues while the loop runs.\<close>

record slots =
  move :: slot
  resize :: slot
  rotate :: slot

datatype flushed =
  Done tracks "call list"
| Raised tracks "call list"
| Next tracks slots "call list"

definition left_of :: "action \<Rightarrow> track \<Rightarrow> int" where
  "left_of a t = duration a - used t"

definition piece :: "kind \<Rightarrow> action \<Rightarrow> tracks \<Rightarrow> int \<Rightarrow> kind \<times> action \<times> stop" where
  "piece k a ts d = (k, a, Stop (used (ts k)) (used (ts k) + d) (duration a))"

definition first_event :: "tracks \<Rightarrow> kind \<Rightarrow> nat option" where
  "first_event ts k = slot_event (head_slot (ts k))"

text \<open>Plays together what the arguments name, for as long as all of it lasts.\<close>

definition play :: "nat option \<Rightarrow> kind \<Rightarrow> (kind \<times> action) list \<Rightarrow> tracks \<Rightarrow> call" where
  "play ev k as ts =
     (let d = Min ((\<lambda>(j, a). left_of a (ts j)) ` set as)
      in \<lparr>base = k, event = ev, call_easing = (case map_of as Move of Some a \<Rightarrow> easing a | None \<Rightarrow> easing (the (map_of as k))),
          call_duration = d, parts = map (\<lambda>(j, a). piece j a ts d) as\<rparr>)"

definition advance :: "kind list \<Rightarrow> int \<Rightarrow> tracks \<Rightarrow> tracks" where
  "advance ks d ts = (\<lambda>k. if k \<in> set ks then updateResizeMoveUsed d (ts k) else ts k)"

definition some_of :: "kind \<Rightarrow> action option \<Rightarrow> (kind \<times> action) list" where
  "some_of k x = (case x of None \<Rightarrow> [] | Some a \<Rightarrow> [(k, a)])"

definition flush_step :: "tracks \<Rightarrow> slots \<Rightarrow> call list \<Rightarrow> flushed" where
  "flush_step ts ss cs =
     (if move ss = Nothing \<and> resize ss = Nothing \<and> rotate ss = Nothing then Done ts cs
      else
        let ev = (if move ss \<noteq> Nothing then slot_event (move ss) else if resize ss \<noteq> Nothing then slot_event (resize ss)
                  else slot_event (rotate ss));
            m = slot_action (move ss); r = slot_action (resize ss); o1 = slot_action (rotate ss)
        in case r of
             Some a \<Rightarrow>
               if duration a = 0 \<or> easing a = ''none''
               then let ts1 = advance [Resize] 0 ts
                    in Next ts1 \<lparr>move = kept_slot m, resize = head_slot (ts1 Resize), rotate = kept_slot o1\<rparr>
                         (cs @ [instant_call Resize (first_event ts Resize) a])
               else let as = (Resize, a) # some_of Move m @ some_of Rotate o1; c = play ev Resize as ts;
                        ts1 = advance (map fst as) (call_duration c) ts
                    in Next ts1 \<lparr>move = (if m = None then Nothing else head_slot (ts1 Move)), resize = head_slot (ts1 Resize),
                         rotate = (if o1 = None then Nothing else head_slot (ts1 Rotate))\<rparr> (cs @ [c])
           | None \<Rightarrow>
               (case o1 of
                  Some a \<Rightarrow>
                    if duration a = 0 \<or> easing a = ''none''
                    then let ts1 = advance [Rotate] 0 ts
                         in Next ts1 \<lparr>move = kept_slot m, resize = Nothing, rotate = head_slot (ts1 Rotate)\<rparr>
                              (cs @ [instant_call Rotate (first_event ts Rotate) a])
                    else let as = (Rotate, a) # some_of Move m; c = play ev Rotate as ts;
                             ts1 = advance (map fst as) (call_duration c) ts
                         in Next ts1 \<lparr>move = (if m = None then Nothing else head_slot (ts1 Move)), resize = Nothing,
                              rotate = head_slot (ts1 Rotate)\<rparr> (cs @ [c])
                | None \<Rightarrow>
                    (case m of
                       None \<Rightarrow> Raised ts cs
                     | Some a \<Rightarrow>
                         if duration a = 0 \<or> easing a = ''none''
                         then let ts1 = advance [Move] 0 ts
                              in Next ts1 \<lparr>move = head_slot (ts1 Move), resize = Nothing, rotate = Nothing\<rparr> (cs @ [instant_call Move ev a])
                         else let c = play ev Move [(Move, a)] ts; ts1 = advance [Move] (call_duration c) ts
                              in Next ts1 \<lparr>move = head_slot (ts1 Move), resize = Nothing, rotate = Nothing\<rparr> (cs @ [c]))))"

partial_function (option) flush_loop :: "tracks \<Rightarrow> slots \<Rightarrow> call list \<Rightarrow> (tracks \<times> call list \<times> bool) option" where
  "flush_loop ts ss cs =
     (case flush_step ts ss cs of
        Done ts1 cs1 \<Rightarrow> Some (ts1, cs1, True)
      | Raised ts1 cs1 \<Rightarrow> Some (ts1, cs1, False)
      | Next ts1 ss1 cs1 \<Rightarrow> flush_loop ts1 ss1 cs1)"

text \<open>The last component of the result is \<open>False\<close> when an exception ended the loop.\<close>

definition flushResizeMoveActions :: "tracks \<Rightarrow> (tracks \<times> call list \<times> bool) option" where
  "flushResizeMoveActions ts =
     flush_loop ts \<lparr>move = head_slot (ts Move), resize = head_slot (ts Resize), rotate = head_slot (ts Rotate)\<rparr> []"

end
