(* ===== verification/ResizeMoveProps.thy ===== *)
theory ResizeMoveProps
  imports ResizeMove
begin

text \<open>
  Moves, resizings and rotations that all last some time are played whole: for each kind the pieces that are played
  cover every action of the kind from its start to its end, in the order of the actions. What an instant action
  in a queue does to the two loops is shown at the end.
\<close>

section \<open>The pieces of one kind\<close>

text \<open>What is still to play: the actions, and how much of the first one has been played.\<close>

fun take_piece :: "action \<times> stop \<Rightarrow> action list \<times> int \<Rightarrow> (action list \<times> int) option" where
  "take_piece (b, Stop s e l) (a # as, u) =
     (if b = a \<and> s = u \<and> l = duration a \<and> u < e \<and> e \<le> duration a
      then Some (if e = duration a then (as, 0) else (a # as, e)) else None)"
| "take_piece p r = None"

fun take_pieces :: "(action \<times> stop) list \<Rightarrow> action list \<times> int \<Rightarrow> (action list \<times> int) option" where
  "take_pieces [] r = Some r"
| "take_pieces (p # ps) r = Option.bind (take_piece p r) (take_pieces ps)"

definition played :: "kind \<Rightarrow> call list \<Rightarrow> (action \<times> stop) list" where
  "played k cs = concat (map (\<lambda>c. map snd (filter (\<lambda>p. fst p = k) (parts c))) cs)"

definition rest :: "track \<Rightarrow> action list \<times> int" where
  "rest t = (map snd (queue t), used t)"

lemma take_pieces_append: "take_pieces (ps @ qs) r = Option.bind (take_pieces ps r) (take_pieces qs)"
proof (induction ps arbitrary: r)
  case (Cons p ps)
  then show ?case by (cases "take_piece p r") auto
qed simp

lemma played_append [simp]: "played k (cs @ ds) = played k cs @ played k ds"
  by (simp add: played_def)

lemma played_nil [simp]: "played k [] = []"
  by (simp add: played_def)

lemma take_piece_more: "take_piece p (as, u) = Some (as', u') \<Longrightarrow> take_piece p (as @ bs, u) = Some (as' @ bs, u')"
  by (cases p; cases "snd p"; cases as) (auto split: if_splits)

lemma take_pieces_more: "take_pieces ps (as, u) = Some (as', u') \<Longrightarrow> take_pieces ps (as @ bs, u) = Some (as' @ bs, u')"
proof (induction ps arbitrary: as u)
  case (Cons p ps)
  then obtain as1 u1 where "take_piece p (as, u) = Some (as1, u1)" "take_pieces ps (as1, u1) = Some (as', u')"
    by (auto simp: bind_eq_Some_conv)
  with Cons.IH take_piece_more show ?case by fastforce
qed simp

section \<open>Tracks of actions that last\<close>

definition lasting :: "action \<Rightarrow> bool" where
  "lasting a \<longleftrightarrow> easing a \<noteq> [] \<and> easing a \<noteq> ''none'' \<and> 0 < duration a"

definition track_ok :: "track \<Rightarrow> bool" where
  "track_ok t \<longleftrightarrow>
     list_all (lasting \<circ> snd) (queue t) \<and>
     (case queue t of [] \<Rightarrow> used t = 0 | (ev, a) # r \<Rightarrow> 0 \<le> used t \<and> used t < duration a)"

lemma track_ok_nil [simp]: "queue t = [] \<Longrightarrow> track_ok t \<longleftrightarrow> used t = 0"
  by (simp add: track_ok_def)

lemma track_ok_after:
  assumes "track_ok t" and "queue t = (ev, a) # r"
  shows "track_ok \<lparr>queue = r, used = 0\<rparr>"
  using assms by (auto simp: track_ok_def lasting_def split: list.split)

lemma lasting_not_instant: "lasting a \<Longrightarrow> \<not> instant_action a"
  by (simp add: lasting_def instant_action_def)

text \<open>The first action of a track is played for a time \<open>m\<close>.\<close>

definition forward_track :: "int \<Rightarrow> track \<Rightarrow> track" where
  "forward_track m t =
     (case queue t of
        [] \<Rightarrow> t
      | (ev, a) # r \<Rightarrow> if duration a - used t = m then \<lparr>queue = r, used = 0\<rparr> else t\<lparr>used := used t + m\<rparr>)"

lemma forward_track:
  assumes "track_ok t" and "queue t = (ev, a) # r" and "0 < m" and "m \<le> duration a - used t"
  shows "track_ok (forward_track m t)"
    and "take_pieces [(a, Stop (used t) (used t + m) (duration a))] (rest t) = Some (rest (forward_track m t))"
    and "length (queue (forward_track m t)) = length (queue t) - (if duration a - used t = m then 1 else 0)"
    and "updateResizeMoveUsed m t = forward_track m t"
proof -
  have a: "lasting a" "0 \<le> used t" using assms(1,2) by (auto simp: track_ok_def)
  then show "track_ok (forward_track m t)"
    using assms track_ok_after [OF assms(1,2)] by (auto simp: forward_track_def) (auto simp: track_ok_def)
  show "take_pieces [(a, Stop (used t) (used t + m) (duration a))] (rest t) = Some (rest (forward_track m t))"
    using assms by (auto simp: rest_def forward_track_def)
  show "length (queue (forward_track m t)) = length (queue t) - (if duration a - used t = m then 1 else 0)"
    using assms(2) by (simp add: forward_track_def)
  show "updateResizeMoveUsed m t = forward_track m t"
    using a assms by (auto simp: updateResizeMoveUsed_def forward_track_def lasting_def)
qed

section \<open>Queueing\<close>

lemma others [simp]: "otherType1 k \<noteq> k" "otherType2 k \<noteq> k" "otherType1 k \<noteq> otherType2 k" "k \<noteq> otherType1 k" "k \<noteq> otherType2 k"
  "otherType2 k \<noteq> otherType1 k"
  by (cases k; simp add: otherType1_def otherType2_def)+

lemma all_kinds: "j = k \<or> j = otherType1 k \<or> j = otherType2 k"
  by (cases j; cases k; simp add: otherType1_def otherType2_def)

lemma combine_plays:
  assumes "track_ok t1" and "track_ok t2" and "lasting a" and "0 \<le> d" and "d \<le> duration a"
  shows "\<exists>d' t1' t2' ds. combine k ev a d t1 t2 cs = Some (d', t1', t2', cs @ ds) \<and> track_ok t1' \<and> track_ok t2' \<and>
    0 \<le> d' \<and> d' \<le> d \<and> (d' = 0 \<or> queue t1' = [] \<or> queue t2' = []) \<and>
    take_pieces (played (otherType1 k) ds) (rest t1) = Some (rest t1') \<and>
    take_pieces (played (otherType2 k) ds) (rest t2) = Some (rest t2') \<and>
    take_pieces (played k ds) (if d = 0 then ([], 0) else ([a], duration a - d)) =
      Some (if d' = 0 then ([], 0) else ([a], duration a - d'))"
  using assms
proof (induction "length (queue t1) + length (queue t2) + (if d = 0 then 0 else 1)" arbitrary: t1 t2 d cs rule: less_induct)
  case less
  show ?case
  proof (cases "queue t1 = [] \<or> queue t2 = [] \<or> d = 0")
    case True
    then have "combine k ev a d t1 t2 cs = Some (d, t1, t2, cs)"
      by (subst combine.simps) (auto split: list.split)
    with True less.prems show ?thesis by auto
  next
    case False
    then obtain ev1 b1 r1 ev2 b2 r2 where q: "queue t1 = (ev1, b1) # r1" "queue t2 = (ev2, b2) # r2" and d: "0 < d"
      using less.prems(4) by (cases "queue t1"; cases "queue t2") auto
    have b: "lasting b1" "lasting b2" "used t1 < duration b1" "used t2 < duration b2"
      using less.prems(1,2) q by (auto simp: track_ok_def)
    define m where "m = min d (min (duration b1 - used t1) (duration b2 - used t2))"
    have m: "0 < m" "m \<le> d" "m \<le> duration b1 - used t1" "m \<le> duration b2 - used t2" using b d by (auto simp: m_def)
    define ps where "ps = [(k, a, Stop (duration a - d) (duration a - d + m) (duration a)),
      (otherType1 k, b1, Stop (used t1) (used t1 + m) (duration b1)), (otherType2 k, b2, Stop (used t2) (used t2 + m) (duration b2))]"
    define c where "c = \<lparr>base = Resize, event = Some ev, call_easing = move_easing ps, call_duration = m, parts = ps\<rparr>"
    let ?t1 = "forward_track m t1" and ?t2 = "forward_track m t2"
    note f1 = forward_track [OF less.prems(1) q(1) m(1) m(3)] and f2 = forward_track [OF less.prems(2) q(2) m(1) m(4)]
    have step: "combine k ev a d t1 t2 cs = combine k ev a (d - m) ?t1 ?t2 (cs @ [c])"
      by (subst combine.simps)
        (use q d b lasting_not_instant in \<open>simp add: Let_def c_def ps_def m_def forward_track_def\<close>)
    have "length (queue ?t1) + length (queue ?t2) + (if d - m = 0 then 0 else 1) < length (queue t1) + length (queue t2) + (if d = 0 then 0 else 1)"
    proof -
      have "d - m = 0 \<or> duration b1 - used t1 = m \<or> duration b2 - used t2 = m" unfolding m_def min_def by auto
      then show ?thesis using f1(3) f2(3) q d by auto
    qed
    from less.hyps [OF this f1(1) f2(1) less.prems(3), of "cs @ [c]"] m(1,2) less.prems(5)
    obtain d' t1' t2' ds where ih: "combine k ev a (d - m) ?t1 ?t2 (cs @ [c]) = Some (d', t1', t2', (cs @ [c]) @ ds)"
      "track_ok t1'" "track_ok t2'" "0 \<le> d'" "d' \<le> d - m" "d' = 0 \<or> queue t1' = [] \<or> queue t2' = []"
      "take_pieces (played (otherType1 k) ds) (rest ?t1) = Some (rest t1')"
      "take_pieces (played (otherType2 k) ds) (rest ?t2) = Some (rest t2')"
      "take_pieces (played k ds) (if d - m = 0 then ([], 0) else ([a], duration a - (d - m))) =
        Some (if d' = 0 then ([], 0) else ([a], duration a - d'))" by auto
    have one: "played (otherType1 k) [c] = [(b1, Stop (used t1) (used t1 + m) (duration b1))]"
      "played (otherType2 k) [c] = [(b2, Stop (used t2) (used t2 + m) (duration b2))]"
      "played k [c] = [(a, Stop (duration a - d) (duration a - d + m) (duration a))]"
      by (simp_all add: played_def c_def ps_def)
    have "take_pieces (played (otherType1 k) ([c] @ ds)) (rest t1) = Some (rest t1')"
      "take_pieces (played (otherType2 k) ([c] @ ds)) (rest t2) = Some (rest t2')"
      unfolding played_append take_pieces_append one f1(2) f2(2) using ih(7,8) by simp_all
    moreover have "take_pieces (played k [c]) ([a], duration a - d) =
        Some (if d - m = 0 then ([], 0) else ([a], duration a - (d - m)))"
      unfolding one using m(1,2) less.prems(5) by auto
    then have "take_pieces (played k ([c] @ ds)) ([a], duration a - d) = Some (if d' = 0 then ([], 0) else ([a], duration a - d'))"
      unfolding played_append take_pieces_append using ih(9) by simp
    ultimately show ?thesis using step ih(1-6) d m(1)
      by (intro exI [of _ d'] exI [of _ t1'] exI [of _ t2'] exI [of _ "[c] @ ds"]) auto
  qed
qed

definition tracks_ok :: "tracks \<Rightarrow> bool" where
  "tracks_ok ts \<longleftrightarrow> (\<forall>k. track_ok (ts k)) \<and> (\<exists>k. queue (ts k) = [])"

lemma track_ok_push: "track_ok t \<Longrightarrow> lasting a \<Longrightarrow> track_ok (t\<lparr>queue := queue t @ [(ev, a)]\<rparr>)"
  by (cases "queue t") (auto simp: track_ok_def lasting_def)

lemma queue_plays:
  assumes "tracks_ok ts" and "lasting a"
  shows "\<exists>ts' cs. queueResizeMove k ev a ts = Some (ts', cs) \<and> tracks_ok ts' \<and>
    (\<forall>j. take_pieces (played j cs) (fst (rest (ts j)) @ (if j = k then [a] else []), used (ts j)) = Some (rest (ts' j)))"
proof (cases "queue (ts (otherType1 k)) = [] \<or> queue (ts (otherType2 k)) = []")
  case True
  let ?ts = "ts(k := (ts k)\<lparr>queue := queue (ts k) @ [(ev, a)]\<rparr>)"
  have "queueResizeMove k ev a ts = Some (?ts, [])"
    using True lasting_not_instant [OF assms(2)] by (simp add: queueResizeMove_def)
  moreover have "tracks_ok ?ts" unfolding tracks_ok_def
  proof
    show "\<forall>j. track_ok (?ts j)" using assms track_ok_push by (simp add: tracks_ok_def)
    show "\<exists>j. queue (?ts j) = []" using True others by (metis fun_upd_other)
  qed
  ultimately show ?thesis by (auto simp: rest_def)
next
  case False
  obtain i where "queue (ts i) = []" and ok: "\<And>j. track_ok (ts j)" using assms(1) unfolding tracks_ok_def by blast
  with all_kinds [of i k] False have "queue (ts k) = []" by blast
  with ok [of k] have own: "queue (ts k) = []" "used (ts k) = 0" "track_ok (ts (otherType1 k))" "track_ok (ts (otherType2 k))"
    using ok by (simp_all add: track_ok_def)
  have a: "0 < duration a" using assms(2) by (simp add: lasting_def)
  obtain d t1 t2 cs where c: "combine k ev a (duration a) (ts (otherType1 k)) (ts (otherType2 k)) [] = Some (d, t1, t2, cs)"
    "track_ok t1" "track_ok t2" "0 \<le> d" "d \<le> duration a" "d = 0 \<or> queue t1 = [] \<or> queue t2 = []"
    "take_pieces (played (otherType1 k) cs) (rest (ts (otherType1 k))) = Some (rest t1)"
    "take_pieces (played (otherType2 k) cs) (rest (ts (otherType2 k))) = Some (rest t2)"
    "take_pieces (played k cs) ([a], 0) = Some (if d = 0 then ([], 0) else ([a], duration a - d))"
    using combine_plays [OF own(3,4) assms(2), of "duration a" k ev "[]"] a by auto
  let ?ts = "ts(k := (if d = 0 then ts k else \<lparr>queue = queue (ts k) @ [(ev, a)], used = duration a - d\<rparr>),
    otherType1 k := t1, otherType2 k := t2)"
  have q: "queueResizeMove k ev a ts = Some (?ts, cs)"
    using False c(1) lasting_not_instant [OF assms(2)] by (simp add: queueResizeMove_def)
  have at: "?ts k = (if d = 0 then ts k else \<lparr>queue = queue (ts k) @ [(ev, a)], used = duration a - d\<rparr>)"
    "?ts (otherType1 k) = t1" "?ts (otherType2 k) = t2" by simp_all
  have "track_ok (?ts k)" unfolding at(1) using ok [of k] own(1) c(4,5) assms(2) by (simp add: track_ok_def)
  then have "track_ok (?ts j)" for j
    using all_kinds [of j k] c(2,3) at(2,3) by metis
  moreover have "\<exists>j. queue (?ts j) = []"
    using c(6) own(1) at by metis
  moreover have "take_pieces (played j cs) (fst (rest (ts j)) @ (if j = k then [a] else []), used (ts j)) = Some (rest (?ts j))" for j
  proof -
    consider "j = k" | "j = otherType1 k" | "j = otherType2 k" using all_kinds by blast
    then show ?thesis
    proof cases
      case 1
      then show ?thesis unfolding 1 at(1) using c(9) own(1,2) by (simp add: rest_def)
    next
      case 2
      then show ?thesis unfolding 2 at(2) using c(7) by (simp add: rest_def)
    next
      case 3
      then show ?thesis unfolding 3 at(3) using c(8) by (simp add: rest_def)
    qed
  qed
  ultimately show ?thesis using q unfolding tracks_ok_def by blast
qed

section \<open>Flushing\<close>

definition heads :: "tracks \<Rightarrow> slots" where
  "heads ts = \<lparr>move = head_slot (ts Move), resize = head_slot (ts Resize), rotate = head_slot (ts Rotate)\<rparr>"

definition waiting :: "tracks \<Rightarrow> nat" where
  "waiting ts = length (queue (ts Move)) + length (queue (ts Resize)) + length (queue (ts Rotate))"

definition at_head :: "tracks \<Rightarrow> kind \<Rightarrow> action \<Rightarrow> bool" where
  "at_head ts k a \<longleftrightarrow> (\<exists>ev r. queue (ts k) = (ev, a) # r)"

lemma only_one: "distinct (map fst as) \<Longrightarrow> filter (\<lambda>p. fst p = j) as = (case map_of as j of None \<Rightarrow> [] | Some a \<Rightarrow> [(j, a)])"
proof (induction as)
  case (Cons p as)
  then show ?case by (cases p) (auto simp: map_of_eq_None_iff image_iff filter_empty_conv split: option.split)
qed simp

lemma forward_shorter: "length (queue (forward_track d t)) \<le> length (queue t)"
  by (cases "queue t") (auto simp: forward_track_def)

lemma play_pieces:
  assumes ok: "\<And>k. track_ok (ts k)" and as: "distinct (map fst as)" "as \<noteq> []" and at: "\<And>j a. (j, a) \<in> set as \<Longrightarrow> at_head ts j a"
    and c: "c = play ev k as ts" "ts1 = advance (map fst as) (call_duration c) ts"
  shows "track_ok (ts1 j)" and "take_pieces (played j [c]) (rest (ts j)) = Some (rest (ts1 j))" and "waiting ts1 < waiting ts"
proof -
  define d where "d = Min ((\<lambda>(j, a). left_of a (ts j)) ` set as)"
  have cd: "call_duration c = d" "parts c = map (\<lambda>(j, a). piece j a ts d) as" by (simp_all add: c play_def d_def Let_def)
  have d_le: "(j, a) \<in> set as \<Longrightarrow> d \<le> left_of a (ts j)" for j a unfolding d_def by (rule Min_le) force+
  have "d \<in> (\<lambda>(j, a). left_of a (ts j)) ` set as" unfolding d_def using as(2) by (intro Min_in) auto
  then obtain j0 a0 where j0: "(j0, a0) \<in> set as" "d = left_of a0 (ts j0)" by auto
  have pos: "0 < d" using at [OF j0(1)] ok [of j0] j0(2) by (auto simp: at_head_def track_ok_def left_of_def)
  have fwd: "ts1 j = (if j \<in> fst ` set as then forward_track d (ts j) else ts j)" "track_ok (ts1 j)"
    "take_pieces (played j [c]) (rest (ts j)) = Some (rest (ts1 j))" for j
  proof -
    have "track_ok (ts1 j) \<and> take_pieces (played j [c]) (rest (ts j)) = Some (rest (ts1 j)) \<and>
      ts1 j = (if j \<in> fst ` set as then forward_track d (ts j) else ts j)"
    proof (cases "map_of as j")
      case None
      then have "j \<notin> fst ` set as" by (simp add: map_of_eq_None_iff)
      moreover from this have "played j [c] = []" by (force simp: played_def cd piece_def filter_empty_conv)
      ultimately show ?thesis using ok by (simp add: c(2) advance_def)
    next
      case (Some a)
      then have m: "(j, a) \<in> set as" "j \<in> fst ` set as" by (auto dest: map_of_SomeD simp: rev_image_eqI)
      then obtain e r where q: "queue (ts j) = (e, a) # r" using at unfolding at_head_def by blast
      have f: "filter (\<lambda>p. fst p = j) (map (\<lambda>(j, a). piece j a ts d) as) = map (\<lambda>(j, a). piece j a ts d) (filter (\<lambda>p. fst p = j) as)"
        by (simp add: filter_map comp_def piece_def case_prod_unfold)
      have p: "played j [c] = [(a, Stop (used (ts j)) (used (ts j) + d) (duration a))]"
        unfolding played_def by (simp add: cd f only_one [OF as(1)] Some) (simp add: piece_def)
      have le: "d \<le> duration a - used (ts j)" using d_le [OF m(1)] by (simp add: left_of_def)
      note fw = forward_track [OF ok q pos le]
      have "ts1 j = forward_track d (ts j)" using m(2) fw(4) by (simp add: c(2) advance_def cd)
      with p fw(1,2) m(2) show ?thesis by simp
    qed
    then show "ts1 j = (if j \<in> fst ` set as then forward_track d (ts j) else ts j)" "track_ok (ts1 j)"
      "take_pieces (played j [c]) (rest (ts j)) = Some (rest (ts1 j))" by blast+
  qed
  show "track_ok (ts1 j)" "take_pieces (played j [c]) (rest (ts j)) = Some (rest (ts1 j))" by (rule fwd)+
  have le: "length (queue (ts1 i)) \<le> length (queue (ts i))" for i using forward_shorter by (simp add: fwd(1))
  obtain e r where q: "queue (ts j0) = (e, a0) # r" using at [OF j0(1)] unfolding at_head_def by blast
  have "j0 \<in> fst ` set as" using j0(1) by (rule rev_image_eqI) simp
  with q j0(2) have "length (queue (ts1 j0)) < length (queue (ts j0))"
    by (simp add: fwd(1) forward_track_def left_of_def)
  with le [of Move] le [of Resize] le [of Rotate] show "waiting ts1 < waiting ts"
    unfolding waiting_def by (cases j0) simp_all
qed

lemma head_slots:
  "head_slot t = Nothing \<longleftrightarrow> queue t = []" "queue t = (ev, a) # r \<Longrightarrow> head_slot t = Entry ev a"
  by (auto simp: head_slot_def split: list.splits)

lemma flush_plays_step:
  assumes ok: "\<And>k. track_ok (ts k)" and some: "waiting ts \<noteq> 0"
  shows "\<exists>ts1 c. flush_step ts (heads ts) cs = Next ts1 (heads ts1) (cs @ [c]) \<and> (\<forall>j. track_ok (ts1 j)) \<and>
    (\<forall>j. take_pieces (played j [c]) (rest (ts j)) = Some (rest (ts1 j))) \<and> waiting ts1 < waiting ts"
proof -
  define ev where "ev = (if head_slot (ts Move) \<noteq> Nothing then slot_event (head_slot (ts Move))
    else if head_slot (ts Resize) \<noteq> Nothing then slot_event (head_slot (ts Resize)) else slot_event (head_slot (ts Rotate)))"
  let ?act = "\<lambda>k. slot_action (head_slot (ts k))"
  have act: "?act k = Some a \<Longrightarrow> at_head ts k a" "?act k = None \<Longrightarrow> queue (ts k) = []" for k a
    by (auto simp: head_slot_def at_head_def split: list.splits)
  have lasts: "?act k = Some a \<Longrightarrow> duration a \<noteq> 0 \<and> easing a \<noteq> ''none''" for k a
    using ok [of k] by (auto simp: head_slot_def track_ok_def lasting_def split: list.splits)
  have none: "?act k = None \<Longrightarrow> head_slot (ts k) = Nothing" for k by (simp add: act(2) head_slots(1))
  have idle: "?act k = None \<Longrightarrow> k \<notin> set ks \<Longrightarrow> head_slot (advance ks d ts k) = Nothing" for k ks d
    using none by (simp add: advance_def)
  have result: ?thesis if as: "as \<noteq> []" "distinct (map fst as)" "\<And>j a. (j, a) \<in> set as \<Longrightarrow> ?act j = Some a"
    and step: "flush_step ts (heads ts) cs = Next (advance (map fst as) (call_duration (play ev k as ts)) ts)
      (heads (advance (map fst as) (call_duration (play ev k as ts)) ts)) (cs @ [play ev k as ts])" for as k
    using play_pieces [where ev = ev and k = k, OF ok as(2,1) act(1) [OF as(3)] refl refl] step by blast
  have busy: "\<not> (head_slot (ts Move) = Nothing \<and> head_slot (ts Resize) = Nothing \<and> head_slot (ts Rotate) = Nothing)"
    using some by (auto simp: waiting_def head_slots(1))
  show ?thesis
  proof (cases "?act Resize")
    case (Some a)
    show ?thesis
      by (rule result [of "(Resize, a) # some_of Move (?act Move) @ some_of Rotate (?act Rotate)" Resize])
        (use busy Some lasts [OF Some] none in \<open>auto simp: flush_step_def heads_def Let_def ev_def some_of_def idle split: option.splits\<close>)
  next
    case None
    show ?thesis
    proof (cases "?act Rotate")
      case (Some a)
      show ?thesis
        by (rule result [of "(Rotate, a) # some_of Move (?act Move)" Rotate])
          (use busy None Some lasts [OF Some] none in \<open>auto simp: flush_step_def heads_def Let_def ev_def some_of_def idle split: option.splits\<close>)
    next
      case rot: None
      with None busy none have "?act Move \<noteq> None" by blast
      then obtain a where a: "?act Move = Some a" by blast
      show ?thesis
        by (rule result [of "[(Move, a)]" Move])
          (use busy None rot a lasts [OF a] none in \<open>auto simp: flush_step_def heads_def Let_def ev_def idle\<close>)
    qed
  qed
qed

lemma flush_plays:
  assumes "\<And>k. track_ok (ts k)"
  shows "\<exists>ts' ds. flush_loop ts (heads ts) cs = Some (ts', cs @ ds, True) \<and> (\<forall>k. queue (ts' k) = [] \<and> used (ts' k) = 0) \<and>
    (\<forall>j. take_pieces (played j ds) (rest (ts j)) = Some ([], 0))"
  using assms
proof (induction "waiting ts" arbitrary: ts cs rule: less_induct)
  case less
  show ?case
  proof (cases "waiting ts = 0")
    case True
    then have q: "queue (ts k) = []" for k by (cases k) (simp_all add: waiting_def)
    then have u: "used (ts k) = 0" for k using less.prems [of k] by simp
    have "flush_step ts (heads ts) cs = Done ts cs" by (simp add: flush_step_def heads_def head_slots(1) q)
    then have "flush_loop ts (heads ts) cs = Some (ts, cs, True)" by (subst flush_loop.simps) simp
    with q u show ?thesis by (intro exI [of _ ts] exI [of _ "[]"]) (simp add: rest_def)
  next
    case False
    obtain ts1 c where s: "flush_step ts (heads ts) cs = Next ts1 (heads ts1) (cs @ [c])" "\<And>j. track_ok (ts1 j)"
      "\<And>j. take_pieces (played j [c]) (rest (ts j)) = Some (rest (ts1 j))" "waiting ts1 < waiting ts"
      using flush_plays_step [OF less.prems False] by metis
    obtain ts' ds where ih: "flush_loop ts1 (heads ts1) (cs @ [c]) = Some (ts', (cs @ [c]) @ ds, True)"
      "\<forall>k. queue (ts' k) = [] \<and> used (ts' k) = 0" "\<forall>j. take_pieces (played j ds) (rest (ts1 j)) = Some ([], 0)"
      using less.hyps [OF s(4) s(2)] by blast
    have "flush_loop ts (heads ts) cs = Some (ts', cs @ [c] @ ds, True)" using s(1) ih(1) by (subst flush_loop.simps) simp
    moreover have "take_pieces (played j ([c] @ ds)) (rest (ts j)) = Some ([], 0)" for j
      unfolding played_append take_pieces_append s(3) using ih(3) by simp
    ultimately show ?thesis using ih(2) by blast
  qed
qed

section \<open>A whole event\<close>

text \<open>The actions of an event are queued one after the other; its end flushes the queues.\<close>

fun queue_all :: "(kind \<times> nat \<times> action) list \<Rightarrow> tracks \<Rightarrow> call list \<Rightarrow> (tracks \<times> call list) option" where
  "queue_all [] ts cs = Some (ts, cs)"
| "queue_all ((k, ev, a) # as) ts cs =
     (case queueResizeMove k ev a ts of None \<Rightarrow> None | Some (ts1, ds) \<Rightarrow> queue_all as ts1 (cs @ ds))"

definition play_event :: "(kind \<times> nat \<times> action) list \<Rightarrow> (tracks \<times> call list \<times> bool) option" where
  "play_event as =
     (case queue_all as no_tracks [] of
        None \<Rightarrow> None
      | Some (ts, cs) \<Rightarrow> map_option (\<lambda>(ts1, ds, done). (ts1, cs @ ds, done)) (flushResizeMoveActions ts))"

definition of_kind :: "kind \<Rightarrow> (kind \<times> nat \<times> action) list \<Rightarrow> action list" where
  "of_kind k as = map (snd \<circ> snd) (filter (\<lambda>x. fst x = k) as)"

lemma queue_all_plays:
  assumes "tracks_ok ts" and "\<forall>(k, ev, a) \<in> set as. lasting a"
  shows "\<exists>ts' ds. queue_all as ts cs = Some (ts', cs @ ds) \<and> tracks_ok ts' \<and>
    (\<forall>k. take_pieces (played k ds) (fst (rest (ts k)) @ of_kind k as, used (ts k)) = Some (rest (ts' k)))"
  using assms
proof (induction as arbitrary: ts cs)
  case Nil
  then show ?case by (simp add: of_kind_def rest_def)
next
  case (Cons x as)
  obtain k ev a where x: "x = (k, ev, a)" by (cases x)
  with Cons.prems obtain ts1 cs1 where q: "queueResizeMove k ev a ts = Some (ts1, cs1)" "tracks_ok ts1"
    "\<And>j. take_pieces (played j cs1) (fst (rest (ts j)) @ (if j = k then [a] else []), used (ts j)) = Some (rest (ts1 j))"
    using queue_plays [of ts a k ev] by auto
  obtain ts' ds where ih: "queue_all as ts1 (cs @ cs1) = Some (ts', (cs @ cs1) @ ds)" "tracks_ok ts'"
    "\<And>j. take_pieces (played j ds) (fst (rest (ts1 j)) @ of_kind j as, used (ts1 j)) = Some (rest (ts' j))"
    using Cons.IH [OF q(2), of "cs @ cs1"] Cons.prems(2) by auto
  have "take_pieces (played j (cs1 @ ds)) (fst (rest (ts j)) @ of_kind j (x # as), used (ts j)) = Some (rest (ts' j))" for j
  proof -
    have "fst (rest (ts j)) @ of_kind j (x # as) = (fst (rest (ts j)) @ (if j = k then [a] else [])) @ of_kind j as"
      by (simp add: of_kind_def x)
    moreover have "take_pieces (played j cs1) (fst (rest (ts j)) @ (if j = k then [a] else []), used (ts j)) =
        Some (fst (rest (ts1 j)), used (ts1 j))"
      using q(3) [of j] by (simp add: rest_def)
    from take_pieces_more [OF this, of "of_kind j as"]
    have "take_pieces (played j cs1) ((fst (rest (ts j)) @ (if j = k then [a] else [])) @ of_kind j as, used (ts j)) =
        Some (fst (rest (ts1 j)) @ of_kind j as, used (ts1 j))" .
    ultimately show ?thesis by (simp only: played_append take_pieces_append bind.bind_lunit ih(3))
  qed
  with q(1) ih(1,2) x show ?case by auto
qed

lemma no_tracks_ok: "tracks_ok no_tracks"
  by (simp add: tracks_ok_def no_tracks_def)

text \<open>
  C29: when all actions of an event last some time, queueing and flushing them ends without an
  exception and with empty queues, and for each kind the pieces that were played cover every action of the kind
  without gap or overlap from its start to its end, one action after the other in their order.
\<close>

theorem animations_whole:
  assumes "\<forall>(k, ev, a) \<in> set as. lasting a"
  shows "\<exists>ts cs. play_event as = Some (ts, cs, True) \<and>
    (\<forall>k. queue (ts k) = [] \<and> take_pieces (played k cs) (of_kind k as, 0) = Some ([], 0))"
proof -
  obtain ts cs where q: "queue_all as no_tracks [] = Some (ts, cs)" "tracks_ok ts"
    "\<And>k. take_pieces (played k cs) (of_kind k as, 0) = Some (rest (ts k))"
    using queue_all_plays [OF no_tracks_ok assms, of "[]"] by (auto simp: no_tracks_def rest_def)
  obtain ts' ds where f: "flush_loop ts (heads ts) [] = Some (ts', ds, True)" "\<And>k. queue (ts' k) = []"
    "\<And>k. take_pieces (played k ds) (rest (ts k)) = Some ([], 0)"
    using flush_plays [of ts "[]"] q(2) by (auto simp: tracks_ok_def)
  have "play_event as = Some (ts', cs @ ds, True)" using q(1) f(1) by (simp add: play_event_def flushResizeMoveActions_def heads_def)
  moreover have "take_pieces (played k (cs @ ds)) (of_kind k as, 0) = Some ([], 0)" for k
    by (simp add: take_pieces_append q(3) f(3))
  ultimately show ?thesis using f(2) by blast
qed

definition linear :: "nat \<Rightarrow> int \<Rightarrow> action" where
  "linear i d = \<lparr>info = i, easing = ''linear'', duration = d\<rparr>"

theorem animations_whole_witness:
  "\<exists>ts cs. play_event [(Move, 1, linear 1 500), (Resize, 1, linear 2 200), (Rotate, 1, linear 3 300)] = Some (ts, cs, True) \<and>
     (\<forall>k. queue (ts k) = [] \<and>
       take_pieces (played k cs) (of_kind k [(Move, 1, linear 1 500), (Resize, 1, linear 2 200), (Rotate, 1, linear 3 300)], 0) = Some ([], 0))"
  by (rule animations_whole) (simp add: linear_def lasting_def)

section \<open>Instant actions in a queue\<close>

text \<open>
  An instant resizing behind one that lasts is at the head of its queue when the flush comes to it. The loop keeps
  the action of the move instead of its entry and ends with an exception, with the move still in its queue.
\<close>

lemma flush_raises:
  "map_option (\<lambda>(ts, cs, ok). (ok, map snd (queue (ts Move)), length cs))
     (play_event [(Resize, 1, linear 1 200), (Resize, 1, linear 2 0), (Move, 1, linear 3 500)]) = Some (False, [linear 3 500], 2)"
proof -
  let ?ts = "no_tracks(Resize := \<lparr>queue = [(1, linear 1 200), (1, linear 2 0)], used = 0\<rparr>, Move := \<lparr>queue = [(1, linear 3 500)], used = 0\<rparr>)"
  have q: "queue_all [(Resize, 1, linear 1 200), (Resize, 1, linear 2 0), (Move, 1, linear 3 500)] no_tracks [] = Some (?ts, [])"
    by (simp add: queueResizeMove_def no_tracks_def instant_action_def linear_def otherType1_def otherType2_def fun_upd_twist)
  show ?thesis
    unfolding play_event_def q
    by (simp add: flushResizeMoveActions_def flush_loop.simps flush_step_def head_slot_def no_tracks_def Let_def linear_def some_of_def
        play_def piece_def left_of_def advance_def updateResizeMoveUsed_def kept_slot_def first_event_def instant_call_def)
qed

text \<open>
  When such an instant action waits at the head of one of the two other queues, queueing an action does not return.
\<close>

definition stuck :: "track \<Rightarrow> track \<Rightarrow> int \<Rightarrow> bool" where
  "stuck t1 t2 d \<longleftrightarrow>
     d \<noteq> 0 \<and> (\<exists>ev1 b1 r1 ev2 b2 r2. queue t1 = (ev1, b1) # r1 \<and> queue t2 = (ev2, b2) # r2 \<and> (instant_action b1 \<or> instant_action b2))"

lemma queue_all_append:
  "queue_all (as @ bs) ts cs = (case queue_all as ts cs of None \<Rightarrow> None | Some (ts1, cs1) \<Rightarrow> queue_all bs ts1 cs1)"
  by (induction as ts cs rule: queue_all.induct) (auto split: option.split)

lemma stuck_hangs:
  assumes "stuck t1 t2 d"
  shows "combine k ev a d t1 t2 cs = None"
proof (cases "combine k ev a d t1 t2 cs")
  case (Some res)
  have "\<not> stuck t1 t2 d"
    by (rule combine.raw_induct [of "\<lambda>k ev a d t1 t2 cs r. \<not> stuck t1 t2 d", OF _ Some])
      (auto simp: stuck_def split: list.splits prod.splits if_splits, blast+)
  with assms show ?thesis by simp
qed

text \<open>
  A resizing of 200, an instant one, a move of 500 and a rotation of 900: the rotation is played with the resizing and the
  move for 200, and then the instant resizing stays at the head of its queue for ever.
\<close>

lemma queueing_hangs:
  "play_event [(Resize, 1, linear 1 200), (Resize, 1, linear 2 0), (Move, 1, linear 3 500), (Rotate, 1, linear 4 900)] = None"
proof -
  let ?t1 = "\<lparr>queue = [(1, linear 3 500)], used = 0\<rparr>" and ?t2 = "\<lparr>queue = [(1, linear 1 200), (1, linear 2 0)], used = 0\<rparr>"
  let ?ts = "no_tracks(Resize := ?t2, Move := ?t1)"
  have q: "queue_all [(Resize, 1, linear 1 200), (Resize, 1, linear 2 0), (Move, 1, linear 3 500)] no_tracks [] = Some (?ts, [])"
    by (simp add: queueResizeMove_def no_tracks_def instant_action_def linear_def otherType1_def otherType2_def fun_upd_twist)
  let ?ps = "[(Rotate, linear 4 900, Stop 0 200 900), (Move, linear 3 500, Stop 0 200 500), (Resize, linear 1 200, Stop 0 200 200)]"
  let ?c = "\<lparr>base = Resize, event = Some 1, call_easing = move_easing ?ps, call_duration = 200, parts = ?ps\<rparr>"
  have "combine Rotate 1 (linear 4 900) 900 ?t1 ?t2 [] =
      combine Rotate 1 (linear 4 900) 700 \<lparr>queue = [(1, linear 3 500)], used = 200\<rparr> \<lparr>queue = [(1, linear 2 0)], used = 0\<rparr> [?c]"
    by (subst combine.simps) (simp add: linear_def instant_action_def Let_def otherType1_def otherType2_def)
  moreover have lin: "duration (linear 4 900) = 900" "\<not> instant_action (linear 4 900)"
    by (simp_all add: linear_def instant_action_def)
  moreover have "combine Rotate 1 (linear 4 900) 700 \<lparr>queue = [(1, linear 3 500)], used = 200\<rparr> \<lparr>queue = [(1, linear 2 0)], used = 0\<rparr> [?c] = None"
    by (rule stuck_hangs) (simp add: stuck_def instant_action_def linear_def)
  ultimately have "queueResizeMove Rotate 1 (linear 4 900) ?ts = None"
    by (simp add: queueResizeMove_def no_tracks_def otherType1_def otherType2_def lin)
  with q queue_all_append [of "[(Resize, 1, linear 1 200), (Resize, 1, linear 2 0), (Move, 1, linear 3 500)]"
      "[(Rotate, 1, linear 4 900)]" no_tracks "[]"]
  show ?thesis by (simp add: play_event_def)
qed

end
