(* ===== verification/Repeater.thy ===== *)
theory Repeater
  imports Double
begin

text \<open>
  The data of a repeater of the prototype pages (\<open>repeater.js\<close> in \<open>prototypePost.js\<close>): its rows with filters, sorts,
  pages and marked items, the rows that are added, changed and deleted, and the identifiers of the elements of an
  item. The expressions of filters and rules are functions of an item, and \<open>toLowerCase\<close> is a parameter. Limits and
  pages are whole numbers. What the pages draw of the rows is not part of the model.
\<close>

section \<open>Rows\<close>

text \<open>A cell with its type, its text, its images by the key of the sketch, and its other properties.\<close>

record cell =
  cell_type :: string
  cell_text :: units
  cell_img :: "(string \<Rightarrow> units option) option"
  cell_prop :: "string \<Rightarrow> units option"

type_synonym row = "string \<Rightarrow> cell option"

text \<open>A filter and a sort with their labels; an empty label is none.\<close>

record 'f filter_obj =
  filter_expr :: 'f
  this_id :: string
  filter_label :: string

record sort_obj =
  columnName :: string
  ascending :: bool
  sortType :: string
  sort_label :: string

datatype page_info =
  NoLimit
| Limited int int

text \<open>
  The first number is \<open>itemsPerPage\<close>, the second \<open>currPage\<close>. The active rows have their index in the data set, from 1.
\<close>

record 'f repeater =
  dataset :: "row list"
  active :: "(nat \<times> row) list"
  filters :: "'f filter_obj list"
  sorts :: "sort_obj list"
  page :: page_info
  edit_items :: "nat list"

definition getActiveDataSet :: "'f repeater \<Rightarrow> (nat \<times> row) list" where
  "getActiveDataSet r = zip [1..<length (dataset r) + 1] (dataset r)"

definition setRepeaterDataSet :: "row list \<Rightarrow> 'f repeater \<Rightarrow> 'f repeater" where
  "setRepeaterDataSet rows r =
     (let r1 = r\<lparr>dataset := rows\<rparr> in r1\<lparr>active := getActiveDataSet r1, filters := [], sorts := []\<rparr>)"

section \<open>Filters and sorts\<close>

definition removeFilter :: "string \<Rightarrow> 'f repeater \<Rightarrow> 'f repeater" where
  "removeFilter label r =
     (if label = [] then r\<lparr>filters := []\<rparr>
      else r\<lparr>filters := filter (\<lambda>f. \<not> (filter_label f \<noteq> [] \<and> filter_label f = label)) (filters r)\<rparr>)"

definition addFilter :: "bool \<Rightarrow> string \<Rightarrow> 'f \<Rightarrow> string \<Rightarrow> 'f repeater \<Rightarrow> 'f repeater" where
  "addFilter removeOtherFilters label expr thisId r =
     (let r1 = (if removeOtherFilters then removeFilter [] r else r)
      in r1\<lparr>filters := filters r1 @ [\<lparr>filter_expr = expr, this_id = thisId, filter_label = label\<rparr>]\<rparr>)"

text \<open>The first sort of the column goes; its direction is turned when the new one is to toggle.\<close>

definition addSort :: "string \<Rightarrow> string \<Rightarrow> bool \<Rightarrow> bool \<Rightarrow> string \<Rightarrow> 'f repeater \<Rightarrow> 'f repeater" where
  "addSort label column asc toggle type r =
     (let (kept, asc1) =
        (case find (\<lambda>s. columnName s = column) (sorts r) of
           None \<Rightarrow> (sorts r, asc)
         | Some old \<Rightarrow> (remove1 old (sorts r), if toggle then \<not> ascending old else asc))
      in r\<lparr>sorts := kept @ [\<lparr>columnName = column, ascending = asc1, sortType = type, sort_label = label\<rparr>]\<rparr>)"

definition removeSort :: "string \<Rightarrow> 'f repeater \<Rightarrow> 'f repeater" where
  "removeSort label r =
     (if label = [] then r\<lparr>sorts := []\<rparr>
      else r\<lparr>sorts := filter (\<lambda>s. \<not> (sort_label s \<noteq> [] \<and> sort_label s = label)) (sorts r)\<rparr>)"

text \<open>The test of a filter is a function of the element in which it was set and of the number of the item.\<close>

definition applyFilter :: "('f \<Rightarrow> string \<Rightarrow> nat \<Rightarrow> bool) \<Rightarrow> 'f filter_obj list \<Rightarrow> (nat \<times> row) list \<Rightarrow> (nat \<times> row) list" where
  "applyFilter holds fs data =
     (if fs = [] then data
      else map snd (filter (\<lambda>(i, d). list_all (\<lambda>f. holds (filter_expr f) (this_id f) i) fs)
             (zip [1..<length data + 1] data)))"

fun merge :: "('a \<Rightarrow> 'a \<Rightarrow> int) \<Rightarrow> 'a list \<Rightarrow> 'a list \<Rightarrow> 'a list" where
  "merge compare [] ys = ys"
| "merge compare xs [] = xs"
| "merge compare (x # xs) (y # ys) =
     (if compare x y > 0 then y # merge compare (x # xs) ys else x # merge compare xs (y # ys))"

fun mergesort :: "('a \<Rightarrow> 'a \<Rightarrow> int) \<Rightarrow> 'a list \<Rightarrow> 'a list" where
  "mergesort compare xs =
     (if length xs \<le> 1 then xs
      else let m = length xs div 2 in merge compare (mergesort compare (take m xs)) (mergesort compare (drop m xs)))"

declare mergesort.simps [simp del]

text \<open>The order of texts by their UTF-16 units.\<close>

definition text_less :: "units \<Rightarrow> units \<Rightarrow> bool" where
  "text_less s t = ord_class.lexordp s t"

definition daysPerMonth :: "double \<Rightarrow> double \<Rightarrow> rat" where
  "daysPerMonth month year =
     (if month \<in> {Fin 9, Fin 4, Fin 6, Fin 11} then 30
      else if month \<noteq> Fin 2 then 31
      else if mod_double year (Fin 4) \<noteq> Fin 0 then 28
      else if mod_double year (Fin 100) \<noteq> Fin 0 then 29
      else if mod_double year (Fin 400) = Fin 0 then 29 else 28)"

text \<open>A date that is valid: its year, month and day.\<close>

definition valid_date :: "double \<Rightarrow> double \<Rightarrow> double \<Rightarrow> (double \<times> double \<times> double) option" where
  "valid_date year month day =
     (if year \<noteq> NotANumber \<and> less_double (Fin 0) month \<and> (less_double month (Fin 12) \<or> month = Fin 12) \<and>
         less_double (Fin 0) day \<and> (less_double day (Fin (daysPerMonth month year)) \<or> day = Fin (daysPerMonth month year))
      then Some (year, month, day) else None)"

definition sections :: "units \<Rightarrow> units list" where
  "sections text = (let s = split_on 45 text in if length s = 1 then split_on 47 text else s)"

definition number_of_text :: "units \<Rightarrow> double" where
  "number_of_text s = double_of_number (string_to_number s)"

definition getDate1 :: "units \<Rightarrow> (double \<times> double \<times> double) option" where
  "getDate1 text =
     (case sections text of
        [a, b, c] \<Rightarrow> valid_date (number_of_text a) (number_of_text b) (number_of_text c)
      | _ \<Rightarrow> None)"

definition getDate2 :: "units \<Rightarrow> (double \<times> double \<times> double) option" where
  "getDate2 text =
     (case sections text of
        [a, b, c] \<Rightarrow> valid_date (number_of_text c) (number_of_text a) (number_of_text b)
      | _ \<Rightarrow> None)"

definition sign_of :: "bool \<Rightarrow> int" where
  "sign_of b = (if b then 1 else -1)"

definition compare_numbers :: "bool \<Rightarrow> double \<Rightarrow> double \<Rightarrow> int" where
  "compare_numbers asc x y =
     (if x = NotANumber \<and> y = NotANumber then 0
      else if x = NotANumber \<or> y = NotANumber then sign_of (x = NotANumber)
      else sign_of (less_double x y \<noteq> asc))"

text \<open>The years, then the months, then the days; the difference of two infinite years is not 0 and not positive.\<close>

definition compare_dates :: "bool \<Rightarrow> (double \<times> double \<times> double) option \<Rightarrow> (double \<times> double \<times> double) option \<Rightarrow> int" where
  "compare_dates asc d1 d2 =
     (case (d1, d2) of
        (None, None) \<Rightarrow> 0
      | (Some d, None) \<Rightarrow> -1
      | (None, Some d) \<Rightarrow> 1
      | (Some (y1, m1, e1), Some (y2, m2, e2)) \<Rightarrow>
          let minus = (\<lambda>a b. add_double a (minus_double b));
              diff1 = minus y2 y1;
              diff2 = (if diff1 = Fin 0 then minus m2 m1 else diff1);
              diff3 = (if diff2 = Fin 0 then minus e2 e1 else diff2)
          in if diff3 = Fin 0 then 0 else sign_of (less_double (Fin 0) diff3 \<noteq> asc))"

definition getComparator ::
  "(units \<Rightarrow> units) \<Rightarrow> sort_obj \<Rightarrow> ((nat \<times> row) \<Rightarrow> (nat \<times> row) \<Rightarrow> int) option \<Rightarrow> (nat \<times> row) \<Rightarrow> (nat \<times> row) \<Rightarrow> int" where
  "getComparator lower s compare row1 row2 =
     (case (snd row1 (columnName s), snd row2 (columnName s)) of
        (Some c1, Some c2) \<Rightarrow>
          let text1 = (if sortType s = ''Text'' then lower (cell_text c1) else cell_text c1);
              text2 = (if sortType s = ''Text'' then lower (cell_text c2) else cell_text c2)
          in if text1 = text2 then (case compare of Some f \<Rightarrow> f row1 row2 | None \<Rightarrow> 0)
             else if sortType s = ''Text'' \<or> sortType s = ''Text (Case Sensitive)'' then sign_of (text_less text1 text2 \<noteq> ascending s)
             else if sortType s = ''Number'' then compare_numbers (ascending s) (number_of_text text1) (number_of_text text2)
             else if sortType s = ''Date - YYYY-MM-DD'' then compare_dates (ascending s) (getDate1 text1) (getDate1 text2)
             else if sortType s = ''Date - MM/DD/YYYY'' then compare_dates (ascending s) (getDate2 text1) (getDate2 text2)
             else 0
      | _ \<Rightarrow> 0)"

definition compareFunc :: "(units \<Rightarrow> units) \<Rightarrow> sort_obj list \<Rightarrow> ((nat \<times> row) \<Rightarrow> (nat \<times> row) \<Rightarrow> int) option" where
  "compareFunc lower ss = fold (\<lambda>s c. Some (getComparator lower s c)) ss None"

text \<open>The rows as they are shown; their identifiers are their indices in the data set.\<close>

definition getOrderedIds :: "(units \<Rightarrow> units) \<Rightarrow> ('f \<Rightarrow> string \<Rightarrow> nat \<Rightarrow> bool) \<Rightarrow> 'f repeater \<Rightarrow> 'f repeater \<times> nat list" where
  "getOrderedIds lower holds r =
     (let data = applyFilter holds (filters r) (getActiveDataSet r);
          data1 = (case compareFunc lower (sorts r) of
                     Some c \<Rightarrow> if length data > 1 then mergesort c data else data
                   | None \<Rightarrow> data)
      in (r\<lparr>active := data1\<rparr>, map fst data1))"

section \<open>Pages\<close>

definition ceiling_div :: "int \<Rightarrow> int \<Rightarrow> int" where
  "ceiling_div a b = - ((- a) div b)"

text \<open>Start and end of the rows of a page; a page behind the last one becomes the last one.\<close>

definition getVisibleDataBounds :: "page_info \<Rightarrow> int \<Rightarrow> page_info \<times> int \<times> int" where
  "getVisibleDataBounds p count =
     (case p of
        NoLimit \<Rightarrow> (p, 0, count)
      | Limited n c \<Rightarrow>
          let c1 = (if n * c - n \<ge> count then (let l = (count - 1) div n + 1 in if l \<le> 0 then 1 else l) else c)
          in (Limited n c1, n * c1 - n, min (n * c1) count))"

definition getVisibleDataCount :: "'f repeater \<Rightarrow> 'f repeater \<times> int" where
  "getVisibleDataCount r =
     (case getVisibleDataBounds (page r) (int (length (active r))) of (p, s, e) \<Rightarrow> (r\<lparr>page := p\<rparr>, e - s))"

definition getItemCount :: "'f repeater \<Rightarrow> int" where
  "getItemCount r =
     (let data = int (length (active r))
      in case page r of
           NoLimit \<Rightarrow> data
         | Limited n c \<Rightarrow> let s = min data (n * c); e = min data (s + n) in e - s)"

definition getDataCount :: "'f repeater \<Rightarrow> nat" where
  "getDataCount r = length (dataset r)"

definition getFilteredDataCount :: "'f repeater \<Rightarrow> nat" where
  "getFilteredDataCount r = length (active r)"

definition getPageCount :: "'f repeater \<Rightarrow> int" where
  "getPageCount r =
     (case page r of NoLimit \<Rightarrow> 1 | Limited n c \<Rightarrow> ceiling_div (int (getFilteredDataCount r)) n)"

definition getPageIndex :: "'f repeater \<Rightarrow> int" where
  "getPageIndex r = (case page r of NoLimit \<Rightarrow> 1 | Limited n c \<Rightarrow> c)"

text \<open>The index of an item on its page with whether it is the first, the last, an even and an odd one.\<close>

definition setDisplayProps :: "nat \<Rightarrow> 'f repeater \<Rightarrow> (int \<times> bool \<times> bool \<times> bool \<times> bool) option" where
  "setDisplayProps item r =
     (let len = int (length (active r));
          (s, e) = (case page r of NoLimit \<Rightarrow> (0, len) | Limited n c \<Rightarrow> let s = min len (n * (c - 1)) in (s, min len (s + n)));
          here = filter (\<lambda>i. fst (active r ! nat (s + i)) = item) (upto 0 (e - s - 1))
      in if here = [] then None
         else let i = List.last here + 1 in Some (i, i = 1, i = e - s, i mod 2 = 0, i mod 2 = 1))"

datatype page_move =
  To_value "int option"
| Previous
| Next_page
| Last_page

text \<open>The value of \<open>To_value\<close> is \<open>None\<close> when it is not a number.\<close>

definition setRepeaterToPage :: "page_move \<Rightarrow> 'f repeater \<Rightarrow> 'f repeater" where
  "setRepeaterToPage m r =
     (case page r of
        NoLimit \<Rightarrow> r
      | Limited n c \<Rightarrow>
          let lastPage = max 1 (ceiling_div (int (length (active r))) n)
          in r\<lparr>page := Limited n
                (case m of
                   To_value None \<Rightarrow> 1
                 | To_value (Some v) \<Rightarrow> if v < 1 then 1 else if v > lastPage then lastPage else v
                 | Previous \<Rightarrow> if c > 1 then c - 1 else c
                 | Next_page \<Rightarrow> if c < lastPage then c + 1 else c
                 | Last_page \<Rightarrow> lastPage)\<rparr>)"

definition setNoItemLimit :: "'f repeater \<Rightarrow> 'f repeater" where
  "setNoItemLimit r = r\<lparr>page := NoLimit\<rparr>"

definition setItemLimit :: "int option \<Rightarrow> 'f repeater \<Rightarrow> 'f repeater" where
  "setItemLimit v r =
     (let n = (case v of None \<Rightarrow> 20 | Some k \<Rightarrow> if k < 1 then 1 else k)
      in r\<lparr>page := Limited n (case page r of NoLimit \<Rightarrow> 1 | Limited m c \<Rightarrow> c)\<rparr>)"

text \<open>The identifiers of the rows that a refresh shows.\<close>

definition refresh_ids :: "(units \<Rightarrow> units) \<Rightarrow> ('f \<Rightarrow> string \<Rightarrow> nat \<Rightarrow> bool) \<Rightarrow> 'f repeater \<Rightarrow> 'f repeater \<times> nat list" where
  "refresh_ids lower holds r =
     (let (r1, ids) = getOrderedIds lower holds r; (p, s, e) = getVisibleDataBounds (page r1) (int (length ids))
      in (r1\<lparr>page := p\<rparr>, map (\<lambda>i. ids ! nat i) (upto s (e - 1))))"

section \<open>Items\<close>

text \<open>
  The identifier of an item: a number, or the decimal text of one where it comes from the identifier of an element.
  Two of them are the same for \<open>indexOf\<close> only when they have the same type, and two texts are compared as texts.
\<close>

datatype ident =
  Num nat
| Txt nat

fun ident_val :: "ident \<Rightarrow> nat" where
  "ident_val (Num n) = n"
| "ident_val (Txt n) = n"

fun ident_less :: "ident \<Rightarrow> ident \<Rightarrow> bool" where
  "ident_less (Txt m) (Txt n) = text_less (map of_char (dec m)) (map of_char (dec n))"
| "ident_less i j = (ident_val i < ident_val j)"

text \<open>What one event has deleted of a repeater so far.\<close>

record delete_map =
  deletedIds :: "ident list"
  idToRow :: "nat \<Rightarrow> row option"

definition no_deletes :: delete_map where
  "no_deletes = \<lparr>deletedIds = [], idToRow = (\<lambda>_. None)\<rparr>"

definition getRealItemId :: "delete_map option \<Rightarrow> ident \<Rightarrow> int" where
  "getRealItemId m i =
     (case m of
        None \<Rightarrow> int (ident_val i) - 1
      | Some d \<Rightarrow> int (ident_val i) - int (length (filter (\<lambda>j. ident_less j i) (deletedIds d))) - 1)"

text \<open>\<open>$ax.splice\<close> of one row: outside of the data set it takes none.\<close>

definition splice_row :: "int \<Rightarrow> row list \<Rightarrow> row option \<times> row list" where
  "splice_row i rows =
     (if 0 \<le> i \<and> i < int (length rows) then (Some (rows ! nat i), take (nat i) rows @ drop (nat i + 1) rows) else (None, rows))"

definition shift_marks :: "nat \<Rightarrow> nat list \<Rightarrow> nat list" where
  "shift_marks i marks = map (\<lambda>j. if j > i then j - 1 else j) (filter (\<lambda>j. j \<noteq> i) marks)"

definition delete_one :: "ident \<Rightarrow> 'f repeater \<times> delete_map \<Rightarrow> 'f repeater \<times> delete_map" where
  "delete_one i = (\<lambda>(r, d).
     if i \<in> set (deletedIds d) then (r, d)
     else
       let (old, rows) = splice_row (getRealItemId (Some d) i) (dataset r)
       in (r\<lparr>dataset := rows, edit_items := shift_marks (ident_val i) (edit_items r)\<rparr>,
           \<lparr>deletedIds = deletedIds d @ [i], idToRow = (idToRow d)(ident_val i := old)\<rparr>))"

datatype 'f items =
  This nat
| Marked
| Rule 'f

text \<open>The element of \<open>This\<close> belongs to an item. A rule sees the rows that are left, under their first numbers.\<close>

definition items_to_delete :: "('f \<Rightarrow> nat \<Rightarrow> bool) \<Rightarrow> 'f items \<Rightarrow> 'f repeater \<Rightarrow> delete_map \<Rightarrow> ident list" where
  "items_to_delete holds which r d =
     (case which of
        This n \<Rightarrow> [Txt n]
      | Marked \<Rightarrow> map Num (edit_items r)
      | Rule f \<Rightarrow> map Num (filter (\<lambda>n. Num n \<notin> set (deletedIds d) \<and> holds f n)
          [1..<length (dataset r) + length (deletedIds d) + 1]))"

definition deleteItemsFromDataSet ::
  "('f \<Rightarrow> nat \<Rightarrow> bool) \<Rightarrow> 'f items \<Rightarrow> 'f repeater \<times> delete_map \<Rightarrow> 'f repeater \<times> delete_map" where
  "deleteItemsFromDataSet holds which = (\<lambda>(r, d).
     fold delete_one (rev (sort_key ident_val (items_to_delete holds which r d))) (r, d))"

definition addItemToDataSet :: "row \<Rightarrow> 'f repeater \<Rightarrow> 'f repeater" where
  "addItemToDataSet row r = r\<lparr>dataset := dataset r @ [row]\<rparr>"

text \<open>
  A value for each property, for each item that is changed. \<open>None\<close> is the exception when an item has no row.
\<close>

definition update_cell :: "delete_map option \<Rightarrow> string \<Rightarrow> (ident \<Rightarrow> cell) \<Rightarrow> ident \<Rightarrow> row list \<Rightarrow> row list option" where
  "update_cell d prop f i rows =
     (let k = getRealItemId d i
      in if 0 \<le> k \<and> k < int (length rows) then Some (rows[nat k := (rows ! nat k)(prop \<mapsto> f i)]) else None)"

definition items_to_update :: "('f \<Rightarrow> nat \<Rightarrow> bool) \<Rightarrow> 'f items \<Rightarrow> 'f repeater \<Rightarrow> ident list" where
  "items_to_update holds which r =
     (case which of
        This n \<Rightarrow> [Txt n]
      | Marked \<Rightarrow> map Num (edit_items r)
      | Rule f \<Rightarrow> map Num (filter (holds f) [1..<length (dataset r) + 1]))"

definition updateEditItemsInDataSet ::
  "('f \<Rightarrow> nat \<Rightarrow> bool) \<Rightarrow> (string \<times> (ident \<Rightarrow> cell)) list \<Rightarrow> 'f items \<Rightarrow> delete_map option \<Rightarrow> 'f repeater \<Rightarrow> 'f repeater option" where
  "updateEditItemsInDataSet holds props which d r =
     map_option (\<lambda>rows. r\<lparr>dataset := rows\<rparr>)
       (fold (\<lambda>(prop, f) res. fold (\<lambda>i res. Option.bind res (update_cell d prop f i)) (items_to_update holds which r) res)
          props (Some (dataset r)))"

definition getAllItemIds :: "'f repeater \<Rightarrow> nat list" where
  "getAllItemIds r = [1..<length (dataset r) + 1]"

definition addEditItemToRepeater :: "nat list \<Rightarrow> 'f repeater \<Rightarrow> 'f repeater" where
  "addEditItemToRepeater ids r =
     r\<lparr>edit_items := fold (\<lambda>i marks. if i \<in> set marks then marks else marks @ [i]) ids (edit_items r)\<rparr>"

definition removeEditItemFromRepeater :: "nat list \<Rightarrow> 'f repeater \<Rightarrow> 'f repeater" where
  "removeEditItemFromRepeater ids r = r\<lparr>edit_items := fold remove1 ids (edit_items r)\<rparr>"

definition isEditItem :: "nat \<Rightarrow> 'f repeater \<Rightarrow> bool" where
  "isEditItem i r \<longleftrightarrow> i \<in> set (edit_items r)"

text \<open>The data of a cell: a text, or for \<open>data\<close> the whole cell when it is no text. Without the cell the text is empty.\<close>

datatype cell_data =
  Cell_text units
| Whole cell

definition empty_cell :: cell where
  "empty_cell = \<lparr>cell_type = [], cell_text = [], cell_img = None, cell_prop = (\<lambda>_. None)\<rparr>"

definition truthy_text :: "units option \<Rightarrow> units \<Rightarrow> units" where
  "truthy_text t other = (case t of Some s \<Rightarrow> if s = [] then other else s | None \<Rightarrow> other)"

definition getDataFromDataSet ::
  "string \<Rightarrow> delete_map option \<Rightarrow> ident \<Rightarrow> string \<Rightarrow> string \<Rightarrow> 'f repeater \<Rightarrow> cell_data option" where
  "getDataFromDataSet sketchKey d i propName type r =
     (let deleted = (case d of None \<Rightarrow> None | Some m \<Rightarrow> idToRow m (ident_val i));
          k = getRealItemId d (Num (ident_val i));
          row = (case deleted of Some x \<Rightarrow> Some x
                 | None \<Rightarrow> if 0 \<le> k \<and> k < int (length (dataset r)) then Some (dataset r ! nat k) else None)
      in case row of
           None \<Rightarrow> None
         | Some x \<Rightarrow>
             let c = (case x propName of Some c \<Rightarrow> c | None \<Rightarrow> empty_cell)
             in Some (if type = ''data'' then (if cell_type c = ''text'' then Cell_text (cell_text c) else Whole c)
                      else if type = ''img''
                      then Cell_text (truthy_text (case cell_img c of Some m \<Rightarrow> m sketchKey | None \<Rightarrow> None) (cell_text c))
                      else Cell_text (if type = [] then cell_text c else truthy_text (cell_prop c type) (cell_text c))))"

section \<open>The identifiers of elements\<close>

definition createElementId :: "string \<Rightarrow> string \<Rightarrow> string" where
  "createElementId scriptId itemId =
     (if itemId = [] then scriptId
      else let i = index_of (CHR ''_'') scriptId
           in if i > -1 then substring scriptId 0 i @ ''-'' @ itemId @ ''_'' @ slice_from (i + 1) scriptId
              else scriptId @ ''-'' @ itemId)"

definition getScriptIdFromElementId :: "string \<Rightarrow> string" where
  "getScriptIdFromElementId elementId =
     (case split_on (CHR ''-'') elementId of
        a # b # _ \<Rightarrow> (case split_on (CHR ''_'') b of x # y # _ \<Rightarrow> a @ ''_'' @ y | _ \<Rightarrow> a)
      | a # _ \<Rightarrow> a
      | [] \<Rightarrow> [])"

definition getItemIdFromElementId :: "string \<Rightarrow> string" where
  "getItemIdFromElementId elementId =
     (case split_on (CHR ''-'') elementId of
        a # b # _ \<Rightarrow> hd (split_on (CHR ''_'') b)
      | _ \<Rightarrow> [])"

definition removeSuffixFromElementId :: "string \<Rightarrow> string" where
  "removeSuffixFromElementId i = hd (split_on (CHR ''_'') i)"

end
