(* ===== verification/RepeaterSort.thy ===== *)
theory RepeaterSort
  imports Repeater "HOL-Library.Multiset" "HOL-Library.List_Lexorder"
begin

text \<open>
  The merge sort of the repeater against the stable sort of the library: the rows are sorted by each of the sorts in
  the order in which these were added, and rows that a sort does not tell apart keep the order they had before it.
\<close>

section \<open>Stable sorting\<close>

text \<open>\<open>ys\<close> is \<open>xs\<close> sorted, and elements that are equal in the order stand as in \<open>xs\<close>.\<close>

definition tied :: "('a \<Rightarrow> 'a \<Rightarrow> bool) \<Rightarrow> 'a \<Rightarrow> 'a \<Rightarrow> bool" where
  "tied le x y \<longleftrightarrow> le x y \<and> le y x"

definition stably_sorted :: "('a \<Rightarrow> 'a \<Rightarrow> bool) \<Rightarrow> 'a list \<Rightarrow> 'a list \<Rightarrow> bool" where
  "stably_sorted le xs ys \<longleftrightarrow>
     mset ys = mset xs \<and> sorted_wrt le ys \<and> (\<forall>x. filter (tied le x) ys = filter (tied le x) xs)"

lemma stably_sortedD:
  assumes "stably_sorted le xs ys"
  shows "mset ys = mset xs" and "set ys = set xs" and "sorted_wrt le ys" and "filter (tied le x) ys = filter (tied le x) xs"
  using assms by (auto simp: stably_sorted_def dest: mset_eq_setD)

locale total_preorder =
  fixes le :: "'a \<Rightarrow> 'a \<Rightarrow> bool"
  assumes total: "le x y \<or> le y x"
    and trans: "le x y \<Longrightarrow> le y z \<Longrightarrow> le x z"
begin

lemma le_self [simp]: "le x x"
  using total by blast

lemma heads_equal:
  assumes "stably_sorted le xs (a # as)" and "stably_sorted le xs (b # bs)"
  shows "a = b"
proof -
  have sets: "set (a # as) = set (b # bs)" using stably_sortedD(2) [OF assms(1)] stably_sortedD(2) [OF assms(2)] by simp
  have "le a z" if "z \<in> set (a # as)" for z using stably_sortedD(3) [OF assms(1)] that by auto
  moreover have "le b z" if "z \<in> set (b # bs)" for z using stably_sortedD(3) [OF assms(2)] that by auto
  ultimately have "tied le a b" using sets unfolding tied_def by (metis list.set_intros(1))
  moreover have "filter (tied le a) (a # as) = filter (tied le a) (b # bs)"
    using stably_sortedD(4) [OF assms(1), of a] stably_sortedD(4) [OF assms(2), of a] by metis
  ultimately show ?thesis by (simp add: tied_def)
qed

lemma unique:
  assumes "stably_sorted le xs ys" and "stably_sorted le xs zs"
  shows "ys = zs"
  using assms
proof (induction ys arbitrary: xs zs)
  case Nil
  then show ?case by (simp add: stably_sorted_def)
next
  case (Cons a as)
  obtain b bs where zs: "zs = b # bs" using Cons.prems by (cases zs) (auto simp: stably_sorted_def)
  have ab: "b = a" using heads_equal [OF Cons.prems(1)] Cons.prems(2) zs by metis
  have two: "mset (a # as) = mset (a # bs)" "sorted_wrt le as" "sorted_wrt le bs"
    "filter (tied le x) (a # as) = filter (tied le x) (a # bs)" for x
    using Cons.prems unfolding zs ab by (simp_all add: stably_sorted_def)
  have "filter (tied le x) bs = filter (tied le x) as" for x using two(4) [of x] by (simp split: if_splits)
  with two have "stably_sorted le as as" "stably_sorted le as bs" by (simp_all add: stably_sorted_def)
  with Cons.IH zs ab show ?case by blast
qed

lemma merge_elements: "mset (merge c xs ys) = mset xs + mset ys" "set (merge c xs ys) = set xs \<union> set ys"
  by (induction c xs ys rule: merge.induct) auto

lemma merge_sorted:
  assumes "sorted_wrt le xs" and "sorted_wrt le ys" and "\<forall>x \<in> set xs. \<forall>y \<in> set ys. c x y > 0 \<longleftrightarrow> \<not> le x y"
  shows "sorted_wrt le (merge c xs ys)"
  using assms
proof (induction c xs ys rule: merge.induct)
  case (3 c x xs y ys)
  have xs: "\<forall>w \<in> set xs. le x w" and ys: "\<forall>w \<in> set ys. le y w" using "3.prems" by simp_all
  show ?case
  proof (cases "c x y > 0")
    case True
    with "3.prems"(3) have "le y x" using total by auto
    then have "\<forall>w \<in> set xs. le y w" using xs trans by blast
    with True 3 ys \<open>le y x\<close> show ?thesis by (simp add: merge_elements ball_Un)
  next
    case False
    with "3.prems"(3) have "le x y" by auto
    then have "\<forall>w \<in> set ys. le x w" using ys trans by blast
    with False 3 xs \<open>le x y\<close> show ?thesis by (simp add: merge_elements ball_Un)
  qed
qed simp_all

lemma merge_stable:
  assumes "sorted_wrt le xs" and "sorted_wrt le ys" and "\<forall>x \<in> set xs. \<forall>y \<in> set ys. c x y > 0 \<longleftrightarrow> \<not> le x y"
  shows "filter (tied le z) (merge c xs ys) = filter (tied le z) xs @ filter (tied le z) ys"
  using assms
proof (induction c xs ys rule: merge.induct)
  case (3 c x xs y ys)
  show ?case
  proof (cases "c x y > 0")
    case True
    then have "\<not> le x y" using "3.prems" by simp
    moreover have "\<forall>w \<in> set (x # xs). le x w" using "3.prems"(1) by simp
    ultimately have "filter (tied le z) (x # xs) = []" if "tied le z y"
      using that trans unfolding filter_empty_conv tied_def by metis
    moreover have "filter (tied le z) (merge c (x # xs) ys) = filter (tied le z) (x # xs) @ filter (tied le z) ys"
      using 3 True by (intro "3.IH"(1)) auto
    ultimately show ?thesis using True by (cases "tied le z y") simp_all
  next
    case False
    then have "filter (tied le z) (merge c xs (y # ys)) = filter (tied le z) xs @ filter (tied le z) (y # ys)"
      using 3 by (intro "3.IH"(2)) auto
    with False show ?thesis by simp
  qed
qed simp_all

lemma mergesort_stable:
  assumes "\<forall>x \<in> set xs. \<forall>y \<in> set xs. c x y > 0 \<longleftrightarrow> \<not> le x y"
  shows "stably_sorted le xs (mergesort c xs)"
  using assms
proof (induction c xs rule: mergesort.induct)
  case (1 c xs)
  show ?case
  proof (cases "length xs \<le> 1")
    case True
    then have "xs = [] \<or> (\<exists>a. xs = [a])" by (cases xs) auto
    then show ?thesis by (auto simp: mergesort.simps stably_sorted_def)
  next
    case False
    let ?a = "take (length xs div 2) xs" and ?b = "drop (length xs div 2) xs"
    have sub: "set ?a \<subseteq> set xs" "set ?b \<subseteq> set xs" by (rule set_take_subset set_drop_subset)+
    have ab: "stably_sorted le ?a (mergesort c ?a)" "stably_sorted le ?b (mergesort c ?b)"
      using "1.IH" [OF False HOL.refl] "1.prems" sub by blast+
    note a = stably_sortedD [OF ab(1)] and b = stably_sortedD [OF ab(2)]
    have c: "\<forall>x \<in> set (mergesort c ?a). \<forall>y \<in> set (mergesort c ?b). c x y > 0 \<longleftrightarrow> \<not> le x y"
      unfolding a(2) b(2) using "1.prems" sub by blast
    have m: "mergesort c xs = merge c (mergesort c ?a) (mergesort c ?b)"
      using False by (subst mergesort.simps) (simp add: Let_def)
    have "mset ?a + mset ?b = mset xs" using mset_append [of ?a ?b] by simp
    moreover have "filter (tied le x) ?a @ filter (tied le x) ?b = filter (tied le x) xs" for x
      using filter_append [of "tied le x" ?a ?b] by simp
    ultimately show ?thesis unfolding m stably_sorted_def
      using merge_sorted [OF a(3) b(3) c] merge_stable [OF a(3) b(3) c]
      by (simp add: merge_elements a(1,4) b(1,4))
  qed
qed

end

section \<open>Sorts by text\<close>

definition sort_text :: "(units \<Rightarrow> units) \<Rightarrow> sort_obj \<Rightarrow> nat \<times> row \<Rightarrow> units" where
  "sort_text lower s x =
     (case snd x (columnName s) of
        Some c \<Rightarrow> if sortType s = ''Text'' then lower (cell_text c) else cell_text c
      | None \<Rightarrow> [])"

text \<open>The stable sort of the library by one sort, upwards or downwards.\<close>

definition sort_by :: "(units \<Rightarrow> units) \<Rightarrow> sort_obj \<Rightarrow> (nat \<times> row) list \<Rightarrow> (nat \<times> row) list" where
  "sort_by lower s xs =
     (if ascending s then sort_key (sort_text lower s) xs else rev (sort_key (sort_text lower s) (rev xs)))"

text \<open>The order of several sorts, the last one added first.\<close>

fun before :: "(units \<Rightarrow> units) \<Rightarrow> sort_obj list \<Rightarrow> nat \<times> row \<Rightarrow> nat \<times> row \<Rightarrow> bool" where
  "before lower [] x y = True"
| "before lower (s # ss) x y =
     (sort_text lower s x = sort_text lower s y \<and> before lower ss x y \<or>
      (if ascending s then sort_text lower s x < sort_text lower s y else sort_text lower s y < sort_text lower s x))"

interpretation by_sorts: total_preorder "before lower ss" for lower ss
proof
  show "before lower ss x y \<or> before lower ss y x" for x y
    by (induction ss) auto
  show "before lower ss x z" if "before lower ss x y" "before lower ss y z" for x y z
    using that by (induction ss) (auto split: if_splits)
qed

lemma sorted_within:
  assumes "sorted_wrt le zs" and "\<And>k. sorted_wrt R (filter (\<lambda>y. f y = k) zs)"
    and "\<And>x y. le x y \<Longrightarrow> f x = f y \<or> strict x y"
  shows "sorted_wrt (\<lambda>x y. f x = f y \<and> R x y \<or> strict x y) zs"
  using assms(1,2)
proof (induction zs)
  case (Cons z zs)
  have "sorted_wrt R (filter (\<lambda>y. f y = k) zs)" for k using Cons.prems(2) [of k] by (auto split: if_splits)
  with Cons have ih: "sorted_wrt (\<lambda>x y. f x = f y \<and> R x y \<or> strict x y) zs" by simp
  have "R z y" if "y \<in> set zs" "f y = f z" for y using Cons.prems(2) [of "f z"] that by auto
  with ih Cons.prems(1) assms(3) show ?case by fastforce
qed simp

lemma sort_by_stable:
  assumes "stably_sorted (before lower ss) xs ys"
  shows "stably_sorted (before lower (s # ss)) xs (sort_by lower s ys)"
proof -
  let ?f = "sort_text lower s" and ?zs = "sort_by lower s ys"
  have same: "filter (\<lambda>y. ?f y = k) ?zs = filter (\<lambda>y. ?f y = k) ys" for k
    by (simp add: sort_by_def rev_filter [symmetric] sort_key_stable)
  have sorted: "sorted_wrt (\<lambda>x y. if ascending s then ?f x \<le> ?f y else ?f y \<le> ?f x) ?zs"
  proof -
    have "sorted_wrt (\<lambda>x y. ?f x \<le> ?f y) (sort_key ?f l)" for l
      using sorted_sort_key [of ?f l] by (simp only: sorted_wrt_map)
    then show ?thesis by (simp add: sort_by_def sorted_wrt_rev)
  qed
  have "sorted_wrt (before lower ss) (filter (\<lambda>y. ?f y = k) ?zs)" for k
    using assms unfolding same by (simp add: stably_sorted_def sorted_wrt_filter)
  then have "sorted_wrt (\<lambda>x y. ?f x = ?f y \<and> before lower ss x y \<or> (if ascending s then ?f x < ?f y else ?f y < ?f x)) ?zs"
    by (rule sorted_within [OF sorted]) (auto simp: le_less split: if_splits)
  moreover have "before lower (s # ss) =
      (\<lambda>x y. ?f x = ?f y \<and> before lower ss x y \<or> (if ascending s then ?f x < ?f y else ?f y < ?f x))"
    by (intro ext) simp
  ultimately have "sorted_wrt (before lower (s # ss)) ?zs" by (simp only:)
  moreover have "mset ?zs = mset xs" using assms by (simp add: sort_by_def stably_sorted_def)
  moreover have "filter (tied (before lower (s # ss)) x) ?zs = filter (tied (before lower (s # ss)) x) xs" for x
  proof -
    have both: "tied (before lower (s # ss)) x = (\<lambda>y. tied (before lower ss) x y \<and> ?f y = ?f x)"
      by (rule ext) (auto simp: tied_def)
    have "filter (tied (before lower (s # ss)) x) ?zs = filter (tied (before lower ss) x) (filter (\<lambda>y. ?f y = ?f x) ?zs)"
      by (simp add: both conj_commute)
    also have "\<dots> = filter (\<lambda>y. ?f y = ?f x) (filter (tied (before lower ss) x) ys)"
      unfolding same by (simp add: conj_commute)
    also have "\<dots> = filter (tied (before lower (s # ss)) x) xs"
      unfolding stably_sortedD(4) [OF assms] by (simp add: both conj_commute)
    finally show ?thesis .
  qed
  ultimately show ?thesis by (simp add: stably_sorted_def)
qed

section \<open>The rows of the repeater\<close>

definition text_sort :: "sort_obj \<Rightarrow> bool" where
  "text_sort s \<longleftrightarrow> sortType s = ''Text'' \<or> sortType s = ''Text (Case Sensitive)''"

lemma text_less_order: "text_less s t \<longleftrightarrow> s < t"
  by (simp add: text_less_def list_less_def lexordp_conv_lexord)

lemma comparator_before:
  assumes "text_sort s" and "snd x (columnName s) \<noteq> None" and "snd y (columnName s) \<noteq> None"
    and "(case c of Some f \<Rightarrow> f x y > 0 | None \<Rightarrow> False) \<longleftrightarrow> \<not> before lower ss x y"
  shows "getComparator lower s c x y > 0 \<longleftrightarrow> \<not> before lower (s # ss) x y"
proof -
  obtain c1 c2 where cells: "snd x (columnName s) = Some c1" "snd y (columnName s) = Some c2" using assms(2,3) by auto
  have "(if sortType s = ''Text'' then lower (cell_text c1) else cell_text c1) = sort_text lower s x"
    "(if sortType s = ''Text'' then lower (cell_text c2) else cell_text c2) = sort_text lower s y"
    by (simp_all add: sort_text_def cells)
  then have "getComparator lower s c x y =
    (if sort_text lower s x = sort_text lower s y then (case c of Some f \<Rightarrow> f x y | None \<Rightarrow> 0)
     else sign_of ((sort_text lower s x < sort_text lower s y) \<noteq> ascending s))"
    using assms(1) by (simp only: getComparator_def cells option.case prod.case Let_def text_sort_def text_less_order) auto
  with assms(4) show ?thesis by (auto simp: sign_of_def split: option.splits)
qed

lemma compareFunc_snoc: "compareFunc lower (ss @ [s]) = Some (getComparator lower s (compareFunc lower ss))"
  by (simp add: compareFunc_def)

lemma compareFunc_before:
  assumes "list_all text_sort ss" and "\<forall>s \<in> set ss. snd x (columnName s) \<noteq> None \<and> snd y (columnName s) \<noteq> None"
  shows "(case compareFunc lower ss of Some f \<Rightarrow> f x y > 0 | None \<Rightarrow> False) \<longleftrightarrow> \<not> before lower (rev ss) x y"
  using assms
proof (induction ss rule: rev_induct)
  case Nil
  then show ?case by (simp add: compareFunc_def)
next
  case (snoc s ss)
  then show ?case by (simp add: compareFunc_snoc comparator_before)
qed

lemma sorts_stable: "stably_sorted (before lower (rev ss)) xs (fold (sort_by lower) ss xs)"
proof (induction ss rule: rev_induct)
  case Nil
  have "sorted_wrt (\<lambda>x y. True) xs" by (induction xs) auto
  then show ?case by (simp add: stably_sorted_def tied_def)
next
  case (snoc s ss)
  then show ?case by (simp add: sort_by_stable del: before.simps)
qed

lemma active_rows: "x \<in> set (getActiveDataSet r) \<Longrightarrow> snd x \<in> set (dataset r)"
  unfolding getActiveDataSet_def by (cases x) (auto dest: set_zip_rightD simp del: upt_Suc)

lemma filtered_rows: "set (applyFilter holds fs data) \<subseteq> set data"
  unfolding applyFilter_def by (auto simp del: upt_Suc dest: set_zip_rightD)

text \<open>
  C30: when all sorts compare texts and every row has the columns of the sorts, the rows that pass the filters
  are shown as the stable sort of the library leaves them when it sorts by each of the sorts, in the order in which
  these were added.
\<close>

theorem rows_sorted:
  assumes "list_all text_sort (sorts r)" and "\<forall>x \<in> set (dataset r). \<forall>s \<in> set (sorts r). x (columnName s) \<noteq> None"
  shows "snd (getOrderedIds lower holds r) =
    map fst (fold (sort_by lower) (sorts r) (applyFilter holds (filters r) (getActiveDataSet r)))"
proof -
  let ?data = "applyFilter holds (filters r) (getActiveDataSet r)"
  have rows: "snd x \<in> set (dataset r)" if "x \<in> set ?data" for x
    using that filtered_rows active_rows by blast
  then have c: "(case compareFunc lower (sorts r) of Some f \<Rightarrow> f x y > 0 | None \<Rightarrow> False) \<longleftrightarrow> \<not> before lower (rev (sorts r)) x y"
    if "x \<in> set ?data" "y \<in> set ?data" for x y
    using that assms by (intro compareFunc_before) blast+
  have "(case compareFunc lower (sorts r) of Some f \<Rightarrow> if length ?data > 1 then mergesort f ?data else ?data | None \<Rightarrow> ?data) =
      fold (sort_by lower) (sorts r) ?data"
  proof (cases "compareFunc lower (sorts r)")
    case None
    then have "sorts r = []" by (cases "sorts r" rule: rev_cases) (simp_all add: compareFunc_snoc)
    then show ?thesis by (simp add: compareFunc_def)
  next
    case (Some f)
    have "stably_sorted (before lower (rev (sorts r))) ?data (mergesort f ?data)"
      using c Some by (intro by_sorts.mergesort_stable) auto
    with by_sorts.unique sorts_stable have m: "mergesort f ?data = fold (sort_by lower) (sorts r) ?data" by blast
    have "mergesort f ?data = ?data" if "\<not> length ?data > 1" using that by (simp add: mergesort.simps)
    with m Some show ?thesis by auto
  qed
  then show ?thesis by (simp add: getOrderedIds_def Let_def)
qed

definition text_row :: "units \<Rightarrow> units \<Rightarrow> row" where
  "text_row a b =
     [''name'' \<mapsto> \<lparr>cell_type = ''text'', cell_text = a, cell_img = None, cell_prop = \<lambda>_. None\<rparr>,
      ''city'' \<mapsto> \<lparr>cell_type = ''text'', cell_text = b, cell_img = None, cell_prop = \<lambda>_. None\<rparr>]"

definition three_rows :: "unit repeater" where
  "three_rows =
     \<lparr>dataset = [text_row [98] [100], text_row [97] [101], text_row [98] [99]], active = [], filters = [],
      sorts = [\<lparr>columnName = ''city'', ascending = True, sortType = ''Text'', sort_label = []\<rparr>,
               \<lparr>columnName = ''name'', ascending = False, sortType = ''Text (Case Sensitive)'', sort_label = []\<rparr>],
      page = NoLimit, edit_items = []\<rparr>"

lemma rows_sorted_witness: "snd (getOrderedIds id (\<lambda>_ _ _. True) three_rows) = [3, 1, 2]"
proof -
  have "snd (getOrderedIds id (\<lambda>_ _ _. True) three_rows) =
    map fst (fold (sort_by id) (sorts three_rows)
      (applyFilter (\<lambda>_ _ _. True) (filters three_rows) (getActiveDataSet three_rows)))"
    by (rule rows_sorted) (simp_all add: three_rows_def text_sort_def text_row_def)
  also have "\<dots> = [3, 1, 2]"
    by (simp add: three_rows_def text_row_def applyFilter_def getActiveDataSet_def sort_by_def sort_text_def upt_conv_Cons
        sort_key_def)
  finally show ?thesis .
qed

end
