(* ===== verification/RepeaterProps.thy ===== *)
theory RepeaterProps
  imports Repeater
begin

text \<open>
  The pages of a repeater hold each of its rows once. Within one event an item keeps its number: the rows that are
  read under it are the ones from before the rows that the event has deleted. The identifiers of elements give back
  the widget and the item they were made of.
\<close>

section \<open>Pages\<close>

lemma concat_parts: "concat (map (\<lambda>k. take n (drop (n * k) xs)) [0..<m]) = take (n * m) xs"
proof (induction m)
  case (Suc m)
  have "take (n * m + n) xs = take (n * m) xs @ take n (drop (n * m) xs)" by (rule take_add)
  with Suc show ?case by (simp add: add.commute)
qed simp

lemma part_of_bounds:
  assumes "0 \<le> s" and "s \<le> e" and "e \<le> int (length xs)"
  shows "map (\<lambda>i. xs ! nat i) (upto s (e - 1)) = take (nat e - nat s) (drop (nat s) xs)"
proof (rule nth_equalityI)
  show "length (map (\<lambda>i. xs ! nat i) (upto s (e - 1))) = length (take (nat e - nat s) (drop (nat s) xs))"
    using assms by (simp add: nat_diff_distrib)
  fix i assume "i < length (map (\<lambda>i. xs ! nat i) (upto s (e - 1)))"
  then have "int i < e - s" by simp
  then show "map (\<lambda>i. xs ! nat i) (upto s (e - 1)) ! i = take (nat e - nat s) (drop (nat s) xs) ! i"
    using assms by (simp add: nth_upto nat_add_distrib)
qed

lemma ceiling_div_last: "1 \<le> n \<Longrightarrow> c \<le> ceiling_div a n \<longleftrightarrow> n * c - n < a" for n c a :: int
proof -
  assume n: "1 \<le> n"
  define q where "q = (- a) div n"
  have a: "- a = n * q + (- a) mod n" "0 \<le> (- a) mod n" "(- a) mod n < n" using n by (simp_all add: q_def)
  have "q \<le> - c \<longleftrightarrow> - a < n - n * c"
  proof
    assume "q \<le> - c"
    then have "n * q \<le> n * (- c)" using n by (intro mult_left_mono) auto
    with a show "- a < n - n * c" by simp
  next
    assume "- a < n - n * c"
    then have "n * q < n * (1 - c)" using a by (simp add: algebra_simps)
    then show "q \<le> - c" using n by simp
  qed
  then show ?thesis unfolding ceiling_div_def q_def by linarith
qed

lemma page_bounds:
  assumes "1 \<le> n" and "1 \<le> c" and "c \<le> ceiling_div m n"
  shows "getVisibleDataBounds (Limited n c) m = (Limited n c, n * (c - 1), min (n * c) m)"
  using assms ceiling_div_last [of n c m] by (simp add: getVisibleDataBounds_def Let_def algebra_simps)

lemma page_rows:
  assumes "1 \<le> n" and "1 \<le> c" and "c \<le> ceiling_div (int (length ids)) n"
  shows "(case getVisibleDataBounds (Limited n c) (int (length ids)) of (p, s, e) \<Rightarrow> map (\<lambda>i. ids ! nat i) (upto s (e - 1))) =
    take (nat n) (drop (nat n * nat (c - 1)) ids)"
proof -
  let ?s = "n * (c - 1)" and ?e = "min (n * c) (int (length ids))"
  have "0 \<le> ?s" "?s \<le> ?e" using assms ceiling_div_last [of n c "int (length ids)"] by (auto simp: algebra_simps)
  then have "map (\<lambda>i. ids ! nat i) (upto ?s (?e - 1)) = take (nat ?e - nat ?s) (drop (nat ?s) ids)"
    by (intro part_of_bounds) auto
  moreover have "nat ?s = nat n * nat (c - 1)" using assms(1,2) by (simp add: nat_mult_distrib)
  moreover have "nat (n * c) - nat ?s = nat n"
  proof -
    have "n * c = ?s + n" by (simp add: algebra_simps)
    then show ?thesis using assms \<open>0 \<le> ?s\<close> by (simp add: nat_add_distrib)
  qed
  moreover have "take (nat ?e - k) (drop k ids) = take (nat (n * c) - k) (drop k ids)" for k
    by (cases "n * c \<le> int (length ids)") (simp_all add: min_def)
  ultimately show ?thesis using assms by (simp add: page_bounds)
qed

text \<open>
  C31: with at least one item on a page, the pages from the first to the last, one after the other, are
  the rows that pass the filters in the order of the sorts: no row is missing and none is on two pages.
\<close>

theorem pages_partition:
  assumes "1 \<le> n" and "getOrderedIds lower holds r = (r1, ids)"
  shows "concat (map (\<lambda>c. snd (refresh_ids lower holds (r\<lparr>page := Limited n c\<rparr>)))
    [1..getPageCount (r1\<lparr>page := Limited n 1\<rparr>)]) = ids"
proof -
  let ?last = "ceiling_div (int (length ids)) n"
  have same: "getOrderedIds lower holds (r\<lparr>page := p\<rparr>) = (r1\<lparr>page := p\<rparr>, ids)" for p
    using assms(2) by (auto simp: getOrderedIds_def getActiveDataSet_def Let_def)
  have "length (active r1) = length ids" using assms(2) by (auto simp: getOrderedIds_def Let_def)
  then have count: "getPageCount (r1\<lparr>page := Limited n 1\<rparr>) = ?last" by (simp add: getPageCount_def getFilteredDataCount_def)
  have "snd (refresh_ids lower holds (r\<lparr>page := Limited n c\<rparr>)) = take (nat n) (drop (nat n * nat (c - 1)) ids)"
    if "c \<in> {1..?last}" for c
    using that page_rows [of n c ids] assms(1) unfolding refresh_ids_def same by (auto split: prod.splits)
  then have "concat (map (\<lambda>c. snd (refresh_ids lower holds (r\<lparr>page := Limited n c\<rparr>))) [1..?last]) =
    concat (map (\<lambda>c. take (nat n) (drop (nat n * nat (c - 1)) ids)) [1..?last])"
    by (intro arg_cong [of _ _ concat] map_cong) auto
  also have pages: "[1..?last] = map (\<lambda>k. int k + 1) [0..<nat ?last]"
    by (rule nth_equalityI) (simp_all add: nth_upto)
  also have "concat (map (\<lambda>c. take (nat n) (drop (nat n * nat (c - 1)) ids)) \<dots>) = take (nat n * nat ?last) ids"
    using concat_parts [of "nat n" ids "nat ?last"] by (simp add: comp_def)
  also have "\<dots> = ids"
  proof -
    have "int (length ids) \<le> n * ?last"
      using assms(1) ceiling_div_last [of n "?last + 1" "int (length ids)"] by (simp add: algebra_simps)
    then have "length ids \<le> nat n * nat ?last"
      using assms(1) by (simp add: nat_mult_distrib [symmetric] nat_le_iff del: nat_mult_distrib)
    then show ?thesis by simp
  qed
  finally show ?thesis unfolding count pages .
qed

definition five_rows :: "unit repeater" where
  "five_rows =
     \<lparr>dataset = replicate 5 (\<lambda>_. None), active = zip [1..<6] (replicate 5 (\<lambda>_. None)), filters = [], sorts = [],
      page = Limited 2 1, edit_items = [2, 4]\<rparr>"

lemma five_rows_ids: "getOrderedIds id (\<lambda>_ _ _. True) five_rows = (five_rows, [1, 2, 3, 4, 5])"
  by (simp add: getOrderedIds_def five_rows_def getActiveDataSet_def applyFilter_def compareFunc_def upt_conv_Cons
      numeral_nat)

lemma pages_partition_witness:
  "concat (map (\<lambda>c. snd (refresh_ids id (\<lambda>_ _ _. True) (five_rows\<lparr>page := Limited 2 c\<rparr>))) [1..3]) = [1, 2, 3, 4, 5]"
proof -
  have "getPageCount (five_rows\<lparr>page := Limited 2 1\<rparr>) = 3"
    by (simp add: getPageCount_def getFilteredDataCount_def five_rows_def ceiling_div_def)
  with pages_partition [OF _ five_rows_ids, of 2] show ?thesis by simp
qed

text \<open>The number of items on the page, as expressions ask for it, is the number on the page that follows.\<close>

lemma items_of_next_page: "snd (getVisibleDataCount (five_rows\<lparr>page := Limited 2 2\<rparr>)) = 2 \<and> getItemCount (five_rows\<lparr>page := Limited 2 2\<rparr>) = 1"
  by (simp add: getVisibleDataCount_def getVisibleDataBounds_def getItemCount_def five_rows_def)

section \<open>Rows that are deleted\<close>

text \<open>The number of deleted items before an item.\<close>

definition gone_before :: "nat \<Rightarrow> delete_map \<Rightarrow> nat" where
  "gone_before n d = length (filter (\<lambda>j. ident_val j < n) (deletedIds d))"

lemma real_id: "getRealItemId (Some d) (Num n) = int n - int (gone_before n d) - 1"
  by (simp add: getRealItemId_def gone_before_def)

text \<open>
  What one event has done so far to the rows it began with: each item that was deleted is a row of the map, each other
  one a row of the data set.
\<close>

definition event_view :: "row list \<Rightarrow> 'f repeater \<Rightarrow> delete_map \<Rightarrow> bool" where
  "event_view rows r d \<longleftrightarrow>
     distinct (deletedIds d) \<and> (\<forall>j \<in> set (deletedIds d). \<exists>n. j = Num n \<and> 1 \<le> n \<and> n \<le> length rows) \<and>
     length (dataset r) + length (deletedIds d) = length rows \<and>
     (\<forall>n. 1 \<le> n \<and> n \<le> length rows \<longrightarrow>
       (if Num n \<in> set (deletedIds d) then idToRow d n = Some (rows ! (n - 1))
        else idToRow d n = None \<and> dataset r ! nat (getRealItemId (Some d) (Num n)) = rows ! (n - 1)))"

lemma event_viewI:
  assumes "distinct (deletedIds d)" and "\<And>j. j \<in> set (deletedIds d) \<Longrightarrow> \<exists>n. j = Num n \<and> 1 \<le> n \<and> n \<le> length rows"
    and "length (dataset r) + length (deletedIds d) = length rows"
    and "\<And>n. 1 \<le> n \<Longrightarrow> n \<le> length rows \<Longrightarrow> Num n \<in> set (deletedIds d) \<Longrightarrow> idToRow d n = Some (rows ! (n - 1))"
    and "\<And>n. 1 \<le> n \<Longrightarrow> n \<le> length rows \<Longrightarrow> Num n \<notin> set (deletedIds d) \<Longrightarrow>
      idToRow d n = None \<and> dataset r ! nat (getRealItemId (Some d) (Num n)) = rows ! (n - 1)"
  shows "event_view rows r d"
  unfolding event_view_def
proof (intro conjI allI impI ballI)
  fix n assume n: "1 \<le> n \<and> n \<le> length rows"
  show "if Num n \<in> set (deletedIds d) then idToRow d n = Some (rows ! (n - 1))
      else idToRow d n = None \<and> dataset r ! nat (getRealItemId (Some d) (Num n)) = rows ! (n - 1)"
    using assms(4,5) [of n] n by (cases "Num n \<in> set (deletedIds d)") simp_all
qed (use assms(1-3) in blast)+

lemma event_viewD:
  assumes "event_view rows r d"
  shows "distinct (deletedIds d)" and "j \<in> set (deletedIds d) \<Longrightarrow> \<exists>n. j = Num n \<and> 1 \<le> n \<and> n \<le> length rows"
    and "length (dataset r) + length (deletedIds d) = length rows"
    and "1 \<le> n \<Longrightarrow> n \<le> length rows \<Longrightarrow> Num n \<in> set (deletedIds d) \<Longrightarrow> idToRow d n = Some (rows ! (n - 1))"
    and "1 \<le> n \<Longrightarrow> n \<le> length rows \<Longrightarrow> Num n \<notin> set (deletedIds d) \<Longrightarrow>
      idToRow d n = None \<and> dataset r ! nat (getRealItemId (Some d) (Num n)) = rows ! (n - 1)"
  using assms by (simp_all add: event_view_def)

lemma deleted_numbers:
  assumes "event_view rows r d"
  shows "distinct (map ident_val (deletedIds d))" and "set (map ident_val (deletedIds d)) \<subseteq> {1..length rows}"
    and "n \<in> ident_val ` set (deletedIds d) \<longleftrightarrow> Num n \<in> set (deletedIds d)"
proof -
  from assms have num: "\<forall>j \<in> set (deletedIds d). \<exists>n. j = Num n \<and> 1 \<le> n \<and> n \<le> length rows" and d: "distinct (deletedIds d)"
    by (simp_all add: event_view_def)
  have "inj_on ident_val (set (deletedIds d))" 
  proof (rule inj_onI)
    fix i j assume "i \<in> set (deletedIds d)" "j \<in> set (deletedIds d)" and eq: "ident_val i = ident_val j"
    then obtain m n where "i = Num m" "j = Num n" using num by blast
    with eq show "i = j" by simp
  qed
  with d show "distinct (map ident_val (deletedIds d))" by (simp add: distinct_map)
  show "set (map ident_val (deletedIds d)) \<subseteq> {1..length rows}" using num by force
  show "n \<in> ident_val ` set (deletedIds d) \<longleftrightarrow> Num n \<in> set (deletedIds d)"
  proof
    assume "n \<in> ident_val ` set (deletedIds d)"
    then obtain j where j: "j \<in> set (deletedIds d)" "n = ident_val j" by blast
    then obtain m where "j = Num m" using num by blast
    with j show "Num n \<in> set (deletedIds d)" by simp
  next
    assume "Num n \<in> set (deletedIds d)"
    from imageI [OF this, of ident_val] show "n \<in> ident_val ` set (deletedIds d)" by simp
  qed
qed

lemma gone_card:
  assumes "event_view rows r d"
  shows "gone_before n d = card {m \<in> ident_val ` set (deletedIds d). m < n}"
proof -
  have "gone_before n d = length (filter (\<lambda>m. m < n) (map ident_val (deletedIds d)))"
    by (simp add: gone_before_def filter_map comp_def)
  also have "\<dots> = card (set (filter (\<lambda>m. m < n) (map ident_val (deletedIds d))))"
    using deleted_numbers(1) [OF assms] by (metis distinct_card distinct_filter)
  also have "set (filter (\<lambda>m. m < n) (map ident_val (deletedIds d))) = {m \<in> ident_val ` set (deletedIds d). m < n}" by auto
  finally show ?thesis .
qed

text \<open>The place of an item that is left is in the data set, and the places are in the order of the items.\<close>

lemma places:
  assumes "event_view rows r d" and "1 \<le> n" and "n \<le> length rows" and "Num n \<notin> set (deletedIds d)"
  shows "gone_before n d + 1 \<le> n" and "n - gone_before n d - 1 < length (dataset r)"
    and "m < n \<Longrightarrow> 1 \<le> m \<Longrightarrow> Num m \<notin> set (deletedIds d) \<Longrightarrow> m - gone_before m d < n - gone_before n d"
proof -
  let ?D = "ident_val ` set (deletedIds d)"
  note D = deleted_numbers [OF assms(1)]
  have sub: "?D \<subseteq> {1..length rows}" using D(2) by simp
  have n: "n \<notin> ?D" using assms(4) D(3) by simp
  have "card {m \<in> ?D. m < n} \<le> card {1..<n}" using sub by (intro card_mono) auto
  then show one: "gone_before n d + 1 \<le> n" using assms(2) by (simp add: gone_card [OF assms(1)])
  have all: "card ?D = length (deletedIds d)"
    using D(1) distinct_card [of "map ident_val (deletedIds d)"] by simp
  have "?D = {m \<in> ?D. m < n} \<union> {m \<in> ?D. n < m}" using n by (auto simp: neq_iff)
  then have "card ?D = card {m \<in> ?D. m < n} + card {m \<in> ?D. n < m}"
    using card_Un_disjoint [of "{m \<in> ?D. m < n}" "{m \<in> ?D. n < m}"] by fastforce
  moreover have "card {m \<in> ?D. n < m} \<le> card {n<..length rows}" using sub by (intro card_mono) auto
  ultimately have "length (deletedIds d) \<le> gone_before n d + (length rows - n)"
    using all by (simp add: gone_card [OF assms(1)])
  with event_viewD(3) [OF assms(1)] one assms(3) show "n - gone_before n d - 1 < length (dataset r)" by linarith
  show "m - gone_before m d < n - gone_before n d" if m: "m < n" "1 \<le> m" "Num m \<notin> set (deletedIds d)"
  proof -
    have "m \<notin> ?D" using m(3) D(3) by simp
    then have "{k \<in> ?D. k < n} \<subseteq> {k \<in> ?D. k < m} \<union> {m<..<n}" by (auto simp: neq_iff)
    then have "card {k \<in> ?D. k < n} \<le> card ({k \<in> ?D. k < m} \<union> {m<..<n})" by (intro card_mono) auto
    also have "\<dots> \<le> card {k \<in> ?D. k < m} + card {m<..<n}" by (rule card_Un_le)
    finally have "gone_before n d \<le> gone_before m d + (n - m - 1)" by (simp add: gone_card [OF assms(1)])
    moreover have "gone_before m d + 1 \<le> m"
    proof -
      have "card {k \<in> ?D. k < m} \<le> card {1..<m}" using sub by (intro card_mono) auto
      then show ?thesis using m(2) by (simp add: gone_card [OF assms(1)])
    qed
    ultimately show ?thesis using m(1) by linarith
  qed
qed

lemma nth_removed:
  "j < length xs \<Longrightarrow> i < length xs \<Longrightarrow> j \<noteq> i \<Longrightarrow> (take i xs @ drop (i + 1) xs) ! (if i < j then j - 1 else j) = xs ! j"
  by (auto simp: nth_append)

lemma delete_one_view:
  assumes "event_view rows r d" and "1 \<le> i" and "i \<le> length rows"
  shows "case delete_one (Num i) (r, d) of (r', d') \<Rightarrow> event_view rows r' d'"
proof (cases "Num i \<in> set (deletedIds d)")
  case True
  then show ?thesis using assms by (simp add: delete_one_def)
next
  case False
  define k where "k = i - gone_before i d - 1"
  note pi = places [OF assms False]
  have real: "getRealItemId (Some d) (Num i) = int k" using pi(1) by (simp add: real_id k_def)
  have k: "k < length (dataset r)" using pi(2) by (simp add: k_def)
  have old: "dataset r ! k = rows ! (i - 1)" using event_viewD(5) [OF assms False] by (simp add: real)
  let ?rows = "take k (dataset r) @ drop (k + 1) (dataset r)"
  define r' where "r' = r\<lparr>dataset := ?rows, edit_items := shift_marks i (edit_items r)\<rparr>"
  define d' where "d' = \<lparr>deletedIds = deletedIds d @ [Num i], idToRow = (idToRow d)(i := Some (rows ! (i - 1)))\<rparr>"
  have step: "delete_one (Num i) (r, d) = (r', d')"
    using False k by (simp add: delete_one_def real splice_row_def old r'_def d'_def Let_def del: fun_upd_apply)
  have left: "?rows ! nat (getRealItemId (Some d') (Num n)) = rows ! (n - 1)"
    if n: "1 \<le> n" "n \<le> length rows" "Num n \<notin> set (deletedIds d)" "n \<noteq> i" for n
  proof -
    define j where "j = n - gone_before n d - 1"
    note pn = places [OF assms(1) n(1-3)]
    have "getRealItemId (Some d) (Num n) = int j" using pn(1) by (simp add: real_id j_def)
    then have "dataset r ! j = rows ! (n - 1)" using event_viewD(5) [OF assms(1) n(1-3)] by simp
    moreover have j: "j < length (dataset r)" using pn(2) by (simp add: j_def)
    moreover have order: "i < n \<Longrightarrow> k < j" "n < i \<Longrightarrow> j < k"
      using pn(3) [of i] pi(3) [of n] pn(1) pi(1) assms(2) n(1,3) False unfolding k_def j_def by linarith+
    moreover have "nat (getRealItemId (Some d') (Num n)) = (if k < j then j - 1 else j)"
    proof (cases "i < n")
      case True
      have "gone_before n d' = Suc (gone_before n d)" using True by (simp add: gone_before_def d'_def)
      then show ?thesis using order(1) [OF True] pn(1) by (simp add: real_id j_def)
    next
      case False
      then have "gone_before n d' = gone_before n d" by (simp add: gone_before_def d'_def)
      moreover have "\<not> k < j" using order(2) False n(4) by simp
      ultimately show ?thesis using pn(1) by (simp add: real_id j_def)
    qed
    moreover have "j \<noteq> k" using order n(4) by (cases "i < n") auto
    ultimately show ?thesis using nth_removed [OF j k] by simp
  qed
  have "event_view rows r' d'"
  proof (rule event_viewI)
    show "distinct (deletedIds d')" using event_viewD(1) [OF assms(1)] False by (simp add: d'_def)
    show "\<exists>n. j = Num n \<and> 1 \<le> n \<and> n \<le> length rows" if "j \<in> set (deletedIds d')" for j
      using that event_viewD(2) [OF assms(1)] assms(2,3) by (auto simp: d'_def)
    show "length (dataset r') + length (deletedIds d') = length rows"
      using event_viewD(3) [OF assms(1)] k by (simp add: r'_def d'_def)
    show "idToRow d' n = Some (rows ! (n - 1))" if "1 \<le> n" "n \<le> length rows" "Num n \<in> set (deletedIds d')" for n
      using that event_viewD(4) [OF assms(1)] by (auto simp: d'_def)
    show "idToRow d' n = None \<and> dataset r' ! nat (getRealItemId (Some d') (Num n)) = rows ! (n - 1)"
      if "1 \<le> n" "n \<le> length rows" "Num n \<notin> set (deletedIds d')" for n
    proof -
      have n: "Num n \<notin> set (deletedIds d)" "n \<noteq> i" using that(3) by (auto simp: d'_def)
      then have "idToRow d' n = None" using event_viewD(5) [OF assms(1) that(1,2)] by (simp add: d'_def)
      moreover have "dataset r' = ?rows" by (simp add: r'_def)
      ultimately show ?thesis using left [OF that(1,2) n] by simp
    qed
  qed
  then show ?thesis by (simp add: step)
qed

definition marks_in :: "row list \<Rightarrow> 'f repeater \<Rightarrow> bool" where
  "marks_in rows r \<longleftrightarrow> set (edit_items r) \<subseteq> {1..length rows}"

lemma delete_one_marks:
  "marks_in rows r \<Longrightarrow> 1 \<le> i \<Longrightarrow> case delete_one (Num i) (r, d) of (r', d') \<Rightarrow> marks_in rows r'"
  by (fastforce simp: delete_one_def marks_in_def shift_marks_def Let_def split: prod.splits if_splits)

lemma fold_delete_view:
  assumes "event_view rows (fst s) (snd s)" and "marks_in rows (fst s)" and "set ns \<subseteq> Num ` {1..length rows}"
  shows "event_view rows (fst (fold delete_one ns s)) (snd (fold delete_one ns s)) \<and> marks_in rows (fst (fold delete_one ns s))"
  using assms
proof (induction ns arbitrary: s)
  case (Cons j ns)
  then obtain i where i: "j = Num i" "1 \<le> i" "i \<le> length rows" by auto
  have "event_view rows (fst (delete_one j s)) (snd (delete_one j s))" "marks_in rows (fst (delete_one j s))"
    using delete_one_view [of rows "fst s" "snd s" i] delete_one_marks [of rows "fst s" i "snd s"] Cons.prems i
    by (auto simp: case_prod_beta)
  with Cons.IH Cons.prems(3) show ?case by simp
qed simp

lemma delete_view:
  assumes "event_view rows (fst s) (snd s)" and "marks_in rows (fst s)" and "\<And>n. w \<noteq> This n"
  shows "event_view rows (fst (deleteItemsFromDataSet holds w s)) (snd (deleteItemsFromDataSet holds w s)) \<and>
    marks_in rows (fst (deleteItemsFromDataSet holds w s))"
proof -
  have "set (items_to_delete holds w (fst s) (snd s)) \<subseteq> Num ` {1..length rows}"
  proof (cases w)
    case (Rule f)
    then show ?thesis using event_viewD(3) [OF assms(1)] by (auto simp: items_to_delete_def)
  qed (use assms(2,3) in \<open>auto simp: items_to_delete_def marks_in_def\<close>)
  then have "set (rev (sort_key ident_val (items_to_delete holds w (fst s) (snd s)))) \<subseteq> Num ` {1..length rows}" by simp
  from fold_delete_view [OF assms(1,2) this] show ?thesis by (simp add: deleteItemsFromDataSet_def case_prod_beta)
qed

lemma view_reads:
  assumes "event_view (dataset r) r' d" and "1 \<le> ident_val i" and "ident_val i \<le> length (dataset r)"
  shows "getDataFromDataSet key (Some d) i p t r' = getDataFromDataSet key None i p t r"
proof -
  let ?n = "ident_val i"
  let ?row = "\<lambda>d r. case (case d of None \<Rightarrow> None | Some m \<Rightarrow> idToRow m ?n) of Some x \<Rightarrow> Some x
      | None \<Rightarrow> let k = getRealItemId d (Num ?n) in
          if 0 \<le> k \<and> k < int (length (dataset r)) then Some (dataset r ! nat k) else None"
  have "?row None r = Some (dataset r ! (?n - 1))" using assms(2,3) by (simp add: getRealItemId_def Let_def nat_diff_distrib)
  moreover have "?row (Some d) r' = Some (dataset r ! (?n - 1))"
  proof (cases "Num ?n \<in> set (deletedIds d)")
    case True
    then show ?thesis using event_viewD(4) [OF assms] by simp
  next
    case False
    have "0 \<le> getRealItemId (Some d) (Num ?n)" "getRealItemId (Some d) (Num ?n) < int (length (dataset r'))"
      using places(1,2) [OF assms False] by (simp_all add: real_id)
    then show ?thesis using event_viewD(5) [OF assms False] by (simp add: Let_def)
  qed
  ultimately show ?thesis unfolding getDataFromDataSet_def Let_def by (simp only:)
qed

lemma fold_view:
  assumes "event_view rows (fst s) (snd s)" and "marks_in rows (fst s)" and "\<forall>w \<in> set ws. \<forall>n. w \<noteq> This n"
  shows "event_view rows (fst (fold (deleteItemsFromDataSet holds) ws s)) (snd (fold (deleteItemsFromDataSet holds) ws s))"
  using assms
proof (induction ws arbitrary: s)
  case (Cons w ws)
  then show ?case using delete_view [of rows s w holds] by simp
qed simp

lemma view_start: "event_view (dataset r) r no_deletes"
  by (rule event_viewI) (simp_all add: no_deletes_def getRealItemId_def nat_diff_distrib)

text \<open>
  C32: whatever rows one event deletes, by their marks or by rules and any number of times, the data
  of an item is in the same event what it was before: a deleted row is kept and the others are found where they have
  moved to.
\<close>

theorem event_reads_old_rows:
  assumes "set (edit_items r) \<subseteq> {1..length (dataset r)}" and "\<forall>w \<in> set ws. \<forall>n. w \<noteq> This n"
    and "fold (deleteItemsFromDataSet holds) ws (r, no_deletes) = (r', d)"
    and "1 \<le> ident_val i" and "ident_val i \<le> length (dataset r)"
  shows "getDataFromDataSet key (Some d) i p t r' = getDataFromDataSet key None i p t r"
proof -
  have "event_view (dataset r) r' d"
    using fold_view [of "dataset r" "(r, no_deletes)" ws holds] view_start [of r] assms(1-3) by (simp add: marks_in_def)
  then show ?thesis using assms(4,5) by (rule view_reads)
qed

section \<open>The rows that are left\<close>

lemma rows_without:
  "nths xs {k. Suc k \<notin> S} = map snd (filter (\<lambda>(n, x). n \<notin> S) (zip [1..<length xs + 1] xs))"
proof -
  have "zip [1..<length xs + 1] xs = map (\<lambda>(x, k). (Suc k, x)) (zip xs [0..<length xs])"
    by (rule nth_equalityI) (simp_all del: upt_Suc)
  then show ?thesis by (simp add: nths_def filter_map comp_def case_prod_beta del: upt_Suc)
qed

lemma nths_agree: "(\<And>k. k < length xs \<Longrightarrow> k \<in> A \<longleftrightarrow> k \<in> B) \<Longrightarrow> nths xs A = nths xs B"
  unfolding nths_def by (intro arg_cong [of _ _ "map fst"] filter_cong) (auto dest: set_zip_rightD)

lemma nths_step:
  assumes "1 \<le> i" and "i \<le> length xs" and "\<forall>n \<in> S. n < i"
  shows "nths (take (i - 1) xs @ drop i xs) {k. Suc k \<notin> S} = nths xs {k. Suc k \<notin> insert i S}"
proof -
  have xs: "xs = take (i - 1) xs @ xs ! (i - 1) # drop i xs" using assms(1,2) id_take_nth_drop [of "i - 1" xs] by simp
  have len: "length (take (i - 1) xs) = i - 1" using assms(1,2) by simp
  have rest: "nths (drop i xs) {j. P (j + (i - 1))} = drop i xs" if "\<And>j. P (j + (i - 1))" for P using that by (simp add: nths_all)
  have "nths (take (i - 1) xs @ drop i xs) {k. Suc k \<notin> S} = nths (take (i - 1) xs) {k. Suc k \<notin> S} @ drop i xs"
    unfolding nths_append len using assms(1,3) by (subst nths_all [of "drop i xs"]) fastforce+
  also have "nths (take (i - 1) xs) {k. Suc k \<notin> S} = nths (take (i - 1) xs) {k. Suc k \<notin> insert i S}"
    using assms(1) by (intro nths_agree) auto
  also have "\<dots> @ drop i xs = nths (take (i - 1) xs @ xs ! (i - 1) # drop i xs) {k. Suc k \<notin> insert i S}"
    unfolding nths_append nths_Cons len using assms(1,3) by (subst nths_all [of "drop i xs"]) fastforce+
  finally show ?thesis using xs by simp
qed

definition renumber :: "nat set \<Rightarrow> nat list \<Rightarrow> nat list" where
  "renumber S marks = map (\<lambda>j. j - card {i \<in> S. i < j}) (filter (\<lambda>j. j \<notin> S) marks)"

lemma renumber_step:
  assumes "finite S" and "\<forall>n \<in> S. n < i"
  shows "renumber S (shift_marks i marks) = renumber (insert i S) marks"
proof (induction marks)
  case (Cons j marks)
  have "{k \<in> S. k < j} = S" "{k \<in> S. k < j - 1} = S" "{k \<in> insert i S. k < j} = insert i S" "j - 1 \<notin> S" "j \<notin> S" if "i < j"
    using assms(2) that by fastforce+
  moreover have "i \<notin> S" using assms(2) by auto
  moreover have "{k \<in> insert i S. k < j} = {k \<in> S. k < j}" if "j < i" using that by auto
  ultimately show ?case using Cons assms(1)
    by (cases j i rule: linorder_cases) (simp_all add: renumber_def shift_marks_def)
qed (simp add: renumber_def shift_marks_def)

lemma delete_descending:
  assumes "sorted_wrt (>) ns" and "set ns \<subseteq> {1..length (dataset r)}"
    and "\<forall>j \<in> set (deletedIds d). \<exists>m. j = Num m \<and> (\<forall>i \<in> set ns. i < m)"
  shows "fst (fold delete_one (map Num ns) (r, d)) =
    r\<lparr>dataset := nths (dataset r) {k. Suc k \<notin> set ns}, edit_items := renumber (set ns) (edit_items r)\<rparr>"
  using assms
proof (induction ns arbitrary: r d)
  case Nil
  then show ?case by (simp add: nths_all renumber_def)
next
  case (Cons i ns)
  have new: "Num i \<notin> set (deletedIds d)" using Cons.prems(3) by force
  have "filter (\<lambda>j. ident_val j < i) (deletedIds d) = []" using Cons.prems(3) by (force simp: filter_empty_conv)
  then have real: "getRealItemId (Some d) (Num i) = int (i - 1)" using Cons.prems(2) by (simp add: real_id gone_before_def of_nat_diff)
  define r1 where "r1 = r\<lparr>dataset := take (i - 1) (dataset r) @ drop i (dataset r), edit_items := shift_marks i (edit_items r)\<rparr>"
  define d1 where "d1 = \<lparr>deletedIds = deletedIds d @ [Num i], idToRow = (idToRow d)(i := Some (dataset r ! (i - 1)))\<rparr>"
  have "splice_row (getRealItemId (Some d) (Num i)) (dataset r) =
      (Some (dataset r ! (i - 1)), take (i - 1) (dataset r) @ drop i (dataset r))"
    using Cons.prems(2) unfolding real splice_row_def by (simp del: of_nat_diff) linarith
  then have d1: "delete_one (Num i) (r, d) = (r1, d1)" "deletedIds d1 = deletedIds d @ [Num i]"
    using new by (simp_all add: delete_one_def r1_def d1_def)
  have below: "\<forall>n \<in> set ns. n < i" using Cons.prems(1) by simp
  then have "set ns \<subseteq> {1..length (dataset r1)}" using Cons.prems(2) by (fastforce simp: r1_def)
  moreover have "\<forall>j \<in> set (deletedIds d1). \<exists>m. j = Num m \<and> (\<forall>i \<in> set ns. i < m)" using Cons.prems(3) below d1(2) by auto
  ultimately have "fst (fold delete_one (map Num ns) (r1, d1)) =
    r1\<lparr>dataset := nths (dataset r1) {k. Suc k \<notin> set ns}, edit_items := renumber (set ns) (edit_items r1)\<rparr>"
    using Cons.IH Cons.prems(1) by simp
  moreover have "nths (dataset r1) {k. Suc k \<notin> set ns} = nths (dataset r) {k. Suc k \<notin> insert i (set ns)}"
    using nths_step [of i "dataset r" "set ns"] Cons.prems(2) below by (simp add: r1_def)
  moreover have "renumber (set ns) (edit_items r1) = renumber (insert i (set ns)) (edit_items r)"
    using renumber_step [of "set ns" i] below by (simp add: r1_def)
  ultimately show ?case using d1 by (simp add: r1_def)
qed

lemma sort_numbers: "sort_key ident_val (map Num ns) = map Num (sort ns)"
proof (induction ns)
  case (Cons n ns)
  have "insort_key ident_val (Num n) (map Num xs) = map Num (insort n xs)" for xs by (induction xs) auto
  with Cons show ?case by simp
qed simp

lemma descending: "distinct ns \<Longrightarrow> sorted_wrt (>) (rev (sort ns))"
  unfolding sorted_wrt_rev by (metis distinct_sort sorted_sort strict_sorted_iff)

text \<open>
  C33: an event that deletes the marked rows leaves the others in their order and no mark; one that deletes
  by a rule leaves the rows for which it does not hold, and the marks of these, which move down by the number of
  deleted rows before them.
\<close>

theorem rows_deleted:
  assumes "distinct (edit_items r)" and "set (edit_items r) \<subseteq> {1..length (dataset r)}"
  shows "fst (deleteItemsFromDataSet holds Marked (r, no_deletes)) =
      r\<lparr>dataset := map snd (filter (\<lambda>(n, x). \<not> isEditItem n r) (getActiveDataSet r)), edit_items := []\<rparr> \<and>
    fst (deleteItemsFromDataSet holds (Rule f) (r, no_deletes)) =
      r\<lparr>dataset := map snd (filter (\<lambda>(n, x). \<not> holds f n) (getActiveDataSet r)),
        edit_items := map (\<lambda>j. j - card {i \<in> {1..<j}. holds f i}) (filter (\<lambda>j. \<not> holds f j) (edit_items r))\<rparr>"
proof
  have del: "fst (fold delete_one (rev (sort_key ident_val (map Num ns))) (r, no_deletes)) =
      r\<lparr>dataset := nths (dataset r) {k. Suc k \<notin> set ns}, edit_items := renumber (set ns) (edit_items r)\<rparr>"
    if "distinct ns" "set ns \<subseteq> {1..length (dataset r)}" for ns
    using delete_descending [of "rev (sort ns)" r no_deletes] descending [OF that(1)] that(2)
    by (simp add: sort_numbers rev_map no_deletes_def)
  show "fst (deleteItemsFromDataSet holds Marked (r, no_deletes)) =
      r\<lparr>dataset := map snd (filter (\<lambda>(n, x). \<not> isEditItem n r) (getActiveDataSet r)), edit_items := []\<rparr>"
    using del [OF assms] by (simp add: deleteItemsFromDataSet_def items_to_delete_def rows_without getActiveDataSet_def
        isEditItem_def renumber_def filter_False)
  let ?ns = "filter (holds f) [1..<length (dataset r) + 1]"
  have "map snd (filter (\<lambda>(n, x). n \<notin> set ?ns) (getActiveDataSet r)) =
      map snd (filter (\<lambda>(n, x). \<not> holds f n) (getActiveDataSet r))"
    unfolding getActiveDataSet_def
    by (intro arg_cong [of _ _ "map snd"] filter_cong) (auto dest: set_zip_leftD simp del: upt_Suc)
  moreover have "renumber (set ?ns) (edit_items r) =
      map (\<lambda>j. j - card {i \<in> {1..<j}. holds f i}) (filter (\<lambda>j. \<not> holds f j) (edit_items r))"
  proof -
    have "{i \<in> set ?ns. i < j} = {i \<in> {1..<j}. holds f i}" if "j \<in> set (edit_items r)" for j
      using that assms(2) by fastforce
    moreover have "filter (\<lambda>j. j \<notin> set ?ns) (edit_items r) = filter (\<lambda>j. \<not> holds f j) (edit_items r)"
      using assms(2) by (intro filter_cong) fastforce+
    ultimately show ?thesis unfolding renumber_def by (intro map_cong) auto
  qed
  ultimately show "fst (deleteItemsFromDataSet holds (Rule f) (r, no_deletes)) =
      r\<lparr>dataset := map snd (filter (\<lambda>(n, x). \<not> holds f n) (getActiveDataSet r)),
        edit_items := map (\<lambda>j. j - card {i \<in> {1..<j}. holds f i}) (filter (\<lambda>j. \<not> holds f j) (edit_items r))\<rparr>"
    using del [of ?ns, unfolded rows_without getActiveDataSet_def [symmetric]] by (force simp: deleteItemsFromDataSet_def items_to_delete_def no_deletes_def del: upt_Suc)
qed

lemma rows_deleted_witness:
  "fst (deleteItemsFromDataSet (\<lambda>n m. m = n) (Rule (3 :: nat))
      (\<lparr>dataset = map (\<lambda>k _. Some (empty_cell\<lparr>cell_text := [k]\<rparr>)) [10, 11, 12, 13], active = [], filters = [], sorts = [],
        page = NoLimit, edit_items = [4, 1]\<rparr>, no_deletes)) =
    \<lparr>dataset = map (\<lambda>k _. Some (empty_cell\<lparr>cell_text := [k]\<rparr>)) [10, 11, 13], active = [], filters = [], sorts = [],
      page = NoLimit, edit_items = [3, 1]\<rparr>"
proof -
  let ?r = "\<lparr>dataset = map (\<lambda>k _. Some (empty_cell\<lparr>cell_text := [k]\<rparr>)) [10, 11, 12, 13 :: nat], active = [],
      filters = [] :: nat filter_obj list, sorts = [], page = NoLimit, edit_items = [4, 1]\<rparr>"
  have three: "{i \<in> {1..<4 :: nat}. i = 3} = {3}" by auto
  have "{i. i = (3 :: nat) \<and> Suc 0 \<le> i \<and> i = 0} = {}" by auto
  then have none: "Suc 0 - card {i. i = (3 :: nat) \<and> Suc 0 \<le> i \<and> i = 0} = Suc 0" by (simp only: card.empty diff_zero)
  have "distinct (edit_items ?r)" "set (edit_items ?r) \<subseteq> {1..length (dataset ?r)}" by auto
  from conjunct2 [OF rows_deleted [OF this, of "\<lambda>n m. m = n" 3]] show ?thesis
    by (simp add: getActiveDataSet_def upt_conv_Cons three [simplified] none)
qed

text \<open>
  When an item was deleted by its own identifier, which is a text, a rule of the same event that chooses it again
  deletes the row that has moved into its place: of three rows, the second one and then the third.
\<close>

definition numbered_rows :: "nat \<Rightarrow> nat repeater" where
  "numbered_rows n =
     \<lparr>dataset = map (\<lambda>k _. Some (empty_cell\<lparr>cell_text := [k]\<rparr>)) [1..<n + 1], active = [], filters = [], sorts = [],
      page = NoLimit, edit_items = []\<rparr>"

lemma text_items_deleted_twice:
  "dataset (fst (fold (deleteItemsFromDataSet (\<lambda>n m. m = n)) [This 2, Rule 2] (numbered_rows 3, no_deletes))) =
    dataset (numbered_rows 1)"
  by (simp add: numbered_rows_def no_deletes_def deleteItemsFromDataSet_def items_to_delete_def delete_one_def
      getRealItemId_def splice_row_def upt_conv_Cons numeral_nat Let_def)

text \<open>A marked item below a deleted one gets another number at once, and the event goes on with the first numbers.\<close>

lemma marks_move_in_event:
  "dataset (fst (fold (deleteItemsFromDataSet (\<lambda>n m. m = n)) [Rule 1, Marked]
     ((numbered_rows 3)\<lparr>edit_items := [2]\<rparr>, no_deletes))) = tl (dataset (numbered_rows 3))"
  by (simp add: numbered_rows_def no_deletes_def deleteItemsFromDataSet_def items_to_delete_def delete_one_def shift_marks_def
      getRealItemId_def splice_row_def upt_conv_Cons numeral_nat Let_def)

lemma event_reads_old_rows_witness:
  "let (r', d) = fold (deleteItemsFromDataSet (\<lambda>n m. m = n)) [Rule 1, Rule 2] (numbered_rows 3, no_deletes)
   in getDataFromDataSet [] (Some d) (Num 3) ''name'' [] r' = Some (Cell_text [3])"
proof -
  obtain r' d where run: "fold (deleteItemsFromDataSet (\<lambda>n m. m = n)) [Rule 1, Rule 2] (numbered_rows 3, no_deletes) = (r', d)"
    by fastforce
  have "getDataFromDataSet [] (Some d) (Num 3) ''name'' [] r' = getDataFromDataSet [] None (Num 3) ''name'' [] (numbered_rows 3)"
    by (rule event_reads_old_rows [OF _ _ run]) (simp_all add: numbered_rows_def)
  also have "\<dots> = Some (Cell_text [3])"
    by (simp add: getDataFromDataSet_def getRealItemId_def numbered_rows_def upt_conv_Cons)
  finally show ?thesis using run by (simp add: Let_def case_prod_beta del: fold_simps)
qed

section \<open>The order of numbers\<close>

text \<open>Two texts that are the same number: each row comes after the other when the sort goes upwards.\<close>

lemma equal_numbers_swapped:
  "getComparator id \<lparr>columnName = ''n'', ascending = True, sortType = ''Number'', sort_label = []\<rparr> None
     (1, [''n'' \<mapsto> empty_cell\<lparr>cell_text := [49]\<rparr>]) (2, [''n'' \<mapsto> empty_cell\<lparr>cell_text := [48, 49]\<rparr>]) > 0 \<and>
   getComparator id \<lparr>columnName = ''n'', ascending = True, sortType = ''Number'', sort_label = []\<rparr> None
     (2, [''n'' \<mapsto> empty_cell\<lparr>cell_text := [48, 49]\<rparr>]) (1, [''n'' \<mapsto> empty_cell\<lparr>cell_text := [49]\<rparr>]) > 0"
proof -
  obtain q where "number_of_text [49] = Fin q" "number_of_text [48, 49] = Fin q"
    by (simp add: number_of_text_def number_defs)
  then show ?thesis by (simp add: getComparator_def compare_numbers_def sign_of_def empty_cell_def Let_def)
qed

section \<open>The identifiers of elements\<close>

lemma create_split:
  assumes "itemId \<noteq> []" and "CHR ''_'' \<notin> set w"
  shows "createElementId (w @ CHR ''_'' # k) itemId = w @ ''-'' @ itemId @ ''_'' @ k"
    and "createElementId w itemId = w @ ''-'' @ itemId"
  using assms index_of_none [of "CHR ''_''" w]
  by (simp_all add: createElementId_def Let_def index_of_first substring_head slice_from_def nat_add_distrib)

text \<open>
  The identifier that is made of a widget's one and an item gives both back, when the item has neither
  a hyphen nor an underscore and the widget no hyphen and at most one underscore.
\<close>

theorem element_ids:
  assumes "itemId \<noteq> []" and "CHR ''-'' \<notin> set itemId" and "CHR ''_'' \<notin> set itemId"
    and "CHR ''-'' \<notin> set scriptId" and "length (filter (\<lambda>c. c = CHR ''_'') scriptId) \<le> 1"
  shows "getItemIdFromElementId (createElementId scriptId itemId) = itemId \<and>
    getScriptIdFromElementId (createElementId scriptId itemId) = scriptId"
proof (cases "CHR ''_'' \<in> set scriptId")
  case True
  then obtain w k where s: "scriptId = w @ CHR ''_'' # k" "CHR ''_'' \<notin> set w" by (meson split_list_first)
  with assms(5) have k: "CHR ''_'' \<notin> set k" by (auto simp: filter_empty_conv)
  have "CHR ''-'' \<notin> set (itemId @ CHR ''_'' # k)" using assms(2,4) s(1) by simp
  moreover have "CHR ''-'' \<notin> set w" using assms(4) s(1) by simp
  ultimately have "split_on (CHR ''-'') (w @ ''-'' @ itemId @ ''_'' @ k) = [w, itemId @ CHR ''_'' # k]"
    by (simp add: split_on_append split_on_id)
  moreover have "split_on (CHR ''_'') (itemId @ CHR ''_'' # k) = [itemId, k]" using assms(3) k by (simp add: split_on_append split_on_id)
  ultimately show ?thesis unfolding s(1) create_split(1) [OF assms(1) s(2)]
    by (simp add: getItemIdFromElementId_def getScriptIdFromElementId_def)
next
  case False
  have "split_on (CHR ''-'') (scriptId @ ''-'' @ itemId) = [scriptId, itemId]"
    using assms(2,4) by (simp add: split_on_append split_on_id)
  then show ?thesis unfolding create_split(2) [OF assms(1) False]
    using assms(3) by (simp add: getItemIdFromElementId_def getScriptIdFromElementId_def split_on_id)
qed

lemma element_ids_witness:
  "getItemIdFromElementId (createElementId ''u12_img'' ''3'') = ''3'' \<and>
   getScriptIdFromElementId (createElementId ''u12_img'' ''3'') = ''u12_img''"
  by (rule element_ids) simp_all

text \<open>A widget's identifier with two underscores comes back without its last part.\<close>

lemma script_id_cut: "getScriptIdFromElementId (createElementId ''u12_state0_content'' ''3'') = ''u12_state0''"
  by code_simp

end
