(* ===== verification/Sitemap.thy ===== *)
theory Sitemap
  imports JsString "HOL-Library.Sublist"
begin

text \<open>
  The list of pages around the prototype (\<open>sitemap.js\<close> in \<open>startPost.js\<close>): the markup made of the tree of pages, the
  search, the buttons of the tool bar, the choice of an adaptive view, and the link that is offered. Strings in the
  code are strings here; \<open>toLowerCase\<close>, the escaping of a text by the browser and the functions on the fragment of an
  address, which are not in the repository, are parameters.
\<close>

section \<open>The tree of pages\<close>

datatype page_node = PNode (ptype: string) (purl: string) (pname: string) (pkids: "page_node list")

definition quote1 :: "string \<Rightarrow> string" where
  "quote1 s = CHR 0x27 # s @ [CHR 0x27]"

text \<open>The markup of a node, with the addresses of its pages added to \<open>allNodeUrls\<close>.\<close>

definition node_head :: "(string \<Rightarrow> string) \<Rightarrow> nat \<Rightarrow> page_node \<Rightarrow> string" where
  "node_head escape level n =
     (if pkids n \<noteq> []
      then ''<li class='' @ quote1 (''sitemapNode sitemapExpandableNode'') @ ''><div><div class='' @ quote1 ''sitemapPageLinkContainer''
        @ '' style='' @ quote1 (''margin-left:'' @ dec (9 + level * 17) @ ''px'') @ ''><a class='' @ quote1 ''sitemapPlusMinusLink''
        @ ''><span class='' @ quote1 ''sitemapMinus'' @ ''></span></a>''
      else ''<li class='' @ quote1 (''sitemapNode sitemapLeafNode'') @ ''><div><div class='' @ quote1 ''sitemapPageLinkContainer''
        @ '' style='' @ quote1 (''margin-left:'' @ dec (21 + level * 17) @ ''px'') @ ''>'')
     @ (if ptype n \<noteq> ''Folder'' then ''<a class='' @ quote1 ''sitemapPageLink'' @ '' nodeUrl='' @ quote1 (purl n) @ ''>'' else [])
     @ ''<span class='' @ quote1 (''sitemapPageIcon'' @ (if ptype n = ''Flow'' then '' sitemapFlowIcon'' else [])
         @ (if ptype n = ''Folder'' then '' sitemapFolderIcon'' else []))
     @ ''></span><span class='' @ quote1 ''sitemapPageName'' @ ''>'' @ escape (pname n) @ ''</span>''
     @ (if ptype n \<noteq> ''Folder'' then ''</a>'' else []) @ ''</div></div>''"

fun generateNode :: "(string \<Rightarrow> string) \<Rightarrow> nat \<Rightarrow> page_node \<Rightarrow> string list \<Rightarrow> string \<times> string list"
  and generate_nodes :: "(string \<Rightarrow> string) \<Rightarrow> nat \<Rightarrow> page_node list \<Rightarrow> string list \<Rightarrow> string \<times> string list" where
  "generateNode escape level (PNode t url n ks) urls =
     (let urls1 = (if t \<noteq> ''Folder'' then urls @ [url] else urls);
          (inner, urls2) = generate_nodes escape (level + 1) ks urls1
      in (node_head escape level (PNode t url n ks) @ (if ks \<noteq> [] then ''<ul>'' @ inner @ ''</ul>'' else []) @ ''</li>'', urls2))"
| "generate_nodes escape level [] urls = ([], urls)"
| "generate_nodes escape level (n # ns) urls =
     (let (a, urls1) = generateNode escape level n urls; (b, urls2) = generate_nodes escape level ns urls1 in (a @ b, urls2))"

text \<open>The place of an address in the list, -1 without it, decides on the page before and the page after.\<close>

definition openNextPage :: "string list \<Rightarrow> string \<Rightarrow> string option" where
  "openNextPage urls current =
     (let index = index_of current urls + 1 in if index \<ge> int (length urls) then None else Some (urls ! nat index))"

definition openPreviousPage :: "string list \<Rightarrow> string \<Rightarrow> string option" where
  "openPreviousPage urls current =
     (let index = index_of current urls - 1 in if index < 0 then None else Some (urls ! nat index))"

text \<open>The name of the page that is shown, from its address: what follows the last slash.\<close>

definition page_of_location :: "(string \<Rightarrow> string) \<Rightarrow> string \<Rightarrow> string" where
  "page_of_location decode location =
     (let decoded = decode (hd (split_on (CHR ''#'') location)); i = last_index_of (CHR ''/'') decoded
      in slice_from (if i \<noteq> 0 then i + 1 else 0) decoded)"

section \<open>Search\<close>

text \<open>A node is found by the indices that lead to it from the list of roots.\<close>

type_synonym node_path = "nat list"

fun paths_from :: "nat \<Rightarrow> page_node list \<Rightarrow> node_path list" where
  "paths_from i [] = []"
| "paths_from i (PNode t url n ks # ns) = [i] # map ((#) i) (paths_from 0 ks) @ paths_from (i + 1) ns"

fun name_at :: "node_path \<Rightarrow> page_node list \<Rightarrow> string" where
  "name_at [] ns = []"
| "name_at (i # p) ns = (if p = [] then pname (ns ! i) else name_at p (pkids (ns ! i)))"

text \<open>The nodes that are hidden, those with a grey name and those whose list of children is hidden.\<close>

record page_list =
  pages :: "page_node list"
  hidden :: "node_path set"
  greyed :: "node_path set"
  closed :: "node_path set"

definition collapse_click :: "node_path \<Rightarrow> page_list \<Rightarrow> page_list" where
  "collapse_click p s = s\<lparr>closed := insert p (closed s)\<rparr>"

definition expand_click :: "node_path \<Rightarrow> page_list \<Rightarrow> page_list" where
  "expand_click p s = s\<lparr>closed := closed s - {p}\<rparr>"

text \<open>The name of a node that is found is no longer grey; the node is shown, and all nodes around it.\<close>

definition show_found :: "node_path \<Rightarrow> page_list \<Rightarrow> page_list" where
  "show_found p s = s\<lparr>greyed := greyed s - {p}, hidden := hidden s - set (prefixes p)\<rparr>"

definition search_input_keyup :: "(string \<Rightarrow> string) \<Rightarrow> string \<Rightarrow> page_list \<Rightarrow> page_list" where
  "search_input_keyup lower text s =
     (let val = lower text; ps = paths_from 0 (pages s)
      in if val = [] then s\<lparr>greyed := {}, hidden := {}\<rparr>
         else fold (\<lambda>p s. if sublist val (lower (name_at p (pages s))) then show_found p s else s) ps
           (s\<lparr>hidden := set ps, greyed := set ps\<rparr>))"

text \<open>A node is on the screen when neither it nor a node around it is hidden and all lists around it are open.\<close>

definition displayed :: "page_list \<Rightarrow> node_path \<Rightarrow> bool" where
  "displayed s p \<longleftrightarrow> (\<forall>q \<in> set (prefixes p). q \<notin> hidden s \<and> (q \<noteq> p \<longrightarrow> q \<notin> closed s))"

section \<open>The tool bar\<close>

text \<open>
  What the player sends to the page, and what it asks of the fragment of its own address; also that a page was loaded
  and that it has changed its view by itself.
\<close>

datatype effect =
  Highlight bool
| Switch_view string string
| Set_var string string
| Delete_var string
| Finish_init
| Loaded
| Forced string

text \<open>An adaptive view that can be chosen: its value, whether it has the check mark, whether it is the current one.\<close>

record view_option =
  opt_value :: string
  opt_checked :: bool
  opt_current :: bool

record toolbar =
  adaptive_shown :: bool
  adaptive_button :: bool
  links_shown :: bool
  links_button :: bool
  highlight_button :: bool
  search_shown :: bool
  search_button :: bool
  search_text :: string
  view_options :: "view_option list"
  bar_location :: string
  effects :: "effect list"

datatype container = Adaptive_container | Links_container

definition hideAllContainersExcept :: "container \<Rightarrow> toolbar \<Rightarrow> toolbar" where
  "hideAllContainersExcept c b =
     (let b1 = (if c \<noteq> Adaptive_container then b\<lparr>adaptive_shown := False, adaptive_button := False\<rparr> else b)
      in if c \<noteq> Links_container then b1\<lparr>links_shown := False, links_button := False\<rparr> else b1)"

definition links_click :: "toolbar \<Rightarrow> toolbar" where
  "links_click b =
     (let b1 = hideAllContainersExcept Links_container b; b2 = b1\<lparr>links_shown := \<not> links_shown b1\<rparr>
      in b2\<lparr>links_button := links_shown b2\<rparr>)"

definition adaptive_click :: "toolbar \<Rightarrow> toolbar" where
  "adaptive_click b =
     (let b1 = hideAllContainersExcept Adaptive_container b; b2 = b1\<lparr>adaptive_shown := \<not> adaptive_shown b1\<rparr>
      in b2\<lparr>adaptive_button := adaptive_shown b2\<rparr>)"

definition pluginShown :: "nat option \<Rightarrow> toolbar \<Rightarrow> toolbar" where
  "pluginShown gid b = (if gid = Some 1 then hideAllContainersExcept Adaptive_container b else b)"

definition sidebarExpanded :: "toolbar \<Rightarrow> toolbar" where
  "sidebarExpanded b = hideAllContainersExcept Adaptive_container b"

definition highlight_interactive :: "toolbar \<Rightarrow> toolbar" where
  "highlight_interactive b =
     (if highlight_button b
      then b\<lparr>highlight_button := False, effects := effects b @ [Highlight False, Delete_var ''hi'']\<rparr>
      else b\<lparr>highlight_button := True, effects := effects b @ [Highlight True, Set_var ''hi'' ''1'']\<rparr>)"

text \<open>The name \<open>ADAPTIVE_VIEW_VAR_NAME\<close> is not in the repository and is an argument.\<close>

definition adaptiveViewOption_click :: "(string \<Rightarrow> string) \<Rightarrow> string \<Rightarrow> nat \<Rightarrow> toolbar \<Rightarrow> toolbar" where
  "adaptiveViewOption_click decode var i b =
     (let v = opt_value (view_options b ! i)
      in b\<lparr>view_options := (map (\<lambda>x. x\<lparr>opt_checked := False\<rparr>) (view_options b))[i := (view_options b ! i)\<lparr>opt_checked := True\<rparr>],
           effects := effects b @ [Switch_view (page_of_location decode (bar_location b)) v,
             if v = ''auto'' then Delete_var var else Set_var var v]\<rparr>)"

text \<open>The message \<open>adaptiveViewChange\<close>: the view of the page, and the one that an action has forced.\<close>

definition adaptiveViewChange :: "string option \<Rightarrow> string option \<Rightarrow> toolbar \<Rightarrow> toolbar" where
  "adaptiveViewChange viewId forced b =
     (let v = (case viewId of Some x \<Rightarrow> if x = [] then ''default'' else x | None \<Rightarrow> ''default'');
          os = map (\<lambda>x. x\<lparr>opt_current := opt_value x = v\<rparr>) (view_options b)
      in case forced of
           Some f \<Rightarrow> if f = [] then b\<lparr>view_options := os\<rparr>
                     else b\<lparr>view_options := map (\<lambda>x. x\<lparr>opt_checked := opt_value x = f\<rparr>) os, effects := effects b @ [Forced f]\<rparr>
         | None \<Rightarrow> b\<lparr>view_options := os\<rparr>)"

text \<open>
  A page was loaded at an address: the player's fragment has values for the highlighting and the view, empty without
  one. The option of a view that is not offered is \<open>auto\<close>, which is always there.
\<close>

definition option_index :: "string \<Rightarrow> view_option list \<Rightarrow> nat option" where
  "option_index v os = find (\<lambda>i. opt_value (os ! i) = v) [0..<length os]"

definition before_last :: "string \<Rightarrow> string \<Rightarrow> string" where
  "before_last t s = (case find (\<lambda>i. prefix t (drop i s)) (rev [0..<length s + 1]) of Some i \<Rightarrow> take i s | None \<Rightarrow> [])"

definition page_load :: "(string \<Rightarrow> string) \<Rightarrow> string \<Rightarrow> string \<Rightarrow> string \<Rightarrow> string \<Rightarrow> toolbar \<Rightarrow> toolbar" where
  "page_load decode var address hiVal viewStr b =
     (let b1 = b\<lparr>bar_location := address, effects := effects b @ [Loaded, Set_var ''p'' (before_last ''.html'' (page_of_location decode address))]\<rparr>;
          b2 = (if hiVal \<noteq> [] \<and> loose_eq_num (JStr (u hiVal)) 1 then b1\<lparr>highlight_button := True, effects := effects b1 @ [Highlight True]\<rparr>
                else if highlight_button b1 then b1\<lparr>effects := effects b1 @ [Highlight True]\<rparr> else b1);
          b3 = (if viewStr \<noteq> []
                then (case option_index viewStr (view_options b2) of
                        Some i \<Rightarrow> adaptiveViewOption_click decode var i b2
                      | None \<Rightarrow> (case option_index ''auto'' (view_options b2) of
                                 Some i \<Rightarrow> adaptiveViewOption_click decode var i b2
                               | None \<Rightarrow> b2))
                else case find (\<lambda>i. opt_checked (view_options b2 ! i)) [0..<length (view_options b2)] of
                       Some i \<Rightarrow> if opt_value (view_options b2 ! i) \<noteq> ''auto'' then adaptiveViewOption_click decode var i b2 else b2
                     | None \<Rightarrow> b2)
      in b3\<lparr>effects := effects b3 @ [Finish_init]\<rparr>)"

text \<open>The button of the search shows or hides its box; a hidden box is emptied and searched for.\<close>

definition search_click :: "(string \<Rightarrow> string) \<Rightarrow> toolbar \<times> page_list \<Rightarrow> toolbar \<times> page_list" where
  "search_click lower = (\<lambda>(b, s).
     if search_shown b
     then (b\<lparr>search_shown := False, search_button := False, search_text := []\<rparr>, search_input_keyup lower [] s)
     else (b\<lparr>search_shown := True, search_button := True\<rparr>, s))"

section \<open>The link\<close>

datatype link_option = Minimize | Collapse | Footnotes | Highlighting

text \<open>The options of the link with their names in the fragment, of which only that of the highlighting is in the repository.\<close>

fun option_default :: "link_option \<Rightarrow> string" where
  "option_default Minimize = ''1''"
| "option_default Collapse = ''0''"
| "option_default Footnotes = ''0''"
| "option_default Highlighting = ''1''"

text \<open>The fragment of a link: what stands between its first and its second \<open>#\<close>, \<open>undefined\<close> without one.\<close>

definition link_hash :: "string \<Rightarrow> string" where
  "link_hash link = CHR ''#'' # (case split_on (CHR ''#'') link of a # b # _ \<Rightarrow> b | _ \<Rightarrow> ''undefined'')"

definition sitemapUrlOptions_change ::
  "(string \<Rightarrow> string \<Rightarrow> string \<Rightarrow> string option) \<Rightarrow> (string \<Rightarrow> string \<Rightarrow> string option) \<Rightarrow> (link_option \<Rightarrow> string) \<Rightarrow> string \<Rightarrow>
    link_option \<Rightarrow> bool \<Rightarrow> string \<Rightarrow> string" where
  "sitemapUrlOptions_change set_hash delete_hash name player x on link =
     (let h = link_hash link
      in case (if on then set_hash h (name x) (option_default x) else delete_hash h (name x)) of
           None \<Rightarrow> link
         | Some new \<Rightarrow> player @ new)"

definition sitemapUrlViewSelect_change ::
  "(string \<Rightarrow> string \<Rightarrow> string \<Rightarrow> string option) \<Rightarrow> (string \<Rightarrow> string \<Rightarrow> string option) \<Rightarrow> string \<Rightarrow> string \<Rightarrow>
    string option \<Rightarrow> string \<Rightarrow> string" where
  "sitemapUrlViewSelect_change set_hash delete_hash var player selected link =
     (case selected of
        None \<Rightarrow> link
      | Some v \<Rightarrow>
          (let h = link_hash link
           in case (if v = ''auto'' then delete_hash h var else set_hash h var v) of
                None \<Rightarrow> link
              | Some new \<Rightarrow> player @ new))"

text \<open>The link with the player: the options that the page has, in their order, and the view are taken over one by one.\<close>

definition withSitemapRadio_click ::
  "(string \<Rightarrow> string \<Rightarrow> string \<Rightarrow> string option) \<Rightarrow> (string \<Rightarrow> string \<Rightarrow> string option) \<Rightarrow> (link_option \<Rightarrow> string) \<Rightarrow> string \<Rightarrow>
    string \<Rightarrow> string \<Rightarrow> (link_option \<times> bool) list \<Rightarrow> string option \<Rightarrow> string" where
  "withSitemapRadio_click set_hash delete_hash name var player page boxes selected =
     sitemapUrlViewSelect_change set_hash delete_hash var player selected
       (fold (\<lambda>(x, on). sitemapUrlOptions_change set_hash delete_hash name player x on) boxes (player @ page))"

text \<open>The fragment of the page that is shown: its name without what follows the last point.\<close>

definition currentPageHashString :: "string \<Rightarrow> string" where
  "currentPageHashString url = ''#p='' @ substring url 0 (last_index_of (CHR ''.'') url)"

end
