(* ===== verification/SitemapProps.thy ===== *)
theory SitemapProps
  imports Sitemap
begin

text \<open>
  The list of pages: its markup is nested as it has to be and the addresses are in the order of the tree, a search shows
  what it finds, and the tool bar shows what the page was told.
\<close>

section \<open>Markup\<close>

text \<open>A reader of markup: the stack of the open tags, and where in a tag it is.\<close>

datatype mode =
  Between
| Name string
| Attrs string
| Quoted string
| Broken

definition tag_end :: "string \<Rightarrow> string list \<Rightarrow> mode \<times> string list" where
  "tag_end n st =
     (if n \<noteq> [] \<and> hd n = CHR ''/'' then (if st \<noteq> [] \<and> hd st = tl n then (Between, tl st) else (Broken, st)) else (Between, n # st))"

fun read_char :: "char \<Rightarrow> mode \<times> string list \<Rightarrow> mode \<times> string list" where
  "read_char c (Between, st) = (if c = CHR ''<'' then (Name [], st) else if c = CHR ''>'' then (Broken, st) else (Between, st))"
| "read_char c (Name n, st) =
     (if c = CHR ''>'' then tag_end n st else if c = CHR '' '' then (Attrs n, st) else if c = CHR ''<'' then (Broken, st)
      else (Name (n @ [c]), st))"
| "read_char c (Attrs n, st) =
     (if c = CHR ''>'' then tag_end n st else if c = CHR 0x27 then (Quoted n, st) else if c = CHR ''<'' then (Broken, st)
      else (Attrs n, st))"
| "read_char c (Quoted n, st) = (if c = CHR 0x27 then (Attrs n, st) else (Quoted n, st))"
| "read_char c (Broken, st) = (Broken, st)"

abbreviation read_all :: "string \<Rightarrow> mode \<times> string list \<Rightarrow> mode \<times> string list" where
  "read_all \<equiv> fold read_char"

definition plain_text :: "string \<Rightarrow> bool" where
  "plain_text s \<longleftrightarrow> CHR ''<'' \<notin> set s \<and> CHR ''>'' \<notin> set s"

lemma read_plain: "plain_text s \<Longrightarrow> read_all s (Between, st) = (Between, st)"
  by (induction s) (auto simp: plain_text_def)

lemma read_quoted: "CHR 0x27 \<notin> set s \<Longrightarrow> read_all s (Quoted n, st) = (Quoted n, st)"
  by (induction s) auto

lemma read_quote1: "CHR 0x27 \<notin> set s \<Longrightarrow> read_all (quote1 s) (Attrs n, st) = (Attrs n, st)"
  by (simp add: quote1_def read_quoted)

lemma dec_unquoted: "CHR 0x27 \<notin> set (dec n)"
  using dec_digits [of "CHR 0x27" n] by (auto simp: is_digit_def)

text \<open>The addresses of a tree in its order.\<close>

fun page_urls :: "page_node \<Rightarrow> string list" where
  "page_urls (PNode t url n ks) = (if t \<noteq> ''Folder'' then [url] else []) @ concat (map page_urls ks)"

lemma node_head_nested:
  assumes "\<And>s. plain_text (escape s)" and "ptype n = ''Folder'' \<or> CHR 0x27 \<notin> set (purl n)"
  shows "read_all (node_head escape level n) (Between, st) = (Between, ''li'' # st)"
proof -
  have margin: "CHR 0x27 \<notin> set (''margin-left:'' @ dec k @ ''px'')" for k using dec_unquoted by simp
  have icon: "CHR 0x27 \<notin> set (''sitemapPageIcon'' @ (if a then '' sitemapFlowIcon'' else []) @ (if b then '' sitemapFolderIcon'' else []))" for a b
    by simp
  show ?thesis using assms(2)
    by (cases "ptype n = ''Folder''"; cases "pkids n = []")
      (simp_all add: node_head_def fold_append read_quote1 margin [simplified] icon [simplified] read_plain [OF assms(1)] tag_end_def)
qed

fun plain_pages :: "page_node \<Rightarrow> bool" where
  "plain_pages (PNode t url n ks) \<longleftrightarrow> (t = ''Folder'' \<or> CHR 0x27 \<notin> set url) \<and> list_all plain_pages ks"

lemma generate_nested:
  shows "\<forall>s. plain_text (escape s) \<Longrightarrow> plain_pages n \<Longrightarrow> read_all (fst (generateNode escape level n urls)) (Between, st) = (Between, st)"
    and "\<forall>s. plain_text (escape s) \<Longrightarrow> list_all plain_pages ns \<Longrightarrow> read_all (fst (generate_nodes escape level ns urls)) (Between, st) = (Between, st)"
proof (induction escape level n urls and escape level ns urls arbitrary: st and st rule: generateNode_generate_nodes.induct)
  case (1 escape level t url n ks urls)
  let ?urls = "if t \<noteq> ''Folder'' then urls @ [url] else urls"
  have "read_all (fst (generate_nodes escape (level + 1) ks ?urls)) (Between, ''ul'' # ''li'' # st) = (Between, ''ul'' # ''li'' # st)"
    using 1 by simp
  moreover have "read_all (node_head escape level (PNode t url n ks)) (Between, st) = (Between, ''li'' # st)"
    using 1(2,3) by (intro node_head_nested) auto
  ultimately show ?case by (simp add: case_prod_beta Let_def tag_end_def)
next
  case (3 escape level n ns urls)
  from 3(1,3,4) 3(2) [OF refl prod.collapse] show ?case by (simp add: case_prod_beta Let_def)
qed simp

lemma generate_urls:
  "snd (generateNode escape level n urls) = urls @ page_urls n"
  "snd (generate_nodes escape level ns urls) = urls @ concat (map page_urls ns)"
proof (induction escape level n urls and escape level ns urls rule: generateNode_generate_nodes.induct)
  case (3 escape level n ns urls)
  from 3(1) 3(2) [OF refl prod.collapse] show ?case by (simp add: case_prod_beta Let_def)
qed (simp_all add: case_prod_beta Let_def)

text \<open>
  When escaped texts are without angle brackets and no address has an apostrophe, every tag in the
  markup of the tree is closed by its own end tag in the right order, and the list of addresses gets those of the
  pages, not of the folders, in the order of the tree.
\<close>

theorem sitemap_nested:
  assumes "\<And>s. plain_text (escape s)" and "list_all plain_pages ns"
  shows "read_all (fst (generate_nodes escape level ns urls)) (Between, []) = (Between, []) \<and>
    snd (generate_nodes escape level ns urls) = urls @ concat (map page_urls ns)"
  using generate_nested(2) [of escape ns] generate_urls(2) assms by simp

definition sample_site :: "page_node list" where
  "sample_site =
     [PNode ''Folder'' [] ''Shop'' [PNode ''Wireframe'' ''cart.html'' ''Cart'' [], PNode ''Flow'' ''pay.html'' ''Pay & go'' []],
      PNode ''Wireframe'' ''home.html'' ''Home'' []]"

lemma sitemap_nested_witness:
  "read_all (fst (generate_nodes (filter (\<lambda>c. c \<noteq> CHR ''<'' \<and> c \<noteq> CHR ''>'')) 0 sample_site [])) (Between, []) = (Between, []) \<and>
   snd (generate_nodes (filter (\<lambda>c. c \<noteq> CHR ''<'' \<and> c \<noteq> CHR ''>'')) 0 sample_site []) = [''cart.html'', ''pay.html'', ''home.html'']"
  using sitemap_nested [of "filter (\<lambda>c. c \<noteq> CHR ''<'' \<and> c \<noteq> CHR ''>'')" sample_site 0 "[]"]
  by (simp add: plain_text_def sample_site_def)

section \<open>The next and the previous page\<close>

lemma index_of_nth: "distinct xs \<Longrightarrow> i < length xs \<Longrightarrow> index_of (xs ! i) xs = int i"
proof (induction xs arbitrary: i)
  case (Cons x xs)
  then show ?case by (cases i) (auto simp: Let_def)
qed simp

lemma next_and_back:
  assumes "distinct urls" and "i + 1 < length urls"
  shows "openNextPage urls (urls ! i) = Some (urls ! (i + 1)) \<and> openPreviousPage urls (urls ! (i + 1)) = Some (urls ! i)"
  using assms index_of_nth [OF assms(1), of i] index_of_nth [OF assms(1), of "i + 1"]
  by (simp add: openNextPage_def openPreviousPage_def nat_add_distrib)

text \<open>From a page that is not in the list the next one is the first.\<close>

lemma next_of_unknown: "cur \<notin> set urls \<Longrightarrow> urls \<noteq> [] \<Longrightarrow> openNextPage urls cur = Some (hd urls)"
  using index_of_none [of cur urls] by (cases urls) (simp_all add: openNextPage_def)

section \<open>Search\<close>

lemma show_found_fields [simp]: "pages (show_found p s) = pages s" "closed (show_found p s) = closed s"
  by (simp_all add: show_found_def)

lemma search_fold:
  "pages (fold (\<lambda>p s. if found p (pages s) then show_found p s else s) ps s) = pages s"
  "closed (fold (\<lambda>p s. if found p (pages s) then show_found p s else s) ps s) = closed s"
  "greyed (fold (\<lambda>p s. if found p (pages s) then show_found p s else s) ps s) = greyed s - {p \<in> set ps. found p (pages s)}"
  "hidden (fold (\<lambda>p s. if found p (pages s) then show_found p s else s) ps s) =
    hidden s - {q. \<exists>p \<in> set ps. found p (pages s) \<and> prefix q p}"
proof (induction ps arbitrary: s)
  case (Cons p ps)
  {
    case 3
    show ?case using Cons(3) [of "if found p (pages s) then show_found p s else s"] by (auto simp: show_found_def)
  next
    case 4
    show ?case using Cons(4) [of "if found p (pages s) then show_found p s else s"] by (auto simp: show_found_def)
  }
qed simp_all

lemma paths_hd: "p \<in> set (paths_from i ns) \<Longrightarrow> p \<noteq> []"
  by (induction i ns rule: paths_from.induct) auto

text \<open>
  A search for a text turns just the names grey that do not have it, in whatever case, and leaves
  just the nodes that have it or are around one that has it; when no list of the tree is closed these are on the
  screen.
\<close>

theorem search_shows:
  assumes "lower text \<noteq> []" and "p \<in> set (paths_from 0 (pages s))"
  shows "let s' = search_input_keyup lower text s;
             found = (\<lambda>q. sublist (lower text) (lower (name_at q (pages s))));
             around = (\<exists>q \<in> set (paths_from 0 (pages s)). prefix p q \<and> found q)
         in (p \<in> greyed s' \<longleftrightarrow> \<not> found p) \<and> (p \<in> hidden s' \<longleftrightarrow> \<not> around) \<and> (closed s = {} \<longrightarrow> displayed s' p = around)"
proof -
  let ?ps = "paths_from 0 (pages s)" and ?found = "\<lambda>q ns. sublist (lower text) (lower (name_at q ns))"
  let ?s = "search_input_keyup lower text s" and ?around = "\<lambda>p. \<exists>q \<in> set ?ps. ?found q (pages s) \<and> prefix p q"
  have s': "?s = fold (\<lambda>p s. if ?found p (pages s) then show_found p s else s) ?ps (s\<lparr>hidden := set ?ps, greyed := set ?ps\<rparr>)"
    using assms(1) by (simp add: search_input_keyup_def Let_def)
  have fields: "greyed ?s = set ?ps - {p \<in> set ?ps. ?found p (pages s)}" "hidden ?s = set ?ps - {q. ?around q}" "closed ?s = closed s"
    unfolding s' search_fold [of ?found] by simp_all
  have "displayed ?s p \<longleftrightarrow> ?around p" if "closed s = {}"
  proof
    assume "displayed ?s p"
    then have "p \<notin> hidden ?s" by (simp add: displayed_def)
    then show "?around p" using assms(2) by (simp add: fields(2))
  next
    assume "?around p"
    then show "displayed ?s p" using that by (auto simp: displayed_def fields intro: prefix_order.trans)
  qed
  then show ?thesis using assms(2) by (auto simp: Let_def fields)
qed

definition sample_list :: page_list where
  "sample_list = \<lparr>pages = sample_site, hidden = {}, greyed = {}, closed = {}\<rparr>"

lemma search_shows_witness:
  "displayed (search_input_keyup id ''Ca'' sample_list) [0] \<and> \<not> displayed (search_input_keyup id ''Ca'' sample_list) [1]"
  using search_shows [of id "''Ca''" "[0]" sample_list] search_shows [of id "''Ca''" "[1]" sample_list]
  by (simp add: sample_list_def sample_site_def sublist_code Let_def)

text \<open>A page that is found below a folder that was closed is not on the screen: the search does not open the folder.\<close>

lemma found_in_closed_folder:
  "\<not> displayed (search_input_keyup id ''Cart'' (collapse_click [0] sample_list)) [0, 0] \<and>
   [0, 0] \<notin> hidden (search_input_keyup id ''Cart'' (collapse_click [0] sample_list))"
  by (simp add: sample_list_def sample_site_def search_input_keyup_def collapse_click_def displayed_def show_found_def sublist_code Let_def)

section \<open>The tool bar\<close>

datatype bar_event =
  Links
| Adaptive
| Plugin "nat option"
| Expanded
| Highlights
| Option nat
| View_change "string option" "string option"
| Page_load string string string

fun bar_step :: "(string \<Rightarrow> string) \<Rightarrow> string \<Rightarrow> bar_event \<Rightarrow> toolbar \<Rightarrow> toolbar" where
  "bar_step decode var Links b = links_click b"
| "bar_step decode var Adaptive b = adaptive_click b"
| "bar_step decode var (Plugin g) b = pluginShown g b"
| "bar_step decode var Expanded b = sidebarExpanded b"
| "bar_step decode var Highlights b = highlight_interactive b"
| "bar_step decode var (Option i) b = (if i < length (view_options b) then adaptiveViewOption_click decode var i b else b)"
| "bar_step decode var (View_change v f) b = adaptiveViewChange v f b"
| "bar_step decode var (Page_load a h v) b = page_load decode var a h v b"

text \<open>What the page on the screen was told: whether to highlight, and its view, which is \<open>auto\<close> at first.\<close>

definition told_highlight :: "effect list \<Rightarrow> bool" where
  "told_highlight es = fold (\<lambda>e t. case e of Highlight x \<Rightarrow> x | Loaded \<Rightarrow> False | _ \<Rightarrow> t) es False"

definition told_view :: "effect list \<Rightarrow> string" where
  "told_view es = fold (\<lambda>e v. case e of Switch_view a x \<Rightarrow> x | Forced x \<Rightarrow> x | Loaded \<Rightarrow> ''auto'' | _ \<Rightarrow> v) es ''auto''"

definition bar_ok :: "toolbar \<Rightarrow> bool" where
  "bar_ok b \<longleftrightarrow>
     adaptive_button b = adaptive_shown b \<and> links_button b = links_shown b \<and> \<not> (adaptive_shown b \<and> links_shown b) \<and>
     highlight_button b = told_highlight (effects b) \<and> ''auto'' \<in> opt_value ` set (view_options b) \<and>
     (\<forall>x \<in> set (view_options b). opt_checked x \<longrightarrow> opt_value x = told_view (effects b))"

lemma told_snoc [simp]:
  "told_highlight [] = False" "told_view [] = ''auto''"
  "told_highlight (es @ [e]) = (case e of Highlight x \<Rightarrow> x | Loaded \<Rightarrow> False | _ \<Rightarrow> told_highlight es)"
  "told_view (es @ [e]) = (case e of Switch_view a x \<Rightarrow> x | Forced x \<Rightarrow> x | Loaded \<Rightarrow> ''auto'' | _ \<Rightarrow> told_view es)"
  by (simp_all add: told_highlight_def told_view_def split: effect.split)

lemma told_two [simp]:
  "told_highlight (es @ [e, f]) = (case f of Highlight x \<Rightarrow> x | Loaded \<Rightarrow> False | _ \<Rightarrow> told_highlight (es @ [e]))"
  "told_view (es @ [e, f]) = (case f of Switch_view a x \<Rightarrow> x | Forced x \<Rightarrow> x | Loaded \<Rightarrow> ''auto'' | _ \<Rightarrow> told_view (es @ [e]))"
  using told_snoc(3,4) [of "es @ [e]" f] by simp_all

lemma told_three [simp]:
  "told_highlight (es @ [e, f, g]) = (case g of Highlight x \<Rightarrow> x | Loaded \<Rightarrow> False | _ \<Rightarrow> told_highlight (es @ [e, f]))"
  "told_view (es @ [e, f, g]) = (case g of Switch_view a x \<Rightarrow> x | Forced x \<Rightarrow> x | Loaded \<Rightarrow> ''auto'' | _ \<Rightarrow> told_view (es @ [e, f]))"
  using told_snoc(3,4) [of "es @ [e, f]" g] by simp_all

lemma bar_okD:
  assumes "bar_ok b"
  shows "adaptive_button b = adaptive_shown b" "links_button b = links_shown b" "\<not> (adaptive_shown b \<and> links_shown b)"
    and "told_highlight (effects b) = highlight_button b" "''auto'' \<in> opt_value ` set (view_options b)"
    and "x \<in> set (view_options b) \<Longrightarrow> opt_checked x \<Longrightarrow> opt_value x = told_view (effects b)"
  using assms by (auto simp: bar_ok_def)

lemma except_ok: "bar_ok b \<Longrightarrow> bar_ok (hideAllContainersExcept c b)"
  by (auto simp: bar_ok_def hideAllContainersExcept_def Let_def)

lemma option_values: "i < length os \<Longrightarrow>
    opt_value ` set ((map (\<lambda>x. x\<lparr>opt_checked := False\<rparr>) os)[i := (os ! i)\<lparr>opt_checked := True\<rparr>]) = opt_value ` set os"
proof -
  assume i: "i < length os"
  have "map opt_value ((map (\<lambda>x. x\<lparr>opt_checked := False\<rparr>) os)[i := (os ! i)\<lparr>opt_checked := True\<rparr>]) = map opt_value os"
    using i by (intro nth_equalityI) (auto simp: nth_list_update)
  from arg_cong [OF this, of set] show ?thesis by simp
qed

lemma option_ok:
  assumes "adaptive_button b = adaptive_shown b" "links_button b = links_shown b" "\<not> (adaptive_shown b \<and> links_shown b)"
    and "highlight_button b = told_highlight (effects b)" "''auto'' \<in> opt_value ` set (view_options b)" and "i < length (view_options b)"
  shows "bar_ok (adaptiveViewOption_click decode var i b)"
proof -
  have "opt_value x = opt_value (view_options b ! i)"
    if "x \<in> set ((map (\<lambda>x. x\<lparr>opt_checked := False\<rparr>) (view_options b))[i := (view_options b ! i)\<lparr>opt_checked := True\<rparr>])" "opt_checked x" for x
    using set_update_subset_insert [of "map (\<lambda>x. x\<lparr>opt_checked := False\<rparr>) (view_options b)" i] that by fastforce
  then show ?thesis using assms option_values [OF assms(6)]
    by (simp add: bar_ok_def adaptiveViewOption_click_def Let_def split: if_splits)
qed

lemma option_index_less: "option_index v os = Some i \<Longrightarrow> i < length os"
  by (auto simp: option_index_def find_Some_iff)

lemma option_index_auto: "v \<in> opt_value ` set os \<Longrightarrow> option_index v os \<noteq> None"
proof
  assume "v \<in> opt_value ` set os" and none: "option_index v os = None"
  then obtain i where "i < length os" "opt_value (os ! i) = v" by (auto simp: in_set_conv_nth)
  with none show False by (auto simp: option_index_def find_None_iff)
qed

lemma finish_ok: "bar_ok b \<Longrightarrow> bar_ok (b\<lparr>effects := effects b @ [Finish_init]\<rparr>)"
  by (simp add: bar_ok_def)

lemma page_load_ok: "bar_ok b \<Longrightarrow> bar_ok (page_load decode var a h v b)"
proof -
  assume b: "bar_ok b"
  define b1 where "b1 = b\<lparr>bar_location := a, effects := effects b @ [Loaded, Set_var ''p'' (before_last ''.html'' (page_of_location decode a))]\<rparr>"
  define b2 where "b2 = (if h \<noteq> [] \<and> loose_eq_num (JStr (u h)) 1 then b1\<lparr>highlight_button := True, effects := effects b1 @ [Highlight True]\<rparr>
      else if highlight_button b1 then b1\<lparr>effects := effects b1 @ [Highlight True]\<rparr> else b1)"
  have b2: "adaptive_button b2 = adaptive_shown b2" "links_button b2 = links_shown b2" "\<not> (adaptive_shown b2 \<and> links_shown b2)"
    "highlight_button b2 = told_highlight (effects b2)" "''auto'' \<in> opt_value ` set (view_options b2)"
    and view: "told_view (effects b2) = ''auto''" "view_options b2 = view_options b"
    using bar_okD(1-5) [OF b] by (auto simp: b1_def b2_def)
  define b3 where "b3 = (if v \<noteq> []
      then (case option_index v (view_options b2) of
              Some i \<Rightarrow> adaptiveViewOption_click decode var i b2
            | None \<Rightarrow> (case option_index ''auto'' (view_options b2) of
                       Some i \<Rightarrow> adaptiveViewOption_click decode var i b2
                     | None \<Rightarrow> b2))
      else case find (\<lambda>i. opt_checked (view_options b2 ! i)) [0..<length (view_options b2)] of
             Some i \<Rightarrow> if opt_value (view_options b2 ! i) \<noteq> ''auto'' then adaptiveViewOption_click decode var i b2 else b2
           | None \<Rightarrow> b2)"
  note click = option_ok [OF b2]
  have "bar_ok b3"
  proof (cases "v = []")
    case False
    then show ?thesis using option_index_auto [OF b2(5)] click
      by (auto simp: b3_def dest: option_index_less split: option.splits)
  next
    case True
    show ?thesis
    proof (cases "find (\<lambda>i. opt_checked (view_options b2 ! i)) [0..<length (view_options b2)]")
      case None
      then have "\<not> opt_checked x" if "x \<in> set (view_options b2)" for x
        using that by (auto simp: find_None_iff in_set_conv_nth)
      then have "bar_ok b2" using b2 by (simp add: bar_ok_def)
      then show ?thesis using True None by (simp add: b3_def)
    next
      case (Some i)
      then have i: "i < length (view_options b2)" "opt_checked (view_options b2 ! i)" by (auto simp: find_Some_iff)
      then have "told_view (effects b) = opt_value (view_options b2 ! i)"
        using bar_okD(6) [OF b, of "view_options b ! i"] view(2) by simp
      then have "bar_ok b2" if "opt_value (view_options b2 ! i) = ''auto''"
        using that b2 view bar_okD(6) [OF b] by (simp add: bar_ok_def)
      then show ?thesis using True Some click [OF i(1)] by (auto simp: b3_def)
    qed
  qed
  from finish_ok [OF this] show ?thesis unfolding page_load_def b3_def b2_def b1_def Let_def by simp
qed

lemma view_change_ok: "bar_ok b \<Longrightarrow> bar_ok (adaptiveViewChange v f b)"
  by (auto simp: bar_ok_def adaptiveViewChange_def Let_def image_image split: option.splits)

lemma links_ok: "bar_ok b \<Longrightarrow> bar_ok (links_click b)"
  by (auto simp: links_click_def bar_ok_def hideAllContainersExcept_def Let_def)

lemma adaptive_ok: "bar_ok b \<Longrightarrow> bar_ok (adaptive_click b)"
  by (auto simp: adaptive_click_def bar_ok_def hideAllContainersExcept_def Let_def)

lemma highlight_ok: "bar_ok b \<Longrightarrow> bar_ok (highlight_interactive b)"
  by (simp add: highlight_interactive_def bar_ok_def)

lemma bar_step_ok:
  assumes "bar_ok b"
  shows "bar_ok (bar_step decode var e b)"
proof (cases e)
  case (Option i)
  then show ?thesis using bar_okD [OF assms] assms by (auto intro!: option_ok)
qed (simp_all add: assms links_ok adaptive_ok highlight_ok pluginShown_def sidebarExpanded_def except_ok view_change_ok page_load_ok)

definition new_bar :: "view_option list \<Rightarrow> toolbar" where
  "new_bar os =
     \<lparr>adaptive_shown = False, adaptive_button = False, links_shown = False, links_button = False, highlight_button = False,
      search_shown = True, search_button = False, search_text = [], view_options = os, bar_location = [], effects = []\<rparr>"

text \<open>
  C34: in every run of clicks, messages and page loads a button of the tool bar is selected just when its
  container is shown and at most one of the two containers is; the button for highlighting tells what the page on the
  screen was told last, and a view with the check mark is the one the page was told to show or has changed to.
\<close>

theorem toolbar_honest:
  assumes "''auto'' \<in> opt_value ` set os" and "\<forall>x \<in> set os. opt_checked x \<longrightarrow> opt_value x = ''auto''"
  shows "bar_ok (fold (bar_step decode var) es (new_bar os))"
proof -
  have "bar_ok (new_bar os)" using assms by (simp add: bar_ok_def new_bar_def)
  moreover have "bar_ok b \<Longrightarrow> bar_ok (fold (bar_step decode var) es b)" for b
    by (induction es arbitrary: b) (simp_all add: bar_step_ok)
  ultimately show ?thesis by simp
qed

lemma toolbar_honest_witness:
  "bar_ok (fold (bar_step id ''view'') [Links, Adaptive, Highlights, Option 1, Page_load ''http://x/home.html'' ''1'' [], Plugin (Some 1)]
     (new_bar [\<lparr>opt_value = ''auto'', opt_checked = True, opt_current = False\<rparr>, \<lparr>opt_value = ''small'', opt_checked = False, opt_current = False\<rparr>]))"
  by (rule toolbar_honest) simp_all

end
