(* ===== verification/Styles.thy ===== *)
theory Styles
  imports JsString
begin

text \<open>
  The styles of the widgets of the prototype pages (\<open>style.js\<close> in \<open>prototypePost.js\<close>): the state in which a widget is
  drawn, the properties that the views and states of a widget put over its own style, and the style it has in the end.
  An object of the generator is a map from its keys to values; the identifiers in it are texts. Widgets of a repeater,
  whose element has another name than their object, are left out.
\<close>

section \<open>Objects\<close>

datatype pval =
  PStr string
| PNum int
| PBool bool
| PObj "string \<Rightarrow> pval option"

type_synonym style = "string \<Rightarrow> pval option"

fun truthy :: "pval \<Rightarrow> bool" where
  "truthy (PStr s) \<longleftrightarrow> s \<noteq> []"
| "truthy (PNum n) \<longleftrightarrow> n \<noteq> 0"
| "truthy (PBool b) \<longleftrightarrow> b"
| "truthy (PObj s) \<longleftrightarrow> True"

definition on :: "style \<Rightarrow> string \<Rightarrow> bool" where
  "on s k \<longleftrightarrow> (case s k of Some v \<Rightarrow> truthy v | None \<Rightarrow> False)"

text \<open>An address of a picture that is there: neither missing nor empty.\<close>

definition lookup :: "('k \<Rightarrow> string option) \<Rightarrow> 'k \<Rightarrow> string option" where
  "lookup m k = (case m k of Some (c # cs) \<Rightarrow> Some (c # cs) | _ \<Rightarrow> None)"

text \<open>The first result that is there.\<close>

fun first_some :: "('a \<Rightarrow> 'b option) \<Rightarrow> 'a list \<Rightarrow> 'b option" where
  "first_some f [] = None"
| "first_some f (x # xs) = (case f x of Some y \<Rightarrow> Some y | None \<Rightarrow> first_some f xs)"

text \<open>
  The pictures of a widget. A line has one for each end and one for itself, which are written together, at first those of
  the default view. The key of the others is a state, \<open>~\<close> and a view; a plain widget always has the one of its normal
  state in the default view.
\<close>

datatype pictures =
  NoPictures
| Line "string \<times> string \<times> string" "string \<Rightarrow> (string \<times> string \<times> string) option"
| Connector nat "nat \<Rightarrow> string \<Rightarrow> string option"
| Compound "string list" "string \<Rightarrow> string \<Rightarrow> string option"
| Plain string "string \<Rightarrow> string option"

datatype kind = Shape | Selection_button | Panel | Master | Part_of_menu

text \<open>
  A widget of the page: its identifier, kind, pictures, own style, the styles of its views, and the widget that
  contains it when it is a part of one.
\<close>

datatype widget =
  Widget (ident: string) (kind: kind) (pictures: pictures) (own_style: style) (adaptiveStyles: "string \<Rightarrow> style option")
    (container: "widget option")

text \<open>The styles with names, and the default style of the design.\<close>

record stylesheet =
  stylesById :: "string \<Rightarrow> style option"
  defaultStyle :: style

section \<open>States\<close>

definition progressState :: "string \<Rightarrow> string option" where
  "progressState st = (if st = ''normal'' then None else if st = ''mouseDown'' then Some ''mouseOver'' else Some ''normal'')"

definition unprogressState :: "string \<Rightarrow> string \<Rightarrow> string option" where
  "unprogressState st goal =
     (let st = (if st = [] then ''normal'' else st)
      in if st = goal then None
         else if st = ''normal'' \<and> goal = ''mouseDown'' then Some ''mouseOver''
         else Some goal)"

text \<open>What the page knows of its widgets: the states, the widget that takes the mouse, the pictures set by actions.\<close>

record widget_states =
  selectedWidgets :: "string set"
  disabledWidgets :: "string set"
  placeholders :: "string set"
  mouseDownObjectId :: "string option"
  mouseOverIds :: "string list"
  imageOverrides :: "string \<Rightarrow> string \<Rightarrow> string option"
  richTextShapes :: "string set"

definition getElementImageOverride :: "widget_states \<Rightarrow> string \<Rightarrow> string \<Rightarrow> string option" where
  "getElementImageOverride w i st = lookup (imageOverrides w i) st"

text \<open>The style that a style has for a state, under the key \<open>stateStyles\<close>.\<close>

definition stateStyle :: "style \<Rightarrow> string \<Rightarrow> style option" where
  "stateStyle s st =
     (case s ''stateStyles'' of
        Some (PObj ss) \<Rightarrow> (case ss st of Some (PObj t) \<Rightarrow> Some t | _ \<Rightarrow> None)
      | _ \<Rightarrow> None)"

definition widgetHasState :: "widget_states \<Rightarrow> string list \<Rightarrow> widget \<Rightarrow> string \<Rightarrow> bool" where
  "widgetHasState w chain d st \<longleftrightarrow>
     getElementImageOverride w (ident d) st \<noteq> None \<or>
     (\<exists>v \<in> set chain. case adaptiveStyles d v of Some s \<Rightarrow> stateStyle s st \<noteq> None | None \<Rightarrow> False) \<or>
     stateStyle (own_style d) st \<noteq> None"

text \<open>Whether pictures have one under the key of the selected state in a view; for a compound its components are the keys.\<close>

definition selected_picture :: "pictures \<Rightarrow> string \<Rightarrow> bool" where
  "selected_picture ps v =
     (case ps of Plain n m \<Rightarrow> lookup m (''selected~'' @ v) \<noteq> None | _ \<Rightarrow> False)"

definition generateMouseState :: "widget_states \<Rightarrow> string list \<Rightarrow> widget \<Rightarrow> string \<Rightarrow> bool \<Rightarrow> string" where
  "generateMouseState w chain d mouseState sel =
     (if sel \<and>
         (getElementImageOverride w (ident d) ''selected'' \<noteq> None \<or> kind d = Panel \<or>
          (\<exists>v \<in> set (chain @ [[]]).
             (case adaptiveStyles d v of Some s \<Rightarrow> dom s \<noteq> {} | None \<Rightarrow> False) \<or> selected_picture (pictures d) v) \<or>
          (case stateStyle (own_style d) ''selected'' of Some s \<Rightarrow> dom s \<noteq> {} | None \<Rightarrow> False))
      then ''selected'' else mouseState)"

definition generateSelectedState :: "widget_states \<Rightarrow> string list \<Rightarrow> widget \<Rightarrow> bool \<Rightarrow> string" where
  "generateSelectedState w chain d sel =
     generateMouseState w chain d
       (if mouseDownObjectId w = Some (ident d) then ''mouseDown'' else if ident d \<in> set (mouseOverIds w) then ''mouseOver'' else ''normal'')
       sel"

definition isWidgetDisabled :: "widget_states \<Rightarrow> string \<Rightarrow> bool" where
  "isWidgetDisabled w i \<longleftrightarrow> i \<in> disabledWidgets w"

text \<open>A widget is also selected when its element has the class.\<close>

definition isWidgetSelected :: "widget_states \<Rightarrow> (string \<Rightarrow> string set) \<Rightarrow> string \<Rightarrow> bool" where
  "isWidgetSelected w marks i \<longleftrightarrow> i \<in> selectedWidgets w \<or> ''selected'' \<in> marks i"

definition generateState :: "widget_states \<Rightarrow> (string \<Rightarrow> string set) \<Rightarrow> string list \<Rightarrow> widget \<Rightarrow> string" where
  "generateState w marks chain d =
     (if ident d \<in> placeholders w then ''hint''
      else if isWidgetDisabled w (ident d) then ''disabled''
      else generateSelectedState w chain d (isWidgetSelected w marks (ident d)))"

section \<open>Styles over styles\<close>

definition custom_style :: "stylesheet \<Rightarrow> style \<Rightarrow> style" where
  "custom_style sh s =
     (case s ''baseStyle'' of
        Some (PStr b) \<Rightarrow> (if b = [] then Map.empty else case stylesById sh b of Some c \<Rightarrow> c | None \<Rightarrow> Map.empty)
      | _ \<Rightarrow> Map.empty)"

definition getFullStateStyle :: "stylesheet \<Rightarrow> style \<Rightarrow> string \<Rightarrow> bool \<Rightarrow> style option" where
  "getFullStateStyle sh s st excludeNormal =
     map_option (\<lambda>t. custom_style sh t ++ t) (if st = ''normal'' \<and> \<not> excludeNormal then Some s else stateStyle s st)"

fun style_object :: "widget \<Rightarrow> widget" where
  "style_object (Widget i k ps s a None) = Widget i k ps s a None"
| "style_object (Widget i k ps s a (Some p)) = style_object p"

definition computeStateStyleForViewChain :: "stylesheet \<Rightarrow> widget \<Rightarrow> string \<Rightarrow> string list \<Rightarrow> bool \<Rightarrow> style" where
  "computeStateStyleForViewChain sh d st chain excludeNormal =
     (let o' = style_object d
      in case first_some (\<lambda>v. case adaptiveStyles o' v of Some s \<Rightarrow> getFullStateStyle sh s st excludeNormal | None \<Rightarrow> None) (rev chain) of
           Some s \<Rightarrow> s
         | None \<Rightarrow> (case getFullStateStyle sh (own_style o') st True of Some s \<Rightarrow> s | None \<Rightarrow> Map.empty))"

definition font_props :: "string set" where
  "font_props = {''typeface'', ''fontName'', ''fontWeight'', ''fontStyle'', ''fontStretch'', ''fontSize'', ''underline'',
     ''foreGroundFill'', ''horizontalAlignment''}"

definition add_view_style :: "stylesheet \<Rightarrow> bool \<Rightarrow> widget \<Rightarrow> string \<Rightarrow> style \<Rightarrow> style" where
  "add_view_style sh excludeFont d v computed =
     (case adaptiveStyles d v of
        None \<Rightarrow> computed
      | Some s \<Rightarrow> (let s = (if excludeFont then s |` (- font_props) else s) in computed ++ custom_style sh s ++ s))"

text \<open>From the normal state on, the styles of the states up to the one that is asked for.\<close>

function add_state_styles :: "stylesheet \<Rightarrow> widget \<Rightarrow> string list \<Rightarrow> string \<Rightarrow> string \<Rightarrow> style \<Rightarrow> style" where
  "add_state_styles sh d chain goal st computed =
     (let computed = computed ++ computeStateStyleForViewChain sh d st chain True
      in case unprogressState st goal of
           None \<Rightarrow> computed
         | Some st' \<Rightarrow> if st' = [] then computed else add_state_styles sh d chain goal st' computed)"
  by pat_completeness auto
termination
  by (relation "measure (\<lambda>(sh, d, chain, goal, st, c). if st = goal then 0 else if st = ''normal'' \<or> st = [] then 2 else 1)")
    (auto simp: unprogressState_def Let_def split: if_splits)

declare add_state_styles.simps [simp del]

definition removeUnsupportedProperties :: "style \<Rightarrow> kind \<Rightarrow> style" where
  "removeUnsupportedProperties s k =
     (if k = Selection_button
      then s(''paddingTop'' \<mapsto> PNum 0, ''paddingLeft'' \<mapsto> PNum 0, ''paddingRight'' \<mapsto> PNum 0, ''paddingBottom'' \<mapsto> PNum 0)
      else s)"

text \<open>What is put over the style of a widget; of a link, over what is put over the widget around it.\<close>

definition overrides_over :: "stylesheet \<Rightarrow> widget_states \<Rightarrow> string list \<Rightarrow> widget \<Rightarrow> string \<Rightarrow> style \<Rightarrow> style" where
  "overrides_over sh w chain d st computed =
     removeUnsupportedProperties
       (add_state_styles sh d chain st ''normal'' (fold (add_view_style sh (ident d \<in> richTextShapes w) d) chain computed)) (kind d)"

definition computeAllOverrides :: "stylesheet \<Rightarrow> widget_states \<Rightarrow> string list \<Rightarrow> widget \<Rightarrow> widget option \<Rightarrow> string \<Rightarrow> style" where
  "computeAllOverrides sh w chain d parent st =
     overrides_over sh w chain d st
       (case parent of Some p \<Rightarrow> overrides_over sh w chain p st Map.empty | None \<Rightarrow> Map.empty)"

definition computeFullStyle :: "stylesheet \<Rightarrow> widget_states \<Rightarrow> string list \<Rightarrow> widget \<Rightarrow> string \<Rightarrow> style" where
  "computeFullStyle sh w chain d st =
     removeUnsupportedProperties
       (defaultStyle sh ++ custom_style sh (own_style d) ++ own_style d ++ computeAllOverrides sh w chain d None st) (kind d)"

end
