(* ===== verification/Adaptive.thy ===== *)
theory Adaptive
  imports Styles
begin

text \<open>
  The adaptive views of the prototype pages (\<open>adaptive.js\<close> in \<open>prototypePost.js\<close>): which view fits a window, who decides on
  the view of the page (the size of the window, the player, an action), and what a change of the view does to the
  pictures, the inputs and the visibility of the widgets. Positions, texts and repeaters are left out.
\<close>

section \<open>Views\<close>

record view =
  view_id :: string
  base_view :: "string option"
  view_width :: int
  view_height :: int
  view_condition :: string

definition isViewOneGreaterThanTwo :: "view \<Rightarrow> view \<Rightarrow> bool" where
  "isViewOneGreaterThanTwo v w \<longleftrightarrow>
     view_width v > view_width w \<or> view_width v = view_width w \<and> view_height v > view_height w"

text \<open>A width or height of 0 is none.\<close>

definition bound_or :: "int \<Rightarrow> int" where
  "bound_or n = (if n = 0 then 1000000 else n)"

definition isViewOneLessThanTwo :: "view \<Rightarrow> view \<Rightarrow> bool" where
  "isViewOneLessThanTwo v w \<longleftrightarrow>
     bound_or (view_width v) < bound_or (view_width w) \<or>
     bound_or (view_width v) = bound_or (view_width w) \<and> bound_or (view_height v) < bound_or (view_height w)"

definition isWindowGreaterThanView :: "view \<Rightarrow> int \<Rightarrow> int \<Rightarrow> bool" where
  "isWindowGreaterThanView v width height \<longleftrightarrow> width \<ge> view_width v \<and> height \<ge> view_height v"

definition isWindowLessThanView :: "view \<Rightarrow> int \<Rightarrow> int \<Rightarrow> bool" where
  "isWindowLessThanView v width height \<longleftrightarrow> width \<le> bound_or (view_width v) \<and> height \<le> bound_or (view_height v)"

definition better :: "(view \<Rightarrow> view \<Rightarrow> bool) \<Rightarrow> view \<Rightarrow> view option \<Rightarrow> view option" where
  "better before v best = (case best of None \<Rightarrow> Some v | Some b \<Rightarrow> if before v b then Some v else best)"

definition consider_view :: "int \<Rightarrow> int \<Rightarrow> view \<Rightarrow> view option \<times> view option \<Rightarrow> view option \<times> view option" where
  "consider_view width height v = (\<lambda>(hi, lo).
     if view_condition v = ''>=''
     then (if isWindowGreaterThanView v width height then better isViewOneGreaterThanTwo v hi else hi, lo)
     else (hi, if isWindowLessThanView v width height then better isViewOneLessThanTwo v lo else lo))"

text \<open>\<open>None\<close> is the exception of an enabled view that does not exist.\<close>

definition getAdaptiveView :: "view option list \<Rightarrow> int \<Rightarrow> int \<Rightarrow> view option option" where
  "getAdaptiveView enabled width height =
     (if None \<in> set enabled then None
      else let (hi, lo) = fold (consider_view width height) (map the enabled) (None, None)
           in Some (case lo of Some v \<Rightarrow> Some v | None \<Rightarrow> hi))"

text \<open>The views from the first base to the view itself; without an end when the base views turn in a circle.\<close>

partial_function (option) climb_views :: "(string \<Rightarrow> view option) \<Rightarrow> view option \<Rightarrow> string list \<Rightarrow> string list option" where
  "climb_views idToView current chain =
     (case current of
        None \<Rightarrow> Some chain
      | Some v \<Rightarrow>
          climb_views idToView (idToView (case base_view v of Some b \<Rightarrow> b | None \<Rightarrow> ''undefined'')) (view_id v # chain))"

definition getAdaptiveIdChain :: "(string \<Rightarrow> view option) \<Rightarrow> string \<Rightarrow> string list option" where
  "getAdaptiveIdChain idToView v = (if v = [] then Some [] else climb_views idToView (idToView v) [])"

section \<open>The page\<close>

text \<open>What the generator has written: the widgets, the styles of the page (one for each view), the views.\<close>

record design =
  objects :: "widget list"
  sheet :: stylesheet
  page_style :: style
  page_adaptiveStyles :: "string \<Rightarrow> style"
  isAdaptiveEnabled :: bool
  adaptiveViews :: "view list"
  enabledViewIds :: "string list"
  defaultHidden :: "string set"
  defaultLimbo :: "string set"
  idsInMaster :: "string \<Rightarrow> string set"
  with_input :: "string set"

text \<open>An element of the page: that of a widget, or a part of it with the suffix or the name of its component.\<close>

datatype element = Own string | Part string string

text \<open>What the page tells: its new view to the player, the end of a change, the event of its widgets.\<close>

datatype told =
  Posted "string option" "string option"
| View_changed
| On_adaptive_view_change

record adaptive_page =
  widgetStates :: widget_states
  src :: "element \<Rightarrow> string option"
  marks :: "element \<Rightarrow> string set"
  view_classes :: "string set"
  form_sketch :: "string set"
  visible :: "string \<Rightarrow> bool"
  limboIds :: "string set"
  adaptiveStyledWidgets :: "string list"
  currentViewId :: "string option"
  auto :: bool
  autoIsHandledBySidebar :: bool
  idToView :: "(string \<Rightarrow> view option) option"
  enabledViews :: "view option list"
  initialViewToLoad :: "string option"
  initialViewSizeToLoad :: "(int \<times> int) option"
  loadFinished :: bool
  address :: string
  window_size :: "int \<times> int"
  told :: "told list"

subsection \<open>Pictures\<close>

datatype picture = One string | Parts "string \<Rightarrow> string option"

definition all_states :: "string set" where
  "all_states = {''mouseOver'', ''mouseDown'', ''selected'', ''disabled''}"

definition set_marks :: "string option \<Rightarrow> string set \<Rightarrow> string set" where
  "set_marks st m = (m - all_states) \<union> (case st of Some s \<Rightarrow> if s = ''normal'' then {} else {s} | None \<Rightarrow> {})"

definition compound_children :: "widget \<Rightarrow> string set" where
  "compound_children d = (case pictures d of Compound cs m \<Rightarrow> set cs | _ \<Rightarrow> {})"

definition applyImage :: "widget \<Rightarrow> picture \<Rightarrow> string option \<Rightarrow> adaptive_page \<Rightarrow> adaptive_page" where
  "applyImage d pic st p =
     (case pic of
        One url \<Rightarrow> p\<lparr>src := (src p)(Own (ident d) := Some url), marks := (marks p)(Own (ident d) := set_marks st (marks p (Own (ident d))))\<rparr>
      | Parts urls \<Rightarrow>
          p\<lparr>src := (\<lambda>e. case e of
               Own i \<Rightarrow> src p e
             | Part i c \<Rightarrow> if i = ident d \<and> c \<in> compound_children d \<and> urls c \<noteq> None then urls c else src p e),
            marks := (\<lambda>e. case e of
               Own i \<Rightarrow> marks p e
             | Part i c \<Rightarrow> if i = ident d \<and> c \<in> compound_children d then set_marks st (marks p e) else marks p e)\<rparr>)"

text \<open>The picture for a state: of the view and its bases, the default one, or that of the state below.\<close>

function matchImage :: "widget_states \<Rightarrow> string \<Rightarrow> (string \<Rightarrow> string option) option \<Rightarrow> string list \<Rightarrow> string \<Rightarrow> string option" where
  "matchImage w i images chain st =
     (case getElementImageOverride w i st of
        Some url \<Rightarrow> Some url
      | None \<Rightarrow>
          (case images of
             None \<Rightarrow> None
           | Some m \<Rightarrow>
               (case first_some (\<lambda>v. lookup m (st @ ''~'' @ v)) (rev chain) of
                  Some url \<Rightarrow> Some url
                | None \<Rightarrow>
                    (case lookup m (st @ ''~'') of
                       Some url \<Rightarrow> Some url
                     | None \<Rightarrow> (case progressState st of Some st' \<Rightarrow> matchImage w i images chain st' | None \<Rightarrow> m ''normal~'')))))"
  by pat_completeness auto
termination
  by (relation "measure (\<lambda>(w, i, images, chain, st). if st = ''normal'' then 0 else if st = ''mouseDown'' then 2 else 1)")
    (auto simp: progressState_def split: if_splits)

declare matchImage.simps [simp del]

definition images_of :: "pictures \<Rightarrow> (string \<Rightarrow> string option) option" where
  "images_of ps =
     (case ps of NoPictures \<Rightarrow> None | Plain n m \<Rightarrow> Some (m(''normal~'' \<mapsto> n)) | _ \<Rightarrow> Some Map.empty)"

definition getImageForStateAndView :: "widget_states \<Rightarrow> string list \<Rightarrow> widget \<Rightarrow> string \<Rightarrow> picture option" where
  "getImageForStateAndView w chain d st =
     (case pictures d of
        Compound cs m \<Rightarrow> Some (Parts (\<lambda>c. if c \<in> set cs then matchImage w (ident d) (Some (m c)) chain st else None))
      | ps \<Rightarrow> (case matchImage w (ident d) (images_of ps) chain st of Some (c # cs) \<Rightarrow> Some (One (c # cs)) | _ \<Rightarrow> None))"

definition state_of :: "string list \<Rightarrow> adaptive_page \<Rightarrow> widget \<Rightarrow> string" where
  "state_of chain p d = generateState (widgetStates p) (\<lambda>i. marks p (Own i)) chain d"

definition updateStateClasses :: "element \<Rightarrow> string \<Rightarrow> adaptive_page \<Rightarrow> adaptive_page" where
  "updateStateClasses e st p =
     p\<lparr>marks := (marks p)(e := set_marks (Some st) (marks p e) \<union> (if st = ''mouseDown'' then {''mouseOver''} else {}))\<rparr>"

definition applyImageAndTextJson :: "string list \<Rightarrow> widget \<Rightarrow> string \<Rightarrow> adaptive_page \<Rightarrow> adaptive_page" where
  "applyImageAndTextJson chain d st p =
     (let p = (case getImageForStateAndView (widgetStates p) chain d st of Some pic \<Rightarrow> applyImage d pic (Some st) p | None \<Rightarrow> p)
      in updateStateClasses (Part (ident d) ''_div'') st (updateStateClasses (Own (ident d)) st p))"

definition set_line :: "string \<Rightarrow> string \<times> string \<times> string \<Rightarrow> adaptive_page \<Rightarrow> adaptive_page" where
  "set_line i = (\<lambda>(a, b, c) p.
     p\<lparr>src := (src p)(Part i ''_start'' := Some a, Part i ''_end'' := Some b, Part i ''_line'' := Some c)\<rparr>)"

definition connector_segment :: "nat \<Rightarrow> string" where
  "connector_segment k = ''_seg'' @ dec k"

definition setAdaptiveConnectorImages :: "string \<Rightarrow> nat \<Rightarrow> (nat \<Rightarrow> string \<Rightarrow> string option) \<Rightarrow> string \<Rightarrow> adaptive_page \<Rightarrow> adaptive_page" where
  "setAdaptiveConnectorImages i count m v p =
     fold (\<lambda>k p. case m k v of Some url \<Rightarrow> p\<lparr>src := (src p)(Part i (connector_segment k) := Some url)\<rparr> | None \<Rightarrow> p) [0..<count] p"

subsection \<open>Inputs\<close>

text \<open>A property of the style of the page that makes its inputs look drawn by hand.\<close>

definition draws :: "string \<Rightarrow> pval \<Rightarrow> bool" where
  "draws k v =
     (if k = ''colorStyle'' then v \<noteq> PStr ''appliedColor''
      else case v of PNum n \<Rightarrow> n \<noteq> 0 | PBool b \<Rightarrow> b | PStr t \<Rightarrow> \<not> loose_eq_num (JStr (u t)) 0 | PObj t \<Rightarrow> True)"

fun look_at :: "string list \<Rightarrow> style \<Rightarrow> string set \<Rightarrow> string set option" where
  "look_at [] s notSketch = Some notSketch"
| "look_at (k # ks) s notSketch =
     (if k \<in> notSketch then look_at ks s notSketch
      else case s k of
        None \<Rightarrow> look_at ks s notSketch
      | Some v \<Rightarrow> if draws k v then None else look_at ks s (insert k notSketch))"

definition sketch_props :: "string list" where
  "sketch_props = [''borderWidth'', ''colorStyle'', ''sketchFactor'']"

fun hidden_from :: "style list \<Rightarrow> string set \<Rightarrow> bool" where
  "hidden_from [] notSketch = False"
| "hidden_from (s # ss) notSketch =
     (case look_at sketch_props s notSketch of None \<Rightarrow> True | Some notSketch' \<Rightarrow> hidden_from ss notSketch')"

definition areInputsHidden :: "design \<Rightarrow> string list \<Rightarrow> bool" where
  "areInputsHidden ds chain = hidden_from (map (page_adaptiveStyles ds) (rev chain) @ [page_style ds]) {}"

definition updateInputVisibility :: "design \<Rightarrow> string list \<Rightarrow> adaptive_page \<Rightarrow> adaptive_page" where
  "updateInputVisibility ds chain p =
     p\<lparr>form_sketch := (if areInputsHidden ds chain then form_sketch p \<union> with_input ds else form_sketch p - with_input ds)\<rparr>"

definition getPageStyle :: "design \<Rightarrow> string list \<Rightarrow> style" where
  "getPageStyle ds chain = fold (\<lambda>v s. s ++ page_adaptiveStyles ds v) chain (page_style ds)"

subsection \<open>Visibility\<close>

text \<open>The widgets of a master that is hidden or not placed are so too.\<close>

definition with_masters :: "design \<Rightarrow> string set \<Rightarrow> string set" where
  "with_masters ds ids = ids \<union> \<Union> (idsInMaster ds ` set (map ident (filter (\<lambda>d. kind d = Master \<and> ident d \<in> ids) (objects ds))))"

definition shown_by_itself :: "widget \<Rightarrow> bool" where
  "shown_by_itself d \<longleftrightarrow> container d = None \<and> kind d \<noteq> Master \<and> kind d \<noteq> Part_of_menu"

definition addLimboAndHiddenIds :: "design \<Rightarrow> string set \<Rightarrow> string set \<Rightarrow> adaptive_page \<Rightarrow> adaptive_page" where
  "addLimboAndHiddenIds ds newLimbo newHidden p =
     (let newLimbo = with_masters ds newLimbo; newHidden = with_masters ds newHidden
      in (fold (\<lambda>d p. let i = ident d; shouldBeVisible = (i \<notin> newLimbo \<and> i \<notin> newHidden)
                    in if shown_by_itself d \<and> shouldBeVisible \<noteq> visible p i \<and> i \<notin> limboIds p
                       then p\<lparr>visible := (visible p)(i := shouldBeVisible)\<rparr> else p) (objects ds) p)
         \<lparr>limboIds := limboIds p \<union> newLimbo\<rparr>)"

definition clearLimboAndHidden :: "adaptive_page \<Rightarrow> adaptive_page" where
  "clearLimboAndHidden p = p\<lparr>limboIds := {}\<rparr>"

definition resetLimboAndHiddenToDefaults :: "design \<Rightarrow> adaptive_page \<Rightarrow> adaptive_page" where
  "resetLimboAndHiddenToDefaults ds p = addLimboAndHiddenIds ds (defaultLimbo ds) (defaultHidden ds) (clearLimboAndHidden p)"

section \<open>A change of the view\<close>

text \<open>The pictures of a widget in the default view.\<close>

definition restore_default :: "widget \<Rightarrow> adaptive_page \<Rightarrow> adaptive_page" where
  "restore_default d p =
     (let i = ident d; w = widgetStates p; dis = isWidgetDisabled w i; sel = isWidgetSelected w (\<lambda>i. marks p (Own i)) i;
          plain = (\<lambda>m st. case getElementImageOverride w i st of Some x \<Rightarrow> Some x | None \<Rightarrow> lookup m (st @ ''~''))
      in case pictures d of
           NoPictures \<Rightarrow> p
         | Line def m \<Rightarrow> set_line i def p
         | Connector n m \<Rightarrow> setAdaptiveConnectorImages i n m [] p
         | Compound cs m \<Rightarrow>
             (let flattened = (\<lambda>st. Parts (\<lambda>c. lookup (m c) (st @ ''~'')))
              in if dis then applyImage d (flattened ''disabled'') (Some ''disabled'') p
                 else if sel then applyImage d (flattened ''selected'') (Some ''selected'') p
                 else applyImage d (flattened ''normal'') None p)
         | Plain n m \<Rightarrow>
             (if dis then (case plain m ''disabled'' of Some x \<Rightarrow> applyImage d (One x) (Some ''disabled'') p | None \<Rightarrow> p)
              else if sel then (case plain m ''selected'' of Some x \<Rightarrow> applyImage d (One x) (Some ''selected'') p | None \<Rightarrow> p)
              else applyImage d (One (case getElementImageOverride w i ''normal'' of Some x \<Rightarrow> x | None \<Rightarrow> n)) None p))"

definition clearAdaptiveStyles :: "design \<Rightarrow> string list \<Rightarrow> adaptive_page \<Rightarrow> adaptive_page" where
  "clearAdaptiveStyles ds chain p =
     (fold (\<lambda>i p. case find (\<lambda>d. ident d = i) (objects ds) of
             Some d \<Rightarrow> applyImageAndTextJson chain d (state_of chain p d) p
           | None \<Rightarrow> p) (adaptiveStyledWidgets p) p)
       \<lparr>adaptiveStyledWidgets := []\<rparr>"

text \<open>Widgets that are selected or disabled without having the class of it get it.\<close>

definition reselect :: "string list \<Rightarrow> string \<Rightarrow> widget \<Rightarrow> adaptive_page \<Rightarrow> adaptive_page" where
  "reselect chain st d p =
     (if st \<in> marks p (Own (ident d)) then p
      else let p = p\<lparr>marks := (marks p)(Own (ident d) := insert st (marks p (Own (ident d))))\<rparr>
           in applyImageAndTextJson chain d (state_of chain p d) p)"

definition reselectElements :: "design \<Rightarrow> string list \<Rightarrow> adaptive_page \<Rightarrow> adaptive_page" where
  "reselectElements ds chain p =
     fold (reselect chain ''disabled'') (filter (\<lambda>d. ident d \<in> disabledWidgets (widgetStates p)) (objects ds))
       (fold (reselect chain ''selected'') (filter (\<lambda>d. ident d \<in> selectedWidgets (widgetStates p)) (objects ds)) p)"

definition set_pictures :: "string list \<Rightarrow> string \<Rightarrow> widget \<Rightarrow> string \<Rightarrow> adaptive_page \<Rightarrow> adaptive_page" where
  "set_pictures chain v d st p =
     (case pictures d of
        NoPictures \<Rightarrow> p
      | Line def m \<Rightarrow> (case first_some m (rev chain) of Some abc \<Rightarrow> set_line (ident d) abc p | None \<Rightarrow> p)
      | Connector n m \<Rightarrow> setAdaptiveConnectorImages (ident d) n m (if chain = [] then v else last chain) p
      | _ \<Rightarrow> (case getImageForStateAndView (widgetStates p) chain d st of Some pic \<Rightarrow> applyImage d pic (Some st) p | None \<Rightarrow> p))"

text \<open>One widget in a view, with the widgets that are not placed or hidden there.\<close>

definition applyAdaptiveViewOnObject ::
  "design \<Rightarrow> string list \<Rightarrow> string \<Rightarrow> widget \<Rightarrow> adaptive_page \<times> string set \<times> string set \<Rightarrow> adaptive_page \<times> string set \<times> string set" where
  "applyAdaptiveViewOnObject ds chain v d = (\<lambda>(p, limbo, hidden).
     let st = state_of chain p d;
         adaptiveStyle = computeAllOverrides (sheet ds) (widgetStates p) chain d None st;
         compoundStyle = own_style d ++ adaptiveStyle;
         p = set_pictures chain v d st p;
         p = (if container d = None \<and> ident d \<notin> set (adaptiveStyledWidgets p)
              then p\<lparr>adaptiveStyledWidgets := adaptiveStyledWidgets p @ [ident d]\<rparr> else p)
     in (p, if on compoundStyle ''limbo'' \<and> container d = None then insert (ident d) limbo else limbo,
         if compoundStyle ''visible'' = Some (PBool False) then insert (ident d) hidden else hidden))"

definition applyView :: "design \<Rightarrow> string list \<Rightarrow> string \<Rightarrow> adaptive_page \<Rightarrow> adaptive_page" where
  "applyView ds chain v p =
     (let p = updateInputVisibility ds chain (p\<lparr>view_classes := insert v (view_classes p)\<rparr>);
          (p, limbo, hidden) = fold (applyAdaptiveViewOnObject ds chain v) (objects ds) (p, {}, {})
      in addLimboAndHiddenIds ds limbo hidden p)"

text \<open>The player is told the view when the page is its main frame.\<close>

definition postAdaptiveViewChanged :: "bool \<Rightarrow> string option \<Rightarrow> adaptive_page \<Rightarrow> adaptive_page" where
  "postAdaptiveViewChanged framed force p =
     (if framed then p\<lparr>told := told p @ [Posted (currentViewId p) force]\<rparr> else p)"

definition viewChangePageAndMasters :: "bool \<Rightarrow> string option \<Rightarrow> adaptive_page \<Rightarrow> adaptive_page" where
  "viewChangePageAndMasters framed force p =
     postAdaptiveViewChanged framed force (p\<lparr>told := told p @ [On_adaptive_view_change]\<rparr>)"

text \<open>What a change draws, \<open>prev\<close> the view before it.\<close>

definition draw_view :: "design \<Rightarrow> string list \<Rightarrow> string \<Rightarrow> string \<Rightarrow> adaptive_page \<Rightarrow> adaptive_page" where
  "draw_view ds chain prev v p =
     (let p = p\<lparr>currentViewId := Some v\<rparr>;
          p = (if prev \<noteq> [] then (let p = clearAdaptiveStyles ds chain p in p\<lparr>view_classes := view_classes p - {prev}\<rparr>)
               else reselectElements ds chain p)
      in if v = [] then resetLimboAndHiddenToDefaults ds (fold restore_default (objects ds) (updateInputVisibility ds chain p))
         else applyView ds chain v (clearLimboAndHidden p))"

definition views_of :: "adaptive_page \<Rightarrow> string \<Rightarrow> view option" where
  "views_of p = (case idToView p of Some m \<Rightarrow> m | None \<Rightarrow> Map.empty)"

definition switchView :: "design \<Rightarrow> bool \<Rightarrow> string option \<Rightarrow> string option \<Rightarrow> adaptive_page \<Rightarrow> adaptive_page option" where
  "switchView ds framed viewId force p =
     (let prev = (case currentViewId p of Some x \<Rightarrow> x | None \<Rightarrow> []); v = (case viewId of Some x \<Rightarrow> x | None \<Rightarrow> [])
      in if \<not> isAdaptiveEnabled ds then Some p
         else if v = prev then Some (if force \<noteq> None \<and> force \<noteq> Some [] then postAdaptiveViewChanged framed force p else p)
         else case getAdaptiveIdChain (views_of p) v of
           None \<Rightarrow> None
         | Some chain \<Rightarrow>
             (let p = draw_view ds chain prev v p; p = p\<lparr>told := told p @ [View_changed]\<rparr>
              in Some (if loadFinished p then viewChangePageAndMasters framed force p else p)))"

section \<open>Who decides\<close>

definition handleSetViewForSize :: "design \<Rightarrow> bool \<Rightarrow> int \<Rightarrow> int \<Rightarrow> adaptive_page \<Rightarrow> adaptive_page option" where
  "handleSetViewForSize ds framed width height p =
     (if \<not> auto p then Some p
      else case getAdaptiveView (enabledViews p) width height of
        None \<Rightarrow> None
      | Some toView \<Rightarrow> switchView ds framed (map_option view_id toView) None p)"

definition handleResize :: "design \<Rightarrow> bool \<Rightarrow> string option \<Rightarrow> adaptive_page \<Rightarrow> adaptive_page option" where
  "handleResize ds framed force p =
     (if \<not> auto p then Some p
      else if autoIsHandledBySidebar p \<and> (force = None \<or> force = Some []) then Some p
      else case getAdaptiveView (enabledViews p) (fst (window_size p)) (snd (window_size p)) of
        None \<Rightarrow> None
      | Some toView \<Rightarrow> switchView ds framed (map_option view_id toView) force p)"

definition handleLoadViewId :: "design \<Rightarrow> bool \<Rightarrow> string option \<Rightarrow> string option \<Rightarrow> adaptive_page \<Rightarrow> adaptive_page option" where
  "handleLoadViewId ds framed loadViewId force p =
     (case loadViewId of
        Some v \<Rightarrow> switchView ds framed (Some (if v \<noteq> ''default'' then v else [])) force (p\<lparr>auto := False\<rparr>)
      | None \<Rightarrow> handleResize ds framed force (p\<lparr>auto := True\<rparr>))"

text \<open>The names of the views for the player: \<open>auto\<close> leaves the choice to the size, \<open>default\<close> is the view without a name.\<close>

definition view_for_sitemap :: "string \<Rightarrow> string option" where
  "view_for_sitemap v = (if v = ''auto'' then None else if v = ''default'' then Some [] else Some v)"

definition setAdaptiveView :: "design \<Rightarrow> bool \<Rightarrow> string \<Rightarrow> adaptive_page \<Rightarrow> adaptive_page option" where
  "setAdaptiveView ds framed v p =
     (case idToView p of
        None \<Rightarrow> Some (p\<lparr>initialViewToLoad := view_for_sitemap v\<rparr>)
      | Some m \<Rightarrow> handleLoadViewId ds framed (view_for_sitemap v) None p)"

text \<open>The last part of the address of the page, as the messages of the player name it.\<close>

definition page_name :: "string \<Rightarrow> string" where
  "page_name href = (let h = hd (split_on (CHR ''#'') href) in slice_from (last_index_of (CHR ''/'') h + 1) h)"

definition switchAdaptiveView :: "design \<Rightarrow> bool \<Rightarrow> string \<Rightarrow> string \<Rightarrow> adaptive_page \<Rightarrow> adaptive_page option" where
  "switchAdaptiveView ds framed source v p =
     (if page_name (address p) \<noteq> source then Some p
      else case idToView p of
        None \<Rightarrow> Some (p\<lparr>initialViewToLoad := view_for_sitemap v\<rparr>)
      | Some m \<Rightarrow> handleLoadViewId ds framed (view_for_sitemap v) None p)"

definition setAdaptiveViewForSize :: "design \<Rightarrow> bool \<Rightarrow> int \<Rightarrow> int \<Rightarrow> adaptive_page \<Rightarrow> adaptive_page option" where
  "setAdaptiveViewForSize ds framed width height p =
     (let p = p\<lparr>autoIsHandledBySidebar := True\<rparr>
      in case idToView p of
           None \<Rightarrow> Some (p\<lparr>initialViewSizeToLoad := Some (width, height)\<rparr>)
         | Some m \<Rightarrow> handleSetViewForSize ds framed width height p)"

definition view_map :: "view list \<Rightarrow> string \<Rightarrow> view option" where
  "view_map vs = fold (\<lambda>v m. m(view_id v \<mapsto> v)) vs Map.empty"

definition adaptive_initialize :: "design \<Rightarrow> bool \<Rightarrow> adaptive_page \<Rightarrow> adaptive_page option" where
  "adaptive_initialize ds framed p =
     (let m = view_map (adaptiveViews ds); p = p\<lparr>idToView := Some m\<rparr>
      in if adaptiveViews ds = [] then Some p
         else let p = p\<lparr>enabledViews := enabledViews p @ map m (enabledViewIds ds)\<rparr>
              in case (autoIsHandledBySidebar p, initialViewSizeToLoad p) of
                   (True, Some (width, height)) \<Rightarrow> handleSetViewForSize ds framed width height p
                 | _ \<Rightarrow> handleLoadViewId ds framed (initialViewToLoad p) None p)"

definition load_finished :: "bool \<Rightarrow> adaptive_page \<Rightarrow> adaptive_page" where
  "load_finished framed p =
     (if loadFinished p then p
      else let p = p\<lparr>loadFinished := True\<rparr>
           in if currentViewId p \<noteq> None \<and> currentViewId p \<noteq> Some [] then viewChangePageAndMasters framed None p
              else postAdaptiveViewChanged framed None p)"

text \<open>What happens to the page: messages of the player, actions, a new size of the window, which is heard once it is initialized.\<close>

datatype adaptive_event =
  Initialize
| Load_finished
| Window_resized int int
| Switch_message string string
| Size_message int int
| Action_view string

fun adaptive_step :: "design \<Rightarrow> bool \<Rightarrow> adaptive_event \<Rightarrow> adaptive_page \<Rightarrow> adaptive_page option" where
  "adaptive_step ds framed Initialize p = adaptive_initialize ds framed p"
| "adaptive_step ds framed Load_finished p = Some (load_finished framed p)"
| "adaptive_step ds framed (Window_resized width height) p =
     (let p = p\<lparr>window_size := (width, height)\<rparr> in if idToView p = None then Some p else handleResize ds framed None p)"
| "adaptive_step ds framed (Switch_message source v) p = switchAdaptiveView ds framed source v p"
| "adaptive_step ds framed (Size_message width height) p = setAdaptiveViewForSize ds framed width height p"
| "adaptive_step ds framed (Action_view v) p = setAdaptiveView ds framed v p"

fun adaptive_run :: "design \<Rightarrow> bool \<Rightarrow> adaptive_event list \<Rightarrow> adaptive_page \<Rightarrow> adaptive_page option" where
  "adaptive_run ds framed [] p = Some p"
| "adaptive_run ds framed (e # es) p =
     (case adaptive_step ds framed e p of None \<Rightarrow> None | Some q \<Rightarrow> adaptive_run ds framed es q)"

end
