(* ===== verification/StylesProps.thy ===== *)
theory StylesProps
  imports Styles
begin

text \<open>
  Styles over styles: which of them gives a property of a widget its value, and in which states the widgets are drawn.
\<close>

section \<open>The first that has it\<close>

lemma first_some_append: "first_some f (xs @ ys) = (case first_some f xs of Some y \<Rightarrow> Some y | None \<Rightarrow> first_some f ys)"
  by (induction xs) (auto split: option.splits)

lemma first_some_map: "first_some f (map g xs) = first_some (\<lambda>x. f (g x)) xs"
  by (induction xs) (auto split: option.splits)

text \<open>Styles that are put over each other one by one: the last one that has a property gives it.\<close>

lemma fold_over: "fold (\<lambda>x s. s ++ f x) xs t k = first_some (\<lambda>s. s k) (map f (rev xs) @ [t])"
  by (induction xs arbitrary: t) (auto simp: first_some_append map_add_def split: option.splits)

lemma first_some_cong_end: "first_some f (xs @ [x]) = (case first_some f xs of Some y \<Rightarrow> Some y | None \<Rightarrow> f x)"
  by (simp add: first_some_append split: option.splits)

text \<open>The states whose styles a state has, from the general one on.\<close>

definition state_path :: "string \<Rightarrow> string list" where
  "state_path st =
     (if st = ''normal'' \<or> st = [] then [''normal'']
      else if st = ''mouseDown'' then [''normal'', ''mouseOver'', ''mouseDown''] else [''normal'', st])"

lemma add_state_path:
  "add_state_styles sh d chain st ''normal'' computed = fold (\<lambda>s c. c ++ computeStateStyleForViewChain sh d s chain True) (state_path st) computed"
proof -
  have last: "add_state_styles sh d chain st st c = c ++ computeStateStyleForViewChain sh d st chain True" if "st \<noteq> []" for c
    using that by (subst add_state_styles.simps) (simp add: unprogressState_def Let_def)
  consider "st = ''normal''" | "st = []" | "st = ''mouseDown''" | "st \<notin> {''normal'', [], ''mouseDown''}" by blast
  then show ?thesis
  proof cases
    case 3
    have "add_state_styles sh d chain ''mouseDown'' ''mouseOver'' c =
        c ++ computeStateStyleForViewChain sh d ''mouseOver'' chain True ++ computeStateStyleForViewChain sh d ''mouseDown'' chain True" for c
      using last [unfolded 3] by (subst add_state_styles.simps) (simp add: unprogressState_def Let_def)
    then show ?thesis using 3 by (subst add_state_styles.simps) (simp add: unprogressState_def Let_def state_path_def)
  next
    case 4
    then have "''normal'' \<noteq> st" by auto
    with 4 last show ?thesis by (subst add_state_styles.simps) (simp add: unprogressState_def Let_def state_path_def)
  qed (subst add_state_styles.simps; simp add: unprogressState_def Let_def state_path_def)+
qed

definition view_style :: "stylesheet \<Rightarrow> bool \<Rightarrow> widget \<Rightarrow> string \<Rightarrow> style" where
  "view_style sh excludeFont d v =
     (case adaptiveStyles d v of
        None \<Rightarrow> Map.empty
      | Some s \<Rightarrow> (let s = (if excludeFont then s |` (- font_props) else s) in custom_style sh s ++ s))"

lemma add_view_over: "add_view_style sh e d v c = c ++ view_style sh e d v"
  by (simp add: add_view_style_def view_style_def Let_def split: option.splits)


section \<open>Fonts and states that surprise\<close>

text \<open>When a text was set by an action the fonts of a view are left out, but not those of the style the view is based on.\<close>

definition based_on_title :: widget where
  "based_on_title = Widget ''u1'' Shape NoPictures Map.empty
     [''v'' \<mapsto> [''baseStyle'' \<mapsto> PStr ''title'', ''fontName'' \<mapsto> PStr ''Arial'']] None"

lemma fonts_of_base_style:
  "view_style \<lparr>stylesById = [''title'' \<mapsto> [''fontSize'' \<mapsto> PStr ''32px'']], defaultStyle = Map.empty\<rparr> True based_on_title ''v'' ''fontSize'' =
      Some (PStr ''32px'') \<and>
   view_style \<lparr>stylesById = [''title'' \<mapsto> [''fontSize'' \<mapsto> PStr ''32px'']], defaultStyle = Map.empty\<rparr> True based_on_title ''v'' ''fontName'' = None"
  by (simp add: view_style_def based_on_title_def custom_style_def font_props_def restrict_map_def map_add_def Let_def)

text \<open>A selected widget that has any style for a view is drawn as selected there, also under the mouse and without a style for it.\<close>

lemma selected_hides_mouse:
  assumes "v \<in> set chain" and "adaptiveStyles d v = Some s" and "s k \<noteq> None"
  shows "generateMouseState w chain d mouseState True = ''selected''"
proof -
  have "dom s \<noteq> {}" using assms(3) by auto
  with assms(1,2) show ?thesis by (force simp: generateMouseState_def)
qed

text \<open>The pictures of a compound widget for the selected state do not count: they are looked for one level too high.\<close>

lemma compound_not_selected:
  assumes "pictures d = Compound cs m" and "kind d \<noteq> Panel" and "getElementImageOverride w (ident d) ''selected'' = None"
    and "\<And>v. adaptiveStyles d v = None" and "stateStyle (own_style d) ''selected'' = None"
  shows "generateMouseState w chain d mouseState True = mouseState"
  using assms by (simp add: generateMouseState_def selected_picture_def)

end
