(* ===== verification/AdaptiveProps.thy ===== *)
theory AdaptiveProps
  imports Adaptive StylesProps Sitemap "HOL-Library.Product_Lexorder"
begin

text \<open>
  Adaptive views: the view that is chosen for a window, the inputs that a view draws by hand, and the agreement of the
  page with the tool bar of the player.
\<close>

section \<open>The view for a window\<close>

text \<open>The sizes by which views are compared: upper bounds upwards, lower bounds downwards, the width first.\<close>

definition up :: "view \<Rightarrow> int \<times> int" where
  "up v = (bound_or (view_width v), bound_or (view_height v))"

definition down :: "view \<Rightarrow> int \<times> int" where
  "down v = (- view_width v, - view_height v)"

lemma before_up: "isViewOneLessThanTwo v w \<longleftrightarrow> up v < up w"
  by (auto simp: isViewOneLessThanTwo_def up_def less_prod_def)

lemma before_down: "isViewOneGreaterThanTwo v w \<longleftrightarrow> down v < down w"
  by (auto simp: isViewOneGreaterThanTwo_def down_def less_prod_def)

definition first_by :: "('a \<Rightarrow> 'b::linorder) \<Rightarrow> 'a list \<Rightarrow> 'a option" where
  "first_by k xs = (case sort_key k xs of x # _ \<Rightarrow> Some x | [] \<Rightarrow> None)"

lemma first_by_Nil [simp]: "first_by k [] = None"
  by (simp add: first_by_def)

lemma first_by_Cons: "first_by k (x # xs) = (case first_by k xs of Some y \<Rightarrow> if k x \<le> k y then Some x else Some y | None \<Rightarrow> Some x)"
  by (auto simp: first_by_def split: list.splits)

lemma fold_better:
  assumes "\<And>v w. before v w \<longleftrightarrow> k v < (k w :: 'b::linorder)"
  shows "fold (better before) vs best =
    (case best of None \<Rightarrow> first_by k vs
     | Some b \<Rightarrow> (case first_by k vs of Some y \<Rightarrow> if k y < k b then Some y else Some b | None \<Rightarrow> Some b))"
  by (induction vs arbitrary: best)
    (auto simp: better_def assms first_by_Cons split: option.splits if_splits)

lemma fold_consider:
  "fold (consider_view width height) vs (hi, lo) =
    (fold (better isViewOneGreaterThanTwo) (filter (\<lambda>v. view_condition v = ''>='' \<and> isWindowGreaterThanView v width height) vs) hi,
     fold (better isViewOneLessThanTwo) (filter (\<lambda>v. view_condition v \<noteq> ''>='' \<and> isWindowLessThanView v width height) vs) lo)"
  by (induction vs arbitrary: hi lo) (auto simp: consider_view_def)

text \<open>
  C39: the view for a window is the first of the stable sort by size of those with an upper bound that the window keeps
  to; when there is none, the first of those with a lower bound that the window reaches, the largest first.
\<close>

theorem fitting_view:
  "getAdaptiveView (map Some vs) width height =
    Some (case sort_key up (filter (\<lambda>v. view_condition v \<noteq> ''>='' \<and> isWindowLessThanView v width height) vs) of
            v # _ \<Rightarrow> Some v
          | [] \<Rightarrow> (case sort_key down (filter (\<lambda>v. view_condition v = ''>='' \<and> isWindowGreaterThanView v width height) vs) of
                    v # _ \<Rightarrow> Some v
                  | [] \<Rightarrow> None))"
  by (auto simp: getAdaptiveView_def fold_consider fold_better [OF before_up] fold_better [OF before_down] first_by_def comp_def
      split: list.splits)

text \<open>The chain of a view ends with it, and there is one when the base views have ranks.\<close>

lemma climb_last:
  assumes "climb_views m cur chain = Some c"
  shows "\<exists>xs. c = xs @ (case cur of Some v \<Rightarrow> [view_id v] | None \<Rightarrow> []) @ chain"
proof -
  define P where "P cur chain c \<longleftrightarrow> (\<exists>xs. c = xs @ (case cur of Some v \<Rightarrow> [view_id v] | None \<Rightarrow> []) @ chain)"
    for cur :: "view option" and chain c :: "string list"
  have start: "P None chain chain" for chain by (simp add: P_def)
  have step: "P cur (view_id v # chain) c \<Longrightarrow> P (Some v) chain c" for cur v chain c by (cases cur) (auto simp: P_def)
  have "P cur chain c"
    by (rule climb_views.raw_induct [of "\<lambda>m. P", OF _ assms])
      (auto simp: start split: option.splits; rule step; blast)
  then show ?thesis by (simp only: P_def)
qed

lemma climb_ends:
  assumes "\<And>v w. m (case base_view v of Some b \<Rightarrow> b | None \<Rightarrow> ''undefined'') = Some w \<Longrightarrow> rank w < (rank v :: nat)"
  shows "\<exists>c. climb_views m cur chain = Some c"
proof (cases cur)
  case None
  then show ?thesis by (simp add: climb_views.simps)
next
  case (Some v)
  then show ?thesis
  proof (induction "rank v" arbitrary: v cur chain rule: less_induct)
    case less
    show ?case
    proof (cases "m (case base_view v of Some b \<Rightarrow> b | None \<Rightarrow> ''undefined'')")
      case None
      then show ?thesis using less.prems by (simp add: climb_views.simps [of _ _ chain] climb_views.simps [of _ None])
    next
      case (Some w)
      from less.hyps [OF assms [OF Some] refl] less.prems Some show ?thesis
        by (simp add: climb_views.simps [of _ _ chain])
    qed
  qed
qed

section \<open>Inputs drawn by hand\<close>

lemma page_style_first:
  "getPageStyle ds chain k = first_some (\<lambda>s. s k) (map (page_adaptiveStyles ds) (rev chain) @ [page_style ds])"
  by (simp add: getPageStyle_def fold_over)

lemma look_at_cases:
  "look_at ks s n = (if \<exists>k \<in> set ks. k \<notin> n \<and> (\<exists>v. s k = Some v \<and> draws k v) then None else Some (n \<union> {k \<in> set ks. s k \<noteq> None}))"
  by (induction ks arbitrary: n) (auto split: option.splits)

lemma hidden_from_iff:
  "hidden_from ss n \<longleftrightarrow> (\<exists>k \<in> set sketch_props. k \<notin> n \<and> (\<exists>v. first_some (\<lambda>s. s k) ss = Some v \<and> draws k v))"
proof (induction ss arbitrary: n)
  case (Cons s ss)
  show ?case
    by (cases "\<exists>k \<in> set sketch_props. k \<notin> n \<and> (\<exists>v. s k = Some v \<and> draws k v)")
      (force simp: look_at_cases Cons split: option.splits)+
qed simp

text \<open>
  The climb that decides whether the inputs of the page look drawn by hand says what the style of the page in the
  view says: a border, a colour style other than the applied one, or a sketch factor.
\<close>

lemma inputs_hidden_by_style:
  "areInputsHidden ds chain \<longleftrightarrow> (\<exists>k \<in> set sketch_props. \<exists>v. getPageStyle ds chain k = Some v \<and> draws k v)"
  by (simp add: areInputsHidden_def hidden_from_iff page_style_first)

section \<open>What a change of the view leaves alone\<close>

definition control ::
  "adaptive_page \<Rightarrow> told list \<times> bool \<times> bool \<times> (string \<Rightarrow> view option) option \<times> view option list \<times> bool \<times> string \<times> (int \<times> int) \<times>
    widget_states \<times> string option \<times> string option" where
  "control p = (told p, auto p, autoIsHandledBySidebar p, idToView p, enabledViews p, loadFinished p, address p, window_size p,
     widgetStates p, currentViewId p, initialViewToLoad p)"

lemma fold_keeps: "(\<And>x s. c (f x s) = c s) \<Longrightarrow> c (fold f xs s) = c s"
  by (induction xs arbitrary: s) auto

lemma applyImage_control [js_frame]: "control (applyImage d pic st p) = control p"
  by (simp add: applyImage_def control_def split: picture.splits)

lemma applyImageAndTextJson_control [js_frame]: "control (applyImageAndTextJson chain d st p) = control p"
proof -
  have "control (updateStateClasses e st p) = control p" for e p by (simp add: updateStateClasses_def control_def)
  then show ?thesis by (simp add: applyImageAndTextJson_def Let_def js_frame split: option.splits)
qed

lemma connector_control [js_frame]: "control (setAdaptiveConnectorImages i n m v p) = control p"
  unfolding setAdaptiveConnectorImages_def by (rule fold_keeps) (simp add: control_def split: option.splits)

lemma line_control [js_frame]: "control (set_line i abc p) = control p"
  by (simp add: set_line_def control_def split: prod.splits)

lemma restore_control [js_frame]: "control (restore_default d p) = control p"
  by (simp add: restore_default_def Let_def js_frame split: pictures.splits option.splits)

lemma reselect_control [js_frame]: "control (reselect chain st d p) = control p"
proof -
  have "control (p\<lparr>marks := x\<rparr>) = control p" for x by (simp add: control_def)
  then show ?thesis by (simp add: reselect_def Let_def js_frame)
qed

lemma set_pictures_control [js_frame]: "control (set_pictures chain v d st p) = control p"
  by (simp add: set_pictures_def js_frame split: pictures.splits option.splits)

lemma clear_control [js_frame]: "control (clearAdaptiveStyles ds chain p) = control p"
proof -
  have "control (p\<lparr>adaptiveStyledWidgets := x\<rparr>) = control p" for x p by (simp add: control_def)
  then show ?thesis
    unfolding clearAdaptiveStyles_def by (simp add: fold_keeps [where c = control] js_frame split: option.splits)
qed

lemma reselectElements_control [js_frame]: "control (reselectElements ds chain p) = control p"
  unfolding reselectElements_def by (simp add: fold_keeps [where c = control] js_frame)

lemma addLimbo_control [js_frame]: "control (addLimboAndHiddenIds ds l h p) = control p"
proof -
  have limbo: "control (p\<lparr>limboIds := x\<rparr>) = control p" for x p by (simp add: control_def)
  have visible: "control (p\<lparr>visible := x\<rparr>) = control p" for x p by (simp add: control_def)
  show ?thesis unfolding addLimboAndHiddenIds_def Let_def limbo by (rule fold_keeps) (simp add: visible)
qed

lemma object_control: "control (fst (applyAdaptiveViewOnObject ds chain v d x)) = control (fst x)"
proof -
  have "control (p\<lparr>adaptiveStyledWidgets := y\<rparr>) = control p" for p y by (simp add: control_def)
  then show ?thesis by (simp add: applyAdaptiveViewOnObject_def Let_def js_frame split: prod.splits)
qed

lemma applyView_control [js_frame]: "control (applyView ds chain v p) = control p"
proof -
  have "control (fst (fold (applyAdaptiveViewOnObject ds chain v) (objects ds) x)) = control (fst x)" for x
    by (rule fold_keeps [where c = "\<lambda>x. control (fst x)"]) (rule object_control)
  moreover have "control (updateInputVisibility ds chain (p\<lparr>view_classes := x\<rparr>)) = control p" for x
    by (simp add: control_def updateInputVisibility_def)
  ultimately show ?thesis by (simp add: applyView_def Let_def js_frame case_prod_beta)
qed

lemma draw_control: "control (draw_view ds chain prev v p) = control (p\<lparr>currentViewId := Some v\<rparr>)"
proof -
  have "control (p\<lparr>view_classes := x\<rparr>) = control p" for x p by (simp add: control_def)
  moreover have "control (clearLimboAndHidden p) = control p" for p by (simp add: control_def clearLimboAndHidden_def)
  moreover have "control (updateInputVisibility ds chain p) = control p" for p by (simp add: control_def updateInputVisibility_def)
  ultimately show ?thesis
    by (simp add: draw_view_def Let_def resetLimboAndHiddenToDefaults_def js_frame fold_keeps [where c = control])
qed

lemma draw_fields [simp]:
  "told (draw_view ds chain prev v p) = told p" "auto (draw_view ds chain prev v p) = auto p"
  "autoIsHandledBySidebar (draw_view ds chain prev v p) = autoIsHandledBySidebar p" "idToView (draw_view ds chain prev v p) = idToView p"
  "enabledViews (draw_view ds chain prev v p) = enabledViews p" "loadFinished (draw_view ds chain prev v p) = loadFinished p"
  "address (draw_view ds chain prev v p) = address p" "window_size (draw_view ds chain prev v p) = window_size p"
  "widgetStates (draw_view ds chain prev v p) = widgetStates p" "currentViewId (draw_view ds chain prev v p) = Some v"
  "initialViewToLoad (draw_view ds chain prev v p) = initialViewToLoad p"
  using draw_control [of ds chain prev v p] by (simp_all add: control_def)

section \<open>The page and the tool bar\<close>

text \<open>
  The tool bar of the player and the page: what one of them posts, the other gets. The player also tells the page the
  size of its frame.
\<close>

datatype joint_event =
  Choose nat
| New_size int int
| Frame_size int int

definition messages_since :: "toolbar \<Rightarrow> toolbar \<Rightarrow> adaptive_event list" where
  "messages_since b b' =
     concat (map (\<lambda>e. case e of Switch_view s v \<Rightarrow> [Switch_message s v] | _ \<Rightarrow> []) (drop (length (effects b)) (effects b')))"

fun hear :: "told \<Rightarrow> toolbar \<Rightarrow> toolbar" where
  "hear (Posted v force) b = adaptiveViewChange v force b"
| "hear View_changed b = b"
| "hear On_adaptive_view_change b = b"

definition page_does :: "design \<Rightarrow> adaptive_event list \<Rightarrow> toolbar \<times> adaptive_page \<Rightarrow> (toolbar \<times> adaptive_page) option" where
  "page_does ds es = (\<lambda>(b, p).
     case adaptive_run ds True es p of None \<Rightarrow> None | Some q \<Rightarrow> Some (fold hear (drop (length (told p)) (told q)) b, q))"

fun joint_step ::
  "design \<Rightarrow> (string \<Rightarrow> string) \<Rightarrow> string \<Rightarrow> joint_event \<Rightarrow> toolbar \<times> adaptive_page \<Rightarrow> (toolbar \<times> adaptive_page) option" where
  "joint_step ds decode var (Choose i) (b, p) =
     (let b' = adaptiveViewOption_click decode var i b in page_does ds (messages_since b b') (b', p))"
| "joint_step ds decode var (New_size width height) (b, p) = page_does ds [Window_resized width height] (b, p)"
| "joint_step ds decode var (Frame_size width height) (b, p) = page_does ds [Size_message width height] (b, p)"

fun joint_run ::
  "design \<Rightarrow> (string \<Rightarrow> string) \<Rightarrow> string \<Rightarrow> joint_event list \<Rightarrow> toolbar \<times> adaptive_page \<Rightarrow> (toolbar \<times> adaptive_page) option" where
  "joint_run ds decode var [] s = Some s"
| "joint_run ds decode var (e # es) s = (case joint_step ds decode var e s of None \<Rightarrow> None | Some s' \<Rightarrow> joint_run ds decode var es s')"

text \<open>The value of the option for the view of the page.\<close>

definition view_name :: "adaptive_page \<Rightarrow> string" where
  "view_name p = (case currentViewId p of Some (c # cs) \<Rightarrow> c # cs | _ \<Rightarrow> ''default'')"

definition agreed :: "toolbar \<times> adaptive_page \<Rightarrow> bool" where
  "agreed = (\<lambda>(b, p). \<forall>x \<in> set (view_options b).
     opt_value x \<noteq> [] \<and> (opt_current x \<longleftrightarrow> opt_value x = view_name p) \<and>
     (opt_checked x \<longrightarrow> (if opt_value x = ''auto'' then auto p else \<not> auto p \<and> view_name p = opt_value x)))"

text \<open>The page is loaded, its enabled views exist, and the base views have ranks.\<close>

definition views_sound :: "adaptive_page \<Rightarrow> bool" where
  "views_sound p \<longleftrightarrow> loadFinished p \<and> idToView p \<noteq> None \<and> None \<notin> set (enabledViews p) \<and>
     (\<exists>rank :: view \<Rightarrow> nat. \<forall>v w. views_of p (case base_view v of Some b \<Rightarrow> b | None \<Rightarrow> ''undefined'') = Some w \<longrightarrow> rank w < rank v)"

definition kept where
  "kept p q \<longleftrightarrow> idToView q = idToView p \<and> enabledViews q = enabledViews p \<and> loadFinished q = loadFinished p \<and> address q = address p"

lemma sound_kept: "views_sound p \<Longrightarrow> kept p q \<Longrightarrow> views_sound q"
  by (simp add: views_sound_def kept_def views_of_def)

text \<open>A change of the view, as the tool bar hears of it.\<close>

lemma switch_heard:
  assumes "isAdaptiveEnabled ds" and "views_sound p"
  obtains q where "switchView ds True vid None p = Some q" and "kept p q" and "auto q = auto p"
    and "view_name q = (case vid of Some (c # cs) \<Rightarrow> c # cs | _ \<Rightarrow> ''default'')"
    and "(told q = told p \<and> view_name q = view_name p) \<or>
      told q = told p @ [View_changed, On_adaptive_view_change, Posted (currentViewId q) None]"
proof -
  let ?v = "case vid of Some x \<Rightarrow> x | None \<Rightarrow> []"
  from assms(2) obtain rank :: "view \<Rightarrow> nat" where
    "\<And>v w. views_of p (case base_view v of Some b \<Rightarrow> b | None \<Rightarrow> ''undefined'') = Some w \<Longrightarrow> rank w < rank v"
    by (auto simp: views_sound_def)
  from climb_ends [of "views_of p" rank, OF this] have "\<exists>chain. getAdaptiveIdChain (views_of p) ?v = Some chain"
    by (simp add: getAdaptiveIdChain_def)
  then obtain chain where chain: "getAdaptiveIdChain (views_of p) ?v = Some chain" ..
  have loaded: "loadFinished p" using assms(2) by (simp add: views_sound_def)
  show ?thesis
  proof (cases "?v = (case currentViewId p of Some x \<Rightarrow> x | None \<Rightarrow> [])")
    case True
    then have "switchView ds True vid None p = Some p" using assms(1) by (simp add: switchView_def)
    then show ?thesis
      using True by (intro that) (auto simp: kept_def view_name_def split: option.splits list.splits)
  next
    case False
    then show ?thesis
      using assms(1) chain loaded
      by (intro that [of "viewChangePageAndMasters True None
             (let q = draw_view ds chain (case currentViewId p of Some x \<Rightarrow> x | None \<Rightarrow> []) ?v p in q\<lparr>told := told q @ [View_changed]\<rparr>)"])
        (auto simp: switchView_def Let_def kept_def view_name_def viewChangePageAndMasters_def postAdaptiveViewChanged_def
          split: option.splits list.splits)
  qed
qed

definition heard :: "adaptive_page \<Rightarrow> adaptive_page \<Rightarrow> bool" where
  "heard p q \<longleftrightarrow> (told q = told p \<and> view_name q = view_name p) \<or>
     told q = told p @ [View_changed, On_adaptive_view_change, Posted (currentViewId q) None]"

lemma heard_refl [simp]: "heard p p"
  by (simp add: heard_def)

lemma kept_refl [simp]: "kept p p"
  by (simp add: kept_def)

text \<open>What each event does to the choice and to the view; \<open>p\<close> may differ from the page before in other fields.\<close>

lemma auto_heard:
  assumes "isAdaptiveEnabled ds" and "views_sound p" and "auto p"
  shows "\<exists>q. handleSetViewForSize ds True width height p = Some q \<and> kept p q \<and> auto q \<and> heard p q"
    and "\<exists>q. handleResize ds True None p = Some q \<and> kept p q \<and> auto q \<and> heard p q"
proof -
  have fits: "getAdaptiveView (enabledViews p) w h \<noteq> None" for w h
    using assms(2) by (simp add: getAdaptiveView_def views_sound_def case_prod_beta)
  have switch: "\<exists>q. switchView ds True vid None p = Some q \<and> kept p q \<and> auto q \<and> heard p q" for vid
    using switch_heard [OF assms(1,2), of vid] assms(3) unfolding heard_def by metis
  show "\<exists>q. handleSetViewForSize ds True width height p = Some q \<and> kept p q \<and> auto q \<and> heard p q"
    using fits [of width height] switch assms(3) by (auto simp: handleSetViewForSize_def)
  show "\<exists>q. handleResize ds True None p = Some q \<and> kept p q \<and> auto q \<and> heard p q"
    using fits [of "fst (window_size p)" "snd (window_size p)"] switch assms(3) by (auto simp: handleResize_def)
qed

lemma size_heard:
  assumes "isAdaptiveEnabled ds" and "views_sound p" and "kept p p'" and "auto p' = auto p" and "told p' = told p"
    and "currentViewId p' = currentViewId p"
  shows "\<exists>q. handleSetViewForSize ds True width height p' = Some q \<and> kept p q \<and> auto q = auto p \<and> heard p q \<and> (\<not> auto p \<longrightarrow> view_name q = view_name p)"
    and "\<exists>q. handleResize ds True None p' = Some q \<and> kept p q \<and> auto q = auto p \<and> heard p q \<and> (\<not> auto p \<longrightarrow> view_name q = view_name p)"
proof -
  have sound: "views_sound p'" using sound_kept assms(2,3) by blast
  have same: "view_name p' = view_name p" using assms(6) by (simp add: view_name_def)
  have trans: "kept p q \<and> heard p q" if "kept p' q" "heard p' q" for q
    using that assms(3-6) by (auto simp: kept_def heard_def view_name_def)
  show "\<exists>q. handleSetViewForSize ds True width height p' = Some q \<and> kept p q \<and> auto q = auto p \<and> heard p q \<and> (\<not> auto p \<longrightarrow> view_name q = view_name p)"
    using auto_heard(1) [OF assms(1) sound, of width height] trans trans [OF kept_refl heard_refl] assms(4) same
    by (cases "auto p'") (auto simp: handleSetViewForSize_def)
  show "\<exists>q. handleResize ds True None p' = Some q \<and> kept p q \<and> auto q = auto p \<and> heard p q \<and> (\<not> auto p \<longrightarrow> view_name q = view_name p)"
    using auto_heard(2) [OF assms(1) sound] trans trans [OF kept_refl heard_refl] assms(4) same
    by (cases "auto p'") (auto simp: handleResize_def)
qed

text \<open>A choice in the tool bar.\<close>

lemma choice_heard:
  assumes "isAdaptiveEnabled ds" and "views_sound p" and "v \<noteq> []" and "page_name (address p) = source"
  obtains q where "switchAdaptiveView ds True source v p = Some q" and "kept p q" and "heard p q"
    and "if v = ''auto'' then auto q else \<not> auto q \<and> view_name q = v"
proof (cases "v = ''auto''")
  case True
  let ?p = "p\<lparr>auto := True\<rparr>"
  have "views_sound ?p" using assms(2) by (rule sound_kept) (simp add: kept_def)
  from auto_heard(2) [OF assms(1) this] obtain q where q: "handleResize ds True None ?p = Some q" "kept ?p q" "auto q" "heard ?p q"
    by auto
  from q(2,4) have "kept p q" "heard p q" by (simp_all add: kept_def heard_def view_name_def)
  with q(1,3) True assms that [of q] show ?thesis
    by (auto simp: switchAdaptiveView_def handleLoadViewId_def view_for_sitemap_def views_sound_def)
next
  case False
  let ?p = "p\<lparr>auto := False\<rparr>"
  let ?x = "if v = ''default'' then [] else v"
  have "views_sound ?p" using assms(2) by (rule sound_kept) (simp add: kept_def)
  from switch_heard [OF assms(1) this, of "Some ?x"] obtain q where q: "switchView ds True (Some ?x) None ?p = Some q" "kept ?p q" "auto q = auto ?p"
    "view_name q = (case Some ?x of Some (c # cs) \<Rightarrow> c # cs | _ \<Rightarrow> ''default'')" "heard ?p q"
    unfolding heard_def by metis
  from q(2,5) have "kept p q" "heard p q" by (simp_all add: kept_def heard_def view_name_def)
  moreover have "view_name q = v" using q(4) assms(3) by (auto split: if_splits list.splits)
  ultimately show ?thesis using q(1,3) False assms that [of q]
    by (auto simp: switchAdaptiveView_def handleLoadViewId_def view_for_sitemap_def views_sound_def split: if_splits)
qed

lemma hear_told:
  assumes "heard p q"
  shows "fold hear (drop (length (told p)) (told q)) b = (if told q = told p then b else adaptiveViewChange (currentViewId q) None b)"
  using assms by (auto simp: heard_def)

lemma view_change_options:
  "view_options (adaptiveViewChange (currentViewId q) None b) = map (\<lambda>x. x\<lparr>opt_current := opt_value x = view_name q\<rparr>) (view_options b)"
  "bar_location (adaptiveViewChange (currentViewId q) None b) = bar_location b"
proof -
  have "(case currentViewId q of Some x \<Rightarrow> if x = [] then ''default'' else x | None \<Rightarrow> ''default'') = view_name q"
    by (auto simp: view_name_def split: option.splits list.splits)
  then show "view_options (adaptiveViewChange (currentViewId q) None b) = map (\<lambda>x. x\<lparr>opt_current := opt_value x = view_name q\<rparr>) (view_options b)"
    and "bar_location (adaptiveViewChange (currentViewId q) None b) = bar_location b"
    by (simp_all add: adaptiveViewChange_def Let_def)
qed

definition choice_of :: "adaptive_page \<Rightarrow> view_option \<Rightarrow> bool" where
  "choice_of p x \<longleftrightarrow> opt_checked x \<longrightarrow> (if opt_value x = ''auto'' then auto p else \<not> auto p \<and> view_name p = opt_value x)"

definition marked_of :: "adaptive_page \<Rightarrow> view_option \<Rightarrow> bool" where
  "marked_of p x \<longleftrightarrow> opt_value x \<noteq> [] \<and> (opt_current x \<longleftrightarrow> opt_value x = view_name p)"

lemma agreed_iff: "agreed (b, p) \<longleftrightarrow> (\<forall>x \<in> set (view_options b). marked_of p x \<and> choice_of p x)"
  by (auto simp: agreed_def choice_of_def marked_of_def)

text \<open>The page and its bar between two events.\<close>

definition in_step :: "design \<Rightarrow> (string \<Rightarrow> string) \<Rightarrow> nat \<Rightarrow> toolbar \<times> adaptive_page \<Rightarrow> bool" where
  "in_step ds decode n = (\<lambda>(b, p). isAdaptiveEnabled ds \<and> views_sound p \<and> agreed (b, p) \<and>
     page_of_location decode (bar_location b) = page_name (address p) \<and> length (view_options b) = n)"

lemma page_answers:
  assumes "in_step ds decode n (b0, p)" and "view_options b = os" and "bar_location b = bar_location b0" and "length os = n"
    and "adaptive_run ds True es p = Some q" and "kept p q" and "heard p q"
    and "\<forall>x \<in> set os. marked_of p x \<and> choice_of q x"
  shows "\<exists>s. page_does ds es (b, p) = Some s \<and> in_step ds decode n s"
proof -
  let ?b = "if told q = told p then b else adaptiveViewChange (currentViewId q) None b"
  have does: "page_does ds es (b, p) = Some (?b, q)" by (simp add: page_does_def assms(5) hear_told [OF assms(7)])
  have "agreed (?b, q)"
  proof (cases "told q = told p")
    case True
    then have "view_name q = view_name p" using assms(7) by (auto simp: heard_def)
    then show ?thesis using assms(2,8) True by (simp add: agreed_iff marked_of_def)
  next
    case False
    then show ?thesis using assms(2,8) by (auto simp: agreed_iff marked_of_def choice_of_def view_change_options)
  qed
  moreover have "length (view_options ?b) = n" "bar_location ?b = bar_location b0"
    using assms(2-4) by (simp_all add: view_change_options)
  ultimately have "in_step ds decode n (?b, q)"
    using assms(1,6) sound_kept by (auto simp: in_step_def kept_def)
  with does show ?thesis by blast
qed

lemma joint_step_ok:
  assumes "in_step ds decode n (b, p)" and "\<And>i. e = Choose i \<Longrightarrow> i < n"
  shows "\<exists>s. joint_step ds decode var e (b, p) = Some s \<and> in_step ds decode n s"
proof -
  have os: "\<forall>x \<in> set (view_options b). marked_of p x \<and> choice_of p x" "length (view_options b) = n"
    and on: "isAdaptiveEnabled ds" "views_sound p" "page_name (address p) = page_of_location decode (bar_location b)"
    using assms(1) by (simp_all add: in_step_def agreed_iff)
  have size: "\<exists>s. page_does ds es (b, p) = Some s \<and> in_step ds decode n s"
    if "adaptive_run ds True es p = Some q" "kept p q" "auto q = auto p" "heard p q" "\<not> auto p \<longrightarrow> view_name q = view_name p" for es q
    by (rule page_answers [OF assms(1) refl refl os(2) that(1,2,4)]) (use os(1) that(3,5) in \<open>auto simp: choice_of_def\<close>)
  show ?thesis
  proof (cases e)
    case (Choose i)
    let ?b = "adaptiveViewOption_click decode var i b" and ?v = "opt_value (view_options b ! i)"
    have i: "i < length (view_options b)" using assms(2) os(2) Choose by simp
    have sent: "messages_since b ?b = [Switch_message (page_of_location decode (bar_location b)) ?v]"
      by (simp add: messages_since_def adaptiveViewOption_click_def Let_def)
    have "?v \<noteq> []" using os(1) i by (simp add: marked_of_def)
    from choice_heard [OF on(1,2) this on(3)] obtain q where q:
      "switchAdaptiveView ds True (page_of_location decode (bar_location b)) ?v p = Some q" "kept p q" "heard p q"
      "if ?v = ''auto'' then auto q else \<not> auto q \<and> view_name q = ?v" by blast
    let ?os = "(map (\<lambda>x. x\<lparr>opt_checked := False\<rparr>) (view_options b))[i := (view_options b ! i)\<lparr>opt_checked := True\<rparr>]"
    have "\<forall>x \<in> set ?os. marked_of p x \<and> choice_of q x"
    proof
      fix x assume "x \<in> set ?os"
      with set_update_subset_insert [of "map (\<lambda>x. x\<lparr>opt_checked := False\<rparr>) (view_options b)" i]
      have "x \<in> insert ((view_options b ! i)\<lparr>opt_checked := True\<rparr>) ((\<lambda>x. x\<lparr>opt_checked := False\<rparr>) ` set (view_options b))"
        by (metis (no_types, lifting) list.set_map subsetD)
      then consider "x = (view_options b ! i)\<lparr>opt_checked := True\<rparr>" | y where "y \<in> set (view_options b)" "x = y\<lparr>opt_checked := False\<rparr>"
        by blast
      then show "marked_of p x \<and> choice_of q x"
      proof cases
        case 1
        then show ?thesis using os(1) nth_mem [OF i] q(4) by (simp add: marked_of_def choice_of_def)
      next
        case 2
        then show ?thesis using os(1) by (simp add: marked_of_def choice_of_def)
      qed
    qed
    then have "\<exists>s. page_does ds (messages_since b ?b) (?b, p) = Some s \<and> in_step ds decode n s"
      using page_answers [OF assms(1), of ?b ?os "messages_since b ?b" q] os(2) q(1-3) sent by (simp add: adaptiveViewOption_click_def Let_def)
    then show ?thesis by (simp add: Choose Let_def)
  next
    case (New_size width height)
    let ?p = "p\<lparr>window_size := (width, height)\<rparr>"
    have there: "idToView p \<noteq> None" using on(2) by (simp add: views_sound_def)
    have "kept p ?p" by (simp add: kept_def)
    from size_heard(2) [OF on(1,2) this] obtain q where q: "handleResize ds True None ?p = Some q" "kept p q" "auto q = auto p" "heard p q"
      "\<not> auto p \<longrightarrow> view_name q = view_name p" by auto
    from there q(1) have "adaptive_run ds True [Window_resized width height] p = Some q" by (auto simp: Let_def)
    from size [OF this q(2-5)] show ?thesis by (simp add: New_size)
  next
    case (Frame_size width height)
    let ?p = "p\<lparr>autoIsHandledBySidebar := True\<rparr>"
    have there: "idToView p \<noteq> None" using on(2) by (simp add: views_sound_def)
    have "kept p ?p" by (simp add: kept_def)
    from size_heard(1) [OF on(1,2) this] obtain q where q: "handleSetViewForSize ds True width height ?p = Some q" "kept p q" "auto q = auto p" "heard p q"
      "\<not> auto p \<longrightarrow> view_name q = view_name p" by auto
    from there q(1) have "adaptive_run ds True [Size_message width height] p = Some q" by (auto simp: setAdaptiveViewForSize_def Let_def)
    from size [OF this q(2-5)] show ?thesis by (simp add: Frame_size)
  qed
qed

text \<open>
  C38: let the page and the tool bar agree: the option of the view of the page is the current one, and a checked option
  is the view that is shown or, if it is \<open>auto\<close>, the size decides. When the bar names the page as the page does itself,
  every sequence of choices in the bar and of new sizes of the window and of the frame ends without an exception, and they
  agree again.
\<close>

theorem view_agreed:
  assumes "isAdaptiveEnabled ds" and "views_sound p" and "agreed (b, p)"
    and "page_of_location decode (bar_location b) = page_name (address p)"
    and "\<forall>i. Choose i \<in> set es \<longrightarrow> i < length (view_options b)"
  shows "\<exists>b' p'. joint_run ds decode var es (b, p) = Some (b', p') \<and> agreed (b', p')"
proof -
  have "\<exists>s'. joint_run ds decode var es s = Some s' \<and> in_step ds decode (length (view_options b)) s'"
    if "in_step ds decode (length (view_options b)) s" for s
    using that assms(5)
  proof (induction es arbitrary: s)
    case (Cons e es)
    have "i < length (view_options b)" if "e = Choose i" for i using Cons.prems(2) that by auto
    from joint_step_ok [of ds decode _ "fst s" "snd s" e var, OF _ this] Cons.prems(1) obtain s' where
      "joint_step ds decode var e s = Some s'" "in_step ds decode (length (view_options b)) s'" by (metis prod.collapse)
    with Cons show ?case by simp
  qed simp
  from this [of "(b, p)"] show ?thesis using assms(1-4) by (auto simp: in_step_def)
qed

text \<open>A page with one view for small windows, and its bar.\<close>

definition small_view :: view where
  "small_view = \<lparr>view_id = ''small'', base_view = None, view_width = 400, view_height = 0, view_condition = ''<=''\<rparr>"

definition one_view :: design where
  "one_view = \<lparr>objects = [], sheet = \<lparr>stylesById = Map.empty, defaultStyle = Map.empty\<rparr>, page_style = Map.empty,
     page_adaptiveStyles = (\<lambda>v. Map.empty), isAdaptiveEnabled = True, adaptiveViews = [small_view], enabledViewIds = [''small''],
     defaultHidden = {}, defaultLimbo = {}, idsInMaster = (\<lambda>i. {}), with_input = {}\<rparr>"

definition loaded_page :: "string \<Rightarrow> adaptive_page" where
  "loaded_page a =
     \<lparr>widgetStates = \<lparr>selectedWidgets = {}, disabledWidgets = {}, placeholders = {}, mouseDownObjectId = None, mouseOverIds = [],
        imageOverrides = (\<lambda>i. Map.empty), richTextShapes = {}\<rparr>, src = Map.empty, marks = (\<lambda>e. {}), view_classes = {}, form_sketch = {},
      visible = (\<lambda>i. True), limboIds = {}, adaptiveStyledWidgets = [], currentViewId = None, auto = True, autoIsHandledBySidebar = False,
      idToView = Some (view_map [small_view]), enabledViews = [Some small_view], initialViewToLoad = None, initialViewSizeToLoad = None,
      loadFinished = True, address = a, window_size = (1000, 700), told = []\<rparr>"

definition fresh_bar :: "string \<Rightarrow> toolbar" where
  "fresh_bar a =
     \<lparr>adaptive_shown = False, adaptive_button = False, links_shown = False, links_button = False, highlight_button = False,
      search_shown = False, search_button = False, search_text = [],
      view_options = [\<lparr>opt_value = ''auto'', opt_checked = True, opt_current = False\<rparr>, \<lparr>opt_value = ''default'', opt_checked = False, opt_current = True\<rparr>,
        \<lparr>opt_value = ''small'', opt_checked = False, opt_current = False\<rparr>], bar_location = a, effects = []\<rparr>"

lemmas sample_defs = one_view_def loaded_page_def fresh_bar_def

lemma view_agreed_witness:
  "\<exists>b p. joint_run one_view id ''view'' [New_size 320 480, Choose 1, Frame_size 300 500, Choose 2]
      (fresh_bar ''http://x/a.html'', loaded_page ''http://x/a.html'') = Some (b, p) \<and> agreed (b, p)"
proof (rule view_agreed)
  have "views_of (loaded_page a) ''undefined'' = None" "views_of (loaded_page a) b = Some w \<Longrightarrow> base_view w = None" for a b w
    by (auto simp: views_of_def loaded_page_def view_map_def small_view_def split: if_splits)
  then show "views_sound (loaded_page ''http://x/a.html'')"
    by (auto simp: views_sound_def loaded_page_def views_of_def view_map_def small_view_def split: option.splits
        intro!: exI [of _ "\<lambda>v. if base_view v = None then 0 else 1"])
qed (auto simp: sample_defs agreed_def view_name_def page_of_location_def page_name_def Let_def nth_Cons split: nat.splits)

section \<open>Where they disagree\<close>

text \<open>The bar decodes the address and the page does not: the choice of a page with a blank in its name is not for it.\<close>

function decode_blank :: "string \<Rightarrow> string" where
  "decode_blank s =
     (case s of [] \<Rightarrow> [] | c # cs \<Rightarrow> if take 3 s = ''%20'' then CHR '' '' # decode_blank (drop 3 s) else c # decode_blank cs)"
  by pat_completeness auto
termination
  by (relation "measure length") (auto split: list.splits)

lemma encoded_name_ignored:
  "\<exists>b p. joint_run one_view decode_blank ''view'' [Choose 2] (fresh_bar ''http://x/my%20page.html'', loaded_page ''http://x/my%20page.html'') =
      Some (b, p) \<and> opt_checked (view_options b ! 2) \<and> p = loaded_page ''http://x/my%20page.html'' \<and> \<not> agreed (b, p)"
  by (simp add: sample_defs agreed_def view_name_def page_does_def messages_since_def adaptiveViewOption_click_def Let_def
      page_of_location_def switchAdaptiveView_def page_name_def slice_from_def)

text \<open>No event of the page forces the bar to check another option, also when an action chooses the view.\<close>

definition unforced :: "adaptive_page \<Rightarrow> bool" where
  "unforced p \<longleftrightarrow> (\<forall>v f. Posted v f \<in> set (told p) \<longrightarrow> f = None)"

lemma switch_unforced: "switchView ds framed vid None p = Some q \<Longrightarrow> unforced p \<Longrightarrow> unforced q"
  by (auto simp: switchView_def Let_def viewChangePageAndMasters_def postAdaptiveViewChanged_def unforced_def split: if_splits option.splits)

lemma resize_unforced: "handleResize ds framed None p = Some q \<Longrightarrow> unforced p \<Longrightarrow> unforced q"
  "handleSetViewForSize ds framed width height p = Some q \<Longrightarrow> unforced p \<Longrightarrow> unforced q"
  by (auto simp: handleResize_def handleSetViewForSize_def split: if_splits option.splits dest: switch_unforced)

lemma unforced_fields:
  "unforced (p\<lparr>auto := a\<rparr>) = unforced p" "unforced (p\<lparr>window_size := w\<rparr>) = unforced p"
  "unforced (p\<lparr>autoIsHandledBySidebar := h\<rparr>) = unforced p" "unforced (p\<lparr>idToView := m\<rparr>) = unforced p"
  "unforced (p\<lparr>enabledViews := vs\<rparr>) = unforced p" "unforced (p\<lparr>initialViewToLoad := v\<rparr>) = unforced p"
  "unforced (p\<lparr>initialViewSizeToLoad := s\<rparr>) = unforced p"
  by (simp_all add: unforced_def)

lemma load_unforced: "handleLoadViewId ds framed v None p = Some q \<Longrightarrow> unforced p \<Longrightarrow> unforced q"
  by (auto simp: handleLoadViewId_def unforced_fields split: option.splits dest!: switch_unforced resize_unforced(1))

lemma step_unforced: "adaptive_step ds framed e p = Some q \<Longrightarrow> unforced p \<Longrightarrow> unforced q"
proof (cases e)
  case Load_finished
  then show "adaptive_step ds framed e p = Some q \<Longrightarrow> unforced p \<Longrightarrow> unforced q"
    by (auto simp: load_finished_def Let_def viewChangePageAndMasters_def postAdaptiveViewChanged_def unforced_def split: if_splits)
qed (auto simp: adaptive_initialize_def Let_def setAdaptiveViewForSize_def switchAdaptiveView_def setAdaptiveView_def unforced_fields
    split: if_splits option.splits prod.splits bool.splits dest!: load_unforced resize_unforced)

lemma run_unforced: "adaptive_run ds framed es p = Some q \<Longrightarrow> unforced p \<Longrightarrow> unforced q"
  by (induction es arbitrary: p) (auto split: option.splits dest: step_unforced)

end
