(* ===== verification/AdaptiveLook.thy ===== *)
theory AdaptiveLook
  imports AdaptiveProps
begin

text \<open>
  What a page shows in a view does not depend on the views before it: the pictures, the visibility, the look of the inputs
  and the classes of the page in a view are written down, and every event of the page keeps to them.
\<close>

section \<open>Painting\<close>

fun owner :: "element \<Rightarrow> string" where
  "owner (Own i) = i"
| "owner (Part i c) = i"

text \<open>All of the page but its pictures and the classes of the states.\<close>

definition canvas :: "adaptive_page \<Rightarrow> adaptive_page" where
  "canvas p = p\<lparr>src := Map.empty, marks := (\<lambda>e. {})\<rparr>"

lemma canvas_fields:
  assumes "canvas q = canvas p"
  shows "widgetStates q = widgetStates p" "view_classes q = view_classes p" "form_sketch q = form_sketch p" "visible q = visible p"
    "limboIds q = limboIds p" "adaptiveStyledWidgets q = adaptiveStyledWidgets p" "currentViewId q = currentViewId p"
  using arg_cong [OF assms, of widgetStates] arg_cong [OF assms, of view_classes] arg_cong [OF assms, of form_sketch]
    arg_cong [OF assms, of visible] arg_cong [OF assms, of limboIds] arg_cong [OF assms, of adaptiveStyledWidgets]
    arg_cong [OF assms, of currentViewId]
  by (simp_all add: canvas_def)

text \<open>An operation that paints the widget with an identifier, and nothing else.\<close>

definition paints :: "string \<Rightarrow> adaptive_page \<Rightarrow> adaptive_page \<Rightarrow> bool" where
  "paints i p q \<longleftrightarrow> canvas q = canvas p \<and> (\<forall>e. owner e \<noteq> i \<longrightarrow> src q e = src p e \<and> marks q e = marks p e)"

lemma paints_canvas: "paints i p q \<Longrightarrow> canvas q = canvas p"
  by (simp add: paints_def)

lemmas paints_fields = canvas_fields [OF paints_canvas]

lemma paints_refl [simp]: "paints i p p"
  by (simp add: paints_def)

lemma paints_trans: "paints i p q \<Longrightarrow> paints i q r \<Longrightarrow> paints i p r"
  by (simp add: paints_def)

lemma applyImage_paints: "paints (ident d) p (applyImage d pic st p)"
  by (auto simp: paints_def applyImage_def canvas_def split: picture.splits element.splits)

lemma classes_paints: "paints (owner e) p (updateStateClasses e st p)"
  by (auto simp: paints_def updateStateClasses_def canvas_def)

lemma json_paints: "paints (ident d) p (applyImageAndTextJson chain d st p)"
proof -
  let ?p1 = "case getImageForStateAndView (widgetStates p) chain d st of Some pic \<Rightarrow> applyImage d pic (Some st) p | None \<Rightarrow> p"
  have "paints (ident d) p ?p1" by (simp add: applyImage_paints split: option.splits)
  with classes_paints [of "Own (ident d)" ?p1 st] classes_paints [of "Part (ident d) ''_div''" "updateStateClasses (Own (ident d)) st ?p1" st]
  show ?thesis by (auto simp: applyImageAndTextJson_def Let_def intro: paints_trans)
qed

lemma line_paints: "paints i p (set_line i abc p)"
  by (auto simp: paints_def set_line_def canvas_def split: prod.splits)

lemma fold_paints: "(\<And>x p. x \<in> set xs \<Longrightarrow> paints i p (f x p)) \<Longrightarrow> paints i p (fold f xs p)"
  by (induction xs arbitrary: p) (auto intro: paints_trans)

lemma connector_paints: "paints i p (setAdaptiveConnectorImages i n m v p)"
  unfolding setAdaptiveConnectorImages_def by (rule fold_paints) (auto simp: paints_def canvas_def split: option.splits)

lemma restore_paints: "paints (ident d) p (restore_default d p)"
  by (simp add: restore_default_def Let_def applyImage_paints line_paints connector_paints split: pictures.splits option.splits)

lemma set_pictures_paints: "paints (ident d) p (set_pictures chain v d st p)"
  by (simp add: set_pictures_def applyImage_paints line_paints connector_paints split: pictures.splits option.splits)

lemma reselect_paints: "paints (ident d) p (reselect chain st d p)"
proof -
  have "paints (ident d) p (p\<lparr>marks := (marks p)(Own (ident d) := x)\<rparr>)" for x by (auto simp: paints_def canvas_def)
  then show ?thesis by (auto simp: reselect_def Let_def intro: paints_trans json_paints)
qed

section \<open>States of widgets at rest\<close>

definition at_rest :: "widget_states \<Rightarrow> bool" where
  "at_rest w \<longleftrightarrow> placeholders w = {} \<and> mouseDownObjectId w = None \<and> mouseOverIds w = []"

definition rest_state :: "widget_states \<Rightarrow> string list \<Rightarrow> widget \<Rightarrow> string" where
  "rest_state w chain d = generateState w (\<lambda>i. {}) chain d"

text \<open>The class of selected widgets is only at widgets that are.\<close>

definition marks_sound :: "adaptive_page \<Rightarrow> bool" where
  "marks_sound p \<longleftrightarrow> (\<forall>i. ''selected'' \<in> marks p (Own i) \<longrightarrow> i \<in> selectedWidgets (widgetStates p))"

lemma selected_sound: "marks_sound p \<Longrightarrow> isWidgetSelected (widgetStates p) (\<lambda>i. marks p (Own i)) i \<longleftrightarrow> i \<in> selectedWidgets (widgetStates p)"
  by (auto simp: isWidgetSelected_def marks_sound_def)

lemma state_at_rest: "marks_sound p \<Longrightarrow> state_of chain p d = rest_state (widgetStates p) chain d"
  by (simp add: state_of_def rest_state_def generateState_def selected_sound) (simp add: isWidgetSelected_def)

lemma rest_cases:
  assumes "at_rest w"
  shows "rest_state w chain d =
    (if ident d \<in> disabledWidgets w then ''disabled'' else generateMouseState w chain d ''normal'' (ident d \<in> selectedWidgets w))"
  using assms by (simp add: rest_state_def generateState_def at_rest_def generateSelectedState_def isWidgetDisabled_def isWidgetSelected_def)

lemma rest_selected: "at_rest w \<Longrightarrow> rest_state w chain d = ''selected'' \<Longrightarrow> ident d \<in> selectedWidgets w"
  by (auto simp: rest_cases generateMouseState_def split: if_splits)

lemma rest_normal:
  "at_rest w \<Longrightarrow> ident d \<notin> selectedWidgets w \<Longrightarrow> ident d \<notin> disabledWidgets w \<Longrightarrow> rest_state w chain d = ''normal''"
  by (simp add: rest_cases generateMouseState_def)

lemma set_marks_selected: "''selected'' \<in> set_marks st m \<Longrightarrow> st = Some ''selected''"
  by (auto simp: set_marks_def all_states_def split: option.splits if_splits)

lemma applyImage_marks:
  assumes "marks_sound p" and "st = Some ''selected'' \<Longrightarrow> ident d \<in> selectedWidgets (widgetStates p)"
  shows "marks_sound (applyImage d pic st p)"
  using assms unfolding marks_sound_def
  by (auto simp: applyImage_def dest: set_marks_selected split: picture.splits)

lemma json_marks:
  assumes "marks_sound p" and "st = ''selected'' \<Longrightarrow> ident d \<in> selectedWidgets (widgetStates p)"
  shows "marks_sound (applyImageAndTextJson chain d st p)"
proof -
  have up: "marks_sound (updateStateClasses e st q)"
    if "marks_sound q" "st = ''selected'' \<Longrightarrow> owner e \<in> selectedWidgets (widgetStates q)" for e q
    using that unfolding marks_sound_def by (auto simp: updateStateClasses_def dest: set_marks_selected split: if_splits)
  have keep: "widgetStates (applyImage d pic st' q) = widgetStates q" "widgetStates (updateStateClasses e s q) = widgetStates q" for pic st' q e s
    by (simp_all add: applyImage_def updateStateClasses_def split: picture.splits)
  show ?thesis unfolding applyImageAndTextJson_def Let_def
    by (intro up) (auto simp: keep assms intro: applyImage_marks split: option.splits)
qed

section \<open>The pictures of a view\<close>

text \<open>What the elements of a widget show in a view, whatever they showed before.\<close>

definition pictured :: "widget_states \<Rightarrow> string list \<Rightarrow> string \<Rightarrow> widget \<Rightarrow> (element \<Rightarrow> string option) \<Rightarrow> bool" where
  "pictured w chain v d s \<longleftrightarrow>
     (let i = ident d; st = rest_state w chain d
      in case pictures d of
           NoPictures \<Rightarrow> True
         | Line def m \<Rightarrow> (s (Part i ''_start''), s (Part i ''_end''), s (Part i ''_line'')) =
             (case (if v = [] then def else case m v of Some abc \<Rightarrow> abc | None \<Rightarrow> def) of (a, b, c) \<Rightarrow> (Some a, Some b, Some c))
         | Connector n m \<Rightarrow> (\<forall>k < n. s (Part i (connector_segment k)) = m k v)
         | Compound cs m \<Rightarrow> (\<forall>c \<in> set cs. s (Part i c) = matchImage w i (Some (m c)) chain st)
         | Plain n m \<Rightarrow> s (Own i) = matchImage w i (Some (m(''normal~'' \<mapsto> n))) chain st)"

text \<open>
  What the pictures of a widget need for it: a line and a connector have pictures of their own in each view, a compound
  widget one for the normal state of each component; compound widgets and parts of widgets are neither selected nor disabled,
  and no action has set pictures of compound widgets.
\<close>

definition pictures_ok :: "string set \<Rightarrow> widget_states \<Rightarrow> widget \<Rightarrow> bool" where
  "pictures_ok vs w d \<longleftrightarrow>
     (case pictures d of
        NoPictures \<Rightarrow> True
      | Line def m \<Rightarrow> \<forall>v \<in> vs. m v \<noteq> None
      | Connector n m \<Rightarrow> \<forall>k < n. \<forall>v \<in> insert [] vs. m k v \<noteq> None
      | Compound cs m \<Rightarrow> (\<forall>c \<in> set cs. lookup (m c) ''normal~'' \<noteq> None) \<and> (\<forall>st. getElementImageOverride w (ident d) st = None) \<and>
          ident d \<notin> selectedWidgets w \<and> ident d \<notin> disabledWidgets w
      | Plain n m \<Rightarrow> n \<noteq> [] \<and> (container d \<noteq> None \<longrightarrow> ident d \<notin> selectedWidgets w \<and> ident d \<notin> disabledWidgets w))"

lemma pictured_local:
  "(\<And>e. owner e = ident d \<Longrightarrow> s e = s' e) \<Longrightarrow> pictured w chain v d s = pictured w chain v d s'"
  by (simp add: pictured_def Let_def split: pictures.splits)

lemma lookup_Some: "lookup m k = Some x \<longleftrightarrow> m k = Some x \<and> x \<noteq> []"
  by (auto simp: lookup_def split: option.splits list.splits)

lemma match_there:
  assumes "lookup m ''normal~'' \<noteq> None"
  shows "\<exists>x. matchImage w i (Some m) chain st = Some x \<and> x \<noteq> []"
  using assms
proof (induction w i "Some m" chain st rule: matchImage.induct)
  case (1 w i chain st)
  have views: "x \<noteq> []" if "first_some (\<lambda>v. lookup m (f v)) xs = Some x" for f x and xs :: "string list"
    using that by (induction xs) (auto simp: lookup_Some split: option.splits)
  have there: "x \<noteq> []" if "lookup m' k = Some x" for m' :: "'k \<Rightarrow> string option" and k x
    using that by (simp add: lookup_Some)
  show ?case
  proof (cases "progressState st")
    case None
    then have st: "st = ''normal''" by (simp add: progressState_def split: if_splits)
    obtain y where y: "lookup m (st @ ''~'') = Some y" using 1(2) st by auto
    show ?thesis
      by (subst matchImage.simps) (auto simp: getElementImageOverride_def y there [OF y] dest: views there split: option.splits)
  next
    case (Some st')
    show ?thesis
    proof (cases "getElementImageOverride w i st = None \<and> first_some (\<lambda>v. lookup m (st @ ''~'' @ v)) (rev chain) = None \<and> lookup m (st @ ''~'') = None")
      case True
      with 1 Some show ?thesis by (subst matchImage.simps) simp
    next
      case False
      with Some show ?thesis
        by (subst matchImage.simps) (auto simp: getElementImageOverride_def dest: views there split: option.splits)
    qed
  qed
qed

lemma connector_sets:
  assumes "\<forall>k < n. m k v \<noteq> None"
  shows "\<forall>k < n. src (setAdaptiveConnectorImages i n m v p) (Part i (connector_segment k)) = m k v"
  using assms
proof (induction n)
  case (Suc n)
  have last: "setAdaptiveConnectorImages i (Suc n) m v p =
      (case m n v of Some url \<Rightarrow> (setAdaptiveConnectorImages i n m v p)\<lparr>src := (src (setAdaptiveConnectorImages i n m v p))(Part i (connector_segment n) := Some url)\<rparr>
       | None \<Rightarrow> setAdaptiveConnectorImages i n m v p)"
    by (cases "m n v") (simp_all add: setAdaptiveConnectorImages_def)
  have "connector_segment k = connector_segment n \<longleftrightarrow> k = n" for k by (simp add: connector_segment_def dec_inj)
  then show ?case using Suc by (auto simp: last less_Suc_eq split: option.splits)
qed simp

text \<open>The pictures of a view are set: of a view with a name.\<close>

lemma plain_image:
  assumes "n \<noteq> []"
  obtains x where "matchImage w i (Some (m(''normal~'' \<mapsto> n))) chain st = Some x" and "x \<noteq> []"
  using match_there [of "m(''normal~'' \<mapsto> n)" w i chain st] assms by (cases n) (auto simp: lookup_def)

lemma image_of_plain:
  assumes "pictures d = Plain n m" and "n \<noteq> []"
  shows "\<exists>x. getImageForStateAndView w chain d st = Some (One x) \<and> matchImage w (ident d) (Some (m(''normal~'' \<mapsto> n))) chain st = Some x"
proof -
  obtain x where "matchImage w (ident d) (Some (m(''normal~'' \<mapsto> n))) chain st = Some x" "x \<noteq> []" by (rule plain_image [OF assms(2)])
  then show ?thesis by (cases x) (simp_all add: getImageForStateAndView_def assms(1) images_of_def)
qed

lemma set_pictures_pictured:
  assumes "pictures_ok vs (widgetStates p) d" and "v \<in> vs" and "v \<noteq> []" and "chain = xs @ [v]"
  shows "pictured (widgetStates p) chain v d (src (set_pictures chain v d (rest_state (widgetStates p) chain d) p))"
proof (cases "pictures d")
  case (Line def m)
  with assms show ?thesis by (auto simp: pictured_def set_pictures_def pictures_ok_def set_line_def split: option.splits prod.splits)
next
  case (Connector n m)
  with assms connector_sets [of n m v] show ?thesis by (simp add: pictured_def set_pictures_def pictures_ok_def)
next
  case (Compound cs m)
  have "\<exists>x. matchImage (widgetStates p) (ident d) (Some (m c)) chain st = Some x" if "c \<in> set cs" for c st
    using match_there [of "m c" "widgetStates p" "ident d" chain st] assms(1) that Compound by (auto simp: pictures_ok_def)
  then show ?thesis using Compound
    by (fastforce simp: pictured_def set_pictures_def getImageForStateAndView_def applyImage_def compound_children_def)
next
  case (Plain n m)
  then have "n \<noteq> []" using assms(1) by (simp add: pictures_ok_def)
  from image_of_plain [OF Plain this] obtain x where
    "getImageForStateAndView (widgetStates p) chain d (rest_state (widgetStates p) chain d) = Some (One x)"
    "matchImage (widgetStates p) (ident d) (Some (m(''normal~'' \<mapsto> n))) chain (rest_state (widgetStates p) chain d) = Some x" by metis
  with Plain show ?thesis by (simp add: pictured_def set_pictures_def applyImage_def)
qed (simp add: pictured_def)

text \<open>The pictures of the default view are set: plain widgets that are selected or disabled already show theirs.\<close>

lemma match_default:
  "(case getElementImageOverride w i st of Some x \<Rightarrow> Some x | None \<Rightarrow> lookup m (st @ ''~'')) = Some x \<Longrightarrow>
    matchImage w i (Some m) [] st = Some x"
  by (subst matchImage.simps) (auto split: option.splits)

lemma lookup_other: "k \<noteq> ''normal~'' \<Longrightarrow> lookup (m(''normal~'' \<mapsto> n)) k = lookup m k"
  by (simp add: lookup_def)

lemma applyImage_One: "src (applyImage d (One x) st p) (Own (ident d)) = Some x"
  by (simp add: applyImage_def)

lemma restore_plain:
  assumes "pictures d = Plain n m" and "n \<noteq> []" and "marks_sound p" and "at_rest (widgetStates p)"
    and "ident d \<in> selectedWidgets (widgetStates p) \<union> disabledWidgets (widgetStates p) \<Longrightarrow> pictured (widgetStates p) [] [] d (src p)"
  shows "pictured (widgetStates p) [] [] d (src (restore_default d p))"
proof -
  let ?w = "widgetStates p" and ?i = "ident d" and ?m = "m(''normal~'' \<mapsto> n)"
  define plain where "plain st = (case getElementImageOverride ?w ?i st of Some x \<Rightarrow> Some x | None \<Rightarrow> lookup m (st @ ''~''))" for st
  note pictured = pictured_def [of ?w "[]" "[]" d] assms(1)
  consider (dis) "?i \<in> disabledWidgets ?w" | (sel) "?i \<notin> disabledWidgets ?w" "?i \<in> selectedWidgets ?w"
    | (normal) "?i \<notin> disabledWidgets ?w" "?i \<notin> selectedWidgets ?w" by blast
  then show ?thesis
  proof cases
    case dis
    then have st: "rest_state ?w [] d = ''disabled''" by (simp add: rest_cases [OF assms(4)])
    show ?thesis
    proof (cases "plain ''disabled''")
      case None
      with dis assms(1,5) show ?thesis by (simp add: restore_default_def Let_def isWidgetDisabled_def plain_def)
    next
      case (Some x)
      then have "matchImage ?w ?i (Some ?m) [] ''disabled'' = Some x" by (intro match_default) (simp add: plain_def lookup_other cong: option.case_cong)
      with Some dis show ?thesis
        by (simp add: pictured st applyImage_One restore_default_def Let_def isWidgetDisabled_def plain_def)
    qed
  next
    case sel
    show ?thesis
    proof (cases "plain ''selected''")
      case None
      with sel assms(1,5) show ?thesis
        by (simp add: restore_default_def Let_def isWidgetDisabled_def selected_sound [OF assms(3)] plain_def)
    next
      case (Some x)
      then have st: "rest_state ?w [] d = ''selected''"
        using sel assms(1) by (auto simp: rest_cases [OF assms(4)] generateMouseState_def selected_picture_def plain_def split: option.splits)
      from Some have "matchImage ?w ?i (Some ?m) [] ''selected'' = Some x" by (intro match_default) (simp add: plain_def lookup_other cong: option.case_cong)
      with Some sel show ?thesis
        by (simp add: pictured st applyImage_One restore_default_def Let_def isWidgetDisabled_def selected_sound [OF assms(3)] plain_def)
    qed
  next
    case normal
    then have st: "rest_state ?w [] d = ''normal''" by (simp add: rest_normal [OF assms(4)])
    have "lookup ?m ''normal~'' = Some n" using assms(2) by (simp add: lookup_Some)
    then have "matchImage ?w ?i (Some ?m) [] ''normal'' = Some (case getElementImageOverride ?w ?i ''normal'' of Some x \<Rightarrow> x | None \<Rightarrow> n)"
      by (intro match_default) (simp cong: option.case_cong split: option.split)
    with normal show ?thesis
      by (simp add: pictured st applyImage_One restore_default_def Let_def isWidgetDisabled_def selected_sound [OF assms(3)])
  qed
qed

lemma restore_compound:
  assumes "pictures d = Compound cs m" and "pictures_ok vs (widgetStates p) d" and "marks_sound p" and "at_rest (widgetStates p)"
  shows "pictured (widgetStates p) [] [] d (src (restore_default d p))"
proof -
  let ?w = "widgetStates p" and ?i = "ident d"
  have free: "?i \<notin> selectedWidgets ?w" "?i \<notin> disabledWidgets ?w" and none: "getElementImageOverride ?w ?i st = None" for st
    using assms(1,2) by (simp_all add: pictures_ok_def)
  have "\<exists>x. lookup (m c) ''normal~'' = Some x \<and> matchImage ?w ?i (Some (m c)) [] ''normal'' = Some x" if "c \<in> set cs" for c
    using that assms(1,2) match_default [where w = ?w and i = ?i and st = "''normal''" and m = "m c"] by (auto simp: none pictures_ok_def)
  then show ?thesis using free assms(1)
    by (fastforce simp: pictured_def rest_normal [OF assms(4)] restore_default_def Let_def isWidgetDisabled_def selected_sound [OF assms(3)]
        applyImage_def compound_children_def)
qed

lemma restore_pictured:
  assumes "pictures_ok vs (widgetStates p) d" and "marks_sound p" and "at_rest (widgetStates p)"
    and "container d = None \<Longrightarrow> pictured (widgetStates p) [] [] d (src p) \<or> (\<forall>n m. pictures d \<noteq> Plain n m)"
  shows "pictured (widgetStates p) [] [] d (src (restore_default d p))"
proof (cases "pictures d")
  case (Line def m)
  then show ?thesis by (cases def) (simp add: pictured_def restore_default_def set_line_def)
next
  case (Connector n m)
  then show ?thesis using connector_sets [of n m "[]" "ident d" p] assms(1) by (simp add: pictured_def restore_default_def pictures_ok_def)
next
  case (Compound cs m)
  then show ?thesis using assms(1-3) by (rule restore_compound)
next
  case (Plain n m)
  then show ?thesis using assms by (intro restore_plain) (auto simp: pictures_ok_def)
qed (simp add: pictured_def)

lemma restore_marks:
  assumes "marks_sound p"
  shows "marks_sound (restore_default d p)"
proof -
  have sel: "isWidgetSelected (widgetStates p) (\<lambda>i. marks p (Own i)) (ident d) \<Longrightarrow> ident d \<in> selectedWidgets (widgetStates p)"
    using selected_sound [OF assms] by simp
  have same: "marks q = marks p \<Longrightarrow> widgetStates q = widgetStates p \<Longrightarrow> marks_sound q" for q
    using assms by (simp add: marks_sound_def)
  have unmarked: "marks_sound (applyImage d pic st p)" if "st \<noteq> Some ''selected''" for pic st
    using assms that by (auto intro: applyImage_marks)
  have marked: "marks_sound (applyImage d pic st p)" if "ident d \<in> selectedWidgets (widgetStates p)" for pic st
    using assms that by (rule applyImage_marks)
  show ?thesis
  proof (cases "pictures d")
    case (Line def m)
    have "marks (set_line i abc p) = marks p" for i abc by (simp add: set_line_def split: prod.splits)
    then show ?thesis by (intro same) (simp_all add: Line restore_default_def paints_fields [OF line_paints])
  next
    case (Connector n m)
    have "marks (setAdaptiveConnectorImages i n m v p) = marks p" for i v
      unfolding setAdaptiveConnectorImages_def by (rule fold_keeps) (simp split: option.splits)
    then show ?thesis by (intro same) (simp_all add: Connector restore_default_def paints_fields [OF connector_paints])
  next
    case (Compound cs m)
    then show ?thesis by (simp add: restore_default_def Let_def unmarked marked sel)
  next
    case (Plain n m)
    then show ?thesis by (simp add: restore_default_def Let_def unmarked marked sel assms split: option.splits)
  qed (simp add: restore_default_def assms)
qed

section \<open>All widgets\<close>

lemma fold_each:
  assumes "distinct (map ident xs)" and "I p"
    and step: "\<And>d p. d \<in> set xs \<Longrightarrow> I p \<Longrightarrow> I (f d p)"
    and outside: "\<And>d p e. owner e \<noteq> ident d \<Longrightarrow> src (f d p) e = src p e"
    and sets: "\<And>d p. d \<in> set xs \<Longrightarrow> I p \<Longrightarrow> pre d (src p) \<Longrightarrow> pictured w chain v d (src (f d p))"
    and local: "\<And>d s s'. pre d s \<Longrightarrow> (\<And>e. owner e = ident d \<Longrightarrow> s' e = s e) \<Longrightarrow> pre d s'"
    and "\<forall>d \<in> set xs. pre d (src p)"
  shows "I (fold f xs p) \<and> (\<forall>d \<in> set xs. pictured w chain v d (src (fold f xs p)))"
  using assms(1,2,7) step sets
proof (induction xs arbitrary: p)
  case (Cons x xs)
  have pre: "pre d (src (f x p))" if "d \<in> set xs" for d
  proof (rule local)
    show "pre d (src p)" using Cons.prems(3) that by simp
    show "src (f x p) e = src p e" if "owner e = ident d" for e
      using outside [of e x p] that \<open>d \<in> set xs\<close> Cons.prems(1) by (metis distinct.simps(2) image_eqI list.set_map list.simps(9))
  qed
  have ih: "I (fold f xs (f x p)) \<and> (\<forall>d \<in> set xs. pictured w chain v d (src (fold f xs (f x p))))"
    using Cons.prems pre by (intro Cons.IH) auto
  have "src (fold f ys q) e = src q e" if "owner e \<notin> ident ` set ys" for ys q e
    using that by (induction ys arbitrary: q) (auto simp: outside)
  then have "src (fold f xs (f x p)) e = src (f x p) e" if "owner e = ident x" for e
    using that Cons.prems(1) by simp
  then have "pictured w chain v x (src (fold f xs (f x p))) = pictured w chain v x (src (f x p))"
    by (intro pictured_local) simp
  with Cons.prems ih show ?case by simp
qed simp

text \<open>The widgets with a style of the view before are drawn in the new one.\<close>

lemma json_pictured:
  assumes "pictures d = Plain n m" and "n \<noteq> []"
  shows "pictured (widgetStates p) chain v d (src (applyImageAndTextJson chain d (rest_state (widgetStates p) chain d) p))"
proof -
  obtain x where "getImageForStateAndView (widgetStates p) chain d (rest_state (widgetStates p) chain d) = Some (One x)"
    "matchImage (widgetStates p) (ident d) (Some (m(''normal~'' \<mapsto> n))) chain (rest_state (widgetStates p) chain d) = Some x"
    using image_of_plain [OF assms] by metis
  then show ?thesis by (simp add: pictured_def assms(1) applyImageAndTextJson_def Let_def updateStateClasses_def applyImage_def)
qed

definition redraw :: "design \<Rightarrow> string list \<Rightarrow> string \<Rightarrow> adaptive_page \<Rightarrow> adaptive_page" where
  "redraw ds chain i p =
     (case find (\<lambda>d. ident d = i) (objects ds) of Some d \<Rightarrow> applyImageAndTextJson chain d (state_of chain p d) p | None \<Rightarrow> p)"

lemma redraw_step:
  assumes "marks_sound p" and "at_rest (widgetStates p)"
  shows "paints i p (redraw ds chain i p)" and "marks_sound (redraw ds chain i p)"
  using json_paints json_marks [OF assms(1)] rest_selected [OF assms(2)] assms(1)
  by (auto simp: redraw_def state_at_rest find_Some_iff split: option.splits)

lemma find_ident: "distinct (map ident xs) \<Longrightarrow> d \<in> set xs \<Longrightarrow> find (\<lambda>x. ident x = ident d) xs = Some d"
  by (induction xs) auto

lemma fold_redraw:
  assumes "marks_sound p" and "at_rest (widgetStates p)" and "distinct (map ident (objects ds))"
    and "d \<in> set (objects ds)" and "pictures d = Plain n m" and "n \<noteq> []"
    and "ident d \<in> set ids \<or> pictured (widgetStates p) chain v d (src p)"
  shows "pictured (widgetStates p) chain v d (src (fold (redraw ds chain) ids p))"
  using assms(1,2,7)
proof (induction ids arbitrary: p)
  case (Cons i ids)
  let ?q = "redraw ds chain i p"
  note step = redraw_step [OF Cons.prems(1,2), where i = i and ds = ds and chain = chain]
  have w: "widgetStates ?q = widgetStates p" using step(1) by (rule paints_fields)
  have "ident d \<in> set ids \<or> pictured (widgetStates p) chain v d (src ?q)"
  proof (cases "i = ident d")
    case True
    then have "?q = applyImageAndTextJson chain d (rest_state (widgetStates p) chain d) p"
      by (simp add: redraw_def find_ident [OF assms(3,4)] state_at_rest [OF Cons.prems(1)])
    then show ?thesis using json_pictured [OF assms(5,6)] by simp
  next
    case False
    have "pictured (widgetStates p) chain v d (src ?q) = pictured (widgetStates p) chain v d (src p)"
      using step(1) False by (intro pictured_local) (auto simp: paints_def)
    then show ?thesis using Cons.prems(3) False by simp
  qed
  then have "pictured (widgetStates ?q) chain v d (src (fold (redraw ds chain) ids ?q))"
    using step(2) w Cons.prems(2) by (intro Cons.IH) simp_all
  then show ?case by (simp add: w)
qed simp

lemma fold_redraw_frame:
  assumes "marks_sound p" and "at_rest (widgetStates p)"
  shows "marks_sound (fold (redraw ds chain) ids p) \<and> canvas (fold (redraw ds chain) ids p) = canvas p"
  using assms
proof (induction ids arbitrary: p)
  case (Cons i ids)
  note step = redraw_step [OF Cons.prems, where i = i and ds = ds and chain = chain]
  have "widgetStates (redraw ds chain i p) = widgetStates p" using step(1) by (rule paints_fields)
  then show ?case using Cons.IH [OF step(2)] Cons.prems(2) paints_canvas [OF step(1)] by simp
qed simp

lemma clear_redraws:
  "clearAdaptiveStyles ds chain p = (fold (redraw ds chain) (adaptiveStyledWidgets p) p)\<lparr>adaptiveStyledWidgets := []\<rparr>"
  unfolding clearAdaptiveStyles_def redraw_def [abs_def] ..

lemma reselect_step:
  assumes "marks_sound p" and "at_rest (widgetStates p)" and "st = ''selected'' \<Longrightarrow> ident d \<in> selectedWidgets (widgetStates p)"
  shows "marks_sound (reselect chain st d p)"
proof -
  let ?p = "p\<lparr>marks := (marks p)(Own (ident d) := insert st (marks p (Own (ident d))))\<rparr>"
  have "marks_sound ?p" using assms(1,3) by (auto simp: marks_sound_def)
  then have "marks_sound (applyImageAndTextJson chain d (state_of chain ?p d) ?p)"
    using rest_selected [OF assms(2)] by (intro json_marks) (auto simp: state_at_rest)
  then show ?thesis using assms(1) by (simp add: reselect_def Let_def)
qed

lemma fold_reselect:
  assumes "marks_sound p" and "at_rest (widgetStates p)" and "\<forall>d \<in> set xs. st = ''selected'' \<longrightarrow> ident d \<in> selectedWidgets (widgetStates p)"
  shows "marks_sound (fold (reselect chain st) xs p) \<and> canvas (fold (reselect chain st) xs p) = canvas p"
  using assms
proof (induction xs arbitrary: p)
  case (Cons x xs)
  let ?q = "reselect chain st x p"
  have w: "widgetStates ?q = widgetStates p" by (rule paints_fields [OF reselect_paints])
  have sound: "marks_sound ?q" using Cons.prems by (intro reselect_step) auto
  have rest: "at_rest (widgetStates ?q)" using Cons.prems(2) by (simp only: w)
  have "\<forall>d \<in> set xs. st = ''selected'' \<longrightarrow> ident d \<in> selectedWidgets (widgetStates ?q)" using Cons.prems(3) unfolding w by auto
  from Cons.IH [OF sound rest this] show ?case by (simp add: paints_canvas [OF reselect_paints])
qed simp

lemma reselect_frame:
  assumes "marks_sound p" and "at_rest (widgetStates p)"
  shows "marks_sound (reselectElements ds chain p)" and "canvas (reselectElements ds chain p) = canvas p"
proof -
  let ?q = "fold (reselect chain ''selected'') (filter (\<lambda>d. ident d \<in> selectedWidgets (widgetStates p)) (objects ds)) p"
  have q: "marks_sound ?q" "canvas ?q = canvas p" using fold_reselect [OF assms] by simp_all
  have "widgetStates ?q = widgetStates p" using q(2) by (rule canvas_fields)
  with fold_reselect [OF q(1), of "filter (\<lambda>d. ident d \<in> disabledWidgets (widgetStates p)) (objects ds)" "''disabled''" chain] assms(2) q(2)
  show "marks_sound (reselectElements ds chain p)" "canvas (reselectElements ds chain p) = canvas p"
    by (simp_all add: reselectElements_def)
qed

section \<open>Views\<close>

text \<open>The widgets that are not placed, or hidden, in a view.\<close>

definition style_in :: "design \<Rightarrow> widget_states \<Rightarrow> string list \<Rightarrow> widget \<Rightarrow> style" where
  "style_in ds w chain d = own_style d ++ computeAllOverrides (sheet ds) w chain d None (rest_state w chain d)"

definition limbo_of :: "design \<Rightarrow> widget_states \<Rightarrow> string list \<Rightarrow> widget list \<Rightarrow> string set" where
  "limbo_of ds w chain xs = ident ` {d \<in> set xs. on (style_in ds w chain d) ''limbo'' \<and> container d = None}"

definition hidden_of :: "design \<Rightarrow> widget_states \<Rightarrow> string list \<Rightarrow> widget list \<Rightarrow> string set" where
  "hidden_of ds w chain xs = ident ` {d \<in> set xs. style_in ds w chain d ''visible'' = Some (PBool False)}"

definition limbo_in :: "design \<Rightarrow> widget_states \<Rightarrow> string list \<Rightarrow> string \<Rightarrow> string set" where
  "limbo_in ds w chain v = with_masters ds (if v = [] then defaultLimbo ds else limbo_of ds w chain (objects ds))"

definition hidden_in :: "design \<Rightarrow> widget_states \<Rightarrow> string list \<Rightarrow> string \<Rightarrow> string set" where
  "hidden_in ds w chain v = with_masters ds (if v = [] then defaultHidden ds else hidden_of ds w chain (objects ds))"

text \<open>A page that shows a view.\<close>

definition drawn_as :: "design \<Rightarrow> string list \<Rightarrow> string \<Rightarrow> adaptive_page \<Rightarrow> bool" where
  "drawn_as ds chain v p \<longleftrightarrow>
     (\<forall>d \<in> set (objects ds). pictured (widgetStates p) chain v d (src p)) \<and>
     (\<forall>d \<in> set (objects ds). shown_by_itself d \<longrightarrow>
        (visible p (ident d) \<longleftrightarrow> ident d \<notin> limbo_in ds (widgetStates p) chain v \<and> ident d \<notin> hidden_in ds (widgetStates p) chain v)) \<and>
     limboIds p = limbo_in ds (widgetStates p) chain v \<and>
     (\<forall>i \<in> with_input ds. i \<in> form_sketch p \<longleftrightarrow> areInputsHidden ds chain) \<and>
     view_classes p = (if v = [] then {} else {v})"

lemma addLimbo_shows:
  assumes "limboIds p = {}"
  shows "\<forall>d \<in> set (objects ds). shown_by_itself d \<longrightarrow>
      (visible (addLimboAndHiddenIds ds l h p) (ident d) \<longleftrightarrow> ident d \<notin> with_masters ds l \<and> ident d \<notin> with_masters ds h)"
    and "limboIds (addLimboAndHiddenIds ds l h p) = with_masters ds l"
    and "src (addLimboAndHiddenIds ds l h p) = src p" "marks (addLimboAndHiddenIds ds l h p) = marks p"
    "widgetStates (addLimboAndHiddenIds ds l h p) = widgetStates p" "form_sketch (addLimboAndHiddenIds ds l h p) = form_sketch p"
    "view_classes (addLimboAndHiddenIds ds l h p) = view_classes p" "adaptiveStyledWidgets (addLimboAndHiddenIds ds l h p) = adaptiveStyledWidgets p"
proof -
  define f where "f d q = (let i = ident d; shouldBeVisible = (i \<notin> with_masters ds l \<and> i \<notin> with_masters ds h)
      in if shown_by_itself d \<and> shouldBeVisible \<noteq> visible q i \<and> i \<notin> limboIds q then q\<lparr>visible := (visible q)(i := shouldBeVisible)\<rparr> else q)"
    for d and q :: adaptive_page
  have add: "addLimboAndHiddenIds ds l h p = (fold f (objects ds) p)\<lparr>limboIds := limboIds p \<union> with_masters ds l\<rparr>"
    by (simp add: addLimboAndHiddenIds_def f_def [abs_def] Let_def)
  have keeps: "src (fold f xs q) = src q" "marks (fold f xs q) = marks q" "widgetStates (fold f xs q) = widgetStates q"
    "form_sketch (fold f xs q) = form_sketch q" "view_classes (fold f xs q) = view_classes q"
    "adaptiveStyledWidgets (fold f xs q) = adaptiveStyledWidgets q" "limboIds (fold f xs q) = limboIds q" for xs q
    by (rule fold_keeps, simp add: f_def Let_def)+
  have sets: "\<forall>d. shown_by_itself d \<and> (d \<in> set xs \<or> (visible q (ident d) \<longleftrightarrow> ident d \<notin> with_masters ds l \<and> ident d \<notin> with_masters ds h)) \<longrightarrow>
      (visible (fold f xs q) (ident d) \<longleftrightarrow> ident d \<notin> with_masters ds l \<and> ident d \<notin> with_masters ds h)" if "limboIds q = {}" for xs q
    using that
  proof (induction xs arbitrary: q)
    case (Cons x xs)
    have "limboIds (f x q) = {}" using Cons.prems by (simp add: f_def Let_def)
    note ih = Cons.IH [OF this]
    have "visible (f x q) (ident d) \<longleftrightarrow> ident d \<notin> with_masters ds l \<and> ident d \<notin> with_masters ds h"
      if "shown_by_itself d" "d = x \<or> (visible q (ident d) \<longleftrightarrow> ident d \<notin> with_masters ds l \<and> ident d \<notin> with_masters ds h)" for d
      using that Cons.prems by (auto simp: f_def Let_def)
    with ih show ?case by (metis fold_simps(2) set_ConsD)
  qed simp
  show "\<forall>d \<in> set (objects ds). shown_by_itself d \<longrightarrow>
      (visible (addLimboAndHiddenIds ds l h p) (ident d) \<longleftrightarrow> ident d \<notin> with_masters ds l \<and> ident d \<notin> with_masters ds h)"
    using sets [OF assms] by (simp add: add)
  show "limboIds (addLimboAndHiddenIds ds l h p) = with_masters ds l"
    and "src (addLimboAndHiddenIds ds l h p) = src p" "marks (addLimboAndHiddenIds ds l h p) = marks p"
    "widgetStates (addLimboAndHiddenIds ds l h p) = widgetStates p" "form_sketch (addLimboAndHiddenIds ds l h p) = form_sketch p"
    "view_classes (addLimboAndHiddenIds ds l h p) = view_classes p" "adaptiveStyledWidgets (addLimboAndHiddenIds ds l h p) = adaptiveStyledWidgets p"
    by (simp_all add: add keeps assms)
qed

subsection \<open>A view with a name\<close>

definition note_styled :: "widget \<Rightarrow> adaptive_page \<Rightarrow> adaptive_page" where
  "note_styled d p =
     (if container d = None \<and> ident d \<notin> set (adaptiveStyledWidgets p)
      then p\<lparr>adaptiveStyledWidgets := adaptiveStyledWidgets p @ [ident d]\<rparr> else p)"

definition paint :: "string list \<Rightarrow> string \<Rightarrow> widget_states \<Rightarrow> widget \<Rightarrow> adaptive_page \<Rightarrow> adaptive_page" where
  "paint chain v w d p = note_styled d (set_pictures chain v d (rest_state w chain d) p)"

lemma note_fields [simp]:
  "src (note_styled d p) = src p" "marks (note_styled d p) = marks p" "widgetStates (note_styled d p) = widgetStates p"
  "visible (note_styled d p) = visible p" "limboIds (note_styled d p) = limboIds p" "form_sketch (note_styled d p) = form_sketch p"
  "view_classes (note_styled d p) = view_classes p" "currentViewId (note_styled d p) = currentViewId p"
  "set (adaptiveStyledWidgets (note_styled d p)) = set (adaptiveStyledWidgets p) \<union> (if container d = None then {ident d} else {})"
  by (auto simp: note_styled_def)

lemma set_pictures_marks:
  assumes "marks_sound p" and "at_rest (widgetStates p)"
  shows "marks_sound (set_pictures chain v d (rest_state (widgetStates p) chain d) p)"
proof -
  have same: "marks q = marks p \<Longrightarrow> widgetStates q = widgetStates p \<Longrightarrow> marks_sound q" for q
    using assms(1) by (simp add: marks_sound_def)
  have line: "marks_sound (set_line i abc p)" for i abc
    by (rule same) (simp_all add: set_line_def split: prod.splits)
  have connector: "marks_sound (setAdaptiveConnectorImages i n m x p)" for i n m x
  proof (rule same)
    show "marks (setAdaptiveConnectorImages i n m x p) = marks p"
      unfolding setAdaptiveConnectorImages_def by (rule fold_keeps) (simp split: option.splits)
  qed (rule paints_fields [OF connector_paints])
  have image: "marks_sound (applyImage d pic (Some (rest_state (widgetStates p) chain d)) p)" for pic
    using assms(1) rest_selected [OF assms(2)] by (intro applyImage_marks) auto
  show ?thesis by (cases "pictures d") (auto simp: set_pictures_def line connector image assms(1) split: option.splits)
qed

lemma paint_frame:
  assumes "marks_sound p" and "at_rest (widgetStates p)" and "w = widgetStates p"
  shows "marks_sound (paint chain v w d p)" and "widgetStates (paint chain v w d p) = w"
    and "visible (paint chain v w d p) = visible p" and "limboIds (paint chain v w d p) = limboIds p"
    and "form_sketch (paint chain v w d p) = form_sketch p" and "view_classes (paint chain v w d p) = view_classes p"
    and "set (adaptiveStyledWidgets (paint chain v w d p)) = set (adaptiveStyledWidgets p) \<union> (if container d = None then {ident d} else {})"
  using set_pictures_marks [OF assms(1,2)] assms(3) by (auto simp: paint_def paints_fields [OF set_pictures_paints] marks_sound_def)

lemma object_step:
  assumes "marks_sound p" and "w = widgetStates p"
  shows "applyAdaptiveViewOnObject ds chain v d (p, l, h) = (paint chain v w d p, l \<union> limbo_of ds w chain [d], h \<union> hidden_of ds w chain [d])"
proof -
  have "limbo_of ds w chain [d] = (if on (style_in ds w chain d) ''limbo'' \<and> container d = None then {ident d} else {})"
    "hidden_of ds w chain [d] = (if style_in ds w chain d ''visible'' = Some (PBool False) then {ident d} else {})"
    by (auto simp: limbo_of_def hidden_of_def)
  with assms show ?thesis
    by (simp add: applyAdaptiveViewOnObject_def Let_def state_at_rest paint_def note_styled_def style_in_def)
qed

lemma fold_objects:
  assumes "marks_sound p" and "at_rest w" and "w = widgetStates p"
  shows "fold (applyAdaptiveViewOnObject ds chain v) xs (p, l, h) =
      (fold (paint chain v w) xs p, l \<union> limbo_of ds w chain xs, h \<union> hidden_of ds w chain xs)"
  using assms
proof (induction xs arbitrary: p l h)
  case (Cons x xs)
  have more: "limbo_of ds w chain (x # xs) = limbo_of ds w chain [x] \<union> limbo_of ds w chain xs"
    "hidden_of ds w chain (x # xs) = hidden_of ds w chain [x] \<union> hidden_of ds w chain xs"
    by (auto simp: limbo_of_def hidden_of_def)
  have "at_rest (widgetStates p)" using Cons.prems by simp
  note frame = paint_frame [OF Cons.prems(1) this Cons.prems(3), of chain v x]
  show ?case
    using Cons.IH [OF frame(1) Cons.prems(2) frame(2) [symmetric]]
    by (simp add: object_step [OF Cons.prems(1,3)] Un_assoc more [symmetric])
qed (simp add: limbo_of_def hidden_of_def)

lemma fold_paint_frame:
  assumes "marks_sound p" and "at_rest w" and "w = widgetStates p"
  shows "marks_sound (fold (paint chain v w) xs p) \<and> widgetStates (fold (paint chain v w) xs p) = w \<and>
    limboIds (fold (paint chain v w) xs p) = limboIds p \<and> form_sketch (fold (paint chain v w) xs p) = form_sketch p \<and>
    view_classes (fold (paint chain v w) xs p) = view_classes p \<and>
    set (adaptiveStyledWidgets (fold (paint chain v w) xs p)) = set (adaptiveStyledWidgets p) \<union> ident ` {d \<in> set xs. container d = None}"
  using assms
proof (induction xs arbitrary: p)
  case (Cons x xs)
  have "at_rest (widgetStates p)" using Cons.prems by simp
  note frame = paint_frame [OF Cons.prems(1) this Cons.prems(3), of chain v x]
  show ?case
    using Cons.IH [OF frame(1) Cons.prems(2) frame(2) [symmetric]] frame by auto
qed simp

text \<open>What the drawing of a view rests on, and what it gives.\<close>

definition sound :: "design \<Rightarrow> widget_states \<Rightarrow> adaptive_page \<Rightarrow> bool" where
  "sound ds w p \<longleftrightarrow> widgetStates p = w \<and> at_rest w \<and> marks_sound p \<and> distinct (map ident (objects ds)) \<and>
     (\<forall>d \<in> set (objects ds). pictures_ok (view_id ` set (adaptiveViews ds)) w d)"

definition styled :: "design \<Rightarrow> adaptive_page \<Rightarrow> bool" where
  "styled ds p \<longleftrightarrow> (\<forall>d \<in> set (objects ds). container d = None \<longrightarrow> ident d \<in> set (adaptiveStyledWidgets p))"

lemma input_fields [simp]:
  "src (updateInputVisibility ds chain p) = src p" "marks (updateInputVisibility ds chain p) = marks p"
  "widgetStates (updateInputVisibility ds chain p) = widgetStates p" "limboIds (updateInputVisibility ds chain p) = limboIds p"
  "view_classes (updateInputVisibility ds chain p) = view_classes p"
  "adaptiveStyledWidgets (updateInputVisibility ds chain p) = adaptiveStyledWidgets p"
  "i \<in> with_input ds \<Longrightarrow> i \<in> form_sketch (updateInputVisibility ds chain p) \<longleftrightarrow> areInputsHidden ds chain"
  by (simp_all add: updateInputVisibility_def)

lemma sound_same: "sound ds w p \<Longrightarrow> widgetStates q = widgetStates p \<Longrightarrow> marks q = marks p \<Longrightarrow> sound ds w q"
  by (auto simp: sound_def marks_sound_def)

lemma shown_as:
  assumes "sound ds w r" and "\<forall>d \<in> set (objects ds). pictured w chain v d (src r)" and "limboIds r = {}"
    and "\<forall>i \<in> with_input ds. i \<in> form_sketch r \<longleftrightarrow> areInputsHidden ds chain" and "view_classes r = (if v = [] then {} else {v})"
    and "limbo_in ds w chain v = with_masters ds l" and "hidden_in ds w chain v = with_masters ds h"
  shows "drawn_as ds chain v (addLimboAndHiddenIds ds l h r)" and "sound ds w (addLimboAndHiddenIds ds l h r)"
proof -
  note visibility = addLimbo_shows [OF assms(3), of ds l h]
  show "sound ds w (addLimboAndHiddenIds ds l h r)" using assms(1) visibility(5,4) by (rule sound_same)
  have "widgetStates (addLimboAndHiddenIds ds l h r) = w" using visibility(5) assms(1) by (simp add: sound_def)
  then show "drawn_as ds chain v (addLimboAndHiddenIds ds l h r)"
    unfolding drawn_as_def using assms(2,4-7) visibility by simp
qed

lemma applyView_drawn:
  assumes "sound ds w p" and "limboIds p = {}" and "view_classes p = {}"
    and "v \<in> view_id ` set (adaptiveViews ds)" and "v \<noteq> []" and "chain = xs @ [v]"
  shows "drawn_as ds chain v (applyView ds chain v p) \<and> sound ds w (applyView ds chain v p) \<and> styled ds (applyView ds chain v p)"
proof -
  let ?p = "updateInputVisibility ds chain (p\<lparr>view_classes := insert v (view_classes p)\<rparr>)"
  let ?q = "fold (paint chain v w) (objects ds) ?p"
  have p: "marks_sound ?p" "at_rest w" "w = widgetStates ?p" and distinct: "distinct (map ident (objects ds))"
    and ok: "d \<in> set (objects ds) \<Longrightarrow> pictures_ok (view_id ` set (adaptiveViews ds)) w d" for d
    using assms(1) by (auto simp: sound_def marks_sound_def)
  note frame = fold_paint_frame [OF p, of chain v "objects ds"]
  have outside: "src (paint chain v w d p) e = src p e" if "owner e \<noteq> ident d" for d p e
    using set_pictures_paints [of d p chain v "rest_state w chain d"] that by (simp add: paint_def paints_def)
  let ?I = "\<lambda>q. marks_sound q \<and> widgetStates q = w"
  have step: "?I (paint chain v w d q)" if "?I q" for d q
  proof -
    from that have q: "marks_sound q" "at_rest (widgetStates q)" "w = widgetStates q" using p(2) by simp_all
    show ?thesis using paint_frame(1,2) [OF q] by blast
  qed
  have sets: "pictured w chain v d (src (paint chain v w d q))" if "d \<in> set (objects ds)" "?I q" for d q
    using set_pictures_pictured [OF _ assms(4-6), of q d] ok [OF that(1)] that(2) by (simp add: paint_def)
  have "?I ?q \<and> (\<forall>d \<in> set (objects ds). pictured w chain v d (src ?q))"
  proof (rule fold_each [where pre = "\<lambda>d s. True" and f = "paint chain v w" and p = ?p and xs = "objects ds" and I = ?I])
    show "?I ?p" using p by simp
    show "?I (paint chain v w d q)" if "d \<in> set (objects ds)" "?I q" for d q using that(2) by (rule step)
    show "src (paint chain v w d q) e = src q e" if "owner e \<noteq> ident d" for d q e using that by (rule outside)
    show "pictured w chain v d (src (paint chain v w d q))" if "d \<in> set (objects ds)" "?I q" "True" for d q using that(1,2) by (rule sets)
  qed (simp_all add: distinct)
  then have "\<forall>d \<in> set (objects ds). pictured w chain v d (src ?q)" ..
  moreover have "sound ds w ?q" using frame assms(1) by (simp add: sound_def)
  ultimately have "drawn_as ds chain v (addLimboAndHiddenIds ds (limbo_of ds w chain (objects ds)) (hidden_of ds w chain (objects ds)) ?q)"
    "sound ds w (addLimboAndHiddenIds ds (limbo_of ds w chain (objects ds)) (hidden_of ds w chain (objects ds)) ?q)"
    using frame assms(2,3,5) by (auto intro!: shown_as simp: limbo_in_def hidden_in_def)
  moreover have "applyView ds chain v p = addLimboAndHiddenIds ds (limbo_of ds w chain (objects ds)) (hidden_of ds w chain (objects ds)) ?q"
    using fold_objects [OF p, of ds chain v "objects ds" "{}" "{}"] by (simp add: applyView_def Let_def)
  moreover have "limboIds ?q = {}" using frame assms(2) by simp
  then have "styled ds (addLimboAndHiddenIds ds l h ?q)" for l h
    using frame by (auto simp: styled_def addLimbo_shows(8))
  ultimately show ?thesis by simp
qed

lemma restore_all:
  assumes "sound ds w p" and "\<forall>d \<in> set (objects ds). container d = None \<longrightarrow> (\<forall>n m. pictures d = Plain n m \<longrightarrow> pictured w [] [] d (src p))"
  shows "sound ds w (fold restore_default (objects ds) p) \<and> canvas (fold restore_default (objects ds) p) = canvas p \<and>
    (\<forall>d \<in> set (objects ds). pictured w [] [] d (src (fold restore_default (objects ds) p)))"
proof -
  let ?I = "\<lambda>q. sound ds w q \<and> canvas q = canvas p"
  let ?pre = "\<lambda>d s. container d = None \<longrightarrow> (\<forall>n m. pictures d = Plain n m \<longrightarrow> pictured w [] [] d s)"
  have distinct: "distinct (map ident (objects ds))" using assms(1) by (simp add: sound_def)
  have step: "?I (restore_default d q)" if "?I q" for d q
    using that restore_marks [of q d] paints_fields(1) [OF restore_paints, of d q] paints_canvas [OF restore_paints, of d q]
    by (simp add: sound_def)
  have sets: "pictured w [] [] d (src (restore_default d q))" if "d \<in> set (objects ds)" "?I q" "?pre d (src q)" for d q
    using restore_pictured [of "view_id ` set (adaptiveViews ds)" q d] that by (auto simp: sound_def)
  have outside: "src (restore_default d q) e = src q e" if "owner e \<noteq> ident d" for d q e
    using restore_paints [of d q] that by (simp add: paints_def)
  have local: "?pre d s'" if "?pre d s" "\<And>e. owner e = ident d \<Longrightarrow> s' e = s e" for d s s'
    using pictured_local [of d s' s w "[]" "[]"] that by simp
  show ?thesis
    using fold_each [OF distinct, of ?I p restore_default ?pre w "[]" "[]"] assms step sets outside local by blast
qed

subsection \<open>A change\<close>

lemma sound_canvas: "sound ds w p \<Longrightarrow> marks_sound q \<Longrightarrow> canvas q = canvas p \<Longrightarrow> sound ds w q"
  using canvas_fields(1) [of q p] by (auto simp: sound_def)

lemma sound_fields [simp]:
  "sound ds w (p\<lparr>currentViewId := c\<rparr>) = sound ds w p" "sound ds w (p\<lparr>view_classes := vc\<rparr>) = sound ds w p"
  "sound ds w (p\<lparr>adaptiveStyledWidgets := xs\<rparr>) = sound ds w p" "sound ds w (p\<lparr>limboIds := l\<rparr>) = sound ds w p"
  "sound ds w (updateInputVisibility ds chain p) = sound ds w p"
  by (auto simp: sound_def marks_sound_def)

text \<open>What is left of the view before: no class of it, and plain widgets that show the new view when it is the default one.\<close>

definition leave :: "design \<Rightarrow> string list \<Rightarrow> string \<Rightarrow> adaptive_page \<Rightarrow> adaptive_page" where
  "leave ds chain prev p =
     (if prev \<noteq> [] then (let p = clearAdaptiveStyles ds chain p in p\<lparr>view_classes := view_classes p - {prev}\<rparr>) else reselectElements ds chain p)"

lemma leave_view:
  assumes "sound ds w p" and "prev \<noteq> [] \<longrightarrow> styled ds p" and "view_classes p = (if prev = [] then {} else {prev})"
  shows "sound ds w (leave ds chain prev p)" and "view_classes (leave ds chain prev p) = {}"
    and "prev \<noteq> [] \<Longrightarrow> d \<in> set (objects ds) \<Longrightarrow> container d = None \<Longrightarrow> pictures d = Plain n m \<Longrightarrow>
      pictured w chain v d (src (leave ds chain prev p))"
proof -
  have p: "marks_sound p" "at_rest (widgetStates p)" "w = widgetStates p" "distinct (map ident (objects ds))"
    and ok: "d \<in> set (objects ds) \<Longrightarrow> pictures_ok (view_id ` set (adaptiveViews ds)) w d" for d
    using assms(1) by (auto simp: sound_def)
  let ?r = "fold (redraw ds chain) (adaptiveStyledWidgets p) p"
  have r: "marks_sound ?r" "canvas ?r = canvas p" using fold_redraw_frame [OF p(1,2)] by simp_all
  have s: "marks_sound (reselectElements ds chain p)" "canvas (reselectElements ds chain p) = canvas p"
    using reselect_frame [OF p(1,2)] by simp_all
  show "sound ds w (leave ds chain prev p)"
    using sound_canvas [OF assms(1) r] sound_canvas [OF assms(1) s] by (simp add: leave_def clear_redraws Let_def)
  show "view_classes (leave ds chain prev p) = {}"
    using canvas_fields(2) [OF r(2)] canvas_fields(2) [OF s(2)] assms(3) by (simp add: leave_def clear_redraws Let_def)
  show "pictured w chain v d (src (leave ds chain prev p))" if "prev \<noteq> []" "d \<in> set (objects ds)" "container d = None" "pictures d = Plain n m"
  proof -
    have "ident d \<in> set (adaptiveStyledWidgets p)" using assms(2) that by (simp add: styled_def)
    moreover have "n \<noteq> []" using ok [OF that(2)] that(4) by (simp add: pictures_ok_def)
    ultimately have "pictured w chain v d (src ?r)"
      using fold_redraw [OF p(1,2,4) that(2,4), of "adaptiveStyledWidgets p" chain v] p(3) by simp
    then show ?thesis using that(1) by (simp add: leave_def clear_redraws Let_def)
  qed
qed

lemma draw_drawn:
  assumes "sound ds w p" and "prev \<noteq> [] \<longrightarrow> styled ds p" and "view_classes p = (if prev = [] then {} else {prev})" and "v \<noteq> prev"
    and "v = [] \<and> chain = [] \<or> v \<in> view_id ` set (adaptiveViews ds) \<and> v \<noteq> [] \<and> (\<exists>xs. chain = xs @ [v])"
  shows "drawn_as ds chain v (draw_view ds chain prev v p) \<and> sound ds w (draw_view ds chain prev v p) \<and>
    (v \<noteq> [] \<longrightarrow> styled ds (draw_view ds chain prev v p))"
proof -
  let ?p = "p\<lparr>currentViewId := Some v\<rparr>"
  let ?q0 = "leave ds chain prev ?p"
  define q where "q = ?q0"
  have "sound ds w ?p" "prev \<noteq> [] \<longrightarrow> styled ds ?p" "view_classes ?p = (if prev = [] then {} else {prev})"
    using assms(1-3) by (simp_all add: styled_def)
  note left = leave_view [OF this, where chain = chain, folded q_def]
  have draw: "draw_view ds chain prev v p =
      (if v = [] then resetLimboAndHiddenToDefaults ds (fold restore_default (objects ds) (updateInputVisibility ds chain q))
       else applyView ds chain v (clearLimboAndHidden q))"
    by (simp add: draw_view_def q_def leave_def Let_def)
  show ?thesis
  proof (cases "v = []")
    case True
    then have prev: "prev \<noteq> []" and chain: "chain = []" using assms(4,5) by auto
    let ?q = "updateInputVisibility ds [] q" let ?r = "fold restore_default (objects ds) ?q"
    have plain: "\<forall>d \<in> set (objects ds). container d = None \<longrightarrow> (\<forall>n m. pictures d = Plain n m \<longrightarrow> pictured w [] [] d (src ?q))"
      using left(3) [OF prev] chain by auto
    have "sound ds w ?q" using left(1) by simp
    note all = restore_all [OF this plain]
    have fields: "view_classes ?r = {}" "\<And>i. i \<in> with_input ds \<Longrightarrow> i \<in> form_sketch ?r \<longleftrightarrow> areInputsHidden ds []"
      using all canvas_fields(2,3) [of ?r ?q] left(2) by auto
    let ?s = "clearLimboAndHidden ?r" let ?t = "addLimboAndHiddenIds ds (defaultLimbo ds) (defaultHidden ds) ?s"
    have s: "sound ds w ?s" "\<forall>d \<in> set (objects ds). pictured w [] [] d (src ?s)" "limboIds ?s = {}" "view_classes ?s = {}"
      "\<forall>i \<in> with_input ds. i \<in> form_sketch ?s \<longleftrightarrow> areInputsHidden ds []"
      using all fields by (simp_all add: clearLimboAndHidden_def)
    have "drawn_as ds [] [] ?t" "sound ds w ?t"
      using s by (auto intro!: shown_as simp: limbo_in_def hidden_in_def)
    moreover have "draw_view ds chain prev v p = ?t"
      unfolding draw by (simp add: True chain resetLimboAndHiddenToDefaults_def)
    ultimately show ?thesis using True chain by simp
  next
    case False
    then obtain xs where v: "v \<in> view_id ` set (adaptiveViews ds)" "chain = xs @ [v]" using assms(5) by auto
    have "sound ds w (clearLimboAndHidden q)" "limboIds (clearLimboAndHidden q) = {}" "view_classes (clearLimboAndHidden q) = {}"
      using left(1,2) by (simp_all add: clearLimboAndHidden_def)
    from applyView_drawn [OF this v(1) False v(2)] show ?thesis using False by (simp add: draw)
  qed
qed

section \<open>Every event\<close>

definition known :: "design \<Rightarrow> string \<Rightarrow> bool" where
  "known ds v \<longleftrightarrow> v = [] \<or> v \<in> view_id ` set (adaptiveViews ds)"

definition event_known :: "design \<Rightarrow> adaptive_event \<Rightarrow> bool" where
  "event_known ds e \<longleftrightarrow>
     (case e of Switch_message s v \<Rightarrow> v \<in> {''auto'', ''default''} \<or> known ds v
      | Action_view v \<Rightarrow> v \<in> {''auto'', ''default''} \<or> known ds v
      | _ \<Rightarrow> True)"

text \<open>A design whose enabled views exist and whose base views have ranks.\<close>

definition design_ok :: "design \<Rightarrow> bool" where
  "design_ok ds \<longleftrightarrow> set (enabledViewIds ds) \<subseteq> view_id ` set (adaptiveViews ds) \<and>
     (\<exists>rank :: view \<Rightarrow> nat. \<forall>v w. view_map (adaptiveViews ds) (case base_view v of Some b \<Rightarrow> b | None \<Rightarrow> ''undefined'') = Some w \<longrightarrow> rank w < rank v)"

lemma view_map_iff:
  "view_map vs k = Some v \<Longrightarrow> view_id v = k \<and> v \<in> set vs" "k \<in> view_id ` set vs \<Longrightarrow> view_map vs k \<noteq> None"
proof -
  have fold: "fold (\<lambda>v m. m(view_id v \<mapsto> v)) vs m k = (case find (\<lambda>v. view_id v = k) (rev vs) of Some v \<Rightarrow> Some v | None \<Rightarrow> m k)" for m :: "string \<Rightarrow> view option"
    by (induction vs rule: rev_induct) auto
  show "view_map vs k = Some v \<Longrightarrow> view_id v = k \<and> v \<in> set vs" "k \<in> view_id ` set vs \<Longrightarrow> view_map vs k \<noteq> None"
    by (auto simp: view_map_def fold find_Some_iff find_None_iff split: option.splits) (metis nth_mem set_rev length_rev)
qed

text \<open>The name of the view that is shown, and the chain of a view.\<close>

definition shown_view :: "adaptive_page \<Rightarrow> string" where
  "shown_view p = (case currentViewId p of Some v \<Rightarrow> v | None \<Rightarrow> [])"

definition chain_of :: "design \<Rightarrow> string \<Rightarrow> string list" where
  "chain_of ds v = the (getAdaptiveIdChain (view_map (adaptiveViews ds)) v)"

text \<open>The page shows its view.\<close>

definition shows_view :: "design \<Rightarrow> adaptive_page \<Rightarrow> bool" where
  "shows_view ds p \<longleftrightarrow> drawn_as ds (chain_of ds (shown_view p)) (shown_view p) p"

definition page_ok :: "design \<Rightarrow> widget_states \<Rightarrow> adaptive_page \<Rightarrow> bool" where
  "page_ok ds w p \<longleftrightarrow> sound ds w p \<and> (idToView p = Some (view_map (adaptiveViews ds)) \<or> idToView p = None \<and> shown_view p = []) \<and>
     known ds (shown_view p) \<and> (shown_view p \<noteq> [] \<longrightarrow> styled ds p) \<and> shows_view ds p \<and>
     set (enabledViews p) \<subseteq> Some ` set (adaptiveViews ds) \<and> (\<forall>v. initialViewToLoad p = Some v \<longrightarrow> known ds v)"

lemma chain_known:
  assumes "design_ok ds" and "known ds v"
  shows "getAdaptiveIdChain (view_map (adaptiveViews ds)) v = Some (chain_of ds v)"
    and "v = [] \<and> chain_of ds v = [] \<or> v \<in> view_id ` set (adaptiveViews ds) \<and> v \<noteq> [] \<and> (\<exists>xs. chain_of ds v = xs @ [v])"
proof -
  from assms(1) obtain rank :: "view \<Rightarrow> nat" where
    "\<And>v w. view_map (adaptiveViews ds) (case base_view v of Some b \<Rightarrow> b | None \<Rightarrow> ''undefined'') = Some w \<Longrightarrow> rank w < rank v"
    by (auto simp: design_ok_def)
  from climb_ends [of "view_map (adaptiveViews ds)" rank, OF this]
  have "\<exists>c. getAdaptiveIdChain (view_map (adaptiveViews ds)) v = Some c" by (simp add: getAdaptiveIdChain_def)
  then show chain: "getAdaptiveIdChain (view_map (adaptiveViews ds)) v = Some (chain_of ds v)" by (auto simp: chain_of_def)
  show "v = [] \<and> chain_of ds v = [] \<or> v \<in> view_id ` set (adaptiveViews ds) \<and> v \<noteq> [] \<and> (\<exists>xs. chain_of ds v = xs @ [v])"
  proof (cases "v = []")
    case True
    then show ?thesis using chain by (simp add: getAdaptiveIdChain_def)
  next
    case False
    then have v: "v \<in> view_id ` set (adaptiveViews ds)" using assms(2) by (simp add: known_def)
    then obtain x where x: "view_map (adaptiveViews ds) v = Some x" using view_map_iff(2) by auto
    with climb_last [of "view_map (adaptiveViews ds)" "Some x" "[]" "chain_of ds v"] chain False view_map_iff(1) [OF x]
    show ?thesis using v by (auto simp: getAdaptiveIdChain_def)
  qed
qed

lemma page_ok_fields [simp]:
  "page_ok ds w (p\<lparr>told := t\<rparr>) = page_ok ds w p" "page_ok ds w (p\<lparr>auto := a\<rparr>) = page_ok ds w p"
  "page_ok ds w (p\<lparr>window_size := s\<rparr>) = page_ok ds w p" "page_ok ds w (p\<lparr>autoIsHandledBySidebar := h\<rparr>) = page_ok ds w p"
  "page_ok ds w (p\<lparr>loadFinished := l\<rparr>) = page_ok ds w p" "page_ok ds w (p\<lparr>initialViewSizeToLoad := z\<rparr>) = page_ok ds w p"
  by (simp_all add: page_ok_def sound_def marks_sound_def styled_def shows_view_def shown_view_def drawn_as_def)

lemma post_ok [simp]:
  "page_ok ds w (postAdaptiveViewChanged framed force p) = page_ok ds w p" "page_ok ds w (viewChangePageAndMasters framed force p) = page_ok ds w p"
  by (simp_all add: postAdaptiveViewChanged_def viewChangePageAndMasters_def)

lemma switch_ok:
  assumes "design_ok ds" and "page_ok ds w p" and "idToView p \<noteq> None" and "known ds (case vid of Some v \<Rightarrow> v | None \<Rightarrow> [])"
  shows "\<exists>q. switchView ds framed vid force p = Some q \<and> page_ok ds w q"
proof -
  let ?v = "case vid of Some v \<Rightarrow> v | None \<Rightarrow> []"
  have views: "views_of p = view_map (adaptiveViews ds)" using assms(2,3) by (auto simp: page_ok_def views_of_def)
  note chain = chain_known [OF assms(1,4)]
  show ?thesis
  proof (cases "\<not> isAdaptiveEnabled ds \<or> ?v = shown_view p")
    case True
    then show ?thesis using assms(2) by (auto simp: switchView_def Let_def shown_view_def)
  next
    case False
    let ?q = "draw_view ds (chain_of ds ?v) (shown_view p) ?v p"
    have p: "sound ds w p" "shown_view p \<noteq> [] \<longrightarrow> styled ds p" "view_classes p = (if shown_view p = [] then {} else {shown_view p})"
      using assms(2) by (simp_all add: page_ok_def shows_view_def drawn_as_def)
    have "?v \<noteq> shown_view p" using False by simp
    from draw_drawn [OF p this chain(2)] have "page_ok ds w ?q"
      using assms(2-4) by (auto simp: page_ok_def shows_view_def shown_view_def)
    then show ?thesis using False chain(1) by (simp add: switchView_def Let_def shown_view_def views)
  qed
qed

text \<open>The size of a window or of the frame.\<close>

lemma choice_known:
  assumes "page_ok ds w p" and "getAdaptiveView (enabledViews p) width height = Some x"
  shows "known ds (case map_option view_id x of Some v \<Rightarrow> v | None \<Rightarrow> [])"
proof -
  have from_list: "v \<in> set vs" if "first_by k vs = Some v" for k :: "view \<Rightarrow> int \<times> int" and vs v
    using that by (simp add: first_by_def split: list.splits) (metis list.set_intros(1) set_sort)
  obtain vs where vs: "enabledViews p = map Some vs" "set vs \<subseteq> set (adaptiveViews ds)"
  proof (rule that)
    have sub: "set (enabledViews p) \<subseteq> Some ` set (adaptiveViews ds)" using assms(1) by (simp add: page_ok_def)
    then have "map (Some \<circ> the) (enabledViews p) = enabledViews p" by (intro map_idI) auto
    then show "enabledViews p = map Some (map the (enabledViews p))" by simp
    show "set (map the (enabledViews p)) \<subseteq> set (adaptiveViews ds)" using sub by auto
  qed
  let ?lo = "filter (\<lambda>v. view_condition v \<noteq> ''>='' \<and> isWindowLessThanView v width height) vs"
  let ?hi = "filter (\<lambda>v. view_condition v = ''>='' \<and> isWindowGreaterThanView v width height) vs"
  have "x = (case first_by up ?lo of Some v \<Rightarrow> Some v | None \<Rightarrow> first_by down ?hi)"
    using assms(2) unfolding vs(1)
    by (auto simp: getAdaptiveView_def fold_consider fold_better [OF before_up] fold_better [OF before_down] comp_def)
  then have "x = first_by up ?lo \<or> x = first_by down ?hi" by (auto split: option.splits)
  then have "v \<in> set vs" if "x = Some v" for v using from_list [of up ?lo v] from_list [of down ?hi v] that by auto
  then show ?thesis using vs(2) by (cases x) (auto simp: known_def)
qed

lemma view_there:
  assumes "page_ok ds w p"
  shows "\<exists>x. getAdaptiveView (enabledViews p) width height = Some x"
  using assms by (auto simp: getAdaptiveView_def page_ok_def case_prod_beta Let_def)

lemma size_ok:
  assumes "design_ok ds" and "page_ok ds w p" and "idToView p \<noteq> None"
  shows "\<exists>q. handleSetViewForSize ds framed width height p = Some q \<and> page_ok ds w q"
    and "\<exists>q. handleResize ds framed force p = Some q \<and> page_ok ds w q"
proof -
  show "\<exists>q. handleSetViewForSize ds framed width height p = Some q \<and> page_ok ds w q"
    using view_there [OF assms(2), of width height] switch_ok [OF assms choice_known [OF assms(2)]] assms(2)
    by (fastforce simp: handleSetViewForSize_def)
  show "\<exists>q. handleResize ds framed force p = Some q \<and> page_ok ds w q"
    using view_there [OF assms(2), of "fst (window_size p)" "snd (window_size p)"] switch_ok [OF assms choice_known [OF assms(2)]] assms(2)
    by (fastforce simp: handleResize_def)
qed

lemma load_ok:
  assumes "design_ok ds" and "page_ok ds w p" and "idToView p \<noteq> None" and "\<forall>x. v = Some x \<longrightarrow> known ds x"
  shows "\<exists>q. handleLoadViewId ds framed v force p = Some q \<and> page_ok ds w q"
proof (cases v)
  case None
  then show ?thesis using size_ok(2) [OF assms(1), of w "p\<lparr>auto := True\<rparr>"] assms(2,3) by (simp add: handleLoadViewId_def)
next
  case (Some x)
  then have "known ds (case Some (if x \<noteq> ''default'' then x else []) of Some v \<Rightarrow> v | None \<Rightarrow> [])" using assms(4) by (simp add: known_def)
  with switch_ok [OF assms(1), of w "p\<lparr>auto := False\<rparr>"] assms(2,3) Some show ?thesis by (simp add: handleLoadViewId_def)
qed

lemma named_known: "v \<in> {''auto'', ''default''} \<or> known ds v \<Longrightarrow> view_for_sitemap v = Some x \<Longrightarrow> known ds x"
  by (auto simp: view_for_sitemap_def known_def split: if_splits)

lemma quiet_fields [simp]:
  "sound ds w (p\<lparr>idToView := m\<rparr>) = sound ds w p" "sound ds w (p\<lparr>enabledViews := vs\<rparr>) = sound ds w p"
  "sound ds w (p\<lparr>initialViewToLoad := v\<rparr>) = sound ds w p" "styled ds (p\<lparr>idToView := m\<rparr>) = styled ds p"
  "styled ds (p\<lparr>enabledViews := vs\<rparr>) = styled ds p" "styled ds (p\<lparr>initialViewToLoad := v\<rparr>) = styled ds p"
  "shows_view ds (p\<lparr>idToView := m\<rparr>) = shows_view ds p" "shows_view ds (p\<lparr>enabledViews := vs\<rparr>) = shows_view ds p"
  "shows_view ds (p\<lparr>initialViewToLoad := v\<rparr>) = shows_view ds p" "shown_view (p\<lparr>idToView := m\<rparr>) = shown_view p"
  "shown_view (p\<lparr>enabledViews := vs\<rparr>) = shown_view p" "shown_view (p\<lparr>initialViewToLoad := v\<rparr>) = shown_view p"
  by (simp_all add: sound_def marks_sound_def styled_def shows_view_def shown_view_def drawn_as_def)

lemma load_later: "page_ok ds w p \<Longrightarrow> \<forall>x. v = Some x \<longrightarrow> known ds x \<Longrightarrow> page_ok ds w (p\<lparr>initialViewToLoad := v\<rparr>)"
  by (simp add: page_ok_def)

lemma initialize_ok:
  assumes "design_ok ds" and "page_ok ds w p"
  shows "\<exists>q. adaptive_initialize ds framed p = Some q \<and> page_ok ds w q"
proof -
  let ?m = "view_map (adaptiveViews ds)" let ?p = "p\<lparr>idToView := Some ?m\<rparr>"
  let ?q = "?p\<lparr>enabledViews := enabledViews ?p @ map ?m (enabledViewIds ds)\<rparr>"
  have p: "page_ok ds w ?p"
    using assms(2) by (simp add: page_ok_def)
  have "x \<in> Some ` set (adaptiveViews ds)" if "x \<in> set (map ?m (enabledViewIds ds))" for x
  proof -
    from that obtain i where "i \<in> set (enabledViewIds ds)" "x = ?m i" by auto
    moreover from this(1) have "?m i \<noteq> None" using assms(1) by (intro view_map_iff(2)) (auto simp: design_ok_def)
    ultimately show ?thesis using view_map_iff(1) by auto
  qed
  then have q: "page_ok ds w ?q"
    using p by (auto simp: page_ok_def)
  have "\<forall>x. initialViewToLoad ?q = Some x \<longrightarrow> known ds x" using assms(2) by (simp add: page_ok_def)
  from size_ok(1) [OF assms(1) q] load_ok [OF assms(1) q _ this, of framed None] p show ?thesis
    by (auto simp: adaptive_initialize_def Let_def split: option.splits prod.splits bool.splits)
qed

lemma step_ok:
  assumes "design_ok ds" and "page_ok ds w p" and "event_known ds e"
  shows "\<exists>q. adaptive_step ds framed e p = Some q \<and> page_ok ds w q"
proof (cases e)
  case Initialize
  then show ?thesis using initialize_ok assms by simp
next
  case Load_finished
  then show ?thesis using assms(2) by (simp add: load_finished_def Let_def)
next
  case (Window_resized width height)
  then show ?thesis using size_ok(2) [OF assms(1), of w "p\<lparr>window_size := (width, height)\<rparr>"] assms(2) by (simp add: Let_def)
next
  case (Switch_message s v)
  then have known: "\<forall>x. view_for_sitemap v = Some x \<longrightarrow> known ds x" using assms(3) named_known by (auto simp: event_known_def)
  show ?thesis using load_ok [OF assms(1,2) _ known, of framed None] load_later [OF assms(2) known] assms(2)
    by (auto simp: Switch_message switchAdaptiveView_def split: option.splits)
next
  case (Size_message width height)
  then show ?thesis using size_ok(1) [OF assms(1), of w "p\<lparr>autoIsHandledBySidebar := True\<rparr>"] assms(2)
    by (auto simp: setAdaptiveViewForSize_def Let_def split: option.splits)
next
  case (Action_view v)
  then have known: "\<forall>x. view_for_sitemap v = Some x \<longrightarrow> known ds x" using assms(3) named_known by (auto simp: event_known_def)
  show ?thesis using load_ok [OF assms(1,2) _ known, of framed None] load_later [OF assms(2) known]
    by (auto simp: Action_view setAdaptiveView_def split: option.splits)
qed


definition shop :: design where
  "shop = one_view\<lparr>objects :=
     [Widget ''u1'' Shape (Plain ''u1.png'' [''normal~small'' \<mapsto> ''u1_small.png'']) Map.empty [''small'' \<mapsto> [''visible'' \<mapsto> PBool False]] None]\<rparr>"

definition shop_page :: adaptive_page where
  "shop_page = (loaded_page ''http://x/a.html'')\<lparr>src := [Own ''u1'' \<mapsto> ''u1.png'']\<rparr>"


section \<open>What a view leaves behind\<close>

text \<open>A line without a picture for a view keeps that of the view before.\<close>

definition wide_view :: view where
  "wide_view = \<lparr>view_id = ''wide'', base_view = None, view_width = 1200, view_height = 0, view_condition = ''>=''\<rparr>"

definition with_line :: design where
  "with_line = one_view\<lparr>adaptiveViews := [small_view, wide_view],
     objects := [Widget ''u2'' Shape (Line (''a.png'', ''b.png'', ''c.png'') [''small'' \<mapsto> (''as.png'', ''bs.png'', ''cs.png'')]) Map.empty Map.empty None]\<rparr>"

definition line_page :: adaptive_page where
  "line_page = (loaded_page ''http://x/a.html'')\<lparr>idToView := Some (view_map [small_view, wide_view]),
     src := [Part ''u2'' ''_start'' \<mapsto> ''a.png'', Part ''u2'' ''_end'' \<mapsto> ''b.png'', Part ''u2'' ''_line'' \<mapsto> ''c.png'']\<rparr>"

lemma line_kept:
  assumes "v \<noteq> []"
  shows "src (draw_view with_line [v] prev v p) (Part ''u2'' ''_line'') = (if v = ''small'' then Some ''cs.png'' else src p (Part ''u2'' ''_line''))"
proof -
  let ?read = "\<lambda>p. src p (Part ''u2'' ''_line'')"
  have line: "pictures d = Line (''a.png'', ''b.png'', ''c.png'') [''small'' \<mapsto> (''as.png'', ''bs.png'', ''cs.png'')]" "ident d = ''u2''"
    if "d \<in> set (objects with_line)" for d
    using that by (simp_all add: with_line_def)
  have json: "?read (applyImageAndTextJson c d st p) = ?read p" if "d \<in> set (objects with_line)" for c d st p
    using line [OF that] by (auto simp: applyImageAndTextJson_def Let_def updateStateClasses_def applyImage_def getImageForStateAndView_def
        split: option.splits list.splits)
  have redraw: "?read (fold (redraw with_line c) ids p) = ?read p" for c ids p
    by (rule fold_keeps [where c = ?read]) (auto simp: redraw_def json find_Some_iff split: option.splits)
  have one: "objects with_line = [d] \<Longrightarrow> ?read (reselectElements with_line c p) = ?read p" for c p d
    using json [of d] by (simp add: reselectElements_def reselect_def Let_def)
  have reselect: "?read (reselectElements with_line c p) = ?read p" for c p
    by (rule one) (simp add: with_line_def)
  have add: "?read (addLimboAndHiddenIds with_line l h p) = ?read p" for l h p
    by (simp add: addLimboAndHiddenIds_def with_line_def Let_def)
  have paint: "?read (fst (fold (applyAdaptiveViewOnObject with_line [v] v) (objects with_line) x)) =
      (if v = ''small'' then Some ''cs.png'' else ?read (fst x))" for x
    by (auto simp: with_line_def applyAdaptiveViewOnObject_def Let_def set_pictures_def set_line_def case_prod_beta)
  have apply_view: "?read (applyView with_line [v] v p) = (if v = ''small'' then Some ''cs.png'' else ?read p)" for p
    by (simp add: applyView_def Let_def case_prod_beta add paint)
  show ?thesis
    using assms by (simp add: draw_view_def Let_def apply_view clearLimboAndHidden_def clear_redraws redraw reselect)
qed

lemma line_of_old_view:
  "map_option (\<lambda>p. src p (Part ''u2'' ''_line'')) (adaptive_run with_line True [Action_view ''wide''] line_page) = Some (Some ''c.png'')"
  "map_option (\<lambda>p. src p (Part ''u2'' ''_line'')) (adaptive_run with_line True [Action_view ''small'', Action_view ''wide''] line_page) =
    Some (Some ''cs.png'')"
proof -
  have chain: "getAdaptiveIdChain (view_map [small_view, wide_view]) v = Some [v]" if "v = ''small'' \<or> v = ''wide''" for v
    using that by (auto simp: getAdaptiveIdChain_def view_map_def small_view_def wide_view_def climb_views.simps)
  have enabled: "isAdaptiveEnabled with_line" by (simp add: with_line_def one_view_def)
  have start: "idToView line_page = Some (view_map [small_view, wide_view])" "currentViewId line_page = None" "loadFinished line_page"
    "src line_page (Part ''u2'' ''_line'') = Some ''c.png''"
    by (simp_all add: line_page_def loaded_page_def)
  note act = setAdaptiveView_def handleLoadViewId_def view_for_sitemap_def switchView_def Let_def chain views_of_def enabled
    viewChangePageAndMasters_def postAdaptiveViewChanged_def
  show "map_option (\<lambda>p. src p (Part ''u2'' ''_line'')) (adaptive_run with_line True [Action_view ''wide''] line_page) = Some (Some ''c.png'')"
    "map_option (\<lambda>p. src p (Part ''u2'' ''_line'')) (adaptive_run with_line True [Action_view ''small'', Action_view ''wide''] line_page) =
      Some (Some ''cs.png'')"
    by (simp_all add: act start line_kept)
qed

text \<open>
  On the way back to the default view a disabled plain widget without a picture for it is left as it is; when it is part of
  another widget nothing else has given it the default picture.
\<close>

lemma disabled_not_restored:
  assumes "pictures d = Plain n m" and "ident d \<in> disabledWidgets (widgetStates p)"
    and "getElementImageOverride (widgetStates p) (ident d) ''disabled'' = None" and "lookup m ''disabled~'' = None"
  shows "restore_default d p = p"
  using assms by (simp add: restore_default_def Let_def isWidgetDisabled_def)

end
