(* ===== verification/Console.thy ===== *)
theory Console
  imports Main
begin

text \<open>
  The notes and the console around the prototype (\<open>page_notes.js\<close> and \<open>debug.js\<close> in \<open>startPost.js\<close>): the notes of a
  page, the widget note that is selected, the values of the global variables, and the trace of the events of the page
  with their cases and actions. What the browser shows for a time and what \<open>linkify\<close> makes of a text are parameters.
\<close>

section \<open>Notes\<close>

text \<open>
  A widget note has an identifier, a label and texts by their names. The markup of the notes is a list of blocks; the
  last block inside of the container of a widget note, a divider, is removed.
\<close>

record widget_note =
  note_id :: string
  note_label :: string
  note_texts :: "(string \<times> string) list"

datatype note_block =
  Note_name string
| Note string
| Dotted_divider
| Divider
| Footnote
| Label string
| Container string "note_block list"

definition page_notes :: "(string \<Rightarrow> string) \<Rightarrow> bool \<Rightarrow> (string \<times> string) list \<Rightarrow> note_block list" where
  "page_notes linkify showNames notes =
     concat (map (\<lambda>(name, text). (if showNames then [Note_name name] else []) @ [Note (linkify text), Dotted_divider]) notes)"

definition widget_block :: "(string \<Rightarrow> string) \<Rightarrow> widget_note \<Rightarrow> note_block list" where
  "widget_block linkify n =
     [Container (note_id n)
        (butlast ([Footnote, Label (note_label n)] @
           concat (map (\<lambda>(name, text). [Note_name name, Note (linkify text), Divider]) (note_texts n)))), Divider]"

definition load_notes ::
  "(string \<Rightarrow> string) \<Rightarrow> bool \<Rightarrow> bool \<Rightarrow> bool \<Rightarrow> (string \<times> string) list \<Rightarrow> widget_note list \<Rightarrow> note_block list \<times> bool" where
  "load_notes linkify showPageNotes showNames showSidebar notes widgets =
     (let a = (if showPageNotes then page_notes linkify showNames notes else []);
          b = (if showSidebar then concat (map (widget_block linkify) widgets) else [])
      in (a @ b, a = [] \<and> b = []))"

text \<open>The widget note with the class of a selected one, and the messages \<open>toggleSelectWidgetNote\<close> to the page.\<close>

record note_selection =
  selected_note :: "nat option"
  note_messages :: "string list"

definition note_click :: "widget_note list \<Rightarrow> nat \<Rightarrow> note_selection \<Rightarrow> note_selection" where
  "note_click ws i s =
     s\<lparr>selected_note := (if selected_note s = Some i then None else Some i), note_messages := note_messages s @ [note_id (ws ! i)]\<rparr>"

definition clearSelection :: "note_selection \<Rightarrow> note_selection" where
  "clearSelection s = s\<lparr>selected_note := None, note_messages := note_messages s @ [[]]\<rparr>"

definition notes_pluginShown :: "nat option \<Rightarrow> note_selection \<Rightarrow> note_selection" where
  "notes_pluginShown gid s = (if gid \<noteq> Some 2 then clearSelection s else s)"

text \<open>The button of the footnotes; \<open>True\<close> and \<open>False\<close> are the messages \<open>annotationToggle\<close>. The value of the fragment is 0 when hidden.\<close>

record footnotes =
  notes_button :: bool
  notes_toggled :: "bool list"
  notes_fragment :: "string option"

definition footnotes_click :: "footnotes \<Rightarrow> footnotes" where
  "footnotes_click s =
     (if notes_button s then s\<lparr>notes_button := False, notes_toggled := notes_toggled s @ [False], notes_fragment := Some ''0''\<rparr>
      else s\<lparr>notes_button := True, notes_toggled := notes_toggled s @ [True], notes_fragment := None\<rparr>)"

section \<open>The trace\<close>

text \<open>
  The blocks of events that go on, the last one innermost, those that have ended since the last time none went on, and
  the trace with the mark of the last event. Text for an event that does not go on goes to the property \<open>-1\<close> of the
  array and is never shown; to end one then adds an undefined entry, which \<open>prepend\<close> leaves out. Two columns of text.
\<close>

datatype piece =
  Head string string string
| Case_text string
| Action_text string
| End_tag

type_synonym block = "piece list"

record console =
  currentStack :: "block list"
  finishedStack :: "block option list"
  trace :: "(block \<times> bool) list"
  variables_shown :: "(string \<times> string) list"
  clear_shown :: bool
  empty_shown :: bool

datatype message =
  GlobalVariableValues "(string \<times> string) list"
| AxEvent string string string string
| AxEventComplete
| AxCase string
| AxAction string
| Other_message

definition add_text :: "piece \<Rightarrow> console \<Rightarrow> console" where
  "add_text p c =
     (if currentStack c = [] then c else c\<lparr>currentStack := butlast (currentStack c) @ [List.last (currentStack c) @ [p]]\<rparr>)"

text \<open>One block goes on top of the trace, which has no more than 99 others then.\<close>

definition prepend_block :: "bool \<Rightarrow> block option \<Rightarrow> (block \<times> bool) list \<Rightarrow> (block \<times> bool) list" where
  "prepend_block first b t =
     (let t1 = (if length t > 99 then butlast t else t);
          t2 = (case b of Some x \<Rightarrow> (x, False) # t1 | None \<Rightarrow> t1)
      in if first then (case t2 of (x, m) # r \<Rightarrow> (x, True) # r | [] \<Rightarrow> []) else t2)"

definition flush_finished :: "console \<Rightarrow> console" where
  "flush_finished c =
     (let bs = rev (finishedStack c); t = map (\<lambda>(x, m). (x, False)) (trace c)
      in c\<lparr>clear_shown := True, empty_shown := False, finishedStack := [],
           trace := (case bs of [] \<Rightarrow> t | b # r \<Rightarrow> fold (prepend_block False) r (prepend_block True b t))\<rparr>)"

fun processMessages :: "message \<Rightarrow> console \<Rightarrow> console" where
  "processMessages (GlobalVariableValues vs) c =
     c\<lparr>variables_shown := map (\<lambda>(k, v). (k, if v = [] then ''(blank)'' else v)) vs\<rparr>"
| "processMessages (AxEvent time label type description) c =
     c\<lparr>currentStack := currentStack c @ [[Head time (label @ '' ('' @ type @ '')'') description]]\<rparr>"
| "processMessages AxEventComplete c =
     (let c1 = add_text End_tag c;
          ended = (if currentStack c1 = [] then None else Some (List.last (currentStack c1)));
          c2 = c1\<lparr>currentStack := butlast (currentStack c1), finishedStack := finishedStack c1 @ [ended]\<rparr>
      in if currentStack c2 = [] then flush_finished c2 else c2)"
| "processMessages (AxCase d) c = add_text (Case_text d) c"
| "processMessages (AxAction d) c = add_text (Action_text d) c"
| "processMessages Other_message c = c"

text \<open>A message that the page has combined of several.\<close>

definition composite :: "message list \<Rightarrow> console \<Rightarrow> console" where
  "composite ms c = fold processMessages ms c"

definition cleartrace_click :: "console \<Rightarrow> console" where
  "cleartrace_click c = c\<lparr>trace := [], clear_shown := False, empty_shown := True\<rparr>"

end
