(* ===== verification/ConsoleProps.thy ===== *)
theory ConsoleProps
  imports Console
begin

text \<open>
  The trace of the console: it holds the blocks of the last hundred events, each complete, the blocks of nested events
  above the one of the event around them.
\<close>

section \<open>Events with what happens in them\<close>

datatype event_tree = Event (ev_time: string) (ev_label: string) (ev_type: string) (ev_description: string) (ev_items: "event_item list")
  and event_item = Case_item string | Action_item string | Sub_event event_tree

text \<open>The messages of an event, its own block, and the blocks of all events in it in the order in which they end.\<close>

fun messages_of :: "event_tree \<Rightarrow> message list" and item_messages :: "event_item \<Rightarrow> message list" where
  "messages_of (Event t l y d is) = AxEvent t l y d # concat (map item_messages is) @ [AxEventComplete]"
| "item_messages (Case_item d) = [AxCase d]"
| "item_messages (Action_item d) = [AxAction d]"
| "item_messages (Sub_event e) = messages_of e"

fun item_text :: "event_item \<Rightarrow> block" where
  "item_text (Case_item d) = [Case_text d]"
| "item_text (Action_item d) = [Action_text d]"
| "item_text (Sub_event e) = []"

definition own_block :: "event_tree \<Rightarrow> block" where
  "own_block e =
     Head (ev_time e) (ev_label e @ '' ('' @ ev_type e @ '')'') (ev_description e) # concat (map item_text (ev_items e)) @ [End_tag]"

fun inner_blocks :: "event_tree \<Rightarrow> block list" and item_blocks :: "event_item \<Rightarrow> block list" where
  "inner_blocks (Event t l y d is) = concat (map item_blocks is)"
| "item_blocks (Case_item d) = []"
| "item_blocks (Action_item d) = []"
| "item_blocks (Sub_event e) = inner_blocks e @ [own_block e]"

definition blocks :: "event_tree \<Rightarrow> block list" where
  "blocks e = inner_blocks e @ [own_block e]"

section \<open>Processing\<close>

lemma add_text_inside [simp]: "add_text p (c\<lparr>currentStack := s @ [b]\<rparr>) = c\<lparr>currentStack := s @ [b @ [p]]\<rparr>"
  by (simp add: add_text_def)

lemma start_event:
  "processMessages (AxEvent t l y d) (c\<lparr>currentStack := s, finishedStack := f\<rparr>) =
    c\<lparr>currentStack := s @ [[Head t (l @ '' ('' @ y @ '')'') d]], finishedStack := f\<rparr>"
  by (rule console.equality) simp_all

lemma end_event:
  "s \<noteq> [] \<Longrightarrow> processMessages AxEventComplete (c\<lparr>currentStack := s @ [b], finishedStack := f\<rparr>) =
    c\<lparr>currentStack := s, finishedStack := f @ [Some (b @ [End_tag])]\<rparr>"
  "processMessages AxEventComplete (c\<lparr>currentStack := [b], finishedStack := f\<rparr>) =
    flush_finished (c\<lparr>currentStack := [], finishedStack := f @ [Some (b @ [End_tag])]\<rparr>)"
  by (simp_all add: add_text_def Let_def)

lemma inside:
  shows "s \<noteq> [] \<Longrightarrow> fold processMessages (messages_of e) (c\<lparr>currentStack := s, finishedStack := f\<rparr>) =
      c\<lparr>currentStack := s, finishedStack := f @ map Some (blocks e)\<rparr>"
    and "fold processMessages (item_messages i) (c\<lparr>currentStack := s' @ [b], finishedStack := f'\<rparr>) =
      c\<lparr>currentStack := s' @ [b @ item_text i], finishedStack := f' @ map Some (item_blocks i)\<rparr>"
proof (induction e and i arbitrary: s f and s' b f' rule: messages_of_item_messages.induct)
  case (1 t l y d "is" s f)
  have items: "fold processMessages (concat (map item_messages js)) (c\<lparr>currentStack := s @ [b], finishedStack := f\<rparr>) =
      c\<lparr>currentStack := s @ [b @ concat (map item_text js)], finishedStack := f @ map Some (concat (map item_blocks js))\<rparr>"
    if "set js \<subseteq> set is" for js b f
    using that
  proof (induction js arbitrary: b f)
    case (Cons j js)
    then show ?case using 1(1) by simp
  qed simp
  show ?case using items [of "is" f "[Head t (l @ '' ('' @ y @ '')'') d]"]
    by (simp add: start_event end_event(1) [OF 1(2)] blocks_def own_block_def del: processMessages.simps)
qed (simp_all add: add_text_def blocks_def)

lemma prepend_all:
  "length t \<le> 100 \<Longrightarrow> fold (prepend_block False) (map Some bs) t = take 100 (map (\<lambda>b. (b, False)) (rev bs) @ t)"
proof (induction bs arbitrary: t)
  case (Cons b bs)
  have "prepend_block False (Some b) t = take 100 ((b, False) # t)" using Cons.prems
    by (cases "length t = 100") (auto simp: prepend_block_def Let_def butlast_conv_take)
  then show ?case using Cons by (auto simp: take_Cons' min_def)
qed simp

lemma top_event:
  assumes "currentStack c = []" and "finishedStack c = []" and "length (trace c) \<le> 100"
  shows "fold processMessages (messages_of e) c = c\<lparr>clear_shown := True, empty_shown := False,
    trace := take 100 (map (\<lambda>b. (b, False)) (inner_blocks e) @ (own_block e, True) # map (\<lambda>(b, m). (b, False)) (trace c))\<rparr>"
proof (cases e)
  case (Event t l y d "is")
  let ?b = "[Head t (l @ '' ('' @ y @ '')'') d]" and ?t = "map (\<lambda>(b, m). (b, False)) (trace c)"
  have items: "fold processMessages (concat (map item_messages js)) (c\<lparr>currentStack := [b], finishedStack := f\<rparr>) =
      c\<lparr>currentStack := [b @ concat (map item_text js)], finishedStack := f @ map Some (concat (map item_blocks js))\<rparr>" for js b f
  proof (induction js arbitrary: b f)
    case (Cons j js)
    then show ?case using inside(2) [where s' = "[]"] by simp
  qed simp
  have "prepend_block True (Some (own_block e)) ?t = take 100 ((own_block e, True) # ?t)"
    using assms(3) by (cases "length (trace c) = 100") (auto simp: prepend_block_def Let_def butlast_conv_take)
  then have "fold (prepend_block False) (map Some (rev (inner_blocks e))) (prepend_block True (Some (own_block e)) ?t) =
      take 100 (map (\<lambda>b. (b, False)) (inner_blocks e) @ (own_block e, True) # ?t)"
    by (subst prepend_all) (auto simp: take_Cons' min_def)
  moreover have c: "c\<lparr>currentStack := [], finishedStack := []\<rparr> = c" using assms(1,2) by simp
  have "fold processMessages (messages_of e) (c\<lparr>currentStack := [], finishedStack := []\<rparr>) =
      flush_finished (c\<lparr>currentStack := [], finishedStack := map Some (inner_blocks e @ [own_block e])\<rparr>)"
    using items [of "is" "[]" ?b] by (simp add: Event start_event end_event(2) own_block_def del: processMessages.simps)
  ultimately show ?thesis unfolding c using assms(1,2)
    by (intro console.equality) (simp_all add: flush_finished_def rev_map Let_def)
qed

lemma take_take_append: "take n (xs @ take n ys) = take n (xs @ ys)"
  by (simp add: min_def)

lemma trace_fields:
  assumes "currentStack c = []" and "finishedStack c = []" and "length (trace c) \<le> 100"
  shows "currentStack (fold processMessages (concat (map messages_of es)) c) = []"
    and "finishedStack (fold processMessages (concat (map messages_of es)) c) = []"
    and "length (trace (fold processMessages (concat (map messages_of es)) c)) \<le> 100"
    and "map fst (trace (fold processMessages (concat (map messages_of es)) c)) =
      take 100 (concat (map blocks (rev es)) @ map fst (trace c))"
proof (induction es rule: rev_induct)
  case Nil
  {
    case 4
    show ?case using assms(3) by simp
  }
next
  case (snoc e es)
  note top = top_event [OF snoc(1-3), of e]
  {
    case 1
    show ?case using snoc(1) by (simp add: top)
  next
    case 2
    show ?case using snoc(2) by (simp add: top)
  next
    case 3
    show ?case by (simp add: top)
  next
    case 4
    have "map fst (trace (fold processMessages (messages_of e) (fold processMessages (concat (map messages_of es)) c))) =
        take 100 (blocks e @ take 100 (concat (map blocks (rev es)) @ map fst (trace c)))"
      unfolding top snoc(4) [symmetric] by (simp add: take_map [symmetric] blocks_def comp_def case_prod_beta)
    then show ?case by (simp only: take_take_append) simp
  }
qed (use assms in simp_all)

lemma trace_marks:
  assumes "currentStack c = []" and "finishedStack c = []" and "length (trace c) \<le> 100"
    and "i < length (trace (fold processMessages (messages_of e) c))"
  shows "snd (trace (fold processMessages (messages_of e) c) ! i) \<longleftrightarrow> i = length (inner_blocks e)"
  using assms(4) unfolding top_event [OF assms(1-3)]
  by (auto simp: nth_append nth_Cons case_prod_beta split: nat.splits)

definition new_console :: console where
  "new_console = \<lparr>currentStack = [], finishedStack = [], trace = [], variables_shown = [], clear_shown = False, empty_shown = True\<rparr>"



section \<open>Notes\<close>

text \<open>In a run of clicks at most one widget note is selected: the one that was clicked last, unless that click was on the selected one.\<close>

lemma note_selected:
  "selected_note (fold (note_click ws) (is @ [i]) s) =
    (if selected_note (fold (note_click ws) is s) = Some i then None else Some i)"
  by (simp add: note_click_def)

text \<open>A widget note without texts loses its label: the last child of every container is removed, which is a divider only after a text.\<close>

lemma label_removed: "fst (load_notes id False False True [] [\<lparr>note_id = ''7'', note_label = ''Logo'', note_texts = []\<rparr>]) =
    [Container ''7'' [Footnote], Divider]"
  by (simp add: load_notes_def widget_block_def)

end
