(* ===== verification/AnimationQueue.thy ===== *)
theory AnimationQueue
  imports Main
begin

text \<open>
  The queues of the animations of the prototype (\<open>action.js\<close> in \<open>prototypePost.js\<close>): a queue for each element and kind of
  animation, and groups of animations that start together when each of them is first in its queue. A function is a
  number, and its call an entry of a log. The functions themselves do nothing to the queues but report the end of an
  animation, which is an event; where an animation takes no time that event is the next one.
\<close>

section \<open>State\<close>

text \<open>An element with the kind of an animation, and an animation: its key and its function.\<close>

datatype key = Key string nat

type_synonym animation = "key \<times> nat"

text \<open>
  A group is an object that the lists of several keys refer to: the store of these objects has their animations by
  their \<open>id\<close>, and \<open>animationsToCount\<close> how many of them are ready. The last field is the number of the next function.
\<close>

record animations =
  animationQueue :: "key \<Rightarrow> nat list"
  actionToActionGroups :: "key \<Rightarrow> nat list"
  group_of :: "nat \<Rightarrow> animation list"
  animationsToCount :: "nat \<Rightarrow> nat option"
  nextAnimationId :: nat
  called :: "animation list"
  fresh :: nat

definition getAnimation :: "key \<Rightarrow> animations \<Rightarrow> nat option" where
  "getAnimation k s = (case animationQueue s k of [] \<Rightarrow> None | f # r \<Rightarrow> Some f)"

definition call_all :: "animation list \<Rightarrow> animations \<Rightarrow> animations" where
  "call_all as s = s\<lparr>called := called s @ as\<rparr>"

section \<open>Operations\<close>

definition addAnimation :: "animation \<Rightarrow> bool \<Rightarrow> animations \<Rightarrow> animations" where
  "addAnimation a suppressFire s =
     (let k = fst a; wasEmpty = (getAnimation k s = None);
          s1 = s\<lparr>animationQueue := (animationQueue s)(k := animationQueue s k @ [snd a])\<rparr>
      in if wasEmpty \<and> \<not> suppressFire then call_all [a] s1 else s1)"

definition addAnimations :: "animation list \<Rightarrow> animations \<Rightarrow> animations" where
  "addAnimations as s =
     (if length as = 1 then addAnimation (hd as) False s
      else
        let ready = (\<lambda>a. getAnimation (fst a) s = None);
            s1 = fold (\<lambda>a s. if ready a then s
                   else s\<lparr>actionToActionGroups := (actionToActionGroups s)(fst a := actionToActionGroups s (fst a) @ [nextAnimationId s])\<rparr>) as s;
            s2 = fold (\<lambda>a. addAnimation a True) as s1
        in if list_all ready as then call_all as s2
           else s2\<lparr>group_of := (group_of s2)(nextAnimationId s2 := as), nextAnimationId := nextAnimationId s2 + 1,
                  animationsToCount := (animationsToCount s2)(nextAnimationId s2 := Some (length (filter ready as)))\<rparr>)"

text \<open>Whether the function belongs to the first group of its key; \<open>None\<close> is the exception of a call of no function.\<close>

definition checkFireActionGroup :: "key \<Rightarrow> nat \<Rightarrow> animations \<Rightarrow> (bool \<times> animations) option" where
  "checkFireActionGroup k f s =
     (case actionToActionGroups s k of
        [] \<Rightarrow> Some (False, s)
      | g # gs \<Rightarrow>
          let as = group_of s g
          in if (case find (\<lambda>a. fst a = k) as of Some a \<Rightarrow> snd a = f | None \<Rightarrow> False)
             then
               let s1 = s\<lparr>actionToActionGroups := (actionToActionGroups s)(k := gs)\<rparr>;
                   count = (case animationsToCount s1 g of Some c \<Rightarrow> c | None \<Rightarrow> 0) + 1
               in if count \<noteq> length as then Some (True, s1\<lparr>animationsToCount := (animationsToCount s1)(g := Some count)\<rparr>)
                  else
                    let s2 = s1\<lparr>animationsToCount := (animationsToCount s1)(g := None)\<rparr>
                    in if list_all (\<lambda>a. getAnimation (fst a) s2 \<noteq> None) as
                       then Some (True, call_all (map (\<lambda>a. (fst a, the (getAnimation (fst a) s2))) as) s2)
                       else None
             else Some (False, s))"

definition fireAnimationFromQueue :: "key \<Rightarrow> animations \<Rightarrow> animations option" where
  "fireAnimationFromQueue k s =
     (let s1 = s\<lparr>animationQueue := (animationQueue s)(k := tl (animationQueue s k))\<rparr>
      in case getAnimation k s1 of
           None \<Rightarrow> Some s1
         | Some f \<Rightarrow>
             (case checkFireActionGroup k f s1 of
                None \<Rightarrow> None
              | Some (b, s2) \<Rightarrow> Some (if b then s2 else call_all [(k, f)] s2)))"

section \<open>Runs\<close>

text \<open>An animation is added, or a group of two or more for different keys, or one that was called ends.\<close>

datatype anim_event =
  Add key
| Add_group "key list"
| End_of key

definition running :: "animations \<Rightarrow> key \<Rightarrow> bool" where
  "running s k \<longleftrightarrow> (case getAnimation k s of Some f \<Rightarrow> (k, f) \<in> set (called s) | None \<Rightarrow> False)"

fun anim_step :: "anim_event \<Rightarrow> animations \<Rightarrow> animations option" where
  "anim_step (Add k) s = Some (addAnimation (k, fresh s) False (s\<lparr>fresh := fresh s + 1\<rparr>))"
| "anim_step (Add_group ks) s =
     (if distinct ks \<and> length ks \<ge> 2
      then Some (addAnimations (zip ks [fresh s..<fresh s + length ks]) (s\<lparr>fresh := fresh s + length ks\<rparr>)) else Some s)"
| "anim_step (End_of k) s = (if running s k then fireAnimationFromQueue k s else Some s)"

fun anim_run :: "anim_event list \<Rightarrow> animations \<Rightarrow> animations option" where
  "anim_run [] s = Some s"
| "anim_run (e # es) s = Option.bind (anim_step e s) (anim_run es)"

definition no_animations :: animations where
  "no_animations =
     \<lparr>animationQueue = (\<lambda>_. []), actionToActionGroups = (\<lambda>_. []), group_of = (\<lambda>_. []), animationsToCount = (\<lambda>_. None),
      nextAnimationId = 1, called = [], fresh = 0\<rparr>"

section \<open>The invariant\<close>

definition first_in :: "animations \<Rightarrow> animation \<Rightarrow> bool" where
  "first_in s a \<longleftrightarrow> getAnimation (fst a) s = Some (snd a)"

definition waiting :: "animations \<Rightarrow> nat \<Rightarrow> bool" where
  "waiting s g \<longleftrightarrow> animationsToCount s g \<noteq> None"

definition blocked :: "animations \<Rightarrow> key \<Rightarrow> nat \<Rightarrow> bool" where
  "blocked s k g \<longleftrightarrow> waiting s g \<and> (\<exists>f. (k, f) \<in> set (group_of s g) \<and> \<not> first_in s (k, f))"

text \<open>
  The queues are in the order of the functions, nothing behind the first one was called, and the first one was called
  or belongs to a waiting group. A waiting group has animations for different keys, all in their queues and not called,
  some not first; it counts those that are, and the lists of the keys name it where it is not. Groups are in the order
  of their functions.
\<close>

definition queues_ok :: "animations \<Rightarrow> bool" where
  "queues_ok s \<longleftrightarrow>
     (\<forall>k. sorted_wrt (<) (animationQueue s k) \<and> (\<forall>f \<in> set (animationQueue s k). f < fresh s)) \<and>
     (\<forall>k f. (k, f) \<in> set (called s) \<longrightarrow> f < fresh s \<and> f \<notin> set (tl (animationQueue s k))) \<and> distinct (called s) \<and>
     (\<forall>k f. first_in s (k, f) \<longrightarrow> (k, f) \<in> set (called s) \<or> (\<exists>g. waiting s g \<and> (k, f) \<in> set (group_of s g)))"

definition groups_ok :: "animations \<Rightarrow> bool" where
  "groups_ok s \<longleftrightarrow>
     (\<forall>g. waiting s g \<longrightarrow> g < nextAnimationId s \<and> distinct (map fst (group_of s g)) \<and>
       (\<forall>(k, f) \<in> set (group_of s g). f \<in> set (animationQueue s k) \<and> (k, f) \<notin> set (called s)) \<and>
       animationsToCount s g = Some (length (filter (first_in s) (group_of s g))) \<and> \<not> list_all (first_in s) (group_of s g)) \<and>
     (\<forall>g h. waiting s g \<longrightarrow> waiting s h \<longrightarrow> g < h \<longrightarrow> (\<forall>a \<in> set (group_of s g). \<forall>b \<in> set (group_of s h). snd a < snd b)) \<and>
     (\<forall>k. actionToActionGroups s k = filter (blocked s k) [0..<nextAnimationId s])"

end
