(* ===== verification/AnimationQueueProps.thy ===== *)
theory AnimationQueueProps
  imports AnimationQueue
begin

text \<open>
  In every run the animations of a key are called one at a time, each once and in their order, those of a group all at
  once, and nothing is left waiting when no animation runs.
\<close>

section \<open>What the invariant gives\<close>

lemma first_in_alt: "first_in s (k, f) \<longleftrightarrow> animationQueue s k \<noteq> [] \<and> hd (animationQueue s k) = f"
  by (auto simp: first_in_def getAnimation_def split: list.splits)

lemma queues_okD:
  assumes "queues_ok s"
  shows "sorted_wrt (<) (animationQueue s k)" and "f \<in> set (animationQueue s k) \<Longrightarrow> f < fresh s"
    and "(k, f) \<in> set (called s) \<Longrightarrow> f < fresh s" and "(k, f) \<in> set (called s) \<Longrightarrow> f \<notin> set (tl (animationQueue s k))"
    and "distinct (called s)"
    and "first_in s (k, f) \<Longrightarrow> (k, f) \<in> set (called s) \<or> (\<exists>g. waiting s g \<and> (k, f) \<in> set (group_of s g))"
  using assms by (auto simp: queues_ok_def)

lemma groups_okD:
  assumes "groups_ok s"
  shows "waiting s g \<Longrightarrow> g < nextAnimationId s" and "waiting s g \<Longrightarrow> distinct (map fst (group_of s g))"
    and "waiting s g \<Longrightarrow> (k, f) \<in> set (group_of s g) \<Longrightarrow> f \<in> set (animationQueue s k)"
    and "waiting s g \<Longrightarrow> (k, f) \<in> set (group_of s g) \<Longrightarrow> (k, f) \<notin> set (called s)"
    and "waiting s g \<Longrightarrow> animationsToCount s g = Some (length (filter (first_in s) (group_of s g)))"
    and "waiting s g \<Longrightarrow> \<not> list_all (first_in s) (group_of s g)"
    and "waiting s g \<Longrightarrow> waiting s h \<Longrightarrow> g < h \<Longrightarrow> (k, f) \<in> set (group_of s g) \<Longrightarrow> (j, e) \<in> set (group_of s h) \<Longrightarrow> f < e"
    and "actionToActionGroups s k = filter (blocked s k) [0..<nextAnimationId s]"
  using assms unfolding groups_ok_def by (blast, blast, blast, blast, blast, blast, fastforce, blast)

lemma groups_okI:
  assumes "\<And>g. waiting s g \<Longrightarrow> g < nextAnimationId s" and "\<And>g. waiting s g \<Longrightarrow> distinct (map fst (group_of s g))"
    and "\<And>g k f. waiting s g \<Longrightarrow> (k, f) \<in> set (group_of s g) \<Longrightarrow> f \<in> set (animationQueue s k) \<and> (k, f) \<notin> set (called s)"
    and "\<And>g. waiting s g \<Longrightarrow> animationsToCount s g = Some (length (filter (first_in s) (group_of s g)))"
    and "\<And>g. waiting s g \<Longrightarrow> \<not> list_all (first_in s) (group_of s g)"
    and "\<And>g h k f j e. waiting s g \<Longrightarrow> waiting s h \<Longrightarrow> g < h \<Longrightarrow> (k, f) \<in> set (group_of s g) \<Longrightarrow> (j, e) \<in> set (group_of s h) \<Longrightarrow> f < e"
    and "\<And>k. actionToActionGroups s k = filter (blocked s k) [0..<nextAnimationId s]"
  shows "groups_ok s"
  unfolding groups_ok_def
proof (intro conjI allI impI ballI)
  fix g h a b assume "waiting s g" "waiting s h" "g < h" "a \<in> set (group_of s g)" "b \<in> set (group_of s h)"
  then show "snd a < snd b" using assms(6) [of g h "fst a" "snd a" "fst b" "snd b"] by simp
next
  fix g a assume "waiting s g" "a \<in> set (group_of s g)"
  then show "case a of (k, f) \<Rightarrow> f \<in> set (animationQueue s k) \<and> (k, f) \<notin> set (called s)" using assms(3) by auto
qed (use assms(1,2,4,5,7) in blast)+

lemma same_member:
  "distinct (map fst as) \<Longrightarrow> (k, f) \<in> set as \<Longrightarrow> (k, e) \<in> set as \<Longrightarrow> f = e"
  by (rule eq_key_imp_eq_value)

text \<open>Nothing waits when nothing runs: the animations of the first waiting group would all be first in their queues.\<close>

lemma nothing_stuck:
  assumes q: "queues_ok s" and g: "groups_ok s" and none: "\<And>k. \<not> running s k"
  shows "animationQueue s k = []"
proof (rule ccontr)
  have head: "\<exists>g. waiting s g \<and> (j, hd (animationQueue s j)) \<in> set (group_of s g)" if "animationQueue s j \<noteq> []" for j
    using queues_okD(6) [OF q, of j "hd (animationQueue s j)"] none [of j] that
    by (auto simp: first_in_alt running_def getAnimation_def split: list.splits)
  assume "animationQueue s k \<noteq> []"
  then obtain g0 where "waiting s g0" using head by blast
  define g1 where "g1 = (LEAST g. waiting s g)"
  have g1: "waiting s g1" and least: "\<And>g. waiting s g \<Longrightarrow> g1 \<le> g"
    using \<open>waiting s g0\<close> by (auto simp: g1_def intro: LeastI Least_le)
  have "first_in s (j, f)" if a: "(j, f) \<in> set (group_of s g1)" for j f
  proof -
    let ?h = "hd (animationQueue s j)"
    have f: "f \<in> set (animationQueue s j)" using groups_okD(3) [OF g g1 a] .
    then have ne: "animationQueue s j \<noteq> []" by auto
    obtain g2 where g2: "waiting s g2" "(j, ?h) \<in> set (group_of s g2)" using head [OF ne] by blast
    show ?thesis
    proof (cases "g2 = g1")
      case True
      then have "?h = f" using same_member [OF groups_okD(2) [OF g g1]] a g2(2) by blast
      with ne show ?thesis by (simp add: first_in_alt)
    next
      case False
      then have "f < ?h" using groups_okD(7) [OF g g1 g2(1) _ a g2(2)] least [OF g2(1)] by simp
      moreover have "?h \<le> f" using queues_okD(1) [OF q, of j] f ne by (cases "animationQueue s j") auto
      ultimately show ?thesis by simp
    qed
  qed
  then have "list_all (first_in s) (group_of s g1)" by (auto simp: list_all_iff)
  with groups_okD(6) [OF g g1] show False by simp
qed

section \<open>Adding\<close>

lemma add_fields [simp]:
  "animationQueue (addAnimation a b s) = (animationQueue s)(fst a := animationQueue s (fst a) @ [snd a])"
  "actionToActionGroups (addAnimation a b s) = actionToActionGroups s" "group_of (addAnimation a b s) = group_of s"
  "animationsToCount (addAnimation a b s) = animationsToCount s" "nextAnimationId (addAnimation a b s) = nextAnimationId s"
  "fresh (addAnimation a b s) = fresh s"
  "called (addAnimation a b s) = called s @ (if animationQueue s (fst a) = [] \<and> \<not> b then [a] else [])"
  by (simp_all add: addAnimation_def call_all_def getAnimation_def Let_def split: list.splits)

lemma add_many:
  "distinct (map fst as) \<Longrightarrow> animationQueue (fold (\<lambda>a. addAnimation a True) as s) k =
    animationQueue s k @ (case map_of as k of Some f \<Rightarrow> [f] | None \<Rightarrow> [])"
  "actionToActionGroups (fold (\<lambda>a. addAnimation a True) as s) = actionToActionGroups s"
  "group_of (fold (\<lambda>a. addAnimation a True) as s) = group_of s"
  "animationsToCount (fold (\<lambda>a. addAnimation a True) as s) = animationsToCount s"
  "nextAnimationId (fold (\<lambda>a. addAnimation a True) as s) = nextAnimationId s"
  "fresh (fold (\<lambda>a. addAnimation a True) as s) = fresh s" "called (fold (\<lambda>a. addAnimation a True) as s) = called s"
proof (induction as arbitrary: s)
  case (Cons a as)
  {
    case 1
    then show ?case using Cons(1) by (cases a) (auto simp: map_of_eq_None_iff image_iff split: option.splits)
  }
qed (simp_all)

abbreviation name_group :: "(animation \<Rightarrow> bool) \<Rightarrow> animation list \<Rightarrow> animations \<Rightarrow> animations" where
  "name_group ready \<equiv> fold (\<lambda>a s. if ready a then s
     else s\<lparr>actionToActionGroups := (actionToActionGroups s)(fst a := actionToActionGroups s (fst a) @ [nextAnimationId s])\<rparr>)"

lemma name_group:
  "distinct (map fst as) \<Longrightarrow> actionToActionGroups (name_group ready as s) k =
    actionToActionGroups s k @ (if \<exists>f. (k, f) \<in> set as \<and> \<not> ready (k, f) then [nextAnimationId s] else [])"
  "animationQueue (name_group ready as s) = animationQueue s" "group_of (name_group ready as s) = group_of s"
  "animationsToCount (name_group ready as s) = animationsToCount s" "nextAnimationId (name_group ready as s) = nextAnimationId s"
  "fresh (name_group ready as s) = fresh s" "called (name_group ready as s) = called s"
proof (induction as arbitrary: s)
  case (Cons a as)
  {
    case 1
    then show ?case using Cons(1) [of "if ready a then s else s\<lparr>actionToActionGroups :=
        (actionToActionGroups s)(fst a := actionToActionGroups s (fst a) @ [nextAnimationId s])\<rparr>"]
      by (cases a) (force simp: image_iff)
  }
qed (simp_all)

text \<open>New functions at the ends of queues change nothing for what is in them.\<close>

definition appends :: "animations \<Rightarrow> animations \<Rightarrow> animation list \<Rightarrow> bool" where
  "appends s s' as \<longleftrightarrow>
     distinct (map fst as) \<and> (\<forall>a \<in> set as. fresh s \<le> snd a \<and> snd a < fresh s') \<and> fresh s \<le> fresh s' \<and>
     (\<forall>k. animationQueue s' k = animationQueue s k @ (case map_of as k of Some f \<Rightarrow> [f] | None \<Rightarrow> []))"

lemma append_first:
  assumes "appends s s' as"
  shows "animationQueue s k \<noteq> [] \<Longrightarrow> first_in s' (k, f) = first_in s (k, f)"
    and "animationQueue s k = [] \<Longrightarrow> first_in s' (k, f) \<longleftrightarrow> (k, f) \<in> set as"
  using assms by (auto simp: appends_def first_in_alt hd_append split: option.splits dest: map_of_SomeD same_member)

lemma append_queues:
  assumes q: "queues_ok s" and app: "appends s s' as" and called: "called s' = called s @ new" and new: "set new \<subseteq> set as" "distinct new"
    and alone: "\<And>k f. (k, f) \<in> set new \<Longrightarrow> animationQueue s k = []"
    and all: "\<And>k f. (k, f) \<in> set as \<Longrightarrow> animationQueue s k = [] \<Longrightarrow>
      (k, f) \<in> set new \<or> (\<exists>g. waiting s' g \<and> (k, f) \<in> set (group_of s' g))"
    and old: "\<And>g. waiting s g \<Longrightarrow> waiting s' g \<and> group_of s' g = group_of s g"
  shows "queues_ok s'"
proof -
  have as: "fresh s \<le> f" "f < fresh s'" if "(k, f) \<in> set as" for k f using app that by (auto simp: appends_def)
  have le: "fresh s \<le> fresh s'" using app by (simp add: appends_def)
  have queue: "animationQueue s' k = animationQueue s k @ (case map_of as k of Some f \<Rightarrow> [f] | None \<Rightarrow> [])" for k
    using app by (simp add: appends_def)
  show ?thesis unfolding queues_ok_def
  proof (intro conjI allI impI)
    fix k
    show "sorted_wrt (<) (animationQueue s' k)"
      using queues_okD(1) [OF q, of k] queues_okD(2) [OF q, of _ k] by (fastforce simp: queue sorted_wrt_append split: option.splits dest: map_of_SomeD as)
    show "\<forall>f \<in> set (animationQueue s' k). f < fresh s'"
    proof
      fix f assume "f \<in> set (animationQueue s' k)"
      then consider "f \<in> set (animationQueue s k)" | "(k, f) \<in> set as"
        by (cases "map_of as k") (auto simp: queue dest: map_of_SomeD)
      then show "f < fresh s'" using queues_okD(2) [OF q, of f k] le as(2) by cases auto
    qed
  next
    fix k f assume c: "(k, f) \<in> set (called s')"
    then show "f < fresh s'" using queues_okD(3) [OF q, of k f] le as [of k f] new by (auto simp: called)
    show "f \<notin> set (tl (animationQueue s' k))"
    proof (cases "(k, f) \<in> set new")
      case True
      then show ?thesis using alone by (auto simp: queue split: option.splits)
    next
      case False
      then have old: "(k, f) \<in> set (called s)" using c by (simp add: called)
      then have "e \<noteq> f" if "map_of as k = Some e" for e
        using queues_okD(3) [OF q old] as [OF map_of_SomeD [OF that]] by simp
      then show ?thesis using queues_okD(4) [OF q old] by (auto simp: queue tl_append split: option.splits list.splits)
    qed
  next
    have "set (called s) \<inter> set new = {}" using queues_okD(3) [OF q] as new(1) by fastforce
    then show "distinct (called s')" using queues_okD(5) [OF q] new(2) by (simp add: called)
  next
    fix k f assume f: "first_in s' (k, f)"
    show "(k, f) \<in> set (called s') \<or> (\<exists>g. waiting s' g \<and> (k, f) \<in> set (group_of s' g))"
    proof (cases "animationQueue s k = []")
      case True
      then show ?thesis using all append_first(2) [OF app True] f by (auto simp: called)
    next
      case False
      then have "first_in s (k, f)" using append_first(1) [OF app] f by blast
      from queues_okD(6) [OF q this] show ?thesis using old by (fastforce simp: called)
    qed
  qed
qed

text \<open>What is in a waiting group does not notice that something is appended.\<close>

lemma append_member:
  assumes "groups_ok s" and "appends s s' as" and "waiting s g" and "(k, f) \<in> set (group_of s g)"
  shows "first_in s' (k, f) = first_in s (k, f)" and "f \<in> set (animationQueue s' k)"
proof -
  have f: "f \<in> set (animationQueue s k)" by (rule groups_okD(3) [OF assms(1,3,4)])
  then have "animationQueue s k \<noteq> []" by auto
  with f show "first_in s' (k, f) = first_in s (k, f)" "f \<in> set (animationQueue s' k)"
    using append_first(1) [OF assms(2), of k f] assms(2) by (auto simp: appends_def)
qed

lemma append_group:
  assumes "groups_ok s" and "appends s s' as" and "waiting s g"
  shows "filter (first_in s') (group_of s g) = filter (first_in s) (group_of s g)"
    and "list_all (first_in s') (group_of s g) = list_all (first_in s) (group_of s g)"
proof -
  have "first_in s' a = first_in s a" if "a \<in> set (group_of s g)" for a
    using append_member(1) [OF assms(1-3)] that by (cases a) simp
  then show "filter (first_in s') (group_of s g) = filter (first_in s) (group_of s g)"
    "list_all (first_in s') (group_of s g) = list_all (first_in s) (group_of s g)"
    by (auto simp: list_all_iff intro: filter_cong)
qed

lemma append_groups:
  assumes g: "groups_ok s" and app: "appends s s' as" and q: "queues_ok s"
    and called: "called s' = called s @ new" "set new \<subseteq> set as"
    and same: "group_of s' = group_of s" "animationsToCount s' = animationsToCount s" "nextAnimationId s' = nextAnimationId s"
      "actionToActionGroups s' = actionToActionGroups s"
  shows "groups_ok s'"
proof -
  have w: "waiting s' g = waiting s g" for g by (simp add: waiting_def same)
  have b: "blocked s' k = blocked s k" for k
    using append_member(1) [OF g app] by (auto simp: blocked_def w same fun_eq_iff)
  have fresh: "f < fresh s" if "waiting s g" "(k, f) \<in> set (group_of s g)" for g k f
    using groups_okD(3) [OF g that] queues_okD(2) [OF q] by blast
  have "\<not> (k, f) \<in> set new" if "waiting s g" "(k, f) \<in> set (group_of s g)" for g k f
    using fresh [OF that] called(2) app by (force simp: appends_def)
  note old = this
  show ?thesis
  proof (rule groups_okI)
    fix g assume g1: "waiting s' g"
    then show "g < nextAnimationId s'" "distinct (map fst (group_of s' g))"
      using groups_okD(1,2) [OF g, of g] by (simp_all add: w same)
    show "animationsToCount s' g = Some (length (filter (first_in s') (group_of s' g)))" "\<not> list_all (first_in s') (group_of s' g)"
      using groups_okD(5,6) [OF g, of g] append_group [OF g app, of g] g1 by (simp_all add: w same)
    show "f \<in> set (animationQueue s' k) \<and> (k, f) \<notin> set (called s')" if "(k, f) \<in> set (group_of s' g)" for k f
      using groups_okD(4) [OF g, of g k f] append_member(2) [OF g app, of g k f] old [of g k f] that g1 by (simp add: w same called(1))
  next
    fix g h k f j e assume "waiting s' g" "waiting s' h" "g < h" "(k, f) \<in> set (group_of s' g)" "(j, e) \<in> set (group_of s' h)"
    then show "f < e" using groups_okD(7) [OF g, of g h k f j e] by (simp add: w same)
  next
    fix k
    show "actionToActionGroups s' k = filter (blocked s' k) [0..<nextAnimationId s']"
      using groups_okD(8) [OF g, of k] by (simp add: same b)
  qed
qed

definition anim_ok :: "animations \<Rightarrow> bool" where
  "anim_ok s \<longleftrightarrow> queues_ok s \<and> groups_ok s"

lemma add_ok:
  assumes "anim_ok s"
  shows "anim_ok (addAnimation (k, fresh s) False (s\<lparr>fresh := fresh s + 1\<rparr>))"
proof -
  let ?s = "addAnimation (k, fresh s) False (s\<lparr>fresh := fresh s + 1\<rparr>)" and ?a = "(k, fresh s)"
  let ?new = "if animationQueue s k = [] then [?a] else []"
  have app: "appends s ?s [?a]" by (simp add: appends_def)
  have q: "queues_ok s" and g: "groups_ok s" using assms by (simp_all add: anim_ok_def)
  have "queues_ok ?s" by (rule append_queues [OF q app, of ?new]) (auto simp: waiting_def split: if_splits)
  moreover have "groups_ok ?s" by (rule append_groups [OF g app q, of ?new]) auto
  ultimately show ?thesis by (simp add: anim_ok_def)
qed

lemma add_group_fields:
  fixes s :: animations and as :: "animation list"
  assumes "distinct (map fst as)" and "length as \<ge> 2"
  defines "ready \<equiv> \<lambda>a. animationQueue s (fst a) = []"
  shows "animationQueue (addAnimations as s) k = animationQueue s k @ (case map_of as k of Some f \<Rightarrow> [f] | None \<Rightarrow> [])"
    and "fresh (addAnimations as s) = fresh s"
    and "called (addAnimations as s) = called s @ (if list_all ready as then as else [])"
    and "actionToActionGroups (addAnimations as s) k =
      actionToActionGroups s k @ (if \<exists>f. (k, f) \<in> set as \<and> \<not> ready (k, f) then [nextAnimationId s] else [])"
    and "group_of (addAnimations as s) = (if list_all ready as then group_of s else (group_of s)(nextAnimationId s := as))"
    and "animationsToCount (addAnimations as s) =
      (if list_all ready as then animationsToCount s else (animationsToCount s)(nextAnimationId s := Some (length (filter ready as))))"
    and "nextAnimationId (addAnimations as s) = (if list_all ready as then nextAnimationId s else nextAnimationId s + 1)"
proof -
  have r: "(\<lambda>a. getAnimation (fst a) s = None) = ready" by (auto simp: ready_def getAnimation_def fun_eq_iff split: list.splits)
  have one: "(length as = 1) = False" using assms(2) by simp
  note defs = addAnimations_def Let_def one if_False r call_all_def
  show "animationQueue (addAnimations as s) k = animationQueue s k @ (case map_of as k of Some f \<Rightarrow> [f] | None \<Rightarrow> [])"
    "fresh (addAnimations as s) = fresh s"
    "called (addAnimations as s) = called s @ (if list_all ready as then as else [])"
    "actionToActionGroups (addAnimations as s) k =
      actionToActionGroups s k @ (if \<exists>f. (k, f) \<in> set as \<and> \<not> ready (k, f) then [nextAnimationId s] else [])"
    "group_of (addAnimations as s) = (if list_all ready as then group_of s else (group_of s)(nextAnimationId s := as))"
    "animationsToCount (addAnimations as s) =
      (if list_all ready as then animationsToCount s else (animationsToCount s)(nextAnimationId s := Some (length (filter ready as))))"
    "nextAnimationId (addAnimations as s) = (if list_all ready as then nextAnimationId s else nextAnimationId s + 1)"
    unfolding defs by (simp_all add: add_many assms(1) name_group)
qed

lemma add_group_ok:
  assumes "anim_ok s" and "distinct ks" and "length ks \<ge> 2"
  shows "anim_ok (addAnimations (zip ks [fresh s..<fresh s + length ks]) (s\<lparr>fresh := fresh s + length ks\<rparr>))"
proof -
  let ?as = "zip ks [fresh s..<fresh s + length ks]"
  let ?init = "s\<lparr>fresh := fresh s + length ks\<rparr>"
  let ?s = "addAnimations ?as ?init" and ?ready = "\<lambda>a :: animation. animationQueue s (fst a) = []"
  have keys: "map fst ?as = ks" "length ?as = length ks" by simp_all
  have dk: "distinct (map fst ?as)" and two: "length ?as \<ge> 2" using assms(2,3) by simp_all
  note fields = add_group_fields [where s = ?init, OF dk two, simplified]
  have q: "queues_ok s" and g: "groups_ok s" using assms by (simp_all add: anim_ok_def)
  have app: "appends s ?s ?as"
    unfolding appends_def fields using dk by (auto dest: set_zip_rightD)
  have fresh: "fresh s \<le> f" if "(k, f) \<in> set ?as" for k f using that by (auto dest: set_zip_rightD)
  show ?thesis
  proof (cases "list_all ?ready ?as")
    case True
    have "distinct ?as" by (simp add: distinct_zipI2)
    moreover have w: "waiting ?s h = waiting s h" for h by (simp add: waiting_def fields True)
    moreover have "\<And>k f. (k, f) \<in> set ?as \<Longrightarrow> animationQueue s k = []" using True by (auto simp: list_all_iff)
    ultimately have "queues_ok ?s"
      by (intro append_queues [OF q app, of ?as]) (auto simp: fields True)
    moreover have "groups_ok ?s"
    proof (rule append_groups [OF g app q, of ?as])
      show "actionToActionGroups ?s = actionToActionGroups s" using True by (intro ext) (auto simp: fields list_all_iff)
    qed (simp_all add: fields True)
    ultimately show ?thesis by (simp add: anim_ok_def)
  next
    case False
    let ?n = "nextAnimationId s"
    have w: "waiting ?s h \<longleftrightarrow> waiting s h \<or> h = ?n" for h by (auto simp: waiting_def fields False)
    have go: "group_of ?s h = (if h = ?n then ?as else group_of s h)" for h by (simp add: fields False)
    have old: "h < ?n" if "waiting s h" for h using groups_okD(1) [OF g that] .
    have first: "first_in ?s a = ?ready a" if "a \<in> set ?as" for a
    proof (cases a)
      case (Pair k f)
      show ?thesis
      proof (cases "animationQueue s k = []")
        case True
        then show ?thesis using append_first(2) [OF app True, of f] that Pair by simp
      next
        case ne: False
        have "f \<noteq> hd (animationQueue s k)" using fresh [of k f] that Pair queues_okD(2) [OF q, of "hd (animationQueue s k)" k] ne by auto
        then show ?thesis using append_first(1) [OF app ne, of f] ne Pair by (simp add: first_in_alt)
      qed
    qed
    have called: "called ?s = called s" by (simp add: fields False)
    have "queues_ok ?s"
    proof (rule append_queues [OF q app, of "[]"])
      fix k f assume "(k, f) \<in> set ?as"
      then show "(k, f) \<in> set [] \<or> (\<exists>h. waiting ?s h \<and> (k, f) \<in> set (group_of ?s h))" using w [of ?n] go [of ?n] by auto
    next
      fix h assume "waiting s h"
      then show "waiting ?s h \<and> group_of ?s h = group_of s h" using w [of h] go [of h] old [of h] by auto
    qed (simp_all add: called)
    moreover have "groups_ok ?s"
    proof (rule groups_okI)
      fix h assume h: "waiting ?s h"
      show "h < nextAnimationId ?s" using h w [of h] old [of h] by (auto simp: fields False)
      show "distinct (map fst (group_of ?s h))" using h w [of h] dk groups_okD(2) [OF g, of h] by (auto simp: go)
      show "animationsToCount ?s h = Some (length (filter (first_in ?s) (group_of ?s h)))"
      proof (cases "h = ?n")
        case True
        have "filter (first_in ?s) ?as = filter ?ready ?as" by (rule filter_cong) (simp_all add: first)
        then show ?thesis using True False by (simp add: fields)
      next
        case other: False
        then have ws: "waiting s h" using h w by simp
        then show ?thesis using groups_okD(5) [OF g ws] append_group(1) [OF g app ws] other False by (simp add: fields)
      qed
      show "\<not> list_all (first_in ?s) (group_of ?s h)"
      proof (cases "h = ?n")
        case True
        then show ?thesis using False first by (auto simp: go list_all_iff)
      next
        case other: False
        then have ws: "waiting s h" using h w by simp
        then show ?thesis using groups_okD(6) [OF g ws] append_group(2) [OF g app ws] other by (simp add: go)
      qed
    next
      fix h k f assume h: "waiting ?s h" "(k, f) \<in> set (group_of ?s h)"
      show "f \<in> set (animationQueue ?s k) \<and> (k, f) \<notin> set (called ?s)"
      proof (cases "h = ?n")
        case True
        then have a: "(k, f) \<in> set ?as" using h(2) by (simp add: go)
        then have "map_of ?as k = Some f" using dk by (simp add: map_of_eq_Some_iff)
        then show ?thesis using queues_okD(3) [OF q, of k f] fresh [OF a] by (auto simp: fields(1) called)
      next
        case other: False
        then have ws: "waiting s h" using h w by simp
        then show ?thesis using append_member(2) [OF g app ws] groups_okD(4) [OF g ws] h(2) other by (simp add: go called)
      qed
    next
      fix h h' k f j e
      assume h: "waiting ?s h" "waiting ?s h'" "h < h'" "(k, f) \<in> set (group_of ?s h)" "(j, e) \<in> set (group_of ?s h')"
      then have ws: "waiting s h" "h \<noteq> ?n" using w [of h] w [of h'] old [of h'] by auto
      show "f < e"
      proof (cases "h' = ?n")
        case True
        have "f < fresh s" using groups_okD(3) [OF g ws(1)] queues_okD(2) [OF q] h(4) ws(2) by (auto simp: go)
        moreover have "fresh s \<le> e" using h(5) True fresh by (simp add: go)
        ultimately show ?thesis by simp
      next
        case other: False
        then show ?thesis using groups_okD(7) [OF g ws(1), of h' k f j e] h w [of h'] ws(2) by (simp add: go)
      qed
    next
      fix k
      have "blocked ?s k h = blocked s k h" if "h < ?n" for h
        using that append_member(1) [OF g app, of h k] w [of h] by (auto simp: blocked_def go)
      then have "filter (blocked ?s k) [0..<?n] = filter (blocked s k) [0..<?n]" by (intro filter_cong) auto
      moreover have "blocked ?s k ?n \<longleftrightarrow> (\<exists>f. (k, f) \<in> set ?as \<and> \<not> ?ready (k, f))"
        using first w [of ?n] by (auto simp: blocked_def go)
      ultimately show "actionToActionGroups ?s k = filter (blocked ?s k) [0..<nextAnimationId ?s]"
        using groups_okD(8) [OF g, of k] False by (simp add: fields)
    qed
    ultimately show ?thesis by (simp add: anim_ok_def)
  qed
qed

section \<open>The end of an animation\<close>

text \<open>The queue of \<open>k\<close> loses its first function, which was called.\<close>

definition drop_first :: "key \<Rightarrow> animations \<Rightarrow> animations" where
  "drop_first k s = s\<lparr>animationQueue := (animationQueue s)(k := tl (animationQueue s k))\<rparr>"

lemma drop_fields [simp]:
  "animationQueue (drop_first k s) = (animationQueue s)(k := tl (animationQueue s k))"
  "actionToActionGroups (drop_first k s) = actionToActionGroups s" "group_of (drop_first k s) = group_of s"
  "animationsToCount (drop_first k s) = animationsToCount s" "nextAnimationId (drop_first k s) = nextAnimationId s"
  "called (drop_first k s) = called s" "fresh (drop_first k s) = fresh s" "waiting (drop_first k s) g = waiting s g"
  by (simp_all add: drop_first_def waiting_def)

lemma drop_first_in: "j \<noteq> k \<Longrightarrow> first_in (drop_first k s) (j, e) = first_in s (j, e)"
  by (simp add: first_in_alt)

lemma drop_member:
  assumes q: "queues_ok s" and g: "groups_ok s" and head: "animationQueue s k = f # r" "(k, f) \<in> set (called s)"
    and w: "waiting s h" "(j, e) \<in> set (group_of s h)"
  shows "e \<in> set (animationQueue (drop_first k s) j)" and "j = k \<Longrightarrow> e \<in> set r" and "j = k \<Longrightarrow> \<not> first_in s (j, e)"
proof -
  have e: "e \<in> set (animationQueue s j)" by (rule groups_okD(3) [OF g w])
  have "e \<noteq> f" if "j = k" using groups_okD(4) [OF g w] head(2) that by auto
  then show "e \<in> set (animationQueue (drop_first k s) j)" "j = k \<Longrightarrow> e \<in> set r" "j = k \<Longrightarrow> \<not> first_in s (j, e)"
    using e head(1) by (auto simp: first_in_alt)
qed

text \<open>What of the queues holds whatever is called next.\<close>

lemma drop_queues:
  assumes q: "queues_ok s" and head: "animationQueue s k = f # r" "(k, f) \<in> set (called s)"
    and q': "animationQueue s' = animationQueue (drop_first k s)" "fresh s' = fresh s" "called s' = called s @ new" "distinct new"
    and new: "\<And>j e. (j, e) \<in> set new \<Longrightarrow> first_in (drop_first k s) (j, e) \<and> (j, e) \<notin> set (called s)"
    and heads: "\<And>j e. first_in (drop_first k s) (j, e) \<Longrightarrow>
      (j, e) \<in> set (called s') \<or> (\<exists>g. waiting s' g \<and> (j, e) \<in> set (group_of s' g))"
  shows "queues_ok s'"
proof -
  have sorted: "sorted_wrt (<) (animationQueue (drop_first k s) j)" for j
    using queues_okD(1) [OF q, of j] queues_okD(1) [OF q, of k] head(1) by auto
  have sub: "set (animationQueue (drop_first k s) j) \<subseteq> set (animationQueue s j)" for j
    using head(1) by auto
  have first: "first_in s' a = first_in (drop_first k s) a" for a
    by (cases a) (simp only: first_in_alt q'(1))
  show ?thesis unfolding queues_ok_def
  proof (intro conjI allI impI ballI)
    show "sorted_wrt (<) (animationQueue s' j)" for j using sorted by (simp only: q')
    show "e < fresh s'" if "e \<in> set (animationQueue s' j)" for e j
      using that sub queues_okD(2) [OF q] by (fastforce simp: q')
    show "distinct (called s')" using queues_okD(5) [OF q] new by (auto simp: q' \<open>distinct new\<close>)
    show "(j, e) \<in> set (called s') \<or> (\<exists>g. waiting s' g \<and> (j, e) \<in> set (group_of s' g))" if "first_in s' (j, e)" for j e
      using heads that by (simp add: first)
  next
    fix j e assume c: "(j, e) \<in> set (called s')"
    show "e < fresh s'"
    proof (cases "(j, e) \<in> set new")
      case True
      then have "e \<in> set (animationQueue (drop_first k s) j)" using new [OF True] by (auto simp: first_in_alt split: if_splits)
      then show ?thesis using sub queues_okD(2) [OF q] by (fastforce simp: q')
    next
      case False
      then show ?thesis using c queues_okD(3) [OF q] by (simp add: q')
    qed
    show "e \<notin> set (tl (animationQueue s' j))"
    proof (cases "(j, e) \<in> set new")
      case True
      then have "animationQueue (drop_first k s) j \<noteq> []" "hd (animationQueue (drop_first k s) j) = e"
        using new [OF True] by (simp_all add: first_in_alt del: drop_fields)
      then show ?thesis using sorted [of j] unfolding q'(1) by (cases "animationQueue (drop_first k s) j") auto
    next
      case False
      then have "e \<notin> set (tl (animationQueue s j))" using c queues_okD(4) [OF q] by (simp add: q')
      then show ?thesis using head(1) by (cases r) (auto simp: q')
    qed
  qed
qed

text \<open>The list of \<open>k\<close> begins with the group of the function that is now first, if that waits.\<close>

lemma filter_least:
  assumes "P g" and "g < n" and "\<And>x. P x \<Longrightarrow> g \<le> x" and "\<And>x. Q x \<longleftrightarrow> P x \<and> x \<noteq> g"
  shows "filter P [0..<n] = g # filter Q [0..<n]"
proof -
  have "[0..<n] = [0..<g] @ g # [Suc g..<n]" using assms(2) by (metis upt_add_eq_append upt_conv_Cons le_add_diff_inverse less_imp_le zero_le)
  moreover have "filter P [0..<g] = []" "filter Q [0..<g] = []"
    using assms(3,4) by (auto simp: filter_empty_conv leD)
  moreover have "filter P [Suc g..<n] = filter Q [Suc g..<n]" using assms(4) by (intro filter_cong) auto
  ultimately show ?thesis using assms(1,4) by simp
qed

lemma group_first:
  assumes q: "queues_ok s" and g: "groups_ok s" and head: "animationQueue s k = f # e # r" "(k, f) \<in> set (called s)"
    and w: "waiting s h" "(k, e) \<in> set (group_of s h)"
  shows "actionToActionGroups s k = h # filter (blocked (drop_first k s) k) [0..<nextAnimationId s]"
  unfolding groups_okD(8) [OF g]
proof (rule filter_least)
  note member = drop_member [OF q g head]
  show "blocked s k h" using w member(3) [OF w] by (auto simp: blocked_def)
  show "h < nextAnimationId s" by (rule groups_okD(1) [OF g w(1)])
  have sorted: "e \<le> e'" if "e' \<in> set (e # r)" for e' using queues_okD(1) [OF q, of k] head(1) that by auto
  show least: "h \<le> x" if "blocked s k x" for x
  proof (rule ccontr)
    assume "\<not> h \<le> x"
    from that obtain e' where x: "waiting s x" "(k, e') \<in> set (group_of s x)" by (auto simp: blocked_def)
    then have "e' < e" using groups_okD(7) [OF g x(1) w(1) _ x(2) w(2)] \<open>\<not> h \<le> x\<close> by simp
    moreover have "e \<le> e'" using sorted member(2) [OF x] by simp
    ultimately show False by simp
  qed
  show "blocked (drop_first k s) k x \<longleftrightarrow> blocked s k x \<and> x \<noteq> h" for x
  proof
    assume "blocked (drop_first k s) k x"
    then obtain e' where x: "waiting s x" "(k, e') \<in> set (group_of s x)" "e' \<noteq> e" by (auto simp: blocked_def first_in_alt head(1))
    then have "x \<noteq> h" using same_member [OF groups_okD(2) [OF g w(1)] w(2)] by auto
    with x member(3) [OF x(1,2)] show "blocked s k x \<and> x \<noteq> h" by (auto simp: blocked_def)
  next
    assume x: "blocked s k x \<and> x \<noteq> h"
    then obtain e' where x': "waiting s x" "(k, e') \<in> set (group_of s x)" by (auto simp: blocked_def)
    then have "e' \<noteq> e" using groups_okD(7) [OF g x'(1) w(1) _ x'(2) w(2)] groups_okD(7) [OF g w(1) x'(1) _ w(2) x'(2)] x
      by (cases x h rule: linorder_cases) auto
    with x' show "blocked (drop_first k s) k x" by (auto simp: blocked_def first_in_alt head(1))
  qed
qed

lemma group_count:
  assumes q: "queues_ok s" and g: "groups_ok s" and head: "animationQueue s k = f # e # r" "(k, f) \<in> set (called s)"
    and w: "waiting s h" "(k, e) \<in> set (group_of s h)"
  shows "length (filter (first_in (drop_first k s)) (group_of s h)) = length (filter (first_in s) (group_of s h)) + 1"
proof -
  have d: "distinct (group_of s h)" using groups_okD(2) [OF g w(1)] by (simp add: distinct_map)
  have "first_in (drop_first k s) (j, i) \<longleftrightarrow> first_in s (j, i) \<or> (j, i) = (k, e)" if "(j, i) \<in> set (group_of s h)" for j i
    using drop_first_in [of j k s i] drop_member(3) [OF q g head w(1) that] by (cases "j = k") (auto simp: first_in_alt head(1))
  then have "set (filter (first_in (drop_first k s)) (group_of s h)) = insert (k, e) (set (filter (first_in s) (group_of s h)))"
    using w(2) by auto
  moreover have "(k, e) \<notin> set (filter (first_in s) (group_of s h))" using drop_member(3) [OF q g head w] by simp
  ultimately show ?thesis using d by (simp add: distinct_card [symmetric])
qed

text \<open>A group that is not the one of the function that is now first has the same animations first as before.\<close>

lemma other_group:
  assumes q: "queues_ok s" and g: "groups_ok s" and head: "animationQueue s k = f # r" "(k, f) \<in> set (called s)"
    and w: "waiting s h" "\<And>e r'. r = e # r' \<Longrightarrow> (k, e) \<notin> set (group_of s h)" and m: "(j, i) \<in> set (group_of s h)"
  shows "first_in (drop_first k s) (j, i) = first_in s (j, i)"
proof (cases "j = k")
  case True
  then have "\<not> first_in s (j, i)" "i \<in> set r" using drop_member(2,3) [OF q g head w(1) m] by auto
  moreover have "\<not> first_in (drop_first k s) (k, i)"
    using m True w(2) by (cases r) (auto simp: first_in_alt head(1))
  ultimately show ?thesis using True by simp
qed (rule drop_first_in)

lemma waits_first:
  assumes q: "queues_ok s" and g: "groups_ok s" and head: "animationQueue s k = f # r" "(k, f) \<in> set (called s)"
    and first: "first_in (drop_first k s) (j, e)"
  shows "(j, e) \<in> set (called s) \<and> j \<noteq> k \<or> j = k \<and> (\<exists>r'. r = e # r') \<or> j \<noteq> k \<and> (\<exists>h. waiting s h \<and> (j, e) \<in> set (group_of s h))"
proof (cases "j = k")
  case True
  then show ?thesis using first head(1) by (cases r) (auto simp: first_in_alt)
next
  case False
  then have "first_in s (j, e)" using first drop_first_in by blast
  from queues_okD(6) [OF q this] False show ?thesis by blast
qed

text \<open>The function that is now first is called when it belongs to no group, and nothing when the queue is empty.\<close>

lemma single_ok:
  assumes ok: "anim_ok s" and head: "animationQueue s k = f # r" "(k, f) \<in> set (called s)"
    and alone: "\<And>e r' h. r = e # r' \<Longrightarrow> waiting s h \<Longrightarrow> (k, e) \<notin> set (group_of s h)"
  shows "anim_ok (call_all (case r of [] \<Rightarrow> [] | e # r' \<Rightarrow> [(k, e)]) (drop_first k s))"
proof -
  let ?new = "case r of [] \<Rightarrow> [] | e # r' \<Rightarrow> [(k, e)]"
  let ?s = "call_all ?new (drop_first k s)"
  have q: "queues_ok s" and g: "groups_ok s" using ok by (simp_all add: anim_ok_def)
  have fields: "animationQueue ?s = animationQueue (drop_first k s)" "called ?s = called s @ ?new" "group_of ?s = group_of s"
    "fresh ?s = fresh s" "nextAnimationId ?s = nextAnimationId s" "animationsToCount ?s = animationsToCount s"
    "actionToActionGroups ?s = actionToActionGroups s" by (simp_all add: call_all_def)
  have w: "waiting ?s h = waiting s h" for h by (simp add: waiting_def fields)
  have first: "first_in ?s a = first_in (drop_first k s) a" for a by (cases a) (simp only: first_in_alt fields)
  have new: "r = e # tl r" "j = k" if "(j, e) \<in> set ?new" for j e using that by (auto split: list.splits)
  have "queues_ok ?s"
  proof (rule drop_queues [OF q head fields(1,4,2)])
    show "distinct ?new" by (simp split: list.split)
    show "first_in (drop_first k s) (j, e) \<and> (j, e) \<notin> set (called s)" if "(j, e) \<in> set ?new" for j e
    proof -
      have "e \<in> set (tl (animationQueue s k))" using new [OF that] head(1) by (metis list.sel(3) list.set_intros(1))
      then show ?thesis using queues_okD(4) [OF q, of k e] new [OF that] head(1) by (auto simp: first_in_alt) (metis list.sel(1))+
    qed
    show "(j, e) \<in> set (called ?s) \<or> (\<exists>g. waiting ?s g \<and> (j, e) \<in> set (group_of ?s g))" if "first_in (drop_first k s) (j, e)" for j e
      using waits_first [OF q g head that] by (auto simp: w fields)
  qed
  moreover have "groups_ok ?s"
  proof -
    have same: "first_in ?s (j, i) = first_in s (j, i)" if "waiting s h" "(j, i) \<in> set (group_of s h)" for h j i
      unfolding first using alone that by (intro other_group [OF q g head that(1) _ that(2)]) blast
    have "filter (first_in ?s) (group_of s h) = filter (first_in s) (group_of s h)"
      "list_all (first_in ?s) (group_of s h) = list_all (first_in s) (group_of s h)" if "waiting s h" for h
      using same [OF that] by (auto simp: list_all_iff intro!: filter_cong)
    note groups = this
    have b: "blocked ?s j = blocked s j" for j by (auto simp: blocked_def w fields same fun_eq_iff)
    have "(j, i) \<notin> set ?new" if "waiting s h" "(j, i) \<in> set (group_of s h)" for h j i using alone that by (auto split: list.splits)
    note uncalled = this
    show ?thesis
    proof (rule groups_okI)
      fix h assume h: "waiting ?s h"
      then show "h < nextAnimationId ?s" "distinct (map fst (group_of ?s h))" "\<not> list_all (first_in ?s) (group_of ?s h)"
        "animationsToCount ?s h = Some (length (filter (first_in ?s) (group_of ?s h)))"
        using groups_okD(1,2,5,6) [OF g, of h] groups [of h] by (simp_all add: w fields)
      show "e \<in> set (animationQueue ?s j) \<and> (j, e) \<notin> set (called ?s)" if "(j, e) \<in> set (group_of ?s h)" for j e
        using groups_okD(4) [OF g, of h j e] drop_member(1) [OF q g head, of h j e] uncalled [of h j e] h that
        by (simp add: w fields del: drop_fields)
    next
      fix h h' j i j' i'
      assume "waiting ?s h" "waiting ?s h'" "h < h'" "(j, i) \<in> set (group_of ?s h)" "(j', i') \<in> set (group_of ?s h')"
      then show "i < i'" using groups_okD(7) [OF g, of h h' j i j' i'] by (simp add: w fields)
    next
      show "actionToActionGroups ?s j = filter (blocked ?s j) [0..<nextAnimationId ?s]" for j
        using groups_okD(8) [OF g, of j] by (simp add: b fields)
    qed
  qed
  ultimately show ?thesis by (simp add: anim_ok_def)
qed

text \<open>
  The function that is now first belongs to the waiting group \<open>h\<close>: one more is ready, and if it is the last one all are
  called.
\<close>

lemma member_ok:
  assumes ok: "anim_ok s" and head: "animationQueue s k = f # e # r" "(k, f) \<in> set (called s)"
    and w: "waiting s h" "(k, e) \<in> set (group_of s h)"
    and last: "lst \<longleftrightarrow> list_all (first_in (drop_first k s)) (group_of s h)"
  shows "anim_ok ((drop_first k s)\<lparr>
    actionToActionGroups := (actionToActionGroups s)(k := filter (blocked (drop_first k s) k) [0..<nextAnimationId s]),
    animationsToCount := (animationsToCount s)(h := if lst then None else Some (length (filter (first_in s) (group_of s h)) + 1)),
    called := called s @ (if lst then group_of s h else [])\<rparr>)" (is "anim_ok ?s")
proof -
  have q: "queues_ok s" and g: "groups_ok s" using ok by (simp_all add: anim_ok_def)
  have fields: "animationQueue ?s = animationQueue (drop_first k s)" "called ?s = called s @ (if lst then group_of s h else [])"
    "group_of ?s = group_of s" "fresh ?s = fresh s" "nextAnimationId ?s = nextAnimationId s" by simp_all
  have w': "waiting ?s x \<longleftrightarrow> waiting s x \<and> \<not> (lst \<and> x = h)" for x using w(1) by (auto simp: waiting_def)
  have first: "first_in ?s a = first_in (drop_first k s) a" for a by (cases a) (simp only: first_in_alt fields)
  have same: "first_in (drop_first k s) (j, i) = first_in s (j, i)"
    if "waiting s x" "x \<noteq> h" "(j, i) \<in> set (group_of s x)" for x j i
  proof (rule other_group [OF q g head that(1) _ that(3)])
    fix e' r' assume "e # r = e' # r'"
    then show "(k, e') \<notin> set (group_of s x)"
      using groups_okD(7) [OF g that(1) w(1), of k e k e] groups_okD(7) [OF g w(1) that(1), of k e k e] w(2) that(2)
      by (cases x h rule: linorder_cases) auto
  qed
  have member: "first_in (drop_first k s) (j, i) \<and> (j, i) \<notin> set (called s)" if "(j, i) \<in> set (group_of s h)" lst for j i
    using that last groups_okD(4) [OF g w(1)] by (auto simp: list_all_iff)
  have d: "distinct (group_of s h)" using groups_okD(2) [OF g w(1)] by (simp add: distinct_map)
  have "queues_ok ?s"
  proof (rule drop_queues [OF q head fields(1,4,2)])
    show "distinct (if lst then group_of s h else [])" using d by simp
    show "first_in (drop_first k s) (j, i) \<and> (j, i) \<notin> set (called s)" if "(j, i) \<in> set (if lst then group_of s h else [])" for j i
      using that member by (cases lst) auto
    show "(j, i) \<in> set (called ?s) \<or> (\<exists>x. waiting ?s x \<and> (j, i) \<in> set (group_of ?s x))" if "first_in (drop_first k s) (j, i)" for j i
    proof -
      from waits_first [OF q g head that] w
      consider "(j, i) \<in> set (called s)" | x where "waiting s x" "(j, i) \<in> set (group_of s x)" by auto
      then show ?thesis
      proof cases
        case (2 x)
        then show ?thesis by (cases "lst \<and> x = h") (auto simp: fields w')
      qed (simp add: fields)
    qed
  qed
  moreover have "groups_ok ?s"
  proof (rule groups_okI)
    fix x assume x: "waiting ?s x"
    then have xs: "waiting s x" by (simp add: w')
    show "x < nextAnimationId ?s" "distinct (map fst (group_of ?s x))"
      using groups_okD(1,2) [OF g xs] by (simp_all only: fields)
    show "animationsToCount ?s x = Some (length (filter (first_in ?s) (group_of ?s x)))" "\<not> list_all (first_in ?s) (group_of ?s x)"
    proof -
      have "animationsToCount ?s x = Some (length (filter (first_in ?s) (group_of ?s x))) \<and> \<not> list_all (first_in ?s) (group_of ?s x)"
      proof (cases "x = h")
        case True
        then have "\<not> lst" using x w' by simp
        then show ?thesis using group_count [OF q g head w] True last unfolding ext [of "first_in ?s", OF first] by simp
      next
        case False
        have "first_in ?s a = first_in s a" if "a \<in> set (group_of s x)" for a
          using same [OF xs False] that by (cases a) (simp add: first)
        then have "filter (first_in ?s) (group_of s x) = filter (first_in s) (group_of s x)"
          "list_all (first_in ?s) (group_of s x) = list_all (first_in s) (group_of s x)"
          by (auto simp: list_all_iff intro!: filter_cong)
        then show ?thesis using groups_okD(5,6) [OF g xs] False by (simp only: fields) simp
      qed
      then show "animationsToCount ?s x = Some (length (filter (first_in ?s) (group_of ?s x)))" "\<not> list_all (first_in ?s) (group_of ?s x)"
        by blast+
    qed
    show "i \<in> set (animationQueue ?s j) \<and> (j, i) \<notin> set (called ?s)" if "(j, i) \<in> set (group_of ?s x)" for j i
    proof -
      have m: "(j, i) \<in> set (group_of s x)" using that by simp
      have "(j, i) \<notin> set (group_of s h)" if lst
      proof
        assume h: "(j, i) \<in> set (group_of s h)"
        have "x \<noteq> h" using x w' that by simp
        then show False using groups_okD(7) [OF g xs w(1) _ m h] groups_okD(7) [OF g w(1) xs _ h m] by (cases x h rule: linorder_cases) auto
      qed
      then show ?thesis using drop_member(1) [OF q g head xs m] groups_okD(4) [OF g xs m] unfolding fields by auto
    qed
  next
    fix x y j i j' i'
    assume "waiting ?s x" "waiting ?s y" "x < y" "(j, i) \<in> set (group_of ?s x)" "(j', i') \<in> set (group_of ?s y)"
    then show "i < i'" using groups_okD(7) [OF g, of x y j i j' i'] by (simp add: w')
  next
    fix j
    have free: "\<not> blocked (drop_first k s) j h" if lst using last that by (auto simp: blocked_def list_all_iff)
    have now: "blocked ?s j x = blocked (drop_first k s) j x" for x
      using free w' by (auto simp: blocked_def first)
    have before: "blocked (drop_first k s) j x = blocked s j x" if "j \<noteq> k" for x
      using that by (simp add: blocked_def drop_first_in)
    show "actionToActionGroups ?s j = filter (blocked ?s j) [0..<nextAnimationId ?s]"
      unfolding ext [of "blocked ?s j", OF now]
      using groups_okD(8) [OF g, of j] ext [of "blocked (drop_first k s) j" "blocked s j", OF before] by (cases "j = k") simp_all
  qed
  ultimately show ?thesis by (simp add: anim_ok_def)
qed

text \<open>The end of an animation raises no exception and keeps the invariant.\<close>

lemma find_member: "distinct (map fst as) \<Longrightarrow> (k, e) \<in> set as \<Longrightarrow> find (\<lambda>a. fst a = k) as = Some (k, e)"
  by (induction as) (auto simp: image_iff)

text \<open>What a step calls is first in its queue then, and what is in the queues was there or is new.\<close>

definition calls_first :: "animations \<Rightarrow> animations \<Rightarrow> bool" where
  "calls_first s s' \<longleftrightarrow>
     (\<exists>new. called s' = called s @ new \<and> (\<forall>a \<in> set new. first_in s' a)) \<and>
     (\<forall>j. set (animationQueue s' j) \<subseteq> set (animationQueue s j) \<union> {fresh s..})"

lemma calls_firstI:
  "called s' = called s @ new \<Longrightarrow> (\<And>a. a \<in> set new \<Longrightarrow> first_in s' a) \<Longrightarrow>
    (\<And>j. set (animationQueue s' j) \<subseteq> set (animationQueue s j) \<union> {fresh s..}) \<Longrightarrow> calls_first s s'"
  unfolding calls_first_def by blast

lemma fire_ok:
  assumes ok: "anim_ok s" and run: "running s k"
  shows "\<exists>s'. fireAnimationFromQueue k s = Some s' \<and> anim_ok s' \<and> calls_first s s'"
proof -
  have q: "queues_ok s" and g: "groups_ok s" using ok by (simp_all add: anim_ok_def)
  obtain f r where head: "animationQueue s k = f # r" "(k, f) \<in> set (called s)"
    using run by (auto simp: running_def getAnimation_def split: list.splits)
  let ?s = "drop_first k s"
  have fire: "fireAnimationFromQueue k s = (case getAnimation k ?s of None \<Rightarrow> Some ?s
      | Some e \<Rightarrow> (case checkFireActionGroup k e ?s of None \<Rightarrow> None
          | Some (b, s2) \<Rightarrow> Some (if b then s2 else call_all [(k, e)] s2)))"
    unfolding fireAnimationFromQueue_def drop_first_def Let_def ..
  show ?thesis
  proof (cases r)
    case Nil
    have "anim_ok (call_all [] ?s)" using single_ok [OF ok head] Nil by simp
    moreover have "call_all [] ?s = ?s" by (simp add: call_all_def)
    moreover have "calls_first s ?s" by (rule calls_firstI [of _ _ "[]"]) (use Nil head in auto)
    ultimately show ?thesis using Nil head by (simp add: fire getAnimation_def)
  next
    case (Cons e r')
    note head' = head [unfolded Cons]
    have get: "getAnimation k ?s = Some e" using head' by (simp add: getAnimation_def)
    show ?thesis
    proof (cases "\<exists>h. waiting s h \<and> (k, e) \<in> set (group_of s h)")
      case True
      then obtain h where w: "waiting s h" "(k, e) \<in> set (group_of s h)" by blast
      let ?as = "group_of s h" and ?all = "list_all (first_in ?s) (group_of s h)"
      let ?rest = "filter (blocked ?s k) [0..<nextAnimationId s]" and ?c = "length (filter (first_in s) (group_of s h)) + 1"
      have groups: "actionToActionGroups s k = h # ?rest" using group_first [OF q g head' w] by simp
      have found: "find (\<lambda>a. fst a = k) ?as = Some (k, e)" by (rule find_member [OF groups_okD(2) [OF g w(1)] w(2)])
      have count: "animationsToCount s h = Some (length (filter (first_in s) ?as))" by (rule groups_okD(5) [OF g w(1)])
      have all: "?c = length ?as \<longleftrightarrow> ?all"
        using group_count [OF q g head' w] by (metis filter_True length_filter_less list_all_iff nat_neq_iff)
      let ?s' = "?s\<lparr>actionToActionGroups := (actionToActionGroups s)(k := ?rest),
        animationsToCount := (animationsToCount s)(h := if ?all then None else Some ?c), called := called s @ (if ?all then ?as else [])\<rparr>"
      have same: "?s\<lparr>actionToActionGroups := x, animationsToCount := y, called := called s\<rparr> = ?s\<lparr>actionToActionGroups := x, animationsToCount := y\<rparr>"
        for x y by (simp add: drop_first_def)
      have "checkFireActionGroup k e ?s = Some (True, ?s')"
      proof (cases ?all)
        case False
        then show ?thesis using all by (simp add: checkFireActionGroup_def groups found count same Let_def)
      next
        case True
        have first: "getAnimation (fst a) (?s\<lparr>actionToActionGroups := x, animationsToCount := y\<rparr>) = Some (snd a)" if "a \<in> set ?as" for a x y
          using True that by (auto simp: list_all_iff first_in_def getAnimation_def)
        then have "map (\<lambda>a. (fst a, the (getAnimation (fst a) (?s\<lparr>actionToActionGroups := x, animationsToCount := y\<rparr>)))) ?as = ?as" for x y
          by (intro map_idI) simp
        with first True all show ?thesis
          by (simp add: checkFireActionGroup_def groups found count call_all_def list_all_iff Let_def)
      qed
      moreover have "calls_first s ?s'"
      proof (rule calls_firstI [of _ _ "if ?all then ?as else []"])
        show "first_in ?s' a" if "a \<in> set (if ?all then ?as else [])" for a
        proof -
          have "first_in ?s a" using that by (auto simp: list_all_iff split: if_splits)
          then show ?thesis by (cases a) (simp add: first_in_alt)
        qed
      qed (use head' in auto)
      ultimately show ?thesis using member_ok [OF ok head' w refl] by (simp add: fire get)
    next
      case False
      have "checkFireActionGroup k e ?s = Some (False, ?s)"
      proof (cases "actionToActionGroups s k")
        case (Cons h hs)
        then have "h \<in> set (filter (blocked s k) [0..<nextAnimationId s])" using groups_okD(8) [OF g, of k] by (metis list.set_intros(1))
        then obtain e' where m: "waiting s h" "(k, e') \<in> set (group_of s h)" by (auto simp: blocked_def)
        have "find (\<lambda>a. fst a = k) (group_of s h) = Some (k, e')" by (rule find_member [OF groups_okD(2) [OF g m(1)] m(2)])
        moreover have "e' \<noteq> e" using False m by auto
        ultimately show ?thesis using Cons by (simp add: checkFireActionGroup_def Let_def)
      qed (simp add: checkFireActionGroup_def)
      moreover have "anim_ok (call_all (case r of [] \<Rightarrow> [] | e # r' \<Rightarrow> [(k, e)]) ?s)"
        by (rule single_ok [OF ok head]) (use Cons False in auto)
      then have "anim_ok (call_all [(k, e)] ?s)" by (simp add: Cons)
      moreover have "calls_first s (call_all [(k, e)] ?s)"
        by (rule calls_firstI [of _ _ "[(k, e)]"]) (use head' in \<open>auto simp: call_all_def first_in_alt\<close>)
      ultimately show ?thesis by (simp add: fire get)
    qed
  qed
qed

section \<open>All runs\<close>

text \<open>The functions of a key are called in their order.\<close>

definition order_ok :: "animations \<Rightarrow> bool" where
  "order_ok s \<longleftrightarrow> (\<forall>k f e. (k, f) \<in> set (called s) \<longrightarrow> e \<in> set (animationQueue s k) \<longrightarrow> f \<le> e) \<and>
     (\<forall>k. sorted (map snd (filter (\<lambda>a. fst a = k) (called s))))"

lemma order_step:
  assumes o: "order_ok s" and q: "queues_ok s" and q': "queues_ok s'" and c: "calls_first s s'"
  shows "order_ok s'"
proof -
  obtain new where new: "called s' = called s @ new" "\<And>a. a \<in> set new \<Longrightarrow> first_in s' a"
    and sub: "\<And>j. set (animationQueue s' j) \<subseteq> set (animationQueue s j) \<union> {fresh s..}" using c by (auto simp: calls_first_def)
  have old: "f \<le> e" if "(k, f) \<in> set (called s)" "e \<in> set (animationQueue s' k)" for k f e
    using that sub [of k] o queues_okD(3) [OF q that(1)] by (fastforce simp: order_ok_def)
  have first: "f \<le> e" if "(k, f) \<in> set new" "e \<in> set (animationQueue s' k)" for k f e
    using new(2) [OF that(1)] that(2) queues_okD(1) [OF q', of k] by (cases "animationQueue s' k") (auto simp: first_in_alt)
  have inside: "f \<in> set (animationQueue s' k)" if "(k, f) \<in> set new" for k f using new(2) [OF that] by (auto simp: first_in_alt)
  have "sorted (map snd (filter (\<lambda>a. fst a = k) (called s')))" for k
  proof -
    have "sorted (map snd (filter (\<lambda>a. fst a = k) new))"
    proof -
      have "snd a = hd (animationQueue s' k)" if "a \<in> set (filter (\<lambda>a. fst a = k) new)" for a
        using new(2) [of a] that by (cases a) (auto simp: first_in_alt)
      then have "map snd (filter (\<lambda>a. fst a = k) new) = replicate (length (filter (\<lambda>a. fst a = k) new)) (hd (animationQueue s' k))"
        by (intro replicate_eqI) auto
      then show ?thesis by simp
    qed
    moreover have "sorted (map snd (filter (\<lambda>a. fst a = k) (called s)))" using o by (simp add: order_ok_def)
    moreover have "snd a \<le> snd b" if "a \<in> set (called s)" "fst a = k" "b \<in> set new" "fst b = k" for a b
    proof -
      have "(k, snd a) = a" "(k, snd b) = b" using that(2,4) by (simp_all add: prod_eq_iff)
      then show ?thesis using old [of k "snd a" "snd b"] inside [of k "snd b"] that by simp
    qed
    ultimately show ?thesis by (auto simp: new(1) sorted_append)
  qed
  then show ?thesis using old first by (auto simp: order_ok_def new(1))
qed

lemma add_first: "calls_first s (addAnimation (k, fresh s) False (s\<lparr>fresh := fresh s + 1\<rparr>))"
  by (rule calls_firstI [of _ _ "if animationQueue s k = [] then [(k, fresh s)] else []"]) (auto simp: first_in_alt split: if_splits)

lemma add_group_first:
  assumes "distinct ks" and "length ks \<ge> 2"
  shows "calls_first s (addAnimations (zip ks [fresh s..<fresh s + length ks]) (s\<lparr>fresh := fresh s + length ks\<rparr>))"
proof -
  let ?as = "zip ks [fresh s..<fresh s + length ks]" and ?init = "s\<lparr>fresh := fresh s + length ks\<rparr>"
  have dk: "distinct (map fst ?as)" and two: "length ?as \<ge> 2" using assms by simp_all
  note fields = add_group_fields [where s = ?init, OF dk two, simplified]
  show ?thesis
  proof (rule calls_firstI [OF fields(3)])
    fix a assume a: "a \<in> set (if list_all (\<lambda>a. animationQueue s (fst a) = []) ?as then ?as else [])"
    then have "animationQueue s (fst a) = []" "map_of ?as (fst a) = Some (snd a)"
      using dk by (auto simp: list_all_iff map_of_eq_Some_iff split: if_splits)
    then show "first_in (addAnimations ?as ?init) a" by (cases a) (simp add: first_in_alt fields)
  next
    fix j
    have "fresh s \<le> x" if "Some x = map_of ?as j" for x using map_of_SomeD [OF that [symmetric]] by (auto dest: set_zip_rightD)
    then show "set (animationQueue (addAnimations ?as ?init) j) \<subseteq> set (animationQueue s j) \<union> {fresh s..}"
      unfolding fields(1) by (split option.split) auto
  qed
qed

lemma anim_step_ok:
  assumes "anim_ok s" and "order_ok s"
  shows "\<exists>s'. anim_step e s = Some s' \<and> anim_ok s' \<and> order_ok s'"
proof -
  have order: "order_ok s'" if "anim_ok s'" "calls_first s s'" for s'
    using that assms order_step by (auto simp: anim_ok_def)
  show ?thesis
  proof (cases e)
    case (Add k)
    then show ?thesis using add_ok [OF assms(1)] add_first order by simp
  next
    case (Add_group ks)
    then show ?thesis using add_group_ok [OF assms(1)] add_group_first [of ks s] assms order by simp
  next
    case (End_of k)
    then show ?thesis using fire_ok [OF assms(1)] assms order by (cases "running s k") auto
  qed
qed

lemma anim_run_ok: "anim_ok s \<Longrightarrow> order_ok s \<Longrightarrow> \<exists>s'. anim_run es s = Some s' \<and> anim_ok s' \<and> order_ok s'"
proof (induction es arbitrary: s)
  case (Cons e es)
  from anim_step_ok [OF Cons.prems, of e] Cons.IH show ?case by auto
qed simp

lemma anim_start_ok: "anim_ok no_animations" "order_ok no_animations"
  by (simp_all add: anim_ok_def queues_ok_def groups_ok_def order_ok_def no_animations_def first_in_def getAnimation_def
      waiting_def blocked_def)

text \<open>
  C36: in every run of animations and groups of animations that are added and of animations that end, no
  exception is raised, each is called at most once, those of a key in the order in which they were added and only the
  first one of the queue can have been called and not ended; a group that waits has called none of its animations;
  and as long as a queue is not empty some animation runs, so none waits for ever when those that run end.
\<close>

theorem animations_start:
  shows "\<exists>s. anim_run es no_animations = Some s \<and> distinct (called s) \<and>
    (\<forall>k. sorted (map snd (filter (\<lambda>a. fst a = k) (called s)))) \<and>
    (\<forall>k f. (k, f) \<in> set (called s) \<longrightarrow> f \<notin> set (tl (animationQueue s k))) \<and>
    (\<forall>g a. waiting s g \<and> a \<in> set (group_of s g) \<longrightarrow> a \<notin> set (called s)) \<and>
    ((\<exists>k. animationQueue s k \<noteq> []) \<longrightarrow> (\<exists>k. running s k))"
proof -
  obtain s where s: "anim_run es no_animations = Some s" "queues_ok s" "groups_ok s" "order_ok s"
    using anim_run_ok [OF anim_start_ok, of es] by (auto simp: anim_ok_def)
  have "\<exists>k. running s k" if "animationQueue s k \<noteq> []" for k using nothing_stuck [OF s(2,3)] that by blast
  moreover have "a \<notin> set (called s)" if "waiting s g" "a \<in> set (group_of s g)" for g a
    using groups_okD(4) [OF s(3) that(1)] that(2) by (cases a) auto
  moreover have "sorted (map snd (filter (\<lambda>a. fst a = k) (called s)))" for k using s(4) by (simp add: order_ok_def)
  ultimately show ?thesis using s queues_okD(4,5) [OF s(2)] by blast
qed

definition a_key :: key where "a_key = Key ''u1'' 1"
definition b_key :: key where "b_key = Key ''u2'' 1"

lemma animations_start_witness:
  "\<exists>s. anim_run [Add a_key, Add_group [a_key, b_key], Add b_key] no_animations = Some s \<and> called s = [(a_key, 0)] \<and>
     waiting s 1 \<and> (b_key, 2) \<in> set (group_of s 1) \<and> running s a_key \<and> \<not> running s b_key"
proof -
  have keys: "a_key \<noteq> b_key" "b_key \<noteq> a_key" by (simp_all add: a_key_def b_key_def)
  from animations_start [of "[Add a_key, Add_group [a_key, b_key], Add b_key]"] obtain s
    where s: "anim_run [Add a_key, Add_group [a_key, b_key], Add b_key] no_animations = Some s"
      and g: "\<forall>g a. waiting s g \<and> a \<in> set (group_of s g) \<longrightarrow> a \<notin> set (called s)" by blast
  from s have c: "called s = [(a_key, 0)]" "animationQueue s a_key = [0, 1]" "animationQueue s b_key = [2, 3]"
    "animationsToCount s 1 = Some 1" "group_of s 1 = [(a_key, 1), (b_key, 2)]"
    by (auto simp: no_animations_def addAnimation_def addAnimations_def call_all_def getAnimation_def keys upt_conv_Cons Let_def)
  then have "(b_key, 2) \<notin> set (called s)" using g by (auto simp: waiting_def)
  then show ?thesis using s c keys by (auto simp: waiting_def running_def getAnimation_def)
qed

end
