(* ===== verification/Spec2Isabelle.thy ===== *)
theory Spec2Isabelle
  imports Register FileIndexOwner UploadLimit UploadSequence UploadChunks UploadAdd UploadProcessProps UploadUiRows MessageCenter IframeTransport Dialogs Player StoProps RegionsLimits Transform TreeWidget ResizeMoveProps RepeaterSort RepeaterProps SitemapProps AdaptiveLook ConsoleProps AnimationQueueProps
begin

text \<open>
  A verification library of the web pages of polarcloud (\<open>src/web/static\<close>), the browser side of a cloud
  storage: accounts, the file manager, the upload widget, and the pages of the design prototype.

  \<^bold>\<open>The program.\<close> The login page (\<open>js/model/user.js\<close>) and the registration page (\<open>register.js\<close>) send
  requests to the account server with the MD5 (\<open>md5.js\<close>) of the password, check a code drawn on a canvas
  (\<open>gVerify.js\<close>) or sent by SMS, and keep session and user in cookies. The file manager
  (\<open>file-index.js\<close>) reads these cookies, shows lists of files and messages, and creates, removes,
  downloads and uploads files, or shows only the files of the local node in anonymous mode. The upload
  widget (\<open>jquery.fileupload.js\<close> with its plug-ins for processing, validation and the user interface) takes
  files from inputs, drops and pastes, processes them, divides them into requests and sends these at once, in
  slots, in sequence, in chunks, or through an iframe. The pages of the design prototype run in a player
  (\<open>axplayer.js\<close>), share state and events through message centers (\<open>messagecenter.js\<close>), and bring a
  runtime (\<open>prototypePost.js\<close>) of many parts: variables, expressions, flyouts, widgets, styles, adaptive views,
  animations, repeaters.

  \<^bold>\<open>The theories.\<close>
  \<^item> \<open>Prelude\<close>: lemmas on lists, JavaScript's 32-bit operators as integers and as words, arrays.
    \<open>JsString\<close>: strings, numbers of strings, loose equality, decimal texts. \<open>Json\<close>: \<open>JSON.stringify\<close>
    and \<open>JSON.parse\<close> with their round trip.
  \<^item> \<open>Md5\<close> translates \<open>md5.js\<close>; \<open>Md5_Rfc\<close> states RFC 1321 on 32-bit words and proves one block of the
    code equal to it; \<open>Md5_Digest\<close> has padding, the whole digest, HMAC and the encodings.
  \<^item> \<open>Cookies\<close>: the browser's jar, \<open>setCookie\<close>, \<open>getCookie\<close> and \<open>delCookie\<close>; its locale states what the
    pages rely on and is interpreted on these functions. \<open>Browser\<close>: what a page does to the browser
    (texts, panels, inputs, alerts, pending requests), and runs of events.
  \<^item> \<open>GVerify\<close>: the verification code, with random draws in the state monad. \<open>User\<close> and \<open>Register\<close>: every
    function of the two pages with the handlers of their requests.
  \<^item> \<open>FileIndex\<close>: every function of the file manager and \<open>react\<close>, which makes one event of a click, an
    answer or a failure; \<open>FileIndexProps\<close> what its functions do and the anonymous mode;
    \<open>FileIndexOwner\<close> the invariant of its list, and what happens when answers overtake each other.
  \<^item> \<open>UploadData\<close>: options, files and the settings of a request. \<open>UploadQueue\<close>: \<open>_onSend\<close>, progress, slots,
    sequence, abort as events of a widget; \<open>UploadQueueProps\<close>, \<open>UploadLimit\<close> and \<open>UploadSequence\<close> the
    counters, the limit and the order in every run. \<open>UploadChunks\<close>: \<open>_chunkedUpload\<close>. \<open>UploadAdd\<close>: the
    events that bring files, directory trees, \<open>_onAdd\<close>. \<open>UploadProcess\<close> and \<open>UploadProcessProps\<close>: the queue
    of actions, validation, and the promises of an added set.
  \<^item> \<open>IframeTransport\<close>: the transport of uploads without XHR. \<open>UploadUi\<close>: rows, transitions and deferred
    objects of \<open>jquery.fileupload-ui.js\<close>, with the runs of \<open>UploadUiProps\<close> and \<open>UploadUiRows\<close>. \<open>Double\<close>: the
    rounding of JavaScript's numbers, for sizes and times that are shown.
  \<^item> \<open>Dialogs\<close>: side menu, layers and account panel. \<open>Player\<close> and \<open>Variables\<close>: navigation, plug-ins, and the
    global variables that go from page to page in the address.
  \<^item> \<open>MessageCenter\<close>: browser flags, and the centers of a page and its frames.
  \<^item> \<open>Calendar\<close>, \<open>Sto\<close>, \<open>StoProps\<close>: the expressions of the prototype with their dates, and their soundness.
    \<open>Geometry\<close>, \<open>Regions\<close>: polygons under the mouse and the flyouts; \<open>RegionsProps\<close> and \<open>RegionsShape\<close> their
    invariants and shapes, \<open>RegionsLimits\<close> what goes wrong. \<open>Transform\<close>: matrices, rotations, bounding
    rectangles. \<open>TreeWidget\<close>: opening and closing nodes. \<open>ResizeMove\<close>, \<open>ResizeMoveProps\<close>: queued moves,
    resizings and rotations; \<open>AnimationQueue\<close>, \<open>AnimationQueueProps\<close>: the queues of animations. \<open>Repeater\<close>: the rows of a repeater; \<open>RepeaterSort\<close> their order,
    \<open>RepeaterProps\<close> their pages, their deletion and the identifiers of their elements.
  \<^item> \<open>Sitemap\<close>, \<open>SitemapProps\<close>: the list of pages around the prototype (\<open>startPost.js\<close>) with search and tool bar;
    \<open>Console\<close>, \<open>ConsoleProps\<close>: notes, and the trace of the events of the page.
  \<^item> \<open>Styles\<close>, \<open>StylesProps\<close>: the states of the widgets and their styles over each other (\<open>style.js\<close>). \<open>Adaptive\<close>: the
    adaptive views (\<open>adaptive.js\<close>), who decides on the view and what a change of it draws; \<open>AdaptiveProps\<close> the view for a
    window and the agreement with the tool bar of \<open>Sitemap\<close>, \<open>AdaptiveLook\<close> that the page shows its view after every event.

  \<^bold>\<open>State and effects.\<close> A page is a record that extends the browser's; a function of the source is a
  function on that record with the name it has there, and the success handler of a request is a function
  of its own, called when the answer arrives. A pending request is an entry of the record; answers come
  in any order unless a theorem says otherwise. Asynchronous code is a step per event, and a run is a
  list of events. Exceptions are values: \<open>throw\<close> in a page, \<open>None\<close> elsewhere.

  \<^bold>\<open>What the lemmas show.\<close> The digest is the one of RFC 1321 and RFC 2104 for every string below \<open>2 ^ 28\<close>
  characters (beyond, the bit count of the code leaves 32 bits). Cookies: what is set is read, what is
  deleted is gone. Login, registration and password change: which request is sent in which case, and
  what the cookies hold after the answer. File manager: invariants over all runs (no request to the
  account server in anonymous mode; the button says what it does if answers come in order) and the
  functional behaviour of lists, selection, upload. Upload widget: counters, limit and order as
  invariants over all runs; the chunks cover a file and end; the sets of files are a partition within the
  limits; a set is submitted by itself only if each file is valid; an answer takes the places of its rows.
  Message centers: they refine one shared state, and keep order in batches and queues. Prototype: variables
  survive a change of page; well-typed expressions are evaluated without an exception; flyouts keep their
  invariants in every run and close when the mouse leaves them; every queued animation is played whole; the
  rows of a repeater are the stable sort of those that pass the filters, its pages divide them, and an event
  that deletes rows still reads every row under its first number; what a page shows in an adaptive view does not depend
  on the views before it, and page and tool bar agree on the view. Where the code does not do what it means
  to, the theorem states what it does.

  \<^bold>\<open>Conventions.\<close> A string is a list of characters below 256 where the source handles bytes or ASCII, and
  a list of UTF-16 units in \<open>JsString\<close>; texts in Chinese are English glosses. Numbers of the source are
  integers where they are used as such; bit rates and random numbers are exact fractions where the
  source rounds to doubles. Recursions are structural or end by a measure (files not yet taken, bytes not
  yet sent); the JSON parser has fuel, and the length of the text is enough. The loops of \<open>ResizeMove\<close> may run for
  ever, so they are partial functions whose \<open>None\<close> is no end; the main theorem on them has that they end. The chain of
  base views of \<open>Adaptive\<close> is such a loop too; it ends when the base views have ranks.

  \<^bold>\<open>Not modelled.\<close> Styling and layout; the vendored libraries (AmazeUI, jQuery, Handlebars); the rest of the
  runtime of the prototyping tool (positions and texts that are drawn, the setting of hover and selection, the dispatch of events, drag and swipe,
  recording); the upload plug-ins that need media or templates (image, audio, video, Angular);
  the Go node, which the pages only know through its answers. Listeners and callbacks of the page are parameters or
  names and do not call back into the component; exceptions of an option of the wrong type are left out in
  \<open>UploadProcess\<close>. In \<open>Geometry\<close>, \<open>Regions\<close> and \<open>Transform\<close> numbers are real, without the rounding of doubles.
\<close>

end
